(* ===== verification/Prelude.thy ===== *)
theory Prelude
  imports Main "HOL-Library.Word" "HOL-Library.AList"
begin

text \<open>
  Shared vocabulary of the development: the exceptions of the Java code, the
  state-and-exception combinators in which the stateful services are written, the parts of
  the Java string and integer library that the code relies on (blank strings, splitting and
  joining of comma separated lists, decimal rendering and parsing, the narrowing of a long to
  an int), the semantics of the SQL statements that the MyBatis-Plus wrappers denote, and the
  generic lemmas about all of these.
\<close>

named_theorems monad_simps \<open>unfolding of the state-and-exception combinators\<close>
named_theorems preserves_intros \<open>structural rules for invariants of stateful operations\<close>
named_theorems table_simps \<open>laws of the table operations\<close>

section \<open>Exceptions and stateful computations\<close>

text \<open>
  An exception that leaves a Java method is a value.  The state survives an exception: the
  services write to the database as they go, and the handlers are not rolled back by the
  callers modelled here.
\<close>

datatype exn =
    NullPointerException
  | RuntimeException string
  | IndexOutOfBoundsException
  | NumberFormatException
  | UnsupportedOperationException
  | IllegalArgumentException string
  | IllegalStateException string
  | RejectedExecutionException
  | DuplicateKeyException
  | ErSessionException string
  | Caused_by exn

type_synonym ('w, 'a) comp = "'w \<Rightarrow> (exn + 'a) \<times> 'w"

definition mreturn :: "'a \<Rightarrow> ('w, 'a) comp" where
  "mreturn x = (\<lambda>w. (Inr x, w))"

definition mthrow :: "exn \<Rightarrow> ('w, 'a) comp" where
  "mthrow e = (\<lambda>w. (Inl e, w))"

definition mbind :: "('w, 'a) comp \<Rightarrow> ('a \<Rightarrow> ('w, 'b) comp) \<Rightarrow> ('w, 'b) comp" where
  "mbind m f = (\<lambda>w. case m w of (Inl e, w') \<Rightarrow> (Inl e, w') | (Inr x, w') \<Rightarrow> f x w')"

definition mget :: "('w \<Rightarrow> 'a) \<Rightarrow> ('w, 'a) comp" where
  "mget f = (\<lambda>w. (Inr (f w), w))"

definition mupd :: "('w \<Rightarrow> 'w) \<Rightarrow> ('w, unit) comp" where
  "mupd f = (\<lambda>w. (Inr (), f w))"

definition mwhen :: "bool \<Rightarrow> ('w, unit) comp \<Rightarrow> ('w, unit) comp" where
  "mwhen b m = (if b then m else mreturn ())"

text \<open>A Java for-each loop: the first exception ends it.\<close>

fun mfor :: "('a \<Rightarrow> ('w, unit) comp) \<Rightarrow> 'a list \<Rightarrow> ('w, unit) comp" where
  "mfor f [] = mreturn ()"
| "mfor f (x # xs) = mbind (f x) (\<lambda>_. mfor f xs)"

text \<open>A loop that also collects the (mutated) elements it visits.\<close>

fun mmap :: "('a \<Rightarrow> ('w, 'b) comp) \<Rightarrow> 'a list \<Rightarrow> ('w, 'b list) comp" where
  "mmap f [] = mreturn []"
| "mmap f (x # xs) = mbind (f x) (\<lambda>y. mbind (mmap f xs) (\<lambda>ys. mreturn (y # ys)))"

text \<open>\<open>try \<dots> catch (Exception e) throw new RuntimeException(e)\<close>.\<close>

definition mrethrow :: "('w, 'a) comp \<Rightarrow> ('w, 'a) comp" where
  "mrethrow m = (\<lambda>w. case m w of (Inl e, w') \<Rightarrow> (Inl (Caused_by e), w') | (Inr x, w') \<Rightarrow> (Inr x, w'))"

text \<open>A result that may already be an exception (a pure method that throws).\<close>

definition mlift :: "exn + 'a \<Rightarrow> ('w, 'a) comp" where
  "mlift r = (\<lambda>w. (r, w))"

lemmas [monad_simps] = mreturn_def mthrow_def mget_def mupd_def mwhen_def

lemma mbind_Inr [monad_simps]: "m w = (Inr x, w') \<Longrightarrow> mbind m f w = f x w'"
  by (simp add: mbind_def)

lemma mbind_Inl [monad_simps]: "m w = (Inl e, w') \<Longrightarrow> mbind m f w = (Inl e, w')"
  by (simp add: mbind_def)

lemma mbind_return [simp]: "mbind (mreturn x) f = f x"
  by (simp add: mbind_def mreturn_def)

lemma mbind_get [monad_simps]: "mbind (mget g) f = (\<lambda>w. f (g w) w)"
  by (simp add: mbind_def mget_def)

lemma mbind_upd [monad_simps]: "mbind (mupd g) f = (\<lambda>w. f () (g w))"
  by (simp add: mbind_def mupd_def)

lemma mbind_throw [simp]: "mbind (mthrow e) f = mthrow e"
  by (simp add: mbind_def mthrow_def)

lemma mwhen_True [simp]: "mwhen True m = m"
  by (simp add: mwhen_def)

lemma mwhen_False [simp]: "mwhen False m = mreturn ()"
  by (simp add: mwhen_def)

lemma mreturn_app [simp]: "mreturn x w = (Inr x, w)"
  by (simp add: mreturn_def)

lemma mthrow_app [simp]: "mthrow e w = (Inl e, w)"
  by (simp add: mthrow_def)

lemma mget_app [simp]: "mget g w = (Inr (g w), w)"
  by (simp add: mget_def)

lemma mupd_app [simp]: "mupd g w = (Inr (), g w)"
  by (simp add: mupd_def)

text \<open>
  An operation keeps an invariant when it survives normal and exceptional exits; a result it
  returns satisfies the given postcondition.
\<close>

definition keeps :: "('w \<Rightarrow> bool) \<Rightarrow> ('w, 'a) comp \<Rightarrow> ('a \<Rightarrow> bool) \<Rightarrow> bool" where
  "keeps I m Q \<longleftrightarrow> (\<forall>w. I w \<longrightarrow> I (snd (m w)) \<and> (\<forall>x. fst (m w) = Inr x \<longrightarrow> Q x))"

lemma keepsI:
  "(\<And>w r w'. I w \<Longrightarrow> m w = (r, w') \<Longrightarrow> I w' \<and> (\<forall>x. r = Inr x \<longrightarrow> Q x)) \<Longrightarrow> keeps I m Q"
  unfolding keeps_def by (metis prod.collapse)

lemma keepsD: "keeps I m Q \<Longrightarrow> I w \<Longrightarrow> m w = (r, w') \<Longrightarrow> I w'"
  unfolding keeps_def by (metis snd_conv)

lemma keeps_result: "keeps I m Q \<Longrightarrow> I w \<Longrightarrow> m w = (Inr x, w') \<Longrightarrow> Q x"
  unfolding keeps_def by (metis fst_conv)

lemma keeps_snd: "keeps I m Q \<Longrightarrow> I w \<Longrightarrow> I (snd (m w))"
  by (simp add: keeps_def)

lemma keeps_weaken: "keeps I m Q \<Longrightarrow> (\<And>x. Q x \<Longrightarrow> R x) \<Longrightarrow> keeps I m R"
  by (auto simp: keeps_def)

lemma keeps_mreturn [preserves_intros]: "Q x \<Longrightarrow> keeps I (mreturn x) Q"
  by (simp add: keeps_def)

lemma keeps_mthrow [preserves_intros]: "keeps I (mthrow e) Q"
  by (simp add: keeps_def)

lemma keeps_mlift [preserves_intros]: "(\<And>x. r = Inr x \<Longrightarrow> Q x) \<Longrightarrow> keeps I (mlift r) Q"
  by (simp add: keeps_def mlift_def)

lemma keeps_mget [preserves_intros]: "(\<And>w. I w \<Longrightarrow> Q (f w)) \<Longrightarrow> keeps I (mget f) Q"
  by (simp add: keeps_def)

lemma keeps_mupd [preserves_intros]: "(\<And>w. I w \<Longrightarrow> I (f w)) \<Longrightarrow> Q () \<Longrightarrow> keeps I (mupd f) Q"
  by (simp add: keeps_def)

lemma keeps_mbind:
  assumes "keeps I m Q" and "\<And>x. Q x \<Longrightarrow> keeps I (f x) R"
  shows "keeps I (mbind m f) R"
proof (rule keepsI)
  fix w r w' assume w: "I w" "mbind m f w = (r, w')"
  obtain q v where mw: "m w = (q, v)" by (cases "m w")
  with w(1) assms(1) have "I v" by (blast dest: keepsD)
  with mw w assms show "I w' \<and> (\<forall>x. r = Inr x \<longrightarrow> R x)"
    by (cases q) (auto simp: mbind_def dest: keepsD keeps_result)
qed

lemma keeps_mrethrow [preserves_intros]: "keeps I m Q \<Longrightarrow> keeps I (mrethrow m) Q"
  by (force simp: keeps_def mrethrow_def split: prod.splits sum.splits)

lemma keeps_mwhen [preserves_intros]: "(b \<Longrightarrow> keeps I m Q) \<Longrightarrow> Q () \<Longrightarrow> keeps I (mwhen b m) Q"
  by (simp add: mwhen_def keeps_mreturn)

lemma keeps_if [preserves_intros]:
  "(b \<Longrightarrow> keeps I m Q) \<Longrightarrow> (\<not> b \<Longrightarrow> keeps I n Q) \<Longrightarrow> keeps I (if b then m else n) Q"
  by simp

lemma keeps_case_option [preserves_intros]:
  "(z = None \<Longrightarrow> keeps I m Q) \<Longrightarrow> (\<And>x. z = Some x \<Longrightarrow> keeps I (f x) Q) \<Longrightarrow>
   keeps I (case z of None \<Rightarrow> m | Some x \<Rightarrow> f x) Q"
  by (cases z) auto

lemma keeps_mfor [preserves_intros]:
  assumes "\<And>x. x \<in> set xs \<Longrightarrow> keeps I (f x) (\<lambda>_. True)" and "Q ()"
  shows "keeps I (mfor f xs) Q"
  using assms
  by (induction xs) (auto intro!: keeps_mreturn keeps_mbind[where Q = "\<lambda>_. True"])

lemma keeps_mmap [preserves_intros]:
  assumes "\<And>x. x \<in> set xs \<Longrightarrow> keeps I (f x) Q"
  shows "keeps I (mmap f xs) (\<lambda>ys. \<forall>y \<in> set ys. Q y)"
  using assms
proof (induction xs)
  case (Cons x xs)
  have "keeps I (f x) Q" and "keeps I (mmap f xs) (\<lambda>ys. \<forall>y \<in> set ys. Q y)"
    using Cons by auto
  then show ?case by (auto intro!: keeps_mbind keeps_mreturn)
qed (simp add: keeps_mreturn)

abbreviation preserves :: "('w \<Rightarrow> bool) \<Rightarrow> ('w, 'a) comp \<Rightarrow> bool" where
  "preserves I m \<equiv> keeps I m (\<lambda>_. True)"

lemma mlift_simps [simp]: "mlift (Inr x) = mreturn x" "mlift (Inl e) = mthrow e"
  by (simp_all add: mlift_def mreturn_def mthrow_def)

lemma mrethrow_simps [simp]:
  "mrethrow (mreturn x) = mreturn x" "mrethrow (mthrow e) = mthrow (Caused_by e)"
  by (simp_all add: mrethrow_def mreturn_def mthrow_def)

lemma mfor_upd: "mfor (\<lambda>x. mupd (f x)) xs w = (Inr (), fold f xs w)"
  by (induction xs arbitrary: w) (simp_all add: mbind_upd)

lemma fold_keeps: "(\<And>x w. x \<in> set xs \<Longrightarrow> I w \<Longrightarrow> I (f x w)) \<Longrightarrow> I w \<Longrightarrow> I (fold f xs w)"
  by (induction xs arbitrary: w) auto

lemma mfor_append: "mfor f (xs @ ys) = mbind (mfor f xs) (\<lambda>_. mfor f ys)"
  by (induction xs) (auto simp: mbind_def fun_eq_iff split: prod.splits sum.splits)

section \<open>Java strings\<close>

text \<open>A null string is \<^term>\<open>None\<close>; \<open>StringUtils.isEmpty\<close> and \<open>isBlank\<close> accept it.\<close>

definition isEmpty :: "string option \<Rightarrow> bool" where
  "isEmpty s \<longleftrightarrow> s = None \<or> s = Some []"

definition is_whitespace :: "char \<Rightarrow> bool" where
  "is_whitespace c \<longleftrightarrow> c \<in> {CHR 0x09, CHR 0x0A, CHR 0x0B, CHR 0x0C, CHR 0x0D, CHR 0x1C, CHR 0x1D, CHR 0x1E, CHR 0x1F, CHR '' ''}"

definition isBlank :: "string option \<Rightarrow> bool" where
  "isBlank s = (case s of None \<Rightarrow> True | Some cs \<Rightarrow> list_all is_whitespace cs)"

definition java_trim :: "string \<Rightarrow> string" where
  "java_trim s = rev (dropWhile (\<lambda>c. of_char c \<le> (32::nat)) (rev (dropWhile (\<lambda>c. of_char c \<le> (32::nat)) s)))"

lemma java_trim_idem [simp]: "java_trim (java_trim s) = java_trim s"
proof -
  let ?P = "\<lambda>c. of_char c \<le> (32::nat)"
  define t where "t = dropWhile ?P s"
  define u where "u = rev (dropWhile ?P (rev t))"
  have t: "t = [] \<or> \<not> ?P (hd t)" unfolding t_def by (metis hd_dropWhile)
  have "rev t = takeWhile ?P (rev t) @ rev u" unfolding u_def by simp
  then have "t = u @ rev (takeWhile ?P (rev t))" by (metis rev_append rev_rev_ident)
  then have "u = [] \<or> \<not> ?P (hd u)" using t by (metis hd_append2 append_is_Nil_conv)
  then have "dropWhile ?P u = u" by (cases u) auto
  moreover have "dropWhile ?P (rev u) = rev u" unfolding u_def by simp
  ultimately show ?thesis by (simp add: java_trim_def t_def[symmetric] u_def[symmetric])
qed

lemma isBlank_simps [simp]:
  "isBlank None" "isBlank (Some [])"
  "isBlank (Some (c # cs)) \<longleftrightarrow> is_whitespace c \<and> isBlank (Some cs)"
  by (simp_all add: isBlank_def)

lemma isEmpty_simps [simp]: "isEmpty None" "isEmpty (Some [])" "\<not> isEmpty (Some (c # cs))"
  by (simp_all add: isEmpty_def)

lemma isEmpty_imp_isBlank: "isEmpty s \<Longrightarrow> isBlank s"
  by (auto simp: isEmpty_def)

text \<open>
  \<open>String.split\<close> with a one-character separator: a string without the separator is returned
  whole, otherwise trailing empty pieces are dropped.  \<open>String.join\<close> is its companion.
\<close>

fun pieces :: "char \<Rightarrow> string \<Rightarrow> string list" where
  "pieces c [] = [[]]"
| "pieces c (x # xs) =
     (if x = c then [] # pieces c xs
      else (case pieces c xs of [] \<Rightarrow> [[x]] | p # ps \<Rightarrow> (x # p) # ps))"

definition java_split :: "char \<Rightarrow> string \<Rightarrow> string list" where
  "java_split c s =
     (if c \<in> set s then rev (dropWhile (\<lambda>p. p = []) (rev (pieces c s))) else [s])"

fun java_join :: "char \<Rightarrow> string list \<Rightarrow> string" where
  "java_join c [] = []"
| "java_join c [p] = p"
| "java_join c (p # q # ps) = p @ c # java_join c (q # ps)"

lemma pieces_nonempty [simp]: "pieces c s \<noteq> []"
  by (induction s) (auto split: list.splits)

lemma pieces_no_sep: "c \<notin> set s \<Longrightarrow> pieces c s = [s]"
  by (induction s) auto

lemma pieces_append_sep: "c \<notin> set p \<Longrightarrow> pieces c (p @ c # s) = p # pieces c s"
  by (induction p) auto

lemma pieces_join:
  "ps \<noteq> [] \<Longrightarrow> (\<And>p. p \<in> set ps \<Longrightarrow> c \<notin> set p) \<Longrightarrow> pieces c (java_join c ps) = ps"
  by (induction c ps rule: java_join.induct) (auto simp: pieces_no_sep pieces_append_sep)

lemma sep_in_join: "c \<in> set (java_join c (p # q # ps))"
  by simp

text \<open>Splitting undoes joining for a non-empty list of separator-free, non-empty entries.\<close>

lemma java_split_join:
  assumes "ps \<noteq> []" and "\<And>p. p \<in> set ps \<Longrightarrow> c \<notin> set p" and "last ps \<noteq> []"
  shows "java_split c (java_join c ps) = ps"
proof (cases "c \<in> set (java_join c ps)")
  case True
  have "dropWhile (\<lambda>p. p = []) (rev ps) = rev ps"
    using assms(1,3) by (cases ps rule: rev_cases) auto
  with True assms(1,2) show ?thesis by (simp add: java_split_def pieces_join)
next
  case False
  then have "length ps \<le> 1"
    by (cases ps; cases "tl ps") (auto simp: sep_in_join)
  with assms(1) obtain p where "ps = [p]" by (cases ps; cases "tl ps") auto
  with False show ?thesis by (simp add: java_split_def)
qed

lemma pieces_sep_free: "p \<in> set (pieces c s) \<Longrightarrow> c \<notin> set p"
  by (induction s arbitrary: p) (auto split: list.splits if_splits)

lemma java_split_sep_free: "p \<in> set (java_split c s) \<Longrightarrow> c \<notin> set p"
  by (auto simp: java_split_def split: if_splits dest!: set_dropWhileD dest: pieces_sep_free)

section \<open>Java integers\<close>

text \<open>
  Decimal rendering of integers (\<open>String.valueOf\<close>) and \<open>Integer.parseInt\<close>: an optional sign
  and at least one digit, within the range of an int.
\<close>

definition digit_char :: "nat \<Rightarrow> char" where
  "digit_char d = char_of (48 + d)"

definition char_digit :: "char \<Rightarrow> nat option" where
  "char_digit c = (let k = of_char c in if 48 \<le> k \<and> k \<le> (57::nat) then Some (k - 48) else None)"

fun string_of_nat :: "nat \<Rightarrow> string" where
  "string_of_nat n = (if n < 10 then [digit_char n] else string_of_nat (n div 10) @ [digit_char (n mod 10)])"

declare string_of_nat.simps [simp del]

definition string_of_int :: "int \<Rightarrow> string" where
  "string_of_int i = (if i < 0 then CHR ''-'' # string_of_nat (nat (- i)) else string_of_nat (nat i))"

fun digits_value :: "nat \<Rightarrow> string \<Rightarrow> nat option" where
  "digits_value acc [] = Some acc"
| "digits_value acc (c # cs) =
     (case char_digit c of None \<Rightarrow> None | Some d \<Rightarrow> digits_value (10 * acc + d) cs)"

definition parse_nat :: "string \<Rightarrow> nat option" where
  "parse_nat cs = (if cs = [] then None else digits_value 0 cs)"

definition int_range :: "int \<Rightarrow> bool" where
  "int_range i \<longleftrightarrow> - (2 ^ 31) \<le> i \<and> i < 2 ^ 31"

definition parseInt :: "string \<Rightarrow> int option" where
  "parseInt s =
     (let v = (if s \<noteq> [] \<and> hd s = CHR ''-'' then map_option (\<lambda>n. - int n) (parse_nat (tl s))
               else if s \<noteq> [] \<and> hd s = CHR ''+'' then map_option int (parse_nat (tl s))
               else map_option int (parse_nat s))
      in case v of None \<Rightarrow> None | Some i \<Rightarrow> if int_range i then Some i else None)"

lemma of_char_digit_char: "d < 10 \<Longrightarrow> of_char (digit_char d) = (48 + d :: nat)"
  by (simp add: digit_char_def)

lemma char_digit_digit_char [simp]: "d < 10 \<Longrightarrow> char_digit (digit_char d) = Some d"
  by (simp add: char_digit_def of_char_digit_char)

lemma digits_value_append:
  "digits_value acc (xs @ ys) = Option.bind (digits_value acc xs) (\<lambda>v. digits_value v ys)"
  by (induction xs arbitrary: acc) (auto split: option.splits)

lemma digits_value_string_of_nat: "digits_value 0 (string_of_nat n) = Some n"
proof (induction n rule: string_of_nat.induct)
  case (1 n)
  show ?case
  proof (cases "n < 10")
    case True
    then show ?thesis by (simp add: string_of_nat.simps[of n])
  next
    case False
    with 1 have "digits_value 0 (string_of_nat (n div 10)) = Some (n div 10)" by simp
    with False show ?thesis by (simp add: string_of_nat.simps[of n] digits_value_append)
  qed
qed

lemma string_of_nat_nonempty [simp]: "string_of_nat n \<noteq> []"
  by (subst string_of_nat.simps) simp

lemma parse_nat_string_of_nat [simp]: "parse_nat (string_of_nat n) = Some n"
  by (simp add: parse_nat_def digits_value_string_of_nat)

lemma set_string_of_nat: "c \<in> set (string_of_nat n) \<Longrightarrow> \<exists>d < 10. c = digit_char d"
proof (induction n rule: string_of_nat.induct)
  case (1 n)
  then show ?case
    by (cases "n < 10") (auto simp: string_of_nat.simps[of n] intro: exI[of _ "n mod 10"])
qed

lemma digit_char_neq: "d < 10 \<Longrightarrow> of_char c < (48::nat) \<or> (57::nat) < of_char c \<Longrightarrow> digit_char d \<noteq> c"
  using of_char_digit_char by fastforce

lemma string_of_nat_not_sign:
  assumes "of_char c < (48::nat) \<or> (57::nat) < of_char c"
  shows "c \<notin> set (string_of_nat n)"
  using set_string_of_nat digit_char_neq assms by blast

lemma sign_not_in_string_of_nat [simp]:
  "CHR ''-'' \<notin> set (string_of_nat n)" "CHR ''+'' \<notin> set (string_of_nat n)"
  "CHR '','' \<notin> set (string_of_nat n)" "CHR '':'' \<notin> set (string_of_nat n)"
  by (simp_all add: string_of_nat_not_sign)

lemma comma_not_in_string_of_int [simp]:
  "CHR '','' \<notin> set (string_of_int i)" "CHR '':'' \<notin> set (string_of_int i)"
  by (simp_all add: string_of_int_def)

lemma string_of_int_nonempty [simp]: "string_of_int i \<noteq> []"
  by (simp add: string_of_int_def)

text \<open>Parsing undoes rendering for every int.\<close>

lemma parseInt_string_of_int: "int_range i \<Longrightarrow> parseInt (string_of_int i) = Some i"
proof (cases "i < 0")
  case True
  moreover assume "int_range i"
  ultimately show ?thesis by (simp add: parseInt_def string_of_int_def)
next
  case False
  assume r: "int_range i"
  have "hd (string_of_nat (nat i)) \<noteq> CHR ''-''" "hd (string_of_nat (nat i)) \<noteq> CHR ''+''"
    by (metis hd_in_set sign_not_in_string_of_nat(1) string_of_nat_nonempty)
       (metis hd_in_set sign_not_in_string_of_nat(2) string_of_nat_nonempty)
  with r False show ?thesis by (simp add: parseInt_def string_of_int_def)
qed

lemma parseInt_range: "parseInt s = Some i \<Longrightarrow> int_range i"
  by (auto simp: parseInt_def Let_def split: if_splits option.splits list.splits)

lemma string_of_int_inject: "int_range i \<Longrightarrow> int_range j \<Longrightarrow> string_of_int i = string_of_int j \<longleftrightarrow> i = j"
  by (metis option.inject parseInt_string_of_int)

lemma string_of_nat_inject [simp]: "string_of_nat m = string_of_nat n \<longleftrightarrow> m = n"
  by (metis option.inject parse_nat_string_of_nat)

text \<open>\<open>Long.intValue()\<close> keeps the low 32 bits and reads them as a signed int.\<close>

definition intValue :: "int \<Rightarrow> int" where
  "intValue x = sint (word_of_int x :: 32 word)"

lemma intValue_id: "int_range x \<Longrightarrow> intValue x = x"
  unfolding intValue_def int_range_def
  by (simp add: sint_sbintrunc' signed_take_bit_int_eq_self)

lemma intValue_range: "int_range (intValue x)"
  using sint_range_size[of "word_of_int x :: 32 word"]
  by (simp add: intValue_def int_range_def word_size)

section \<open>Tables\<close>

text \<open>
  A table is the list of its rows.  The wrappers that the services build denote SQL
  statements: a WHERE clause is a predicate on rows, a SET clause a function on rows.
\<close>

definition sql_select :: "('r \<Rightarrow> bool) \<Rightarrow> 'r list \<Rightarrow> 'r list" where
  "sql_select P t = filter P t"

definition sql_update :: "('r \<Rightarrow> bool) \<Rightarrow> ('r \<Rightarrow> 'r) \<Rightarrow> 'r list \<Rightarrow> 'r list" where
  "sql_update P f t = map (\<lambda>r. if P r then f r else r) t"

definition sql_delete :: "('r \<Rightarrow> bool) \<Rightarrow> 'r list \<Rightarrow> 'r list" where
  "sql_delete P t = filter (\<lambda>r. \<not> P r) t"

definition sql_insert :: "'r \<Rightarrow> 'r list \<Rightarrow> 'r list" where
  "sql_insert r t = t @ [r]"

definition sql_get :: "('r \<Rightarrow> bool) \<Rightarrow> 'r list \<Rightarrow> 'r option" where
  "sql_get P t = find P t"

lemma sql_select_simps [simp]:
  "sql_select P [] = []" "sql_select P (r # t) = (if P r then r # sql_select P t else sql_select P t)"
  by (simp_all add: sql_select_def)

lemma sql_update_simps [simp]:
  "sql_update P f [] = []"
  "sql_update P f (r # t) = (if P r then f r else r) # sql_update P f t"
  by (simp_all add: sql_update_def)

lemma sql_get_simps [simp]:
  "sql_get P [] = None" "sql_get P (r # t) = (if P r then Some r else sql_get P t)"
  by (simp_all add: sql_get_def)

lemma sql_get_None: "sql_get P t = None \<longleftrightarrow> (\<forall>r \<in> set t. \<not> P r)"
  by (auto simp: sql_get_def find_None_iff)

lemma sql_get_SomeD: "sql_get P t = Some r \<Longrightarrow> r \<in> set t \<and> P r"
  by (auto simp: sql_get_def find_Some_iff)

lemma set_sql_update: "set (sql_update P f t) = (\<lambda>r. if P r then f r else r) ` set t"
  by (simp add: sql_update_def)

lemma set_sql_select [simp]: "set (sql_select P t) = {r \<in> set t. P r}"
  by (auto simp: sql_select_def)

lemma sql_get_update:
  assumes "\<And>r. Q (f r) = Q r"
  shows "sql_get Q (sql_update P f t) = map_option (\<lambda>r. if P r then f r else r) (sql_get Q t)"
  by (induction t) (use assms in auto)

lemma sql_select_update:
  assumes "\<And>r. Q (f r) = Q r"
  shows "sql_select Q (sql_update P f t) = sql_update P f (sql_select Q t)"
  by (induction t) (use assms in auto)

lemma sql_update_none: "(\<And>r. r \<in> set t \<Longrightarrow> \<not> P r) \<Longrightarrow> sql_update P f t = t"
  by (induction t) auto

lemma map_sql_update: "(\<And>r. g (f r) = g r) \<Longrightarrow> map g (sql_update P f t) = map g t"
  by (induction t) auto

lemma sql_update_False [simp]: "sql_update (\<lambda>_. False) f t = t"
  by (simp add: sql_update_def)

text \<open>
  What the services rely on of the mapper of a table with a primary key: a row is found again
  under its key, an update of one key is seen there and nowhere else, an insert adds exactly
  one row and a delete removes it.
\<close>

locale keyed_table =
  fixes key :: "'r \<Rightarrow> 'k"
    and byId :: "'k \<Rightarrow> 't \<Rightarrow> 'r option"
    and updateById :: "'k \<Rightarrow> ('r \<Rightarrow> 'r) \<Rightarrow> 't \<Rightarrow> 't"
    and save :: "'r \<Rightarrow> 't \<Rightarrow> 't"
    and removeById :: "'k \<Rightarrow> 't \<Rightarrow> 't"
  assumes byId_key: "byId k t = Some r \<Longrightarrow> key r = k"
    and byId_updateById: "(\<And>r. key (f r) = key r) \<Longrightarrow>
      byId k (updateById k' f t) = (if k = k' then map_option f (byId k t) else byId k t)"
    and byId_save: "byId (key r) t = None \<Longrightarrow>
      byId k (save r t) = (if k = key r then Some r else byId k t)"
    and byId_removeById: "byId k (removeById k' t) = (if k = k' then None else byId k t)"
begin

lemma update_then_read:
  "(\<And>r. key (f r) = key r) \<Longrightarrow> byId k t = Some r \<Longrightarrow> byId k (updateById k f t) = Some (f r)"
  by (simp add: byId_updateById)

lemma update_frame:
  "(\<And>r. key (f r) = key r) \<Longrightarrow> k \<noteq> k' \<Longrightarrow> byId k (updateById k' f t) = byId k t"
  by (simp add: byId_updateById)

lemma update_missing:
  "(\<And>r. key (f r) = key r) \<Longrightarrow> byId k t = None \<Longrightarrow> byId k (updateById k' f t) = None"
  by (auto simp: byId_updateById)

lemma save_then_remove:
  "byId (key r) t = None \<Longrightarrow> byId k (removeById (key r) (save r t)) = byId k t"
  by (simp add: byId_removeById byId_save)

end

text \<open>Lists of rows with a key column satisfy the contract.\<close>

lemma keyed_list:
  "keyed_table key (\<lambda>k. sql_get (\<lambda>r. key r = k)) (\<lambda>k. sql_update (\<lambda>r. key r = k))
     sql_insert (\<lambda>k. sql_delete (\<lambda>r. key r = k))"
proof unfold_locales
  fix k t r
  show "sql_get (\<lambda>r. key r = k) t = Some r \<Longrightarrow> key r = k"
    by (auto dest: sql_get_SomeD)
next
  fix f k k' t
  assume "\<And>r. key (f r) = key r"
  then show "sql_get (\<lambda>r. key r = k) (sql_update (\<lambda>r. key r = k') f t) =
    (if k = k' then map_option f (sql_get (\<lambda>r. key r = k) t) else sql_get (\<lambda>r. key r = k) t)"
    by (induction t) auto
next
  fix r t k
  assume "sql_get (\<lambda>ra. key ra = key r) t = None"
  then show "sql_get (\<lambda>r. key r = k) (sql_insert r t) =
    (if k = key r then Some r else sql_get (\<lambda>r. key r = k) t)"
    by (induction t) (auto simp: sql_insert_def split: if_splits)
next
  fix k k' t
  show "sql_get (\<lambda>r. key r = k) (sql_delete (\<lambda>r. key r = k') t) =
    (if k = k' then None else sql_get (\<lambda>r. key r = k) t)"
    by (induction t) (auto simp: sql_delete_def)
qed

text \<open>A list without duplicates is not longer than one that has all its entries.\<close>

lemma distinct_length_le: "distinct xs \<Longrightarrow> set xs \<subseteq> set ys \<Longrightarrow> length xs \<le> length ys"
  by (metis card_length card_mono distinct_card le_trans List.finite_set)

end
