(* ===== verification/Pojo.thy ===== *)
theory Pojo
  imports Prelude
begin

text \<open>
  The message classes of \<open>org.fedai.eggroll.core.pojo\<close> that the cluster manager passes
  around, with the status enumerations of \<open>org.fedai.eggroll.core.constant\<close> and the
  conversions to and from the protobuf messages of \<open>proto/core/meta.proto\<close>.

  A field that the code lets be null has an option type.  Protobuf itself is a parameter: a
  codec turns a message into bytes and back, and what the code relies on is that parsing
  undoes serialising.
\<close>

section \<open>Enumerations\<close>

datatype SessionStatus =
    WAITING_RESOURCE | PREPARE | NEW | NEW_TIMEOUT | ACTIVE | CLOSED | KILLED | ERROR
  | ALLOCATE_RESOURCE_FAILED | FINISHED

fun session_status_name :: "SessionStatus \<Rightarrow> string" where
  "session_status_name WAITING_RESOURCE = ''WAITING_RESOURCE''"
| "session_status_name PREPARE = ''PREPARE''"
| "session_status_name NEW = ''NEW''"
| "session_status_name NEW_TIMEOUT = ''NEW_TIMEOUT''"
| "session_status_name ACTIVE = ''ACTIVE''"
| "session_status_name CLOSED = ''CLOSED''"
| "session_status_name KILLED = ''KILLED''"
| "session_status_name ERROR = ''ERROR''"
| "session_status_name ALLOCATE_RESOURCE_FAILED = ''ALLOCATE_RESOURCE_FAILED''"
| "session_status_name FINISHED = ''FINISHED''"

fun isOver :: "SessionStatus \<Rightarrow> bool" where
  "isOver WAITING_RESOURCE = False"
| "isOver PREPARE = False"
| "isOver NEW = False"
| "isOver NEW_TIMEOUT = True"
| "isOver ACTIVE = False"
| "isOver CLOSED = True"
| "isOver KILLED = True"
| "isOver ERROR = True"
| "isOver ALLOCATE_RESOURCE_FAILED = True"
| "isOver FINISHED = True"

definition session_statuses :: "SessionStatus list" where
  "session_statuses = [WAITING_RESOURCE, PREPARE, NEW, NEW_TIMEOUT, ACTIVE, CLOSED, KILLED, ERROR,
     ALLOCATE_RESOURCE_FAILED, FINISHED]"

text \<open>\<open>SessionStatus.valueOf\<close>: the constant of that name, or IllegalArgumentException.\<close>

definition session_status_valueOf :: "string \<Rightarrow> exn + SessionStatus" where
  "session_status_valueOf s =
     (case find (\<lambda>x. session_status_name x = s) session_statuses of
        Some x \<Rightarrow> Inr x | None \<Rightarrow> Inl (IllegalArgumentException s))"

datatype ProcessorStatus = P_NEW | P_RUNNING | P_STOPPED | P_KILLED | P_ERROR | P_FINISHED

fun processor_status_name :: "ProcessorStatus \<Rightarrow> string" where
  "processor_status_name P_NEW = ''NEW''"
| "processor_status_name P_RUNNING = ''RUNNING''"
| "processor_status_name P_STOPPED = ''STOPPED''"
| "processor_status_name P_KILLED = ''KILLED''"
| "processor_status_name P_ERROR = ''ERROR''"
| "processor_status_name P_FINISHED = ''FINISHED''"

datatype ResourceStatus = R_INIT | R_PRE_ALLOCATED | R_ALLOCATED | R_ALLOCATE_FAILED | R_AVAILABLE | R_RETURN

fun resource_status_value :: "ResourceStatus \<Rightarrow> string" where
  "resource_status_value R_INIT = ''init''"
| "resource_status_value R_PRE_ALLOCATED = ''pre_allocated''"
| "resource_status_value R_ALLOCATED = ''allocated''"
| "resource_status_value R_ALLOCATE_FAILED = ''allocate_failed''"
| "resource_status_value R_AVAILABLE = ''available''"
| "resource_status_value R_RETURN = ''return''"

lemma session_status_name_inject [simp]: "session_status_name a = session_status_name b \<longleftrightarrow> a = b"
  by (cases a; cases b) simp_all

lemma session_status_valueOf_name [simp]: "session_status_valueOf (session_status_name a) = Inr a"
  by (cases a) (simp_all add: session_status_valueOf_def session_statuses_def)

section \<open>Endpoints\<close>

record ErEndpoint =
  ep_host :: string
  ep_port :: int

definition endpoint_toString :: "ErEndpoint \<Rightarrow> string" where
  "endpoint_toString e = ep_host e @ '':'' @ string_of_int (ep_port e)"

text \<open>The constructor from a URL indexes the pieces without a check.\<close>

definition endpoint_of_url :: "string \<Rightarrow> exn + ErEndpoint" where
  "endpoint_of_url url =
     (let toks = java_split CHR '':'' url in
      if toks = [] then Inl IndexOutOfBoundsException
      else if length toks < 2 then Inl IndexOutOfBoundsException
      else (case parseInt (toks ! 1) of
              None \<Rightarrow> Inl NumberFormatException
            | Some p \<Rightarrow> Inr \<lparr>ep_host = toks ! 0, ep_port = p\<rparr>))"

text \<open>\<open>ErEndpoint.apply\<close> guards the same parse; a fresh endpoint has a null host, shown as None.\<close>

definition endpoint_apply :: "string option \<Rightarrow> exn + (string option \<times> int)" where
  "endpoint_apply url =
     (if isBlank url then Inr (None, 0)
      else (let split = java_split CHR '':'' (the url) in
        if 2 \<le> length split
        then (case parseInt (split ! 1) of
                None \<Rightarrow> Inl NumberFormatException
              | Some p \<Rightarrow> Inr (Some (split ! 0), p))
        else Inr (None, 0)))"

lemma java_split_endpoint:
  assumes "CHR '':'' \<notin> set h"
  shows "java_split CHR '':'' (h @ '':'' @ string_of_int p) = [h, string_of_int p]"
proof -
  have "java_split CHR '':'' (java_join CHR '':'' [h, string_of_int p]) = [h, string_of_int p]"
    by (rule java_split_join) (use assms in auto)
  then show ?thesis by simp
qed

lemma endpoint_of_url_toString:
  assumes "CHR '':'' \<notin> set (ep_host e)" and "int_range (ep_port e)"
  shows "endpoint_of_url (endpoint_toString e) = Inr e"
  using assms java_split_endpoint[of "ep_host e" "ep_port e"]
  by (simp add: endpoint_of_url_def endpoint_toString_def parseInt_string_of_int)

section \<open>Resources\<close>

record ErResource =
  res_resourceId :: int
  res_sessionId :: "string option"
  res_resourceType :: string
  res_processorId :: "int option"
  res_serverNodeId :: int
  res_total :: int
  res_used :: int
  res_allocated :: int
  res_preAllocated :: int
  res_extention :: "string option"
  res_status :: "string option"
  res_extentionCache :: "string list"

definition new_ErResource :: ErResource where
  "new_ErResource = \<lparr>res_resourceId = -1, res_sessionId = None, res_resourceType = [],
     res_processorId = None, res_serverNodeId = 0, res_total = -1, res_used = -1, res_allocated = -1,
     res_preAllocated = -1, res_extention = None, res_status = Some ''available'', res_extentionCache = []\<rparr>"

definition getUnAllocatedResource :: "ErResource \<Rightarrow> int" where
  "getUnAllocatedResource r =
     (let remain = res_total r;
          remain = (if res_allocated r > 0 then remain - res_allocated r else remain);
          remain = (if res_preAllocated r > 0 then remain - res_preAllocated r else remain)
      in remain)"

section \<open>Processors, server nodes and sessions\<close>

record ErProcessor =
  pr_id :: "int option"
  pr_sessionId :: string
  pr_serverNodeId :: int
  pr_name :: string
  pr_processorType :: string
  pr_status :: string
  pr_beforeStatus :: "string option"
  pr_commandEndpoint :: "ErEndpoint option"
  pr_transferEndpoint :: "ErEndpoint option"
  pr_pid :: "int option"
  pr_options :: "(string \<times> string) list"
  pr_tag :: string
  pr_resources :: "ErResource list"
  pr_createdAt :: "int option"
  pr_updatedAt :: "int option"

definition new_ErProcessor :: ErProcessor where
  "new_ErProcessor = \<lparr>pr_id = Some (-1), pr_sessionId = [], pr_serverNodeId = -1, pr_name = [],
     pr_processorType = [], pr_status = [], pr_beforeStatus = Some [], pr_commandEndpoint = None,
     pr_transferEndpoint = None, pr_pid = Some (-1), pr_options = [], pr_tag = [], pr_resources = [],
     pr_createdAt = None, pr_updatedAt = None\<rparr>"

record ErServerNode =
  sn_id :: int
  sn_name :: string
  sn_clusterId :: int
  sn_endpoint :: ErEndpoint
  sn_nodeType :: string
  sn_status :: string
  sn_lastHeartBeat :: "int option"
  sn_resources :: "ErResource list"

definition new_ErServerNode :: ErServerNode where
  "new_ErServerNode = \<lparr>sn_id = -1, sn_name = [], sn_clusterId = 0,
     sn_endpoint = \<lparr>ep_host = [], ep_port = -1\<rparr>, sn_nodeType = [], sn_status = [],
     sn_lastHeartBeat = None, sn_resources = []\<rparr>"

record ErSessionMeta =
  sm_id :: string
  sm_name :: string
  sm_status :: "string option"
  sm_beforeStatus :: "string option"
  sm_statusReason :: "string option"
  sm_totalProcCount :: "int option"
  sm_activeProcCount :: "int option"
  sm_tag :: "string option"
  sm_processors :: "ErProcessor list"
  sm_createTime :: "int option"
  sm_updateTime :: "int option"
  sm_options :: "(string \<times> string) list"

definition new_ErSessionMeta :: ErSessionMeta where
  "new_ErSessionMeta = \<lparr>sm_id = [], sm_name = [], sm_status = None, sm_beforeStatus = None,
     sm_statusReason = None, sm_totalProcCount = None, sm_activeProcCount = None, sm_tag = Some [],
     sm_processors = [], sm_createTime = None, sm_updateTime = None, sm_options = []\<rparr>"

definition isOverState :: "ErSessionMeta \<Rightarrow> exn + bool" where
  "isOverState s =
     (case sm_status s of
        None \<Rightarrow> Inl NullPointerException
      | Some st \<Rightarrow> (case session_status_valueOf st of Inl e \<Rightarrow> Inl e | Inr x \<Rightarrow> Inr (isOver x)))"

section \<open>Protobuf messages\<close>

record Proto_Endpoint =
  pe_host :: string
  pe_port :: int

record Proto_Resource =
  prr_type :: string
  prr_total :: int
  prr_used :: int
  prr_allocated :: int

record Proto_Processor =
  pp_id :: int
  pp_serverNodeId :: int
  pp_name :: string
  pp_processorType :: string
  pp_status :: string
  pp_commandEndpoint :: Proto_Endpoint
  pp_transferEndpoint :: Proto_Endpoint
  pp_pid :: int
  pp_options :: "(string \<times> string) list"
  pp_tag :: string

record Proto_ServerNode =
  psn_id :: int
  psn_name :: string
  psn_clusterId :: int
  psn_endpoint :: Proto_Endpoint
  psn_nodeType :: string
  psn_status :: string
  psn_resources :: "Proto_Resource list"

record Proto_SessionMeta =
  psm_id :: string
  psm_name :: string
  psm_status :: string
  psm_tag :: string
  psm_processors :: "Proto_Processor list"
  psm_options :: "(string \<times> string) list"

record ('m, 'b) codec =
  enc :: "'m \<Rightarrow> 'b"
  dec :: "'b \<Rightarrow> 'm option"

definition codec_ok :: "('m, 'b) codec \<Rightarrow> bool" where
  "codec_ok c \<longleftrightarrow> (\<forall>m. dec c (enc c m) = Some m)"

lemma codec_okD [simp]: "codec_ok c \<Longrightarrow> dec c (enc c m) = Some m"
  by (simp add: codec_ok_def)

definition endpoint_toProto :: "ErEndpoint \<Rightarrow> Proto_Endpoint" where
  "endpoint_toProto e = \<lparr>pe_host = ep_host e, pe_port = ep_port e\<rparr>"

text \<open>A parse error is logged and leaves the receiver as it was.\<close>

definition endpoint_deserialize :: "(Proto_Endpoint, 'b) codec \<Rightarrow> 'b \<Rightarrow> ErEndpoint \<Rightarrow> ErEndpoint" where
  "endpoint_deserialize c bs e =
     (case dec c bs of None \<Rightarrow> e | Some m \<Rightarrow> e\<lparr>ep_host := pe_host m, ep_port := pe_port m\<rparr>)"

definition endpoint_fromProto :: "(Proto_Endpoint, 'b) codec \<Rightarrow> Proto_Endpoint \<Rightarrow> ErEndpoint" where
  "endpoint_fromProto c m = endpoint_deserialize c (enc c m) \<lparr>ep_host = [], ep_port = 0\<rparr>"

definition endpoint_default :: Proto_Endpoint where
  "endpoint_default = \<lparr>pe_host = [], pe_port = 0\<rparr>"

definition resource_toProto :: "ErResource \<Rightarrow> Proto_Resource" where
  "resource_toProto r = \<lparr>prr_type = res_resourceType r, prr_total = res_total r,
     prr_used = res_used r, prr_allocated = res_allocated r\<rparr>"

definition resource_deserialize :: "(Proto_Resource, 'b) codec \<Rightarrow> 'b \<Rightarrow> ErResource \<Rightarrow> ErResource" where
  "resource_deserialize c bs r =
     (case dec c bs of None \<Rightarrow> r
      | Some m \<Rightarrow> r\<lparr>res_resourceType := prr_type m, res_total := prr_total m,
          res_used := prr_used m, res_allocated := prr_allocated m\<rparr>)"

definition resource_fromProto :: "(Proto_Resource, 'b) codec \<Rightarrow> Proto_Resource \<Rightarrow> ErResource" where
  "resource_fromProto c m = resource_deserialize c (enc c m) new_ErResource"

text \<open>Setting a null id or pid on the builder is a NullPointerException (unboxing).\<close>

definition processor_toProto :: "ErProcessor \<Rightarrow> exn + Proto_Processor" where
  "processor_toProto p =
     (case (pr_id p, pr_pid p) of
        (Some i, Some pid) \<Rightarrow> Inr \<lparr>pp_id = i, pp_serverNodeId = pr_serverNodeId p, pp_name = pr_name p,
          pp_processorType = pr_processorType p, pp_status = pr_status p,
          pp_commandEndpoint = (case pr_commandEndpoint p of None \<Rightarrow> endpoint_default | Some e \<Rightarrow> endpoint_toProto e),
          pp_transferEndpoint = (case pr_transferEndpoint p of None \<Rightarrow> endpoint_default | Some e \<Rightarrow> endpoint_toProto e),
          pp_pid = pid, pp_options = pr_options p, pp_tag = pr_tag p\<rparr>
      | _ \<Rightarrow> Inl NullPointerException)"

definition processor_deserialize ::
  "(Proto_Endpoint, 'b) codec \<Rightarrow> (Proto_Processor, 'c) codec \<Rightarrow> 'c \<Rightarrow> ErProcessor \<Rightarrow> ErProcessor" where
  "processor_deserialize ce c bs p =
     (case dec c bs of None \<Rightarrow> p
      | Some m \<Rightarrow> p\<lparr>pr_id := Some (pp_id m), pr_serverNodeId := pp_serverNodeId m, pr_name := pp_name m,
          pr_processorType := pp_processorType m, pr_status := pp_status m,
          pr_commandEndpoint := Some (endpoint_fromProto ce (pp_commandEndpoint m)),
          pr_transferEndpoint := Some (endpoint_fromProto ce (pp_transferEndpoint m)),
          pr_options := pp_options m, pr_pid := Some (pp_pid m), pr_tag := pp_tag m\<rparr>)"

definition processor_fromProto ::
  "(Proto_Endpoint, 'b) codec \<Rightarrow> (Proto_Processor, 'c) codec \<Rightarrow> Proto_Processor \<Rightarrow> ErProcessor" where
  "processor_fromProto ce c m = processor_deserialize ce c (enc c m) new_ErProcessor"

definition serverNode_toProto :: "ErServerNode \<Rightarrow> Proto_ServerNode" where
  "serverNode_toProto n = \<lparr>psn_id = sn_id n, psn_name = sn_name n, psn_clusterId = sn_clusterId n,
     psn_endpoint = endpoint_toProto (sn_endpoint n), psn_nodeType = sn_nodeType n,
     psn_status = sn_status n, psn_resources = map resource_toProto (sn_resources n)\<rparr>"

definition serverNode_deserialize ::
  "(Proto_Endpoint, 'b) codec \<Rightarrow> (Proto_Resource, 'd) codec \<Rightarrow> (Proto_ServerNode, 'c) codec \<Rightarrow> 'c \<Rightarrow>
   ErServerNode \<Rightarrow> ErServerNode" where
  "serverNode_deserialize ce cr c bs n =
     (case dec c bs of None \<Rightarrow> n
      | Some m \<Rightarrow> n\<lparr>sn_id := psn_id m, sn_clusterId := psn_clusterId m, sn_name := psn_name m,
          sn_nodeType := psn_nodeType m, sn_status := psn_status m,
          sn_endpoint := endpoint_fromProto ce (psn_endpoint m),
          sn_resources := map (resource_fromProto cr) (psn_resources m)\<rparr>)"

fun processors_toProto :: "ErProcessor list \<Rightarrow> exn + Proto_Processor list" where
  "processors_toProto [] = Inr []"
| "processors_toProto (p # ps) =
     (case processor_toProto p of Inl e \<Rightarrow> Inl e
      | Inr m \<Rightarrow> (case processors_toProto ps of Inl e \<Rightarrow> Inl e | Inr ms \<Rightarrow> Inr (m # ms)))"

text \<open>An unset status is the empty string on the wire; a null tag is refused by the builder.\<close>

definition session_toProto :: "ErSessionMeta \<Rightarrow> exn + Proto_SessionMeta" where
  "session_toProto s =
     (case sm_tag s of
        None \<Rightarrow> Inl NullPointerException
      | Some tag \<Rightarrow>
         (case processors_toProto (sm_processors s) of
            Inl e \<Rightarrow> Inl e
          | Inr ps \<Rightarrow> Inr \<lparr>psm_id = sm_id s, psm_name = sm_name s,
              psm_status = (case sm_status s of None \<Rightarrow> [] | Some st \<Rightarrow> st), psm_tag = tag,
              psm_processors = ps,
              psm_options = (if sm_options s = [] then [] else sm_options s)\<rparr>))"

definition session_deserialize ::
  "(Proto_Endpoint, 'b) codec \<Rightarrow> (Proto_Processor, 'd) codec \<Rightarrow> (Proto_SessionMeta, 'c) codec \<Rightarrow> 'c \<Rightarrow>
   ErSessionMeta \<Rightarrow> ErSessionMeta" where
  "session_deserialize ce cp c bs s =
     (case dec c bs of None \<Rightarrow> s
      | Some m \<Rightarrow> s\<lparr>sm_processors := map (processor_fromProto ce cp) (psm_processors m),
          sm_status := Some (psm_status m), sm_name := psm_name m, sm_id := psm_id m,
          sm_options := psm_options m, sm_tag := Some (psm_tag m)\<rparr>)"

lemmas proto_defs = endpoint_toProto_def endpoint_deserialize_def endpoint_fromProto_def
  endpoint_default_def resource_toProto_def resource_deserialize_def resource_fromProto_def
  processor_toProto_def processor_deserialize_def processor_fromProto_def serverNode_toProto_def
  serverNode_deserialize_def session_toProto_def session_deserialize_def

section \<open>What survives the wire\<close>

lemma endpoint_roundtrip: "codec_ok c \<Longrightarrow> endpoint_fromProto c (endpoint_toProto e) = e"
  by (simp add: proto_defs)

text \<open>The part of a processor that crosses the wire; missing endpoints arrive as empty ones.\<close>

definition wire_endpoint :: "ErEndpoint option \<Rightarrow> ErEndpoint option" where
  "wire_endpoint e = Some (case e of None \<Rightarrow> \<lparr>ep_host = [], ep_port = 0\<rparr> | Some x \<Rightarrow> x)"

definition wire_processor :: "ErProcessor \<Rightarrow> ErProcessor" where
  "wire_processor p = p\<lparr>pr_sessionId := [], pr_beforeStatus := Some [],
     pr_commandEndpoint := wire_endpoint (pr_commandEndpoint p),
     pr_transferEndpoint := wire_endpoint (pr_transferEndpoint p),
     pr_resources := [], pr_createdAt := None, pr_updatedAt := None\<rparr>"

lemma processor_roundtrip:
  assumes "codec_ok ce" and "codec_ok c" and "processor_toProto p = Inr m"
  shows "processor_fromProto ce c m = wire_processor p"
  using assms
  by (auto simp: proto_defs wire_processor_def wire_endpoint_def new_ErProcessor_def
      split: option.splits)

lemma processors_toProto_Inr:
  "processors_toProto ps = Inr ms \<Longrightarrow> list_all2 (\<lambda>p m. processor_toProto p = Inr m) ps ms"
  by (induction ps arbitrary: ms) (auto split: sum.splits)

lemma processors_roundtrip:
  assumes "codec_ok ce" and "codec_ok c" and "processors_toProto ps = Inr ms"
  shows "map (processor_fromProto ce c) ms = map wire_processor ps"
  using processors_toProto_Inr[OF assms(3)]
  by (induction rule: list_all2_induct) (auto simp: processor_roundtrip[OF assms(1,2)])

end
