(* ===== verification/World.thy ===== *)
theory World
  imports Pojo
begin

text \<open>
  The state of the cluster manager: the database tables of
  \<open>conf/create-eggroll-meta-tables.sql\<close> that the state machines touch, with the entity classes
  of \<open>org.fedai.eggroll.clustermanager.entity\<close> as their rows; the \<open>Context\<close> of the request
  being served; the queues of the asynchronous handlers; and the commands sent to the node
  managers.  Configuration and third-party code (Jackson) are the fields of an environment
  that every operation takes as its first argument.

  The created/updated time stamps that the database maintains by itself are not modelled:
  rows keep what the code writes.
\<close>

section \<open>Environment\<close>

record env =
  use_resource_dispatch :: bool
  processors_per_node :: int
  object2Json :: "(string \<times> string) list \<Rightarrow> string"
  json2Object :: "string \<Rightarrow> (string \<times> string) list"
  now :: int
  session_polls :: "ErSessionMeta option list"

section \<open>Rows\<close>

record SessionMain =
  m_sessionId :: string
  m_name :: "string option"
  m_status :: "string option"
  m_beforeStatus :: "string option"
  m_statusReason :: "string option"
  m_tag :: "string option"
  m_totalProcCount :: "int option"
  m_activeProcCount :: "int option"
  m_createdAt :: "int option"
  m_updatedAt :: "int option"

definition new_SessionMain :: "string \<Rightarrow> SessionMain" where
  "new_SessionMain sid = \<lparr>m_sessionId = sid, m_name = None, m_status = None, m_beforeStatus = None,
     m_statusReason = None, m_tag = None, m_totalProcCount = None, m_activeProcCount = None,
     m_createdAt = None, m_updatedAt = None\<rparr>"

definition SessionMain_of ::
  "string \<Rightarrow> string \<Rightarrow> string \<Rightarrow> string option \<Rightarrow> int \<Rightarrow> int \<Rightarrow> int \<Rightarrow> int \<Rightarrow> SessionMain" where
  "SessionMain_of sid nm st tg totalCount active created updated =
     (new_SessionMain sid)\<lparr>m_name := Some nm, m_status := Some st, m_tag := tg,
       m_totalProcCount := Some totalCount, m_activeProcCount := Some active,
       m_createdAt := Some created, m_updatedAt := Some updated\<rparr>"

definition toErSessionMeta :: "SessionMain \<Rightarrow> ErSessionMeta" where
  "toErSessionMeta m =
     new_ErSessionMeta\<lparr>sm_id := m_sessionId m,
       sm_name := (case m_name m of None \<Rightarrow> [] | Some n \<Rightarrow> n),
       sm_tag := m_tag m, sm_createTime := m_createdAt m, sm_updateTime := m_updatedAt m,
       sm_status := (if isEmpty (m_status m) then None else m_status m),
       sm_totalProcCount := m_totalProcCount m, sm_activeProcCount := m_activeProcCount m\<rparr>"

record SessionOption =
  o_sessionId :: string
  o_name :: string
  o_data :: string

text \<open>The setters of the entity trim what they are given.\<close>

definition SessionOption_set :: "string \<Rightarrow> string \<Rightarrow> string \<Rightarrow> SessionOption" where
  "SessionOption_set sid n d = \<lparr>o_sessionId = java_trim sid, o_name = java_trim n, o_data = java_trim d\<rparr>"

record SessionProcessor =
  p_processorId :: int
  p_sessionId :: string
  p_serverNodeId :: int
  p_processorType :: string
  p_status :: string
  p_beforeStatus :: "string option"
  p_tag :: string
  p_commandEndpoint :: "string option"
  p_transferEndpoint :: "string option"
  p_processorOption :: "string option"
  p_pid :: "int option"
  p_createdAt :: "int option"
  p_updatedAt :: "int option"

text \<open>
  The row written for a processor.  The primary key is generated by the database
  (\<open>IdType.AUTO\<close>), so it is an argument.
\<close>

definition SessionProcessor_of :: "env \<Rightarrow> int \<Rightarrow> ErProcessor \<Rightarrow> SessionProcessor" where
  "SessionProcessor_of E pid p =
     \<lparr>p_processorId = pid, p_sessionId = pr_sessionId p, p_serverNodeId = intValue (pr_serverNodeId p),
      p_processorType = pr_processorType p, p_status = pr_status p, p_beforeStatus = None,
      p_tag = pr_tag p,
      p_commandEndpoint = map_option endpoint_toString (pr_commandEndpoint p),
      p_transferEndpoint = map_option endpoint_toString (pr_transferEndpoint p),
      p_processorOption = Some (object2Json E (pr_options p)),
      p_pid = pr_pid p, p_createdAt = pr_createdAt p, p_updatedAt = pr_updatedAt p\<rparr>"

definition read_endpoint :: "string option \<Rightarrow> exn + ErEndpoint option" where
  "read_endpoint s =
     (if isEmpty s then Inr None
      else (case endpoint_of_url (the s) of Inl e \<Rightarrow> Inl e | Inr ep \<Rightarrow> Inr (Some ep)))"

definition toErProcessor :: "env \<Rightarrow> SessionProcessor \<Rightarrow> exn + ErProcessor" where
  "toErProcessor E p =
     (case read_endpoint (p_commandEndpoint p) of
        Inl e \<Rightarrow> Inl e
      | Inr cmd \<Rightarrow>
        (case read_endpoint (p_transferEndpoint p) of
           Inl e \<Rightarrow> Inl e
         | Inr tr \<Rightarrow>
             Inr (new_ErProcessor\<lparr>pr_id := Some (p_processorId p), pr_sessionId := p_sessionId p,
               pr_serverNodeId := p_serverNodeId p, pr_processorType := p_processorType p,
               pr_status := p_status p, pr_tag := p_tag p,
               pr_commandEndpoint := cmd, pr_transferEndpoint := tr,
               pr_options := (if isEmpty (p_processorOption p) then []
                              else json2Object E (the (p_processorOption p))),
               pr_pid := p_pid p, pr_createdAt := p_createdAt p, pr_updatedAt := p_updatedAt p\<rparr>)))"

record ProcessorResource =
  x_id :: int
  x_processorId :: int
  x_sessionId :: string
  x_serverNodeId :: int
  x_resourceType :: string
  x_allocated :: int
  x_extention :: "string option"
  x_status :: "string option"

definition processorResource_toErResource :: "ProcessorResource \<Rightarrow> ErResource" where
  "processorResource_toErResource x =
     new_ErResource\<lparr>res_resourceId := x_id x, res_processorId := Some (x_processorId x),
       res_allocated := x_allocated x, res_serverNodeId := x_serverNodeId x,
       res_sessionId := Some (x_sessionId x), res_extention := x_extention x,
       res_status := x_status x, res_resourceType := x_resourceType x\<rparr>"

record NodeResource =
  n_resourceId :: int
  n_serverNodeId :: int
  n_resourceType :: string
  n_total :: int
  n_used :: int
  n_preAllocated :: int
  n_allocated :: int
  n_extention :: "string option"
  n_status :: "string option"

definition nodeResource_toErResource :: "NodeResource \<Rightarrow> ErResource" where
  "nodeResource_toErResource n =
     new_ErResource\<lparr>res_resourceId := n_resourceId n, res_resourceType := n_resourceType n,
       res_total := n_total n, res_used := n_used n, res_preAllocated := n_preAllocated n,
       res_allocated := n_allocated n, res_extention := n_extention n, res_status := n_status n\<rparr>"

record ServerNode =
  v_serverNodeId :: int
  v_name :: string
  v_serverClusterId :: int
  v_host :: string
  v_port :: int
  v_nodeType :: string
  v_status :: string
  v_lastHeartbeatAt :: "int option"

definition toErServerNode :: "ServerNode \<Rightarrow> ErServerNode" where
  "toErServerNode v =
     new_ErServerNode\<lparr>sn_id := v_serverNodeId v, sn_name := v_name v, sn_clusterId := v_serverClusterId v,
       sn_endpoint := \<lparr>ep_host = v_host v, ep_port = v_port v\<rparr>, sn_nodeType := v_nodeType v,
       sn_status := v_status v, sn_lastHeartBeat := v_lastHeartbeatAt v\<rparr>"

section \<open>Request context and asynchronous work\<close>

text \<open>The entries of \<open>Context.dataMap\<close> that the state machines use.\<close>

record ctx =
  c_processorInDb :: "ErProcessor option"
  c_sessionInDb :: "ErSessionMeta option"
  c_beforeStatus :: "string option"
  c_statusReason :: "string option"
  c_openAsyn :: bool
  c_isBreak :: bool
  c_serverNodes :: "ErServerNode list option"
  c_processorType :: "string option"

definition new_Context :: ctx where
  "new_Context = \<lparr>c_processorInDb = None, c_sessionInDb = None, c_beforeStatus = None,
     c_statusReason = None, c_openAsyn = False, c_isBreak = False, c_serverNodes = None,
     c_processorType = None\<rparr>"

datatype session_handler =
    SessionWaitResourceHandler | SessionWaitNewHandler | SessionCreateHandler
  | SessionRepeatedCreateHandler | SessionActiveHandler | SessionKillHandler | SessionStopHandler
  | SessionWaitingKillHandler | SessionIgnoreHandler

datatype processor_handler =
    ProcessorCreateHandler | ProcessorStateRunningHandler | ProcessorStatusRunningStopHandler
  | ProcessorStateNewStopHandler | ProcessorStateInvalidHandler | ProcessorStateIgnoreHandler

datatype resource_handler = ResourceStateHandler

text \<open>A submitted \<open>asynPostHandle\<close> call with the context and data it captured.\<close>

datatype ('h, 'd) task = Task (task_handler: 'h) (task_ctx: ctx) (task_data: 'd)

datatype node_command =
    StartContainers ErEndpoint string "ErProcessor list"
  | StopContainers ErEndpoint string
  | KillContainers ErEndpoint string

section \<open>The world\<close>

record world =
  session_main :: "SessionMain list"
  session_option :: "SessionOption list"
  session_processor :: "SessionProcessor list"
  processor_resource :: "ProcessorResource list"
  node_resource :: "NodeResource list"
  server_node :: "ServerNode list"
  next_processor_id :: int
  next_presource_id :: int
  next_nresource_id :: int
  next_snode_id :: int
  cx :: ctx
  session_pool :: "(session_handler, ErSessionMeta) task list"
  processor_pool :: "(processor_handler, ErProcessor) task list"
  resource_pool :: "(resource_handler, ErProcessor) task list"
  node_update_queue :: "int list"
  residual_heartbeats :: "(int \<times> ErProcessor) list"
  waiting_sessions :: "string list"
  sent_commands :: "node_command list"

definition empty_world :: world where
  "empty_world = \<lparr>session_main = [], session_option = [], session_processor = [],
     processor_resource = [], node_resource = [], server_node = [], next_processor_id = 1,
     next_presource_id = 1, next_nresource_id = 1, next_snode_id = 1, cx = new_Context,
     session_pool = [], processor_pool = [], resource_pool = [], node_update_queue = [],
     residual_heartbeats = [], waiting_sessions = [], sent_commands = []\<rparr>"

text \<open>Two worlds with the same contents of the database.\<close>

definition same_tables :: "world \<Rightarrow> world \<Rightarrow> bool" where
  "same_tables w w' \<longleftrightarrow>
     session_main w' = session_main w \<and> session_option w' = session_option w \<and>
     session_processor w' = session_processor w \<and> processor_resource w' = processor_resource w \<and>
     node_resource w' = node_resource w \<and> server_node w' = server_node w \<and>
     next_processor_id w' = next_processor_id w \<and> next_presource_id w' = next_presource_id w \<and>
     next_nresource_id w' = next_nresource_id w \<and> next_snode_id w' = next_snode_id w"

lemma same_tables_refl [simp]: "same_tables w w"
  by (simp add: same_tables_def)

lemma same_tables_frame [simp]:
  "same_tables w (w'\<lparr>cx := c\<rparr>) = same_tables w w'"
  "same_tables w (w'\<lparr>session_pool := a\<rparr>) = same_tables w w'"
  "same_tables w (w'\<lparr>processor_pool := b\<rparr>) = same_tables w w'"
  "same_tables w (w'\<lparr>resource_pool := d\<rparr>) = same_tables w w'"
  "same_tables w (w'\<lparr>node_update_queue := e\<rparr>) = same_tables w w'"
  "same_tables w (w'\<lparr>residual_heartbeats := f\<rparr>) = same_tables w w'"
  "same_tables w (w'\<lparr>waiting_sessions := g\<rparr>) = same_tables w w'"
  "same_tables w (w'\<lparr>sent_commands := h\<rparr>) = same_tables w w'"
  by (simp_all add: same_tables_def)

text \<open>
  The thread pool of a state machine has five workers and a queue of ten: a submission with
  fifteen tasks unfinished is rejected.
\<close>

definition pool_capacity :: nat where
  "pool_capacity = 15"

definition pool_submit :: "'t \<Rightarrow> 't list \<Rightarrow> exn + 't list" where
  "pool_submit t ts = (if length ts < pool_capacity then Inr (ts @ [t]) else Inl RejectedExecutionException)"

section \<open>Tables as keyed tables\<close>

interpretation sessionMain: keyed_table m_sessionId
  "\<lambda>k. sql_get (\<lambda>r. m_sessionId r = k)" "\<lambda>k. sql_update (\<lambda>r. m_sessionId r = k)"
  sql_insert "\<lambda>k. sql_delete (\<lambda>r. m_sessionId r = k)"
  by (rule keyed_list)

interpretation sessionProcessor: keyed_table p_processorId
  "\<lambda>k. sql_get (\<lambda>r. p_processorId r = k)" "\<lambda>k. sql_update (\<lambda>r. p_processorId r = k)"
  sql_insert "\<lambda>k. sql_delete (\<lambda>r. p_processorId r = k)"
  by (rule keyed_list)

interpretation nodeResource: keyed_table n_resourceId
  "\<lambda>k. sql_get (\<lambda>r. n_resourceId r = k)" "\<lambda>k. sql_update (\<lambda>r. n_resourceId r = k)"
  sql_insert "\<lambda>k. sql_delete (\<lambda>r. n_resourceId r = k)"
  by (rule keyed_list)

interpretation serverNode: keyed_table v_serverNodeId
  "\<lambda>k. sql_get (\<lambda>r. v_serverNodeId r = k)" "\<lambda>k. sql_update (\<lambda>r. v_serverNodeId r = k)"
  sql_insert "\<lambda>k. sql_delete (\<lambda>r. v_serverNodeId r = k)"
  by (rule keyed_list)

end
