(* ===== verification/Node_Resource.thy ===== *)
theory Node_Resource
  imports World
begin

text \<open>
  Resource accounting: \<open>NodeResourceService\<close> (what a node has pre-allocated, allocated and
  used, and which GPU indices are taken) and \<open>ProcessorResourceService\<close> (what each processor
  holds).  The four \<open>ResourceManager\<close> operations of the node service are shown to agree with a
  reference that applies one counter step per requested resource, to keep the counters within
  the capacity of the node, and to undo one another.
\<close>

section \<open>One row\<close>

text \<open>
  The extension column is the comma separated list of the GPU indices in use.  An index is
  added once; a null index added to a non-blank list is rendered as the word null.
\<close>

definition ext_add :: "string option \<Rightarrow> string option \<Rightarrow> string option" where
  "ext_add node res =
     (if isBlank node then res
      else (let l = java_split CHR '','' (the node) in
        Some (java_join CHR '',''
          (if res \<in> Some ` set l then l
           else l @ [case res of None \<Rightarrow> ''null'' | Some e \<Rightarrow> e]))))"

definition ext_remove :: "string option \<Rightarrow> string option \<Rightarrow> string option" where
  "ext_remove node res =
     (if isBlank node then node
      else Some (java_join CHR '','' (filter (\<lambda>e. Some e \<noteq> res) (java_split CHR '','' (the node)))))"

text \<open>The counters are longs: sums and differences wrap around at 64 bits.\<close>

definition jlong :: "int \<Rightarrow> int" where
  "jlong i = (i + 2 ^ 63) mod 2 ^ 64 - 2 ^ 63"

lemma jlong_id [simp]: "- (2 ^ 63) \<le> i \<Longrightarrow> i < 2 ^ 63 \<Longrightarrow> jlong i = i"
  by (simp add: jlong_def)

definition preAllocate_row :: "ErResource \<Rightarrow> NodeResource \<Rightarrow> NodeResource" where
  "preAllocate_row r n =
     n\<lparr>n_preAllocated := min (jlong (n_preAllocated n + res_allocated r)) (n_total n),
       n_extention := ext_add (n_extention n) (res_extention r)\<rparr>"

definition preAllocateFailed_row :: "ErResource \<Rightarrow> NodeResource \<Rightarrow> NodeResource" where
  "preAllocateFailed_row r n =
     n\<lparr>n_preAllocated := max (jlong (n_preAllocated n - res_allocated r)) 0,
       n_extention := ext_remove (n_extention n) (res_extention r)\<rparr>"

definition allocated_row :: "ErResource \<Rightarrow> NodeResource \<Rightarrow> NodeResource" where
  "allocated_row r n =
     n\<lparr>n_preAllocated := max (jlong (n_preAllocated n - res_allocated r)) 0,
       n_allocated := min (jlong (n_allocated n + res_allocated r)) (n_total n),
       n_used := min (jlong (n_used n + res_allocated r)) (n_total n)\<rparr>"

definition return_row :: "ErResource \<Rightarrow> NodeResource \<Rightarrow> NodeResource" where
  "return_row r n =
     n\<lparr>n_extention := ext_remove (n_extention n) (res_extention r),
       n_allocated := max (jlong (n_allocated n - res_allocated r)) 0,
       n_used := max (jlong (n_used n - res_allocated r)) 0\<rparr>"

section \<open>The service\<close>

text \<open>\<open>updateById\<close> writes the non-null columns of the entity.\<close>

definition nr_merge :: "NodeResource \<Rightarrow> NodeResource \<Rightarrow> NodeResource" where
  "nr_merge old new =
     new\<lparr>n_extention := (case n_extention new of None \<Rightarrow> n_extention old | Some e \<Rightarrow> Some e),
         n_status := (case n_status new of None \<Rightarrow> n_status old | Some s \<Rightarrow> Some s)\<rparr>"

definition nr_updateById :: "NodeResource \<Rightarrow> NodeResource list \<Rightarrow> NodeResource list" where
  "nr_updateById v t = sql_update (\<lambda>n. n_resourceId n = n_resourceId v) (\<lambda>n. nr_merge n v) t"

definition nr_at :: "int \<Rightarrow> string \<Rightarrow> NodeResource \<Rightarrow> bool" where
  "nr_at nid ty n \<longleftrightarrow> n_serverNodeId n = nid \<and> n_resourceType n = ty"

text \<open>
  The loop shared by the four operations: the row of the requested type is taken from the
  local map or read from the table, stepped, put back into the map, and all rows of the map
  are written.  A request for a type the node does not have ends the loop with an exception.
\<close>

fun nr_loop :: "(ErResource \<Rightarrow> NodeResource \<Rightarrow> NodeResource) \<Rightarrow> int \<Rightarrow> (string \<times> NodeResource) list \<Rightarrow>
  ErResource list \<Rightarrow> (NodeResource list, unit) comp" where
  "nr_loop step nid cache [] = mreturn ()"
| "nr_loop step nid cache (r # rs) =
     (let ty = res_resourceType r in
      mbind (case map_of cache ty of
               Some n \<Rightarrow> mreturn n
             | None \<Rightarrow> mbind (mget (sql_get (nr_at nid ty)))
                 (\<lambda>found. case found of
                    None \<Rightarrow> mthrow (RuntimeException (''nodeResource serverNodeId = '' @ string_of_int nid
                              @ '', resourceType = '' @ ty @ '' missing''))
                  | Some n \<Rightarrow> mreturn n))
        (\<lambda>n. let cache' = (ty, step r n) # AList.delete ty cache in
          mbind (mupd (fold (\<lambda>kv. nr_updateById (snd kv)) cache'))
            (\<lambda>_. nr_loop step nid cache' rs)))"

definition nr_operation :: "(ErResource \<Rightarrow> NodeResource \<Rightarrow> NodeResource) \<Rightarrow> ErProcessor \<Rightarrow>
  (NodeResource list, unit) comp" where
  "nr_operation step p =
     (if pr_resources p = [] then mreturn () else nr_loop step (pr_serverNodeId p) [] (pr_resources p))"

definition nr_preAllocateResource :: "ErProcessor \<Rightarrow> (NodeResource list, unit) comp" where
  "nr_preAllocateResource = nr_operation preAllocate_row"

definition nr_preAllocateFailed :: "ErProcessor \<Rightarrow> (NodeResource list, unit) comp" where
  "nr_preAllocateFailed = nr_operation preAllocateFailed_row"

definition nr_allocatedResource :: "ErProcessor \<Rightarrow> (NodeResource list, unit) comp" where
  "nr_allocatedResource = nr_operation allocated_row"

definition nr_returnResource :: "ErProcessor \<Rightarrow> (NodeResource list, unit) comp" where
  "nr_returnResource = nr_operation return_row"

lemmas nr_operation_defs =
  nr_preAllocateResource_def nr_preAllocateFailed_def nr_allocatedResource_def nr_returnResource_def

text \<open>Registration of a node's resources: inserts, updates of the given columns, deletes.\<close>

definition doInsertNodeResource :: "int \<Rightarrow> ErResource list \<Rightarrow> (world, unit) comp" where
  "doInsertNodeResource nid rs =
     mfor (\<lambda>r. mbind (mget (\<lambda>w. sql_get (nr_at nid (res_resourceType r)) (node_resource w)))
       (\<lambda>dup. case dup of
          Some _ \<Rightarrow> mthrow DuplicateKeyException
        | None \<Rightarrow> mupd (\<lambda>w. w\<lparr>node_resource := sql_insert
            \<lparr>n_resourceId = next_nresource_id w, n_serverNodeId = nid, n_resourceType = res_resourceType r,
             n_total = res_total r, n_used = max (res_used r) 0, n_preAllocated = 0, n_allocated = 0,
             n_extention = None, n_status = res_status r\<rparr> (node_resource w),
            next_nresource_id := next_nresource_id w + 1\<rparr>))) rs"

definition nr_set :: "ErResource \<Rightarrow> NodeResource \<Rightarrow> NodeResource" where
  "nr_set r n =
     n\<lparr>n_total := (if res_total r \<ge> 0 then res_total r else n_total n),
       n_allocated := (if res_allocated r \<ge> 0 then res_allocated r else n_allocated n),
       n_preAllocated := (if res_preAllocated r \<ge> 0 then res_preAllocated r else n_preAllocated n),
       n_used := (if res_used r \<ge> 0 then res_used r else n_used n),
       n_extention := (case res_extention r of None \<Rightarrow> n_extention n | Some e \<Rightarrow> Some e)\<rparr>"

definition nr_where :: "int \<Rightarrow> ErResource \<Rightarrow> NodeResource \<Rightarrow> bool" where
  "nr_where nid r n \<longleftrightarrow>
     (\<not> isBlank (Some (res_resourceType r)) \<longrightarrow> n_resourceType n = res_resourceType r) \<and>
     (nid \<ge> 0 \<longrightarrow> n_serverNodeId n = nid)"

definition doUpdateNodeResource :: "int \<Rightarrow> ErResource list \<Rightarrow> NodeResource list \<Rightarrow> NodeResource list" where
  "doUpdateNodeResource nid rs t = foldl (\<lambda>t r. sql_update (nr_where nid r) (nr_set r) t) t rs"

definition doDeleteNodeResource :: "int \<Rightarrow> ErResource list \<Rightarrow> NodeResource list \<Rightarrow> NodeResource list" where
  "doDeleteNodeResource nid rs t = foldl (\<lambda>t r. sql_delete (nr_at nid (res_resourceType r)) t) t rs"

definition nodeResource_registerResource ::
  "int \<Rightarrow> ErResource list \<Rightarrow> ErResource list \<Rightarrow> ErResource list \<Rightarrow> (world, unit) comp" where
  "nodeResource_registerResource nid ins upd del =
     mbind (mwhen (ins \<noteq> []) (doInsertNodeResource nid ins)) (\<lambda>_.
     mbind (mwhen (upd \<noteq> []) (mupd (\<lambda>w. w\<lparr>node_resource := doUpdateNodeResource nid upd (node_resource w)\<rparr>))) (\<lambda>_.
     mwhen (del \<noteq> []) (mupd (\<lambda>w. w\<lparr>node_resource := doDeleteNodeResource nid del (node_resource w)\<rparr>))))"

section \<open>Reference semantics\<close>

text \<open>
  A well-formed table has unique primary keys and, by its unique index, at most one row for a
  node and a resource type.
\<close>

definition nr_wf :: "NodeResource list \<Rightarrow> bool" where
  "nr_wf t \<longleftrightarrow> distinct (map n_resourceId t) \<and> distinct (map (\<lambda>n. (n_serverNodeId n, n_resourceType n)) t)"

text \<open>The reference: one request after the other, each stepping the row it names.\<close>

definition nr_ref_step :: "(ErResource \<Rightarrow> NodeResource \<Rightarrow> NodeResource) \<Rightarrow> int \<Rightarrow> ErResource \<Rightarrow>
  NodeResource \<Rightarrow> NodeResource" where
  "nr_ref_step step nid r n =
     (if nr_at nid (res_resourceType r) n then nr_merge n (step r n) else n)"

definition nr_effect :: "(ErResource \<Rightarrow> NodeResource \<Rightarrow> NodeResource) \<Rightarrow> int \<Rightarrow> ErResource list \<Rightarrow>
  NodeResource \<Rightarrow> NodeResource" where
  "nr_effect step nid rs n = fold (nr_ref_step step nid) rs n"

definition nr_has :: "int \<Rightarrow> string \<Rightarrow> NodeResource list \<Rightarrow> bool" where
  "nr_has nid ty t \<longleftrightarrow> (\<exists>n \<in> set t. nr_at nid ty n)"

text \<open>A cached row agrees with the stored one up to a null extension cached for a blank one.\<close>

definition coherent :: "NodeResource \<Rightarrow> NodeResource \<Rightarrow> bool" where
  "coherent v d \<longleftrightarrow> v = d\<lparr>n_extention := n_extention v\<rparr> \<and>
     (n_extention v = n_extention d \<or> n_extention v = None \<and> isBlank (n_extention d))"

locale row_step =
  fixes step :: "ErResource \<Rightarrow> NodeResource \<Rightarrow> NodeResource"
  assumes step_id: "n_resourceId (step r n) = n_resourceId n"
    and step_node: "n_serverNodeId (step r n) = n_serverNodeId n"
    and step_type: "n_resourceType (step r n) = n_resourceType n"
    and step_total: "n_total (step r n) = n_total n"
    and step_status: "n_status (step r n) = n_status n"
    and step_merge: "coherent v d \<Longrightarrow> nr_merge d (step r v) = nr_merge d (step r d)"
    and step_coherent: "coherent v d \<Longrightarrow> coherent (step r v) (nr_merge d (step r d))"
begin

lemma merge_fields [simp]:
  "n_resourceId (nr_merge d (step r v)) = n_resourceId v"
  "n_serverNodeId (nr_merge d (step r v)) = n_serverNodeId v"
  "n_resourceType (nr_merge d (step r v)) = n_resourceType v"
  "n_total (nr_merge d (step r v)) = n_total v"
  by (simp_all add: nr_merge_def step_id step_node step_type step_total)

lemma ref_step_fields [simp]:
  "n_resourceId (nr_ref_step step nid r n) = n_resourceId n"
  "n_serverNodeId (nr_ref_step step nid r n) = n_serverNodeId n"
  "n_resourceType (nr_ref_step step nid r n) = n_resourceType n"
  "n_total (nr_ref_step step nid r n) = n_total n"
  "nr_at i ty (nr_ref_step step nid r n) = nr_at i ty n"
  by (simp_all add: nr_ref_step_def nr_at_def)

text \<open>What the local map knows: each entry is coherent with the only row it may stand for.\<close>

definition cached :: "int \<Rightarrow> (string \<times> NodeResource) list \<Rightarrow> NodeResource list \<Rightarrow> bool" where
  "cached nid cache t \<longleftrightarrow> (\<forall>(ty, v) \<in> set cache.
     \<exists>d \<in> set t. nr_at nid ty d \<and> n_resourceId d = n_resourceId v \<and> coherent v d)"

lemma wf_ref: "nr_wf t \<Longrightarrow> nr_wf (map (nr_ref_step step nid r) t)"
  by (simp add: nr_wf_def comp_def)

lemma updateById_ref:
  assumes wf: "nr_wf t" and d: "d \<in> set t" "nr_at nid (res_resourceType r) d" and v: "coherent v d"
  shows "nr_updateById (step r v) t = map (nr_ref_step step nid r) t"
proof -
  have iff: "n_resourceId n = n_resourceId d \<longleftrightarrow> nr_at nid (res_resourceType r) n" if "n \<in> set t" for n
    using wf d that unfolding nr_wf_def nr_at_def
    by (auto simp: distinct_map inj_on_def)
  have same: "n = d" if "n \<in> set t" "n_resourceId n = n_resourceId d" for n
    using wf d(1) that by (auto simp: nr_wf_def distinct_map inj_on_def)
  have idv: "n_resourceId v = n_resourceId d" using v unfolding coherent_def
    by (metis NodeResource.select_convs(1) NodeResource.surjective NodeResource.update_convs(8))
  have "(if n_resourceId n = n_resourceId (step r v) then nr_merge n (step r v) else n)
    = nr_ref_step step nid r n" if "n \<in> set t" for n
    using iff[OF that] same[OF that] step_merge[OF v] by (auto simp: step_id idv nr_ref_step_def)
  then show ?thesis by (simp add: nr_updateById_def sql_update_def)
qed

lemma updateById_noop:
  assumes "nr_wf t" "d \<in> set t" "n_resourceId d = n_resourceId v" "coherent v d"
  shows "nr_updateById v t = t"
proof -
  have "nr_merge d v = d" using assms(4)
    by (cases d; cases v) (auto simp: coherent_def nr_merge_def split: option.splits)
  moreover have "n = d" if "n \<in> set t" "n_resourceId n = n_resourceId v" for n
    using assms that by (auto simp: nr_wf_def distinct_map inj_on_def)
  ultimately show ?thesis unfolding nr_updateById_def sql_update_def
    by (intro map_idI) auto
qed

lemma fold_noop:
  "nr_wf t \<Longrightarrow> cached nid cache t \<Longrightarrow> fold (\<lambda>kv. nr_updateById (snd kv)) cache t = t"
  by (induction cache) (auto simp: cached_def updateById_noop)

lemma cached_delete_ref:
  assumes "cached nid cache t"
  shows "cached nid (AList.delete (res_resourceType r) cache) (map (nr_ref_step step nid r) t)"
proof -
  have "\<exists>d' \<in> set (map (nr_ref_step step nid r) t). nr_at nid ty d' \<and> n_resourceId d' = n_resourceId v \<and> coherent v d'"
    if kv: "(ty, v) \<in> set (AList.delete (res_resourceType r) cache)" for ty v
  proof -
    from kv have ty: "ty \<noteq> res_resourceType r" and "(ty, v) \<in> set cache"
      by (auto simp: AList.delete_eq)
    with assms obtain d where d: "d \<in> set t" "nr_at nid ty d" "n_resourceId d = n_resourceId v" "coherent v d"
      by (fastforce simp: cached_def)
    with ty have "nr_ref_step step nid r d = d" by (auto simp: nr_ref_step_def nr_at_def)
    with d show ?thesis by force
  qed
  then show ?thesis by (auto simp: cached_def)
qed

lemma loop_step:
  assumes wf: "nr_wf t" and ca: "cached nid cache t" and has: "nr_has nid (res_resourceType r) t"
  shows "\<exists>cache'. cached nid cache' (map (nr_ref_step step nid r) t) \<and>
    nr_loop step nid cache (r # rs) t = nr_loop step nid cache' rs (map (nr_ref_step step nid r) t)"
proof -
  let ?ty = "res_resourceType r" and ?t' = "map (nr_ref_step step nid r) t"
  obtain v d where d: "d \<in> set t" "nr_at nid ?ty d" "coherent v d" "n_resourceId d = n_resourceId v"
    and v: "(case map_of cache ?ty of Some n \<Rightarrow> Some n | None \<Rightarrow> sql_get (nr_at nid ?ty) t) = Some v"
  proof (cases "map_of cache ?ty")
    case None
    from has obtain d where "sql_get (nr_at nid ?ty) t = Some d"
      by (cases "sql_get (nr_at nid ?ty) t") (auto simp: nr_has_def sql_get_None)
    with None show ?thesis
      by (intro that[of d d]) (auto simp: coherent_def dest: sql_get_SomeD)
  next
    case (Some v)
    then have "(?ty, v) \<in> set cache" by (rule map_of_SomeD)
    with ca Some show ?thesis by (fastforce simp: cached_def intro: that)
  qed
  let ?c = "(?ty, step r v) # AList.delete ?ty cache"
  have upd: "nr_updateById (step r v) t = ?t'" by (rule updateById_ref[OF wf d(1,2,3)])
  have del: "cached nid (AList.delete ?ty cache) ?t'" by (rule cached_delete_ref[OF ca])
  have f: "fold (\<lambda>kv. nr_updateById (snd kv)) ?c t = ?t'"
    using fold_noop[OF wf_ref[OF wf] del] by (simp add: upd)
  have "nr_ref_step step nid r d \<in> set ?t'" "coherent (step r v) (nr_ref_step step nid r d)"
    using d step_coherent by (auto simp: nr_ref_step_def)
  with del d have "cached nid ?c ?t'"
    unfolding cached_def by (auto simp: step_id simp del: set_map intro!: bexI[of _ "nr_ref_step step nid r d"])
  moreover have "nr_loop step nid cache (r # rs) t = nr_loop step nid ?c rs ?t'"
    using v f by (auto simp: Let_def mbind_def mget_def mupd_def mreturn_def split: option.splits)
  ultimately show ?thesis by blast
qed

text \<open>The loop with its local map is the reference, for requests the node can name.\<close>

lemma loop_eq:
  assumes "nr_wf t" "cached nid cache t" "\<And>r. r \<in> set rs \<Longrightarrow> nr_has nid (res_resourceType r) t"
  shows "nr_loop step nid cache rs t = (Inr (), map (nr_effect step nid rs) t)"
  using assms
proof (induction rs arbitrary: cache t)
  case Nil
  then show ?case by (simp add: nr_effect_def)
next
  case (Cons r rs)
  let ?t' = "map (nr_ref_step step nid r) t"
  obtain c where c: "cached nid c ?t'" "nr_loop step nid cache (r # rs) t = nr_loop step nid c rs ?t'"
    using loop_step[of t nid cache r rs] Cons.prems by auto
  have "nr_has nid (res_resourceType r') ?t'" if "r' \<in> set rs" for r'
    using Cons.prems(3)[of r'] that by (auto simp: nr_has_def)
  then have "nr_loop step nid c rs ?t' = (Inr (), map (nr_effect step nid rs) ?t')"
    using Cons.IH[OF wf_ref[OF Cons.prems(1)] c(1)] by blast
  with c(2) show ?case by (simp add: nr_effect_def comp_def)
qed

text \<open>A request the node cannot name ends the loop with the exception of the code.\<close>

lemma loop_missing:
  assumes "nr_wf t" "cached nid cache t" "\<And>q. q \<in> set rs \<Longrightarrow> nr_has nid (res_resourceType q) t"
    and "\<not> nr_has nid (res_resourceType r) t"
  shows "fst (nr_loop step nid cache (rs @ r # rs') t) =
    Inl (RuntimeException (''nodeResource serverNodeId = '' @ string_of_int nid
      @ '', resourceType = '' @ res_resourceType r @ '' missing''))"
  using assms
proof (induction rs arbitrary: cache t)
  case Nil
  then have "map_of cache (res_resourceType r) = None"
    by (fastforce simp: map_of_eq_None_iff cached_def nr_has_def)
  moreover have "sql_get (nr_at nid (res_resourceType r)) t = None"
    using Nil.prems(4) by (simp add: nr_has_def sql_get_None)
  ultimately show ?case by (simp add: Let_def mbind_def mget_def mthrow_def)
next
  case (Cons q rs)
  let ?t' = "map (nr_ref_step step nid q) t"
  obtain c where c: "cached nid c ?t'"
    "nr_loop step nid cache (q # rs @ r # rs') t = nr_loop step nid c (rs @ r # rs') ?t'"
    using loop_step[of t nid cache q "rs @ r # rs'"] Cons.prems by auto
  have "nr_has nid ty ?t' = nr_has nid ty t" for ty by (auto simp: nr_has_def)
  with Cons.IH[OF wf_ref[OF Cons.prems(1)] c(1)] Cons.prems c(2) show ?case by simp
qed

text \<open>Also when it fails, the loop has applied the requests up to the failing one.\<close>

lemma loop_prefix:
  assumes "nr_wf t" "cached nid cache t"
  shows "\<exists>qs. set qs \<subseteq> set rs \<and> snd (nr_loop step nid cache rs t) = map (nr_effect step nid qs) t"
  using assms
proof (induction rs arbitrary: cache t)
  case Nil
  then show ?case by (intro exI[of _ "[]"]) (simp add: nr_effect_def)
next
  case (Cons r rs)
  let ?t' = "map (nr_ref_step step nid r) t"
  show ?case
  proof (cases "nr_has nid (res_resourceType r) t")
    case True
    then obtain c where c: "cached nid c ?t'" "nr_loop step nid cache (r # rs) t = nr_loop step nid c rs ?t'"
      using loop_step Cons.prems by blast
    then obtain qs where "set qs \<subseteq> set rs" "snd (nr_loop step nid c rs ?t') = map (nr_effect step nid qs) ?t'"
      using Cons.IH[OF wf_ref[OF Cons.prems(1)]] by blast
    with c(2) show ?thesis by (intro exI[of _ "r # qs"]) (auto simp: nr_effect_def comp_def)
  next
    case False
    then have "sql_get (nr_at nid (res_resourceType r)) t = None" "map_of cache (res_resourceType r) = None"
      using Cons.prems(2) by (fastforce simp: nr_has_def sql_get_None map_of_eq_None_iff cached_def)+
    then show ?thesis by (intro exI[of _ "[]"]) (simp add: nr_effect_def Let_def mbind_def mget_def mthrow_def)
  qed
qed

lemma operation_prefix:
  assumes "nr_wf t"
  shows "\<exists>qs. set qs \<subseteq> set (pr_resources p) \<and>
    snd (nr_operation step p t) = map (nr_effect step (pr_serverNodeId p) qs) t"
proof (cases "pr_resources p = []")
  case True
  then show ?thesis by (intro exI[of _ "[]"]) (simp add: nr_operation_def nr_effect_def[abs_def])
next
  case False
  then show ?thesis
    using loop_prefix[OF assms, of "pr_serverNodeId p" "[]" "pr_resources p"]
    by (simp add: nr_operation_def cached_def)
qed

lemma operation_eq:
  assumes "nr_wf t" "\<And>r. r \<in> set (pr_resources p) \<Longrightarrow> nr_has (pr_serverNodeId p) (res_resourceType r) t"
  shows "nr_operation step p t = (Inr (), map (nr_effect step (pr_serverNodeId p) (pr_resources p)) t)"
  using loop_eq[of t "pr_serverNodeId p" "[]" "pr_resources p"] assms
  by (auto simp: nr_operation_def cached_def nr_effect_def)

lemma effect_fields:
  "n_resourceId (nr_effect step nid rs n) = n_resourceId n"
  "n_serverNodeId (nr_effect step nid rs n) = n_serverNodeId n"
  "n_resourceType (nr_effect step nid rs n) = n_resourceType n"
  "n_total (nr_effect step nid rs n) = n_total n"
  "nr_at i ty (nr_effect step nid rs n) = nr_at i ty n"
  by (induction rs arbitrary: n) (simp_all add: nr_effect_def)

lemma effect_other_node: "n_serverNodeId n \<noteq> nid \<Longrightarrow> nr_effect step nid rs n = n"
  by (induction rs arbitrary: n) (auto simp: nr_effect_def nr_ref_step_def nr_at_def)

lemma wf_effect: "nr_wf t \<Longrightarrow> nr_wf (map (nr_effect step nid rs) t)"
  by (simp add: nr_wf_def comp_def effect_fields)

lemma has_effect: "nr_has i ty (map (nr_effect step nid rs) t) = nr_has i ty t"
  by (auto simp: nr_has_def effect_fields)

text \<open>An invariant of rows that one step keeps is kept by a whole operation.\<close>

lemma effect_invariant:
  assumes "\<And>r n. r \<in> set rs \<Longrightarrow> J n \<Longrightarrow> J (nr_merge n (step r n))" and "J n"
  shows "J (nr_effect step nid rs n)"
  using assms by (induction rs arbitrary: n) (auto simp: nr_effect_def nr_ref_step_def)

end

section \<open>The four operations\<close>

lemma coherent_cases:
  assumes "coherent v d"
  obtains "v = d" | b where "n_extention d = Some b" "isBlank (Some b)" "v = d\<lparr>n_extention := None\<rparr>"
proof (cases "n_extention v = n_extention d")
  case True
  with assms have "v = d" by (cases d; cases v) (simp add: coherent_def)
  then show ?thesis by (rule that(1))
next
  case False
  with assms show ?thesis
    by (cases "n_extention d") (auto simp: coherent_def intro: that(2))
qed

lemma coherent_refl [simp]: "coherent d d"
  by (simp add: coherent_def)

lemma isBlank_ext_simps [simp]:
  "isBlank d \<Longrightarrow> ext_add d x = x" "isBlank d \<Longrightarrow> ext_remove d x = d"
  by (simp_all add: ext_add_def ext_remove_def)

lemma ext_remove_None [simp]: "ext_remove d x = None \<longleftrightarrow> d = None"
  by (cases d) (auto simp: ext_remove_def)

interpretation preAllocate: row_step preAllocate_row
proof
  fix v d r assume "coherent v d"
  then show "nr_merge d (preAllocate_row r v) = nr_merge d (preAllocate_row r d)"
    by (cases rule: coherent_cases) (simp_all add: preAllocate_row_def)
  from \<open>coherent v d\<close> show "coherent (preAllocate_row r v) (nr_merge d (preAllocate_row r d))"
  proof (cases rule: coherent_cases)
    case 1
    then show ?thesis
      by (auto simp: preAllocate_row_def nr_merge_def coherent_def ext_add_def Let_def split: option.splits)
  qed (auto simp: preAllocate_row_def nr_merge_def coherent_def split: option.splits)
qed (simp_all add: preAllocate_row_def)

interpretation preAllocateFailed: row_step preAllocateFailed_row
proof
  fix v d r assume "coherent v d"
  then show "nr_merge d (preAllocateFailed_row r v) = nr_merge d (preAllocateFailed_row r d)"
    and "coherent (preAllocateFailed_row r v) (nr_merge d (preAllocateFailed_row r d))"
    by (cases rule: coherent_cases;
        auto simp: preAllocateFailed_row_def nr_merge_def coherent_def split: option.splits)+
qed (simp_all add: preAllocateFailed_row_def)

interpretation allocated: row_step allocated_row
proof
  fix v d r assume "coherent v d"
  then show "nr_merge d (allocated_row r v) = nr_merge d (allocated_row r d)"
    and "coherent (allocated_row r v) (nr_merge d (allocated_row r d))"
    by (cases rule: coherent_cases;
        auto simp: allocated_row_def nr_merge_def coherent_def split: option.splits)+
qed (simp_all add: allocated_row_def)

interpretation returned: row_step return_row
proof
  fix v d r assume "coherent v d"
  then show "nr_merge d (return_row r v) = nr_merge d (return_row r d)"
    and "coherent (return_row r v) (nr_merge d (return_row r d))"
    by (cases rule: coherent_cases;
        auto simp: return_row_def nr_merge_def coherent_def split: option.splits)+
qed (simp_all add: return_row_def)

section \<open>Counters stay within the capacity of the node\<close>

definition nr_ok :: "NodeResource \<Rightarrow> bool" where
  "nr_ok n \<longleftrightarrow> 0 \<le> n_preAllocated n \<and> n_preAllocated n \<le> n_total n \<and>
     0 \<le> n_allocated n \<and> n_allocated n \<le> n_total n \<and> 0 \<le> n_used n \<and> n_used n \<le> n_total n \<and> n_total n < 2 ^ 62"

text \<open>An amount that no sum with a counter of the node wraps around.\<close>

definition amount_ok :: "ErResource \<Rightarrow> bool" where
  "amount_ok r \<longleftrightarrow> 0 \<le> res_allocated r \<and> res_allocated r < 2 ^ 62"

lemma nr_merge_counters [simp]:
  "n_preAllocated (nr_merge d v) = n_preAllocated v" "n_allocated (nr_merge d v) = n_allocated v"
  "n_used (nr_merge d v) = n_used v" "n_total (nr_merge d v) = n_total v"
  by (simp_all add: nr_merge_def)

lemmas row_defs = preAllocate_row_def preAllocateFailed_row_def allocated_row_def return_row_def

lemma row_ok:
  assumes "amount_ok r" and "nr_ok n"
  shows "nr_ok (nr_merge n (preAllocate_row r n))" "nr_ok (nr_merge n (preAllocateFailed_row r n))"
    "nr_ok (nr_merge n (allocated_row r n))" "nr_ok (nr_merge n (return_row r n))"
  using assms by (auto simp: nr_ok_def row_defs amount_ok_def)

text \<open>The well-formedness that the operations keep.\<close>

definition nr_inv :: "NodeResource list \<Rightarrow> bool" where
  "nr_inv t \<longleftrightarrow> nr_wf t \<and> (\<forall>n \<in> set t. nr_ok n)"

text \<open>
  A request is admissible for a table when it asks for amounts from zero on, below two to the 62, of resource types
  the node of the processor has.
\<close>

definition admissible :: "NodeResource list \<Rightarrow> ErProcessor \<Rightarrow> bool" where
  "admissible t p \<longleftrightarrow> (\<forall>r \<in> set (pr_resources p). amount_ok r \<and>
     nr_has (pr_serverNodeId p) (res_resourceType r) t)"

lemma admissibleD:
  "admissible t p \<Longrightarrow> r \<in> set (pr_resources p) \<Longrightarrow> nr_has (pr_serverNodeId p) (res_resourceType r) t"
  "admissible t p \<Longrightarrow> r \<in> set (pr_resources p) \<Longrightarrow> amount_ok r"
  by (auto simp: admissible_def)

lemma inv_effect:
  assumes inv: "nr_inv t" and r: "\<And>r. r \<in> set rs \<Longrightarrow> amount_ok r"
  shows "nr_inv (map (nr_effect preAllocate_row nid rs) t)"
    "nr_inv (map (nr_effect preAllocateFailed_row nid rs) t)"
    "nr_inv (map (nr_effect allocated_row nid rs) t)"
    "nr_inv (map (nr_effect return_row nid rs) t)"
  using inv r
  by (auto simp: nr_inv_def row_ok preAllocate.wf_effect preAllocateFailed.wf_effect allocated.wf_effect
      returned.wf_effect intro!: preAllocate.effect_invariant[where J = nr_ok]
      preAllocateFailed.effect_invariant[where J = nr_ok] allocated.effect_invariant[where J = nr_ok]
      returned.effect_invariant[where J = nr_ok])

lemma operations_keep_inv:
  assumes inv: "nr_inv t" and r: "\<And>r. r \<in> set (pr_resources p) \<Longrightarrow> amount_ok r"
  shows "nr_inv (snd (nr_preAllocateResource p t))" "nr_inv (snd (nr_preAllocateFailed p t))"
    "nr_inv (snd (nr_allocatedResource p t))" "nr_inv (snd (nr_returnResource p t))"
proof -
  from inv have wf: "nr_wf t" by (simp add: nr_inv_def)
  show "nr_inv (snd (nr_preAllocateResource p t))"
    using preAllocate.operation_prefix[OF wf, of p] inv_effect(1)[OF inv] r
    by (force simp: nr_preAllocateResource_def)
  show "nr_inv (snd (nr_preAllocateFailed p t))"
    using preAllocateFailed.operation_prefix[OF wf, of p] inv_effect(2)[OF inv] r
    by (force simp: nr_preAllocateFailed_def)
  show "nr_inv (snd (nr_allocatedResource p t))"
    using allocated.operation_prefix[OF wf, of p] inv_effect(3)[OF inv] r
    by (force simp: nr_allocatedResource_def)
  show "nr_inv (snd (nr_returnResource p t))"
    using returned.operation_prefix[OF wf, of p] inv_effect(4)[OF inv] r
    by (force simp: nr_returnResource_def)
qed

section \<open>What a request does to the counters\<close>

definition requested :: "string \<Rightarrow> ErResource list \<Rightarrow> int" where
  "requested ty rs = sum_list (map res_allocated (filter (\<lambda>r. res_resourceType r = ty) rs))"

lemma requested_simps [simp]:
  "requested ty [] = 0"
  "requested ty (r # rs) = (if res_resourceType r = ty then res_allocated r + requested ty rs else requested ty rs)"
  by (simp_all add: requested_def)

lemma requested_nonneg: "(\<And>r. r \<in> set rs \<Longrightarrow> amount_ok r) \<Longrightarrow> 0 \<le> requested ty rs"
  by (induction rs) (auto simp: amount_ok_def)

definition counters :: "NodeResource \<Rightarrow> int \<times> int \<times> int \<times> int" where
  "counters n = (n_total n, n_preAllocated n, n_allocated n, n_used n)"

text \<open>One request, as long as nothing is cut off.\<close>

lemma jlong_counters:
  assumes "amount_ok r" "nr_ok n"
  shows "jlong (n_preAllocated n + res_allocated r) = n_preAllocated n + res_allocated r" "jlong (n_preAllocated n - res_allocated r) = n_preAllocated n - res_allocated r"
    "jlong (n_allocated n + res_allocated r) = n_allocated n + res_allocated r" "jlong (n_allocated n - res_allocated r) = n_allocated n - res_allocated r"
    "jlong (n_used n + res_allocated r) = n_used n + res_allocated r" "jlong (n_used n - res_allocated r) = n_used n - res_allocated r"
  using assms by (simp_all add: amount_ok_def nr_ok_def)

lemma effect_preAllocate:
  assumes "\<And>r. r \<in> set rs \<Longrightarrow> amount_ok r" and "nr_ok n" "n_serverNodeId n = nid"
    and "n_preAllocated n + requested (n_resourceType n) rs \<le> n_total n"
  shows "counters (nr_effect preAllocate_row nid rs n) =
    (n_total n, n_preAllocated n + requested (n_resourceType n) rs, n_allocated n, n_used n)"
  using assms
proof (induction rs arbitrary: n)
  case (Cons r rs)
  let ?n = "nr_ref_step preAllocate_row nid r n"
  note fields = preAllocate.ref_step_fields
  have q: "0 \<le> requested (n_resourceType n) rs" "0 \<le> res_allocated r" using Cons.prems(1) by (auto simp: requested_nonneg amount_ok_def)
  have ok: "nr_ok ?n" using row_ok[of r n] Cons.prems by (simp add: nr_ref_step_def)
  have f: "n_serverNodeId ?n = n_serverNodeId n" "n_resourceType ?n = n_resourceType n" by (rule fields)+
  have c: "counters ?n = (n_total n, n_preAllocated n + (if res_resourceType r = n_resourceType n then res_allocated r else 0), n_allocated n, n_used n)"
    using Cons.prems(3-) q jlong_counters[OF Cons.prems(1,2)] by (auto simp: nr_ref_step_def nr_at_def preAllocate_row_def counters_def)
  have "counters (nr_effect preAllocate_row nid rs ?n) = (n_total ?n, n_preAllocated ?n + requested (n_resourceType n) rs, n_allocated ?n, n_used ?n)"
    using Cons.prems(3-) q c by (intro Cons.IH[OF _ ok, unfolded f]) (auto simp: Cons.prems(1) counters_def split: if_splits)
  then show ?case using c by (auto simp: nr_effect_def counters_def)
qed (simp add: nr_effect_def counters_def)

lemma effect_preAllocateFailed:
  assumes "\<And>r. r \<in> set rs \<Longrightarrow> amount_ok r" and "nr_ok n" "n_serverNodeId n = nid"
    and "requested (n_resourceType n) rs \<le> n_preAllocated n"
  shows "counters (nr_effect preAllocateFailed_row nid rs n) =
    (n_total n, n_preAllocated n - requested (n_resourceType n) rs, n_allocated n, n_used n)"
  using assms
proof (induction rs arbitrary: n)
  case (Cons r rs)
  let ?n = "nr_ref_step preAllocateFailed_row nid r n"
  note fields = preAllocateFailed.ref_step_fields
  have q: "0 \<le> requested (n_resourceType n) rs" "0 \<le> res_allocated r" using Cons.prems(1) by (auto simp: requested_nonneg amount_ok_def)
  have ok: "nr_ok ?n" using row_ok[of r n] Cons.prems by (simp add: nr_ref_step_def)
  have f: "n_serverNodeId ?n = n_serverNodeId n" "n_resourceType ?n = n_resourceType n" by (rule fields)+
  have c: "counters ?n = (n_total n, n_preAllocated n - (if res_resourceType r = n_resourceType n then res_allocated r else 0), n_allocated n, n_used n)"
    using Cons.prems(3-) q jlong_counters[OF Cons.prems(1,2)] by (auto simp: nr_ref_step_def nr_at_def preAllocateFailed_row_def counters_def)
  have "counters (nr_effect preAllocateFailed_row nid rs ?n) = (n_total ?n, n_preAllocated ?n - requested (n_resourceType n) rs, n_allocated ?n, n_used ?n)"
    using Cons.prems(3-) q c by (intro Cons.IH[OF _ ok, unfolded f]) (auto simp: Cons.prems(1) counters_def split: if_splits)
  then show ?case using c by (auto simp: nr_effect_def counters_def)
qed (simp add: nr_effect_def counters_def)

lemma effect_allocated:
  assumes "\<And>r. r \<in> set rs \<Longrightarrow> amount_ok r" and "nr_ok n" "n_serverNodeId n = nid"
    and "requested (n_resourceType n) rs \<le> n_preAllocated n"
    and "n_allocated n + requested (n_resourceType n) rs \<le> n_total n"
    and "n_used n + requested (n_resourceType n) rs \<le> n_total n"
  shows "counters (nr_effect allocated_row nid rs n) =
    (n_total n, n_preAllocated n - requested (n_resourceType n) rs, n_allocated n + requested (n_resourceType n) rs, n_used n + requested (n_resourceType n) rs)"
  using assms
proof (induction rs arbitrary: n)
  case (Cons r rs)
  let ?n = "nr_ref_step allocated_row nid r n"
  note fields = allocated.ref_step_fields
  have q: "0 \<le> requested (n_resourceType n) rs" "0 \<le> res_allocated r" using Cons.prems(1) by (auto simp: requested_nonneg amount_ok_def)
  have ok: "nr_ok ?n" using row_ok[of r n] Cons.prems by (simp add: nr_ref_step_def)
  have f: "n_serverNodeId ?n = n_serverNodeId n" "n_resourceType ?n = n_resourceType n" by (rule fields)+
  have c: "counters ?n = (n_total n, n_preAllocated n - (if res_resourceType r = n_resourceType n then res_allocated r else 0), n_allocated n + (if res_resourceType r = n_resourceType n then res_allocated r else 0), n_used n + (if res_resourceType r = n_resourceType n then res_allocated r else 0))"
    using Cons.prems(3-) q jlong_counters[OF Cons.prems(1,2)] by (auto simp: nr_ref_step_def nr_at_def allocated_row_def counters_def)
  have "counters (nr_effect allocated_row nid rs ?n) = (n_total ?n, n_preAllocated ?n - requested (n_resourceType n) rs, n_allocated ?n + requested (n_resourceType n) rs, n_used ?n + requested (n_resourceType n) rs)"
    using Cons.prems(3-) q c by (intro Cons.IH[OF _ ok, unfolded f]) (auto simp: Cons.prems(1) counters_def split: if_splits)
  then show ?case using c by (auto simp: nr_effect_def counters_def)
qed (simp add: nr_effect_def counters_def)

lemma effect_returned:
  assumes "\<And>r. r \<in> set rs \<Longrightarrow> amount_ok r" and "nr_ok n" "n_serverNodeId n = nid"
    and "requested (n_resourceType n) rs \<le> n_allocated n" and "requested (n_resourceType n) rs \<le> n_used n"
  shows "counters (nr_effect return_row nid rs n) =
    (n_total n, n_preAllocated n, n_allocated n - requested (n_resourceType n) rs, n_used n - requested (n_resourceType n) rs)"
  using assms
proof (induction rs arbitrary: n)
  case (Cons r rs)
  let ?n = "nr_ref_step return_row nid r n"
  note fields = returned.ref_step_fields
  have q: "0 \<le> requested (n_resourceType n) rs" "0 \<le> res_allocated r" using Cons.prems(1) by (auto simp: requested_nonneg amount_ok_def)
  have ok: "nr_ok ?n" using row_ok[of r n] Cons.prems by (simp add: nr_ref_step_def)
  have f: "n_serverNodeId ?n = n_serverNodeId n" "n_resourceType ?n = n_resourceType n" by (rule fields)+
  have c: "counters ?n = (n_total n, n_preAllocated n, n_allocated n - (if res_resourceType r = n_resourceType n then res_allocated r else 0), n_used n - (if res_resourceType r = n_resourceType n then res_allocated r else 0))"
    using Cons.prems(3-) q jlong_counters[OF Cons.prems(1,2)] by (auto simp: nr_ref_step_def nr_at_def return_row_def counters_def)
  have "counters (nr_effect return_row nid rs ?n) = (n_total ?n, n_preAllocated ?n, n_allocated ?n - requested (n_resourceType n) rs, n_used ?n - requested (n_resourceType n) rs)"
    using Cons.prems(3-) q c by (intro Cons.IH[OF _ ok, unfolded f]) (auto simp: Cons.prems(1) counters_def split: if_splits)
  then show ?case using c by (auto simp: nr_effect_def counters_def)
qed (simp add: nr_effect_def counters_def)

text \<open>The node of the processor has room for the whole request.\<close>

definition fits :: "NodeResource list \<Rightarrow> ErProcessor \<Rightarrow> bool" where
  "fits t p \<longleftrightarrow> (\<forall>n \<in> set t. n_serverNodeId n = pr_serverNodeId p \<longrightarrow>
     (let q = requested (n_resourceType n) (pr_resources p) in
      n_preAllocated n + q \<le> n_total n \<and> n_allocated n + q \<le> n_total n \<and> n_used n + q \<le> n_total n))"

lemma lifecycle_row:
  assumes r: "\<And>r. r \<in> set rs \<Longrightarrow> amount_ok r" and ok: "nr_ok n"
    and fit: "n_serverNodeId n = nid \<Longrightarrow>
      n_preAllocated n + requested (n_resourceType n) rs \<le> n_total n \<and>
      n_allocated n + requested (n_resourceType n) rs \<le> n_total n \<and>
      n_used n + requested (n_resourceType n) rs \<le> n_total n"
  shows "counters (nr_effect return_row nid rs (nr_effect allocated_row nid rs (nr_effect preAllocate_row nid rs n)))
      = counters n"
    and "counters (nr_effect preAllocateFailed_row nid rs (nr_effect preAllocate_row nid rs n)) = counters n"
proof -
  let ?q = "requested (n_resourceType n) rs"
  let ?n1 = "nr_effect preAllocate_row nid rs n"
  let ?n2 = "nr_effect allocated_row nid rs ?n1"
  note fields = preAllocate.effect_fields preAllocateFailed.effect_fields allocated.effect_fields
  have q: "0 \<le> ?q" by (rule requested_nonneg[OF r])
  show "counters (nr_effect return_row nid rs ?n2) = counters n"
  proof (cases "n_serverNodeId n = nid")
    case True
    have 1: "counters ?n1 = (n_total n, n_preAllocated n + ?q, n_allocated n, n_used n)"
      by (rule effect_preAllocate[OF r ok True]) (use fit[OF True] in auto)
    then have 2: "counters ?n2 = (n_total n, n_preAllocated n, n_allocated n + ?q, n_used n + ?q)"
      using effect_allocated[OF r, of rs ?n1 nid] True ok q fit[OF True]
      by (simp add: counters_def fields nr_ok_def)
    then show ?thesis
      using effect_returned[OF r, of rs ?n2 nid] True ok q fit[OF True]
      by (simp add: counters_def fields nr_ok_def)
  qed (simp add: preAllocate.effect_other_node allocated.effect_other_node returned.effect_other_node)
  show "counters (nr_effect preAllocateFailed_row nid rs ?n1) = counters n"
  proof (cases "n_serverNodeId n = nid")
    case True
    have 1: "counters ?n1 = (n_total n, n_preAllocated n + ?q, n_allocated n, n_used n)"
      by (rule effect_preAllocate[OF r ok True]) (use fit[OF True] in auto)
    then show ?thesis
      using effect_preAllocateFailed[OF r, of rs ?n1 nid] True ok q fit[OF True]
      by (simp add: counters_def fields nr_ok_def)
  qed (simp add: preAllocate.effect_other_node preAllocateFailed.effect_other_node)
qed

section \<open>Properties\<close>

text \<open>C36: on a well-formed table and for a processor whose resource types its node has, each of the four
  operations of \<open>NodeResourceService\<close>, with its map of rows already read and its repeated
  updates, succeeds and has exactly the effect of stepping, request by request, the one row
  that each request names; all other rows stay as they are.\<close>

theorem node_operations_refine:
  assumes "nr_wf t" and "\<forall>r \<in> set (pr_resources p). nr_has (pr_serverNodeId p) (res_resourceType r) t"
  shows "nr_preAllocateResource p t = (Inr (), map (nr_effect preAllocate_row (pr_serverNodeId p) (pr_resources p)) t) \<and>
    nr_preAllocateFailed p t = (Inr (), map (nr_effect preAllocateFailed_row (pr_serverNodeId p) (pr_resources p)) t) \<and>
    nr_allocatedResource p t = (Inr (), map (nr_effect allocated_row (pr_serverNodeId p) (pr_resources p)) t) \<and>
    nr_returnResource p t = (Inr (), map (nr_effect return_row (pr_serverNodeId p) (pr_resources p)) t)"
  using assms unfolding nr_operation_defs
  by (simp add: preAllocate.operation_eq preAllocateFailed.operation_eq allocated.operation_eq returned.operation_eq)

text \<open>A request for a resource type that the node does not have, after requests it has, ends the
  pre-allocation with the exception that names the node and the type.\<close>

theorem preallocate_missing_type:
  assumes "nr_wf t" and "pr_resources p = rs @ r # rs'"
    and "\<forall>q \<in> set rs. nr_has (pr_serverNodeId p) (res_resourceType q) t"
    and "\<not> nr_has (pr_serverNodeId p) (res_resourceType r) t"
  shows "fst (nr_preAllocateResource p t) =
    Inl (RuntimeException (''nodeResource serverNodeId = '' @ string_of_int (pr_serverNodeId p)
      @ '', resourceType = '' @ res_resourceType r @ '' missing''))"
  using preAllocate.loop_missing[OF assms(1), of "pr_serverNodeId p" "[]" rs r rs'] assms(2-4)
  by (simp add: nr_preAllocateResource_def nr_operation_def preAllocate.cached_def)

text \<open>C37: each of the four operations keeps, also when it fails half way, the counters of every node
  resource between zero and the total of the node, the primary keys unique and at most one row
  for a node and a resource type.  The amounts requested are not negative (a resource that was given
  no amount has the amount -1), and they and the totals lie below two to the 62, where no sum of longs wraps around.\<close>

theorem node_operations_keep_capacity:
  assumes "nr_inv t" and "\<forall>r \<in> set (pr_resources p). amount_ok r"
  shows "nr_inv (snd (nr_preAllocateResource p t)) \<and> nr_inv (snd (nr_preAllocateFailed p t)) \<and>
    nr_inv (snd (nr_allocatedResource p t)) \<and> nr_inv (snd (nr_returnResource p t))"
  using operations_keep_inv[OF assms(1), of p] assms(2) by blast

lemma operation_chain:
  assumes "nr_inv t" and "admissible t p"
  shows "mbind (nr_preAllocateResource p) (\<lambda>_. mbind (nr_allocatedResource p) (\<lambda>_. nr_returnResource p)) t =
      (Inr (), map (nr_effect return_row (pr_serverNodeId p) (pr_resources p) \<circ>
        (nr_effect allocated_row (pr_serverNodeId p) (pr_resources p) \<circ>
         nr_effect preAllocate_row (pr_serverNodeId p) (pr_resources p))) t)"
    and "mbind (nr_preAllocateResource p) (\<lambda>_. nr_preAllocateFailed p) t =
      (Inr (), map (nr_effect preAllocateFailed_row (pr_serverNodeId p) (pr_resources p) \<circ>
         nr_effect preAllocate_row (pr_serverNodeId p) (pr_resources p)) t)"
proof -
  let ?nid = "pr_serverNodeId p" and ?rs = "pr_resources p"
  have wf: "nr_wf t" using assms(1) by (simp add: nr_inv_def)
  note wfs = wf preAllocate.wf_effect[OF wf, of ?nid ?rs] allocated.wf_effect[OF preAllocate.wf_effect[OF wf, of ?nid ?rs], of ?nid ?rs]
  have run: "nr_preAllocateResource p t = (Inr (), map (nr_effect preAllocate_row ?nid ?rs) t)"
    unfolding nr_operation_defs by (rule preAllocate.operation_eq[OF wf]) (use assms(2) in \<open>auto simp: admissible_def\<close>)
  have "nr_allocatedResource p (map (nr_effect preAllocate_row ?nid ?rs) t) =
      (Inr (), map (nr_effect allocated_row ?nid ?rs) (map (nr_effect preAllocate_row ?nid ?rs) t))"
    unfolding nr_operation_defs
    by (rule allocated.operation_eq[OF wfs(2)]) (use assms(2) in \<open>auto simp: admissible_def preAllocate.has_effect\<close>)
  moreover have "nr_preAllocateFailed p (map (nr_effect preAllocate_row ?nid ?rs) t) =
      (Inr (), map (nr_effect preAllocateFailed_row ?nid ?rs) (map (nr_effect preAllocate_row ?nid ?rs) t))"
    unfolding nr_operation_defs
    by (rule preAllocateFailed.operation_eq[OF wfs(2)]) (use assms(2) in \<open>auto simp: admissible_def preAllocate.has_effect\<close>)
  moreover have "nr_returnResource p (map (nr_effect allocated_row ?nid ?rs) (map (nr_effect preAllocate_row ?nid ?rs) t)) =
      (Inr (), map (nr_effect return_row ?nid ?rs) (map (nr_effect allocated_row ?nid ?rs) (map (nr_effect preAllocate_row ?nid ?rs) t)))"
    unfolding nr_operation_defs
    by (rule returned.operation_eq[OF wfs(3)])
       (use assms(2) in \<open>simp add: admissible_def preAllocate.has_effect allocated.has_effect del: map_map\<close>)
  ultimately show "mbind (nr_preAllocateResource p) (\<lambda>_. mbind (nr_allocatedResource p) (\<lambda>_. nr_returnResource p)) t =
      (Inr (), map (nr_effect return_row ?nid ?rs \<circ> (nr_effect allocated_row ?nid ?rs \<circ> nr_effect preAllocate_row ?nid ?rs)) t)"
    "mbind (nr_preAllocateResource p) (\<lambda>_. nr_preAllocateFailed p) t =
      (Inr (), map (nr_effect preAllocateFailed_row ?nid ?rs \<circ> nr_effect preAllocate_row ?nid ?rs) t)"
    by (simp_all add: mbind_def run)
qed

text \<open>the life of an allocation leaks nothing: for a request the node has room for, pre-allocating,
  allocating and returning it succeed one after the other and give every row its total,
  pre-allocated, allocated and used counters back; so does pre-allocating and giving it up.\<close>

theorem allocation_round_trip:
  assumes "nr_inv t" and "admissible t p" and "fits t p"
  shows "\<exists>t1 t2. mbind (nr_preAllocateResource p) (\<lambda>_. mbind (nr_allocatedResource p) (\<lambda>_. nr_returnResource p)) t = (Inr (), t1) \<and>
    mbind (nr_preAllocateResource p) (\<lambda>_. nr_preAllocateFailed p) t = (Inr (), t2) \<and>
    map counters t1 = map counters t \<and> map counters t2 = map counters t"
proof -
  have r: "\<And>r. r \<in> set (pr_resources p) \<Longrightarrow> amount_ok r" using assms(2) by (auto simp: admissible_def)
  have row: "n \<in> set t \<Longrightarrow> nr_ok n" "n \<in> set t \<Longrightarrow> n_serverNodeId n = pr_serverNodeId p \<Longrightarrow>
      n_preAllocated n + requested (n_resourceType n) (pr_resources p) \<le> n_total n \<and>
      n_allocated n + requested (n_resourceType n) (pr_resources p) \<le> n_total n \<and>
      n_used n + requested (n_resourceType n) (pr_resources p) \<le> n_total n" for n
    using assms(1,3) by (auto simp: nr_inv_def fits_def Let_def)
  show ?thesis
    using lifecycle_row[OF r row] by (simp add: operation_chain[OF assms(1,2)])
qed

lemma string_of_nat_hd: "\<not> is_whitespace (hd (string_of_nat n))"
proof -
  have "hd (string_of_nat n) \<in> set (string_of_nat n)" by simp
  then obtain d where d: "hd (string_of_nat n) = digit_char d" "d < 10" using set_string_of_nat by blast
  have "digit_char d \<noteq> c" if "is_whitespace c" for c
    by (rule digit_char_neq[OF d(2)]) (use that in \<open>auto simp: is_whitespace_def\<close>)
  with d(1) show ?thesis by metis
qed

lemma join_not_blank: "ks \<noteq> [] \<Longrightarrow> \<not> isBlank (Some (java_join CHR '','' (map string_of_nat ks)))"
proof (cases ks)
  case (Cons k ks')
  have "\<exists>cs. java_join CHR '','' (map string_of_nat ks) = string_of_nat k @ cs" by (cases ks') (auto simp: Cons)
  then obtain cs where "java_join CHR '','' (map string_of_nat ks) = string_of_nat k @ cs" by blast
  with string_of_nat_hd[of k] show ?thesis by (cases "string_of_nat k") (auto simp: isBlank_def)
qed simp

lemma split_join_nats: "ks \<noteq> [] \<Longrightarrow> java_split CHR '','' (java_join CHR '','' (map string_of_nat ks)) = map string_of_nat ks"
  by (rule java_split_join) (auto simp: last_map)

text \<open>Freeing a GPU index undoes taking it: adding a new index to the list kept in the extension of
  a node resource and removing it again gives the list that was there, and the index in
  between is listed exactly once, at the end.\<close>

theorem gpu_extension_round_trip:
  assumes "ks \<noteq> []" and "k \<notin> set ks"
  shows "ext_add (Some (java_join CHR '','' (map string_of_nat ks))) (Some (string_of_nat k)) =
      Some (java_join CHR '','' (map string_of_nat (ks @ [k]))) \<and>
    ext_remove (ext_add (Some (java_join CHR '','' (map string_of_nat ks))) (Some (string_of_nat k))) (Some (string_of_nat k)) =
      Some (java_join CHR '','' (map string_of_nat ks))"
proof -
  have add: "ext_add (Some (java_join CHR '','' (map string_of_nat ks))) (Some (string_of_nat k)) =
      Some (java_join CHR '','' (map string_of_nat (ks @ [k])))"
    using assms join_not_blank[OF assms(1)] by (auto simp: ext_add_def split_join_nats Let_def)
  have f: "filter (\<lambda>e. Some e \<noteq> Some (string_of_nat k)) (map string_of_nat (ks @ [k])) = map string_of_nat ks"
    using assms(2) by (auto simp: filter_id_conv)
  show ?thesis
    using join_not_blank[of "ks @ [k]"] split_join_nats[of "ks @ [k]"] f by (simp add: add ext_remove_def)
qed

section \<open>The properties at work\<close>

text \<open>A node with eight CPU cores, of which two are pre-allocated, and a processor asking for three.\<close>

definition sample_table :: "NodeResource list" where
  "sample_table = [\<lparr>n_resourceId = 1, n_serverNodeId = 7, n_resourceType = ''VCPU_CORE'', n_total = 8, n_used = 0,
     n_preAllocated = 2, n_allocated = 0, n_extention = None, n_status = Some ''available''\<rparr>]"

definition sample_request :: "string \<Rightarrow> ErProcessor" where
  "sample_request ty = new_ErProcessor\<lparr>pr_serverNodeId := 7,
     pr_resources := [new_ErResource\<lparr>res_resourceType := ty, res_allocated := 3\<rparr>]\<rparr>"

lemmas sample_table_defs = sample_table_def sample_request_def new_ErProcessor_def new_ErResource_def
  nr_wf_def nr_has_def nr_at_def nr_inv_def nr_ok_def admissible_def fits_def requested_def amount_ok_def Let_def

theorem node_operations_refine_witness:
  "nr_preAllocateResource (sample_request ''VCPU_CORE'') sample_table =
    (Inr (), map (nr_effect preAllocate_row (pr_serverNodeId (sample_request ''VCPU_CORE'')) (pr_resources (sample_request ''VCPU_CORE''))) sample_table)"
  using node_operations_refine[of sample_table "sample_request ''VCPU_CORE''"] by (simp add: sample_table_defs)

theorem preallocate_missing_type_witness:
  "\<exists>msg. fst (nr_preAllocateResource (sample_request ''VGPU_CORE'') sample_table) = Inl (RuntimeException msg)"
  using preallocate_missing_type[of sample_table "sample_request ''VGPU_CORE''" "[]" "hd (pr_resources (sample_request ''VGPU_CORE''))" "[]"]
  by (simp add: sample_table_defs)

theorem node_operations_keep_capacity_witness:
  "nr_inv (snd (nr_preAllocateResource (sample_request ''VCPU_CORE'') sample_table))"
proof -
  have "nr_inv sample_table" "\<forall>r \<in> set (pr_resources (sample_request ''VCPU_CORE'')). amount_ok r"
    by (simp_all add: sample_table_defs)
  from node_operations_keep_capacity[OF this] show ?thesis by blast
qed

theorem allocation_round_trip_witness:
  "\<exists>t1. mbind (nr_preAllocateResource (sample_request ''VCPU_CORE'')) (\<lambda>_. mbind (nr_allocatedResource (sample_request ''VCPU_CORE''))
      (\<lambda>_. nr_returnResource (sample_request ''VCPU_CORE''))) sample_table = (Inr (), t1) \<and> map counters t1 = map counters sample_table"
proof -
  have "nr_inv sample_table" "admissible sample_table (sample_request ''VCPU_CORE'')" "fits sample_table (sample_request ''VCPU_CORE'')"
    by (simp_all add: sample_table_defs)
  from allocation_round_trip[OF this] show ?thesis by blast
qed

theorem gpu_extension_round_trip_witness:
  "ext_remove (ext_add (Some (java_join CHR '','' (map string_of_nat [0, 2]))) (Some (string_of_nat 1))) (Some (string_of_nat 1)) =
     Some (java_join CHR '','' (map string_of_nat [0, 2]))"
  by (rule conjunct2[OF gpu_extension_round_trip]) simp_all

end
