(* ===== verification/State_Machine.thy ===== *)
theory State_Machine
  imports World
begin

text \<open>
  \<open>AbstractStateMachine.changeStatus\<close>, generic in the data it changes and in the handlers
  registered for its state change lines.  The call first builds the line (outside the lock),
  then, holding the lock of the key, prepares, handles and submits the asynchronous part.  Calls
  on the same data exclude each other only while they hold the lock: between the line and the lock of
  a call other calls may run, whatever they are (\<open>changeStatus_between\<close>).  A call that none of them interrupts
  there is \<open>changeStatus\<close>; the handlers of the machines use it for their nested calls.

  The locale gives the rule by which every machine of the cluster manager inherits an invariant
  from its handlers.
\<close>

section \<open>State handlers\<close>

text \<open>\<open>StateHandler\<close>'s accessors of the context.\<close>

definition needAsynPostHandle :: "world \<Rightarrow> bool" where
  "needAsynPostHandle w = c_openAsyn (cx w)"

definition setIsBreak :: "bool \<Rightarrow> world \<Rightarrow> world" where
  "setIsBreak b w = w\<lparr>cx := (cx w)\<lparr>c_isBreak := b\<rparr>\<rparr>"

definition isBreak :: "world \<Rightarrow> bool" where
  "isBreak w = c_isBreak (cx w)"

definition openAsynPostHandle :: "world \<Rightarrow> world" where
  "openAsynPostHandle w = w\<lparr>cx := (cx w)\<lparr>c_openAsyn := True\<rparr>\<rparr>"

text \<open>The handler registered for a line, or the one registered for IGNORE.\<close>

definition lookup_handler :: "(string \<times> 'h) list \<Rightarrow> string \<Rightarrow> 'h option" where
  "lookup_handler tbl line =
     (case map_of tbl line of Some h \<Rightarrow> Some h | None \<Rightarrow> map_of tbl ''IGNORE'')"

text \<open>\<open>registeStateHander\<close> refuses a second handler for a line.\<close>

definition registeStateHander :: "string \<Rightarrow> 'h \<Rightarrow> (string \<times> 'h) list \<Rightarrow> exn + (string \<times> 'h) list" where
  "registeStateHander line h tbl =
     (if line \<in> fst ` set tbl then Inl (RuntimeException (''duplicate state handler '' @ line))
      else Inr (tbl @ [(line, h)]))"

fun register_all :: "(string \<times> 'h) list \<Rightarrow> (string \<times> 'h) list \<Rightarrow> exn + (string \<times> 'h) list" where
  "register_all tbl [] = Inr tbl"
| "register_all tbl ((line, h) # xs) =
     (case registeStateHander line h tbl of Inl e \<Rightarrow> Inl e | Inr tbl' \<Rightarrow> register_all tbl' xs)"

type_synonym 'd phase = "'d \<Rightarrow> string option \<Rightarrow> string \<Rightarrow> (world, 'd) comp"

text \<open>\<open>transactionHandle\<close> with the null callback that every caller passes.\<close>

definition transactionHandle :: "'d phase \<Rightarrow> 'd phase" where
  "transactionHandle handle d pre des = handle d pre des"

definition locked_section ::
  "('h \<Rightarrow> 'd phase) \<Rightarrow> ('h \<Rightarrow> 'd phase) \<Rightarrow> ('h \<Rightarrow> 'd \<Rightarrow> (world, unit) comp) \<Rightarrow> 'h \<Rightarrow> 'd phase" where
  "locked_section prepare handle submit h d pre des =
     mrethrow
       (mbind (prepare h d pre des) (\<lambda>r.
        mbind (mget isBreak) (\<lambda>b.
        if b then mreturn r
        else
          mbind (transactionHandle (handle h) r pre des) (\<lambda>r'.
          mbind (mget (\<lambda>w. \<not> isBreak w \<and> needAsynPostHandle w)) (\<lambda>async.
          mbind (mwhen async (submit h r')) (\<lambda>_. mreturn r'))))))"

text \<open>
  The lock key is computed before the lock is taken; computing it may itself throw, outside
  the \<open>try\<close> block.
\<close>

definition changeStatus ::
  "('d \<Rightarrow> string option \<Rightarrow> string \<Rightarrow> (world, 'd \<times> string) comp) \<Rightarrow> ('d \<Rightarrow> (world, string) comp) \<Rightarrow>
   (string \<times> 'h) list \<Rightarrow> ('h \<Rightarrow> 'd phase) \<Rightarrow> ('h \<Rightarrow> 'd phase) \<Rightarrow> ('h \<Rightarrow> 'd \<Rightarrow> (world, unit) comp) \<Rightarrow>
   'd phase" where
  "changeStatus build lockKey tbl prepare handle submit d pre des =
     mbind (build d pre des) (\<lambda>(d', line).
       case lookup_handler tbl line of
         None \<Rightarrow> mthrow (RuntimeException (''no status handler found for '' @ line))
       | Some h \<Rightarrow> mbind (lockKey d') (\<lambda>_. locked_section prepare handle submit h d' pre des))"

text \<open>The whole call as the threads of the server run it: \<open>between\<close> is what other calls do after the line has
  been built and the handler chosen, and before the lock is taken; their contexts are their own.\<close>

definition changeStatus_between ::
  "(world, unit) comp \<Rightarrow> ('d \<Rightarrow> string option \<Rightarrow> string \<Rightarrow> (world, 'd \<times> string) comp) \<Rightarrow> ('d \<Rightarrow> (world, string) comp) \<Rightarrow>
   (string \<times> 'h) list \<Rightarrow> ('h \<Rightarrow> 'd phase) \<Rightarrow> ('h \<Rightarrow> 'd phase) \<Rightarrow> ('h \<Rightarrow> 'd \<Rightarrow> (world, unit) comp) \<Rightarrow>
   'd phase" where
  "changeStatus_between between build lockKey tbl prepare handle submit d pre des =
     mbind (build d pre des) (\<lambda>(d', line).
       case lookup_handler tbl line of
         None \<Rightarrow> mthrow (RuntimeException (''no status handler found for '' @ line))
       | Some h \<Rightarrow> mbind (lockKey d') (\<lambda>_. mbind between (\<lambda>_. locked_section prepare handle submit h d' pre des)))"

lemma changeStatus_uninterrupted:
  "changeStatus_between (mreturn ()) build lockKey tbl prepare handle submit = changeStatus build lockKey tbl prepare handle submit"
  by (simp add: fun_eq_iff changeStatus_between_def changeStatus_def mbind_def mreturn_def split: prod.split option.split sum.split)

section \<open>Invariants of a state machine\<close>

text \<open>
  The contract between the machine and its handlers: every phase of every handler keeps the
  invariant, and so does building the line.
\<close>

locale state_machine =
  fixes build :: "'d \<Rightarrow> string option \<Rightarrow> string \<Rightarrow> (world, 'd \<times> string) comp"
    and lockKey :: "'d \<Rightarrow> (world, string) comp"
    and tbl :: "(string \<times> 'h) list"
    and prepare handle :: "'h \<Rightarrow> 'd phase"
    and submit :: "'h \<Rightarrow> 'd \<Rightarrow> (world, unit) comp"
    and I :: "world \<Rightarrow> bool" and D :: "'d \<Rightarrow> bool"
  assumes build_keeps: "D d \<Longrightarrow> keeps I (build d pre des) (\<lambda>x. D (fst x))"
    and lockKey_keeps: "D d \<Longrightarrow> preserves I (lockKey d)"
    and prepare_keeps: "D d \<Longrightarrow> keeps I (prepare h d pre des) D"
    and handle_keeps: "D d \<Longrightarrow> keeps I (handle h d pre des) D"
    and submit_keeps: "D d \<Longrightarrow> preserves I (submit h d)"
begin

lemma locked_section_keeps: "D d \<Longrightarrow> keeps I (locked_section prepare handle submit h d pre des) D"
  unfolding locked_section_def transactionHandle_def
  by (intro keeps_mrethrow keeps_mbind[OF prepare_keeps] keeps_mbind[OF handle_keeps]
      keeps_mbind[where m = "mget _" and Q = "\<lambda>_. True"] keeps_mbind[where m = "mwhen _ _" and Q = "\<lambda>_. True"]
      preserves_intros submit_keeps) simp_all

lemma changeStatus_keeps: "D d \<Longrightarrow> keeps I (changeStatus build lockKey tbl prepare handle submit d pre des) D"
  unfolding changeStatus_def
  by (rule keeps_mbind[OF build_keeps])
     (auto split: prod.split option.split intro!: keeps_mthrow keeps_mbind[OF lockKey_keeps] locked_section_keeps)

text \<open>Calls in between do no harm to an invariant that they keep themselves.\<close>

lemma changeStatus_between_keeps:
  assumes "D d" "preserves I between"
  shows "keeps I (changeStatus_between between build lockKey tbl prepare handle submit d pre des) D"
  unfolding changeStatus_between_def
  by (rule keeps_mbind[OF build_keeps[OF assms(1)]])
     (auto split: prod.split option.split intro!: keeps_mthrow keeps_mbind[OF lockKey_keeps] keeps_mbind[OF assms(2)] locked_section_keeps)

end

text \<open>Registering distinct lines succeeds and gives the table itself.\<close>

lemma register_all_distinct:
  "distinct (map fst (tbl @ xs)) \<Longrightarrow> register_all tbl xs = Inr (tbl @ xs)"
proof (induction xs arbitrary: tbl)
  case (Cons x xs)
  obtain line h where x: "x = (line, h)" by (cases x)
  with Cons.prems have "line \<notin> fst ` set tbl" by (auto simp: distinct_map)
  moreover have "register_all (tbl @ [x]) xs = Inr ((tbl @ [x]) @ xs)"
    by (rule Cons.IH) (use Cons.prems in simp)
  ultimately show ?case by (simp add: x registeStateHander_def)
qed simp

text \<open>
  An invariant that holds on the lines the machine can build, because the handlers selected by
  those lines keep it, although other handlers may not.
\<close>

lemma changeStatus_keeps_selected:
  assumes build: "keeps I (build d pre des) (\<lambda>x. L (snd x))"
    and lockKey: "\<And>d. preserves I (lockKey d)"
    and sel: "\<And>line h. L line \<Longrightarrow> lookup_handler tbl line = Some h \<Longrightarrow> H h"
    and prepare: "\<And>h d. H h \<Longrightarrow> preserves I (prepare h d pre des)"
    and handle: "\<And>h d. H h \<Longrightarrow> preserves I (handle h d pre des)"
    and submit: "\<And>h d. H h \<Longrightarrow> preserves I (submit h d)"
  shows "preserves I (changeStatus build lockKey tbl prepare handle submit d pre des)"
proof -
  have "preserves I (locked_section prepare handle submit h d pre des)" if "H h" for h d
    unfolding locked_section_def transactionHandle_def
    by (intro keeps_mrethrow keeps_mbind[OF prepare[OF that]] keeps_mbind[OF handle[OF that]]
        keeps_mbind[where m = "mget _" and Q = "\<lambda>_. True"] keeps_mbind[where m = "mwhen _ _" and Q = "\<lambda>_. True"]
        preserves_intros submit[OF that]) simp_all
  then show ?thesis
    unfolding changeStatus_def
    by (intro keeps_mbind[OF build]) (auto split: prod.split option.split dest: sel intro!: keeps_mthrow keeps_mbind[OF lockKey])
qed

lemma changeStatus_run:
  assumes "build d pre des w = (Inr (d', line), w1)" and "lookup_handler tbl line = Some h"
    and "lockKey d' w1 = (Inr k, w1)"
  shows "changeStatus build lockKey tbl prepare handle submit d pre des w =
    locked_section prepare handle submit h d' pre des w1"
  using assms by (simp add: changeStatus_def mbind_def)

lemma locked_section_run:
  assumes "prepare h d pre des w = (Inr r, w1)" and "\<not> isBreak w1"
    and "handle h r pre des w1 = (Inr r', w2)"
  shows "locked_section prepare handle submit h d pre des w =
    (if \<not> isBreak w2 \<and> needAsynPostHandle w2
     then mrethrow (mbind (submit h r') (\<lambda>_. mreturn r')) w2 else (Inr r', w2))"
  using assms by (auto simp: locked_section_def transactionHandle_def mbind_def mrethrow_def mwhen_def)

end
