(* ===== verification/Resource_Machine.thy ===== *)
theory Resource_Machine
  imports Node_Resource State_Machine
begin

text \<open>
  \<open>ProcessorResourceService\<close>, \<open>ResourceStateHandler\<close>, \<open>ResourceStateMechine\<close> and the recount
  of a node's resources in \<open>ClusterResourceManager\<close>.  The \<open>ResourceManager\<close> interface that the
  two resource services implement is a locale, interpreted on both.
\<close>

section \<open>The services on the world\<close>

definition on_nodes :: "(NodeResource list, 'a) comp \<Rightarrow> (world, 'a) comp" where
  "on_nodes m = (\<lambda>w. case m (node_resource w) of (r, t) \<Rightarrow> (r, w\<lparr>node_resource := t\<rparr>))"

lemma on_nodes_run: "m (node_resource w) = (r, t) \<Longrightarrow> on_nodes m w = (r, w\<lparr>node_resource := t\<rparr>)"
  by (simp add: on_nodes_def)

text \<open>The setters of \<open>ProcessorResource\<close> trim the session id, the type, the extension and the status.\<close>

definition xr_row :: "int \<Rightarrow> int \<Rightarrow> ErProcessor \<Rightarrow> ErResource \<Rightarrow> ProcessorResource" where
  "xr_row xid pid p r =
     \<lparr>x_id = xid, x_processorId = pid, x_sessionId = java_trim (pr_sessionId p),
      x_serverNodeId = intValue (pr_serverNodeId p), x_resourceType = java_trim (res_resourceType r),
      x_allocated = res_allocated r, x_extention = map_option java_trim (res_extention r),
      x_status = map_option java_trim (res_status r)\<rparr>"

text \<open>The column of the processor id may not be null.\<close>

definition xr_preAllocateResource :: "ErProcessor \<Rightarrow> (world, unit) comp" where
  "xr_preAllocateResource p =
     mfor (\<lambda>r. case pr_id p of
         None \<Rightarrow> mthrow (RuntimeException ''processor_id cannot be null'')
       | Some pid \<Rightarrow> mupd (\<lambda>w. w\<lparr>processor_resource := sql_insert (xr_row (next_presource_id w) pid p r) (processor_resource w),
           next_presource_id := next_presource_id w + 1\<rparr>)) (pr_resources p)"

definition xr_where :: "ErResource \<Rightarrow> ProcessorResource \<Rightarrow> bool" where
  "xr_where r x \<longleftrightarrow> res_processorId r = Some (x_processorId x) \<and> res_sessionId r = Some (x_sessionId x) \<and>
     res_serverNodeId r = x_serverNodeId x \<and> res_resourceType r = x_resourceType x"

definition xr_updateResource :: "ErProcessor \<Rightarrow> string \<Rightarrow> (world, unit) comp" where
  "xr_updateResource p des =
     mfor (\<lambda>r. mupd (\<lambda>w. w\<lparr>processor_resource :=
       sql_update (xr_where r) (\<lambda>x. x\<lparr>x_status := Some des\<rparr>) (processor_resource w)\<rparr>)) (pr_resources p)"

definition xr_preAllocateFailed :: "ErProcessor \<Rightarrow> (world, unit) comp" where
  "xr_preAllocateFailed p = xr_updateResource p ''return''"

definition xr_allocatedResource :: "ErProcessor \<Rightarrow> (world, unit) comp" where
  "xr_allocatedResource p = xr_updateResource p ''allocated''"

definition xr_returnResource :: "ErProcessor \<Rightarrow> (world, unit) comp" where
  "xr_returnResource p = xr_updateResource p ''return''"

lemmas xr_defs = xr_preAllocateResource_def xr_updateResource_def xr_preAllocateFailed_def
  xr_allocatedResource_def xr_returnResource_def

section \<open>The state handler\<close>

definition handler_preAllocateResource :: "ErProcessor \<Rightarrow> (world, unit) comp" where
  "handler_preAllocateResource p =
     mbind (on_nodes (nr_preAllocateResource p)) (\<lambda>_. xr_preAllocateResource p)"

definition handler_preAllocateFailedResource :: "ErProcessor \<Rightarrow> (world, unit) comp" where
  "handler_preAllocateFailedResource p =
     mbind (on_nodes (nr_preAllocateFailed p)) (\<lambda>_. xr_preAllocateFailed p)"

definition handler_allocatedResource :: "ErProcessor \<Rightarrow> (world, unit) comp" where
  "handler_allocatedResource p =
     mbind (on_nodes (nr_allocatedResource p)) (\<lambda>_. xr_allocatedResource p)"

definition handler_returnResource :: "ErProcessor \<Rightarrow> (world, unit) comp" where
  "handler_returnResource p =
     mbind (on_nodes (nr_returnResource p)) (\<lambda>_. xr_returnResource p)"

text \<open>
  A processor without resources gets those recorded for it; with a null id the query by
  example has no condition and lists every row.
\<close>

definition load_resources :: "ErProcessor \<Rightarrow> world \<Rightarrow> ErProcessor" where
  "load_resources p w =
     (if pr_resources p = []
      then p\<lparr>pr_resources := map processorResource_toErResource
        (sql_select (\<lambda>x. case pr_id p of None \<Rightarrow> True | Some i \<Rightarrow> x_processorId x = i) (processor_resource w))\<rparr>
      else p)"

definition resource_prepare :: "resource_handler \<Rightarrow> ErProcessor phase" where
  "resource_prepare h p pre des = mreturn p"

definition null_string :: "string option \<Rightarrow> string" where
  "null_string s = (case s of None \<Rightarrow> ''null'' | Some x \<Rightarrow> x)"

definition resource_handle :: "resource_handler \<Rightarrow> ErProcessor phase" where
  "resource_handle h d pre des =
     mbind (mget (load_resources d)) (\<lambda>p.
     let stateLine = null_string pre @ ''_'' @ des in
     mbind
       (if stateLine = ''init_pre_allocated'' then handler_preAllocateResource p
        else if stateLine = ''pre_allocated_allocated'' then handler_allocatedResource p
        else if stateLine = ''pre_allocated_allocate_failed'' then handler_preAllocateFailedResource p
        else if stateLine = ''allocated_return'' then handler_returnResource p
        else mreturn ())
       (\<lambda>_. mbind (mupd openAsynPostHandle) (\<lambda>_. mreturn p)))"

definition resource_submit :: "resource_handler \<Rightarrow> ErProcessor \<Rightarrow> (world, unit) comp" where
  "resource_submit h p =
     (\<lambda>w. case pool_submit (Task h (cx w) p) (resource_pool w) of
        Inl e \<Rightarrow> (Inl e, w) | Inr ts \<Rightarrow> (Inr (), w\<lparr>resource_pool := ts\<rparr>))"

section \<open>The machine\<close>

definition resource_handlers :: "(string \<times> resource_handler) list" where
  "resource_handlers =
     [(''init_pre_allocated'', ResourceStateHandler),
      (''pre_allocated_allocated'', ResourceStateHandler),
      (''pre_allocated_allocate_failed'', ResourceStateHandler),
      (''allocated_return'', ResourceStateHandler)]"

definition resource_build :: "ErProcessor \<Rightarrow> string option \<Rightarrow> string \<Rightarrow> (world, ErProcessor \<times> string) comp" where
  "resource_build p pre des = mreturn (p, null_string pre @ ''_'' @ des)"

definition resource_lockKey :: "ErProcessor \<Rightarrow> (world, string) comp" where
  "resource_lockKey p = mreturn (string_of_int (pr_serverNodeId p))"

definition resource_changeStatus :: "ErProcessor phase" where
  "resource_changeStatus = changeStatus resource_build resource_lockKey resource_handlers resource_prepare resource_handle resource_submit"

section \<open>Recounting a node\<close>

text \<open>The bounded queue of nodes to recount: \<open>add\<close> throws when a hundred are waiting.\<close>

definition countAndUpdateNodeResource :: "int \<Rightarrow> (world, unit) comp" where
  "countAndUpdateNodeResource nid =
     (\<lambda>w. if length (node_update_queue w) < 100
          then (Inr (), w\<lparr>node_update_queue := node_update_queue w @ [nid]\<rparr>)
          else (Inl (IllegalStateException ''Queue full''), w))"

definition resource_asynPostHandle :: "ErProcessor \<Rightarrow> (world, unit) comp" where
  "resource_asynPostHandle p = countAndUpdateNodeResource (pr_serverNodeId p)"

text \<open>The filter of the recount compares the resource type with the names of two statuses.\<close>

definition recount_where :: "int \<Rightarrow> ProcessorResource \<Rightarrow> bool" where
  "recount_where nid x \<longleftrightarrow> x_serverNodeId x = nid \<and>
     x_resourceType x \<in> {resource_status_value R_ALLOCATED, resource_status_value R_PRE_ALLOCATED}"

definition recount_add :: "ProcessorResource \<Rightarrow> (string \<times> ErResource) list \<Rightarrow> (string \<times> ErResource) list" where
  "recount_add x m =
     (let old = (case map_of m (x_resourceType x) of None \<Rightarrow> new_ErResource | Some r \<Rightarrow> r);
          r = (if x_status x = Some (resource_status_value R_ALLOCATED)
               then old\<lparr>res_allocated := res_allocated old + x_allocated x\<rparr>
               else old\<lparr>res_preAllocated := res_preAllocated old + x_allocated x\<rparr>)
      in AList.update (x_resourceType x) r m)"

definition countAndUpdateNodeResourceInner :: "int \<Rightarrow> world \<Rightarrow> world" where
  "countAndUpdateNodeResourceInner nid w =
     (let resourceList = sql_select (recount_where nid) (processor_resource w);
          resourceMap = fold recount_add resourceList []
      in w\<lparr>node_resource := doUpdateNodeResource nid (map snd resourceMap) (node_resource w)\<rparr>)"

section \<open>The ResourceManager contract\<close>

text \<open>
  Both services implement \<open>ResourceManager\<close>.  What its clients rely on is that an operation
  that succeeds or fails leaves the rest of the world alone and keeps the invariant of the
  tables, for the requests that are admissible.
\<close>

locale resource_manager =
  fixes preAllocateResource preAllocateFailed allocatedResource returnResource ::
      "ErProcessor \<Rightarrow> (world, unit) comp"
    and adm :: "ErProcessor \<Rightarrow> world \<Rightarrow> bool" and I :: "world \<Rightarrow> bool"
  assumes pre_ok: "adm p w \<Longrightarrow> I w \<Longrightarrow> \<exists>w'. preAllocateResource p w = (Inr (), w') \<and> I w' \<and> adm p w'"
    and fail_ok: "adm p w \<Longrightarrow> I w \<Longrightarrow> \<exists>w'. preAllocateFailed p w = (Inr (), w') \<and> I w' \<and> adm p w'"
    and alloc_ok: "adm p w \<Longrightarrow> I w \<Longrightarrow> \<exists>w'. allocatedResource p w = (Inr (), w') \<and> I w' \<and> adm p w'"
    and return_ok: "adm p w \<Longrightarrow> I w \<Longrightarrow> \<exists>w'. returnResource p w = (Inr (), w') \<and> I w' \<and> adm p w'"
begin

text \<open>The life of an allocation never gets stuck.\<close>

lemma allocation_life:
  assumes "adm p w" and "I w"
  shows "\<exists>w'. mbind (preAllocateResource p) (\<lambda>_. mbind (allocatedResource p) (\<lambda>_. returnResource p)) w
    = (Inr (), w') \<and> I w'"
  using pre_ok[OF assms] alloc_ok return_ok by (fastforce simp: mbind_def)

lemma failed_life:
  assumes "adm p w" and "I w"
  shows "\<exists>w'. mbind (preAllocateResource p) (\<lambda>_. preAllocateFailed p) w = (Inr (), w') \<and> I w'"
  using pre_ok[OF assms] fail_ok by (fastforce simp: mbind_def)

end

lemma node_operation_ok:
  assumes "row_step step" and "admissible (node_resource w) p" and "nr_inv (node_resource w)"
    and inv: "\<And>t rs. nr_inv t \<Longrightarrow> (\<And>r. r \<in> set rs \<Longrightarrow> amount_ok r) \<Longrightarrow>
      nr_inv (map (nr_effect step (pr_serverNodeId p) rs) t)"
  shows "\<exists>w'. on_nodes (nr_operation step p) w = (Inr (), w') \<and> nr_inv (node_resource w') \<and>
    admissible (node_resource w') p"
proof -
  let ?t = "map (nr_effect step (pr_serverNodeId p) (pr_resources p)) (node_resource w)"
  have "nr_operation step p (node_resource w) = (Inr (), ?t)"
    by (rule row_step.operation_eq[OF assms(1)]) (use assms(2,3) in \<open>auto simp: nr_inv_def admissible_def\<close>)
  moreover have "nr_inv ?t" by (rule inv[OF assms(3)]) (use assms(2) in \<open>auto simp: admissible_def\<close>)
  moreover have "admissible ?t p"
    using assms(2) by (simp add: admissible_def row_step.has_effect[OF assms(1)])
  ultimately show ?thesis by (simp add: on_nodes_def)
qed

interpretation nodeService: resource_manager
  "\<lambda>p. on_nodes (nr_preAllocateResource p)" "\<lambda>p. on_nodes (nr_preAllocateFailed p)"
  "\<lambda>p. on_nodes (nr_allocatedResource p)" "\<lambda>p. on_nodes (nr_returnResource p)"
  "\<lambda>p w. admissible (node_resource w) p" "\<lambda>w. nr_inv (node_resource w)"
  unfolding nr_operation_defs
  by unfold_locales
     (rule node_operation_ok, (rule preAllocate.row_step_axioms preAllocateFailed.row_step_axioms
        allocated.row_step_axioms returned.row_step_axioms), assumption, assumption,
      blast intro: inv_effect)+

definition xr_wf :: "world \<Rightarrow> bool" where
  "xr_wf w \<longleftrightarrow> (\<forall>x \<in> set (processor_resource w). x_id x < next_presource_id w)"

lemma xr_insert_run:
  assumes "pr_id p = Some i" and "xr_wf w"
  shows "\<exists>w'. xr_preAllocateResource p w = (Inr (), w') \<and> xr_wf w'"
proof -
  have "xr_wf w \<Longrightarrow> xr_wf (fold (\<lambda>r w. w\<lparr>processor_resource := sql_insert (xr_row (next_presource_id w) i p r) (processor_resource w),
           next_presource_id := next_presource_id w + 1\<rparr>) rs w)" for rs w
    by (rule fold_keeps) (fastforce simp: xr_wf_def sql_insert_def xr_row_def)+
  with assms show ?thesis by (simp add: xr_preAllocateResource_def mfor_upd)
qed

lemma xr_update_run:
  assumes "xr_wf w"
  shows "\<exists>w'. xr_updateResource p s w = (Inr (), w') \<and> xr_wf w'"
proof -
  have "xr_wf w \<Longrightarrow> xr_wf (fold (\<lambda>r w. w\<lparr>processor_resource :=
       sql_update (xr_where r) (\<lambda>x. x\<lparr>x_status := Some s\<rparr>) (processor_resource w)\<rparr>) rs w)" for rs w
    by (rule fold_keeps) (auto simp: xr_wf_def set_sql_update)
  with assms show ?thesis by (simp add: xr_updateResource_def mfor_upd)
qed

interpretation processorService: resource_manager
  xr_preAllocateResource xr_preAllocateFailed xr_allocatedResource xr_returnResource
  "\<lambda>p w. pr_id p \<noteq> None" xr_wf
  by unfold_locales
     (auto simp: xr_preAllocateFailed_def xr_allocatedResource_def xr_returnResource_def
       intro: xr_insert_run xr_update_run)

section \<open>The invariant of the cluster\<close>

text \<open>No resource type is called like a resource status.\<close>

definition type_ok :: "string \<Rightarrow> bool" where
  "type_ok t \<longleftrightarrow> java_trim t \<notin> {resource_status_value R_ALLOCATED, resource_status_value R_PRE_ALLOCATED}"

lemma type_ok_trim [simp]: "type_ok (java_trim t) = type_ok t"
  by (simp add: type_ok_def)

definition proc_ok :: "ErProcessor \<Rightarrow> bool" where
  "proc_ok p \<longleftrightarrow> (\<forall>r \<in> set (pr_resources p). amount_ok r \<and> type_ok (res_resourceType r))"

definition xr_ok :: "ProcessorResource \<Rightarrow> bool" where
  "xr_ok x \<longleftrightarrow> 0 \<le> x_allocated x \<and> x_allocated x < 2 ^ 62 \<and> type_ok (x_resourceType x) \<and> java_trim (x_resourceType x) = x_resourceType x"

lemma xr_ok_status [simp]: "xr_ok (x\<lparr>x_status := s\<rparr>) = xr_ok x"
  by (simp add: xr_ok_def)

definition cluster_inv :: "world \<Rightarrow> bool" where
  "cluster_inv w \<longleftrightarrow>
     nr_inv (node_resource w) \<and>
     (\<forall>x \<in> set (processor_resource w). xr_ok x) \<and>
     distinct (map p_processorId (session_processor w)) \<and>
     (\<forall>p \<in> set (session_processor w). p_processorId p < next_processor_id w) \<and>
     distinct (map m_sessionId (session_main w)) \<and>
     (\<forall>p. c_processorInDb (cx w) = Some p \<longrightarrow> proc_ok p) \<and>
     length (resource_pool w) \<le> pool_capacity \<and> length (processor_pool w) \<le> pool_capacity \<and>
     length (session_pool w) \<le> pool_capacity \<and> length (node_update_queue w) \<le> 100"

text \<open>Fields the invariant does not read may change freely.\<close>

lemma cluster_inv_frame [simp]:
  "cluster_inv (w\<lparr>residual_heartbeats := e\<rparr>) = cluster_inv w"
  "cluster_inv (w\<lparr>waiting_sessions := f\<rparr>) = cluster_inv w"
  "cluster_inv (w\<lparr>sent_commands := g\<rparr>) = cluster_inv w"
  "cluster_inv (w\<lparr>session_option := h\<rparr>) = cluster_inv w"
  "cluster_inv (w\<lparr>next_presource_id := i\<rparr>) = cluster_inv w"
  by (simp_all add: cluster_inv_def)

lemma cluster_inv_cx [simp]:
  "cluster_inv (w\<lparr>cx := (cx w)\<lparr>c_openAsyn := b\<rparr>\<rparr>) = cluster_inv w"
  "cluster_inv (w\<lparr>cx := (cx w)\<lparr>c_isBreak := b\<rparr>\<rparr>) = cluster_inv w"
  "cluster_inv (w\<lparr>cx := (cx w)\<lparr>c_beforeStatus := s\<rparr>\<rparr>) = cluster_inv w"
  "cluster_inv (w\<lparr>cx := (cx w)\<lparr>c_sessionInDb := m\<rparr>\<rparr>) = cluster_inv w"
  "cluster_inv (w\<lparr>cx := (cx w)\<lparr>c_serverNodes := ns\<rparr>\<rparr>) = cluster_inv w"
  "cluster_inv (w\<lparr>cx := (cx w)\<lparr>c_statusReason := s\<rparr>\<rparr>) = cluster_inv w"
  by (simp_all add: cluster_inv_def)

lemma cluster_inv_node: "cluster_inv w \<Longrightarrow> nr_inv t \<Longrightarrow> cluster_inv (w\<lparr>node_resource := t\<rparr>)"
  by (simp add: cluster_inv_def)

lemma on_nodes_keeps:
  assumes "\<And>t. nr_inv t \<Longrightarrow> nr_inv (snd (m t))"
  shows "preserves cluster_inv (on_nodes m)"
proof (rule keepsI)
  fix w r w' assume w: "cluster_inv w" "on_nodes m w = (r, w')"
  obtain q t where mt: "m (node_resource w) = (q, t)" by (cases "m (node_resource w)")
  with w(1) assms[of "node_resource w"] have "nr_inv t" by (simp add: cluster_inv_def)
  with w mt show "cluster_inv w' \<and> (\<forall>x. r = Inr x \<longrightarrow> True)"
    by (auto simp: on_nodes_def intro: cluster_inv_node)
qed

lemma xr_preAllocate_keeps: "proc_ok p \<Longrightarrow> preserves cluster_inv (xr_preAllocateResource p)"
  unfolding xr_preAllocateResource_def
  by (intro preserves_intros) (auto simp: cluster_inv_def sql_insert_def xr_row_def proc_ok_def xr_ok_def amount_ok_def)

lemma xr_update_keeps: "preserves cluster_inv (xr_updateResource p s)"
  unfolding xr_updateResource_def
  by (intro preserves_intros) (auto simp: cluster_inv_def set_sql_update)

lemma handler_keeps:
  assumes "proc_ok p"
  shows "preserves cluster_inv (handler_preAllocateResource p)"
    "preserves cluster_inv (handler_preAllocateFailedResource p)"
    "preserves cluster_inv (handler_allocatedResource p)"
    "preserves cluster_inv (handler_returnResource p)"
  unfolding handler_preAllocateResource_def handler_preAllocateFailedResource_def
    handler_allocatedResource_def handler_returnResource_def
    xr_preAllocateFailed_def xr_allocatedResource_def xr_returnResource_def
  by (rule keeps_mbind[OF on_nodes_keeps];
      use assms in \<open>auto simp: proc_ok_def intro: operations_keep_inv xr_preAllocate_keeps xr_update_keeps\<close>)+

lemma load_resources_ok: "cluster_inv w \<Longrightarrow> proc_ok p \<Longrightarrow> proc_ok (load_resources p w)"
  by (auto simp: load_resources_def proc_ok_def cluster_inv_def xr_ok_def processorResource_toErResource_def amount_ok_def)

lemma load_resources_fields [simp]:
  "pr_id (load_resources p w) = pr_id p" "pr_serverNodeId (load_resources p w) = pr_serverNodeId p"
  "pr_sessionId (load_resources p w) = pr_sessionId p" "pr_status (load_resources p w) = pr_status p"
  by (simp_all add: load_resources_def)

lemma resource_handle_keeps:
  assumes "proc_ok d"
  shows "keeps cluster_inv (resource_handle h d pre des) proc_ok"
  unfolding resource_handle_def Let_def
  by (rule keeps_mbind[where Q = proc_ok])
     (auto intro!: keeps_mget load_resources_ok[OF _ assms] keeps_mbind[where Q = "\<lambda>_. True"]
        preserves_intros handler_keeps simp: openAsynPostHandle_def)

lemma resource_submit_keeps: "preserves cluster_inv (resource_submit h p)"
  by (rule keepsI) (auto simp: resource_submit_def pool_submit_def cluster_inv_def split: if_splits)

interpretation resourceMachine: state_machine resource_build resource_lockKey resource_handlers resource_prepare
  resource_handle resource_submit cluster_inv proc_ok
  by unfold_locales
     (auto simp: resource_build_def resource_prepare_def resource_lockKey_def
        intro: keeps_mreturn resource_handle_keeps resource_submit_keeps)

lemma resource_changeStatus_keeps: "proc_ok p \<Longrightarrow> keeps cluster_inv (resource_changeStatus p pre des) proc_ok"
  unfolding resource_changeStatus_def by (rule resourceMachine.changeStatus_keeps)

section \<open>Running the resource machine\<close>

text \<open>The four transitions, the operation each performs and the lines that name them.\<close>

definition resource_operation :: "ResourceStatus \<Rightarrow> ResourceStatus \<Rightarrow> (ErProcessor \<Rightarrow> (world, unit) comp) option" where
  "resource_operation a b =
     (if (a, b) = (R_INIT, R_PRE_ALLOCATED) then Some handler_preAllocateResource
      else if (a, b) = (R_PRE_ALLOCATED, R_ALLOCATED) then Some handler_allocatedResource
      else if (a, b) = (R_PRE_ALLOCATED, R_ALLOCATE_FAILED) then Some handler_preAllocateFailedResource
      else if (a, b) = (R_ALLOCATED, R_RETURN) then Some handler_returnResource
      else None)"

lemma resource_line_registered:
  "resource_operation a b = Some opr \<Longrightarrow>
   lookup_handler resource_handlers (resource_status_value a @ ''_'' @ resource_status_value b) = Some ResourceStateHandler"
  by (cases a; cases b) (simp_all add: resource_operation_def lookup_handler_def resource_handlers_def)

lemma resource_handle_operation:
  "resource_operation a b = Some opr \<Longrightarrow>
   resource_handle h d (Some (resource_status_value a)) (resource_status_value b) =
     mbind (mget (load_resources d)) (\<lambda>p. mbind (opr p) (\<lambda>_. mbind (mupd openAsynPostHandle) (\<lambda>_. mreturn p)))"
  by (cases a; cases b) (auto simp: resource_operation_def resource_handle_def null_string_def)

text \<open>A world in which the request being served is not broken off and the pool has room.\<close>

definition ready :: "world \<Rightarrow> bool" where
  "ready w \<longleftrightarrow> \<not> c_isBreak (cx w) \<and> length (resource_pool w) < pool_capacity"

definition with_task :: "ErProcessor \<Rightarrow> world \<Rightarrow> world" where
  "with_task p w = (let w1 = openAsynPostHandle w in
     w1\<lparr>resource_pool := resource_pool w @ [Task ResourceStateHandler (cx w1) p]\<rparr>)"

lemma resource_changeStatus_run:
  assumes opr: "resource_operation a b = Some opr" and run: "opr (load_resources p w) w = (Inr (), w1)"
    and rdy: "ready w" and same: "cx w1 = cx w" "resource_pool w1 = resource_pool w"
  shows "resource_changeStatus p (Some (resource_status_value a)) (resource_status_value b) w =
    (Inr (load_resources p w), with_task (load_resources p w) w1)"
proof -
  have h: "resource_handle ResourceStateHandler p (Some (resource_status_value a)) (resource_status_value b) w =
      (Inr (load_resources p w), openAsynPostHandle w1)"
    using run by (simp add: resource_handle_operation[OF opr] mbind_def)
  have l: "resource_changeStatus p (Some (resource_status_value a)) (resource_status_value b) w =
    locked_section resource_prepare resource_handle resource_submit ResourceStateHandler p
      (Some (resource_status_value a)) (resource_status_value b) w"
    unfolding resource_changeStatus_def
    by (rule changeStatus_run[OF _ resource_line_registered[OF opr]])
       (simp_all add: resource_build_def null_string_def resource_lockKey_def)
  have "locked_section resource_prepare resource_handle resource_submit ResourceStateHandler p
      (Some (resource_status_value a)) (resource_status_value b) w =
    mrethrow (mbind (resource_submit ResourceStateHandler (load_resources p w)) (\<lambda>_. mreturn (load_resources p w)))
      (openAsynPostHandle w1)"
    using rdy same
    by (subst locked_section_run[where handle = resource_handle, OF _ _ h])
       (simp_all add: resource_prepare_def isBreak_def ready_def openAsynPostHandle_def needAsynPostHandle_def)
  also have "\<dots> = (Inr (load_resources p w), with_task (load_resources p w) w1)"
    using rdy same
    by (simp add: resource_submit_def pool_submit_def with_task_def mrethrow_def mbind_def ready_def
        openAsynPostHandle_def Let_def)
  finally show ?thesis by (simp only: l)
qed

lemma with_task_fields [simp]:
  "node_resource (with_task p w) = node_resource w" "processor_resource (with_task p w) = processor_resource w"
  "session_processor (with_task p w) = session_processor w" "session_main (with_task p w) = session_main w"
  "next_processor_id (with_task p w) = next_processor_id w" "server_node (with_task p w) = server_node w"
  "c_isBreak (cx (with_task p w)) = c_isBreak (cx w)" "processor_pool (with_task p w) = processor_pool w"
  "length (resource_pool (with_task p w)) = Suc (length (resource_pool w))"
  "c_processorInDb (cx (with_task p w)) = c_processorInDb (cx w)" "c_openAsyn (cx (with_task p w))"
  by (simp_all add: with_task_def Let_def openAsynPostHandle_def)

section \<open>The recount\<close>

lemma recount_none: "xr_ok x \<Longrightarrow> \<not> recount_where nid x"
  by (auto simp: recount_where_def xr_ok_def type_ok_def)

text \<open>The recount of a node's resources changes nothing: its query compares the resource type with
  the names of resource statuses, so it finds no row in any cluster whose resource types are
  not called like a status.\<close>

theorem recount_is_noop:
  assumes "cluster_inv w"
  shows "countAndUpdateNodeResourceInner nid w = w"
proof -
  have "sql_select (recount_where nid) (processor_resource w) = []"
    using assms recount_none by (auto simp: cluster_inv_def sql_select_def filter_empty_conv)
  then show ?thesis by (simp add: countAndUpdateNodeResourceInner_def doUpdateNodeResource_def)
qed

definition sample_usage :: world where
  "sample_usage = empty_world\<lparr>processor_resource := [\<lparr>x_id = 1, x_processorId = 1, x_sessionId = ''s1'', x_serverNodeId = 7,
     x_resourceType = ''VCPU_CORE'', x_allocated = 3, x_extention = None, x_status = Some ''allocated''\<rparr>]\<rparr>"

theorem recount_is_noop_witness: "countAndUpdateNodeResourceInner 7 sample_usage = sample_usage"
proof (rule recount_is_noop)
  have "java_trim ''VCPU_CORE'' = ''VCPU_CORE''" by code_simp
  then show "cluster_inv sample_usage"
    by (simp add: cluster_inv_def sample_usage_def empty_world_def new_Context_def nr_inv_def nr_wf_def xr_ok_def type_ok_def pool_capacity_def)
qed

end
