(* ===== verification/Processor_Machine.thy ===== *)
theory Processor_Machine
  imports Resource_Machine
begin

text \<open>
  The processor state machine (\<open>ProcessorStateMachine\<close> and its handlers) over the
  \<open>session_processor\<close> table.  Its handlers drive the resource machine for processors whose
  resources are dispatched.  The asynchronous part of the running handler, which activates a
  session, is in the theory of the session machine.
\<close>

section \<open>Reading processors\<close>

definition processor_getById :: "int option \<Rightarrow> world \<Rightarrow> SessionProcessor option" where
  "processor_getById i w =
     (case i of None \<Rightarrow> None | Some k \<Rightarrow> sql_get (\<lambda>p. p_processorId p = k) (session_processor w))"

fun toErProcessors :: "env \<Rightarrow> SessionProcessor list \<Rightarrow> exn + ErProcessor list" where
  "toErProcessors E [] = Inr []"
| "toErProcessors E (p # ps) =
     (case toErProcessor E p of Inl e \<Rightarrow> Inl e
      | Inr q \<Rightarrow> (case toErProcessors E ps of Inl e \<Rightarrow> Inl e | Inr qs \<Rightarrow> Inr (q # qs)))"

definition getProcessorBySession :: "env \<Rightarrow> string \<Rightarrow> bool \<Rightarrow> world \<Rightarrow> exn + ErProcessor list" where
  "getProcessorBySession E sid withResource w =
     (case toErProcessors E (sql_select (\<lambda>p. p_sessionId p = sid) (session_processor w)) of
        Inl e \<Rightarrow> Inl e
      | Inr ps \<Rightarrow> Inr (if withResource
          then map (\<lambda>p. p\<lparr>pr_resources := map processorResource_toErResource
            (sql_select (\<lambda>x. Some (x_processorId x) = pr_id p) (processor_resource w))\<rparr>) ps
          else ps))"

text \<open>
  \<open>doQueryProcessor\<close>: a condition for each of status, session and id that is set.  The columns
  of both endpoints are parsed although only \<open>toErProcessor\<close> uses them.
\<close>

definition doQueryProcessor :: "env \<Rightarrow> ErProcessor option \<Rightarrow> world \<Rightarrow> exn + ErProcessor list" where
  "doQueryProcessor E ex w =
     (case ex of
        None \<Rightarrow> toErProcessors E (session_processor w)
      | Some e \<Rightarrow> (case pr_id e of None \<Rightarrow> Inl NullPointerException
         | Some i \<Rightarrow> toErProcessors E (sql_select (\<lambda>p.
             (pr_status e \<noteq> [] \<longrightarrow> p_status p = pr_status e) \<and>
             (pr_sessionId e \<noteq> [] \<longrightarrow> p_sessionId p = pr_sessionId e) \<and>
             (i \<noteq> -1 \<longrightarrow> p_processorId p = i)) (session_processor w))))"

definition processor_removeBySessionId :: "string \<Rightarrow> world \<Rightarrow> world" where
  "processor_removeBySessionId sid w =
     w\<lparr>session_processor := sql_delete (\<lambda>p. p_sessionId p = sid) (session_processor w)\<rparr>"

definition batchUpdateBySessionId :: "ErSessionMeta \<Rightarrow> string \<Rightarrow> world \<Rightarrow> world" where
  "batchUpdateBySessionId s sid w =
     (if isBlank (Some sid) then w
      else w\<lparr>session_processor := sql_update (\<lambda>p. p_sessionId p = sid)
        (\<lambda>p. p\<lparr>p_status := (if isBlank (sm_status s) then p_status p else the (sm_status s)),
               p_tag := (if isBlank (sm_tag s) then p_tag p else the (sm_tag s))\<rparr>) (session_processor w)\<rparr>)"

section \<open>Common parts of the handlers\<close>

definition checkNeedChangeResource :: "env \<Rightarrow> ErProcessor \<Rightarrow> bool" where
  "checkNeedChangeResource E p \<longleftrightarrow> use_resource_dispatch E \<or> pr_processorType p = ''DeepSpeed''"

definition updateState_row :: "ErProcessor \<Rightarrow> string \<Rightarrow> SessionProcessor \<Rightarrow> SessionProcessor" where
  "updateState_row d des p =
     p\<lparr>p_status := des,
       p_commandEndpoint := (case pr_commandEndpoint d of None \<Rightarrow> p_commandEndpoint p
                             | Some e \<Rightarrow> Some (endpoint_toString e)),
       p_pid := (case pr_pid d of None \<Rightarrow> p_pid p | Some i \<Rightarrow> if i > 0 then Some i else p_pid p),
       p_transferEndpoint := (case pr_transferEndpoint d of None \<Rightarrow> p_transferEndpoint p
                             | Some e \<Rightarrow> Some (endpoint_toString e)),
       p_beforeStatus := (case pr_beforeStatus d of None \<Rightarrow> p_beforeStatus p | Some s \<Rightarrow> Some s)\<rparr>"

definition updateState :: "ErProcessor \<Rightarrow> string \<Rightarrow> world \<Rightarrow> world" where
  "updateState d des w =
     w\<lparr>session_processor := sql_update (\<lambda>p. Some (p_processorId p) = pr_id d) (updateState_row d des)
        (session_processor w)\<rparr>"

definition abstract_prepare :: "env \<Rightarrow> ErProcessor \<Rightarrow> (world, ErProcessor) comp" where
  "abstract_prepare E d =
     mbind (mget (\<lambda>w. c_processorInDb (cx w))) (\<lambda>inDb.
       case inDb of
         Some p \<Rightarrow> mreturn p
       | None \<Rightarrow> mbind (mget (processor_getById (pr_id d))) (\<lambda>row.
           case row of Some r \<Rightarrow> mlift (toErProcessor E r) | None \<Rightarrow> mreturn d))"

definition reread_processor :: "env \<Rightarrow> ErProcessor \<Rightarrow> exn \<Rightarrow> (world, ErProcessor) comp" where
  "reread_processor E d missing =
     mbind (mget (processor_getById (pr_id d))) (\<lambda>row.
       case row of None \<Rightarrow> mthrow missing | Some r \<Rightarrow> mlift (toErProcessor E r))"

definition change_resource :: "env \<Rightarrow> ErProcessor \<Rightarrow> ResourceStatus \<Rightarrow> ResourceStatus \<Rightarrow> (world, ErProcessor) comp" where
  "change_resource E d a b =
     (if checkNeedChangeResource E d
      then resource_changeStatus d (Some (resource_status_value a)) (resource_status_value b)
      else mreturn d)"

section \<open>The handlers\<close>

text \<open>\<open>ProcessorCreateHandler.createNewProcessor\<close>: the database generates the id.\<close>

definition createNewProcessor :: "env \<Rightarrow> ErProcessor \<Rightarrow> (world, ErProcessor) comp" where
  "createNewProcessor E d =
     (case pr_id d of
        None \<Rightarrow> mthrow NullPointerException
      | Some _ \<Rightarrow>
          mbind (mget next_processor_id) (\<lambda>i.
          mbind (mupd (\<lambda>w. w\<lparr>session_processor := sql_insert (SessionProcessor_of E i d) (session_processor w),
                            next_processor_id := i + 1\<rparr>)) (\<lambda>_.
          change_resource E (d\<lparr>pr_id := Some i\<rparr>) R_INIT R_PRE_ALLOCATED)))"

definition addResidualHeartbeat :: "ErProcessor \<Rightarrow> (world, unit) comp" where
  "addResidualHeartbeat p =
     (case pr_id p of
        None \<Rightarrow> mthrow NullPointerException
      | Some i \<Rightarrow> mupd (\<lambda>w. w\<lparr>residual_heartbeats := AList.update i p (residual_heartbeats w)\<rparr>))"

definition running_handle :: "env \<Rightarrow> ErProcessor \<Rightarrow> string \<Rightarrow> (world, ErProcessor) comp" where
  "running_handle E d des =
     mbind (mupd (updateState d des)) (\<lambda>_.
     mbind (change_resource E d R_PRE_ALLOCATED R_ALLOCATED) (\<lambda>_.
     reread_processor E d NullPointerException))"

definition runningStop_handle :: "env \<Rightarrow> ErProcessor \<Rightarrow> string \<Rightarrow> (world, ErProcessor) comp" where
  "runningStop_handle E d des =
     mbind (mupd (updateState d des)) (\<lambda>_.
     mbind (change_resource E d R_ALLOCATED R_RETURN) (\<lambda>_.
     reread_processor E d (RuntimeException [])))"

definition newStop_handle :: "env \<Rightarrow> ErProcessor \<Rightarrow> string \<Rightarrow> (world, ErProcessor) comp" where
  "newStop_handle E d des =
     mbind (mupd (updateState d des)) (\<lambda>_. change_resource E d R_PRE_ALLOCATED R_ALLOCATE_FAILED)"

fun processor_prepare :: "env \<Rightarrow> processor_handler \<Rightarrow> ErProcessor phase" where
  "processor_prepare E ProcessorCreateHandler d pre des = mreturn d"
| "processor_prepare E ProcessorStateRunningHandler d pre des = mbind (mupd openAsynPostHandle) (\<lambda>_. mreturn d)"
| "processor_prepare E ProcessorStatusRunningStopHandler d pre des = mreturn d"
| "processor_prepare E ProcessorStateNewStopHandler d pre des = abstract_prepare E d"
| "processor_prepare E ProcessorStateInvalidHandler d pre des = abstract_prepare E d"
| "processor_prepare E ProcessorStateIgnoreHandler d pre des = abstract_prepare E d"

fun processor_handle :: "env \<Rightarrow> processor_handler \<Rightarrow> ErProcessor phase" where
  "processor_handle E ProcessorCreateHandler d pre des = createNewProcessor E d"
| "processor_handle E ProcessorStateRunningHandler d pre des = running_handle E d des"
| "processor_handle E ProcessorStatusRunningStopHandler d pre des = runningStop_handle E d des"
| "processor_handle E ProcessorStateNewStopHandler d pre des = newStop_handle E d des"
| "processor_handle E ProcessorStateInvalidHandler d pre des =
     mbind (addResidualHeartbeat d) (\<lambda>_. mreturn d)"
| "processor_handle E ProcessorStateIgnoreHandler d pre des = mreturn d"

definition processor_submit :: "processor_handler \<Rightarrow> ErProcessor \<Rightarrow> (world, unit) comp" where
  "processor_submit h p =
     (\<lambda>w. case pool_submit (Task h (cx w) p) (processor_pool w) of
        Inl e \<Rightarrow> (Inl e, w) | Inr ts \<Rightarrow> (Inr (), w\<lparr>processor_pool := ts\<rparr>))"

section \<open>The machine\<close>

definition processor_build :: "env \<Rightarrow> ErProcessor \<Rightarrow> string option \<Rightarrow> string \<Rightarrow> (world, ErProcessor \<times> string) comp" where
  "processor_build E d pre des =
     mbind (mget (processor_getById (pr_id d))) (\<lambda>row.
     mbind (case row of
              None \<Rightarrow> mreturn d
            | Some r \<Rightarrow> mbind (mlift (toErProcessor E r)) (\<lambda>p.
                mbind (mupd (\<lambda>w. w\<lparr>cx := (cx w)\<lparr>c_processorInDb := Some p\<rparr>\<rparr>)) (\<lambda>_.
                mreturn (d\<lparr>pr_processorType := p_processorType r\<rparr>)))) (\<lambda>d'.
     let preState = (if isEmpty pre then (case row of None \<Rightarrow> [] | Some r \<Rightarrow> p_status r) else the pre) in
     mbind (mupd (\<lambda>w. w\<lparr>cx := (cx w)\<lparr>c_beforeStatus := Some preState\<rparr>\<rparr>)) (\<lambda>_.
     mreturn (d'\<lparr>pr_beforeStatus := Some preState\<rparr>, preState @ ''_'' @ des))))"

definition processor_handlers :: "(string \<times> processor_handler) list" where
  "processor_handlers =
     [(''_NEW'', ProcessorCreateHandler),
      (''NEW_RUNNING'', ProcessorStateRunningHandler),
      (''RUNNING_FINISHED'', ProcessorStatusRunningStopHandler),
      (''RUNNING_STOPPED'', ProcessorStatusRunningStopHandler),
      (''RUNNING_KILLED'', ProcessorStatusRunningStopHandler),
      (''RUNNING_ERROR'', ProcessorStatusRunningStopHandler),
      (''NEW_FINISHED'', ProcessorStateNewStopHandler),
      (''NEW_STOPPED'', ProcessorStateNewStopHandler),
      (''NEW_KILLED'', ProcessorStateNewStopHandler),
      (''NEW_ERROR'', ProcessorStateNewStopHandler),
      (''KILLED_RUNNING'', ProcessorStateInvalidHandler),
      (''STOPPED_RUNNING'', ProcessorStateInvalidHandler),
      (''ERROR_RUNNING'', ProcessorStateInvalidHandler),
      (''RUNNING_RUNNING'', ProcessorStateIgnoreHandler),
      (''_RUNNING'', ProcessorStateInvalidHandler),
      (''IGNORE'', ProcessorStateIgnoreHandler)]"

definition processor_lockKey :: "ErProcessor \<Rightarrow> (world, string) comp" where
  "processor_lockKey d =
     mbind (mget (\<lambda>w. c_processorInDb (cx w))) (\<lambda>inDb.
       case inDb of
         Some p \<Rightarrow> mreturn (''PK_'' @ pr_sessionId p)
       | None \<Rightarrow> (case pr_id d of
           None \<Rightarrow> mthrow NullPointerException
         | Some i \<Rightarrow> mreturn (''PK_'' @ string_of_int i)))"

definition processor_changeStatus :: "env \<Rightarrow> ErProcessor phase" where
  "processor_changeStatus E =
     changeStatus (processor_build E) processor_lockKey processor_handlers (processor_prepare E)
       (processor_handle E) processor_submit"

section \<open>The machine keeps the invariant of the cluster\<close>

lemma toErProcessor_resources: "toErProcessor E r = Inr p \<Longrightarrow> pr_resources p = []"
  by (auto simp: toErProcessor_def new_ErProcessor_def split: sum.splits)

lemma toErProcessor_fields:
  "toErProcessor E r = Inr p \<Longrightarrow> pr_id p = Some (p_processorId r) \<and> pr_sessionId p = p_sessionId r \<and>
     pr_serverNodeId p = p_serverNodeId r \<and> pr_processorType p = p_processorType r \<and> pr_status p = p_status r"
  by (auto simp: toErProcessor_def new_ErProcessor_def split: sum.splits)

lemma toErProcessor_ok: "toErProcessor E r = Inr p \<Longrightarrow> proc_ok p"
  by (simp add: proc_ok_def toErProcessor_resources)

lemma proc_ok_update [simp]:
  "proc_ok (p\<lparr>pr_id := i\<rparr>) = proc_ok p" "proc_ok (p\<lparr>pr_processorType := t\<rparr>) = proc_ok p"
  "proc_ok (p\<lparr>pr_beforeStatus := b\<rparr>) = proc_ok p" "proc_ok (p\<lparr>pr_sessionId := s\<rparr>) = proc_ok p"
  by (simp_all add: proc_ok_def)

lemma change_resource_keeps: "proc_ok d \<Longrightarrow> keeps cluster_inv (change_resource E d a b) proc_ok"
  unfolding change_resource_def by (intro preserves_intros resource_changeStatus_keeps) simp_all

lemma reread_keeps: "keeps cluster_inv (reread_processor E d e) proc_ok"
  unfolding reread_processor_def
  by (rule keeps_mbind[where Q = "\<lambda>_. True"]) (auto intro!: preserves_intros toErProcessor_ok)

lemma updateState_keeps: "cluster_inv w \<Longrightarrow> cluster_inv (updateState d des w)"
  by (auto simp: cluster_inv_def updateState_def map_sql_update set_sql_update updateState_row_def)

lemma abstract_prepare_keeps: "proc_ok d \<Longrightarrow> keeps cluster_inv (abstract_prepare E d) proc_ok"
  unfolding abstract_prepare_def
  by (rule keeps_mbind[where Q = "\<lambda>z. \<forall>p. z = Some p \<longrightarrow> proc_ok p"])
     (auto intro!: preserves_intros keeps_mbind[where m = "mget _" and Q = "\<lambda>_. True"]
       simp: cluster_inv_def dest: toErProcessor_ok)

lemma createNewProcessor_keeps: "proc_ok d \<Longrightarrow> keeps cluster_inv (createNewProcessor E d) proc_ok"
  unfolding createNewProcessor_def
proof (rule keeps_case_option[OF keeps_mthrow], rule keepsI)
  fix x w r w'
  assume d: "proc_ok d" and w: "cluster_inv w"
    and run: "mbind (mget next_processor_id) (\<lambda>i. mbind (mupd (\<lambda>w. w\<lparr>session_processor := sql_insert (SessionProcessor_of E i d) (session_processor w),
                            next_processor_id := i + 1\<rparr>)) (\<lambda>_. change_resource E (d\<lparr>pr_id := Some i\<rparr>) R_INIT R_PRE_ALLOCATED)) w = (r, w')"
  let ?i = "next_processor_id w"
  let ?w1 = "w\<lparr>session_processor := sql_insert (SessionProcessor_of E ?i d) (session_processor w), next_processor_id := ?i + 1\<rparr>"
  have w1: "cluster_inv ?w1" using w
    by (fastforce simp: cluster_inv_def sql_insert_def SessionProcessor_of_def)
  have "keeps cluster_inv (change_resource E (d\<lparr>pr_id := Some ?i\<rparr>) R_INIT R_PRE_ALLOCATED) proc_ok"
    using d by (simp add: change_resource_keeps)
  moreover have "change_resource E (d\<lparr>pr_id := Some ?i\<rparr>) R_INIT R_PRE_ALLOCATED ?w1 = (r, w')"
    using run by (simp add: monad_simps)
  ultimately show "cluster_inv w' \<and> (\<forall>x. r = Inr x \<longrightarrow> proc_ok x)"
    using w1 by (auto dest: keepsD keeps_result)
qed

lemma processor_prepare_keeps: "proc_ok d \<Longrightarrow> keeps cluster_inv (processor_prepare E h d pre des) proc_ok"
  by (cases h) (auto intro!: preserves_intros abstract_prepare_keeps keeps_mbind[where m = "mupd _" and Q = "\<lambda>_. True"]
      simp: openAsynPostHandle_def)

lemma processor_handle_keeps: "proc_ok d \<Longrightarrow> keeps cluster_inv (processor_handle E h d pre des) proc_ok"
  by (cases h)
     (auto simp: running_handle_def runningStop_handle_def newStop_handle_def addResidualHeartbeat_def
       intro!: createNewProcessor_keeps keeps_mbind[where m = "mupd _" and Q = "\<lambda>_. True"]
         keeps_mbind[OF change_resource_keeps] change_resource_keeps reread_keeps preserves_intros updateState_keeps
         keeps_mbind[where m = "case_option _ _ _" and Q = "\<lambda>_. True"])

lemma processor_build_keeps:
  "proc_ok d \<Longrightarrow> keeps cluster_inv (processor_build E d pre des) (\<lambda>x. proc_ok (fst x))"
  unfolding processor_build_def Let_def
  by (auto intro!: keeps_mbind[where m = "mget _" and Q = "\<lambda>_. True"]
      keeps_mbind[where m = "case_option _ _ _" and Q = proc_ok]
      keeps_mbind[where m = "mlift _" and Q = proc_ok]
      keeps_mbind[where m = "mupd _" and Q = "\<lambda>_. True"] preserves_intros
      simp: cluster_inv_def dest: toErProcessor_ok)

lemma processor_submit_keeps: "preserves cluster_inv (processor_submit h p)"
  by (rule keepsI) (auto simp: processor_submit_def pool_submit_def cluster_inv_def split: if_splits)

lemma processor_lockKey_keeps: "preserves cluster_inv (processor_lockKey d)"
  unfolding processor_lockKey_def
  by (auto intro!: keeps_mbind[where m = "mget _" and Q = "\<lambda>_. True"] preserves_intros)

interpretation processorMachine: state_machine "processor_build E" processor_lockKey processor_handlers
  "processor_prepare E" "processor_handle E" processor_submit cluster_inv proc_ok for E
  by unfold_locales
     (auto intro: processor_build_keeps processor_lockKey_keeps processor_prepare_keeps processor_handle_keeps
       processor_submit_keeps)

lemma processor_changeStatus_keeps:
  "proc_ok d \<Longrightarrow> keeps cluster_inv (processor_changeStatus E d pre des) proc_ok"
  unfolding processor_changeStatus_def by (rule processorMachine.changeStatus_keeps)

section \<open>Ended processors\<close>

text \<open>The processors that no request changes any more.\<close>

definition ended :: "string \<Rightarrow> bool" where
  "ended st \<longleftrightarrow> st \<in> {''STOPPED'', ''KILLED'', ''ERROR'', ''FINISHED''}"

lemma ended_handler:
  assumes "ended st" and "lookup_handler processor_handlers (st @ ''_'' @ des) = Some h"
  shows "h \<in> {ProcessorStateInvalidHandler, ProcessorStateIgnoreHandler}"
  using assms by (auto simp: ended_def lookup_handler_def processor_handlers_def split: if_splits)

lemma processor_build_line:
  assumes "processor_getById (pr_id d) w = Some r" and "isEmpty pre"
  shows "keeps (same_tables w) (processor_build E d pre des) (\<lambda>x. snd x = p_status r @ ''_'' @ des)"
proof -
  have row: "processor_getById (pr_id d) v = Some r" if "same_tables w v" for v
    using assms(1) that by (simp add: processor_getById_def same_tables_def split: option.splits)
  show ?thesis
    unfolding processor_build_def Let_def
    by (rule keeps_mbind[where Q = "\<lambda>z. z = Some r"], rule keeps_mget, rule row)
       (auto simp: assms(2) intro!: keeps_mbind[where m = "mbind _ _" and Q = "\<lambda>_. True"]
          keeps_mbind[where m = "mlift _" and Q = "\<lambda>_. True"] keeps_mbind[where m = "mupd _" and Q = "\<lambda>_. True"] preserves_intros)
qed

lemma processor_lockKey_tables: "preserves (same_tables w) (processor_lockKey d)"
  unfolding processor_lockKey_def
  by (auto intro!: keeps_mbind[where m = "mget _" and Q = "\<lambda>_. True"] preserves_intros)

lemma abstract_prepare_tables: "preserves (same_tables w) (abstract_prepare E d)"
  unfolding abstract_prepare_def
  by (auto intro!: keeps_mbind[where m = "mget _" and Q = "\<lambda>_. True"] preserves_intros)

lemma processor_submit_tables: "preserves (same_tables w) (processor_submit h p)"
  by (rule keepsI) (auto simp: processor_submit_def pool_submit_def split: if_splits)

lemma addResidualHeartbeat_tables: "preserves (same_tables w) (addResidualHeartbeat p)"
  unfolding addResidualHeartbeat_def by (intro preserves_intros) simp_all

text \<open>a processor that is stopped, killed, failed or finished stays so: whatever status is asked for,
  and whether the request succeeds or fails, no table of the database changes.\<close>

theorem ended_processor_absorbing:
  assumes "processor_getById (pr_id d) w = Some r" and "ended (p_status r)" and "isEmpty pre"
  shows "same_tables w (snd (processor_changeStatus E d pre des w))"
proof -
  have "preserves (same_tables w) (processor_changeStatus E d pre des)"
    unfolding processor_changeStatus_def
  proof (rule changeStatus_keeps_selected[where H = "\<lambda>h. h \<in> {ProcessorStateInvalidHandler, ProcessorStateIgnoreHandler}"])
    show "keeps (same_tables w) (processor_build E d pre des) (\<lambda>x. snd x = p_status r @ ''_'' @ des)"
      by (rule processor_build_line[OF assms(1,3)])
  qed (use assms(2) ended_handler in \<open>auto intro!: processor_lockKey_tables abstract_prepare_tables processor_submit_tables
         preserves_intros keeps_mbind[OF addResidualHeartbeat_tables]\<close>)
  from keeps_snd[OF this] show ?thesis by simp
qed

section \<open>Stopping a processor\<close>

definition endpoint_ok :: "ErEndpoint option \<Rightarrow> bool" where
  "endpoint_ok z \<longleftrightarrow> (\<forall>e. z = Some e \<longrightarrow> CHR '':'' \<notin> set (ep_host e) \<and> int_range (ep_port e))"

definition readable :: "SessionProcessor \<Rightarrow> bool" where
  "readable r \<longleftrightarrow> (\<exists>a b. read_endpoint (p_commandEndpoint r) = Inr a \<and> read_endpoint (p_transferEndpoint r) = Inr b)"

lemma readable_toErProcessor: "readable r \<Longrightarrow> \<exists>q. toErProcessor E r = Inr q"
  by (auto simp: readable_def toErProcessor_def)

lemma read_endpoint_ok: "read_endpoint s = Inr z \<Longrightarrow> endpoint_ok z"
  by (auto simp: read_endpoint_def endpoint_ok_def endpoint_of_url_def Let_def
      split: if_splits sum.splits option.splits dest!: parseInt_range)
     (metis java_split_sep_free length_greater_0_conv nth_mem)+

lemma toErProcessor_endpoints:
  "toErProcessor E r = Inr q \<Longrightarrow> endpoint_ok (pr_commandEndpoint q) \<and> endpoint_ok (pr_transferEndpoint q)"
  by (auto simp: toErProcessor_def split: sum.splits dest: read_endpoint_ok)

lemma read_endpoint_written:
  assumes "endpoint_ok z" and "\<exists>a. read_endpoint old = Inr a"
  shows "\<exists>a. read_endpoint (case z of None \<Rightarrow> old | Some e \<Rightarrow> Some (endpoint_toString e)) = Inr a"
  using assms by (cases z) (auto simp: read_endpoint_def endpoint_ok_def endpoint_of_url_toString)

lemma readable_updateState:
  "readable r \<Longrightarrow> endpoint_ok (pr_commandEndpoint d) \<Longrightarrow> endpoint_ok (pr_transferEndpoint d) \<Longrightarrow>
   readable (updateState_row d des r)"
  using read_endpoint_written by (auto simp: readable_def updateState_row_def)

lemma processor_build_run:
  assumes "processor_getById (pr_id d) w = Some r" and "isEmpty pre" and "toErProcessor E r = Inr q"
  shows "processor_build E d pre des w =
    (Inr (d\<lparr>pr_processorType := p_processorType r, pr_beforeStatus := Some (p_status r)\<rparr>, p_status r @ ''_'' @ des),
     w\<lparr>cx := (cx w)\<lparr>c_processorInDb := Some q, c_beforeStatus := Some (p_status r)\<rparr>\<rparr>)"
  using assms by (simp add: processor_build_def mbind_def Let_def)

lemma getById_updateState:
  "processor_getById (Some i) (updateState d des w) =
   (if pr_id d = Some i then map_option (updateState_row d des) (processor_getById (Some i) w)
    else processor_getById (Some i) w)"
proof -
  have "sql_get (\<lambda>p. p_processorId p = i) (sql_update (\<lambda>p. Some (p_processorId p) = pr_id d) (updateState_row d des) t) =
      map_option (\<lambda>r. if Some (p_processorId r) = pr_id d then updateState_row d des r else r) (sql_get (\<lambda>p. p_processorId p = i) t)" for t
    by (rule sql_get_update) (simp add: updateState_row_def)
  then show ?thesis
    by (auto simp: processor_getById_def updateState_def map_option_case split: option.split dest: sql_get_SomeD)
qed

text \<open>The statuses in which a processor still holds what it was given.\<close>

definition stop_handler :: "string \<Rightarrow> processor_handler" where
  "stop_handler st = (if st = ''RUNNING'' then ProcessorStatusRunningStopHandler else ProcessorStateNewStopHandler)"

lemma stop_lines:
  "st \<in> {''NEW'', ''RUNNING''} \<Longrightarrow> ended des \<Longrightarrow>
   lookup_handler processor_handlers (st @ ''_'' @ des) = Some (stop_handler st)"
  unfolding ended_def
  by (elim insertE emptyE) (simp_all add: stop_handler_def lookup_handler_def processor_handlers_def)

text \<open>
  A request outside the resource dispatch: no resource changes.  Its context may ask for the
  asynchronous part, which then needs room in the pool.
\<close>

definition plain :: "env \<Rightarrow> SessionProcessor \<Rightarrow> world \<Rightarrow> bool" where
  "plain E r w \<longleftrightarrow> \<not> use_resource_dispatch E \<and> p_processorType r \<noteq> ''DeepSpeed'' \<and> readable r \<and>
     \<not> c_isBreak (cx w) \<and> (c_openAsyn (cx w) \<longrightarrow> length (processor_pool w) < pool_capacity)"

text \<open>What such requests leave as it was, adding at most the given number of tasks.\<close>

definition only_processors :: "nat \<Rightarrow> world \<Rightarrow> world \<Rightarrow> bool" where
  "only_processors n w w' \<longleftrightarrow>
     w' = w\<lparr>session_processor := session_processor w', cx := cx w', processor_pool := processor_pool w'\<rparr> \<and>
     c_isBreak (cx w') = c_isBreak (cx w) \<and> c_openAsyn (cx w') = c_openAsyn (cx w) \<and>
     c_statusReason (cx w') = c_statusReason (cx w) \<and>
     length (processor_pool w') \<le> length (processor_pool w) + n"

text \<open>The end of the locked section, with or without a task.\<close>

lemma plain_section:
  assumes "processor_prepare E h d pre des w = (Inr r, w)" and "processor_handle E h r pre des w = (Inr x, w1)"
    and "cx w1 = cx w" and "processor_pool w1 = processor_pool w" and "\<not> c_isBreak (cx w)"
    and "c_openAsyn (cx w) \<Longrightarrow> length (processor_pool w) < pool_capacity"
  shows "\<exists>ts. locked_section (processor_prepare E) (processor_handle E) processor_submit h d pre des w =
      (Inr x, w1\<lparr>processor_pool := ts\<rparr>) \<and> length ts \<le> length (processor_pool w) + 1"
proof (cases "c_openAsyn (cx w)")
  case True
  with assms show ?thesis
    by (intro exI[of _ "processor_pool w @ [Task h (cx w) x]"])
       (simp add: locked_section_run[where prepare = "processor_prepare E" and handle = "processor_handle E", OF assms(1) _ assms(2)]
          isBreak_def needAsynPostHandle_def processor_submit_def pool_submit_def mrethrow_def mbind_def)
next
  case False
  with assms show ?thesis
    by (intro exI[of _ "processor_pool w"])
       (simp add: locked_section_run[where prepare = "processor_prepare E" and handle = "processor_handle E", OF assms(1) _ assms(2)]
          isBreak_def needAsynPostHandle_def)
qed

lemma processor_changeStatus_line:
  assumes "processor_getById (pr_id d) w = Some r" and "toErProcessor E r = Inr q"
    and "lookup_handler processor_handlers (p_status r @ ''_'' @ des) = Some h"
  shows "processor_changeStatus E d None des w =
    locked_section (processor_prepare E) (processor_handle E) processor_submit h
      (d\<lparr>pr_processorType := p_processorType r, pr_beforeStatus := Some (p_status r)\<rparr>) None des
      (w\<lparr>cx := (cx w)\<lparr>c_processorInDb := Some q, c_beforeStatus := Some (p_status r)\<rparr>\<rparr>)"
  unfolding processor_changeStatus_def
  by (rule changeStatus_run[where build = "processor_build E" and pre = None, OF processor_build_run[OF assms(1) _ assms(2)] assms(3)])
     (simp_all add: processor_lockKey_def mbind_def)

lemma stop_processor_run:
  assumes row: "processor_getById (pr_id d) w = Some r" and st: "p_status r \<in> {''NEW'', ''RUNNING''}" and des: "ended des"
    and pl: "plain E r w" and ep: "endpoint_ok (pr_commandEndpoint d)" "endpoint_ok (pr_transferEndpoint d)"
  shows "\<exists>e x w'. processor_changeStatus E d None des w = (Inr x, w') \<and> only_processors 1 w w' \<and>
    session_processor w' = session_processor (updateState e des w) \<and> pr_id e = pr_id d \<and>
    endpoint_ok (pr_commandEndpoint e) \<and> endpoint_ok (pr_transferEndpoint e)"
proof -
  obtain i where i: "pr_id d = Some i" using row by (cases "pr_id d") (auto simp: processor_getById_def)
  have rd: "readable r" using pl by (simp add: plain_def)
  obtain q where q: "toErProcessor E r = Inr q" using readable_toErProcessor[OF rd] by blast
  have rid: "p_processorId r = i" using row by (auto simp: i processor_getById_def dest: sql_get_SomeD)
  define d' where "d' = d\<lparr>pr_processorType := p_processorType r, pr_beforeStatus := Some (p_status r)\<rparr>"
  define w1 where "w1 = w\<lparr>cx := (cx w)\<lparr>c_processorInDb := Some q, c_beforeStatus := Some (p_status r)\<rparr>\<rparr>"
  note l = processor_changeStatus_line[OF row q stop_lines[OF st des], folded d'_def w1_def]
  have row1: "processor_getById (Some i) w1 = Some r" using row by (simp add: i processor_getById_def w1_def)
  obtain x where x: "toErProcessor E (updateState_row d' des r) = Inr x"
    using readable_toErProcessor[OF readable_updateState[OF rd, of d' des]] ep by (auto simp: d'_def)
  have no: "\<not> checkNeedChangeResource E d'" "\<not> checkNeedChangeResource E q"
    using pl toErProcessor_fields[OF q] by (auto simp: checkNeedChangeResource_def plain_def d'_def)
  have only: "only_processors 1 w ((updateState e des w1)\<lparr>processor_pool := ts\<rparr>)" if "length ts \<le> length (processor_pool w) + 1" for e ts
    using that unfolding only_processors_def by (simp add: updateState_def w1_def)
  have fin: "\<exists>e x w'. processor_changeStatus E d None des w = (Inr x, w') \<and> only_processors 1 w w' \<and>
      session_processor w' = session_processor (updateState e des w) \<and> pr_id e = pr_id d \<and>
      endpoint_ok (pr_commandEndpoint e) \<and> endpoint_ok (pr_transferEndpoint e)"
    if p: "processor_prepare E (stop_handler (p_status r)) d' None des w1 = (Inr e, w1)"
      and h: "processor_handle E (stop_handler (p_status r)) e None des w1 = (Inr y, updateState e des w1)"
      and e: "pr_id e = pr_id d" "endpoint_ok (pr_commandEndpoint e)" "endpoint_ok (pr_transferEndpoint e)" for e y
  proof -
    obtain ts where "processor_changeStatus E d None des w = (Inr y, (updateState e des w1)\<lparr>processor_pool := ts\<rparr>)"
      "length ts \<le> length (processor_pool w) + 1"
      using plain_section[OF p h] pl unfolding l by (auto simp: updateState_def plain_def w1_def)
    with only[of ts e] e show ?thesis
      by (intro exI[of _ e] exI[of _ y] exI[of _ "(updateState e des w1)\<lparr>processor_pool := ts\<rparr>"])
         (simp add: updateState_def w1_def)
  qed
  show ?thesis
  proof (cases "p_status r = ''RUNNING''")
    case True
    have "processor_handle E ProcessorStatusRunningStopHandler d' None des w1 = (Inr x, updateState d' des w1)"
      using no(1) x by (simp add: runningStop_handle_def mbind_def change_resource_def reread_processor_def getById_updateState row1 i d'_def)
    with True ep show ?thesis by (intro fin[of d' x]) (simp_all add: stop_handler_def d'_def)
  next
    case False
    have "processor_prepare E ProcessorStateNewStopHandler d' None des w1 = (Inr q, w1)"
      by (simp add: abstract_prepare_def mbind_def w1_def)
    moreover have "processor_handle E ProcessorStateNewStopHandler q None des w1 = (Inr q, updateState q des w1)"
      using no(2) by (simp add: newStop_handle_def mbind_def change_resource_def)
    ultimately show ?thesis
      using False toErProcessor_endpoints[OF q] toErProcessor_fields[OF q] rid i
      by (intro fin[of q q]) (simp_all add: stop_handler_def)
  qed
qed

text \<open>Outside the resource dispatch, finishing, stopping, killing or failing a new or running
  processor succeeds, gives its row the new status, and changes no other processor, no session
  and no resource.\<close>

theorem stop_processor_effect:
  assumes "processor_getById (pr_id d) w = Some r" and "p_status r \<in> {''NEW'', ''RUNNING''}" and "ended des"
    and "plain E r w" and "endpoint_ok (pr_commandEndpoint d)" and "endpoint_ok (pr_transferEndpoint d)"
  shows "\<exists>x w' r'. processor_changeStatus E d None des w = (Inr x, w') \<and>
    processor_getById (pr_id d) w' = Some r' \<and> p_status r' = des \<and> p_sessionId r' = p_sessionId r \<and>
    p_serverNodeId r' = p_serverNodeId r \<and>
    (\<forall>j. Some j \<noteq> pr_id d \<longrightarrow> processor_getById (Some j) w' = processor_getById (Some j) w) \<and>
    session_main w' = session_main w \<and> node_resource w' = node_resource w \<and> processor_resource w' = processor_resource w"
proof -
  obtain e x w' where run: "processor_changeStatus E d None des w = (Inr x, w')" "only_processors 1 w w'"
    "session_processor w' = session_processor (updateState e des w)" "pr_id e = pr_id d"
    using stop_processor_run[OF assms] by blast
  obtain i where i: "pr_id d = Some i" using assms(1) by (cases "pr_id d") (auto simp: processor_getById_def)
  have get: "processor_getById (Some j) w' = processor_getById (Some j) (updateState e des w)" for j
    by (simp add: processor_getById_def run(3))
  have "session_main w' = session_main w" "node_resource w' = node_resource w" "processor_resource w' = processor_resource w"
    using run(2) unfolding only_processors_def by (metis (no_types, lifting) world.select_convs world.surjective world.update_convs)+
  with assms(1) run(1,4) show ?thesis
    by (intro exI[of _ x] exI[of _ w'] exI[of _ "updateState_row e des r"])
       (simp add: i get getById_updateState updateState_row_def)
qed

text \<open>A processor that reports to be running but has no row is recorded under its id for the thread
  that kills residual processes, and the database does not change.\<close>

theorem residual_heartbeat_recorded:
  assumes "pr_id d = Some i" and "processor_getById (Some i) w = None" and "cx w = new_Context"
  shows "\<exists>p w'. processor_changeStatus E d None ''RUNNING'' w = (Inr p, w') \<and>
    map_of (residual_heartbeats w') i = Some p \<and> pr_id p = Some i \<and> same_tables w w'"
proof -
  define c where "c = new_Context\<lparr>c_beforeStatus := Some []\<rparr>"
  define d' where "d' = d\<lparr>pr_beforeStatus := Some []\<rparr>"
  have b: "processor_build E d None ''RUNNING'' w = (Inr (d', ''_RUNNING''), w\<lparr>cx := c\<rparr>)"
    using assms by (simp add: processor_build_def mbind_def Let_def d'_def c_def)
  have l: "processor_changeStatus E d None ''RUNNING'' w =
      locked_section (processor_prepare E) (processor_handle E) processor_submit ProcessorStateInvalidHandler d' None ''RUNNING'' (w\<lparr>cx := c\<rparr>)"
    unfolding processor_changeStatus_def
    by (rule changeStatus_run[where build = "processor_build E" and pre = None, OF b])
       (simp_all add: lookup_handler_def processor_handlers_def processor_lockKey_def mbind_def c_def new_Context_def d'_def assms(1))
  have "processor_getById (Some i) (w\<lparr>cx := c\<rparr>) = None" using assms(2) by (simp add: processor_getById_def)
  then have "processor_prepare E ProcessorStateInvalidHandler d' None ''RUNNING'' (w\<lparr>cx := c\<rparr>) = (Inr d', w\<lparr>cx := c\<rparr>)"
    by (simp add: abstract_prepare_def mbind_def c_def new_Context_def d'_def assms(1))
  then show ?thesis
    by (auto simp: l locked_section_def transactionHandle_def mbind_def mrethrow_def addResidualHeartbeat_def isBreak_def
        needAsynPostHandle_def c_def new_Context_def d'_def assms(1) update_conv')
qed

section \<open>The properties at work\<close>

definition sample_row :: "string \<Rightarrow> SessionProcessor" where
  "sample_row st = \<lparr>p_processorId = 1, p_sessionId = ''s1'', p_serverNodeId = 7, p_processorType = ''egg_pair'', p_status = st,
     p_beforeStatus = None, p_tag = [], p_commandEndpoint = Some ''h:4671'', p_transferEndpoint = None,
     p_processorOption = None, p_pid = None, p_createdAt = None, p_updatedAt = None\<rparr>"

definition sample_world :: "string \<Rightarrow> world" where
  "sample_world st = empty_world\<lparr>session_processor := [sample_row st], next_processor_id := 2\<rparr>"

definition plain_env :: env where
  "plain_env = \<lparr>use_resource_dispatch = False, processors_per_node = 1, object2Json = (\<lambda>_. ''{}''),
     json2Object = (\<lambda>_. []), now = 0, session_polls = []\<rparr>"

definition sample_report :: "int \<Rightarrow> ErProcessor" where
  "sample_report i = new_ErProcessor\<lparr>pr_id := Some i, pr_sessionId := ''s1''\<rparr>"

lemmas sample_world_defs = sample_row_def sample_world_def plain_env_def sample_report_def empty_world_def new_Context_def
  new_ErProcessor_def processor_getById_def

theorem ended_processor_absorbing_witness:
  "same_tables (sample_world ''KILLED'') (snd (processor_changeStatus plain_env (sample_report 1) None ''RUNNING'' (sample_world ''KILLED'')))"
  by (rule ended_processor_absorbing[where r = "sample_row ''KILLED''"]) (simp_all add: sample_world_defs ended_def)

lemma sample_row_readable: "readable (sample_row st)"
proof -
  have "read_endpoint (Some ''h:4671'') = Inr (Some \<lparr>ep_host = ''h'', ep_port = 4671\<rparr>)" by code_simp
  then show ?thesis by (simp add: readable_def sample_row_def) (simp add: read_endpoint_def)
qed

theorem stop_processor_effect_witness:
  "\<exists>x w' r'. processor_changeStatus plain_env (sample_report 1) None ''KILLED'' (sample_world ''RUNNING'') = (Inr x, w') \<and>
     processor_getById (Some 1) w' = Some r' \<and> p_status r' = ''KILLED''"
  using stop_processor_effect[of "sample_report 1" "sample_world ''RUNNING''" "sample_row ''RUNNING''" "''KILLED''" plain_env]
    sample_row_readable[of "''RUNNING''", unfolded sample_row_def]
  by (auto simp: sample_world_defs ended_def plain_def endpoint_ok_def)

theorem residual_heartbeat_recorded_witness:
  "\<exists>p w'. processor_changeStatus plain_env (sample_report 9) None ''RUNNING'' (sample_world ''NEW'') = (Inr p, w') \<and>
     map_of (residual_heartbeats w') 9 = Some p"
  using residual_heartbeat_recorded[of "sample_report 9" 9 "sample_world ''NEW''" plain_env]
  by (auto simp: sample_world_defs)

end
