(* ===== verification/Session_Machine.thy ===== *)
theory Session_Machine
  imports Processor_Machine
begin

text \<open>
  The session state machine (\<open>SessionStateMachine\<close>, \<open>AbstractSessionStateHandler\<close> and the
  session handlers), the parts of \<open>SessionMainService\<close>, \<open>SessionOptionService\<close> and
  \<open>ServerNodeService\<close> it calls, and the asynchronous parts of all the handlers.  Commands to the
  node managers are recorded in the order in which the code issues them; a remote call that
  fails is not modelled.
\<close>

section \<open>Reading sessions\<close>

definition session_getById :: "string \<Rightarrow> world \<Rightarrow> SessionMain option" where
  "session_getById sid w = sql_get (\<lambda>m. m_sessionId m = sid) (session_main w)"

definition getSessionOptions :: "string \<Rightarrow> world \<Rightarrow> SessionOption list" where
  "getSessionOptions sid w = sql_select (\<lambda>r. o_sessionId r = sid) (session_option w)"

definition option_map :: "SessionOption list \<Rightarrow> (string \<times> string) list" where
  "option_map os = fold (\<lambda>r m. AList.update (o_name r) (o_data r) m) os []"

definition getSession :: "env \<Rightarrow> string \<Rightarrow> bool \<Rightarrow> bool \<Rightarrow> bool \<Rightarrow> world \<Rightarrow> exn + ErSessionMeta option" where
  "getSession E sid withProcessor withOption withResource w =
     (case session_getById sid w of
        None \<Rightarrow> Inr None
      | Some m \<Rightarrow>
          (case (if withProcessor then getProcessorBySession E sid withResource w
                 else Inr (sm_processors (toErSessionMeta m))) of
             Inl e \<Rightarrow> Inl e
           | Inr ps \<Rightarrow>
               let s = (toErSessionMeta m)\<lparr>sm_processors := ps\<rparr>
               in Inr (Some (if withOption then s\<lparr>sm_options := option_map (getSessionOptions sid w)\<rparr> else s))))"

definition getSessionMain :: "string \<Rightarrow> world \<Rightarrow> ErSessionMeta option" where
  "getSessionMain sid w = map_option toErSessionMeta (session_getById sid w)"

text \<open>The one-argument overload collects the options with \<open>toMap\<close>, which refuses duplicates.\<close>

definition getSession_all :: "env \<Rightarrow> string \<Rightarrow> world \<Rightarrow> exn + ErSessionMeta option" where
  "getSession_all E sid w =
     (let opts = getSessionOptions sid w in
      if \<not> distinct (map o_name opts) then Inl (IllegalStateException ''Duplicate key'')
      else (case toErProcessors E (sql_select (\<lambda>p. p_sessionId p = sid) (session_processor w)) of
              Inl e \<Rightarrow> Inl e
            | Inr ps \<Rightarrow> Inr (map_option (\<lambda>s. s\<lparr>sm_options := option_map opts, sm_processors := ps\<rparr>)
                (getSessionMain sid w))))"

definition getSessionMainsByStatus :: "string list \<Rightarrow> world \<Rightarrow> ErSessionMeta list" where
  "getSessionMainsByStatus sts w =
     map toErSessionMeta (sql_select (\<lambda>m. m_status m \<in> Some ` set sts) (session_main w))"

section \<open>Writing sessions\<close>

text \<open>\<open>save\<close> fails on a session id that is taken; \<open>updateById\<close> writes the fields that are set.\<close>

definition session_save :: "SessionMain \<Rightarrow> (world, unit) comp" where
  "session_save m =
     (\<lambda>w. if session_getById (m_sessionId m) w = None
          then (Inr (), w\<lparr>session_main := sql_insert m (session_main w)\<rparr>)
          else (Inl DuplicateKeyException, w))"

definition or_old :: "'a option \<Rightarrow> 'a option \<Rightarrow> 'a option" where
  "or_old new old = (case new of None \<Rightarrow> old | Some v \<Rightarrow> Some v)"

definition SessionMain_overwrite :: "SessionMain \<Rightarrow> SessionMain \<Rightarrow> SessionMain" where
  "SessionMain_overwrite n m =
     m\<lparr>m_name := or_old (m_name n) (m_name m), m_status := or_old (m_status n) (m_status m),
       m_beforeStatus := or_old (m_beforeStatus n) (m_beforeStatus m),
       m_statusReason := or_old (m_statusReason n) (m_statusReason m), m_tag := or_old (m_tag n) (m_tag m),
       m_totalProcCount := or_old (m_totalProcCount n) (m_totalProcCount m),
       m_activeProcCount := or_old (m_activeProcCount n) (m_activeProcCount m),
       m_createdAt := or_old (m_createdAt n) (m_createdAt m), m_updatedAt := or_old (m_updatedAt n) (m_updatedAt m)\<rparr>"

definition session_updateById :: "SessionMain \<Rightarrow> world \<Rightarrow> world" where
  "session_updateById n w =
     w\<lparr>session_main := sql_update (\<lambda>m. m_sessionId m = m_sessionId n) (SessionMain_overwrite n) (session_main w)\<rparr>"

text \<open>The number of running processors of a session, written to its row; whether all run.\<close>

definition updateSessionMainActiveCount :: "env \<Rightarrow> string \<Rightarrow> (world, bool) comp" where
  "updateSessionMainActiveCount E sid =
     mbind (\<lambda>w. mlift (getProcessorBySession E sid False w) w) (\<lambda>ps.
     let activeCount = length (filter (\<lambda>p. pr_status p = ''RUNNING'') ps) in
     mbind (mupd (\<lambda>w. w\<lparr>session_main := sql_update (\<lambda>m. m_sessionId m = sid)
       (\<lambda>m. m\<lparr>m_activeProcCount := Some (int activeCount)\<rparr>) (session_main w)\<rparr>)) (\<lambda>_.
     mreturn (length ps \<noteq> 0 \<and> length ps = activeCount)))"

definition updateSessionMain :: "ErSessionMeta \<Rightarrow> (ErSessionMeta \<Rightarrow> (world, unit) comp) option \<Rightarrow> (world, unit) comp" where
  "updateSessionMain s afterCall =
     mbind (mupd (\<lambda>w. w\<lparr>session_main := sql_update (\<lambda>m. m_sessionId m = sm_id s)
       (\<lambda>m. m\<lparr>m_name := Some (sm_name s), m_status := sm_status s, m_tag := sm_tag s,
              m_activeProcCount := sm_activeProcCount s\<rparr>) (session_main w)\<rparr>)) (\<lambda>_.
     case afterCall of None \<Rightarrow> mreturn () | Some f \<Rightarrow> f s)"

definition removeSession :: "string \<Rightarrow> world \<Rightarrow> world" where
  "removeSession sid w =
     processor_removeBySessionId sid
       (w\<lparr>session_main := sql_delete (\<lambda>m. m_sessionId m = sid) (session_main w),
          session_option := sql_delete (\<lambda>r. o_sessionId r = sid) (session_option w)\<rparr>)"

definition register_row :: "string \<Rightarrow> int \<Rightarrow> ErProcessor \<Rightarrow> SessionProcessor" where
  "register_row sid i p =
     \<lparr>p_processorId = i, p_sessionId = sid, p_serverNodeId = intValue (pr_serverNodeId p),
      p_processorType = pr_processorType p, p_status = pr_status p, p_beforeStatus = None, p_tag = pr_tag p,
      p_commandEndpoint = map_option endpoint_toString (pr_commandEndpoint p),
      p_transferEndpoint = map_option endpoint_toString (pr_transferEndpoint p),
      p_processorOption = None, p_pid = None, p_createdAt = None, p_updatedAt = None\<rparr>"

definition register :: "ErSessionMeta \<Rightarrow> bool \<Rightarrow> (world, unit) comp" where
  "register s replace =
     mbind (mwhen replace (mupd (removeSession (sm_id s)))) (\<lambda>_.
     mbind (session_save ((new_SessionMain (sm_id s))\<lparr>m_name := Some (sm_name s), m_status := sm_status s,
       m_tag := sm_tag s, m_totalProcCount := sm_totalProcCount s\<rparr>)) (\<lambda>_.
     mbind (mupd (\<lambda>w. w\<lparr>session_option := session_option w @
       map (\<lambda>(k, v). \<lparr>o_sessionId = sm_id s, o_name = k, o_data = v\<rparr>) (sm_options s)\<rparr>)) (\<lambda>_.
     mfor (\<lambda>p. mupd (\<lambda>w. w\<lparr>session_processor := sql_insert (register_row (sm_id s) (next_processor_id w) p) (session_processor w),
       next_processor_id := next_processor_id w + 1\<rparr>)) (sm_processors s))))"

section \<open>Server nodes\<close>

definition serverNode_where :: "ErServerNode \<Rightarrow> ServerNode \<Rightarrow> bool" where
  "serverNode_where e v \<longleftrightarrow>
     (sn_id e > 0 \<longrightarrow> v_serverNodeId v = sn_id e) \<and>
     (\<not> isBlank (Some (sn_name e)) \<longrightarrow> v_name v = sn_name e) \<and>
     (sn_clusterId e \<ge> 0 \<longrightarrow> v_serverClusterId v = sn_clusterId e) \<and>
     (\<not> isBlank (Some (ep_host (sn_endpoint e))) \<longrightarrow> v_host v = ep_host (sn_endpoint e)) \<and>
     (ep_port (sn_endpoint e) > 0 \<longrightarrow> v_port v = ep_port (sn_endpoint e)) \<and>
     (\<not> isBlank (Some (sn_nodeType e)) \<longrightarrow> v_nodeType v = sn_nodeType e) \<and>
     (\<not> isBlank (Some (sn_status e)) \<longrightarrow> v_status v = sn_status e)"

definition getListByErServerNode :: "ErServerNode \<Rightarrow> world \<Rightarrow> ErServerNode list" where
  "getListByErServerNode e w =
     map toErServerNode (sort_key v_serverNodeId (sql_select (serverNode_where e) (server_node w)))"

definition getServerNodesWithResource :: "ErServerNode \<Rightarrow> world \<Rightarrow> ErServerNode list" where
  "getServerNodesWithResource e w =
     map (\<lambda>n. n\<lparr>sn_resources := map nodeResource_toErResource
       (sql_select (\<lambda>r. n_serverNodeId r = sn_id n) (node_resource w))\<rparr>) (getListByErServerNode e w)"

definition healthy_example :: ErServerNode where
  "healthy_example = new_ErServerNode\<lparr>sn_status := ''HEALTHY'', sn_nodeType := ''NODE_MANAGER''\<rparr>"

definition getByEndPoint :: "ErEndpoint \<Rightarrow> world \<Rightarrow> ServerNode option" where
  "getByEndPoint e w = sql_get (\<lambda>v. v_host v = ep_host e \<and> v_port v = ep_port e) (server_node w)"

section \<open>Common parts of the handlers\<close>

definition updateStatus :: "ErSessionMeta \<Rightarrow> string \<Rightarrow> world \<Rightarrow> world" where
  "updateStatus s des w =
     session_updateById ((new_SessionMain (sm_id s))\<lparr>m_status := Some des,
       m_activeProcCount := sm_activeProcCount s,
       m_beforeStatus := Some (null_string (c_beforeStatus (cx w))),
       m_statusReason := Some (null_string (c_statusReason (cx w)))\<rparr>) w"

text \<open>
  The state machine mutates the processor it is given: the created processor carries its new
  id, one whose id is taken only gets the type and the status of the row.
\<close>

definition insert_processor :: "env \<Rightarrow> ErProcessor \<Rightarrow> (world, ErProcessor) comp" where
  "insert_processor E p =
     mbind (mget (processor_getById (pr_id p))) (\<lambda>row.
     mbind (processor_changeStatus E p None ''NEW'') (\<lambda>q.
     mreturn (case row of
         Some r \<Rightarrow> if p_status r = [] then q
                    else p\<lparr>pr_processorType := p_processorType r, pr_beforeStatus := Some (p_status r)\<rparr>
       | None \<Rightarrow> q)))"

definition doInserSession :: "env \<Rightarrow> ErSessionMeta \<Rightarrow> (world, ErSessionMeta) comp" where
  "doInserSession E s =
     mbind (mupd (\<lambda>w. w\<lparr>session_option := session_option w @
       map (\<lambda>(k, v). SessionOption_set (sm_id s) k v) (sm_options s)\<rparr>)) (\<lambda>_.
     mbind (mmap (insert_processor E) (sm_processors s)) (\<lambda>ps.
     mreturn (s\<lparr>sm_processors := ps\<rparr>)))"

definition put_serverNodes :: "world \<Rightarrow> world" where
  "put_serverNodes w = w\<lparr>cx := (cx w)\<lparr>c_serverNodes := Some (getListByErServerNode healthy_example w)\<rparr>\<rparr>"

definition eggs_per_node :: "env \<Rightarrow> ErSessionMeta \<Rightarrow> exn + int" where
  "eggs_per_node E s =
     (case map_of (sm_options s) ''eggroll.session.processors.per.node'' of
        None \<Rightarrow> Inr (processors_per_node E)
      | Some v \<Rightarrow> (case parseInt v of None \<Rightarrow> Inl NumberFormatException | Some i \<Rightarrow> Inr i))"

definition new_processor :: "ErSessionMeta \<Rightarrow> string option \<Rightarrow> ErServerNode \<Rightarrow> ErProcessor" where
  "new_processor s ptype n =
     new_ErProcessor\<lparr>pr_serverNodeId := sn_id n, pr_sessionId := sm_id s,
       pr_processorType := (case ptype of None \<Rightarrow> ''egg_pair'' | Some t \<Rightarrow> t),
       pr_status := ''NEW'', pr_commandEndpoint := Some \<lparr>ep_host = ep_host (sn_endpoint n), ep_port = 0\<rparr>,
       pr_options := sm_options s\<rparr>"

definition place_processors :: "env \<Rightarrow> ErSessionMeta \<Rightarrow> (world, ErSessionMeta) comp" where
  "place_processors E s0 =
     (let s = s0\<lparr>sm_status := Some ''NEW''\<rparr> in
      mbind (mget cx) (\<lambda>c.
        case c_serverNodes c of
          None \<Rightarrow> mthrow (RuntimeException ''no health server node'')
        | Some [] \<Rightarrow> mthrow (RuntimeException ''no health server node'')
        | Some nodes \<Rightarrow>
            mbind (mlift (eggs_per_node E s)) (\<lambda>k.
            mreturn (s\<lparr>sm_processors :=
              (if c_processorType c \<noteq> Some ''DeepSpeed''
               then concat (map (\<lambda>n. replicate (nat k) (new_processor s (c_processorType c) n)) nodes)
               else map (\<lambda>p. p\<lparr>pr_sessionId := sm_id s\<rparr>) (sm_processors s))\<rparr>))))"

definition new_row :: "env \<Rightarrow> ErSessionMeta \<Rightarrow> string \<Rightarrow> SessionMain" where
  "new_row E s st = SessionMain_of (sm_id s) (sm_name s) st (sm_tag s) (int (length (sm_processors s))) 0 (now E) (now E)"

section \<open>The handlers\<close>

definition sessionCreate_handle :: "env \<Rightarrow> ErSessionMeta \<Rightarrow> (world, ErSessionMeta) comp" where
  "sessionCreate_handle E s =
     mbind (\<lambda>w. mlift (getSession E (sm_id s) True True False w) w) (\<lambda>inDb.
       case inDb of
         Some old \<Rightarrow> mreturn old
       | None \<Rightarrow>
           mbind (place_processors E s) (\<lambda>s'.
           mbind (session_save (new_row E s' ''NEW'')) (\<lambda>_.
           mbind (doInserSession E s') (\<lambda>r.
           mbind (mupd openAsynPostHandle) (\<lambda>_. mreturn r)))))"

definition sessionWaitNew_handle :: "env \<Rightarrow> ErSessionMeta \<Rightarrow> (world, ErSessionMeta) comp" where
  "sessionWaitNew_handle E s =
     mbind (place_processors E s) (\<lambda>s'.
     mbind (mupd (session_updateById (new_row E s' ''NEW''))) (\<lambda>_.
     mbind (doInserSession E s') (\<lambda>r.
     mbind (mupd openAsynPostHandle) (\<lambda>_. mreturn r))))"

definition sessionWaitResource_handle :: "env \<Rightarrow> ErSessionMeta \<Rightarrow> (world, ErSessionMeta) comp" where
  "sessionWaitResource_handle E s =
     mbind (session_save (new_row E s ''WAITING_RESOURCE'')) (\<lambda>_. mreturn s)"

text \<open>
  The handlers read a session back after they have written its row, so the row is there; the
  exception for a missing row stands for the null that the Java call would pass on.
\<close>

definition reread_session :: "env \<Rightarrow> string \<Rightarrow> bool \<Rightarrow> exn \<Rightarrow> (world, ErSessionMeta) comp" where
  "reread_session E sid withProcessor missing =
     mbind (\<lambda>w. mlift (getSession E sid withProcessor False False w) w) (\<lambda>z.
       case z of None \<Rightarrow> mthrow missing | Some s \<Rightarrow> mreturn s)"

definition sessionStop_prepare :: "env \<Rightarrow> ErSessionMeta \<Rightarrow> string option \<Rightarrow> (world, ErSessionMeta) comp" where
  "sessionStop_prepare E d pre =
     mbind (reread_session E (sm_id d) True (RuntimeException [])) (\<lambda>s.
     if \<not> isEmpty pre \<and> pre = sm_status s then mthrow (RuntimeException [])
     else mbind (mupd openAsynPostHandle) (\<lambda>_.
       mreturn (case sm_activeProcCount d of None \<Rightarrow> s | Some c \<Rightarrow> s\<lparr>sm_activeProcCount := Some c\<rparr>)))"

definition sessionStop_handle :: "env \<Rightarrow> string \<Rightarrow> ErSessionMeta \<Rightarrow> string \<Rightarrow> (world, ErSessionMeta) comp" where
  "sessionStop_handle E processorStatus s des =
     mbind (mupd (updateStatus s des)) (\<lambda>_.
     mbind (mfor (\<lambda>p. mbind (processor_changeStatus E p None processorStatus) (\<lambda>_. mreturn ())) (sm_processors s)) (\<lambda>_.
     reread_session E (sm_id s) True NullPointerException))"

definition sessionWaitingKill_handle :: "ErSessionMeta \<Rightarrow> string option \<Rightarrow> string \<Rightarrow> (world, ErSessionMeta) comp" where
  "sessionWaitingKill_handle s pre des =
     mbind (mupd (\<lambda>w. session_updateById ((new_SessionMain (sm_id s))\<lparr>m_status := Some des,
       m_statusReason := Some (null_string (c_statusReason (cx w)))\<rparr>) w)) (\<lambda>_.
     mreturn (s\<lparr>sm_beforeStatus := pre\<rparr>))"

definition sessionActive_prepare :: "env \<Rightarrow> ErSessionMeta \<Rightarrow> (world, ErSessionMeta) comp" where
  "sessionActive_prepare E d =
     mbind (reread_session E (sm_id d) False NullPointerException) (\<lambda>s.
       case sm_status s of
         None \<Rightarrow> mthrow NullPointerException
       | Some st \<Rightarrow>
           mbind (mupd (if st \<noteq> ''NEW'' then setIsBreak True else openAsynPostHandle)) (\<lambda>_.
           mreturn (s\<lparr>sm_status := Some ''ACTIVE''\<rparr>)))"

definition sessionActive_handle :: "env \<Rightarrow> ErSessionMeta \<Rightarrow> (world, ErSessionMeta) comp" where
  "sessionActive_handle E s =
     mbind (mupd (\<lambda>w. w\<lparr>session_main := sql_update (\<lambda>m. m_sessionId m = sm_id s)
       (\<lambda>m. m\<lparr>m_status := sm_status s\<rparr>) (session_main w)\<rparr>)) (\<lambda>_.
     reread_session E (sm_id s) False NullPointerException)"

text \<open>
  \<open>checkSessionRpcReady\<close> polls the database until the session has started or the time is up.
  The list holds what successive reads within the time limit return.
\<close>

fun checkSessionRpcReady :: "ErSessionMeta option list \<Rightarrow> exn + bool" where
  "checkSessionRpcReady [] = Inr False"
| "checkSessionRpcReady (None # rest) = Inr False"
| "checkSessionRpcReady (Some cur # rest) =
     (case isOverState cur of
        Inl e \<Rightarrow> Inl e
      | Inr fin \<Rightarrow>
          if fin \<or> sm_status cur = Some ''ACTIVE'' then Inr True
          else if sm_status cur = Some ''NEW'' \<and>
                  (case (sm_activeProcCount cur, sm_totalProcCount cur) of
                     (Some a, Some t) \<Rightarrow> a < t | _ \<Rightarrow> True)
               then checkSessionRpcReady rest
               else Inr True)"

definition null_int :: "int option \<Rightarrow> string" where
  "null_int i = (case i of None \<Rightarrow> ''null'' | Some x \<Rightarrow> string_of_int x)"

definition unable_to_start :: "string \<Rightarrow> ErSessionMeta \<Rightarrow> exn" where
  "unable_to_start sid s = ErSessionException (''unable to start all processors for session id: . '' @ sid @
     ''total processors:'' @ null_int (sm_totalProcCount s) @ '' '' @ [CHR 0x0A] @
     ''started count:'' @ null_int (sm_activeProcCount s))"

text \<open>What a session start that has failed does: kill the session, then report it.\<close>

definition start_failed :: "(ErSessionMeta \<Rightarrow> (world, ErSessionMeta) comp) \<Rightarrow> ErSessionMeta \<Rightarrow> (world, unit) comp" where
  "start_failed kill d =
     mbind (mget (getSessionMain (sm_id d))) (\<lambda>z.
       case z of
         None \<Rightarrow> mthrow NullPointerException
       | Some s \<Rightarrow>
           mwhen (sm_status s \<noteq> Some ''ACTIVE'')
             (mbind (mupd (\<lambda>w. w\<lparr>cx := (cx w)\<lparr>c_statusReason := Some ''PROCESS_ERROR''\<rparr>\<rparr>)) (\<lambda>_.
              mbind (kill d) (\<lambda>_. mthrow (unable_to_start (sm_id d) s)))))"

definition sessionRepeatedCreate_handle ::
  "(ErSessionMeta \<Rightarrow> (world, ErSessionMeta) comp) \<Rightarrow> env \<Rightarrow> ErSessionMeta \<Rightarrow> (world, ErSessionMeta) comp" where
  "sessionRepeatedCreate_handle kill E d =
     mbind (mlift (checkSessionRpcReady (session_polls E))) (\<lambda>rdy.
     mbind (mwhen (\<not> rdy) (start_failed kill d)) (\<lambda>_.
     mbind (\<lambda>w. mlift (getSession E (sm_id d) True True True w) w) (\<lambda>z.
       case z of None \<Rightarrow> mthrow NullPointerException | Some s \<Rightarrow> mreturn s)))"

fun session_prepare :: "env \<Rightarrow> session_handler \<Rightarrow> ErSessionMeta phase" where
  "session_prepare E SessionCreateHandler d pre des = mbind (mupd put_serverNodes) (\<lambda>_. mreturn d)"
| "session_prepare E SessionWaitNewHandler d pre des = mbind (mupd put_serverNodes) (\<lambda>_. mreturn d)"
| "session_prepare E SessionKillHandler d pre des = sessionStop_prepare E d pre"
| "session_prepare E SessionStopHandler d pre des = sessionStop_prepare E d pre"
| "session_prepare E SessionActiveHandler d pre des = sessionActive_prepare E d"
| "session_prepare E _ d pre des = mreturn d"

fun session_handle_with ::
  "(ErSessionMeta \<Rightarrow> (world, ErSessionMeta) comp) \<Rightarrow> env \<Rightarrow> session_handler \<Rightarrow> ErSessionMeta phase" where
  "session_handle_with kill E SessionWaitResourceHandler d pre des = sessionWaitResource_handle E d"
| "session_handle_with kill E SessionWaitNewHandler d pre des = sessionWaitNew_handle E d"
| "session_handle_with kill E SessionCreateHandler d pre des = sessionCreate_handle E d"
| "session_handle_with kill E SessionRepeatedCreateHandler d pre des = sessionRepeatedCreate_handle kill E d"
| "session_handle_with kill E SessionActiveHandler d pre des = sessionActive_handle E d"
| "session_handle_with kill E SessionKillHandler d pre des = sessionStop_handle E ''KILLED'' d des"
| "session_handle_with kill E SessionStopHandler d pre des = sessionStop_handle E ''STOPPED'' d des"
| "session_handle_with kill E SessionWaitingKillHandler d pre des = sessionWaitingKill_handle d pre des"
| "session_handle_with kill E SessionIgnoreHandler d pre des = mreturn d"

definition session_submit :: "session_handler \<Rightarrow> ErSessionMeta \<Rightarrow> (world, unit) comp" where
  "session_submit h s =
     (\<lambda>w. case pool_submit (Task h (cx w) s) (session_pool w) of
        Inl e \<Rightarrow> (Inl e, w) | Inr ts \<Rightarrow> (Inr (), w\<lparr>session_pool := ts\<rparr>))"

section \<open>The machine\<close>

definition session_build :: "env \<Rightarrow> ErSessionMeta \<Rightarrow> string option \<Rightarrow> string \<Rightarrow> (world, ErSessionMeta \<times> string) comp" where
  "session_build E d pre des =
     mbind (\<lambda>w. mlift (getSession E (sm_id d) True False False w) w) (\<lambda>inDb.
     mbind (case inDb of None \<Rightarrow> mreturn ()
            | Some s \<Rightarrow> mupd (\<lambda>w. w\<lparr>cx := (cx w)\<lparr>c_sessionInDb := Some s\<rparr>\<rparr>)) (\<lambda>_.
     let preState = (if isEmpty pre then (case inDb of None \<Rightarrow> Some [] | Some s \<Rightarrow> sm_status s) else pre) in
     mbind (mupd (\<lambda>w. w\<lparr>cx := (cx w)\<lparr>c_beforeStatus := preState\<rparr>\<rparr>)) (\<lambda>_.
     mreturn (d, null_string preState @ ''_'' @ des))))"

definition session_lockKey :: "ErSessionMeta \<Rightarrow> (world, string) comp" where
  "session_lockKey d = mreturn (sm_id d)"

definition session_handlers :: "(string \<times> session_handler) list" where
  "session_handlers =
     [(''_WAITING_RESOURCE'', SessionWaitResourceHandler),
      (''WAITING_RESOURCE_NEW'', SessionWaitNewHandler),
      (''_NEW'', SessionCreateHandler),
      (''NEW_NEW'', SessionRepeatedCreateHandler),
      (''NEW_ACTIVE'', SessionActiveHandler),
      (''NEW_KILLED'', SessionKillHandler),
      (''NEW_ERROR'', SessionKillHandler),
      (''ACTIVE_KILLED'', SessionKillHandler),
      (''ACTIVE_ERROR'', SessionKillHandler),
      (''ACTIVE_CLOSED'', SessionStopHandler),
      (''WAITING_RESOURCE_KILLED'', SessionWaitingKillHandler),
      (''WAITING_RESOURCE_ERROR'', SessionWaitingKillHandler),
      (''WAITING_RESOURCE_CLOSED'', SessionWaitingKillHandler),
      (''IGNORE'', SessionIgnoreHandler)]"

text \<open>
  The handler of a repeated creation calls the machine back to kill the session.  The inner
  call never reaches that handler again, since its line ends in KILLED: the knot is tied in two
  layers, and the lemma below shows that the inner layer is the machine itself.
\<close>

definition session_changeStatus_with ::
  "(ErSessionMeta \<Rightarrow> (world, ErSessionMeta) comp) \<Rightarrow> env \<Rightarrow> ErSessionMeta phase" where
  "session_changeStatus_with kill E =
     changeStatus (session_build E) session_lockKey session_handlers (session_prepare E)
       (session_handle_with kill E) session_submit"

definition killSession_inner :: "env \<Rightarrow> ErSessionMeta \<Rightarrow> (world, ErSessionMeta) comp" where
  "killSession_inner E d = session_changeStatus_with mreturn E d None ''KILLED''"

definition session_changeStatus :: "env \<Rightarrow> ErSessionMeta phase" where
  "session_changeStatus E = session_changeStatus_with (killSession_inner E) E"

text \<open>A computation run with a context of its own, as with \<open>new Context()\<close>.\<close>

definition in_context :: "ctx \<Rightarrow> (world, 'a) comp \<Rightarrow> (world, 'a) comp" where
  "in_context c m = (\<lambda>w. case m (w\<lparr>cx := c\<rparr>) of (r, w') \<Rightarrow> (r, w'\<lparr>cx := cx w\<rparr>))"

text \<open>\<open>registerWithResource\<close> works on the session it is given; the result is that session as the call leaves it.\<close>

definition registerWithResource :: "env \<Rightarrow> ErSessionMeta \<Rightarrow> (world, ErSessionMeta) comp" where
  "registerWithResource E s =
     in_context (new_Context\<lparr>c_processorType := Some ''DeepSpeed''\<rparr>)
       (session_changeStatus E s (Some ''WAITING_RESOURCE'') ''NEW'')"

section \<open>The machine keeps the invariant of the cluster\<close>

definition sess_ok :: "ErSessionMeta \<Rightarrow> bool" where
  "sess_ok s \<longleftrightarrow> (\<forall>p \<in> set (sm_processors s). proc_ok p)"

lemma sess_ok_update [simp]:
  "sess_ok (s\<lparr>sm_status := a\<rparr>) = sess_ok s" "sess_ok (s\<lparr>sm_activeProcCount := b\<rparr>) = sess_ok s"
  "sess_ok (s\<lparr>sm_options := c\<rparr>) = sess_ok s" "sess_ok (s\<lparr>sm_beforeStatus := d\<rparr>) = sess_ok s"
  by (simp_all add: sess_ok_def)

lemma toErProcessors_ok: "toErProcessors E rs = Inr ps \<Longrightarrow> p \<in> set ps \<Longrightarrow> proc_ok p"
  by (induction E rs arbitrary: ps rule: toErProcessors.induct)
     (auto split: sum.splits dest: toErProcessor_ok)

lemma getProcessorBySession_ok:
  assumes "cluster_inv w" and "getProcessorBySession E sid b w = Inr ps" and "p \<in> set ps"
  shows "proc_ok p"
proof -
  obtain qs where "toErProcessors E (sql_select (\<lambda>p. p_sessionId p = sid) (session_processor w)) = Inr qs"
    and ps: "ps = (if b then map (\<lambda>p. p\<lparr>pr_resources := map processorResource_toErResource
            (sql_select (\<lambda>x. Some (x_processorId x) = pr_id p) (processor_resource w))\<rparr>) qs else qs)"
    using assms(2) by (auto simp: getProcessorBySession_def split: sum.splits)
  with assms(1,3) show ?thesis
    by (auto simp: proc_ok_def cluster_inv_def xr_ok_def processorResource_toErResource_def amount_ok_def
        dest: toErProcessors_ok[unfolded proc_ok_def] split: if_splits)
qed

lemma toErSessionMeta_ok [simp]: "sess_ok (toErSessionMeta m)"
  by (simp add: sess_ok_def toErSessionMeta_def new_ErSessionMeta_def)

lemma getSession_ok: "cluster_inv w \<Longrightarrow> getSession E sid a b c w = Inr (Some s) \<Longrightarrow> sess_ok s"
  by (auto simp: getSession_def Let_def sess_ok_def toErSessionMeta_def new_ErSessionMeta_def
      dest: getProcessorBySession_ok split: option.splits sum.splits if_splits)

lemma keeps_read:
  "(\<And>w x. I w \<Longrightarrow> f w = Inr x \<Longrightarrow> Q x) \<Longrightarrow> keeps I (\<lambda>w. mlift (f w) w) Q"
  by (simp add: keeps_def mlift_def)

lemma getSession_keeps:
  "keeps cluster_inv (\<lambda>w. mlift (getSession E sid a b c w) w) (\<lambda>z. \<forall>s. z = Some s \<longrightarrow> sess_ok s)"
  by (rule keeps_read) (auto dest: getSession_ok)

lemma reread_session_keeps: "keeps cluster_inv (reread_session E sid b e) sess_ok"
  unfolding reread_session_def
  by (rule keeps_mbind[OF getSession_keeps]) (auto intro!: preserves_intros)

lemma session_rows_keep:
  "cluster_inv w \<Longrightarrow> (\<And>m. m_sessionId (f m) = m_sessionId m) \<Longrightarrow>
   cluster_inv (w\<lparr>session_main := sql_update P f (session_main w)\<rparr>)"
  by (simp add: cluster_inv_def map_sql_update)

lemma session_updateById_keeps: "cluster_inv w \<Longrightarrow> cluster_inv (session_updateById n w)"
  unfolding session_updateById_def by (rule session_rows_keep) (simp_all add: SessionMain_overwrite_def)

lemma session_save_keeps: "preserves cluster_inv (session_save m)"
  by (rule keepsI)
     (auto simp: session_save_def session_getById_def sql_insert_def cluster_inv_def sql_get_None split: if_splits)

lemma updateStatus_keeps: "cluster_inv w \<Longrightarrow> cluster_inv (updateStatus s des w)"
  unfolding updateStatus_def by (rule session_updateById_keeps)

lemma insert_processor_keeps: "proc_ok p \<Longrightarrow> keeps cluster_inv (insert_processor E p) proc_ok"
  unfolding insert_processor_def
  by (rule keeps_mbind[where Q = "\<lambda>_. True"], rule keeps_mget, simp,
      rule keeps_mbind[OF processor_changeStatus_keeps], assumption)
     (auto intro!: keeps_mreturn split: option.split)

lemma doInserSession_keeps: "sess_ok s \<Longrightarrow> keeps cluster_inv (doInserSession E s) sess_ok"
  unfolding doInserSession_def
  by (rule keeps_mbind[where Q = "\<lambda>_. True"], rule keeps_mupd, simp, simp,
      rule keeps_mbind[OF keeps_mmap[where Q = proc_ok]])
     (auto intro!: insert_processor_keeps keeps_mreturn simp: sess_ok_def)

lemma place_processors_keeps: "sess_ok s \<Longrightarrow> keeps cluster_inv (place_processors E s) sess_ok"
  unfolding place_processors_def Let_def
  by (rule keeps_mbind[where Q = "\<lambda>_. True"], rule keeps_mget, simp)
     (auto intro!: preserves_intros keeps_mbind[where m = "mlift _" and Q = "\<lambda>_. True"] split: option.split list.split
        simp: sess_ok_def proc_ok_def new_processor_def new_ErProcessor_def)

lemma put_serverNodes_keeps: "cluster_inv (put_serverNodes w) = cluster_inv w"
  by (simp add: put_serverNodes_def)

lemma openAsyn_keeps: "cluster_inv (openAsynPostHandle w) = cluster_inv w"
  by (simp add: openAsynPostHandle_def)

lemma setIsBreak_keeps: "cluster_inv (setIsBreak b w) = cluster_inv w"
  by (simp add: setIsBreak_def)

lemmas session_frames = put_serverNodes_keeps openAsyn_keeps setIsBreak_keeps

lemma sessionCreate_keeps: "sess_ok s \<Longrightarrow> keeps cluster_inv (sessionCreate_handle E s) sess_ok"
  unfolding sessionCreate_handle_def
  by (rule keeps_mbind[OF getSession_keeps])
     (auto intro!: keeps_case_option keeps_mreturn keeps_mbind[OF place_processors_keeps]
        keeps_mbind[OF session_save_keeps] keeps_mbind[OF doInserSession_keeps]
        keeps_mbind[where m = "mupd _" and Q = "\<lambda>_. True"] keeps_mupd simp: session_frames)

lemma sessionWaitNew_keeps: "sess_ok s \<Longrightarrow> keeps cluster_inv (sessionWaitNew_handle E s) sess_ok"
  unfolding sessionWaitNew_handle_def
  by (auto intro!: keeps_mreturn keeps_mbind[OF place_processors_keeps] keeps_mbind[OF doInserSession_keeps]
        keeps_mbind[where m = "mupd _" and Q = "\<lambda>_. True"] keeps_mupd session_updateById_keeps simp: session_frames)

lemma sessionStop_prepare_keeps: "keeps cluster_inv (sessionStop_prepare E d pre) sess_ok"
  unfolding sessionStop_prepare_def
  by (rule keeps_mbind[OF reread_session_keeps])
     (auto intro!: preserves_intros keeps_mbind[where m = "mupd _" and Q = "\<lambda>_. True"] split: option.split
        simp: session_frames)

lemma sessionStop_handle_keeps: "sess_ok s \<Longrightarrow> keeps cluster_inv (sessionStop_handle E st s des) sess_ok"
  unfolding sessionStop_handle_def
  by (auto intro!: keeps_mbind[where m = "mupd _" and Q = "\<lambda>_. True"] keeps_mupd updateStatus_keeps
      keeps_mbind[where m = "mfor _ _" and Q = "\<lambda>_. True"] keeps_mfor keeps_mreturn
      keeps_mbind[OF processor_changeStatus_keeps] reread_session_keeps simp: sess_ok_def)

lemma sessionActive_keeps:
  "keeps cluster_inv (sessionActive_prepare E d) sess_ok" "keeps cluster_inv (sessionActive_handle E s) sess_ok"
  unfolding sessionActive_prepare_def sessionActive_handle_def
  by (rule keeps_mbind[OF reread_session_keeps])
     (auto intro!: preserves_intros keeps_mbind[where m = "mupd _" and Q = "\<lambda>_. True"] reread_session_keeps
        session_rows_keep simp: session_frames)

lemma start_failed_keeps:
  "(\<And>d. sess_ok d \<Longrightarrow> keeps cluster_inv (kill d) sess_ok) \<Longrightarrow> sess_ok d \<Longrightarrow> preserves cluster_inv (start_failed kill d)"
  unfolding start_failed_def
  by (auto intro!: keeps_mbind[where m = "mget _" and Q = "\<lambda>_. True"] preserves_intros
      keeps_mbind[where m = "mupd _" and Q = "\<lambda>_. True"] keeps_mbind[where m = "kill d" and Q = sess_ok])

lemma session_prepare_keeps: "sess_ok d \<Longrightarrow> keeps cluster_inv (session_prepare E h d pre des) sess_ok"
  by (cases h) (auto intro!: preserves_intros sessionStop_prepare_keeps sessionActive_keeps
      keeps_mbind[where m = "mupd _" and Q = "\<lambda>_. True"] simp: session_frames)

lemma session_handle_keeps:
  assumes "sess_ok d" and kill: "\<And>d. sess_ok d \<Longrightarrow> keeps cluster_inv (kill d) sess_ok"
  shows "keeps cluster_inv (session_handle_with kill E h d pre des) sess_ok"
proof (cases h)
  case SessionRepeatedCreateHandler
  have "keeps cluster_inv (sessionRepeatedCreate_handle kill E d) sess_ok"
    unfolding sessionRepeatedCreate_handle_def
    by (rule keeps_mbind[where Q = "\<lambda>_. True"], rule keeps_mlift, simp,
        rule keeps_mbind[where Q = "\<lambda>_. True"], rule keeps_mwhen, rule start_failed_keeps[OF kill assms(1)], assumption, simp,
        rule keeps_mbind[OF getSession_keeps])
       (auto intro!: preserves_intros)
  then show ?thesis by (simp add: SessionRepeatedCreateHandler)
qed (use assms(1) in \<open>auto intro!: preserves_intros sessionCreate_keeps sessionWaitNew_keeps sessionStop_handle_keeps
       sessionActive_keeps keeps_mbind[OF session_save_keeps] session_updateById_keeps
       keeps_mbind[where m = "mupd _" and Q = "\<lambda>_. True"]
       simp: sessionWaitResource_handle_def sessionWaitingKill_handle_def\<close>)

lemma session_build_keeps: "sess_ok d \<Longrightarrow> keeps cluster_inv (session_build E d pre des) (\<lambda>x. sess_ok (fst x))"
  unfolding session_build_def Let_def
  by (rule keeps_mbind[OF getSession_keeps])
     (auto intro!: keeps_mbind[where m = "case_option _ _ _" and Q = "\<lambda>_. True"]
        keeps_mbind[where m = "mupd _" and Q = "\<lambda>_. True"] preserves_intros)

lemma session_submit_keeps: "preserves cluster_inv (session_submit h s)"
  by (rule keepsI) (auto simp: session_submit_def pool_submit_def cluster_inv_def split: if_splits)

lemma session_machine_with:
  assumes "\<And>d. sess_ok d \<Longrightarrow> keeps cluster_inv (kill d) sess_ok"
  shows "state_machine (session_build E) session_lockKey (session_prepare E) (session_handle_with kill E)
    session_submit cluster_inv sess_ok"
  by unfold_locales
     (auto simp: session_lockKey_def intro: session_build_keeps session_prepare_keeps session_handle_keeps assms
        session_submit_keeps keeps_mreturn)

lemma killSession_inner_keeps: "sess_ok d \<Longrightarrow> keeps cluster_inv (killSession_inner E d) sess_ok"
  unfolding killSession_inner_def session_changeStatus_with_def
  by (rule state_machine.changeStatus_keeps[OF session_machine_with]) (auto intro: keeps_mreturn)

interpretation sessionMachine: state_machine "session_build E" session_lockKey session_handlers "session_prepare E"
  "session_handle_with (killSession_inner E) E" session_submit cluster_inv sess_ok for E
  by (rule session_machine_with) (rule killSession_inner_keeps)

lemma session_changeStatus_keeps: "sess_ok d \<Longrightarrow> keeps cluster_inv (session_changeStatus E d pre des) sess_ok"
  unfolding session_changeStatus_def session_changeStatus_with_def by (rule sessionMachine.changeStatus_keeps)

lemma in_context_keeps:
  assumes "keeps cluster_inv m Q" and "\<And>p. c_processorInDb c = Some p \<Longrightarrow> proc_ok p"
  shows "keeps cluster_inv (in_context c m) Q"
proof (rule keepsI)
  fix w r w' assume w: "cluster_inv w" "in_context c m w = (r, w')"
  obtain v where mv: "m (w\<lparr>cx := c\<rparr>) = (r, v)" and w': "w' = v\<lparr>cx := cx w\<rparr>"
    using w(2) by (auto simp: in_context_def split: prod.splits)
  have i: "cluster_inv (w\<lparr>cx := c\<rparr>)" using w(1) assms(2) by (simp add: cluster_inv_def)
  have "cluster_inv v" by (rule keepsD[OF assms(1) i mv])
  with w(1) show "cluster_inv w' \<and> (\<forall>x. r = Inr x \<longrightarrow> Q x)"
    using keeps_result[OF assms(1) i] mv by (auto simp: w' cluster_inv_def)
qed

lemma registerWithResource_keeps: "sess_ok s \<Longrightarrow> keeps cluster_inv (registerWithResource E s) sess_ok"
  unfolding registerWithResource_def
  by (rule in_context_keeps[OF session_changeStatus_keeps]) (simp_all add: new_Context_def)

end
