(* ===== verification/Session_Manager.thy ===== *)
theory Session_Manager
  imports Session_Machine
begin

text \<open>
  The asynchronous parts of the handlers (\<open>asynPostHandle\<close>), run from the pools of the three
  state machines, and \<open>DefaultSessionManager\<close>, the service through which clients create and end
  sessions.  The system as a whole is a step relation: a step is a request served to its end or
  one asynchronous task, in any order.
\<close>

section \<open>Asynchronous parts of the handlers\<close>

definition start_containers :: "ctx \<Rightarrow> ErSessionMeta \<Rightarrow> (world, unit) comp" where
  "start_containers c s =
     (if c_processorType c = Some ''DeepSpeed'' then mreturn ()
      else case c_serverNodes c of
        None \<Rightarrow> mthrow NullPointerException
      | Some nodes \<Rightarrow> mupd (\<lambda>w. w\<lparr>sent_commands := sent_commands w @
          map (\<lambda>n. StartContainers (sn_endpoint n) (sm_id s)
            (filter (\<lambda>p. pr_serverNodeId p = sn_id n) (sm_processors s))) nodes\<rparr>))"

definition stop_containers :: "ErSessionMeta \<Rightarrow> (world, unit) comp" where
  "stop_containers s =
     mupd (\<lambda>w. w\<lparr>sent_commands := sent_commands w @
       map (\<lambda>n. StopContainers (sn_endpoint n) (sm_id s)) (getListByErServerNode healthy_example w)\<rparr>)"

text \<open>The latches that requests wait on, one entry for each waiting request.\<close>

definition wakeUpSession :: "string \<Rightarrow> world \<Rightarrow> world" where
  "wakeUpSession sid w = w\<lparr>waiting_sessions := filter (\<lambda>x. x \<noteq> sid) (waiting_sessions w)\<rparr>"

fun session_asynPostHandle :: "session_handler \<Rightarrow> ctx \<Rightarrow> ErSessionMeta \<Rightarrow> (world, unit) comp" where
  "session_asynPostHandle SessionCreateHandler c s = start_containers c s"
| "session_asynPostHandle SessionWaitNewHandler c s = start_containers c s"
| "session_asynPostHandle SessionKillHandler c s = stop_containers s"
| "session_asynPostHandle SessionStopHandler c s = stop_containers s"
| "session_asynPostHandle SessionActiveHandler c s = mupd (wakeUpSession (sm_id s))"
| "session_asynPostHandle _ c s = mreturn ()"

text \<open>A processor that has started running may complete its session.\<close>

definition activate_session :: "env \<Rightarrow> string \<Rightarrow> (world, unit) comp" where
  "activate_session E sid =
     mbind (reread_session E sid False NullPointerException) (\<lambda>s.
       case sm_status s of
         None \<Rightarrow> mthrow NullPointerException
       | Some st \<Rightarrow> mwhen (st = ''NEW'')
           (mbind (in_context new_Context (session_changeStatus E s (Some ''NEW'') ''ACTIVE'')) (\<lambda>_. mreturn ())))"

definition running_asynPostHandle :: "env \<Rightarrow> ctx \<Rightarrow> ErProcessor \<Rightarrow> (world, unit) comp" where
  "running_asynPostHandle E c p =
     (case c_processorInDb c of
        None \<Rightarrow> mthrow NullPointerException
      | Some q \<Rightarrow>
          mbind (updateSessionMainActiveCount E (pr_sessionId q)) (\<lambda>isAllReady.
          mwhen isAllReady (activate_session E (pr_sessionId p))))"

fun processor_asynPostHandle :: "env \<Rightarrow> processor_handler \<Rightarrow> ctx \<Rightarrow> ErProcessor \<Rightarrow> (world, unit) comp" where
  "processor_asynPostHandle E ProcessorStateRunningHandler c p = running_asynPostHandle E c p"
| "processor_asynPostHandle E _ c p = mreturn ()"

section \<open>The session manager\<close>

definition blockSession :: "ErSessionMeta \<Rightarrow> world \<Rightarrow> world" where
  "blockSession s w = w\<lparr>waiting_sessions := waiting_sessions w @ [sm_id s]\<rparr>"

text \<open>
  The busy wait: the list of polls holds what the reads within the time limit return, the
  last one being read when the time is up.
\<close>

fun busy_wait :: "ErSessionMeta option list \<Rightarrow> ErSessionMeta option \<Rightarrow> ErSessionMeta option" where
  "busy_wait [] cur = cur"
| "busy_wait (z # rest) cur =
     (case z of
        Some s \<Rightarrow> if sm_status s \<noteq> Some ''NEW'' \<and> \<not> isBlank (Some (sm_id s)) then Some s else busy_wait rest z
      | None \<Rightarrow> busy_wait rest None)"

definition getSessionBusyWaiting :: "env \<Rightarrow> ErSessionMeta \<Rightarrow> (world, ErSessionMeta option) comp" where
  "getSessionBusyWaiting E s =
     (case busy_wait (session_polls E) None of
        None \<Rightarrow> mreturn None
      | Some _ \<Rightarrow> (\<lambda>w. mlift (getSession E (sm_id s) True True False w) w))"

definition killSession :: "env \<Rightarrow> ErSessionMeta \<Rightarrow> (world, ErSessionMeta) comp" where
  "killSession E s = session_changeStatus E s None ''KILLED''"

definition killSession_to :: "env \<Rightarrow> ErSessionMeta \<Rightarrow> string \<Rightarrow> (world, ErSessionMeta) comp" where
  "killSession_to E s afterState = session_changeStatus E s None afterState"

definition killSession_byId :: "env \<Rightarrow> string \<Rightarrow> (world, ErSessionMeta) comp" where
  "killSession_byId E sid =
     mbind (\<lambda>w. mlift (getSession_all E sid w) w) (\<lambda>z.
       case z of None \<Rightarrow> mthrow NullPointerException
       | Some s \<Rightarrow> session_changeStatus E s None ''KILLED'')"

definition stopSession :: "env \<Rightarrow> ErSessionMeta \<Rightarrow> (world, ErSessionMeta) comp" where
  "stopSession E s = session_changeStatus E s None ''KILLED''"

text \<open>An exception of one kill is logged and the loop goes on.\<close>

definition mcatch :: "('w, 'a) comp \<Rightarrow> ('w, unit) comp" where
  "mcatch m = (\<lambda>w. case m w of (_, w') \<Rightarrow> (Inr (), w'))"

definition killAllSessions :: "env \<Rightarrow> (world, ErSessionMeta) comp" where
  "killAllSessions E =
     mbind (mget (\<lambda>w. sql_select (\<lambda>m. m_status m \<in> {Some ''NEW'', Some ''ACTIVE''}) (session_main w))) (\<lambda>killList.
     mbind (mfor (\<lambda>m. mcatch (session_changeStatus E (toErSessionMeta m) None ''KILLED'')) killList) (\<lambda>_.
     mreturn new_ErSessionMeta))"

text \<open>
  Creating a session: the request waits until the session is activated or the time is up.
  What the rest of the system does in the meantime is the argument \<open>await\<close>, which returns
  whether the latch was released.
\<close>

definition getOrCreateSession ::
  "env \<Rightarrow> (world, bool) comp \<Rightarrow> ErSessionMeta \<Rightarrow> (world, ErSessionMeta option) comp" where
  "getOrCreateSession E await s =
     mbind (\<lambda>w. mlift (getSession E (sm_id s) True True False w) w) (\<lambda>inDb.
       case inDb of
         Some old \<Rightarrow> (case sm_status old of
             None \<Rightarrow> mthrow NullPointerException
           | Some st \<Rightarrow> if st = ''ACTIVE'' then mreturn (Some old) else getSessionBusyWaiting E s)
       | None \<Rightarrow>
           mbind (session_changeStatus E s None ''NEW'') (\<lambda>newSession.
           if sm_status newSession \<noteq> Some ''NEW'' then mreturn (Some newSession)
           else
             mbind (mupd (blockSession s)) (\<lambda>_.
             mbind await (\<lambda>actived.
             mbind (mwhen (\<not> actived) (start_failed (killSession E) s)) (\<lambda>_.
             (\<lambda>w. mlift (getSession E (sm_id s) True True True w) w))))))"

section \<open>The machine killing a session is the machine itself\<close>

lemma handle_with_other:
  "h \<noteq> SessionRepeatedCreateHandler \<Longrightarrow> session_handle_with k1 E h = session_handle_with k2 E h"
  by (cases h) (auto intro!: ext)

lemma repeated_create_line:
  assumes "lookup_handler session_handlers line = Some SessionRepeatedCreateHandler"
  shows "line = ''NEW_NEW''"
  using assms by (auto simp: lookup_handler_def session_handlers_def split: option.splits if_splits)

lemma locked_section_handle_cong:
  assumes "f h = g h"
  shows "locked_section prepare f submit h = locked_section prepare g submit h"
  unfolding locked_section_def assms ..

lemma changeStatus_handle_cong:
  assumes "\<And>w d' line w' h. build d pre des w = (Inr (d', line), w') \<Longrightarrow> lookup_handler tbl line = Some h \<Longrightarrow> f h = g h"
  shows "changeStatus build lockKey tbl prepare f submit d pre des =
         changeStatus build lockKey tbl prepare g submit d pre des"
proof
  fix w
  show "changeStatus build lockKey tbl prepare f submit d pre des w =
        changeStatus build lockKey tbl prepare g submit d pre des w"
  proof (cases "fst (build d pre des w)")
    case (Inl e)
    then show ?thesis by (cases "build d pre des w") (simp add: changeStatus_def mbind_def)
  next
    case (Inr x)
    obtain d' line where x: "x = (d', line)" by (cases x)
    obtain w' where b: "build d pre des w = (Inr (d', line), w')"
      using Inr x by (cases "build d pre des w") auto
    show ?thesis
    proof (cases "lookup_handler tbl line")
      case (Some h)
      then have "locked_section prepare f submit h = locked_section prepare g submit h"
        by (intro locked_section_handle_cong assms[OF b])
      then show ?thesis by (simp add: changeStatus_def mbind_Inr[where m = "build d pre des", OF b] Some)
    qed (simp add: changeStatus_def mbind_Inr[where m = "build d pre des", OF b])
  qed
qed

lemma session_build_line:
  "session_build E d pre des w = (Inr (d', line), w') \<Longrightarrow> d' = d \<and> (\<exists>p. line = p @ ''_'' @ des)"
  by (auto simp: session_build_def Let_def mbind_def mlift_def split: sum.splits prod.splits option.splits)

lemma line_ends: "p @ ''_'' @ ''KILLED'' \<noteq> ''NEW_NEW''"
  by (auto dest: arg_cong[where f = last])

lemma killSession_eq: "killSession E d = killSession_inner E d"
proof -
  have "session_handle_with (killSession_inner E) E h = session_handle_with mreturn E h"
    if b: "session_build E d None ''KILLED'' w = (Inr (d', line), w')"
      and h: "lookup_handler session_handlers line = Some h" for w d' line w' h
  proof (rule handle_with_other)
    obtain p where "line = p @ ''_'' @ ''KILLED''" using session_build_line[OF b] by blast
    then have "line \<noteq> ''NEW_NEW''" using line_ends by simp
    with h show "h \<noteq> SessionRepeatedCreateHandler" using repeated_create_line by blast
  qed
  then show ?thesis
    unfolding killSession_def session_changeStatus_def killSession_inner_def[of E d] session_changeStatus_with_def
    by (intro changeStatus_handle_cong)
qed

section \<open>Invariants of the asynchronous parts\<close>

lemma session_asyn_keeps: "preserves cluster_inv (session_asynPostHandle h c s)"
  by (cases h) (auto intro!: preserves_intros simp: start_containers_def stop_containers_def wakeUpSession_def)

lemma activate_session_keeps: "preserves cluster_inv (activate_session E sid)"
  unfolding activate_session_def
  by (rule keeps_mbind[OF reread_session_keeps])
     (auto intro!: keeps_case_option keeps_mthrow keeps_mwhen keeps_mreturn
        keeps_mbind[OF in_context_keeps[OF session_changeStatus_keeps]] simp: new_Context_def)

lemma activeCount_keeps: "preserves cluster_inv (updateSessionMainActiveCount E sid)"
  unfolding updateSessionMainActiveCount_def Let_def
  by (rule keeps_mbind[where Q = "\<lambda>_. True"], rule keeps_read, simp,
      rule keeps_mbind[where Q = "\<lambda>_. True"], rule keeps_mupd)
     (auto intro!: session_rows_keep keeps_mreturn)

lemma processor_asyn_keeps: "preserves cluster_inv (processor_asynPostHandle E h c p)"
  by (cases h) (auto simp: running_asynPostHandle_def
      intro!: preserves_intros keeps_mbind[OF activeCount_keeps] activate_session_keeps)

lemma recount_keeps_shape:
  "resource_status_value R_ALLOCATED \<noteq> t \<Longrightarrow> resource_status_value R_PRE_ALLOCATED \<noteq> t \<Longrightarrow>
   x_resourceType x = t \<Longrightarrow> \<not> recount_where nid x"
  by (auto simp: recount_where_def)

end
