(* ===== verification/Session_Lifecycle.thy ===== *)
theory Session_Lifecycle
  imports Session_Manager
begin

text \<open>
  What the session machine does to the database over the life of a session: ended sessions are
  left alone, killing and closing a session ends its processors and touches no other session,
  creating a session makes its processors, and a session becomes active when the last of its
  processors runs.
\<close>

section \<open>Ended sessions\<close>

definition session_ended :: "string \<Rightarrow> bool" where
  "session_ended st \<longleftrightarrow> st \<in> {''KILLED'', ''ERROR'', ''CLOSED'', ''FINISHED''}"

lemma session_ended_handler:
  assumes "session_ended st" and "lookup_handler session_handlers (st @ ''_'' @ des) = Some h"
  shows "h = SessionIgnoreHandler"
  using assms by (auto simp: session_ended_def lookup_handler_def session_handlers_def split: if_splits)

lemma getSession_fields:
  "getSession E sid a b c w = Inr (Some s) \<Longrightarrow> session_getById sid w = Some m \<Longrightarrow>
   sm_status s = sm_status (toErSessionMeta m) \<and> sm_id s = m_sessionId m \<and>
   sm_activeProcCount s = m_activeProcCount m \<and> sm_totalProcCount s = m_totalProcCount m"
  by (auto simp: getSession_def toErSessionMeta_def new_ErSessionMeta_def Let_def split: sum.splits if_splits)

lemma getSession_None: "getSession E sid a b c w = Inr None \<longleftrightarrow> session_getById sid w = None"
  by (auto simp: getSession_def Let_def split: option.splits sum.splits)

lemma session_build_status:
  assumes "session_getById (sm_id d) w = Some m" and "m_status m = Some st" and "st \<noteq> []" and "isEmpty pre"
  shows "keeps (same_tables w) (session_build E d pre des) (\<lambda>x. snd x = st @ ''_'' @ des)"
proof -
  have row: "session_getById (sm_id d) v = Some m" if "same_tables w v" for v
    using assms(1) that by (simp add: session_getById_def same_tables_def)
  have "keeps (same_tables w) (\<lambda>v. mlift (getSession E (sm_id d) True False False v) v)
      (\<lambda>z. \<exists>s. z = Some s \<and> sm_status s = Some st)"
  proof (rule keeps_read)
    fix v z assume "same_tables w v" and g: "getSession E (sm_id d) True False False v = Inr z"
    note r = row[OF this(1)]
    from g r obtain s where "z = Some s" by (cases z) (simp_all add: getSession_None)
    with getSession_fields[OF g[unfolded this] r] assms(2,3) show "\<exists>s. z = Some s \<and> sm_status s = Some st"
      by (simp add: toErSessionMeta_def new_ErSessionMeta_def isEmpty_def)
  qed
  then show ?thesis
    unfolding session_build_def Let_def
    by (rule keeps_mbind)
       (auto simp: assms(4) null_string_def intro!: keeps_mbind[where m = "mupd _" and Q = "\<lambda>_. True"] preserves_intros)
qed

text \<open>C38: a session that is killed, failed, closed or finished stays so under every change of status that does not
  name the status to start from (those of \<open>DefaultSessionManager\<close>): whatever status is asked for, and whether the request succeeds or
  fails, no table of the database changes.  Calls that name that status choose their handler by it and are not meant:
  \<open>registerWithResource\<close>, \<open>killJob\<close> for a waiting session, and the activation of a session whose processors run.\<close>

theorem ended_session_absorbing:
  assumes "session_getById (sm_id d) w = Some m" and "m_status m = Some st" and "session_ended st" and "isEmpty pre"
  shows "same_tables w (snd (session_changeStatus E d pre des w))"
proof -
  have ne: "st \<noteq> []" using assms(3) by (auto simp: session_ended_def)
  have "preserves (same_tables w) (session_changeStatus E d pre des)"
    unfolding session_changeStatus_def session_changeStatus_with_def
  proof (rule changeStatus_keeps_selected[where H = "\<lambda>h. h = SessionIgnoreHandler"])
    show "keeps (same_tables w) (session_build E d pre des) (\<lambda>x. snd x = st @ ''_'' @ des)"
      by (rule session_build_status[OF assms(1,2) ne assms(4)])
    show "preserves (same_tables w) (session_submit h d)" for h d
      by (rule keepsI) (auto simp: session_submit_def pool_submit_def split: if_splits)
  qed (use assms(3) session_ended_handler in \<open>auto intro!: preserves_intros simp: session_lockKey_def\<close>)
  from keeps_snd[OF this] show ?thesis by simp
qed

section \<open>Ending the processors of a session\<close>

text \<open>What ending does to the row of a processor.\<close>

definition ended_to :: "string \<Rightarrow> SessionProcessor \<Rightarrow> SessionProcessor \<Rightarrow> bool" where
  "ended_to des r r' \<longleftrightarrow>
     p_processorId r' = p_processorId r \<and> p_sessionId r' = p_sessionId r \<and> p_serverNodeId r' = p_serverNodeId r \<and>
     p_processorType r' = p_processorType r \<and>
     p_status r' = (if p_status r \<in> {''NEW'', ''RUNNING''} then des else p_status r) \<and> (readable r \<longrightarrow> readable r')"

definition ends :: "string \<Rightarrow> int set \<Rightarrow> SessionProcessor list \<Rightarrow> SessionProcessor list \<Rightarrow> bool" where
  "ends des ids = list_all2 (\<lambda>r r'. if p_processorId r \<in> ids then ended_to des r r' else r' = r)"

lemma ends_empty: "ends des {} t t' \<longleftrightarrow> t' = t"
  by (simp add: ends_def list.rel_eq eq_commute flip: list.rel_flip)

lemma ends_refl:
  "(\<And>r. r \<in> set t \<Longrightarrow> p_processorId r \<in> ids \<Longrightarrow> p_status r \<notin> {''NEW'', ''RUNNING''}) \<Longrightarrow> ends des ids t t"
  by (auto simp: ends_def ended_to_def list_all2_same)

lemma ends_trans:
  assumes "ends des A t1 t2" and "ends des B t2 t3" and "ended des"
  shows "ends des (A \<union> B) t1 t3"
  unfolding ends_def
proof (rule list_all2_trans[OF _ assms(1,2)[unfolded ends_def]])
  fix r1 r2 r3
  assume "if p_processorId r1 \<in> A then ended_to des r1 r2 else r2 = r1"
    and "if p_processorId r2 \<in> B then ended_to des r2 r3 else r3 = r2"
  moreover have "des \<notin> {''NEW'', ''RUNNING''}" using assms(3) by (auto simp: ended_def)
  ultimately show "if p_processorId r1 \<in> A \<union> B then ended_to des r1 r3 else r3 = r1"
    by (auto simp: ended_to_def split: if_splits)
qed

lemma ends_ids:
  assumes "ends des A t t'"
  shows "map p_processorId t' = map p_processorId t"
proof -
  have "list_all2 (\<lambda>r r'. p_processorId r = p_processorId r') t t'"
    by (rule list_all2_mono[OF assms[unfolded ends_def]]) (auto simp: ended_to_def split: if_splits)
  then have "list_all2 (=) (map p_processorId t) (map p_processorId t')" by (simp add: list.rel_map)
  then show ?thesis by (simp add: list.rel_eq)
qed

lemma same_row:
  assumes "distinct (map p_processorId t)" and "x \<in> set t" and "r \<in> set t" and "p_processorId x = p_processorId r"
  shows "x = r"
  using assms by (auto simp: distinct_map inj_on_def)

lemma getById_row: "processor_getById (Some i) w = Some r \<Longrightarrow> r \<in> set (session_processor w) \<and> p_processorId r = i"
  by (auto simp: processor_getById_def dest: sql_get_SomeD)

lemma getById_in:
  "distinct (map p_processorId (session_processor w)) \<Longrightarrow> r \<in> set (session_processor w) \<Longrightarrow>
   processor_getById (Some (p_processorId r)) w = Some r"
  using same_row[of "session_processor w" _ r]
  by (cases "sql_get (\<lambda>p. p_processorId p = p_processorId r) (session_processor w)")
     (auto simp: processor_getById_def sql_get_None dest: sql_get_SomeD)

lemma end_processor_run:
  assumes row: "processor_getById (pr_id d) w = Some r" and st: "p_status r \<in> {''NEW'', ''RUNNING''} \<or> ended (p_status r)"
    and des: "ended des" and pl: "plain E r w" and ep: "endpoint_ok (pr_commandEndpoint d)" "endpoint_ok (pr_transferEndpoint d)"
    and ids: "distinct (map p_processorId (session_processor w))"
  shows "\<exists>x w'. processor_changeStatus E d None des w = (Inr x, w') \<and> only_processors 1 w w' \<and>
    ends des {p_processorId r} (session_processor w) (session_processor w')"
proof -
  obtain i where i: "pr_id d = Some i" using row by (cases "pr_id d") (auto simp: processor_getById_def)
  note r = getById_row[OF row[unfolded i]]
  show ?thesis
  proof (cases "p_status r \<in> {''NEW'', ''RUNNING''}")
    case True
    obtain e x w' where run: "processor_changeStatus E d None des w = (Inr x, w')" "only_processors 1 w w'"
      "session_processor w' = session_processor (updateState e des w)" "pr_id e = pr_id d"
      and e: "endpoint_ok (pr_commandEndpoint e)" "endpoint_ok (pr_transferEndpoint e)"
      using stop_processor_run[OF row True des pl ep] by blast
    have "ended_to des y (updateState_row e des y)" if "y \<in> set (session_processor w)" "p_processorId y = i" for y
    proof -
      have "y = r" using same_row[OF ids that(1)] r that(2) by blast
      with True readable_updateState[OF _ e] show ?thesis by (auto simp: ended_to_def) (simp_all add: updateState_row_def)
    qed
    then have "ends des {i} (session_processor w) (session_processor w')"
      by (auto simp: run(3,4) i updateState_def sql_update_def ends_def list.rel_map list.rel_refl_strong intro!: list.rel_refl_strong)
    with run(1,2) r show ?thesis by blast
  next
    case False
    obtain q where q: "toErProcessor E r = Inr q" using pl readable_toErProcessor by (auto simp: plain_def)
    have look: "lookup_handler processor_handlers (p_status r @ ''_'' @ des) = Some ProcessorStateIgnoreHandler"
      using False st des unfolding ended_def
      by (elim disjE insertE emptyE) (simp_all add: lookup_handler_def processor_handlers_def)
    let ?w = "w\<lparr>cx := (cx w)\<lparr>c_processorInDb := Some q, c_beforeStatus := Some (p_status r)\<rparr>\<rparr>"
    obtain ts where "processor_changeStatus E d None des w = (Inr q, ?w\<lparr>processor_pool := ts\<rparr>)"
      "length ts \<le> length (processor_pool w) + 1"
      using plain_section[of E ProcessorStateIgnoreHandler _ None des ?w q q ?w] pl
      unfolding processor_changeStatus_line[OF row q look]
      by (force simp: abstract_prepare_def mbind_def plain_def)
    moreover have "ends des {p_processorId r} (session_processor w) (session_processor w)"
      by (rule ends_refl) (use same_row[OF ids] r False in auto)
    ultimately show ?thesis
      by (intro exI[of _ q] exI[of _ "?w\<lparr>processor_pool := ts\<rparr>"]) (simp add: only_processors_def)
  qed
qed

lemma only_processors_trans:
  assumes "only_processors a w w1" and "only_processors b w1 w2"
  shows "only_processors (a + b) w w2"
proof -
  let ?f = "\<lambda>w. w\<lparr>session_processor := session_processor w2, cx := cx w2, processor_pool := processor_pool w2\<rparr>"
  have "?f w1 = ?f (w\<lparr>session_processor := session_processor w1, cx := cx w1, processor_pool := processor_pool w1\<rparr>)"
    using assms(1) unfolding only_processors_def by metis
  then have "?f w1 = ?f w" by simp
  moreover have "w2 = ?f w1" using assms(2) unfolding only_processors_def by metis
  ultimately have "w2 = ?f w" by simp
  with assms show ?thesis unfolding only_processors_def by simp
qed

lemma only_processors_fields:
  assumes "only_processors n w w'"
  shows "session_main w' = session_main w" "node_resource w' = node_resource w" "processor_resource w' = processor_resource w"
    "session_pool w' = session_pool w" "session_option w' = session_option w" "c_isBreak (cx w') = c_isBreak (cx w)"
    "c_openAsyn (cx w') = c_openAsyn (cx w)"
proof -
  have e: "w' = w\<lparr>session_processor := session_processor w', cx := cx w', processor_pool := processor_pool w'\<rparr>"
    using assms by (simp add: only_processors_def)
  show "session_main w' = session_main w" "node_resource w' = node_resource w" "processor_resource w' = processor_resource w"
    "session_pool w' = session_pool w" "session_option w' = session_option w"
    by (subst e, simp)+
  show "c_isBreak (cx w') = c_isBreak (cx w)" "c_openAsyn (cx w') = c_openAsyn (cx w)"
    using assms by (simp_all add: only_processors_def)
qed

text \<open>A processor outside the resource dispatch whose row can be read and has a known status.\<close>

definition live :: "SessionProcessor \<Rightarrow> bool" where
  "live r \<longleftrightarrow> (p_status r \<in> {''NEW'', ''RUNNING''} \<or> ended (p_status r)) \<and> p_processorType r \<noteq> ''DeepSpeed'' \<and> readable r"

lemma live_ended: "live r \<Longrightarrow> ended_to des r r' \<Longrightarrow> ended des \<Longrightarrow> live r'"
  by (auto simp: live_def ended_to_def)

lemma ends_row:
  assumes "ends des A t t'" and "r \<in> set t" and "ended des"
  shows "\<exists>r' \<in> set t'. p_processorId r' = p_processorId r \<and> (live r \<longrightarrow> live r')"
proof -
  obtain k where k: "k < length t" "r = t ! k" using assms(2) by (metis in_set_conv_nth)
  then have "if p_processorId r \<in> A then ended_to des r (t' ! k) else t' ! k = r" "k < length t'"
    using assms(1) by (auto simp: ends_def list_all2_conv_all_nth)
  then show ?thesis using live_ended[OF _ _ assms(3)] by (intro bexI[of _ "t' ! k"]) (auto simp: ended_to_def split: if_splits)
qed

definition endable :: "world \<Rightarrow> ErProcessor \<Rightarrow> bool" where
  "endable w d \<longleftrightarrow> endpoint_ok (pr_commandEndpoint d) \<and> endpoint_ok (pr_transferEndpoint d) \<and>
     (\<exists>r \<in> set (session_processor w). pr_id d = Some (p_processorId r) \<and> live r)"

lemma end_processors_loop:
  assumes "\<forall>d \<in> set ps. endable w d" and des: "ended des" and nd: "\<not> use_resource_dispatch E"
    and "\<not> c_isBreak (cx w)" and "length (processor_pool w) + length ps \<le> pool_capacity"
    and "distinct (map p_processorId (session_processor w))"
  shows "\<exists>w'. mfor (\<lambda>p. mbind (processor_changeStatus E p None des) (\<lambda>_. mreturn ())) ps w = (Inr (), w') \<and>
    only_processors (length ps) w w' \<and>
    ends des {i. Some i \<in> pr_id ` set ps} (session_processor w) (session_processor w')"
  using assms(1,4-6)
proof (induction ps arbitrary: w)
  case Nil
  then show ?case by (simp add: only_processors_def ends_empty)
next
  case (Cons d ps)
  let ?f = "\<lambda>p. mbind (processor_changeStatus E p None des) (\<lambda>_. mreturn ())"
  obtain r where r: "r \<in> set (session_processor w)" "pr_id d = Some (p_processorId r)" "live r"
    and ep: "endpoint_ok (pr_commandEndpoint d)" "endpoint_ok (pr_transferEndpoint d)"
    using Cons.prems(1) by (auto simp: endable_def)
  have row: "processor_getById (pr_id d) w = Some r" using getById_in[OF Cons.prems(4) r(1)] r(2) by simp
  have st: "p_status r \<in> {''NEW'', ''RUNNING''} \<or> ended (p_status r)" using r(3) by (simp add: live_def)
  have pl: "plain E r w" using r(3) nd Cons.prems(2,3) by (simp add: plain_def live_def)
  obtain x w1 where w1: "processor_changeStatus E d None des w = (Inr x, w1)" "only_processors 1 w w1"
    "ends des {p_processorId r} (session_processor w) (session_processor w1)"
    using end_processor_run[OF row st des pl ep Cons.prems(4)] by blast
  have "\<exists>w'. mfor (\<lambda>p. mbind (processor_changeStatus E p None des) (\<lambda>_. mreturn ())) ps w1 = (Inr (), w') \<and>
    only_processors (length ps) w1 w' \<and>
    ends des {i. Some i \<in> pr_id ` set ps} (session_processor w1) (session_processor w')"
  proof (rule Cons.IH)
    show "\<forall>d \<in> set ps. endable w1 d"
    proof
      fix e assume "e \<in> set ps"
      then have "endable w e" using Cons.prems(1) by simp
      then show "endable w1 e" using ends_row[OF w1(3) _ des] unfolding endable_def by metis
    qed
    show "\<not> c_isBreak (cx w1)" "length (processor_pool w1) + length ps \<le> pool_capacity"
      using w1(2) Cons.prems(2,3) by (simp_all add: only_processors_def)
    show "distinct (map p_processorId (session_processor w1))" using ends_ids[OF w1(3)] Cons.prems(4) by simp
  qed
  then obtain w2 where w2: "mfor (\<lambda>p. mbind (processor_changeStatus E p None des) (\<lambda>_. mreturn ())) ps w1 = (Inr (), w2)"
    "only_processors (length ps) w1 w2" "ends des {i. Some i \<in> pr_id ` set ps} (session_processor w1) (session_processor w2)"
    by blast
  have ids: "{p_processorId r} \<union> {i. Some i \<in> pr_id ` set ps} = {i. Some i \<in> pr_id ` set (d # ps)}" using r(2) by auto
  have "?f d w = (Inr (), w1)" by (simp add: mbind_def w1(1))
  then have "mfor ?f (d # ps) w = (Inr (), w2)" by (simp add: mbind_Inr[where m = "?f d"] w2(1))
  moreover have "only_processors (length (d # ps)) w w2" using only_processors_trans[OF w1(2) w2(2)] by simp
  moreover have "ends des {i. Some i \<in> pr_id ` set (d # ps)} (session_processor w) (session_processor w2)"
    using ends_trans[OF w1(3) w2(3) des] unfolding ids .
  ultimately show ?case by blast
qed

section \<open>Killing a session\<close>

lemma toErProcessors_readable:
  "\<forall>r \<in> set rs. readable r \<Longrightarrow> \<exists>qs. toErProcessors E rs = Inr qs \<and> map pr_id qs = map (\<lambda>r. Some (p_processorId r)) rs \<and>
     (\<forall>q \<in> set qs. endpoint_ok (pr_commandEndpoint q) \<and> endpoint_ok (pr_transferEndpoint q))"
proof (induction rs)
  case (Cons r rs)
  obtain q where q: "toErProcessor E r = Inr q" using Cons.prems readable_toErProcessor by (meson list.set_intros(1))
  from Cons obtain qs where "toErProcessors E rs = Inr qs" "map pr_id qs = map (\<lambda>r. Some (p_processorId r)) rs"
    "\<forall>q \<in> set qs. endpoint_ok (pr_commandEndpoint q) \<and> endpoint_ok (pr_transferEndpoint q)" by auto
  with q toErProcessor_fields[OF q] toErProcessor_endpoints[OF q] show ?case by simp
qed simp

text \<open>The rows of a session can be read.\<close>

definition session_readable :: "string \<Rightarrow> world \<Rightarrow> bool" where
  "session_readable sid w \<longleftrightarrow> (\<forall>r \<in> set (session_processor w). p_sessionId r = sid \<longrightarrow> readable r)"

lemma getSession_readable:
  assumes "session_getById sid w = Some m" and "session_readable sid w"
  shows "\<exists>s. getSession E sid True False False w = Inr (Some s) \<and> sm_id s = m_sessionId m \<and>
    sm_status s = sm_status (toErSessionMeta m) \<and> sm_activeProcCount s = m_activeProcCount m \<and>
    map pr_id (sm_processors s) = map (\<lambda>r. Some (p_processorId r)) (sql_select (\<lambda>p. p_sessionId p = sid) (session_processor w)) \<and>
    (\<forall>q \<in> set (sm_processors s). endpoint_ok (pr_commandEndpoint q) \<and> endpoint_ok (pr_transferEndpoint q))"
proof -
  have "\<forall>r \<in> set (sql_select (\<lambda>p. p_sessionId p = sid) (session_processor w)). readable r"
    using assms(2) by (simp add: session_readable_def)
  from toErProcessors_readable[OF this, of E] obtain qs where qs:
    "toErProcessors E (sql_select (\<lambda>p. p_sessionId p = sid) (session_processor w)) = Inr qs"
    "map pr_id qs = map (\<lambda>r. Some (p_processorId r)) (sql_select (\<lambda>p. p_sessionId p = sid) (session_processor w))"
    "\<forall>q \<in> set qs. endpoint_ok (pr_commandEndpoint q) \<and> endpoint_ok (pr_transferEndpoint q)" by blast
  have "getSession E sid True False False w = Inr (Some ((toErSessionMeta m)\<lparr>sm_processors := qs\<rparr>))"
    by (simp add: getSession_def getProcessorBySession_def assms(1) qs(1))
  with qs(2,3) show ?thesis by (simp add: toErSessionMeta_def new_ErSessionMeta_def)
qed

lemma session_getById_id: "session_getById sid w = Some m \<Longrightarrow> m_sessionId m = sid"
  by (auto simp: session_getById_def dest: sql_get_SomeD)

lemma getById_updateById:
  "session_getById sid (session_updateById n w) =
   (if sid = m_sessionId n then map_option (SessionMain_overwrite n) (session_getById sid w) else session_getById sid w)"
  unfolding session_getById_def session_updateById_def
  using sessionMain.byId_updateById[of "SessionMain_overwrite n" sid "m_sessionId n" "session_main w"]
  by (simp add: SessionMain_overwrite_def)

definition processors_of :: "string \<Rightarrow> world \<Rightarrow> int set" where
  "processors_of sid w = p_processorId ` {r \<in> set (session_processor w). p_sessionId r = sid}"

definition killable :: "env \<Rightarrow> string \<Rightarrow> world \<Rightarrow> bool" where
  "killable E sid w \<longleftrightarrow> \<not> use_resource_dispatch E \<and> \<not> c_isBreak (cx w) \<and>
     distinct (map p_processorId (session_processor w)) \<and>
     (\<forall>r \<in> set (session_processor w). p_sessionId r = sid \<longrightarrow> live r) \<and>
     length (processor_pool w) + length (filter (\<lambda>r. p_sessionId r = sid) (session_processor w)) \<le> pool_capacity \<and>
     length (session_pool w) < pool_capacity"

lemma kill_handler_run:
  assumes s: "sm_id s = sid" "map pr_id (sm_processors s) = map (\<lambda>r. Some (p_processorId r)) (filter (\<lambda>r. p_sessionId r = sid) (session_processor w))"
      "\<forall>q \<in> set (sm_processors s). endpoint_ok (pr_commandEndpoint q) \<and> endpoint_ok (pr_transferEndpoint q)"
    and k: "killable E sid w" and row: "session_getById sid w = Some m" and st: "ended st"
  shows "\<exists>x w'. sessionStop_handle E st s des w = (Inr x, w') \<and> sm_id x = sid \<and>
    only_processors (length (sm_processors s)) (updateStatus s des w) w' \<and>
    ends st (processors_of sid w) (session_processor w) (session_processor w')"
proof -
  let ?w = "updateStatus s des w"
  have sp: "session_processor ?w = session_processor w" "cx ?w = cx w" "processor_pool ?w = processor_pool w"
    by (simp_all add: updateStatus_def session_updateById_def)
  have len: "length (sm_processors s) = length (filter (\<lambda>r. p_sessionId r = sid) (session_processor w))"
    using arg_cong[OF s(2), of length] by simp
  have ids: "pr_id ` set (sm_processors s) = (\<lambda>r. Some (p_processorId r)) ` {r \<in> set (session_processor w). p_sessionId r = sid}"
    using arg_cong[OF s(2), of set] by simp
  then have po: "{i. Some i \<in> pr_id ` set (sm_processors s)} = processors_of sid w" by (auto simp: processors_of_def)
  have en: "\<forall>d \<in> set (sm_processors s). endable ?w d"
  proof
    fix d assume d: "d \<in> set (sm_processors s)"
    then have "pr_id d \<in> pr_id ` set (sm_processors s)" by simp
    then obtain r where "r \<in> set (session_processor w)" "p_sessionId r = sid" "pr_id d = Some (p_processorId r)"
      unfolding ids by blast
    with d s(3) k show "endable ?w d" by (auto simp: endable_def sp killable_def)
  qed
  have "\<exists>w'. mfor (\<lambda>p. mbind (processor_changeStatus E p None st) (\<lambda>_. mreturn ())) (sm_processors s) ?w = (Inr (), w') \<and>
      only_processors (length (sm_processors s)) ?w w' \<and> ends st {i. Some i \<in> pr_id ` set (sm_processors s)} (session_processor ?w) (session_processor w')"
    by (rule end_processors_loop[OF en st]) (use k len in \<open>auto simp: killable_def sp\<close>)
  then obtain w' where w': "mfor (\<lambda>p. mbind (processor_changeStatus E p None st) (\<lambda>_. mreturn ())) (sm_processors s) ?w = (Inr (), w')"
    "only_processors (length (sm_processors s)) ?w w'" "ends st (processors_of sid w) (session_processor w) (session_processor w')"
    by (auto simp: po sp)
  have main: "session_main w' = session_main ?w"
    by (rule only_processors_fields(1)[OF w'(2)])
  obtain m' where m': "session_getById sid w' = Some m'"
    using row s(1) getById_updateById[of sid _ w] by (simp add: session_getById_def main updateStatus_def new_SessionMain_def)
  have "session_readable sid w'"
    unfolding session_readable_def
  proof (intro ballI impI)
    fix r' assume "r' \<in> set (session_processor w')" "p_sessionId r' = sid"
    then obtain j where j: "j < length (session_processor w')" "r' = session_processor w' ! j" by (metis in_set_conv_nth)
    let ?r = "session_processor w ! j"
    have rel: "if p_processorId ?r \<in> processors_of sid w then ended_to st ?r r' else r' = ?r" "?r \<in> set (session_processor w)"
      using w'(3) j by (auto simp: ends_def list_all2_conv_all_nth)
    then have "p_sessionId ?r = sid" using \<open>p_sessionId r' = sid\<close> by (auto simp: ended_to_def split: if_splits)
    with rel k show "readable r'" by (auto simp: killable_def live_def ended_to_def split: if_splits)
  qed
  from getSession_readable[OF m' this, of E] obtain x where "getSession E sid True False False w' = Inr (Some x)" "sm_id x = sid"
    using session_getById_id[OF m'] by auto
  with w' show ?thesis by (simp add: sessionStop_handle_def mbind_def reread_session_def s(1))
qed

lemma kill_lines:
  "st \<in> {''NEW'', ''ACTIVE''} \<Longrightarrow> des \<in> {''KILLED'', ''ERROR''} \<Longrightarrow>
   lookup_handler session_handlers (st @ ''_'' @ des) = Some SessionKillHandler"
  by (elim insertE emptyE) (simp_all add: lookup_handler_def session_handlers_def)

lemma session_build_run:
  assumes "getSession E (sm_id d) True False False w = Inr (Some s)" and "sm_status s = Some st"
  shows "session_build E d None des w = (Inr (d, st @ ''_'' @ des),
    w\<lparr>cx := (cx w)\<lparr>c_sessionInDb := Some s, c_beforeStatus := Some st\<rparr>\<rparr>)"
  using assms by (simp add: session_build_def mbind_def Let_def null_string_def)

lemma reads_cx [simp]:
  "session_getById sid (w\<lparr>cx := k\<rparr>) = session_getById sid w"
  "getProcessorBySession E sid b (w\<lparr>cx := k\<rparr>) = getProcessorBySession E sid b w"
  "getSessionOptions sid (w\<lparr>cx := k\<rparr>) = getSessionOptions sid w"
  by (simp_all add: session_getById_def getProcessorBySession_def getSessionOptions_def split: sum.split)

lemma getSession_cx [simp]: "getSession E sid a b c (w\<lparr>cx := k\<rparr>) = getSession E sid a b c w"
  unfolding getSession_def reads_cx ..

text \<open>killing a new or active session, or failing it, succeeds: the row of the session gets the new
  status and remembers the old one, each of its processors that was new or running becomes
  killed and each that had ended keeps its status, the rows of all other processors and of all
  other sessions and the resources of the nodes stay as they are, and the task that stops the
  containers is queued.\<close>

theorem kill_session_effect:
  assumes "session_getById (sm_id d) w = Some m" and "m_status m = Some st" and "st \<in> {''NEW'', ''ACTIVE''}"
    and "des \<in> {''KILLED'', ''ERROR''}" and "killable E (sm_id d) w"
  shows "\<exists>x w' m' c. session_changeStatus E d None des w = (Inr x, w') \<and>
    session_getById (sm_id d) w' = Some m' \<and> m_status m' = Some des \<and> m_beforeStatus m' = Some st \<and>
    (\<forall>sid. sid \<noteq> sm_id d \<longrightarrow> session_getById sid w' = session_getById sid w) \<and>
    ends ''KILLED'' (processors_of (sm_id d) w) (session_processor w) (session_processor w') \<and>
    node_resource w' = node_resource w \<and> processor_resource w' = processor_resource w \<and>
    session_pool w' = session_pool w @ [Task SessionKillHandler c x]"
proof -
  let ?sid = "sm_id d"
  have rd: "session_readable ?sid w" using assms(5) by (auto simp: killable_def session_readable_def live_def)
  obtain s where s: "getSession E ?sid True False False w = Inr (Some s)" "sm_id s = ?sid" "sm_status s = Some st"
    "map pr_id (sm_processors s) = map (\<lambda>r. Some (p_processorId r)) (filter (\<lambda>r. p_sessionId r = ?sid) (session_processor w))"
    "\<forall>q \<in> set (sm_processors s). endpoint_ok (pr_commandEndpoint q) \<and> endpoint_ok (pr_transferEndpoint q)"
    using getSession_readable[OF assms(1) rd, of E] session_getById_id[OF assms(1)] assms(2,3)
    by (auto simp: toErSessionMeta_def new_ErSessionMeta_def isEmpty_def sql_select_def)
  define s' where "s' = (case sm_activeProcCount d of None \<Rightarrow> s | Some c \<Rightarrow> s\<lparr>sm_activeProcCount := Some c\<rparr>)"
  define c1 where "c1 = (cx w)\<lparr>c_sessionInDb := Some s, c_beforeStatus := Some st, c_openAsyn := True\<rparr>"
  define w1 where "w1 = w\<lparr>cx := c1\<rparr>"
  have s': "sm_id s' = ?sid" "sm_processors s' = sm_processors s" using s(2) by (simp_all add: s'_def split: option.split)
  have k1: "killable E ?sid w1" using assms(5) by (simp add: killable_def w1_def c1_def)
  have r1: "session_getById ?sid w1 = Some m" using assms(1) by (simp add: session_getById_def w1_def)
  obtain x w2 where h: "sessionStop_handle E ''KILLED'' s' des w1 = (Inr x, w2)" "sm_id x = ?sid"
    "only_processors (length (sm_processors s')) (updateStatus s' des w1) w2"
    "ends ''KILLED'' (processors_of ?sid w1) (session_processor w1) (session_processor w2)"
    using kill_handler_run[OF s'(1) _ _ k1 r1, of "''KILLED''" des] s(4,5) s'(2) by (auto simp: w1_def ended_def)
  note f2 = only_processors_fields[OF h(3)]
  have pool: "length (session_pool w) < pool_capacity" "session_pool w2 = session_pool w"
    using assms(5) f2 by (simp_all add: killable_def updateStatus_def session_updateById_def w1_def)
  have fl: "\<not> isBreak w2" "needAsynPostHandle w2"
    using assms(5) f2 by (simp_all add: killable_def isBreak_def needAsynPostHandle_def updateStatus_def session_updateById_def w1_def c1_def)
  define w3 where "w3 = w2\<lparr>session_pool := session_pool w @ [Task SessionKillHandler (cx w2) x]\<rparr>"
  have l: "session_changeStatus E d None des w =
      locked_section (session_prepare E) (session_handle_with (killSession_inner E) E) session_submit SessionKillHandler d None des
        (w\<lparr>cx := (cx w)\<lparr>c_sessionInDb := Some s, c_beforeStatus := Some st\<rparr>\<rparr>)"
    unfolding session_changeStatus_def session_changeStatus_with_def
    by (rule changeStatus_run[where build = "session_build E" and pre = None, OF session_build_run[OF s(1,3)] kill_lines[OF assms(3,4)]])
       (simp add: session_lockKey_def)
  have p: "session_prepare E SessionKillHandler d None des (w\<lparr>cx := (cx w)\<lparr>c_sessionInDb := Some s, c_beforeStatus := Some st\<rparr>\<rparr>)
      = (Inr s', w1)"
    by (simp add: sessionStop_prepare_def reread_session_def mbind_def s(1) openAsynPostHandle_def w1_def c1_def s'_def)
  have nb: "\<not> isBreak w1" using assms(5) by (simp add: killable_def isBreak_def w1_def c1_def)
  have run: "session_changeStatus E d None des w = (Inr x, w3)"
    unfolding l
    by (subst locked_section_run[where prepare = "session_prepare E" and handle = "session_handle_with (killSession_inner E) E",
          OF p nb, of x w2])
       (simp_all add: h(1) fl pool mrethrow_def mbind_def session_submit_def pool_submit_def w3_def)
  have get: "session_getById sid w3 = session_getById sid (updateStatus s' des w1)" for sid
    by (simp add: w3_def session_getById_def f2)
  have "session_getById ?sid w3 = Some (SessionMain_overwrite ((new_SessionMain ?sid)\<lparr>m_status := Some des,
       m_activeProcCount := sm_activeProcCount s', m_beforeStatus := Some st,
       m_statusReason := Some (null_string (c_statusReason c1))\<rparr>) m)"
    using r1 unfolding get updateStatus_def getById_updateById
    by (simp add: s' new_SessionMain_def w1_def c1_def null_string_def)
  moreover have "session_getById sid w3 = session_getById sid w" if "sid \<noteq> ?sid" for sid
    using that unfolding get updateStatus_def getById_updateById by (simp add: s' new_SessionMain_def w1_def session_getById_def)
  ultimately show ?thesis
    using run h(4) f2
    by (intro exI[of _ x] exI[of _ w3] exI exI[of _ "cx w2"])
       (auto simp: w3_def w1_def processors_of_def SessionMain_overwrite_def or_old_def updateStatus_def session_updateById_def)
qed

section \<open>Activating a session\<close>

lemma getSession_plain:
  "session_getById sid w = Some m \<Longrightarrow> getSession E sid False False False w = Inr (Some (toErSessionMeta m))"
  by (simp add: getSession_def toErSessionMeta_def new_ErSessionMeta_def)

lemma getById_status_update:
  assumes "\<And>m. m_sessionId (f m) = m_sessionId m"
  shows "session_getById sid' (w\<lparr>session_main := sql_update (\<lambda>m. m_sessionId m = sid) f (session_main w)\<rparr>) =
    (if sid' = sid then map_option f (session_getById sid w) else session_getById sid' w)"
  unfolding session_getById_def using sessionMain.byId_updateById[OF assms, of sid' sid "session_main w"] by auto

lemma activate_run:
  assumes row: "session_getById sid w = Some m" and st: "m_status m = Some ''NEW''" and rd: "session_readable sid w"
    and room: "length (session_pool w) < pool_capacity" and d: "sm_id d = sid"
  shows "\<exists>x ts. in_context new_Context (session_changeStatus E d (Some ''NEW'') ''ACTIVE'') w =
    (Inr x, w\<lparr>session_main := sql_update (\<lambda>m. m_sessionId m = sid) (\<lambda>m. m\<lparr>m_status := Some ''ACTIVE''\<rparr>) (session_main w),
               session_pool := ts\<rparr>)"
proof -
  obtain s where s: "getSession E sid True False False w = Inr (Some s)" using getSession_readable[OF row rd] by blast
  define c where "c = new_Context\<lparr>c_sessionInDb := Some s, c_beforeStatus := Some ''NEW''\<rparr>"
  define w1 where "w1 = w\<lparr>cx := c\<lparr>c_openAsyn := True\<rparr>\<rparr>"
  define w2 where "w2 = w1\<lparr>session_main := sql_update (\<lambda>m. m_sessionId m = sid) (\<lambda>m. m\<lparr>m_status := Some ''ACTIVE''\<rparr>) (session_main w1)\<rparr>"
  have b: "session_build E d (Some ''NEW'') ''ACTIVE'' (w\<lparr>cx := new_Context\<rparr>) = (Inr (d, ''NEW_ACTIVE''), w\<lparr>cx := c\<rparr>)"
    by (simp add: session_build_def mbind_def Let_def null_string_def d s c_def)
  have l: "session_changeStatus E d (Some ''NEW'') ''ACTIVE'' (w\<lparr>cx := new_Context\<rparr>) =
      locked_section (session_prepare E) (session_handle_with (killSession_inner E) E) session_submit SessionActiveHandler d (Some ''NEW'') ''ACTIVE'' (w\<lparr>cx := c\<rparr>)"
    unfolding session_changeStatus_def session_changeStatus_with_def
    by (rule changeStatus_run[where build = "session_build E", OF b])
       (simp_all add: lookup_handler_def session_handlers_def session_lockKey_def)
  let ?s = "(toErSessionMeta m)\<lparr>sm_status := Some ''ACTIVE''\<rparr>"
  have p: "session_prepare E SessionActiveHandler d (Some ''NEW'') ''ACTIVE'' (w\<lparr>cx := c\<rparr>) = (Inr ?s, w1)"
    using st by (simp add: sessionActive_prepare_def reread_session_def mbind_def d getSession_plain[OF row]
        toErSessionMeta_def new_ErSessionMeta_def isEmpty_def openAsynPostHandle_def w1_def)
  have "session_getById sid w2 = Some (m\<lparr>m_status := Some ''ACTIVE''\<rparr>)"
    unfolding w2_def by (subst getById_status_update) (use row in \<open>simp_all add: w1_def\<close>)
  note g2 = getSession_plain[OF this]
  have h: "session_handle_with (killSession_inner E) E SessionActiveHandler ?s (Some ''NEW'') ''ACTIVE'' w1 =
      (Inr (toErSessionMeta (m\<lparr>m_status := Some ''ACTIVE''\<rparr>)), w2)"
    using session_getById_id[OF row]
    by (simp add: sessionActive_handle_def mbind_def reread_session_def toErSessionMeta_def new_ErSessionMeta_def w2_def[symmetric] g2)
  have fl: "\<not> isBreak w1" "\<not> isBreak w2" "needAsynPostHandle w2" "length (session_pool w2) < pool_capacity"
    using room by (simp_all add: isBreak_def needAsynPostHandle_def w1_def w2_def c_def new_Context_def)
  note ls = locked_section_run[where prepare = "session_prepare E" and handle = "session_handle_with (killSession_inner E) E" and submit = session_submit, OF p fl(1) h]
  have "session_changeStatus E d (Some ''NEW'') ''ACTIVE'' (w\<lparr>cx := new_Context\<rparr>) =
      (Inr (toErSessionMeta (m\<lparr>m_status := Some ''ACTIVE''\<rparr>)),
       w2\<lparr>session_pool := session_pool w2 @ [Task SessionActiveHandler (cx w2) (toErSessionMeta (m\<lparr>m_status := Some ''ACTIVE''\<rparr>))]\<rparr>)"
    unfolding l ls using fl by (simp add: mrethrow_def mbind_def session_submit_def pool_submit_def)
  then show ?thesis
    by (intro exI exI[of _ "session_pool w2 @ [Task SessionActiveHandler (cx w2) (toErSessionMeta (m\<lparr>m_status := Some ''ACTIVE''\<rparr>))]"])
       (simp add: in_context_def w2_def w1_def)
qed

lemma toErProcessors_status: "toErProcessors E rs = Inr qs \<Longrightarrow> map pr_status qs = map p_status rs"
  by (induction E rs arbitrary: qs rule: toErProcessors.induct)
     (auto split: sum.splits dest: toErProcessor_fields)

definition statuses_of :: "string \<Rightarrow> world \<Rightarrow> string list" where
  "statuses_of sid w = map p_status (filter (\<lambda>r. p_sessionId r = sid) (session_processor w))"

lemma activeCount_run:
  assumes "session_readable sid w"
  shows "updateSessionMainActiveCount E sid w =
    (Inr (statuses_of sid w \<noteq> [] \<and> (\<forall>st \<in> set (statuses_of sid w). st = ''RUNNING'')),
     w\<lparr>session_main := sql_update (\<lambda>m. m_sessionId m = sid)
       (\<lambda>m. m\<lparr>m_activeProcCount := Some (int (count_list (statuses_of sid w) ''RUNNING''))\<rparr>) (session_main w)\<rparr>)"
proof -
  have "\<forall>r \<in> set (sql_select (\<lambda>p. p_sessionId p = sid) (session_processor w)). readable r"
    using assms by (simp add: session_readable_def)
  from toErProcessors_readable[OF this, of E] obtain qs where
    qs: "toErProcessors E (sql_select (\<lambda>p. p_sessionId p = sid) (session_processor w)) = Inr qs" by blast
  have st: "map pr_status qs = statuses_of sid w"
    using toErProcessors_status[OF qs] by (simp add: statuses_of_def sql_select_def)
  have cnt: "length (filter (\<lambda>p. pr_status p = ''RUNNING'') qs) = count_list (statuses_of sid w) ''RUNNING''"
    unfolding st[symmetric] by (induction qs) auto
  have all: "length qs = length (filter (\<lambda>p. pr_status p = ''RUNNING'') qs) \<longleftrightarrow> (\<forall>st \<in> set (statuses_of sid w). st = ''RUNNING'')"
    using sum_length_filter_compl[of "\<lambda>p. pr_status p = ''RUNNING''" qs] by (auto simp: st[symmetric] filter_empty_conv)
  have ne: "qs \<noteq> [] \<longleftrightarrow> statuses_of sid w \<noteq> []" unfolding st[symmetric] by simp
  have g: "getProcessorBySession E sid False w = Inr qs" by (simp add: getProcessorBySession_def qs)
  show ?thesis
    unfolding updateSessionMainActiveCount_def Let_def
    by (simp add: mbind_def g) (simp add: cnt[symmetric] all[symmetric] ne[symmetric])
qed

text \<open>when a processor has started to run, its asynchronous part writes the number of running
  processors of the session to its row, and makes the session active exactly if it was new,
  has processors, and all of them run; no other row of a session and no processor changes.\<close>

theorem session_activated_iff_all_running:
  assumes "c_processorInDb c = Some q" and "pr_sessionId q = sid" and "pr_sessionId p = sid"
    and "session_getById sid w = Some m" and "m_status m = Some st" and "st \<noteq> []"
    and "session_readable sid w" and "length (session_pool w) < pool_capacity"
  shows "\<exists>w'. running_asynPostHandle E c p w = (Inr (), w') \<and>
    session_getById sid w' = Some (m\<lparr>m_activeProcCount := Some (int (count_list (statuses_of sid w) ''RUNNING'')),
      m_status := Some (if st = ''NEW'' \<and> statuses_of sid w \<noteq> [] \<and> (\<forall>x \<in> set (statuses_of sid w). x = ''RUNNING'')
                        then ''ACTIVE'' else st)\<rparr>) \<and>
    (\<forall>sid'. sid' \<noteq> sid \<longrightarrow> session_getById sid' w' = session_getById sid' w) \<and>
    session_processor w' = session_processor w \<and> node_resource w' = node_resource w"
proof -
  let ?all = "statuses_of sid w \<noteq> [] \<and> (\<forall>x \<in> set (statuses_of sid w). x = ''RUNNING'')"
  let ?f = "\<lambda>m. m\<lparr>m_activeProcCount := Some (int (count_list (statuses_of sid w) ''RUNNING''))\<rparr>"
  let ?g = "\<lambda>m. m\<lparr>m_status := Some ''ACTIVE''\<rparr>"
  define w1 where "w1 = w\<lparr>session_main := sql_update (\<lambda>m. m_sessionId m = sid) ?f (session_main w)\<rparr>"
  have cnt: "updateSessionMainActiveCount E sid w = (Inr ?all, w1)"
    unfolding w1_def by (rule activeCount_run[OF assms(7)])
  have get1: "session_getById x w1 = (if x = sid then Some (?f m) else session_getById x w)" for x
    unfolding w1_def by (subst getById_status_update) (simp_all add: assms(4))
  have s1: "sm_status (toErSessionMeta (?f m)) = Some st" "sm_id (toErSessionMeta (?f m)) = sid"
    using assms(5,6) session_getById_id[OF assms(4)] by (simp_all add: toErSessionMeta_def new_ErSessionMeta_def isEmpty_def)
  have g1: "getSession E sid False False False w1 = Inr (Some (toErSessionMeta (?f m)))"
    by (rule getSession_plain) (simp add: get1)
  show ?thesis
  proof (cases "?all \<and> st = ''NEW''")
    case True
    have m1: "session_getById sid w1 = Some (?f m)" "m_status (?f m) = Some ''NEW''" using True assms(5) by (simp_all add: get1)
    have rd1: "session_readable sid w1" "length (session_pool w1) < pool_capacity"
      using assms(7,8) by (simp_all add: session_readable_def w1_def)
    obtain x ts where run: "in_context new_Context (session_changeStatus E (toErSessionMeta (?f m)) (Some ''NEW'') ''ACTIVE'') w1 =
        (Inr x, w1\<lparr>session_main := sql_update (\<lambda>m. m_sessionId m = sid) ?g (session_main w1), session_pool := ts\<rparr>)"
      using activate_run[OF m1 rd1 s1(2)] by blast
    let ?w2 = "w1\<lparr>session_main := sql_update (\<lambda>m. m_sessionId m = sid) ?g (session_main w1)\<rparr>"
    have get2: "session_getById x (?w2\<lparr>session_pool := ts\<rparr>) = (if x = sid then Some (?g (?f m)) else session_getById x w)" for x
    proof -
      have "session_getById x (?w2\<lparr>session_pool := ts\<rparr>) = session_getById x ?w2" by (simp add: session_getById_def)
      also have "\<dots> = (if x = sid then Some (?g (?f m)) else session_getById x w)"
        by (subst getById_status_update) (simp_all add: get1)
      finally show ?thesis .
    qed
    have "running_asynPostHandle E c p w = (Inr (), ?w2\<lparr>session_pool := ts\<rparr>)"
      using run True s1 g1
      by (simp add: running_asynPostHandle_def assms(1-3) mbind_def cnt activate_session_def reread_session_def)
    then show ?thesis
      using get2 True by (intro exI[of _ "?w2\<lparr>session_pool := ts\<rparr>"]) (simp add: w1_def)
  next
    case False
    then have "running_asynPostHandle E c p w = (Inr (), w1)"
      using s1 g1 by (auto simp: running_asynPostHandle_def assms(1-3) mbind_def cnt activate_session_def reread_session_def mwhen_def)
    then show ?thesis
      using get1 False assms(5) by (intro exI[of _ w1]) (auto simp: w1_def)
  qed
qed

definition sample_meta :: "string \<Rightarrow> SessionMain" where
  "sample_meta st = (new_SessionMain ''s1'')\<lparr>m_status := Some st\<rparr>"

definition session_world :: "string \<Rightarrow> string \<Rightarrow> world" where
  "session_world st pst = (sample_world pst)\<lparr>session_main := [sample_meta st]\<rparr>"

lemmas session_world_defs = sample_meta_def session_world_def sample_world_def empty_world_def new_Context_def
  new_SessionMain_def new_ErSessionMeta_def

lemma session_world_row: "session_getById ''s1'' (session_world st pst) = Some (sample_meta st)"
  by (simp add: session_world_defs session_getById_def)

theorem ended_session_absorbing_witness:
  "same_tables (session_world ''KILLED'' ''KILLED'')
     (snd (session_changeStatus plain_env (new_ErSessionMeta\<lparr>sm_id := ''s1''\<rparr>) None ''ACTIVE'' (session_world ''KILLED'' ''KILLED'')))"
  by (rule ended_session_absorbing[where m = "sample_meta ''KILLED''" and st = "''KILLED''"])
     (simp_all add: session_world_row session_ended_def isEmpty_def, simp add: sample_meta_def)

theorem kill_session_effect_witness:
  "\<exists>x w' m'. session_changeStatus plain_env (new_ErSessionMeta\<lparr>sm_id := ''s1''\<rparr>) None ''KILLED'' (session_world ''ACTIVE'' ''RUNNING'') = (Inr x, w') \<and>
     session_getById ''s1'' w' = Some m' \<and> m_status m' = Some ''KILLED''"
proof -
  have "killable plain_env ''s1'' (session_world ''ACTIVE'' ''RUNNING'')"
    using sample_row_readable[of "''RUNNING''"]
    by (auto simp: killable_def live_def session_world_defs plain_env_def pool_capacity_def sample_row_def)
  then show ?thesis
    using kill_session_effect[of "new_ErSessionMeta\<lparr>sm_id := ''s1''\<rparr>" "session_world ''ACTIVE'' ''RUNNING''" "sample_meta ''ACTIVE''"
        "''ACTIVE''" "''KILLED''" plain_env] session_world_row
    by (auto simp: sample_meta_def)
qed

theorem session_activated_iff_all_running_witness:
  "\<exists>w' m'. running_asynPostHandle plain_env (new_Context\<lparr>c_processorInDb := Some (sample_report 1)\<rparr>) (sample_report 1)
       (session_world ''NEW'' ''RUNNING'') = (Inr (), w') \<and>
     session_getById ''s1'' w' = Some m' \<and> m_status m' = Some ''ACTIVE'' \<and> m_activeProcCount m' = Some 1"
proof -
  have "session_readable ''s1'' (session_world ''NEW'' ''RUNNING'')"
    using sample_row_readable[of "''RUNNING''"] by (auto simp: session_readable_def session_world_defs)
  moreover have "statuses_of ''s1'' (session_world ''NEW'' ''RUNNING'') = [''RUNNING'']"
    by (simp add: statuses_of_def session_world_defs sample_row_def)
  ultimately show ?thesis
    using session_activated_iff_all_running[of "new_Context\<lparr>c_processorInDb := Some (sample_report 1)\<rparr>" "sample_report 1" "''s1''"
        "sample_report 1" "session_world ''NEW'' ''RUNNING''" "sample_meta ''NEW''" "''NEW''" plain_env] session_world_row
    by (auto simp: sample_report_def new_ErProcessor_def sample_meta_def) (auto simp: session_world_defs pool_capacity_def)
qed

end
