(* ===== verification/Cluster_Manager.thy ===== *)
theory Cluster_Manager
  imports Session_Lifecycle
begin

text \<open>
  \<open>ClusterManagerService\<close>: the heartbeats of the node managers, the registration of their
  resources and the checks of the session watcher; and \<open>JobServiceHandler.killJob\<close>, which two of
  the checks call.  The state adds the last heartbeat of every node and the cache of server
  nodes to the world; an entry leaves the cache when it expires.
\<close>

section \<open>State\<close>

record ErNodeHeartbeat =
  hb_id :: int
  hb_node :: ErServerNode

record cluster =
  cm_world :: world
  cm_heartbeats :: "(int \<times> ErNodeHeartbeat) list"
  cm_nodeCache :: "(int \<times> ErServerNode) list"

record timeouts =
  START_TIMEOUT_MS :: int
  STATUS_NEW_TIMEOUT_MS :: int
  STOP_TIMEOUT_MS :: int
  MAX_LIVE_MS :: int

definition on_cm :: "(world, 'a) comp \<Rightarrow> (cluster, 'a) comp" where
  "on_cm m = (\<lambda>s. case m (cm_world s) of (r, w) \<Rightarrow> (r, s\<lparr>cm_world := w\<rparr>))"

section \<open>Server nodes\<close>

definition serverNode_getById :: "int \<Rightarrow> world \<Rightarrow> ServerNode option" where
  "serverNode_getById i w = sql_get (\<lambda>v. v_serverNodeId v = i) (server_node w)"

text \<open>A miss loads the row; a missing row is not cached.\<close>

definition getByIdFromCache :: "int \<Rightarrow> (cluster, ErServerNode option) comp" where
  "getByIdFromCache i =
     (\<lambda>s. case map_of (cm_nodeCache s) i of
        Some n \<Rightarrow> (Inr (Some n), s)
      | None \<Rightarrow> (case serverNode_getById i (cm_world s) of
          None \<Rightarrow> (Inr None, s)
        | Some v \<Rightarrow> (Inr (Some (toErServerNode v)), s\<lparr>cm_nodeCache := (i, toErServerNode v) # cm_nodeCache s\<rparr>)))"

definition ServerNode_of :: "int \<Rightarrow> ErServerNode \<Rightarrow> ServerNode" where
  "ServerNode_of i n =
     \<lparr>v_serverNodeId = i, v_name = java_trim (sn_name n), v_serverClusterId = sn_clusterId n,
      v_host = java_trim (ep_host (sn_endpoint n)), v_port = ep_port (sn_endpoint n),
      v_nodeType = java_trim (sn_nodeType n), v_status = java_trim (sn_status n), v_lastHeartbeatAt = None\<rparr>"

text \<open>A positive id is inserted as it is, otherwise the database generates one.\<close>

definition createByErNode :: "ErServerNode \<Rightarrow> (world, ServerNode) comp" where
  "createByErNode n =
     mbind (mget next_snode_id) (\<lambda>fresh.
     let i = (if sn_id n > 0 then sn_id n else fresh) in
     mbind (mget (serverNode_getById i)) (\<lambda>old.
       case old of
         Some _ \<Rightarrow> mthrow DuplicateKeyException
       | None \<Rightarrow>
           mbind (mupd (\<lambda>w. w\<lparr>server_node := sql_insert (ServerNode_of i n) (server_node w),
              next_snode_id := max (next_snode_id w) (i + 1)\<rparr>)) (\<lambda>_. mreturn (ServerNode_of i n))))"

definition updateByErNode :: "env \<Rightarrow> ErServerNode \<Rightarrow> bool \<Rightarrow> world \<Rightarrow> world" where
  "updateByErNode E n isHeartbeat w =
     w\<lparr>server_node := sql_update (\<lambda>v. v_serverNodeId v = sn_id n)
        (\<lambda>v. v\<lparr>v_name := java_trim (sn_name n), v_host := java_trim (ep_host (sn_endpoint n)),
               v_port := ep_port (sn_endpoint n), v_status := java_trim (sn_status n),
               v_lastHeartbeatAt := (if isHeartbeat then Some (now E) else v_lastHeartbeatAt v)\<rparr>) (server_node w)\<rparr>"

section \<open>Resources of a node\<close>

text \<open>
  The resources a node reports are matched with its rows by type: matched ones are updated
  (keeping what is allocated), unmatched rows are deleted, unmatched reports are inserted.
\<close>

definition reported :: "ErResource list \<Rightarrow> ErResource list \<Rightarrow> ErResource list" where
  "reported exist rs =
     map (\<lambda>r. if res_resourceType r \<in> res_resourceType ` set exist then r\<lparr>res_allocated := -1\<rparr> else r) rs"

definition updateResources :: "ErResource list \<Rightarrow> ErResource list \<Rightarrow> ErResource list" where
  "updateResources exist rs =
     concat (map (\<lambda>e. filter (\<lambda>r. res_resourceType r = res_resourceType e) (reported exist rs)) exist)"

definition deleteResources :: "ErResource list \<Rightarrow> ErResource list \<Rightarrow> ErResource list" where
  "deleteResources exist rs = filter (\<lambda>e. res_resourceType e \<notin> res_resourceType ` set rs) exist"

definition insertResources :: "ErResource list \<Rightarrow> ErResource list \<Rightarrow> ErResource list" where
  "insertResources exist rs = filter (\<lambda>r. r \<notin> set (updateResources exist rs)) (reported exist rs)"

definition registerResource :: "ErServerNode \<Rightarrow> (world, ErServerNode) comp" where
  "registerResource n =
     mbind (mget (\<lambda>w. map nodeResource_toErResource (sql_select (\<lambda>r. n_serverNodeId r = sn_id n) (node_resource w)))) (\<lambda>exist.
     mbind (nodeResource_registerResource (sn_id n) (insertResources exist (sn_resources n))
        (updateResources exist (sn_resources n)) (deleteResources exist (sn_resources n))) (\<lambda>_.
     mreturn (n\<lparr>sn_resources := reported exist (sn_resources n)\<rparr>)))"

definition updateNode :: "env \<Rightarrow> ErServerNode \<Rightarrow> bool \<Rightarrow> bool \<Rightarrow> (world, ErServerNode) comp" where
  "updateNode E n needUpdateResource isHeartbeat =
     mbind (mupd (updateByErNode E n isHeartbeat)) (\<lambda>_.
       if needUpdateResource then registerResource n else mreturn n)"

definition createNewNode :: "ErServerNode \<Rightarrow> (world, ErServerNode) comp" where
  "createNewNode n =
     mbind (createByErNode n) (\<lambda>v. registerResource (n\<lparr>sn_id := v_serverNodeId v\<rparr>))"

section \<open>Heartbeats\<close>

definition known_older :: "ErNodeHeartbeat \<Rightarrow> cluster \<Rightarrow> bool" where
  "known_older hb s = (case map_of (cm_heartbeats s) (sn_id (hb_node hb)) of
     None \<Rightarrow> False | Some old \<Rightarrow> hb_id old < hb_id hb)"

definition heartbeat_node :: "env \<Rightarrow> ErNodeHeartbeat \<Rightarrow> (cluster, ErServerNode) comp" where
  "heartbeat_node E hb =
     (let n = hb_node hb in
      if sn_status n \<noteq> ''LOSS'' then
        if sn_id n = -1 then
          mbind (mget (\<lambda>s. getByEndPoint (sn_endpoint n) (cm_world s))) (\<lambda>exist.
            case exist of
              None \<Rightarrow> mbind (on_cm (createByErNode n)) (\<lambda>_. mreturn n)
            | Some v \<Rightarrow> on_cm (updateNode E (n\<lparr>sn_id := v_serverNodeId v\<rparr>) True True))
        else
          mbind (mget (known_older hb)) (\<lambda>normal.
            if normal then on_cm (updateNode E n False True)
            else
              mbind (getByIdFromCache (sn_id n)) (\<lambda>exist.
                case exist of
                  None \<Rightarrow> on_cm (createNewNode n)
                | Some _ \<Rightarrow> on_cm (updateNode E n True True)))
      else if sn_id n \<noteq> -1 then on_cm (updateNode E n False True) else mreturn n)"

definition nodeHeartbeat :: "env \<Rightarrow> ErNodeHeartbeat \<Rightarrow> (cluster, ErNodeHeartbeat) comp" where
  "nodeHeartbeat E hb =
     mbind (heartbeat_node E hb) (\<lambda>n.
     let hb' = hb\<lparr>hb_node := n\<rparr> in
     mbind (mupd (\<lambda>s. s\<lparr>cm_heartbeats := AList.update (sn_id n) hb' (cm_heartbeats s)\<rparr>)) (\<lambda>_. mreturn hb'))"

section \<open>Killing jobs and watching sessions\<close>

definition group_nodes :: "ErProcessor list \<Rightarrow> int list" where
  "group_nodes ps = remdups (map pr_serverNodeId ps)"

definition kill_on_node :: "string \<Rightarrow> string option \<Rightarrow> string \<Rightarrow> int \<Rightarrow> (world, unit) comp" where
  "kill_on_node sid before reason nid =
     mbind (mget (serverNode_getById nid)) (\<lambda>v.
       case v of
         None \<Rightarrow> mthrow NullPointerException
       | Some n \<Rightarrow> mupd (\<lambda>w. w\<lparr>
           sent_commands := sent_commands w @ [KillContainers (sn_endpoint (toErServerNode n)) sid],
           session_main := sql_update (\<lambda>m. m_sessionId m = sid)
             (\<lambda>m. m\<lparr>m_statusReason := Some reason, m_beforeStatus := before,
                    m_status := Some (if reason = ''API'' then ''KILLED'' else ''ERROR'')\<rparr>) (session_main w)\<rparr>))"

definition killJob :: "env \<Rightarrow> string \<Rightarrow> string \<Rightarrow> (world, unit) comp" where
  "killJob E sid reason =
     mbind (mget (session_getById sid)) (\<lambda>row.
       if row = None then mreturn ()
       else
         mbind (\<lambda>w. mlift (getSession_all E sid w) w) (\<lambda>z.
           case z of
             None \<Rightarrow> mthrow NullPointerException
           | Some s \<Rightarrow>
               mbind (mupd (\<lambda>w. w\<lparr>cx := (cx w)\<lparr>c_beforeStatus := sm_status s, c_statusReason := Some reason\<rparr>\<rparr>)) (\<lambda>_.
               if sm_status s \<in> {Some ''KILLED'', Some ''ERROR'', Some ''FINISHED''} then mreturn ()
               else case sm_status s of
                 None \<Rightarrow> mthrow NullPointerException
               | Some st \<Rightarrow>
                   if st = ''WAITING_RESOURCE''
                   then mbind (session_changeStatus E s (Some ''WAITING_RESOURCE'') ''ERROR'') (\<lambda>_. mreturn ())
                   else mfor (kill_on_node sid (sm_status s) reason) (group_nodes (sm_processors s)))))"

definition checkAndHandleDeepspeedOutTimeSession :: "env \<Rightarrow> timeouts \<Rightarrow> ErSessionMeta \<Rightarrow> (world, unit) comp" where
  "checkAndHandleDeepspeedOutTimeSession E T s =
     (case sm_createTime s of
        None \<Rightarrow> mthrow NullPointerException
      | Some created \<Rightarrow> mwhen (now E - created > intValue (START_TIMEOUT_MS T * 2)) (killJob E (sm_id s) ''TIMEOUT''))"

definition checkAndHandleEggpairOutTimeSession :: "env \<Rightarrow> timeouts \<Rightarrow> ErSessionMeta \<Rightarrow> (world, unit) comp" where
  "checkAndHandleEggpairOutTimeSession E T s =
     (case sm_createTime s of
        None \<Rightarrow> mthrow NullPointerException
      | Some created \<Rightarrow> mwhen (created < now E - STATUS_NEW_TIMEOUT_MS T)
          (mbind (in_context (new_Context\<lparr>c_statusReason := Some ''TIMEOUT''\<rparr>) (killSession_byId E (sm_id s))) (\<lambda>_. mreturn ())))"

text \<open>An invalid processor counts once it has been so for longer than the stop timeout.\<close>

fun any_overdue :: "int \<Rightarrow> ErProcessor list \<Rightarrow> exn + bool" where
  "any_overdue limit [] = Inr False"
| "any_overdue limit (p # ps) =
     (case pr_updatedAt p of None \<Rightarrow> Inl NullPointerException
      | Some u \<Rightarrow> if u < limit then Inr True else any_overdue limit ps)"

definition checkAndHandleEggpairActiveSession ::
  "env \<Rightarrow> timeouts \<Rightarrow> ErSessionMeta \<Rightarrow> ErProcessor list \<Rightarrow> (world, unit) comp" where
  "checkAndHandleEggpairActiveSession E T s ps =
     (case sm_createTime s of
        None \<Rightarrow> mthrow NullPointerException
      | Some created \<Rightarrow>
          if created < now E - MAX_LIVE_MS T
          then mbind (in_context (new_Context\<lparr>c_statusReason := Some ''TIMEOUT''\<rparr>) (killSession_to E s ''ERROR'')) (\<lambda>_. mreturn ())
          else
            mbind (mlift (any_overdue (now E - STOP_TIMEOUT_MS T)
              (filter (\<lambda>p. pr_status p \<in> {''ERROR'', ''KILLED'', ''STOPPED''}) ps))) (\<lambda>needKillSession.
            mwhen needKillSession (mbind (in_context new_Context (killSession_to E s ''ERROR'')) (\<lambda>_. mreturn ()))))"

definition checkAndHandleDeepspeedActiveSession ::
  "env \<Rightarrow> ErSessionMeta \<Rightarrow> ErProcessor list \<Rightarrow> (world, unit) comp" where
  "checkAndHandleDeepspeedActiveSession E s ps =
     (if \<exists>p \<in> set ps. pr_status p = ''ERROR'' then
        (\<lambda>w. case killJob E (sm_id s) ''PROCESS_ERROR'' w of
           (Inl (ErSessionException e), w') \<Rightarrow> (Inr (), w')
         | rw \<Rightarrow> rw)
      else if \<forall>p \<in> set ps. pr_status p = ''FINISHED'' then
        updateSessionMain (s\<lparr>sm_status := Some ''FINISHED''\<rparr>)
          (Some (\<lambda>m. mfor (\<lambda>p. mbind (in_context new_Context (processor_changeStatus E p None (case sm_status m of None \<Rightarrow> [] | Some st \<Rightarrow> st)))
                                 (\<lambda>_. mreturn ())) (sm_processors m)))
      else mreturn ())"

section \<open>Registering the resources of a node\<close>

lemma foldl_sql_update:
  "foldl (\<lambda>t r. sql_update (W r) (S r) t) t rs = map (\<lambda>x. foldl (\<lambda>x r. if W r x then S r x else x) x rs) t"
  by (induction rs arbitrary: t) (simp_all add: sql_update_def comp_def)

lemma foldl_sql_delete: "foldl (\<lambda>t r. sql_delete (D r) t) t rs = filter (\<lambda>x. \<forall>r \<in> set rs. \<not> D r x) t"
  by (induction rs arbitrary: t) (simp_all add: sql_delete_def conj_commute)

definition set_all :: "int \<Rightarrow> ErResource list \<Rightarrow> NodeResource \<Rightarrow> NodeResource" where
  "set_all nid rs x = foldl (\<lambda>x r. if nr_where nid r x then nr_set r x else x) x rs"

lemma doUpdate_eq: "doUpdateNodeResource nid rs t = map (set_all nid rs) t"
  by (simp add: doUpdateNodeResource_def foldl_sql_update set_all_def[abs_def])

lemma set_all_fields [simp]:
  "n_resourceId (set_all nid rs x) = n_resourceId x" "n_serverNodeId (set_all nid rs x) = n_serverNodeId x"
  "n_resourceType (set_all nid rs x) = n_resourceType x" "nr_at i ty (set_all nid rs x) = nr_at i ty x"
  by (induction rs arbitrary: x) (simp_all add: set_all_def nr_set_def nr_at_def)

lemma set_all_other: "nid \<ge> 0 \<Longrightarrow> n_serverNodeId x \<noteq> nid \<Longrightarrow> set_all nid rs x = x"
  by (induction rs arbitrary: x) (simp_all add: set_all_def nr_where_def)

text \<open>A report as it comes off the wire: the counters kept by the cluster manager are not set.\<close>

definition wire_report :: "ErResource list \<Rightarrow> bool" where
  "wire_report rs \<longleftrightarrow> distinct (map res_resourceType rs) \<and>
     (\<forall>r \<in> set rs. res_preAllocated r < 0 \<and> \<not> isBlank (Some (res_resourceType r)) \<and> res_total r \<ge> 0)"

lemma set_all_report:
  assumes "\<forall>r \<in> set rs. res_preAllocated r < 0 \<and> res_allocated r < 0 \<and> \<not> isBlank (Some (res_resourceType r)) \<and> res_total r \<ge> 0"
    and "\<forall>r \<in> set rs. res_resourceType r = n_resourceType x \<longrightarrow> res_total r = k" and "n_serverNodeId x = nid"
    and "n_resourceType x \<in> res_resourceType ` set rs \<or> n_total x = k"
  shows "n_allocated (set_all nid rs x) = n_allocated x \<and> n_preAllocated (set_all nid rs x) = n_preAllocated x \<and>
    n_total (set_all nid rs x) = k"
  using assms
proof (induction rs arbitrary: x)
  case (Cons r rs)
  have f: "set_all nid (r # rs) x = set_all nid rs (if nr_where nid r x then nr_set r x else x)" by (simp add: set_all_def)
  show ?case
  proof (cases "res_resourceType r = n_resourceType x")
    case True
    then have w: "nr_where nid r x" using Cons.prems(3) by (simp add: nr_where_def)
    have "n_total (nr_set r x) = k" using Cons.prems(1,2) True by (simp add: nr_set_def)
    with Cons.IH[of "nr_set r x"] Cons.prems w show ?thesis by (auto simp: f nr_set_def)
  next
    case False
    then have "\<not> nr_where nid r x" using Cons.prems(1) by (auto simp: nr_where_def)
    with Cons.IH[of x] Cons.prems False show ?thesis by (auto simp: f)
  qed
qed (simp add: set_all_def)

lemma doInsert_run:
  assumes "distinct (map res_resourceType rs)" and "\<forall>r \<in> set rs. \<not> nr_has nid (res_resourceType r) (node_resource w)"
  shows "\<exists>w' new. doInsertNodeResource nid rs w = (Inr (), w') \<and> node_resource w' = node_resource w @ new \<and>
    map n_resourceType new = map res_resourceType rs \<and> (\<forall>x \<in> set new. n_serverNodeId x = nid)"
  using assms
proof (induction rs arbitrary: w)
  case Nil
  then show ?case by (simp add: doInsertNodeResource_def)
next
  case (Cons r rs)
  let ?x = "\<lparr>n_resourceId = next_nresource_id w, n_serverNodeId = nid, n_resourceType = res_resourceType r,
             n_total = res_total r, n_used = max (res_used r) 0, n_preAllocated = 0, n_allocated = 0,
             n_extention = None, n_status = res_status r\<rparr>"
  let ?w = "w\<lparr>node_resource := sql_insert ?x (node_resource w), next_nresource_id := next_nresource_id w + 1\<rparr>"
  have none: "sql_get (nr_at nid (res_resourceType r)) (node_resource w) = None"
    using Cons.prems(2) by (simp add: sql_get_None nr_has_def)
  have "\<forall>q \<in> set rs. \<not> nr_has nid (res_resourceType q) (node_resource ?w)"
    using Cons.prems by (auto simp: nr_has_def sql_insert_def nr_at_def)
  with Cons.IH[of ?w] Cons.prems(1) obtain w' new where
    "doInsertNodeResource nid rs ?w = (Inr (), w')" "node_resource w' = node_resource ?w @ new"
    "map n_resourceType new = map res_resourceType rs" "\<forall>x \<in> set new. n_serverNodeId x = nid" by auto
  then show ?case
    by (intro exI[of _ w'] exI[of _ "?x # new"]) (simp add: doInsertNodeResource_def mbind_def none sql_insert_def)
qed

lemma map_types_reported [simp]: "map res_resourceType (reported exist rs) = map res_resourceType rs"
  by (simp add: reported_def)

lemma types_reported [simp]: "res_resourceType ` set (reported exist rs) = res_resourceType ` set rs"
  by (metis list.set_map map_types_reported)

lemma set_updateResources:
  "set (updateResources exist rs) = {r \<in> set (reported exist rs). res_resourceType r \<in> res_resourceType ` set exist}"
  by (auto simp: updateResources_def)

lemma set_insertResources:
  "set (insertResources exist rs) = {r \<in> set (reported exist rs). res_resourceType r \<notin> res_resourceType ` set exist}"
  by (auto simp: insertResources_def set_updateResources)

text \<open>The table after a registration: new rows appended, matched rows set, unreported ones deleted.\<close>

definition existing :: "ErServerNode \<Rightarrow> world \<Rightarrow> ErResource list" where
  "existing n w = map nodeResource_toErResource (sql_select (\<lambda>r. n_serverNodeId r = sn_id n) (node_resource w))"

lemma existing_types: "ty \<in> res_resourceType ` set (existing n w) \<longleftrightarrow> nr_has (sn_id n) ty (node_resource w)"
  by (force simp: existing_def nr_has_def nr_at_def nodeResource_toErResource_def)

definition still_reported :: "ErServerNode \<Rightarrow> world \<Rightarrow> NodeResource \<Rightarrow> bool" where
  "still_reported n w x \<longleftrightarrow> \<not> (n_serverNodeId x = sn_id n \<and> nr_has (sn_id n) (n_resourceType x) (node_resource w) \<and>
     n_resourceType x \<notin> res_resourceType ` set (sn_resources n))"

lemma registerResource_run:
  assumes "wire_report (sn_resources n)"
  obtains r w' new where "registerResource n w = (Inr r, w')"
    and "node_resource w' = filter (still_reported n w) (map (set_all (sn_id n) (updateResources (existing n w) (sn_resources n))) (node_resource w @ new))"
    and "n_resourceType ` set new = {ty \<in> res_resourceType ` set (sn_resources n). \<not> nr_has (sn_id n) ty (node_resource w)}"
    and "\<forall>x \<in> set new. n_serverNodeId x = sn_id n"
proof -
  let ?nid = "sn_id n" and ?rs = "sn_resources n" and ?t = "node_resource w" and ?exist = "existing n w"
  define ins where "ins = insertResources ?exist ?rs"
  define upd where "upd = updateResources ?exist ?rs"
  define del where "del = deleteResources ?exist ?rs"
  have "distinct (map res_resourceType (reported ?exist ?rs))" using assms by (simp add: wire_report_def)
  then have "distinct (map res_resourceType ins)" unfolding ins_def insertResources_def by (rule distinct_map_filter)
  moreover have "\<forall>r \<in> set ins. \<not> nr_has ?nid (res_resourceType r) ?t" by (simp add: ins_def set_insertResources existing_types)
  ultimately obtain w1 new where w1: "doInsertNodeResource ?nid ins w = (Inr (), w1)" "node_resource w1 = ?t @ new"
    "map n_resourceType new = map res_resourceType ins" "\<forall>x \<in> set new. n_serverNodeId x = ?nid"
    using doInsert_run by blast
  have "res_resourceType ` set del = {ty. nr_has ?nid ty ?t \<and> ty \<notin> res_resourceType ` set ?rs}"
    unfolding del_def deleteResources_def existing_types[symmetric] by auto
  then have "(\<forall>r \<in> set del. \<not> nr_at ?nid (res_resourceType r) x) = still_reported n w x" for x
    unfolding still_reported_def nr_at_def by (auto simp: set_eq_iff image_iff)
  then have dl: "doDeleteNodeResource ?nid del z = filter (still_reported n w) z" for z
    by (simp add: doDeleteNodeResource_def foldl_sql_delete)
  have "ins = [] \<Longrightarrow> w1 = w" using w1(1) by (simp add: doInsertNodeResource_def)
  then have "mwhen (ins \<noteq> []) (doInsertNodeResource ?nid ins) w = (Inr (), w1)" using w1(1) by (simp add: mwhen_def)
  moreover have "upd = [] \<Longrightarrow> map (set_all ?nid upd) (?t @ new) = ?t @ new" by (simp add: set_all_def[abs_def])
  moreover have "del = [] \<Longrightarrow> filter (still_reported n w) z = z" for z using dl[of z] by (simp add: doDeleteNodeResource_def)
  ultimately have run: "\<exists>r w'. registerResource n w = (Inr r, w') \<and>
      node_resource w' = filter (still_reported n w) (map (set_all ?nid upd) (?t @ new))"
    unfolding registerResource_def nodeResource_registerResource_def
    by (cases "upd = []"; cases "del = []")
       (simp_all add: mbind_def existing_def[symmetric] ins_def[symmetric] upd_def[symmetric] del_def[symmetric] w1(2) doUpdate_eq dl)
  have "n_resourceType ` set new = res_resourceType ` set ins" using arg_cong[OF w1(3), of set] by simp
  also have "\<dots> = res_resourceType ` set (reported ?exist ?rs) - res_resourceType ` set ?exist"
    by (auto simp: ins_def set_insertResources simp del: types_reported)
  finally have "n_resourceType ` set new = {ty \<in> res_resourceType ` set ?rs. \<not> nr_has ?nid ty ?t}"
    using existing_types[of _ n w] by (simp add: set_diff_eq)
  with run w1(4) that show thesis by (auto simp: upd_def)
qed

text \<open>registering what a node reports succeeds and leaves the node with exactly the reported resource
  types; a type it had keeps its row and what is allocated and pre-allocated of it and gets the
  reported total, and the rows of all other nodes stay as they are.\<close>

theorem register_resource_effect:
  assumes "sn_id n \<ge> 0" and "wire_report (sn_resources n)"
  shows "\<exists>r w'. registerResource n w = (Inr r, w') \<and>
    (\<forall>ty. nr_has (sn_id n) ty (node_resource w') \<longleftrightarrow> ty \<in> res_resourceType ` set (sn_resources n)) \<and>
    filter (\<lambda>x. n_serverNodeId x \<noteq> sn_id n) (node_resource w') = filter (\<lambda>x. n_serverNodeId x \<noteq> sn_id n) (node_resource w) \<and>
    (\<forall>x \<in> set (node_resource w). \<forall>q \<in> set (sn_resources n).
       n_serverNodeId x = sn_id n \<and> n_resourceType x = res_resourceType q \<longrightarrow>
       (\<exists>y \<in> set (node_resource w'). n_resourceId y = n_resourceId x \<and> n_resourceType y = n_resourceType x \<and>
          n_allocated y = n_allocated x \<and> n_preAllocated y = n_preAllocated x \<and> n_total y = res_total q))"
proof -
  let ?nid = "sn_id n" and ?rs = "sn_resources n" and ?t = "node_resource w"
  define upd where "upd = updateResources (existing n w) ?rs"
  obtain r w' new where run: "registerResource n w = (Inr r, w')"
    and t': "node_resource w' = filter (still_reported n w) (map (set_all ?nid upd) (?t @ new))"
    and newty: "n_resourceType ` set new = {ty \<in> res_resourceType ` set ?rs. \<not> nr_has ?nid ty ?t}"
    and node: "\<forall>x \<in> set new. n_serverNodeId x = ?nid"
    by (rule registerResource_run[OF assms(2), where w = w, folded upd_def])
  define t' where t0: "t' = node_resource w'"
  note t'_def = t0[unfolded t']
  have has: "nr_has ?nid ty t' \<longleftrightarrow> ty \<in> res_resourceType ` set ?rs" for ty
  proof -
    have st: "set t' = {y. \<exists>x \<in> set (?t @ new). y = set_all ?nid upd x \<and> still_reported n w y}" by (auto simp: t'_def)
    have "nr_has ?nid ty t' \<longleftrightarrow> (\<exists>x \<in> set (?t @ new). n_serverNodeId x = ?nid \<and> n_resourceType x = ty \<and> still_reported n w (set_all ?nid upd x))"
      unfolding nr_has_def st nr_at_def by auto
    also have "\<dots> \<longleftrightarrow> ty \<in> res_resourceType ` set ?rs"
    proof
      assume "\<exists>x \<in> set (?t @ new). n_serverNodeId x = ?nid \<and> n_resourceType x = ty \<and> still_reported n w (set_all ?nid upd x)"
      then obtain x where x: "x \<in> set ?t \<or> x \<in> set new" "n_serverNodeId x = ?nid" "n_resourceType x = ty" "still_reported n w (set_all ?nid upd x)"
        by auto
      have "x \<in> set ?t \<Longrightarrow> nr_has ?nid ty ?t" using x(2,3) by (auto simp: nr_has_def nr_at_def)
      moreover have "x \<in> set new \<Longrightarrow> ty \<in> n_resourceType ` set new" using x(3) by auto
      ultimately show "ty \<in> res_resourceType ` set ?rs" using x newty by (auto simp: still_reported_def)
    next
      assume ty: "ty \<in> res_resourceType ` set ?rs"
      then have "nr_has ?nid ty ?t \<or> ty \<in> n_resourceType ` set new" using newty by auto
      then obtain x where "x \<in> set (?t @ new)" "n_serverNodeId x = ?nid" "n_resourceType x = ty"
        using node by (auto simp: nr_has_def nr_at_def)
      with ty show "\<exists>x \<in> set (?t @ new). n_serverNodeId x = ?nid \<and> n_resourceType x = ty \<and> still_reported n w (set_all ?nid upd x)"
        by (intro bexI[of _ x]) (auto simp: still_reported_def)
    qed
    finally show ?thesis .
  qed
  have other: "filter (\<lambda>x. n_serverNodeId x \<noteq> ?nid) t' = filter (\<lambda>x. n_serverNodeId x \<noteq> ?nid) ?t"
  proof -
    have "filter (\<lambda>x. n_serverNodeId x \<noteq> ?nid) t' = filter (\<lambda>x. n_serverNodeId x \<noteq> ?nid) (map (set_all ?nid upd) (?t @ new))"
      unfolding t'_def filter_filter by (rule filter_cong) (auto simp: still_reported_def)
    also have "\<dots> = map (set_all ?nid upd) (filter (\<lambda>x. n_serverNodeId x \<noteq> ?nid) ?t)"
      using node by (simp add: filter_map comp_def filter_False)
    also have "\<dots> = filter (\<lambda>x. n_serverNodeId x \<noteq> ?nid) ?t"
      using assms(1) by (intro map_idI) (simp add: set_all_other)
    finally show ?thesis .
  qed
  have kept: "\<exists>y \<in> set t'. n_resourceId y = n_resourceId x \<and> n_resourceType y = n_resourceType x \<and>
      n_allocated y = n_allocated x \<and> n_preAllocated y = n_preAllocated x \<and> n_total y = res_total q"
    if x: "x \<in> set ?t" "n_serverNodeId x = ?nid" "n_resourceType x = res_resourceType q" and q: "q \<in> set ?rs" for x q
  proof -
    have has_x: "nr_has ?nid (n_resourceType x) ?t" using x by (auto simp: nr_has_def nr_at_def)
    have "\<exists>r \<in> set upd. res_resourceType r = n_resourceType x"
    proof -
      have "n_resourceType x \<in> res_resourceType ` set (reported (existing n w) ?rs)" using x(3) q by simp
      then obtain r where "r \<in> set (reported (existing n w) ?rs)" "n_resourceType x = res_resourceType r" by blast
      with has_x show ?thesis by (auto simp: upd_def set_updateResources existing_types)
    qed
    moreover have "res_total r = res_total q" if r: "r \<in> set upd" "res_resourceType r = n_resourceType x" for r
    proof -
      obtain r0 where "r0 \<in> set ?rs" "res_resourceType r0 = res_resourceType r" "res_total r0 = res_total r"
        using r(1) by (auto simp: upd_def set_updateResources reported_def split: if_splits)
      with assms(2) q x(3) r(2) show ?thesis by (auto simp: wire_report_def distinct_map inj_on_def)
    qed
    moreover have "\<forall>r \<in> set upd. res_preAllocated r < 0 \<and> res_allocated r < 0 \<and> \<not> isBlank (Some (res_resourceType r)) \<and> res_total r \<ge> 0"
      using assms(2) by (auto simp: upd_def set_updateResources reported_def wire_report_def split: if_splits)
    ultimately have "n_allocated (set_all ?nid upd x) = n_allocated x \<and> n_preAllocated (set_all ?nid upd x) = n_preAllocated x \<and>
        n_total (set_all ?nid upd x) = res_total q"
      by (intro set_all_report) (use x(2) in \<open>force simp: image_iff\<close>)+
    moreover have "set_all ?nid upd x \<in> set t'" using x q by (simp add: t'_def still_reported_def)
    ultimately show ?thesis by (intro bexI[of _ "set_all ?nid upd x"]) simp_all
  qed
  show ?thesis
    using has other kept unfolding t0 by (intro exI[of _ r] exI[of _ w'] conjI run) (assumption | simp)+
qed

definition sample_node_report :: ErServerNode where
  "sample_node_report = new_ErServerNode\<lparr>sn_id := 7, sn_resources := [new_ErResource\<lparr>res_resourceType := ''VCPU_CORE'', res_total := 16, res_used := 0, res_allocated := 0\<rparr>]\<rparr>"

definition sample_manager :: world where
  "sample_manager = empty_world\<lparr>node_resource := sample_table, next_nresource_id := 2\<rparr>"

theorem register_resource_effect_witness:
  "\<exists>r w'. registerResource sample_node_report sample_manager = (Inr r, w') \<and> nr_has 7 ''VCPU_CORE'' (node_resource w')"
  using register_resource_effect[of sample_node_report sample_manager]
  by (auto simp: sample_node_report_def new_ErServerNode_def new_ErResource_def wire_report_def is_whitespace_def)

end
