(* ===== verification/Dispatch.thy ===== *)
theory Dispatch
  imports Session_Machine "HOL-Library.Multiset"
begin

text \<open>
  \<open>ClusterResourceManager\<close>: the check whether the cluster has enough resources for an
  application, the four dispatch strategies, the queue of applications and the iteration of the
  dispatch thread.

  Nodes are shared mutable objects in the code; here the list of nodes is part of the state
  and a reference is an index into it.  Two things the code leaves to the Java library are
  arguments: the order in which a hash map lists its entries, and the random shuffle.
\<close>

section \<open>Applications\<close>

record ResourceApplication =
  ra_sessionId :: string
  ra_sessionName :: string
  ra_processors :: "ErProcessor list"
  ra_sortByResourceType :: string
  ra_needDispatch :: bool
  ra_dispatchStrategy :: string
  ra_resourceExhaustedStrategy :: string
  ra_allowExhausted :: bool
  ra_resourceDispatch :: "(ErProcessor \<times> ErServerNode) list"
  ra_latch :: nat
  ra_timeout :: int
  ra_waitingCount :: int
  ra_status :: int
  ra_processorTypes :: "string list"
  ra_options :: "(string \<times> string) list"

definition new_ResourceApplication :: "string \<Rightarrow> ResourceApplication" where
  "new_ResourceApplication sid = \<lparr>ra_sessionId = sid, ra_sessionName = [], ra_processors = [],
     ra_sortByResourceType = ''VCPU_CORE'', ra_needDispatch = True, ra_dispatchStrategy = ''single_node_first'',
     ra_resourceExhaustedStrategy = ''waiting'', ra_allowExhausted = False, ra_resourceDispatch = [],
     ra_latch = 1, ra_timeout = 0, ra_waitingCount = 1, ra_status = 0, ra_processorTypes = [], ra_options = []\<rparr>"

definition countDown :: "ResourceApplication \<Rightarrow> ResourceApplication" where
  "countDown a = a\<lparr>ra_latch := ra_latch a - 1\<rparr>"

record java_choices =
  entry_order :: "(string \<times> int) list \<Rightarrow> (string \<times> int) list"
  pair_order :: "(ErProcessor \<times> ErServerNode) list \<Rightarrow> (ErProcessor \<times> ErServerNode) list"
  shuffle :: "nat list \<Rightarrow> nat list"

definition choices_ok :: "java_choices \<Rightarrow> bool" where
  "choices_ok J \<longleftrightarrow> (\<forall>xs. mset (entry_order J xs) = mset xs) \<and> (\<forall>xs. mset (pair_order J xs) = mset xs) \<and>
     (\<forall>xs. mset (shuffle J xs) = mset xs)"

section \<open>Is there enough?\<close>

definition add_to :: "string \<Rightarrow> int \<Rightarrow> (string \<times> int) list \<Rightarrow> (string \<times> int) list" where
  "add_to k v m = AList.update k ((case map_of m k of None \<Rightarrow> 0 | Some c \<Rightarrow> c) + v) m"

definition node_remain :: "ErResource list \<Rightarrow> (string \<times> int) list \<Rightarrow> (string \<times> int) list" where
  "node_remain rs m = fold (\<lambda>r. add_to (res_resourceType r) (getUnAllocatedResource r)) rs m"

definition nodeRemainResourceMap :: "ErServerNode list \<Rightarrow> (int \<times> (string \<times> int) list) list" where
  "nodeRemainResourceMap nodes =
     fold (\<lambda>n m. AList.update (sn_id n)
       (node_remain (sn_resources n) (case map_of m (sn_id n) of None \<Rightarrow> [] | Some t \<Rightarrow> t)) m) nodes []"

definition globalMaxResourceMap :: "ErServerNode list \<Rightarrow> (string \<times> int) list" where
  "globalMaxResourceMap nodes =
     fold (\<lambda>n m. fold (\<lambda>r. add_to (res_resourceType r) (res_total r)) (sn_resources n) m) nodes []"

definition globalRemainResourceMap :: "ErServerNode list \<Rightarrow> (string \<times> int) list" where
  "globalRemainResourceMap nodes =
     fold (\<lambda>(k, v) m. fold (\<lambda>(s, x). add_to s x) v m) (nodeRemainResourceMap nodes) []"

definition requestResourceMap :: "ErProcessor list \<Rightarrow> (string \<times> int) list" where
  "requestResourceMap ps =
     fold (\<lambda>r. add_to (res_resourceType r) (res_allocated r)) (concat (map pr_resources ps)) []"

definition get_or :: "int \<Rightarrow> string \<Rightarrow> (string \<times> int) list \<Rightarrow> int" where
  "get_or d k m = (case map_of m k of None \<Rightarrow> d | Some v \<Rightarrow> v)"

text \<open>The loop over the requested types: the answer, and whether a type exceeds what the cluster has in all.\<close>

fun check_requests :: "(string \<times> int) list \<Rightarrow> (string \<times> int) list \<Rightarrow> (string \<times> int) list \<Rightarrow> bool \<times> bool" where
  "check_requests remain mx [] = (True, False)"
| "check_requests remain mx ((k, v) # rs) =
     (if v > get_or (-1) k mx then (False, True)
      else if intValue (get_or (-1) k remain) > -1
           then (if v > get_or (-1) k remain then (False, False) else check_requests remain mx rs)
           else (False, False))"

definition eggs_option :: "env \<Rightarrow> ResourceApplication \<Rightarrow> exn + int" where
  "eggs_option E a =
     (case map_of (ra_options a) ''eggroll.session.processors.per.node'' of
        None \<Rightarrow> Inr (processors_per_node E)
      | Some v \<Rightarrow> (case parseInt v of None \<Rightarrow> Inl NumberFormatException | Some i \<Rightarrow> Inr i))"

definition resourceType_option :: "ResourceApplication \<Rightarrow> string" where
  "resourceType_option a = (case map_of (ra_options a) ''resourceType'' of None \<Rightarrow> ''VCPU_CORE'' | Some t \<Rightarrow> t)"

definition checkResourceEnough ::
  "env \<Rightarrow> java_choices \<Rightarrow> ErServerNode list \<Rightarrow> ResourceApplication \<Rightarrow> exn + (bool \<times> ResourceApplication)" where
  "checkResourceEnough E J nodes a =
     (if ra_allowExhausted a then Inr (True, a)
      else if ra_dispatchStrategy a = ''fix''
      then (case eggs_option E a of
              Inl e \<Rightarrow> Inl e
            | Inr eggs \<Rightarrow> Inr (list_all (\<lambda>(k, m). get_or 0 (resourceType_option a) m \<ge>
                 intValue (eggs * int (length (ra_processorTypes a)))) (nodeRemainResourceMap nodes), a))
      else (case check_requests (globalRemainResourceMap nodes) (globalMaxResourceMap nodes)
                   (entry_order J (requestResourceMap (ra_processors a))) of
              (ok, exceeds) \<Rightarrow> Inr (ok, if exceeds then a\<lparr>ra_resourceExhaustedStrategy := ''throw_error''\<rparr> else a)))"

text \<open>The check that the flow service asks for: one node or the whole cluster.\<close>

definition checkResourceEnoughForFlow :: "string \<Rightarrow> int \<Rightarrow> string \<Rightarrow> world \<Rightarrow> bool" where
  "checkResourceEnoughForFlow rtype required checkType w =
     (let nodes = getServerNodesWithResource healthy_example w;
          counts = map getUnAllocatedResource
            (filter (\<lambda>r. res_resourceType r = rtype) (concat (map sn_resources nodes)));
          result = (checkType = ''nodeCheck'' \<and> (\<exists>c \<in> set counts. c \<ge> required))
      in if checkType = ''clusterCheck'' then sum_list counts \<ge> required else result)"

section \<open>Strategies\<close>

definition getFirstUnAllocatedResource :: "string \<Rightarrow> ErServerNode \<Rightarrow> int" where
  "getFirstUnAllocatedResource rtype n =
     (case find (\<lambda>r. res_resourceType r = rtype) (sn_resources n) of
        None \<Rightarrow> 0 | Some r \<Rightarrow> getUnAllocatedResource r)"

definition getNextGpuIndex :: "int \<Rightarrow> string list \<Rightarrow> int" where
  "getNextGpuIndex sz alreadyAllocated =
     (case find (\<lambda>i. string_of_int (int i) \<notin> set alreadyAllocated) [0..<nat sz] of
        None \<Rightarrow> -1 | Some i \<Rightarrow> int i)"

definition extention_list :: "string option \<Rightarrow> string list" where
  "extention_list e = (case e of None \<Rightarrow> [] | Some s \<Rightarrow> java_split CHR '','' s)"

fun update_first :: "('a \<Rightarrow> bool) \<Rightarrow> ('a \<Rightarrow> 'a) \<Rightarrow> 'a list \<Rightarrow> 'a list" where
  "update_first P f [] = []"
| "update_first P f (x # xs) = (if P x then f x # xs else x # update_first P f xs)"

definition is_gpu :: "ErResource \<Rightarrow> bool" where
  "is_gpu r \<longleftrightarrow> res_resourceType r = ''VGPU_CORE''"

definition add_extention :: "int \<Rightarrow> ErResource \<Rightarrow> ErResource" where
  "add_extention i g =
     (let cache = extention_list (res_extention g) @ [string_of_int i]
      in g\<lparr>res_extention := Some (java_join CHR '','' cache), res_extentionCache := cache\<rparr>)"

text \<open>A request for a GPU takes the next free index of the node and records it there.\<close>

fun assign_resources :: "ErResource list \<Rightarrow> ErServerNode \<Rightarrow> int \<Rightarrow> ErResource list \<times> ErServerNode \<times> int" where
  "assign_resources [] n i = ([], n, i)"
| "assign_resources (r # rs) n i =
     (case (if is_gpu r then find is_gpu (sn_resources n) else None) of
        None \<Rightarrow> (case assign_resources rs n i of (rs', n', j) \<Rightarrow> (r # rs', n', j))
      | Some g \<Rightarrow>
          let k = getNextGpuIndex (res_total g) (extention_list (res_extention g));
              n1 = n\<lparr>sn_resources := update_first is_gpu (add_extention k) (sn_resources n)\<rparr>
          in (case assign_resources rs n1 k of (rs', n', j) \<Rightarrow>
                (r\<lparr>res_extention := Some (string_of_int k)\<rparr> # rs', n', j)))"

definition place_processor :: "ErProcessor \<Rightarrow> ErServerNode \<Rightarrow> ErProcessor \<times> ErServerNode" where
  "place_processor p n =
     (case assign_resources (pr_resources p) n (-1) of (rs, n', k) \<Rightarrow>
        (p\<lparr>pr_serverNodeId := sn_id n, pr_commandEndpoint := Some \<lparr>ep_host = ep_host (sn_endpoint n), ep_port = 0\<rparr>,
           pr_resources := rs,
           pr_options := AList.update ''cudaVisibleDevices'' (string_of_int k) (pr_options p)\<rparr>, n'))"

text \<open>State of a dispatch: the nodes and the application; the pairs collected so far.\<close>

record dstate =
  ds_nodes :: "ErServerNode list"
  ds_app :: ResourceApplication
  ds_pairs :: "(ErProcessor \<times> nat) list"

definition put_processor :: "nat \<Rightarrow> nat \<Rightarrow> dstate \<Rightarrow> dstate" where
  "put_processor index i d =
     (case place_processor (ra_processors (ds_app d) ! index) (ds_nodes d ! i) of (p, n) \<Rightarrow>
        d\<lparr>ds_nodes := (ds_nodes d)[i := n],
          ds_app := (ds_app d)\<lparr>ra_processors := (ra_processors (ds_app d))[index := p]\<rparr>,
          ds_pairs := ds_pairs d @ [(p, i)]\<rparr>)"

definition finish_dispatch :: "java_choices \<Rightarrow> dstate \<Rightarrow> dstate" where
  "finish_dispatch J d =
     d\<lparr>ds_app := (ds_app d)\<lparr>ra_resourceDispatch := ra_resourceDispatch (ds_app d) @
         pair_order J (map (\<lambda>(p, i). (p, ds_nodes d ! i)) (ds_pairs d))\<rparr>\<rparr>"

definition first_resource_check :: "(dstate, unit) comp" where
  "first_resource_check =
     mbind (mget ds_nodes) (\<lambda>ns. if list_all (\<lambda>n. sn_resources n \<noteq> []) ns then mreturn ()
                                  else mthrow IndexOutOfBoundsException)"

definition node_key :: "dstate \<Rightarrow> nat \<Rightarrow> int" where
  "node_key d i = getFirstUnAllocatedResource (ra_sortByResourceType (ds_app d)) (ds_nodes d ! i)"

text \<open>
  \<open>remainMostFirstDispatch\<close> sorts the nodes by what they have left and takes the last one; after
  a processor with a resource the list is sorted the other way round.
\<close>

fun remainMost_loop :: "nat list \<Rightarrow> nat list \<Rightarrow> (dstate, unit) comp" where
  "remainMost_loop order [] = mreturn ()"
| "remainMost_loop order (index # rest) =
     (if order = [] then mthrow IndexOutOfBoundsException
      else
        mbind (mget (\<lambda>d. if pr_resources (ra_processors (ds_app d) ! index) = [] then order
                         else sort_key (\<lambda>i. - node_key d i) order)) (\<lambda>order'.
        mbind (mupd (put_processor index (last order))) (\<lambda>_. remainMost_loop order' rest)))"

definition remainMostFirstDispatch :: "java_choices \<Rightarrow> (dstate, unit) comp" where
  "remainMostFirstDispatch J =
     mbind first_resource_check (\<lambda>_.
     mbind (mget (\<lambda>d. (sort_key (node_key d) [0..<length (ds_nodes d)], [0..<length (ra_processors (ds_app d))])))
       (\<lambda>(order, indices).
     mbind (remainMost_loop order indices) (\<lambda>_. mupd (finish_dispatch J))))"

text \<open>\<open>singleNodeFirstDispatch\<close> lists each node as often as it has units left, fullest first.\<close>

definition sortNodeList :: "dstate \<Rightarrow> nat list" where
  "sortNodeList d =
     concat (map (\<lambda>i. replicate (nat (node_key d i)) i)
       (sort_key (\<lambda>i. - node_key d i) [0..<length (ds_nodes d)]))"

fun singleNode_loop :: "nat list \<Rightarrow> nat list \<Rightarrow> (dstate, unit) comp" where
  "singleNode_loop nodes [] = mreturn ()"
| "singleNode_loop nodes (index # rest) =
     (if index < length nodes
      then mbind (mupd (put_processor index (nodes ! index))) (\<lambda>_. singleNode_loop nodes rest)
      else mthrow IndexOutOfBoundsException)"

definition singleNodeFirstDispatch :: "java_choices \<Rightarrow> (dstate, unit) comp" where
  "singleNodeFirstDispatch J =
     mbind first_resource_check (\<lambda>_.
     mbind (mget (\<lambda>d. (sortNodeList d, [0..<length (ra_processors (ds_app d))]))) (\<lambda>(nodes, indices).
     mbind (singleNode_loop nodes indices) (\<lambda>_. mupd (finish_dispatch J))))"

text \<open>\<open>randomDispatch\<close> removes each node it has used.\<close>

definition put_random :: "nat \<Rightarrow> nat \<Rightarrow> dstate \<Rightarrow> dstate" where
  "put_random index i d =
     (let n = ds_nodes d ! i;
          p = (ra_processors (ds_app d) ! index)\<lparr>pr_serverNodeId := sn_id n,
                pr_commandEndpoint := Some \<lparr>ep_host = ep_host (sn_endpoint n), ep_port = 0\<rparr>\<rparr>
      in d\<lparr>ds_app := (ds_app d)\<lparr>ra_processors := (ra_processors (ds_app d))[index := p]\<rparr>,
           ds_pairs := ds_pairs d @ [(p, i)]\<rparr>)"

fun random_loop :: "nat list \<Rightarrow> nat list \<Rightarrow> (dstate, unit) comp" where
  "random_loop shuffled [] = mreturn ()"
| "random_loop shuffled (index # rest) =
     (case shuffled of
        [] \<Rightarrow> mthrow IndexOutOfBoundsException
      | i # shuffled' \<Rightarrow> mbind (mupd (put_random index i)) (\<lambda>_. random_loop shuffled' rest))"

definition randomDispatch :: "java_choices \<Rightarrow> (dstate, unit) comp" where
  "randomDispatch J =
     mbind (mget (\<lambda>d. (shuffle J [0..<length (ds_nodes d)], [0..<length (ra_processors (ds_app d))])))
       (\<lambda>(shuffled, indices).
     mbind (random_loop shuffled indices) (\<lambda>_. mupd (finish_dispatch J)))"

text \<open>
  \<open>fixDispatch\<close> makes the processors of every type on every node.  The list of a node is an
  immutable singleton: adding a second processor to it throws.
\<close>

definition fix_processor :: "string \<Rightarrow> string \<Rightarrow> ErServerNode \<Rightarrow> ErProcessor" where
  "fix_processor rtype elem n =
     new_ErProcessor\<lparr>pr_serverNodeId := sn_id n, pr_processorType := elem,
       pr_commandEndpoint := Some \<lparr>ep_host = ep_host (sn_endpoint n), ep_port = 0\<rparr>, pr_status := ''NEW'',
       pr_resources := [new_ErResource\<lparr>res_resourceType := rtype, res_allocated := 1,
         res_status := Some ''PRE_ALLOCATED''\<rparr>]\<rparr>"

definition put_fix :: "string \<Rightarrow> string \<Rightarrow> nat \<Rightarrow> (dstate, unit) comp" where
  "put_fix rtype elem i =
     (\<lambda>d. if \<exists>x \<in> set (ds_pairs d). ds_nodes d ! snd x = ds_nodes d ! i
          then (Inl UnsupportedOperationException, d)
          else (Inr (), d\<lparr>ds_pairs := ds_pairs d @ [(fix_processor rtype elem (ds_nodes d ! i), i)]\<rparr>))"

definition fixDispatch :: "env \<Rightarrow> java_choices \<Rightarrow> (dstate, unit) comp" where
  "fixDispatch E J =
     mbind (mget ds_app) (\<lambda>a.
     mbind (mlift (eggs_option E a)) (\<lambda>eggs.
     mbind (mget (\<lambda>d. length (ds_nodes d))) (\<lambda>k.
     mbind (mfor (\<lambda>elem. mfor (\<lambda>i. mfor (\<lambda>_. put_fix (resourceType_option a) elem i) [0..<nat eggs]) [0..<k])
        (ra_processorTypes a)) (\<lambda>_.
     mupd (finish_dispatch J)))))"

definition dispatch_strategy :: "env \<Rightarrow> java_choices \<Rightarrow> string \<Rightarrow> (dstate, unit) comp" where
  "dispatch_strategy E J s =
     (if s = ''remain_most_first'' then remainMostFirstDispatch J
      else if s = ''random'' then randomDispatch J
      else if s = ''fix'' then fixDispatch E J
      else if s = ''single_node_first'' then singleNodeFirstDispatch J
      else mreturn ())"

section \<open>The dispatch thread\<close>

record dispatcher =
  dp_world :: world
  dp_queue :: "ResourceApplication list"
  dp_alive :: bool

definition on_world :: "(world, 'a) comp \<Rightarrow> (dispatcher, 'a) comp" where
  "on_world m = (\<lambda>d. case m (dp_world d) of (r, w) \<Rightarrow> (r, d\<lparr>dp_world := w\<rparr>))"

definition set_head :: "ResourceApplication \<Rightarrow> dispatcher \<Rightarrow> dispatcher" where
  "set_head a d = d\<lparr>dp_queue := (case dp_queue d of [] \<Rightarrow> [] | _ # q \<Rightarrow> a # q)\<rparr>"

definition drop_head :: "dispatcher \<Rightarrow> dispatcher" where
  "drop_head d = d\<lparr>dp_queue := tl (dp_queue d)\<rparr>"

text \<open>What one pass over the application at the head of the queue ends in.\<close>

datatype pass =
    Dropped ResourceApplication | Retry | Left_in_queue | Quit ResourceApplication | Dispatched ResourceApplication

text \<open>The dispatch proper, on the nodes read from the database; the application keeps what was changed in it.\<close>

definition run_strategy :: "env \<Rightarrow> java_choices \<Rightarrow> ErServerNode list \<Rightarrow> ResourceApplication \<Rightarrow> (dispatcher, dstate) comp" where
  "run_strategy E J nodes a =
     (\<lambda>d. case dispatch_strategy E J (ra_dispatchStrategy a) \<lparr>ds_nodes = nodes, ds_app = a, ds_pairs = []\<rparr> of
        (Inl e, s) \<Rightarrow> (Inl e, set_head (ds_app s) d)
      | (Inr _, s) \<Rightarrow> (Inr s, set_head (ds_app s) d))"

definition dispatched_session :: "ResourceApplication \<Rightarrow> ErSessionMeta" where
  "dispatched_session a =
     new_ErSessionMeta\<lparr>sm_id := ra_sessionId a, sm_name := ra_sessionName a,
       sm_processors := map fst (ra_resourceDispatch a),
       sm_totalProcCount := Some (int (length (ra_resourceDispatch a))), sm_status := Some ''NEW''\<rparr>"

fun node_of :: "ErServerNode list \<Rightarrow> ErProcessor list \<Rightarrow> exn + (ErProcessor \<times> ErServerNode) list" where
  "node_of nodes [] = Inr []"
| "node_of nodes (p # ps) =
     (case find (\<lambda>n. sn_id n = pr_serverNodeId p) nodes of
        None \<Rightarrow> Inl NullPointerException
      | Some n \<Rightarrow> (case node_of nodes ps of Inl e \<Rightarrow> Inl e | Inr r \<Rightarrow> Inr ((p, n) # r)))"

definition register_and_release :: "env \<Rightarrow> dstate \<Rightarrow> (dispatcher, pass) comp" where
  "register_and_release E s =
     mbind (on_world (registerWithResource E (dispatched_session (ds_app s)))) (\<lambda>r.
     mbind (mlift (node_of (ds_nodes s) (sm_processors r))) (\<lambda>pairs.
     let a = countDown ((ds_app s)\<lparr>ra_resourceDispatch := pairs\<rparr>) in
     mbind (mupd drop_head) (\<lambda>_. mreturn (Dispatched a))))"

definition dispatch_pass :: "env \<Rightarrow> java_choices \<Rightarrow> ResourceApplication \<Rightarrow> (dispatcher, pass) comp" where
  "dispatch_pass E J a =
     mbind (mget (\<lambda>d. getSessionMain (ra_sessionId a) (dp_world d))) (\<lambda>z.
       case z of
         None \<Rightarrow> mthrow NullPointerException
       | Some m \<Rightarrow>
         (case sm_status m of
            None \<Rightarrow> mthrow NullPointerException
          | Some st \<Rightarrow>
            if st \<noteq> ''WAITING_RESOURCE'' then mbind (mupd drop_head) (\<lambda>_. mreturn (Dropped (countDown a)))
            else if ra_waitingCount a = 0 then mbind (mupd drop_head) (\<lambda>_. mreturn (Dropped a))
            else
              mbind (mget (\<lambda>d. getServerNodesWithResource healthy_example (dp_world d))) (\<lambda>nodes.
              mbind (mlift (checkResourceEnough E J nodes a)) (\<lambda>(enough, a1).
              mbind (mupd (set_head a1)) (\<lambda>_.
              if \<not> enough \<and> ra_resourceExhaustedStrategy a1 = ''ignore'' then mreturn Left_in_queue
              else if \<not> enough \<and> ra_resourceExhaustedStrategy a1 = ''waiting'' then mreturn Retry
              else if \<not> enough \<and> ra_resourceExhaustedStrategy a1 = ''throw_error''
              then mbind (mupd drop_head) (\<lambda>_. mreturn (Quit (countDown (a1\<lparr>ra_status := 1\<rparr>))))
              else mbind (run_strategy E J nodes a1) (register_and_release E))))))"

text \<open>
  One pass of the thread: an exception is logged and the application stays at the head of the
  queue; the branch of the error strategy returns from the thread.
\<close>

definition dispatch_step :: "env \<Rightarrow> java_choices \<Rightarrow> dispatcher \<Rightarrow> dispatcher" where
  "dispatch_step E J d =
     (if \<not> dp_alive d then d
      else case dp_queue d of
        [] \<Rightarrow> d
      | a # _ \<Rightarrow> (case dispatch_pass E J a d of
            (Inr (Quit _), d') \<Rightarrow> d'\<lparr>dp_alive := False\<rparr>
          | (_, d') \<Rightarrow> d'))"

definition waiting_session :: "ResourceApplication \<Rightarrow> ErSessionMeta" where
  "waiting_session a = new_ErSessionMeta\<lparr>sm_id := ra_sessionId a, sm_name := ra_sessionName a,
     sm_status := Some ''WAITING_RESOURCE''\<rparr>"

text \<open>\<open>put\<close> blocks while a hundred applications wait; the request below is served when there is room.\<close>

definition submitResourceRequest :: "env \<Rightarrow> ResourceApplication \<Rightarrow> (dispatcher, unit) comp" where
  "submitResourceRequest E a =
     mbind (on_world (in_context new_Context (session_changeStatus E (waiting_session a) None ''WAITING_RESOURCE''))) (\<lambda>_.
     mupd (\<lambda>d. d\<lparr>dp_queue := dp_queue d @ [a]\<rparr>))"

section \<open>GPU indices\<close>

lemma find_upt_Some:
  "find P [0..<k] = Some i \<longleftrightarrow> i < k \<and> P i \<and> (\<forall>j < i. \<not> P j)"
  by (auto simp: find_Some_iff)

lemma getNextGpuIndex_cases:
  obtains (free) i where "i < nat sz" "string_of_int (int i) \<notin> set xs"
      "\<forall>j < i. string_of_int (int j) \<in> set xs" "getNextGpuIndex sz xs = int i"
    | (full) "\<forall>i < nat sz. string_of_int (int i) \<in> set xs" "getNextGpuIndex sz xs = -1"
proof (cases "find (\<lambda>i. string_of_int (int i) \<notin> set xs) [0..<nat sz]")
  case None
  then have "\<forall>i < nat sz. string_of_int (int i) \<in> set xs" by (auto simp: find_None_iff)
  moreover have "getNextGpuIndex sz xs = -1" using None by (simp add: getNextGpuIndex_def)
  ultimately show thesis by (rule full)
next
  case (Some i)
  then have "getNextGpuIndex sz xs = int i" by (simp add: getNextGpuIndex_def)
  with Some show thesis by (intro free[of i]) (auto simp: find_upt_Some)
qed

lemma extention_list_join:
  "extention_list (Some (java_join CHR '','' (extention_list e @ [string_of_int k]))) = extention_list e @ [string_of_int k]"
proof -
  have "CHR '','' \<notin> set p" if "p \<in> set (extention_list e @ [string_of_int k])" for p
    using that by (auto simp: extention_list_def split: option.splits dest: java_split_sep_free)
  then show ?thesis
    unfolding extention_list_def[of "Some _"] by (simp add: java_split_join del: set_append)
qed

lemma update_first_find:
  "find P xs = Some g \<Longrightarrow> P (f g) \<Longrightarrow> find P (update_first P f xs) = Some (f g)"
  by (induction xs) (auto split: if_splits)

text \<open>The GPU entry of a node, and the indices it lists as taken.\<close>

definition gpu_of :: "ErServerNode \<Rightarrow> ErResource option" where
  "gpu_of n = find is_gpu (sn_resources n)"

definition taken :: "ErServerNode \<Rightarrow> string list" where
  "taken n = (case gpu_of n of None \<Rightarrow> [] | Some g \<Rightarrow> extention_list (res_extention g))"

definition gpu_total :: "ErServerNode \<Rightarrow> int" where
  "gpu_total n = (case gpu_of n of None \<Rightarrow> 0 | Some g \<Rightarrow> res_total g)"

lemma taken_add:
  assumes "gpu_of n = Some g"
  shows "taken (n\<lparr>sn_resources := update_first is_gpu (add_extention k) (sn_resources n)\<rparr>) = taken n @ [string_of_int k]"
    and "gpu_total (n\<lparr>sn_resources := update_first is_gpu (add_extention k) (sn_resources n)\<rparr>) = gpu_total n"
    and "gpu_of (n\<lparr>sn_resources := update_first is_gpu (add_extention k) (sn_resources n)\<rparr>) = Some (add_extention k g)"
proof -
  have g: "is_gpu g" using assms by (auto simp: gpu_of_def find_Some_iff)
  then show f: "gpu_of (n\<lparr>sn_resources := update_first is_gpu (add_extention k) (sn_resources n)\<rparr>) = Some (add_extention k g)"
    using assms by (simp add: gpu_of_def update_first_find add_extention_def Let_def is_gpu_def)
  show "taken (n\<lparr>sn_resources := update_first is_gpu (add_extention k) (sn_resources n)\<rparr>) = taken n @ [string_of_int k]"
    using assms by (simp add: taken_def f add_extention_def Let_def extention_list_join)
  show "gpu_total (n\<lparr>sn_resources := update_first is_gpu (add_extention k) (sn_resources n)\<rparr>) = gpu_total n"
    using assms by (simp add: gpu_total_def f add_extention_def Let_def)
qed

text \<open>
  The indices handed out by one assignment: with enough free ones they are all different, in
  range, and none of them was taken.
\<close>

definition free_gpus :: "ErServerNode \<Rightarrow> nat set" where
  "free_gpus n = {i. i < nat (gpu_total n) \<and> string_of_int (int i) \<notin> set (taken n)}"

lemma finite_free_gpus [simp]: "finite (free_gpus n)"
  by (simp add: free_gpus_def)

lemma next_index_free:
  assumes "gpu_of n = Some g" and "free_gpus n \<noteq> {}"
  obtains i where "i \<in> free_gpus n"
    "getNextGpuIndex (res_total g) (extention_list (res_extention g)) = int i"
  by (rule getNextGpuIndex_cases[of "res_total g" "extention_list (res_extention g)"])
     (use assms that in \<open>auto simp: free_gpus_def taken_def gpu_total_def\<close>)

lemma string_of_int_nat: "string_of_int (int i) = string_of_nat i"
  by (simp add: string_of_int_def)

lemma free_gpus_add:
  assumes "gpu_of n = Some g"
  shows "free_gpus (n\<lparr>sn_resources := update_first is_gpu (add_extention (int k)) (sn_resources n)\<rparr>) = free_gpus n - {k}"
  by (auto simp: free_gpus_def taken_add[OF assms] string_of_int_nat)

lemma assign_resources_gpu:
  assumes "gpu_of n = Some g" and "length (filter is_gpu rs) \<le> card (free_gpus n)"
    and "assign_resources rs n i = (rs', n', j)"
  shows "\<exists>ks. map res_extention (filter is_gpu rs') = map (\<lambda>k. Some (string_of_nat k)) ks \<and>
    distinct ks \<and> set ks \<subseteq> free_gpus n \<and> length ks = length (filter is_gpu rs) \<and>
    taken n' = taken n @ map string_of_nat ks \<and> free_gpus n' = free_gpus n - set ks"
  using assms
proof (induction rs arbitrary: n g i rs' n' j)
  case (Cons r rs)
  show ?case
  proof (cases "is_gpu r")
    case True
    have ne: "free_gpus n \<noteq> {}" using Cons.prems(2) True by auto
    obtain k where k: "k \<in> free_gpus n"
      "getNextGpuIndex (res_total g) (extention_list (res_extention g)) = int k"
      using next_index_free[OF Cons.prems(1) ne] .
    define n1 where "n1 = n\<lparr>sn_resources := update_first is_gpu (add_extention (int k)) (sn_resources n)\<rparr>"
    obtain rs1 n2 j1 where a: "assign_resources rs n1 (int k) = (rs1, n2, j1)" by (cases "assign_resources rs n1 (int k)")
    have rs': "rs' = r\<lparr>res_extention := Some (string_of_int (int k))\<rparr> # rs1" "n' = n2"
      using Cons.prems(1,3) True a by (simp_all add: gpu_of_def k(2) Let_def n1_def)
    have f: "free_gpus n1 = free_gpus n - {k}"
      unfolding n1_def by (rule free_gpus_add[OF Cons.prems(1)])
    have "length (filter is_gpu rs) \<le> card (free_gpus n1)"
      using Cons.prems(2) True k(1) by (simp add: f)
    from Cons.IH[OF taken_add(3)[OF Cons.prems(1), of "int k", folded n1_def] this a]
    obtain ks where ks: "map res_extention (filter is_gpu rs1) = map (\<lambda>k. Some (string_of_nat k)) ks"
      "distinct ks" "set ks \<subseteq> free_gpus n - {k}" "length ks = length (filter is_gpu rs)"
      "taken n2 = taken n1 @ map string_of_nat ks" "free_gpus n2 = free_gpus n - {k} - set ks"
      by (auto simp: f)
    have t: "taken n1 = taken n @ [string_of_nat k]"
      using taken_add(1)[OF Cons.prems(1), of "int k"] by (simp add: n1_def string_of_int_nat)
    have "is_gpu (r\<lparr>res_extention := Some (string_of_int (int k))\<rparr>)" using True by (simp add: is_gpu_def)
    then show ?thesis
      using ks k(1) t True by (intro exI[of _ "k # ks"]) (auto simp: rs' string_of_int_nat)
  next
    case False
    then obtain rs1 where a: "assign_resources rs n i = (rs1, n', j)" "rs' = r # rs1"
      using Cons.prems(3) by (auto split: prod.splits)
    with Cons.IH[OF Cons.prems(1) _ a(1)] Cons.prems(2) False show ?thesis by simp
  qed
qed (auto simp: taken_def free_gpus_def)

section \<open>Placing on single nodes first\<close>

lemma put_processor_fields [simp]:
  "length (ds_nodes (put_processor index i d)) = length (ds_nodes d)"
  "length (ra_processors (ds_app (put_processor index i d))) = length (ra_processors (ds_app d))"
  "map snd (ds_pairs (put_processor index i d)) = map snd (ds_pairs d) @ [i]"
  "ra_resourceDispatch (ds_app (put_processor index i d)) = ra_resourceDispatch (ds_app d)"
  by (simp_all add: put_processor_def split: prod.split)

lemma singleNode_loop_run:
  assumes "\<forall>k \<in> set ks. k < length nodes"
  shows "\<exists>d'. singleNode_loop nodes ks d = (Inr (), d') \<and>
    map snd (ds_pairs d') = map snd (ds_pairs d) @ map (\<lambda>k. nodes ! k) ks \<and>
    length (ds_nodes d') = length (ds_nodes d)"
  using assms
proof (induction ks arbitrary: d)
  case (Cons k ks)
  from Cons.IH[of "put_processor k (nodes ! k) d"] Cons.prems show ?case
    by (auto simp: mbind_upd)
qed simp

lemma singleNode_loop_fails:
  assumes "k \<in> set ks" "\<not> k < length nodes"
  shows "fst (singleNode_loop nodes ks d) = Inl IndexOutOfBoundsException"
  using assms
  by (induction ks arbitrary: d) (auto simp: mbind_upd)

lemma count_concat_replicate:
  assumes "distinct is"
  shows "count (mset (concat (map (\<lambda>i. replicate (f i) i) is))) x = (if x \<in> set is then f x else 0)"
  using assms by (induction "is") auto

lemma count_sortNodeList:
  "i < length (ds_nodes d) \<Longrightarrow> count (mset (sortNodeList d)) i = nat (node_key d i)"
  unfolding sortNodeList_def by (subst count_concat_replicate) simp_all

lemma count_take_le: "count (mset (take k xs)) x \<le> count (mset xs) x"
  by (metis append_take_drop_id count_union le_add1 mset_append)

section \<open>Sums behind the maps\<close>

lemma map_of_add_to:
  "map_of (add_to k v m) = (map_of m)(k \<mapsto> get_or 0 k m + v)"
  by (simp add: add_to_def get_or_def update_conv')

lemma get_or_add_to:
  "get_or 0 t (add_to k v m) = get_or 0 t m + (if t = k then v else 0)"
  by (simp add: get_or_def map_of_add_to)

lemma dom_add_to: "dom (map_of (add_to k v m)) = insert k (dom (map_of m))"
  by (simp add: map_of_add_to)

lemma distinct_add_to: "distinct (map fst m) \<Longrightarrow> distinct (map fst (add_to k v m))"
  by (simp add: add_to_def distinct_update)

lemma fold_add_to:
  "get_or 0 t (fold (\<lambda>x. add_to (k x) (v x)) xs m) = get_or 0 t m + sum_list (map v (filter (\<lambda>x. k x = t) xs))"
  by (induction xs arbitrary: m) (auto simp: get_or_add_to)

lemma dom_fold_add_to:
  "dom (map_of (fold (\<lambda>x. add_to (k x) (v x)) xs m)) = k ` set xs \<union> dom (map_of m)"
  by (induction xs arbitrary: m) (auto simp: dom_add_to)

lemma distinct_fold_add_to:
  "distinct (map fst m) \<Longrightarrow> distinct (map fst (fold (\<lambda>x. add_to (k x) (v x)) xs m))"
  by (induction xs arbitrary: m) (auto simp: distinct_add_to)

text \<open>What the nodes have left of a type, what they have in all, and what is requested.\<close>

definition resources_of :: "string \<Rightarrow> ErServerNode list \<Rightarrow> ErResource list" where
  "resources_of t nodes = filter (\<lambda>r. res_resourceType r = t) (concat (map sn_resources nodes))"

definition remaining :: "string \<Rightarrow> ErServerNode list \<Rightarrow> int" where
  "remaining t nodes = sum_list (map getUnAllocatedResource (resources_of t nodes))"

definition capacity :: "string \<Rightarrow> ErServerNode list \<Rightarrow> int" where
  "capacity t nodes = sum_list (map res_total (resources_of t nodes))"

definition demand :: "string \<Rightarrow> ErProcessor list \<Rightarrow> int" where
  "demand t ps = sum_list (map res_allocated (filter (\<lambda>r. res_resourceType r = t) (concat (map pr_resources ps))))"

definition demanded :: "ErProcessor list \<Rightarrow> string set" where
  "demanded ps = res_resourceType ` set (concat (map pr_resources ps))"

lemma update_fresh: "k \<notin> fst ` set m \<Longrightarrow> AList.update k v m = m @ [(k, v)]"
  by (induction m) auto

lemma nodeRemain_distinct:
  assumes "distinct (map sn_id nodes)" and "sn_id ` set nodes \<inter> fst ` set m = {}"
  shows "fold (\<lambda>n m. AList.update (sn_id n)
       (node_remain (sn_resources n) (case map_of m (sn_id n) of None \<Rightarrow> [] | Some t \<Rightarrow> t)) m) nodes m
    = m @ map (\<lambda>n. (sn_id n, node_remain (sn_resources n) [])) nodes"
  using assms
proof (induction nodes arbitrary: m)
  case (Cons n nodes)
  have fresh: "sn_id n \<notin> fst ` set m" using Cons.prems(2) by auto
  then have none: "map_of m (sn_id n) = None" by (simp add: map_of_eq_None_iff)
  have "distinct (map sn_id nodes)" "sn_id ` set nodes \<inter> fst ` set (m @ [(sn_id n, v)]) = {}" for v
    using Cons.prems by auto
  from Cons.IH[OF this] show ?case by (simp add: none update_fresh[OF fresh])
qed simp

lemma get_or_distinct:
  assumes "distinct (map fst v)"
  shows "sum_list (map snd (filter (\<lambda>x. fst x = t) v)) = get_or 0 t v"
proof -
  have "t \<notin> fst ` set v \<Longrightarrow> filter (\<lambda>x. fst x = t) v = []" for v :: "(string \<times> int) list"
    by (auto simp: filter_empty_conv)
  with assms show ?thesis by (induction v) (auto simp: get_or_def)
qed

lemma fold_entries:
  assumes "\<forall>v \<in> set vs. distinct (map fst v)"
  shows "get_or 0 t (fold (\<lambda>v m. fold (\<lambda>x. add_to (fst x) (snd x)) v m) vs m) =
    get_or 0 t m + sum_list (map (get_or 0 t) vs)"
  using assms by (induction vs arbitrary: m) (auto simp: fold_add_to get_or_distinct)

lemma dom_fold_entries:
  "dom (map_of (fold (\<lambda>v m. fold (\<lambda>x. add_to (fst x) (snd x)) v m) vs m)) =
   (\<Union>v \<in> set vs. dom (map_of v)) \<union> dom (map_of m)"
  by (induction vs arbitrary: m)
     (simp_all add: dom_fold_add_to dom_map_of_conv_image_fst[symmetric] Un_assoc Un_left_commute)

lemma node_remain_props:
  "get_or 0 t (node_remain rs []) = sum_list (map getUnAllocatedResource (filter (\<lambda>r. res_resourceType r = t) rs))"
  "dom (map_of (node_remain rs [])) = res_resourceType ` set rs"
  "distinct (map fst (node_remain rs []))"
  by (simp_all add: node_remain_def fold_add_to dom_fold_add_to distinct_fold_add_to) (simp_all add: get_or_def)

lemma sum_list_concat_map: "sum_list (concat (map f xs)) = sum_list (map (\<lambda>x. sum_list (f x)) xs)"
  by (induction xs) (auto simp: sum_list_append)

lemma remaining_by_node:
  "remaining t nodes = sum_list (map (\<lambda>n. sum_list (map getUnAllocatedResource
     (filter (\<lambda>r. res_resourceType r = t) (sn_resources n)))) nodes)"
  by (simp add: remaining_def resources_of_def filter_concat map_concat sum_list_concat_map comp_def)

lemma globalRemain_props:
  assumes "distinct (map sn_id nodes)"
  shows "get_or 0 t (globalRemainResourceMap nodes) = remaining t nodes"
    and "dom (map_of (globalRemainResourceMap nodes)) = {t. resources_of t nodes \<noteq> []}"
proof -
  let ?vs = "map (\<lambda>n. node_remain (sn_resources n) []) nodes"
  have m: "nodeRemainResourceMap nodes = map (\<lambda>n. (sn_id n, node_remain (sn_resources n) [])) nodes"
    using nodeRemain_distinct[OF assms, of "[]"] by (simp add: nodeRemainResourceMap_def)
  have g: "globalRemainResourceMap nodes = fold (\<lambda>v m. fold (\<lambda>x. add_to (fst x) (snd x)) v m) ?vs []"
    by (simp add: globalRemainResourceMap_def m fold_map comp_def case_prod_beta')
  show "get_or 0 t (globalRemainResourceMap nodes) = remaining t nodes"
    by (simp add: g fold_entries node_remain_props remaining_by_node comp_def) (simp add: get_or_def)
  show "dom (map_of (globalRemainResourceMap nodes)) = {t. resources_of t nodes \<noteq> []}"
    by (auto simp: g dom_fold_entries node_remain_props resources_of_def filter_empty_conv)
qed

lemma fold_fold_concat: "fold (\<lambda>n. fold f (g n)) ns m = fold f (concat (map g ns)) m"
  by (induction ns arbitrary: m) auto

lemma globalMax_props:
  "get_or 0 t (globalMaxResourceMap nodes) = capacity t nodes"
  "dom (map_of (globalMaxResourceMap nodes)) = {t. resources_of t nodes \<noteq> []}"
  unfolding globalMaxResourceMap_def fold_fold_concat
  by (simp_all add: fold_add_to dom_fold_add_to capacity_def resources_of_def)
     (auto simp: get_or_def filter_empty_conv)

lemma request_props:
  "(t, v) \<in> set (requestResourceMap ps) \<longleftrightarrow> t \<in> demanded ps \<and> v = demand t ps"
proof -
  have d: "distinct (map fst (requestResourceMap ps))"
    unfolding requestResourceMap_def by (rule distinct_fold_add_to) simp
  have dm: "dom (map_of (requestResourceMap ps)) = demanded ps"
    by (simp add: requestResourceMap_def dom_fold_add_to demanded_def)
  have "get_or 0 t (requestResourceMap ps) = demand t ps"
    unfolding requestResourceMap_def by (simp add: fold_add_to demand_def) (simp add: get_or_def)
  then have "map_of (requestResourceMap ps) t = Some v \<longleftrightarrow> t \<in> demanded ps \<and> v = demand t ps"
    by (auto simp: dm[symmetric] get_or_def split: option.splits)
  with d show ?thesis by simp
qed

lemma get_or_default: "get_or d k m = (if k \<in> dom (map_of m) then get_or 0 k m else d)"
  by (auto simp: get_or_def split: option.splits)

lemma check_requests_iff:
  "fst (check_requests remain mx rs) \<longleftrightarrow>
   (\<forall>(k, v) \<in> set rs. v \<le> get_or (-1) k mx \<and> v \<le> get_or (-1) k remain \<and> intValue (get_or (-1) k remain) > -1)"
  by (induction remain mx rs rule: check_requests.induct) auto

text \<open>The declarative meaning of the check.\<close>

definition enough_for :: "ErServerNode list \<Rightarrow> ErProcessor list \<Rightarrow> bool" where
  "enough_for nodes ps \<longleftrightarrow> (\<forall>t \<in> demanded ps. resources_of t nodes \<noteq> [] \<and>
     demand t ps \<le> capacity t nodes \<and> demand t ps \<le> remaining t nodes \<and> intValue (remaining t nodes) \<ge> 0)"

lemma check_requests_enough:
  assumes "distinct (map sn_id nodes)" and "set rs = set (requestResourceMap ps)"
  shows "fst (check_requests (globalRemainResourceMap nodes) (globalMaxResourceMap nodes) rs) \<longleftrightarrow> enough_for nodes ps"
proof -
  have m: "intValue (-1) = -1" by (rule intValue_id) (simp add: int_range_def)
  have "get_or (-1) t (globalRemainResourceMap nodes) = (if resources_of t nodes \<noteq> [] then remaining t nodes else -1)"
    "get_or (-1) t (globalMaxResourceMap nodes) = (if resources_of t nodes \<noteq> [] then capacity t nodes else -1)" for t
    by (subst get_or_default, simp add: globalRemain_props[OF assms(1)] globalMax_props)+
  moreover have "(\<forall>(k, v) \<in> set rs. P k v) \<longleftrightarrow> (\<forall>t \<in> demanded ps. P t (demand t ps))" for P
    by (auto simp: assms(2) request_props)
  ultimately show ?thesis unfolding check_requests_iff enough_for_def
    by (intro ball_cong iffI conjI) (auto simp: m split: if_splits)
qed

section \<open>Keys of the nodes during a dispatch\<close>

lemma find_update_first:
  assumes "\<And>x. Q (f x) = Q x" and "\<And>x. g (f x) = g x"
  shows "map_option g (find Q (update_first P f xs)) = map_option g (find Q xs)"
  by (induction xs) (use assms in auto)

lemma first_add_extention [simp]:
  "getFirstUnAllocatedResource t (n\<lparr>sn_resources := update_first is_gpu (add_extention k) (sn_resources n)\<rparr>) =
   getFirstUnAllocatedResource t n"
proof -
  have "map_option getUnAllocatedResource (find (\<lambda>r. res_resourceType r = t) (update_first is_gpu (add_extention k) (sn_resources n)))
      = map_option getUnAllocatedResource (find (\<lambda>r. res_resourceType r = t) (sn_resources n))"
    by (rule find_update_first) (simp_all add: add_extention_def Let_def getUnAllocatedResource_def)
  then show ?thesis
    unfolding getFirstUnAllocatedResource_def by (auto split: option.splits)
qed

lemma first_assign:
  "assign_resources rs n i = (rs', n', j) \<Longrightarrow> getFirstUnAllocatedResource t n' = getFirstUnAllocatedResource t n"
  by (induction rs arbitrary: n i rs' n' j) (auto simp: Let_def split: option.splits prod.splits if_splits)

lemma node_key_put [simp]:
  assumes "i < length (ds_nodes d)"
  shows "node_key (put_processor index i d) k = node_key d k"
  using assms
  by (cases "i = k") (auto simp: node_key_def put_processor_def place_processor_def nth_list_update
      dest: first_assign split: prod.splits)

section \<open>Remaining most first\<close>

lemma last_sorted_key:
  assumes "sorted (map f xs)" and "x \<in> set xs"
  shows "f x \<le> f (last xs)"
  using assms by (induction xs) auto

text \<open>After the first processor the list of nodes is sorted from most to least, and its last node is taken.\<close>

lemma remainMost_loop_least:
  assumes "order \<noteq> []" and "\<forall>i \<in> set order. i < length (ds_nodes d)"
    and "sorted (map (\<lambda>i. - node_key d i) order)"
  shows "\<exists>d' js. remainMost_loop order ks d = (Inr (), d') \<and> map snd (ds_pairs d') = map snd (ds_pairs d) @ js \<and>
    length js = length ks \<and> (\<forall>j \<in> set js. j \<in> set order \<and> (\<forall>i \<in> set order. node_key d j \<le> node_key d i))"
  using assms
proof (induction ks arbitrary: d order)
  case (Cons k ks)
  let ?d = "put_processor k (last order) d"
  let ?order = "if pr_resources (ra_processors (ds_app d) ! k) = [] then order else sort_key (\<lambda>i. - node_key d i) order"
  have lst: "last order \<in> set order" using Cons.prems(1) by simp
  have len: "last order < length (ds_nodes d)" using lst Cons.prems(2) by blast
  have set_o: "set ?order = set order" by simp
  have ne: "?order \<noteq> []" using Cons.prems(1) set_o by (metis set_empty)
  have srt: "sorted (map (\<lambda>i. - node_key ?d i) ?order)" using Cons.prems(3) len by simp
  obtain d' js where run: "remainMost_loop ?order ks ?d = (Inr (), d')" "map snd (ds_pairs d') = map snd (ds_pairs ?d) @ js"
    "length js = length ks" "\<forall>j \<in> set js. j \<in> set order \<and> (\<forall>i \<in> set order. node_key d j \<le> node_key d i)"
    using Cons.IH[OF ne _ srt] Cons.prems(2) len by (auto simp: set_o)
  have "\<forall>i \<in> set order. node_key d (last order) \<le> node_key d i"
    using last_sorted_key[OF Cons.prems(3)] by fastforce
  moreover have "remainMost_loop order (k # ks) d = (Inr (), d')"
    using Cons.prems(1) run(1) by (simp add: mbind_def)
  ultimately show ?case
    using run lst by (intro exI[of _ d'] exI[of _ "last order # js"]) auto
qed simp

section \<open>Enough resources suffice for the single node strategy\<close>







section \<open>Properties\<close>

text \<open>\<open>getNextGpuIndex\<close> returns the smallest index below the size that is not among the allocated
  ones, and -1 exactly when every index is allocated.\<close>

theorem next_gpu_index_least:
  "getNextGpuIndex sz xs =
     (if \<exists>i < nat sz. string_of_int (int i) \<notin> set xs
      then int (LEAST i. i < nat sz \<and> string_of_int (int i) \<notin> set xs) else -1)"
proof (rule getNextGpuIndex_cases[of sz xs])
  fix i assume i: "i < nat sz" "string_of_int (int i) \<notin> set xs" "\<forall>j < i. string_of_int (int j) \<in> set xs"
    and r: "getNextGpuIndex sz xs = int i"
  have "(LEAST i. i < nat sz \<and> string_of_int (int i) \<notin> set xs) = i"
    by (rule Least_equality) (use i in \<open>auto simp: not_less[symmetric]\<close>)
  with i r show ?thesis by auto
qed auto

text \<open>When a node has at least as many free GPUs as a processor asks for, placing the processor
  gives each of its GPU requests an index of its own, all of them free before, and the node
  lists exactly these as newly taken.\<close>

theorem place_processor_gpus:
  assumes "gpu_of n = Some g" and "length (filter is_gpu (pr_resources p)) \<le> card (free_gpus n)"
    and "place_processor p n = (p', n')"
  shows "\<exists>ks. map res_extention (filter is_gpu (pr_resources p')) = map (\<lambda>k. Some (string_of_nat k)) ks \<and>
    distinct ks \<and> set ks \<subseteq> free_gpus n \<and> taken n' = taken n @ map string_of_nat ks \<and>
    free_gpus n' = free_gpus n - set ks \<and> pr_serverNodeId p' = sn_id n"
proof -
  obtain rs k where a: "assign_resources (pr_resources p) n (-1) = (rs, n', k)"
    and p': "pr_resources p' = rs" "pr_serverNodeId p' = sn_id n"
    using assms(3) by (auto simp: place_processor_def split: prod.splits)
  from assign_resources_gpu[OF assms(1,2) a] show ?thesis by (auto simp: p')
qed

text \<open>the single-node-first strategy never puts more processors on a node than the node has units
  of the sorting resource left, and it places every processor of the application.\<close>

theorem single_node_first_capacity:
  assumes "singleNodeFirstDispatch J d = (Inr (), d')" and "ds_pairs d = []" and "i < length (ds_nodes d)"
  shows "count (mset (map snd (ds_pairs d'))) i \<le> nat (node_key d i) \<and>
    length (ds_pairs d') = length (ra_processors (ds_app d))"
proof -
  let ?m = "length (ra_processors (ds_app d))" and ?nodes = "sortNodeList d"
  have chk: "first_resource_check d = (Inr (), d)"
    using assms(1) by (auto simp: singleNodeFirstDispatch_def first_resource_check_def mbind_def split: if_splits)
  have ok: "\<forall>k \<in> set [0..<?m]. k < length ?nodes"
  proof (rule ccontr)
    assume "\<not> ?thesis"
    then obtain k where "k \<in> set [0..<?m]" "\<not> k < length ?nodes" by blast
    from singleNode_loop_fails[OF this, of d] assms(1) chk show False
      by (auto simp: singleNodeFirstDispatch_def mbind_def split: prod.splits sum.splits)
  qed
  obtain d1 where d1: "singleNode_loop ?nodes [0..<?m] d = (Inr (), d1)"
    "map snd (ds_pairs d1) = map (\<lambda>k. ?nodes ! k) [0..<?m]"
    using singleNode_loop_run[OF ok, of d] assms(2) by auto
  have "d' = finish_dispatch J d1"
    using assms(1) chk d1(1) by (simp add: singleNodeFirstDispatch_def mbind_def)
  then have p: "map snd (ds_pairs d') = map (\<lambda>k. ?nodes ! k) [0..<?m]" by (simp add: finish_dispatch_def d1(2))
  have "?m \<le> length ?nodes" using ok by (cases ?m) auto
  then have "map (\<lambda>k. ?nodes ! k) [0..<?m] = take ?m ?nodes" by (intro nth_equalityI) simp_all
  with p have "mset (map snd (ds_pairs d')) = mset (take ?m ?nodes)" by simp
  moreover have "length (ds_pairs d') = ?m" using arg_cong[OF p, of length] by simp
  ultimately show ?thesis
    using count_take_le[of ?m ?nodes i] count_sortNodeList[OF assms(3)] by simp
qed

text \<open>for every strategy but the fixed one, the check of an application that may not exhaust the
  cluster answers yes exactly when every requested type exists and its demand fits both what
  the nodes have in all and what they have left, the latter read as a 32-bit integer.\<close>

theorem check_resource_enough_iff:
  assumes "choices_ok J" and "distinct (map sn_id nodes)" and "\<not> ra_allowExhausted a" and "ra_dispatchStrategy a \<noteq> ''fix''"
  shows "\<exists>a'. checkResourceEnough E J nodes a = Inr (enough_for nodes (ra_processors a), a') \<and>
    ra_processors a' = ra_processors a"
proof -
  let ?rs = "entry_order J (requestResourceMap (ra_processors a))"
  have "set ?rs = set (requestResourceMap (ra_processors a))"
    using assms(1) unfolding choices_ok_def by (metis set_mset_mset)
  from check_requests_enough[OF assms(2) this] show ?thesis
    using assms(3,4)
    by (cases "check_requests (globalRemainResourceMap nodes) (globalMaxResourceMap nodes) ?rs")
       (auto simp: checkResourceEnough_def)
qed


text \<open>the strategy named remain-most-first puts the first processor on a node with the most units
  left, but every later one on a node with the least: the list is re-sorted the other way round
  after the first processor that has a resource.\<close>

theorem remain_most_first_order:
  assumes "ds_nodes d \<noteq> []" and "\<forall>n \<in> set (ds_nodes d). sn_resources n \<noteq> []" and "ds_pairs d = []"
    and "ra_processors (ds_app d) \<noteq> []" and "pr_resources (ra_processors (ds_app d) ! 0) \<noteq> []"
  shows "\<exists>d' i js. remainMostFirstDispatch J d = (Inr (), d') \<and> map snd (ds_pairs d') = i # js \<and>
    (\<forall>k < length (ds_nodes d). node_key d k \<le> node_key d i) \<and>
    (\<forall>j \<in> set js. \<forall>k < length (ds_nodes d). node_key d j \<le> node_key d k)"
proof -
  define order where "order = sort_key (node_key d) [0..<length (ds_nodes d)]"
  define order' where "order' = sort_key (\<lambda>i. - node_key d i) order"
  have set_o: "set order = {..<length (ds_nodes d)}" "set order' = {..<length (ds_nodes d)}"
    by (auto simp: order_def order'_def)
  have ne: "order \<noteq> []" "order' \<noteq> []" using assms(1) set_o by (metis lessThan_iff length_greater_0_conv set_empty emptyE)+
  have "last order \<in> set order" using ne(1) by simp
  then have lst: "last order < length (ds_nodes d)" by (simp add: set_o)
  obtain m where m: "[0..<length (ra_processors (ds_app d))] = 0 # [1..<m]" "length (ra_processors (ds_app d)) = m"
    using assms(4) upt_conv_Cons[of 0 "length (ra_processors (ds_app d))"] by auto
  let ?d = "put_processor 0 (last order) d"
  have srt: "sorted (map (\<lambda>i. - node_key ?d i) order')" using lst by (simp add: order'_def)
  obtain d1 js where d1: "remainMost_loop order' [1..<m] ?d = (Inr (), d1)" "map snd (ds_pairs d1) = map snd (ds_pairs ?d) @ js"
    "\<forall>j \<in> set js. \<forall>i \<in> set order'. node_key d j \<le> node_key d i"
    using remainMost_loop_least[OF ne(2) _ srt, of "[1..<m]"] lst by (auto simp: set_o)
  have loop: "remainMost_loop order [0..<length (ra_processors (ds_app d))] d = (Inr (), d1)"
    unfolding m(1) using ne(1) d1(1) assms(5) by (simp add: mbind_def order'_def)
  have "remainMostFirstDispatch J d = (Inr (), finish_dispatch J d1)"
    using assms(2) by (simp add: remainMostFirstDispatch_def first_resource_check_def mbind_def list_all_iff
        order_def[symmetric] loop)
  moreover have "map snd (ds_pairs (finish_dispatch J d1)) = last order # js"
    using d1(2) assms(3) by (simp add: finish_dispatch_def)
  moreover have "\<forall>k < length (ds_nodes d). node_key d k \<le> node_key d (last order)"
    using last_sorted_key[of "node_key d" order] by (simp add: set_o) (simp add: order_def)
  ultimately show ?thesis using d1(3) by (auto simp: set_o)
qed

text \<open>an application that is short of resources under the error strategy is removed with status 1 and
  its latch released, and the dispatch thread ends with it: no later pass changes anything.\<close>

theorem throw_error_ends_dispatch:
  assumes "dp_alive d" and "dp_queue d = a # q"
    and "getSessionMain (ra_sessionId a) (dp_world d) = Some m" and "sm_status m = Some ''WAITING_RESOURCE''"
    and "ra_waitingCount a \<noteq> 0"
    and "checkResourceEnough E J (getServerNodesWithResource healthy_example (dp_world d)) a = Inr (False, a')"
    and "ra_resourceExhaustedStrategy a' = ''throw_error''"
  shows "dispatch_step E J d = d\<lparr>dp_queue := q, dp_alive := False\<rparr> \<and>
    dispatch_step E' J' (dispatch_step E J d) = dispatch_step E J d"
proof -
  have "dispatch_pass E J a d = (Inr (Quit (countDown (a'\<lparr>ra_status := 1\<rparr>))), drop_head (set_head a' d))"
    using assms(3-7) by (simp add: dispatch_pass_def mbind_def)
  with assms(1,2) have "dispatch_step E J d = d\<lparr>dp_queue := q, dp_alive := False\<rparr>"
    by (simp add: dispatch_step_def drop_head_def set_head_def)
  then show ?thesis by (simp add: dispatch_step_def)
qed

lemma random_loop_fails: "length sh < length ks \<Longrightarrow> fst (random_loop sh ks d) = Inl IndexOutOfBoundsException"
  by (induction sh ks arbitrary: d rule: random_loop.induct) (auto simp: mbind_upd split: list.splits)

lemma random_loop_run:
  "length ks \<le> length sh \<Longrightarrow> \<exists>d'. random_loop sh ks d = (Inr (), d') \<and>
     map snd (ds_pairs d') = map snd (ds_pairs d) @ take (length ks) sh"
proof (induction sh ks arbitrary: d rule: random_loop.induct)
  case (2 sh index rest)
  then obtain i sh' where sh: "sh = i # sh'" by (cases sh) auto
  from 2(1)[OF sh, of "put_random index i d"] 2(2) show ?case
    by (auto simp: sh mbind_upd put_random_def Let_def)
qed simp

text \<open>The random strategy puts the processors on pairwise different nodes, and it throws exactly when
  an application has more processors than there are nodes.\<close>

theorem random_dispatch_distinct:
  assumes "choices_ok J" and "ds_pairs d = []"
  shows "if length (ra_processors (ds_app d)) \<le> length (ds_nodes d)
    then \<exists>d'. randomDispatch J d = (Inr (), d') \<and> distinct (map snd (ds_pairs d')) \<and>
      length (ds_pairs d') = length (ra_processors (ds_app d))
    else fst (randomDispatch J d) = Inl IndexOutOfBoundsException"
proof -
  let ?sh = "shuffle J [0..<length (ds_nodes d)]" and ?ks = "[0..<length (ra_processors (ds_app d))]"
  have m: "mset ?sh = mset [0..<length (ds_nodes d)]" using assms(1) by (simp add: choices_ok_def)
  then have len: "length ?sh = length (ds_nodes d)" using mset_eq_length by fastforce
  have dist: "distinct ?sh" using m by (metis distinct_upt mset_eq_imp_distinct_iff)
  show ?thesis
  proof (cases "length ?ks \<le> length ?sh")
    case True
    then obtain d' where d': "random_loop ?sh ?ks d = (Inr (), d')" "map snd (ds_pairs d') = take (length ?ks) ?sh"
      using random_loop_run[OF True, of d] assms(2) by auto
    have run: "randomDispatch J d = (Inr (), finish_dispatch J d')"
      using d'(1) by (simp add: randomDispatch_def mbind_def)
    have l: "length (ds_pairs d') = length ?ks" using arg_cong[OF d'(2), of length] True by simp
    have "distinct (map snd (ds_pairs (finish_dispatch J d')))"
      using d'(2) dist by (simp add: finish_dispatch_def)
    with run l True len show ?thesis by (simp add: finish_dispatch_def)
  next
    case False
    then have "fst (random_loop ?sh ?ks d) = Inl IndexOutOfBoundsException"
      by (intro random_loop_fails) simp
    with False len show ?thesis
      by (auto simp: randomDispatch_def mbind_def split: prod.splits sum.splits)
  qed
qed

section \<open>The properties at work\<close>

text \<open>Two nodes with four and two CPU cores and two GPUs each, and an application for three processors.\<close>

definition sample_gpu :: ErResource where
  "sample_gpu = new_ErResource\<lparr>res_resourceType := ''VGPU_CORE'', res_total := 2, res_allocated := 0, res_preAllocated := 0,
     res_extention := Some ''0''\<rparr>"

definition sample_node :: "int \<Rightarrow> int \<Rightarrow> ErServerNode" where
  "sample_node i cores = new_ErServerNode\<lparr>sn_id := i, sn_endpoint := \<lparr>ep_host = ''h'', ep_port = 4670\<rparr>,
     sn_resources := [new_ErResource\<lparr>res_resourceType := ''VCPU_CORE'', res_total := cores, res_allocated := 0, res_preAllocated := 0\<rparr>, sample_gpu]\<rparr>"

definition sample_processor :: ErProcessor where
  "sample_processor = new_ErProcessor\<lparr>pr_processorType := ''DeepSpeed'', pr_status := ''NEW'',
     pr_resources := [new_ErResource\<lparr>res_resourceType := ''VCPU_CORE'', res_allocated := 1\<rparr>]\<rparr>"

definition sample_gpu_processor :: ErProcessor where
  "sample_gpu_processor = sample_processor\<lparr>pr_resources := [new_ErResource\<lparr>res_resourceType := ''VGPU_CORE'', res_allocated := 1\<rparr>]\<rparr>"

definition sample_application :: "ErProcessor list \<Rightarrow> ResourceApplication" where
  "sample_application ps = (new_ResourceApplication ''s1'')\<lparr>ra_processors := ps\<rparr>"

definition sample_choices :: java_choices where
  "sample_choices = \<lparr>entry_order = (\<lambda>xs. xs), pair_order = (\<lambda>xs. xs), shuffle = rev\<rparr>"

definition sample_state :: dstate where
  "sample_state = \<lparr>ds_nodes = [sample_node 1 4, sample_node 2 2], ds_app = sample_application (replicate 3 sample_processor), ds_pairs = []\<rparr>"

lemmas sample_defs = sample_gpu_def sample_node_def sample_processor_def sample_gpu_processor_def
  sample_application_def sample_choices_def sample_state_def plain_env_def new_ErResource_def new_ErServerNode_def
  new_ErProcessor_def new_ResourceApplication_def

lemma sample_choices_ok: "choices_ok sample_choices"
  by (simp add: choices_ok_def sample_choices_def)

theorem place_processor_gpus_witness:
  "\<exists>ks. distinct ks \<and> set ks \<subseteq> free_gpus (sample_node 1 4) \<and>
     taken (snd (place_processor sample_gpu_processor (sample_node 1 4))) = taken (sample_node 1 4) @ map string_of_nat ks"
proof -
  have g: "gpu_of (sample_node 1 4) = Some sample_gpu" by (simp add: gpu_of_def is_gpu_def sample_defs)
  have t: "taken (sample_node 1 4) = [string_of_nat 0]"
    by code_simp
  have "1 \<in> free_gpus (sample_node 1 4)"
    by (simp add: free_gpus_def t string_of_int_nat gpu_total_def g) (simp add: sample_gpu_def)
  then have "0 < card (free_gpus (sample_node 1 4))" by (auto simp: card_gt_0_iff)
  then have "length (filter is_gpu (pr_resources sample_gpu_processor)) \<le> card (free_gpus (sample_node 1 4))"
    by (simp add: sample_defs is_gpu_def)
  from place_processor_gpus[OF g this prod.collapse[symmetric]] show ?thesis by blast
qed

theorem single_node_first_capacity_witness:
  "count (mset (map snd (ds_pairs (snd (singleNodeFirstDispatch sample_choices sample_state))))) 0 \<le> nat (node_key sample_state 0)"
proof -
  have "fst (singleNodeFirstDispatch sample_choices sample_state) = Inr ()" by code_simp
  then have "singleNodeFirstDispatch sample_choices sample_state = (Inr (), snd (singleNodeFirstDispatch sample_choices sample_state))"
    by (metis prod.collapse)
  from single_node_first_capacity[OF this, of 0] show ?thesis by (simp add: sample_state_def)
qed

theorem check_resource_enough_iff_witness:
  "\<exists>a'. checkResourceEnough plain_env sample_choices [sample_node 1 4, sample_node 2 2] (sample_application [sample_processor])
     = Inr (enough_for [sample_node 1 4, sample_node 2 2] (ra_processors (sample_application [sample_processor])), a')"
  using check_resource_enough_iff[OF sample_choices_ok, of "[sample_node 1 4, sample_node 2 2]" "sample_application [sample_processor]" plain_env]
  by (auto simp: sample_defs)


theorem remain_most_first_order_witness:
  "\<exists>d' i js. remainMostFirstDispatch sample_choices sample_state = (Inr (), d') \<and> map snd (ds_pairs d') = i # js \<and>
    (\<forall>k < length (ds_nodes sample_state). node_key sample_state k \<le> node_key sample_state i) \<and>
    (\<forall>j \<in> set js. \<forall>k < length (ds_nodes sample_state). node_key sample_state j \<le> node_key sample_state k)"
  by (rule remain_most_first_order) (auto simp: sample_defs)

definition sample_dispatcher :: dispatcher where
  "sample_dispatcher = \<lparr>dp_world = empty_world\<lparr>session_main := [(new_SessionMain ''s1'')\<lparr>m_status := Some ''WAITING_RESOURCE''\<rparr>]\<rparr>,
     dp_queue = [sample_application [sample_processor]], dp_alive = True\<rparr>"

theorem throw_error_ends_dispatch_witness:
  "dispatch_step plain_env sample_choices sample_dispatcher = sample_dispatcher\<lparr>dp_queue := [], dp_alive := False\<rparr>"
proof -
  let ?a = "sample_application [sample_processor]"
  have "checkResourceEnough plain_env sample_choices (getServerNodesWithResource healthy_example (dp_world sample_dispatcher)) ?a
    = Inr (False, ?a\<lparr>ra_resourceExhaustedStrategy := ''throw_error''\<rparr>)"
    by code_simp
  from throw_error_ends_dispatch[OF _ _ _ _ _ this, of "[]"] show ?thesis
    by (auto simp: sample_dispatcher_def getSessionMain_def session_getById_def new_SessionMain_def toErSessionMeta_def
        sample_application_def new_ResourceApplication_def)
qed

theorem random_dispatch_distinct_witness:
  "fst (randomDispatch sample_choices sample_state) = Inl IndexOutOfBoundsException"
  using random_dispatch_distinct[OF sample_choices_ok, of sample_state]
  by (simp add: sample_state_def sample_application_def)

end
