(* ===== verification/Js_Library.thy ===== *)
theory Js_Library
  imports Prelude "HOL-Library.Sublist"
begin

text \<open>
  The parts of the JavaScript string library that the dashboard bundles use: searching,
  replacing, splitting, joining, trimming, case folding and hexadecimal digits.  A string is a
  list of code units; the type of HOL characters bounds them by 256, so the model speaks
  about texts in Latin-1.
\<close>

text \<open>\<open>s.indexOf(p)\<close>, None for -1, and \<open>s.includes(p)\<close>.\<close>

fun indexOf :: "string \<Rightarrow> string \<Rightarrow> nat option" where
  "indexOf p [] = (if p = [] then Some 0 else None)"
| "indexOf p (c # cs) = (if prefix p (c # cs) then Some 0 else map_option Suc (indexOf p cs))"

definition js_includes :: "string \<Rightarrow> string \<Rightarrow> bool" where
  "js_includes p s \<longleftrightarrow> indexOf p s \<noteq> None"

text \<open>\<open>s.replace(/p/g, r)\<close> for a literal pattern, leftmost first, without overlaps.\<close>

function replace_all :: "string \<Rightarrow> string \<Rightarrow> string \<Rightarrow> string" where
  "replace_all p r [] = []"
| "replace_all p r (c # cs) =
     (if p \<noteq> [] \<and> prefix p (c # cs) then r @ replace_all p r (drop (length p - 1) cs) else c # replace_all p r cs)"
  by pat_completeness auto
termination by (relation "measure (\<lambda>(p, r, s). length s)") auto

text \<open>\<open>xs.join(sep)\<close>.\<close>

fun js_join :: "string \<Rightarrow> string list \<Rightarrow> string" where
  "js_join sep [] = []"
| "js_join sep [x] = x"
| "js_join sep (x # y # xs) = x @ sep @ js_join sep (y # xs)"

text \<open>White space as \<open>\s\<close> and \<open>trim\<close> understand it, below code unit 256.\<close>

definition js_space :: "char \<Rightarrow> bool" where
  "js_space c \<longleftrightarrow> of_char c \<in> {9, 10, 11, 12, 13, 32, 160 :: nat}"

definition js_trim :: "string \<Rightarrow> string" where
  "js_trim s = rev (dropWhile js_space (rev (dropWhile js_space s)))"

text \<open>\<open>toLowerCase\<close> and \<open>toUpperCase\<close> on the letters of ASCII.\<close>

definition lower :: "char \<Rightarrow> char" where
  "lower c = (if 65 \<le> (of_char c :: nat) \<and> (of_char c :: nat) \<le> 90 then char_of ((of_char c :: nat) + 32) else c)"

text \<open>Hexadecimal digits.\<close>

definition hex_upper :: "nat \<Rightarrow> char" where
  "hex_upper d = ''0123456789ABCDEF'' ! d"

definition hexval :: "char \<Rightarrow> nat option" where
  "hexval c = (let k = of_char c :: nat in
     if 48 \<le> k \<and> k \<le> 57 then Some (k - 48) else if 65 \<le> k \<and> k \<le> 70 then Some (k - 55)
     else if 97 \<le> k \<and> k \<le> 102 then Some (k - 87) else None)"

section \<open>Laws\<close>

lemma indexOf_prefix: "prefix p s \<Longrightarrow> indexOf p s = Some 0"
  by (cases s) auto

lemma indexOf_char_notin: "c \<notin> set s \<Longrightarrow> indexOf [c] s = None"
  by (induction s) auto

lemma indexOf_char: "c \<notin> set p \<Longrightarrow> indexOf [c] (p @ c # s) = Some (length p)"
  by (induction p) auto

lemma indexOf_before: "indexOf p s \<noteq> None \<Longrightarrow> indexOf p (t @ s) \<noteq> None"
  by (induction t) auto

lemma js_includes_middle: "js_includes p (s @ p @ t)"
  unfolding js_includes_def by (rule indexOf_before) (simp add: indexOf_prefix)

lemma replace_all_notin: "c \<notin> set s \<Longrightarrow> replace_all [c] r s = s"
  by (induction s) auto

lemma replace_all_char: "replace_all [c] r s = concat (map (\<lambda>x. if x = c then r else [x]) s)"
  by (induction s) auto

lemma js_join_Cons: "xs \<noteq> [] \<Longrightarrow> js_join sep (x # xs) = x @ sep @ js_join sep xs"
  by (cases xs) auto

lemma js_join_char: "js_join [c] xs = java_join c xs"
  by (induction "[c]" xs rule: js_join.induct) auto

lemma js_trim_id: "(s = [] \<or> \<not> js_space (hd s) \<and> \<not> js_space (last s)) \<Longrightarrow> js_trim s = s"
  by (cases s) (auto simp: js_trim_def dropWhile_eq_self_iff hd_append hd_rev split: if_splits)

lemma js_trim_none: "\<forall>c \<in> set s. \<not> js_space c \<Longrightarrow> js_trim s = s"
  by (rule js_trim_id) auto

end
