(* ===== verification/Router.thy ===== *)
theory Router
  imports Js_Library
begin

text \<open>
  The URLs of the dashboard's router (\<open>index-e87360db.js\<close>, line 5): the escaping of query
  values, \<open>stringifyQuery\<close> and \<open>parseQuery\<close>, the splitting and building of a full path, and
  the resolution of a location.  The matching of a path against the route
  table is the theory \<open>Route_Matcher\<close>.
\<close>

section \<open>Escaping\<close>

text \<open>\<open>encodeURI\<close> of the language: reserved and unreserved characters stand for themselves, all
  others become the escapes of their UTF-8 bytes.\<close>

definition uri_plain :: "char \<Rightarrow> bool" where
  "uri_plain c \<longleftrightarrow> (let k = of_char c :: nat in
     48 \<le> k \<and> k \<le> 57 \<or> 65 \<le> k \<and> k \<le> 90 \<or> 97 \<le> k \<and> k \<le> 122) \<or> c \<in> set '';,/?:@&=+$-_.!~*()#'' \<or> c = CHR 39"

definition escape_byte :: "nat \<Rightarrow> string" where
  "escape_byte b = [CHR ''%'', hex_upper (b div 16), hex_upper (b mod 16)]"

definition uri_tokens :: "char \<Rightarrow> string list" where
  "uri_tokens c = (let k = of_char c :: nat in
     if uri_plain c then [[c]] else if k < 128 then [escape_byte k]
     else [escape_byte (192 + k div 64), escape_byte (128 + k mod 64)])"

definition encodeURI :: "string \<Rightarrow> string" where
  "encodeURI s = concat (concat (map uri_tokens s))"

text \<open>\<open>_p\<close> and \<open>Bd\<close> are the router's \<open>commonEncode\<close> and \<open>encodeQueryValue\<close>, \<open>i$\<close> its
  \<open>encodeQueryKey\<close>.\<close>

definition commonEncode :: "string \<Rightarrow> string" where
  "commonEncode e = replace_all ''%5D'' '']'' (replace_all ''%5B'' ''['' (replace_all ''%7C'' ''|'' (encodeURI e)))"

definition encodeQueryValue :: "string \<Rightarrow> string" where
  "encodeQueryValue e = replace_all ''%5E'' ''^'' (replace_all ''%7D'' ''}'' (replace_all ''%7B'' ''{''
     (replace_all ''%60'' ''`'' (replace_all ''&'' ''%26'' (replace_all ''#'' ''%23'' (replace_all ''%20'' ''+''
     (replace_all ''+'' ''%2B'' (commonEncode e))))))))"

definition encodeQueryKey :: "string \<Rightarrow> string" where
  "encodeQueryKey e = replace_all ''='' ''%3D'' (encodeQueryValue e)"

text \<open>\<open>decodeURIComponent\<close>: None where it throws.  Escapes of characters beyond Latin-1 are outside
  the model and also None.\<close>

definition read_byte :: "char \<Rightarrow> char \<Rightarrow> nat option" where
  "read_byte a b = (case hexval a of None \<Rightarrow> None | Some x \<Rightarrow> map_option (\<lambda>y. 16 * x + y) (hexval b))"

fun decodeURIComponent :: "string \<Rightarrow> string option" where
  "decodeURIComponent [] = Some []"
| "decodeURIComponent (c # cs) =
     (if c \<noteq> CHR ''%'' then map_option ((#) c) (decodeURIComponent cs)
      else (case cs of
        a # b # r1 \<Rightarrow>
          (case read_byte a b of
            None \<Rightarrow> None
          | Some k \<Rightarrow>
              if k < 128 then map_option ((#) (char_of k)) (decodeURIComponent r1)
              else if k \<in> {194, 195} then
                (case r1 of
                  p # a' # b' # r2 \<Rightarrow>
                    (case read_byte a' b' of
                      None \<Rightarrow> None
                    | Some k' \<Rightarrow>
                        if p = CHR ''%'' \<and> 128 \<le> k' \<and> k' < 192
                        then map_option ((#) (char_of ((k - 192) * 64 + (k' - 128)))) (decodeURIComponent r2) else None)
                | _ \<Rightarrow> None)
              else None)
      | _ \<Rightarrow> None))"

text \<open>\<open>ku\<close>: a text that does not decode is taken as it is.\<close>

definition decode :: "string \<Rightarrow> string" where
  "decode e = (case decodeURIComponent e of None \<Rightarrow> e | Some s \<Rightarrow> s)"

section \<open>Queries\<close>

text \<open>A query is an object: an association list of its own properties in the order of insertion, whose values are a
  string or null, or an array of these for a key that was given more than once.  The code asks \<open>a in t\<close>, which also
  finds what every object inherits: under such a key the array starts with the inherited function (\<open>Inherited\<close>), and
  the key \<open>__proto__\<close> adds no property at all but replaces the prototype; what later keys then find in the new one is
  not modelled.  Keys that are all digits, which the language lists before the others, stay in the order of insertion.\<close>

datatype qvalue = One "string option" | Many "string option list" | Inherited "string option list"

type_synonym queryT = "(string \<times> qvalue) list"

definition object_names :: "string list" where
  "object_names = [''constructor'', ''__defineGetter__'', ''__defineSetter__'', ''hasOwnProperty'', ''__lookupGetter__'',
     ''__lookupSetter__'', ''isPrototypeOf'', ''propertyIsEnumerable'', ''toString'', ''valueOf'', ''toLocaleString'', ''__proto__'']"

text \<open>The text of an inherited function.\<close>

definition inherited_text :: "string \<Rightarrow> string" where
  "inherited_text k = ''function '' @ (if k = ''constructor'' then ''Object'' else k) @ ''() { [native code] }''"

definition stringify_one :: "string \<Rightarrow> string option \<Rightarrow> string \<Rightarrow> string" where
  "stringify_one key v t = t @ (if t = [] then [] else ''&'') @ key @
     (case v of None \<Rightarrow> [] | Some x \<Rightarrow> ''='' @ encodeQueryValue x)"

definition stringify_entry :: "string \<times> qvalue \<Rightarrow> string \<Rightarrow> string" where
  "stringify_entry e t = (let key = encodeQueryKey (fst e) in
     case snd e of One v \<Rightarrow> stringify_one key v t | Many vs \<Rightarrow> fold (stringify_one key) vs t
       | Inherited vs \<Rightarrow> fold (stringify_one key) (Some (inherited_text (fst e)) # vs) t)"

definition stringifyQuery :: "queryT \<Rightarrow> string" where
  "stringifyQuery q = fold stringify_entry q []"

definition add_param :: "string \<Rightarrow> string option \<Rightarrow> queryT \<Rightarrow> queryT" where
  "add_param a u t = (case map_of t a of
     None \<Rightarrow> if a = ''__proto__'' then t else if a \<in> set object_names then t @ [(a, Inherited [u])] else t @ [(a, One u)]
   | Some (One c) \<Rightarrow> AList.update a (Many [c, u]) t
   | Some (Many cs) \<Rightarrow> AList.update a (Many (cs @ [u])) t
   | Some (Inherited cs) \<Rightarrow> AList.update a (Inherited (cs @ [u])) t)"

definition parse_param :: "string \<Rightarrow> queryT \<Rightarrow> queryT" where
  "parse_param l0 t = (let l = replace_all ''+'' '' '' l0 in
     case indexOf ''='' l of
       None \<Rightarrow> add_param (decode l) None t
     | Some s \<Rightarrow> add_param (decode (take s l)) (Some (decode (drop (s + 1) l))) t)"

definition parseQuery :: "string \<Rightarrow> queryT" where
  "parseQuery e =
     (if e = [] \<or> e = ''?'' then []
      else fold parse_param (pieces (CHR ''&'') (if hd e = CHR ''?'' then tl e else e)) [])"

section \<open>Locations\<close>

text \<open>\<open>EE\<close>: a path relative to the current one.  The segments \<open>.\<close> are skipped and \<open>..\<close> climb until
  the first other segment; \<open>l\<close> counts the segments kept and \<open>s\<close> those consumed.\<close>

fun relative_prefix :: "string list \<Rightarrow> nat \<Rightarrow> nat \<Rightarrow> nat \<times> nat" where
  "relative_prefix [] l s = (l, s)"
| "relative_prefix (a # as) l s =
     (if a = ''.'' then relative_prefix as l (s + 1)
      else if a = ''..'' then relative_prefix as (if l > 1 then l - 1 else l) (s + 1) else (l, s))"

definition resolveRelativePath :: "string \<Rightarrow> string \<Rightarrow> string" where
  "resolveRelativePath e t =
     (if prefix ''/'' e then e else if e = [] then t
      else (let n = pieces (CHR ''/'') t; o0 = pieces (CHR ''/'') e;
                o1 = (if last o0 = ''..'' \<or> last o0 = ''.'' then o0 @ [[]] else o0);
                (l, s) = relative_prefix o1 (length n - 1) 0
            in js_join ''/'' (take l n) @ ''/'' @ js_join ''/'' (drop (s - (if s = length o1 then 1 else 0)) o1)))"

record parsedURL =
  u_fullPath :: string
  u_path :: string
  u_query :: queryT
  u_hash :: string

text \<open>\<open>Uc\<close> cuts a location into path, query and hash.\<close>

definition parseURL :: "string \<Rightarrow> string \<Rightarrow> parsedURL" where
  "parseURL t n =
     (let a = indexOf ''#'' t; u0 = indexOf ''?'' t;
          u = (case (a, u0) of (Some i, Some j) \<Rightarrow> if i < j then None else u0 | _ \<Rightarrow> u0);
          search = (case u of None \<Rightarrow> [] | Some j \<Rightarrow>
              (case a of None \<Rightarrow> drop (j + 1) t | Some i \<Rightarrow> drop (j + 1) (take i t)));
          qpath = map_option (\<lambda>j. take j t) u;
          hpath = (case a of None \<Rightarrow> qpath | Some i \<Rightarrow>
              (case qpath of Some (c # cs) \<Rightarrow> qpath | _ \<Rightarrow> Some (take i t)));
          path = resolveRelativePath (case hpath of None \<Rightarrow> t | Some p \<Rightarrow> p) n;
          hash = (case a of None \<Rightarrow> [] | Some i \<Rightarrow> drop i t)
      in \<lparr>u_fullPath = path @ (if search = [] then [] else ''?'') @ search @ hash, u_path = path,
          u_query = (case u of None \<Rightarrow> [] | Some _ \<Rightarrow> parseQuery search), u_hash = hash\<rparr>)"

text \<open>\<open>SE\<close> puts a location together, without a hash.\<close>

definition stringifyURL :: "string \<Rightarrow> queryT \<Rightarrow> string" where
  "stringifyURL path query = (let n = stringifyQuery query in path @ (if n = [] then [] else ''?'') @ n)"

record route =
  r_fullPath :: string
  r_path :: string
  r_query :: queryT

datatype location = Path string | At string queryT

text \<open>\<open>g\<close>, the \<open>resolve\<close> of the router, for the two forms of location the dashboard pushes: a string, and
  an object with a path and a query.  Of the path of an object only the path part counts.\<close>

definition resolve :: "location \<Rightarrow> route \<Rightarrow> route" where
  "resolve G Z = (case G of
     Path p \<Rightarrow> (let re = parseURL p (r_path Z) in \<lparr>r_fullPath = u_fullPath re, r_path = u_path re, r_query = u_query re\<rparr>)
   | At p q \<Rightarrow> (let path = u_path (parseURL p (r_path Z)) in
       \<lparr>r_fullPath = stringifyURL path q, r_path = path, r_query = q\<rparr>))"

section \<open>Escapes as tokens\<close>

text \<open>An escaped text is a sequence of tokens: a character other than a percent sign, or a percent sign
  with two hexadecimal digits.  A replacement of a token goes token by token.\<close>

definition hex_char :: "char \<Rightarrow> bool" where
  "hex_char c \<longleftrightarrow> c \<in> set ''0123456789ABCDEF''"

fun token :: "string \<Rightarrow> bool" where
  "token [c] \<longleftrightarrow> c \<noteq> CHR ''%''"
| "token [p, a, b] \<longleftrightarrow> p = CHR ''%'' \<and> hex_char a \<and> hex_char b"
| "token _ \<longleftrightarrow> False"

definition pattern :: "string \<Rightarrow> bool" where
  "pattern p \<longleftrightarrow> token p \<and> (\<forall>c. p = [c] \<longrightarrow> \<not> hex_char c)"

lemma tokenE:
  assumes "token t"
  obtains (char) c where "t = [c]" "c \<noteq> CHR ''%''" | (escape) a b where "t = [CHR ''%'', a, b]" "hex_char a" "hex_char b"
  using assms by (cases t rule: token.cases) auto

lemma hex_char_not_percent [simp]: "\<not> hex_char (CHR ''%'')"
  by (simp add: hex_char_def)

lemma replace_token:
  assumes "token t" and "pattern p"
  shows "replace_all p r (t @ s) = (if t = p then r else t) @ replace_all p r s"
proof -
  have p: "token p" "\<And>c. p = [c] \<Longrightarrow> \<not> hex_char c" using assms(2) by (auto simp: pattern_def)
  show ?thesis
  proof (rule tokenE[OF assms(1)])
    fix c assume "t = [c]" "c \<noteq> CHR ''%''"
    then show ?thesis by (cases rule: tokenE[OF p(1)]) auto
  next
    fix a b assume t: "t = [CHR ''%'', a, b]" "hex_char a" "hex_char b"
    then have "a \<noteq> CHR ''%''" "b \<noteq> CHR ''%''" by auto
    with t p(2) show ?thesis by (cases rule: tokenE[OF p(1)]) auto
  qed
qed

lemma replace_tokens:
  assumes "\<forall>t \<in> set ts. token t" and "pattern p"
  shows "replace_all p r (concat ts) = concat (map (\<lambda>t. if t = p then r else t) ts)"
  using assms(1) by (induction ts) (simp_all add: replace_token[OF _ assms(2)])

text \<open>The chain of replacements as one function on tokens.\<close>

definition subst :: "(string \<times> string) list \<Rightarrow> string \<Rightarrow> string" where
  "subst rs t = fold (\<lambda>(p, r) t. if t = p then r else t) rs t"

lemma replace_chain:
  assumes "\<forall>t \<in> set ts. token t" and "\<forall>(p, r) \<in> set rs. pattern p \<and> token r"
  shows "fold (\<lambda>(p, r). replace_all p r) rs (concat ts) = concat (map (subst rs) ts)"
  using assms
proof (induction rs arbitrary: ts)
  case Nil
  then show ?case by (simp add: subst_def)
next
  case (Cons x rs)
  obtain p r where x: "x = (p, r)" by (cases x)
  let ?ts = "map (\<lambda>t. if t = p then r else t) ts"
  have "fold (\<lambda>(p, r). replace_all p r) (x # rs) (concat ts) = fold (\<lambda>(p, r). replace_all p r) rs (concat ?ts)"
    using Cons.prems x by (simp add: replace_tokens)
  also have "\<dots> = concat (map (subst rs) ?ts)" by (rule Cons.IH) (use Cons.prems x in auto)
  also have "map (subst rs) ?ts = map (subst (x # rs)) ts" by (simp add: subst_def x)
  finally show ?case .
qed

definition value_rules :: "(string \<times> string) list" where
  "value_rules = [(''%7C'', ''|''), (''%5B'', ''[''), (''%5D'', '']''), (''+'', ''%2B''), (''%20'', ''+''), (''#'', ''%23''),
     (''&'', ''%26''), (''%60'', ''`''), (''%7B'', ''{''), (''%7D'', ''}''), (''%5E'', ''^'')]"

definition key_rules :: "(string \<times> string) list" where
  "key_rules = value_rules @ [(''='', ''%3D'')]"

lemma rules_pattern: "\<forall>(p, r) \<in> set key_rules. pattern p \<and> token r"
  by (simp add: key_rules_def value_rules_def pattern_def hex_char_def)

definition value_tokens :: "char \<Rightarrow> string list" where
  "value_tokens c = map (subst value_rules) (uri_tokens c)"

definition key_tokens :: "char \<Rightarrow> string list" where
  "key_tokens c = map (subst key_rules) (uri_tokens c)"

lemma hex_upper_char: "d < 16 \<Longrightarrow> hex_char (hex_upper d)"
  using nth_mem[of d "''0123456789ABCDEF''"] by (simp add: hex_upper_def hex_char_def)

lemma escape_token: "k < 256 \<Longrightarrow> token (escape_byte k)"
  using hex_upper_char[of "k div 16"] hex_upper_char[of "k mod 16"] by (simp add: escape_byte_def)

lemma of_char_less: "of_char c < (256 :: nat)"
  using nat_of_char_less_256[of c] by simp

lemma uri_token: "\<forall>t \<in> set (uri_tokens c). token t"
proof -
  have "(192 + of_char c div 64 :: nat) < 256" "(128 + of_char c mod 64 :: nat) < 256" using of_char_less[of c] by linarith+
  moreover have "uri_plain c \<Longrightarrow> c \<noteq> CHR ''%''" by (auto simp: uri_plain_def)
  ultimately show ?thesis by (auto simp: uri_tokens_def Let_def intro: escape_token)
qed

lemma uri_token_list: "\<forall>t \<in> set (concat (map uri_tokens s)). token t"
  using uri_token by auto

lemma encodeQueryValue_tokens: "encodeQueryValue s = concat (concat (map value_tokens s))"
proof -
  have "encodeQueryValue s = fold (\<lambda>(p, r). replace_all p r) value_rules (concat (concat (map uri_tokens s)))"
    by (simp add: encodeQueryValue_def commonEncode_def value_rules_def encodeURI_def)
  also have "\<dots> = concat (map (subst value_rules) (concat (map uri_tokens s)))"
    by (rule replace_chain[OF uri_token_list]) (use rules_pattern in \<open>auto simp: key_rules_def\<close>)
  finally show ?thesis by (simp add: value_tokens_def[abs_def] map_concat comp_def)
qed

lemma encodeQueryKey_tokens: "encodeQueryKey s = concat (concat (map key_tokens s))"
proof -
  have "encodeQueryKey s = fold (\<lambda>(p, r). replace_all p r) key_rules (concat (concat (map uri_tokens s)))"
    by (simp add: encodeQueryKey_def encodeQueryValue_def commonEncode_def key_rules_def value_rules_def encodeURI_def)
  also have "\<dots> = concat (map (subst key_rules) (concat (map uri_tokens s)))"
    by (rule replace_chain[OF uri_token_list rules_pattern])
  finally show ?thesis by (simp add: key_tokens_def[abs_def] map_concat comp_def)
qed

text \<open>The tokens of a character, once a plus sign is read as a blank, decode to the character.\<close>

fun decodes_to :: "string list \<Rightarrow> char \<Rightarrow> bool" where
  "decodes_to [[x]] c \<longleftrightarrow> x = c \<and> c \<noteq> CHR ''%''"
| "decodes_to [[p, a, b]] c \<longleftrightarrow> p = CHR ''%'' \<and> (case read_byte a b of None \<Rightarrow> False | Some k \<Rightarrow> k < 128 \<and> char_of k = c)"
| "decodes_to [[p, a, b], [p', a', b']] c \<longleftrightarrow> p = CHR ''%'' \<and> p' = CHR ''%'' \<and>
     (case (read_byte a b, read_byte a' b') of
       (Some k, Some k') \<Rightarrow> k \<in> {194, 195} \<and> 128 \<le> k' \<and> k' < 192 \<and> char_of ((k - 192) * 64 + (k' - 128)) = c
     | _ \<Rightarrow> False)"
| "decodes_to _ c \<longleftrightarrow> False"

lemma decodes_to_step:
  "decodes_to ts c \<Longrightarrow> decodeURIComponent (concat ts @ r) = map_option ((#) c) (decodeURIComponent r)"
  by (induction ts c rule: decodes_to.induct) (auto split: option.splits)

abbreviation blanks :: "string \<Rightarrow> string" where
  "blanks \<equiv> map (\<lambda>x. if x = CHR ''+'' then CHR '' '' else x)"

lemma hexval_upper: "d < 16 \<Longrightarrow> hexval (hex_upper d) = Some d"
proof -
  have "list_all (\<lambda>d. hexval (hex_upper d) = Some d) [0..<16]" by code_simp
  then show "d < 16 \<Longrightarrow> hexval (hex_upper d) = Some d" by (simp add: list_all_iff)
qed

lemma read_escape: "x < 16 \<Longrightarrow> y < 16 \<Longrightarrow> read_byte (hex_upper x) (hex_upper y) = Some (16 * x + y)"
  by (simp add: read_byte_def hexval_upper)

lemma escape_byte_read:
  assumes "k < 256" and "escape_byte k = [p, a, b]"
  shows "p = CHR ''%'' \<and> read_byte a b = Some k"
proof -
  have "k div 16 < 16" using assms(1) by simp
  then show ?thesis using assms(2) by (auto simp: escape_byte_def read_escape)
qed

fun settled :: "(string \<times> string) list \<Rightarrow> bool" where
  "settled [] \<longleftrightarrow> True"
| "settled ((p, r) # rs) \<longleftrightarrow> map_of rs r = None \<and> settled rs"

lemma subst_settled: "settled rs \<Longrightarrow> subst rs t = (case map_of rs t of None \<Rightarrow> t | Some r \<Rightarrow> r)"
proof (induction rs arbitrary: t rule: settled.induct)
  case (2 p r rs)
  have "subst ((p, r) # rs) t = subst rs (if t = p then r else t)" by (simp add: subst_def)
  with 2 show ?case by simp
qed (simp add: subst_def)

lemma rules_settled: "settled value_rules" "settled key_rules"
  by (simp_all add: key_rules_def value_rules_def)

definition avoids :: "string \<Rightarrow> string list \<Rightarrow> bool" where
  "avoids cs ts \<longleftrightarrow> (\<forall>t \<in> set ts. \<forall>x \<in> set t. x \<notin> set cs)"

lemma hex_upper_avoids: "d < 16 \<Longrightarrow> hex_upper d \<notin> set ''&=+?''"
proof -
  have "list_all (\<lambda>d. hex_upper d \<notin> set ''&=+?'') [0..<16]" by code_simp
  then show "d < 16 \<Longrightarrow> hex_upper d \<notin> set ''&=+?''" by (simp add: list_all_iff)
qed

lemma escape_avoids: "k < 256 \<Longrightarrow> \<forall>x \<in> set (escape_byte k). x \<notin> set ''&=+?''"
  using hex_upper_avoids[of "k div 16"] hex_upper_avoids[of "k mod 16"] by (auto simp: escape_byte_def)

definition query_rules :: "(string \<times> string) list \<Rightarrow> bool" where
  "query_rules rs \<longleftrightarrow> rs = value_rules \<or> rs = key_rules"

lemma query_rules_subst:
  assumes "query_rules rs"
  shows "subst rs t = (case map_of rs t of None \<Rightarrow> t | Some r \<Rightarrow> r)"
  using assms rules_settled subst_settled by (auto simp: query_rules_def)

lemma rules_SomeD: "query_rules rs \<Longrightarrow> map_of rs t = Some r \<Longrightarrow> (t, r) \<in> set key_rules"
  by (auto simp: query_rules_def key_rules_def dest: map_of_SomeD)

lemma rules_NoneD:
  assumes "query_rules rs" and "map_of rs [c] = None"
  shows "c \<noteq> CHR ''&''" and "c \<noteq> CHR ''+''"
  using assms by (auto simp: query_rules_def key_rules_def value_rules_def split: if_splits)

text \<open>A token that stands for a character still does after the replacements.\<close>

definition stands_for :: "string list \<Rightarrow> char \<Rightarrow> bool" where
  "stands_for ts c \<longleftrightarrow> decodes_to (map blanks ts) c \<and> avoids ''&'' ts"

lemma subst_plain:
  assumes "query_rules rs" and "uri_plain c"
  shows "stands_for [subst rs [c]] c"
proof (cases "map_of rs [c]")
  case None
  have "c \<noteq> CHR ''%''" using assms(2) by (auto simp: uri_plain_def)
  with None rules_NoneD[OF assms(1) None] show ?thesis
    by (simp add: query_rules_subst[OF assms(1)] avoids_def stands_for_def)
next
  case (Some r)
  then have "(c, r) \<in> {(CHR ''+'', ''%2B''), (CHR ''#'', ''%23''), (CHR ''&'', ''%26''), (CHR ''='', ''%3D'')}"
    using rules_SomeD[OF assms(1) Some] by (auto simp: key_rules_def value_rules_def)
  with Some show ?thesis
    by (auto simp: query_rules_subst[OF assms(1)] avoids_def stands_for_def read_byte_def hexval_def char_of_eq_iff)
qed

lemma escaped_chars:
  "char_of (124 :: nat) = CHR ''|''" "char_of (91 :: nat) = CHR ''[''" "char_of (93 :: nat) = CHR '']''"
  "char_of (32 :: nat) = CHR '' ''" "char_of (96 :: nat) = CHR ''`''" "char_of (123 :: nat) = CHR ''{''"
  "char_of (125 :: nat) = CHR ''}''" "char_of (94 :: nat) = CHR ''^''"
  by (simp_all add: char_of_eq_iff)

lemma escaped_bytes:
  "read_byte (CHR ''7'') (CHR ''C'') = Some 124" "read_byte (CHR ''5'') (CHR ''B'') = Some 91"
  "read_byte (CHR ''5'') (CHR ''D'') = Some 93" "read_byte (CHR ''2'') (CHR ''0'') = Some 32"
  "read_byte (CHR ''6'') (CHR ''0'') = Some 96" "read_byte (CHR ''7'') (CHR ''B'') = Some 123"
  "read_byte (CHR ''7'') (CHR ''D'') = Some 125" "read_byte (CHR ''5'') (CHR ''E'') = Some 94"
  by (simp_all add: read_byte_def hexval_def)

lemma hexval_less: "hexval c = Some d \<Longrightarrow> d < 16"
  by (auto simp: hexval_def Let_def split: if_splits)

lemma subst_escape:
  assumes "query_rules rs" and "c = char_of k" and "k < 128"
  shows "stands_for [subst rs (escape_byte k)] c"
proof -
  obtain a b where e: "escape_byte k = [CHR ''%'', a, b]" by (simp add: escape_byte_def)
  have rd: "read_byte a b = Some k" using escape_byte_read[of k] e assms(3) by simp
  have av: "\<forall>x \<in> set (escape_byte k). x \<notin> set ''&=+?''" by (rule escape_avoids) (use assms(3) in simp)
  show ?thesis
  proof (cases "map_of rs (escape_byte k)")
    case None
    with av rd e assms(2,3) show ?thesis
      by (auto simp: query_rules_subst[OF assms(1)] avoids_def stands_for_def)
  next
    case (Some r)
    then have "([CHR ''%'', a, b], r) \<in> set key_rules" using rules_SomeD[OF assms(1) Some] e by simp
    then have "(a, b, r) \<in> {(CHR ''7'', CHR ''C'', ''|''), (CHR ''5'', CHR ''B'', ''[''), (CHR ''5'', CHR ''D'', '']''),
        (CHR ''2'', CHR ''0'', ''+''), (CHR ''6'', CHR ''0'', ''`''), (CHR ''7'', CHR ''B'', ''{''), (CHR ''7'', CHR ''D'', ''}''),
        (CHR ''5'', CHR ''E'', ''^'')}"
      by (simp add: key_rules_def value_rules_def)
    then have "(k, r) \<in> {(124, ''|''), (91, ''[''), (93, '']''), (32, ''+''), (96, ''`''), (123, ''{''), (125, ''}''), (94, ''^'')}"
      by (elim insertE emptyE) (use rd in \<open>simp_all add: escaped_bytes\<close>)
    then have "(c, r) \<in> {(CHR ''|'', ''|''), (CHR ''['', ''[''), (CHR '']'', '']''), (CHR '' '', ''+''), (CHR ''`'', ''`''),
        (CHR ''{'', ''{''), (CHR ''}'', ''}''), (CHR ''^'', ''^'')}"
      unfolding assms(2) by (elim insertE emptyE) (simp_all only: prod.inject escaped_chars insert_iff simp_thms)
    with Some show ?thesis by (auto simp: query_rules_subst[OF assms(1)] avoids_def stands_for_def)
  qed
qed

lemma low_digit: "\<forall>a \<in> set ''2567''. \<exists>x \<le> 7. hexval a = Some x"
  by (simp add: hexval_def)

lemma subst_wide:
  assumes "query_rules rs" and "c = char_of k" and "128 \<le> k" and "k < 256"
  shows "stands_for [subst rs (escape_byte (192 + k div 64)), subst rs (escape_byte (128 + k mod 64))] c"
proof -
  define l where "l = 192 + k div 64"
  define t where "t = 128 + k mod 64"
  have lt: "l \<in> {194, 195}" "128 \<le> t" "t < 192" "(l - 192) * 64 + (t - 128) = k" using assms(3,4) by (auto simp: l_def t_def)
  then have bounds: "l < 256" "t < 256" "128 \<le> l" by auto
  have none: "map_of rs (escape_byte j) = None" if j: "128 \<le> j" "j < 256" for j
  proof (rule ccontr)
    assume "map_of rs (escape_byte j) \<noteq> None"
    then obtain r where "(escape_byte j, r) \<in> set key_rules" using rules_SomeD[OF assms(1)] by blast
    then obtain a b where e: "escape_byte j = [CHR ''%'', a, b]" "a \<in> set ''2567''"
      by (auto simp: key_rules_def value_rules_def escape_byte_def)
    then obtain x y where "hexval a = Some x" "hexval b = Some y" "j = 16 * x + y"
      using escape_byte_read[OF j(2) e(1)] by (auto simp: read_byte_def split: option.splits)
    moreover have "x \<le> 7" using bspec[OF low_digit e(2)] \<open>hexval a = Some x\<close> by auto
    ultimately show False using j(1) hexval_less[of b y] by simp
  qed
  obtain a b a' b' where e: "escape_byte l = [CHR ''%'', a, b]" "escape_byte t = [CHR ''%'', a', b']" by (simp add: escape_byte_def)
  have rd: "read_byte a b = Some l" "read_byte a' b' = Some t"
    using escape_byte_read[OF bounds(1) e(1)] escape_byte_read[OF bounds(2) e(2)] by simp_all
  have av: "\<forall>x \<in> set (escape_byte l). x \<notin> set ''&=+?''" "\<forall>x \<in> set (escape_byte t). x \<notin> set ''&=+?''"
    by (rule escape_avoids, rule bounds)+
  have sub: "subst rs (escape_byte l) = [CHR ''%'', a, b]" "subst rs (escape_byte t) = [CHR ''%'', a', b']"
    using none[of l] none[of t] bounds lt(2) e by (simp_all add: query_rules_subst[OF assms(1)])
  have "stands_for [[CHR ''%'', a, b], [CHR ''%'', a', b']] c"
    using lt rd av assms(2) unfolding e by (auto simp: avoids_def stands_for_def)
  then show ?thesis unfolding sub[symmetric] l_def t_def .
qed

lemma tokens_stand_for:
  assumes "query_rules rs"
  shows "stands_for (map (subst rs) (uri_tokens c)) c"
  using subst_plain[OF assms] subst_escape[OF assms, of c "of_char c"] subst_wide[OF assms, of c "of_char c"] of_char_less[of c]
  by (auto simp: uri_tokens_def Let_def)

lemma key_avoids_eq: "avoids ''='' (map (subst key_rules) (uri_tokens c))"
proof -
  have "CHR ''='' \<notin> set (subst key_rules t)" if t: "t \<in> set (uri_tokens c)" for t
  proof (cases "map_of key_rules t")
    case None
    then have "t \<noteq> ''=''" by (auto simp: key_rules_def)
    moreover have "token t" using uri_token t by blast
    ultimately have "CHR ''='' \<notin> set t" by (cases t rule: token.cases) (auto simp: hex_char_def)
    with None show ?thesis by (simp add: query_rules_subst query_rules_def)
  next
    case (Some r)
    then have "(t, r) \<in> set key_rules" by (rule map_of_SomeD)
    then have "CHR ''='' \<notin> set r" by (auto simp: key_rules_def value_rules_def)
    with Some show ?thesis by (simp add: query_rules_subst query_rules_def)
  qed
  then show ?thesis by (auto simp: avoids_def)
qed

section \<open>Reading back a query\<close>

lemma replace_plus: "replace_all ''+'' '' '' s = blanks s"
  by (induction s) (auto simp: replace_all_char)

lemma decode_tokens:
  assumes "\<And>c. decodes_to (map blanks (f c)) c"
  shows "decodeURIComponent (blanks (concat (concat (map f s)))) = Some s"
proof (induction s)
  case (Cons c s)
  have "blanks (concat (concat (map f (c # s)))) = concat (map blanks (f c)) @ blanks (concat (concat (map f s)))"
    by (simp add: map_concat)
  with decodes_to_step[OF assms[of c]] Cons show ?case by simp
qed simp

lemma value_stands: "stands_for (value_tokens c) c" and key_stands: "stands_for (key_tokens c) c"
  unfolding value_tokens_def key_tokens_def by (rule tokens_stand_for, simp add: query_rules_def)+

lemma decode_value: "decode (blanks (encodeQueryValue s)) = s"
  using value_stands unfolding encodeQueryValue_tokens decode_def by (simp add: decode_tokens stands_for_def)

lemma decode_key: "decode (blanks (encodeQueryKey s)) = s"
  using key_stands unfolding encodeQueryKey_tokens decode_def by (simp add: decode_tokens stands_for_def)

lemma value_no_amp: "CHR ''&'' \<notin> set (encodeQueryValue s)"
  using value_stands unfolding encodeQueryValue_tokens by (fastforce simp: stands_for_def avoids_def)

lemma key_no_amp: "CHR ''&'' \<notin> set (encodeQueryKey s)"
  using key_stands unfolding encodeQueryKey_tokens by (fastforce simp: stands_for_def avoids_def)

lemma key_no_eq: "CHR ''='' \<notin> set (encodeQueryKey s)"
  using key_avoids_eq unfolding encodeQueryKey_tokens key_tokens_def by (fastforce simp: avoids_def)

text \<open>What one entry of a query contributes.\<close>

definition param :: "string \<times> string option \<Rightarrow> string" where
  "param e = encodeQueryKey (fst e) @ (case snd e of None \<Rightarrow> [] | Some x \<Rightarrow> ''='' @ encodeQueryValue x)"

definition single :: "(string \<times> string option) list \<Rightarrow> queryT" where
  "single q = map (\<lambda>(k, v). (k, One v)) q"

lemma blanks_no_eq: "CHR ''='' \<notin> set s \<Longrightarrow> CHR ''='' \<notin> set (blanks s)"
  by auto

lemma parse_param_entry: "parse_param (param (k, v)) t = add_param k v t"
proof (cases v)
  case None
  have "indexOf ''='' (blanks (encodeQueryKey k)) = None"
    by (rule indexOf_char_notin) (use key_no_eq[of k] in auto)
  with None show ?thesis by (simp add: parse_param_def param_def replace_plus decode_key)
next
  case (Some x)
  let ?k = "blanks (encodeQueryKey k)"
  have l: "replace_all ''+'' '' '' (param (k, v)) = ?k @ CHR ''='' # blanks (encodeQueryValue x)"
    using Some by (simp add: param_def replace_plus)
  have "indexOf ''='' (?k @ CHR ''='' # blanks (encodeQueryValue x)) = Some (length ?k)"
    by (rule indexOf_char) (use key_no_eq[of k] in auto)
  with Some show ?thesis unfolding parse_param_def Let_def l by (simp add: decode_key decode_value)
qed

lemma add_param_new: "a \<notin> fst ` set t \<Longrightarrow> a \<notin> set object_names \<Longrightarrow> add_param a u t = t @ [(a, One u)]"
  using map_of_eq_None_iff[of t a] by (auto simp: add_param_def object_names_def)

lemma parse_params:
  assumes "distinct (map fst q)" and "fst ` set q \<inter> fst ` set t = {}" and "fst ` set q \<inter> set object_names = {}"
  shows "fold parse_param (map param q) t = t @ single q"
  using assms
proof (induction q arbitrary: t)
  case (Cons e q)
  obtain k v where e: "e = (k, v)" by (cases e)
  have "parse_param (param e) t = t @ [(k, One v)]"
    using Cons.prems e by (simp add: parse_param_entry add_param_new)
  with Cons e show ?case by (simp add: single_def)
qed (simp add: single_def)

lemma encoded_key_empty: "encodeQueryKey k = [] \<longleftrightarrow> k = []"
proof
  assume "encodeQueryKey k = []"
  then have "decode (blanks (encodeQueryKey k)) = decode []" by simp
  then show "k = []" unfolding decode_key by (simp add: decode_def)
qed (simp add: encodeQueryKey_tokens)

lemma stringify_params:
  assumes "\<forall>e \<in> set q. fst e \<noteq> []"
  shows "fold stringify_entry (single q) t = (if q = [] then t else if t = [] then java_join (CHR ''&'') (map param q) else t @ CHR ''&'' # java_join (CHR ''&'') (map param q))"
  using assms
proof (induction q arbitrary: t)
  case (Cons e q)
  obtain k v where e: "e = (k, v)" by (cases e)
  have step: "stringify_entry (k, One v) t = (if t = [] then param e else t @ CHR ''&'' # param e)"
    using e by (simp add: stringify_entry_def stringify_one_def param_def)
  have ne: "param e \<noteq> []" using Cons.prems e encoded_key_empty by (simp add: param_def)
  show ?case
    using Cons.IH[of "if t = [] then param e else t @ CHR ''&'' # param e"] Cons.prems ne e step
    by (cases q) (auto simp: single_def)
qed (simp add: single_def)

lemma param_no_amp: "CHR ''&'' \<notin> set (param e)"
  using key_no_amp value_no_amp by (auto simp: param_def split: option.splits)

lemma stands_for_shape:
  assumes "stands_for ts c"
  obtains x r where "concat ts = x # r" "x = CHR ''?'' \<Longrightarrow> c = CHR ''?''"
proof -
  have "decodes_to (map blanks ts) c" using assms by (simp add: stands_for_def)
  then have "\<exists>x r. concat (map blanks ts) = x # r \<and> (x = CHR ''?'' \<longrightarrow> c = CHR ''?'')"
    by (cases "(map blanks ts, c)" rule: decodes_to.cases) (auto split: option.splits)
  then obtain x r where "blanks (concat ts) = x # r" "x = CHR ''?'' \<longrightarrow> c = CHR ''?''" by (auto simp: map_concat)
  then show thesis using that by (cases "concat ts") (auto split: if_splits)
qed

lemma encodeQueryKey_hd:
  assumes "k \<noteq> []" and "hd k \<noteq> CHR ''?''"
  shows "hd (encodeQueryKey k) \<noteq> CHR ''?''"
proof -
  obtain c k' where k: "k = c # k'" using assms(1) by (cases k) auto
  obtain x r where "concat (key_tokens c) = x # r" "x = CHR ''?'' \<Longrightarrow> c = CHR ''?''"
    using stands_for_shape[OF key_stands[of c]] by blast
  with k assms(2) show ?thesis by (auto simp: encodeQueryKey_tokens)
qed

lemma hd_java_join: "xs \<noteq> [] \<Longrightarrow> hd xs \<noteq> [] \<Longrightarrow> hd (java_join c xs) = hd (hd xs)"
  by (cases xs rule: list.exhaust, simp, rename_tac x ys, case_tac ys) simp_all

text \<open>A key that the parser treats as an ordinary name.\<close>

definition plain_key :: "string \<Rightarrow> bool" where
  "plain_key k \<longleftrightarrow> k \<noteq> [] \<and> hd k \<noteq> CHR ''?'' \<and> k \<notin> set object_names \<and> \<not> list_all (\<lambda>c. c \<in> set ''0123456789'') k"

definition query_ok :: "(string \<times> string option) list \<Rightarrow> bool" where
  "query_ok q \<longleftrightarrow> distinct (map fst q) \<and> list_all (\<lambda>e. plain_key (fst e)) q"

text \<open>C2: reading back a query that the router has written gives the query, whatever its values, for queries with one value
  to each key and keys that are not empty, do not start with a question mark, are not all digits, and are not the name of
  a property that every object inherits, such as \<open>constructor\<close>.\<close>

theorem query_round_trip:
  assumes "query_ok q"
  shows "parseQuery (stringifyQuery (single q)) = single q"
proof (cases q)
  case Nil
  then show ?thesis by (simp add: stringifyQuery_def parseQuery_def single_def)
next
  case (Cons e es)
  let ?s = "java_join (CHR ''&'') (map param q)"
  have keys: "\<forall>e \<in> set q. fst e \<noteq> []" and dist: "distinct (map fst q)" and own: "fst ` set q \<inter> set object_names = {}"
    using assms by (auto simp: query_ok_def plain_key_def list_all_iff)
  have str: "stringifyQuery (single q) = ?s"
    using stringify_params[OF keys, of "[]"] Cons by (simp add: stringifyQuery_def)
  have ke: "fst e \<noteq> []" "hd (fst e) \<noteq> CHR ''?''" using assms Cons by (auto simp: query_ok_def plain_key_def)
  then have pe: "param e \<noteq> []" "hd (param e) \<noteq> CHR ''?''"
    using encodeQueryKey_hd[OF ke] encoded_key_empty by (simp_all add: param_def)
  then have hd: "hd ?s \<noteq> CHR ''?''" using Cons by (simp add: hd_java_join)
  moreover have "?s \<noteq> []" using pe(1) Cons by (cases es) simp_all
  moreover have "pieces (CHR ''&'') ?s = map param q"
    by (rule pieces_join) (use Cons in \<open>auto simp: param_no_amp\<close>)
  ultimately show ?thesis
    using parse_params[OF dist _ own, of "[]"] by (auto simp: str parseQuery_def)
qed

theorem query_round_trip_witness:
  "parseQuery (stringifyQuery (single [(''redirect'', Some ''/node?a=b&c d+%''), (''x'', None)])) =
     single [(''redirect'', Some ''/node?a=b&c d+%''), (''x'', None)]"
  by (rule query_round_trip) (simp add: query_ok_def plain_key_def object_names_def)

text \<open>A key that every object inherits is read back as an array that starts with the inherited function.\<close>

theorem inherited_key_read:
  "parseQuery (stringifyQuery (single [(''constructor'', Some ''x'')])) = [(''constructor'', Inherited [Some ''x''])]"
  by code_simp

end
