(* ===== verification/Dashboard.thy ===== *)
theory Dashboard
  imports Router
begin

text \<open>
  The core of the web dashboard (\<open>index-e87360db.js\<close>, line 60, the login page at the end of
  \<open>index-7e4c6da8.js\<close>, the header and sidebar of \<open>index-710a5cd6.js\<close> and the start of the home
  page at the end of \<open>home-296339b0.js\<close>): the browser's storage, the two interceptors that
  every request to the cluster manager passes, login and logout, and the polling that feeds
  the charts of the home page.
\<close>

section \<open>State\<close>

record LoginInfo =
  userName :: string
  isLogin :: int

text \<open>The charts kept in the session storage: a value and a time per poll, and for the GPUs one list
  of values per node.\<close>

record chart =
  c_data :: "int list"
  c_time :: "string list"

record gpu_chart =
  g_data :: "(string \<times> int list) list"
  g_time :: "string list"

text \<open>The state of a browser tab: the base address of the page, the current route, the local storage
  (\<open>loginInfo\<close>), the session storage (the mark of a running poll and the four charts), the
  message of the login page, the user shown in the header, the pictures of the sidebar that are shown as active with
  the menu entries, and the pop-up messages.  What JSON writes to the storage it reads back.\<close>

record browser =
  b_base :: string
  b_route :: route
  b_loginInfo :: "LoginInfo option"
  b_isRequest :: bool
  b_gpuSession :: "gpu_chart option"
  b_actionSession :: "chart option"
  b_waitSession :: "chart option"
  b_waitingQueue :: "chart option"
  b_loginError :: string
  b_header :: LoginInfo
  b_menu :: "string list"
  b_active :: "string list"
  b_toasts :: "string list"

text \<open>\<open>Nne\<close>: \<open>sessionStorage.clear()\<close>.\<close>

definition clear_session :: "browser \<Rightarrow> browser" where
  "clear_session b = b\<lparr>b_isRequest := False, b_gpuSession := None, b_actionSession := None, b_waitSession := None,
     b_waitingQueue := None\<rparr>"

definition push :: "location \<Rightarrow> browser \<Rightarrow> browser" where
  "push l b = b\<lparr>b_route := resolve l (b_route b)\<rparr>"

definition to_login :: "browser \<Rightarrow> browser" where
  "to_login b = push (At ''/login'' [(''redirect'', One (Some (r_fullPath (b_route b))))]) b"

section \<open>Interceptors\<close>

text \<open>A promise that is settled.\<close>

datatype 'a promise = Resolved 'a | Rejected string

text \<open>The body of a reply of the cluster manager.\<close>

record 'd reply =
  code :: int
  msg :: "string option"
  payload :: 'd
  is_buffer :: bool

definition whitelist :: "string list" where
  "whitelist = [''/eggroll/getPublicKey'', ''/eggroll/login'']"

definition loggedOut :: "browser \<Rightarrow> bool" where
  "loggedOut b \<longleftrightarrow> (case b_loginInfo b of None \<Rightarrow> False | Some t \<Rightarrow> isLogin t = 0)"

text \<open>The interceptor of requests: without a login nothing but the two requests of the login itself is
  sent, and the page moves to the login page unless it is there.\<close>

definition onRequest :: "string \<Rightarrow> browser \<Rightarrow> string promise \<times> browser" where
  "onRequest url b =
     (if loggedOut b \<and> url \<notin> set whitelist
      then (Rejected ''no login'',
            if \<not> js_includes ''?redirect='' (r_fullPath (b_route b)) \<and> \<not> js_includes ''/login'' (r_fullPath (b_route b))
            then to_login b else b)
      else (Resolved url, b))"

text \<open>The interceptor of replies, with the text of a refusal.\<close>

definition orElse :: "string option \<Rightarrow> string \<Rightarrow> string" where
  "orElse m d = (case m of None \<Rightarrow> d | Some s \<Rightarrow> if s = [] then d else s)"

definition log_out :: "browser \<Rightarrow> browser" where
  "log_out b = (let b1 = clear_session (b\<lparr>b_loginInfo := map_option (\<lambda>r. r\<lparr>isLogin := 0\<rparr>) (b_loginInfo b)\<rparr>) in
     if js_includes ''?redirect='' (r_fullPath (b_route b1)) then b1 else to_login b1)"

definition onResponse :: "'d reply \<Rightarrow> browser \<Rightarrow> 'd reply promise \<times> browser" where
  "onResponse e b =
     (if code e \<in> {0, 10014} then (Resolved e, b)
      else (let b1 = (if code e = 10013 then log_out b else b) in
            (if is_buffer e then Resolved e else Rejected (orElse (msg e) ''error response''), b1)))"

text \<open>The interceptor of failed exchanges: the message of the error, and a pop-up when the reply had a code.\<close>

definition onError :: "string \<Rightarrow> (int \<times> string option) option \<Rightarrow> browser \<Rightarrow> 'd reply promise \<times> browser" where
  "onError message response b =
     (Rejected message,
      case response of None \<Rightarrow> b
      | Some (c, m) \<Rightarrow> if c \<noteq> 0 then b\<lparr>b_toasts := b_toasts b @ [orElse m ''error'']\<rparr> else b)"

text \<open>An exchange with the server: what comes back is a reply or a failure.\<close>

datatype 'd exchange = Reply "'d reply" | Failure string "(int \<times> string option) option"

definition send :: "string \<Rightarrow> 'd exchange \<Rightarrow> browser \<Rightarrow> 'd reply promise \<times> browser" where
  "send url x b = (case onRequest url b of
     (Rejected m, b1) \<Rightarrow> (Rejected m, b1)
   | (Resolved _, b1) \<Rightarrow> (case x of Reply e \<Rightarrow> onResponse e b1 | Failure m r \<Rightarrow> onError m r b1))"

section \<open>Polling the charts\<close>

text \<open>\<open>r0\<close> asks for four figures and appends them; a chart that grows beyond a hundred polls loses its
  oldest one.\<close>

definition chart_limit :: nat where
  "chart_limit = 100"

definition push_gpu :: "(string \<times> int) \<Rightarrow> (string \<times> int list) list \<Rightarrow> (string \<times> int list) list" where
  "push_gpu e t = (let old = (case map_of t (fst e) of None \<Rightarrow> [] | Some xs \<Rightarrow> xs) in AList.update (fst e) (old @ [snd e]) t)"

definition gpu_poll :: "(string \<times> int) list \<Rightarrow> string \<Rightarrow> gpu_chart \<Rightarrow> gpu_chart" where
  "gpu_poll d now t = (let data = fold push_gpu d (g_data t); time = g_time t @ [now] in
     if length time > chart_limit
     then \<lparr>g_data = map (\<lambda>(k, xs). (k, tl xs)) data, g_time = tl time\<rparr>
     else \<lparr>g_data = data, g_time = time\<rparr>)"

definition chart_poll :: "int \<Rightarrow> string \<Rightarrow> chart \<Rightarrow> chart" where
  "chart_poll d now t = (let data = c_data t @ [d]; time = c_time t @ [now] in
     if length data > chart_limit then \<lparr>c_data = tl data, c_time = tl time\<rparr> else \<lparr>c_data = data, c_time = time\<rparr>)"

definition stored :: "'c \<Rightarrow> 'c option \<Rightarrow> 'c" where
  "stored d c = (case c of None \<Rightarrow> d | Some x \<Rightarrow> x)"

abbreviation new_chart :: chart where "new_chart \<equiv> \<lparr>c_data = [], c_time = []\<rparr>"
abbreviation new_gpu_chart :: gpu_chart where "new_gpu_chart \<equiv> \<lparr>g_data = [], g_time = []\<rparr>"

definition gpuLineChart :: "string \<Rightarrow> (string \<times> int) list exchange \<Rightarrow> browser \<Rightarrow> browser" where
  "gpuLineChart now x b = (case send ''/eggroll/gpuLineChart'' x b of
     (Resolved e, b1) \<Rightarrow> if code e = 0
       then b1\<lparr>b_isRequest := True, b_gpuSession := Some (gpu_poll (payload e) now (stored new_gpu_chart (b_gpuSession b1)))\<rparr> else b1
   | (Rejected _, b1) \<Rightarrow> b1)"

definition getActiveSession :: "string \<Rightarrow> int exchange \<Rightarrow> browser \<Rightarrow> browser" where
  "getActiveSession now x b = (case send ''/eggroll/getActiveSession'' x b of
     (Resolved e, b1) \<Rightarrow> if code e = 0
       then b1\<lparr>b_actionSession := Some (chart_poll (payload e) now (stored new_chart (b_actionSession b1)))\<rparr> else b1
   | (Rejected _, b1) \<Rightarrow> b1)"

definition getNewSession :: "string \<Rightarrow> int exchange \<Rightarrow> browser \<Rightarrow> browser" where
  "getNewSession now x b = (case send ''/eggroll/getNewSession'' x b of
     (Resolved e, b1) \<Rightarrow> if code e = 0
       then b1\<lparr>b_waitSession := Some (chart_poll (payload e) now (stored new_chart (b_waitSession b1)))\<rparr> else b1
   | (Rejected _, b1) \<Rightarrow> b1)"

definition getWaitingQueue :: "string \<Rightarrow> int exchange \<Rightarrow> browser \<Rightarrow> browser" where
  "getWaitingQueue now x b = (case send ''/eggroll/getWaitingQueue'' x b of
     (Resolved e, b1) \<Rightarrow> if code e = 0
       then b1\<lparr>b_waitingQueue := Some (chart_poll (payload e) now (stored new_chart (b_waitingQueue b1)))\<rparr> else b1
   | (Rejected _, b1) \<Rightarrow> b1)"

section \<open>Login, logout and the menu\<close>

text \<open>
  The login page asks for the public key, sends the name with the encrypted password, and on
  success remembers the user and returns to the page that asked for the login.  The cipher is
  an argument.  None stands for the exception of a redirect without a target.
\<close>

definition login_target :: "browser \<Rightarrow> location option" where
  "login_target b =
     (if js_includes ''?redirect'' (b_base b @ ''#'' @ r_fullPath (b_route b))
      then (case map_of (r_query (b_route b)) ''redirect'' of Some (One (Some p)) \<Rightarrow> Some (At p []) | _ \<Rightarrow> None)
      else Some (Path ''/''))"

text \<open>\<open>o\<close> of the login page, once the form is valid: \<open>key\<close> and \<open>answer\<close> are the exchanges for the public
  key and for the login, the latter depending on what is sent.\<close>

definition login :: "(string \<Rightarrow> string \<Rightarrow> string) \<Rightarrow> string \<Rightarrow> string \<Rightarrow> string option exchange \<Rightarrow>
    (string \<Rightarrow> string \<Rightarrow> bool exchange) \<Rightarrow> browser \<Rightarrow> browser option" where
  "login encrypt name pass key answer b = (case send ''/eggroll/getPublicKey'' key b of
     (Rejected _, b1) \<Rightarrow> None
   | (Resolved f, b1) \<Rightarrow>
       (let l = orElse (payload f) []; d = encrypt l pass in
        case send ''/eggroll/login'' (answer name d) b1 of
          (Rejected _, b2) \<Rightarrow> None
        | (Resolved c, b2) \<Rightarrow>
            if code c = 0 \<and> payload c
            then (let b3 = b2\<lparr>b_loginInfo := Some \<lparr>userName = name, isLogin = 1\<rparr>\<rparr> in
                  map_option (\<lambda>l. push l b3) (login_target b3))
            else Some (if code c = 10014 \<and> \<not> payload c then b2\<lparr>b_loginError := orElse (msg c) []\<rparr> else b2)))"

text \<open>The header: the name is read when it is mounted and when the page changes, the logo leads
  home, and the logout is remembered once the server has confirmed it.\<close>

definition header_mounted :: "browser \<Rightarrow> browser" where
  "header_mounted b = (case b_loginInfo b of
     Some e \<Rightarrow> if isLogin e = 1 then b\<lparr>b_header := (b_header b)\<lparr>userName := userName e\<rparr>\<rparr> else b | None \<Rightarrow> b)"

definition header_watch :: "browser \<Rightarrow> browser" where
  "header_watch b = (case b_loginInfo b of
     Some A \<Rightarrow> if r_fullPath (b_route b) \<noteq> ''/login'' \<and> userName A \<noteq> userName (b_header b) \<and> isLogin A = 1
       then b\<lparr>b_header := (b_header b)\<lparr>userName := userName A\<rparr>\<rparr> else b
   | None \<Rightarrow> b)"

definition header_logo :: "browser \<Rightarrow> browser" where
  "header_logo b = (case b_loginInfo b of Some e \<Rightarrow> if isLogin e = 1 then push (Path ''/'') b else b | None \<Rightarrow> b)"

definition logout :: "unit exchange \<Rightarrow> browser \<Rightarrow> browser" where
  "logout x b = (case send ''/eggroll/logout'' x b of
     (Resolved e, b1) \<Rightarrow> if code e = 0
       then (let o1 = (b_header b1)\<lparr>isLogin := 0\<rparr> in push (Path ''/login'') (b1\<lparr>b_header := o1, b_loginInfo := Some o1\<rparr>)) else b1
   | (Rejected _, b1) \<Rightarrow> b1)"

text \<open>The routes of the dashboard, with their names and whether the sidebar shows them.\<close>

definition routes :: "(string \<times> string \<times> bool) list" where
  "routes = [(''/login'', ''login'', False), (''/'', ''cluster'', True), (''/processor'', ''processor'', True),
     (''/server'', ''server'', False), (''/session'', ''session'', True), (''/node'', ''node'', True),
     (''/sessionprocessor'', ''sessionprocessor'', False)]"

definition sidebar_pictures :: "string list" where
  "sidebar_pictures = [''cluster'', ''node'', ''session'', ''processor'']"

text \<open>When the sidebar is mounted it marks the current page, which throws on a page without a picture, and
  collects its entries; a selection marks the picture of the new page.\<close>

definition menu_names :: "string list" where
  "menu_names = remdups (map (fst \<circ> snd) (filter (snd \<circ> snd) routes))"

definition sidebar_mounted :: "string \<Rightarrow> browser \<Rightarrow> browser option" where
  "sidebar_mounted name b = (if name \<in> set sidebar_pictures
     then Some (b\<lparr>b_active := List.insert name (b_active b), b_menu := remdups (b_menu b @ menu_names)\<rparr>) else None)"

definition sidebar_mark :: "string \<Rightarrow> string \<Rightarrow> string list \<Rightarrow> string list" where
  "sidebar_mark t i active = (if i = t then List.insert i active else removeAll i active)"

definition sidebar_select :: "string \<Rightarrow> string \<Rightarrow> browser \<Rightarrow> browser" where
  "sidebar_select path name b = (let b1 = push (Path path) b in
     b1\<lparr>b_active := fold (sidebar_mark name) (b_menu b1) (b_active b1)\<rparr>)"

section \<open>The home page\<close>

text \<open>Leaving or reloading the page drops the mark of the poll; a change of the login stops the polling and
  forgets the charts.\<close>

definition beforeunload :: "browser \<Rightarrow> browser" where
  "beforeunload b = b\<lparr>b_isRequest := False\<rparr>"

definition login_changed :: "browser \<Rightarrow> browser" where
  "login_changed b = (if loggedOut b then clear_session b else b)"

section \<open>The charts stay bounded\<close>

definition gpu_ok :: "gpu_chart \<Rightarrow> bool" where
  "gpu_ok c \<longleftrightarrow> length (g_time c) \<le> chart_limit \<and> (\<forall>k xs. map_of (g_data c) k = Some xs \<longrightarrow> length xs \<le> length (g_time c))"

definition chart_ok :: "chart \<Rightarrow> bool" where
  "chart_ok c \<longleftrightarrow> length (c_data c) = length (c_time c) \<and> length (c_time c) \<le> chart_limit"

lemma push_gpu_lookup:
  "map_of (push_gpu (k, v) t) k' = (if k' = k then Some (stored [] (map_of t k) @ [v]) else map_of t k')"
  by (simp add: push_gpu_def stored_def update_conv')

lemma fold_push_gpu:
  assumes "distinct (map fst d)"
  shows "map_of (fold push_gpu d t) k =
    (case map_of d k of None \<Rightarrow> map_of t k | Some v \<Rightarrow> Some (stored [] (map_of t k) @ [v]))"
  using assms
proof (induction d arbitrary: t)
  case (Cons e d)
  obtain k0 v0 where e: "e = (k0, v0)" by (cases e)
  have "k = k0 \<Longrightarrow> map_of d k = None" using Cons.prems e by (simp add: map_of_eq_None_iff)
  with Cons e show ?case by (simp add: push_gpu_lookup split: option.split)
qed simp

lemma map_of_shift: "map_of (map (\<lambda>(k, xs). (k, tl xs)) t) k = map_option tl (map_of t k)"
  by (induction t) auto

lemma gpu_poll_lookup:
  assumes "distinct (map fst d)"
  shows "map_of (g_data (gpu_poll d now c)) k =
    map_option (if length (g_time c) < chart_limit then id else tl)
      (case map_of d k of None \<Rightarrow> map_of (g_data c) k | Some v \<Rightarrow> Some (stored [] (map_of (g_data c) k) @ [v]))"
  by (simp add: gpu_poll_def Let_def map_of_shift fold_push_gpu[OF assms] option.map_id)

lemma gpu_poll_time: "length (g_time (gpu_poll d now c)) = min (length (g_time c) + 1) (if length (g_time c) < chart_limit then chart_limit else length (g_time c))"
  by (simp add: gpu_poll_def Let_def)

lemma gpu_poll_ok:
  assumes "gpu_ok c" and "distinct (map fst d)"
  shows "gpu_ok (gpu_poll d now c)"
proof -
  have len: "length (stored [] (map_of (g_data c) k)) \<le> length (g_time c)" for k
    using assms(1) by (auto simp: gpu_ok_def stored_def split: option.split)
  have old: "map_of (g_data c) k = Some xs \<Longrightarrow> length xs \<le> length (g_time c)" for k xs
    using assms(1) by (simp add: gpu_ok_def)
  have lim: "length (g_time c) \<le> chart_limit" using assms(1) by (simp add: gpu_ok_def)
  show ?thesis
    unfolding gpu_ok_def gpu_poll_lookup[OF assms(2)] gpu_poll_time
  proof (intro conjI allI impI)
    fix k xs
    assume a: "map_option (if length (g_time c) < chart_limit then id else tl)
      (case map_of d k of None \<Rightarrow> map_of (g_data c) k | Some v \<Rightarrow> Some (stored [] (map_of (g_data c) k) @ [v])) = Some xs"
    show "length xs \<le> min (length (g_time c) + 1) (if length (g_time c) < chart_limit then chart_limit else length (g_time c))"
      using a len[of k] lim by (cases "map_of d k") (auto split: if_splits dest!: old)
  qed (use lim in auto)
qed

lemma chart_poll_ok: "chart_ok c \<Longrightarrow> chart_ok (chart_poll v now c)"
  by (auto simp: chart_ok_def chart_poll_def Let_def)

definition charts_ok :: "browser \<Rightarrow> bool" where
  "charts_ok b \<longleftrightarrow> pred_option gpu_ok (b_gpuSession b) \<and> pred_option chart_ok (b_actionSession b) \<and>
     pred_option chart_ok (b_waitSession b) \<and> pred_option chart_ok (b_waitingQueue b)"

text \<open>What the interceptors do to the charts: they are kept or dropped.\<close>

definition kept_or_dropped :: "browser \<Rightarrow> browser \<Rightarrow> bool" where
  "kept_or_dropped b b' \<longleftrightarrow>
     b_gpuSession b' \<in> {b_gpuSession b, None} \<and> b_actionSession b' \<in> {b_actionSession b, None} \<and>
     b_waitSession b' \<in> {b_waitSession b, None} \<and> b_waitingQueue b' \<in> {b_waitingQueue b, None}"

lemma kept_or_dropped_refl [simp]: "kept_or_dropped b b"
  by (simp add: kept_or_dropped_def)

lemma kept_or_dropped_ok: "kept_or_dropped b b' \<Longrightarrow> charts_ok b \<Longrightarrow> charts_ok b'"
  by (auto simp: kept_or_dropped_def charts_ok_def)

lemma kept_trans: "y \<in> {x, None} \<Longrightarrow> z \<in> {y, None} \<Longrightarrow> z \<in> {x, None}"
  by auto

lemma kept_or_dropped_trans: "kept_or_dropped a b \<Longrightarrow> kept_or_dropped b c \<Longrightarrow> kept_or_dropped a c"
  unfolding kept_or_dropped_def by (intro conjI; elim conjE; erule (1) kept_trans)

lemma kept_by_interceptors:
  "kept_or_dropped b (push l b)" "kept_or_dropped b (clear_session b)" "kept_or_dropped b (to_login b)"
  "kept_or_dropped b (log_out b)" "kept_or_dropped b (snd (onRequest url b))" "kept_or_dropped b (snd (onResponse e b))"
  "kept_or_dropped b (snd (onError m r b))"
  by (auto simp: kept_or_dropped_def push_def clear_session_def to_login_def log_out_def onRequest_def onResponse_def onError_def
      Let_def split: option.split prod.split)

lemma send_kept: "kept_or_dropped b (snd (send url x b))"
proof -
  obtain r b1 where r: "onRequest url b = (r, b1)" by fastforce
  have k: "kept_or_dropped b b1" using kept_by_interceptors(5)[of b url] r by simp
  have k2: "kept_or_dropped b (snd (onResponse e b1))" "kept_or_dropped b (snd (onError m q b1))" for e m q
    using kept_or_dropped_trans[OF k] kept_by_interceptors(6,7) by blast+
  show ?thesis
    using r k k2 unfolding send_def by (cases r; cases x) simp_all
qed

lemma send_cases:
  obtains p b' where "send url x b = (p, b')" "kept_or_dropped b b'"
  using send_kept[of b url x] by (cases "send url x b") simp

definition reply_ok :: "(string \<times> int) list exchange \<Rightarrow> bool" where
  "reply_ok x \<longleftrightarrow> (case x of Reply e \<Rightarrow> distinct (map fst (payload e)) | Failure _ _ \<Rightarrow> True)"

lemma send_resolved: "send url x b = (Resolved e, b') \<Longrightarrow> x = Reply e"
  by (auto simp: send_def onRequest_def onResponse_def onError_def Let_def split: if_splits exchange.splits)

lemma stored_ok: "pred_option P c \<Longrightarrow> P d \<Longrightarrow> P (stored d c)"
  by (cases c) (simp_all add: stored_def)

lemma new_charts_ok [simp]: "chart_ok new_chart" "gpu_ok new_gpu_chart"
  by (simp_all add: chart_ok_def gpu_ok_def)

lemma gpuLineChart_ok:
  assumes "charts_ok b" and "reply_ok x"
  shows "charts_ok (gpuLineChart now x b)"
proof (rule send_cases[of "''/eggroll/gpuLineChart''" x b])
  fix p b' assume s: "send ''/eggroll/gpuLineChart'' x b = (p, b')" "kept_or_dropped b b'"
  have ok: "charts_ok b'" by (rule kept_or_dropped_ok[OF s(2) assms(1)])
  show ?thesis
  proof (cases p)
    case (Resolved e)
    then have "distinct (map fst (payload e))" using send_resolved[OF s(1)[unfolded Resolved]] assms(2) by (simp add: reply_ok_def)
    then have "gpu_ok (gpu_poll (payload e) now (stored new_gpu_chart (b_gpuSession b')))"
      using ok stored_ok[where P = gpu_ok and d = new_gpu_chart] by (simp add: gpu_poll_ok charts_ok_def)
    then have "charts_ok (b'\<lparr>b_isRequest := True, b_gpuSession := Some (gpu_poll (payload e) now (stored new_gpu_chart (b_gpuSession b')))\<rparr>)"
      using ok by (simp add: charts_ok_def)
    with ok show ?thesis unfolding gpuLineChart_def s(1) Resolved by simp
  next
    case (Rejected m)
    show ?thesis using ok unfolding gpuLineChart_def s(1) Rejected by simp
  qed
qed

lemma chart_polls_ok:
  assumes "charts_ok b"
  shows "charts_ok (getActiveSession now x b)" "charts_ok (getNewSession now x b)" "charts_ok (getWaitingQueue now x b)"
proof -
  have step: "pred_option chart_ok c \<Longrightarrow> chart_ok (chart_poll v now (stored new_chart c))" for c v
    using stored_ok[where P = chart_ok and d = new_chart] by (simp add: chart_poll_ok)
  have ok: "send url x b = (p, b') \<Longrightarrow> charts_ok b'" for url p b'
    using kept_or_dropped_ok[OF send_kept assms, of url x] by simp
  have poll: "charts_ok (case send url x b of (Resolved e, b1) \<Rightarrow> if code e = 0 then f e b1 else b1 | (Rejected _, b1) \<Rightarrow> b1)"
    if f: "\<And>e b1. charts_ok b1 \<Longrightarrow> charts_ok (f e b1)" for url f
  proof (rule send_cases[of url x b])
    fix p b' assume s: "send url x b = (p, b')"
    have "charts_ok b'" by (rule ok[OF s])
    with f show ?thesis unfolding s by (cases p) simp_all
  qed
  show "charts_ok (getActiveSession now x b)" unfolding getActiveSession_def by (rule poll) (simp add: charts_ok_def step)
  show "charts_ok (getNewSession now x b)" unfolding getNewSession_def by (rule poll) (simp add: charts_ok_def step)
  show "charts_ok (getWaitingQueue now x b)" unfolding getWaitingQueue_def by (rule poll) (simp add: charts_ok_def step)
qed

lemma login_kept:
  assumes "login enc name pass key answer b = Some b'"
  shows "kept_or_dropped b b'"
proof -
  obtain p1 b1 where s1: "send ''/eggroll/getPublicKey'' key b = (p1, b1)" "kept_or_dropped b b1" by (rule send_cases)
  then obtain f where f: "p1 = Resolved f" using assms by (cases p1) (simp_all add: login_def)
  let ?x = "answer name (enc (orElse (payload f) []) pass)"
  obtain p2 b2 where s2: "send ''/eggroll/login'' ?x b1 = (p2, b2)" "kept_or_dropped b1 b2" by (rule send_cases)
  then obtain c where c: "p2 = Resolved c" using assms s1(1) f by (cases p2) (simp_all add: login_def)
  have "kept_or_dropped b2 b'"
  proof (cases "code c = 0 \<and> payload c")
    case True
    then show ?thesis using assms s1(1) f s2(1) c by (auto simp: login_def Let_def kept_or_dropped_def push_def)
  next
    case False
    then show ?thesis using assms s1(1) f s2(1) c by (auto simp: login_def kept_or_dropped_def split: if_splits)
  qed
  with s1 s2 show ?thesis by (blast intro: kept_or_dropped_trans)
qed

lemma logout_kept: "kept_or_dropped b (logout x b)"
proof (rule send_cases[of "''/eggroll/logout''" x b])
  fix p b' assume "send ''/eggroll/logout'' x b = (p, b')" "kept_or_dropped b b'"
  then show ?thesis by (cases p) (auto simp: logout_def Let_def kept_or_dropped_def push_def)
qed

lemma navigation_kept:
  "kept_or_dropped b (header_mounted b)" "kept_or_dropped b (header_watch b)" "kept_or_dropped b (header_logo b)"
  "sidebar_mounted name b = Some b' \<Longrightarrow> kept_or_dropped b b'" "kept_or_dropped b (sidebar_select path name b)"
  "kept_or_dropped b (beforeunload b)" "kept_or_dropped b (login_changed b)"
  by (auto simp: kept_or_dropped_def header_mounted_def header_watch_def header_logo_def sidebar_mounted_def sidebar_select_def
      beforeunload_def login_changed_def clear_session_def push_def Let_def split: option.splits if_splits)

text \<open>The events of a tab, and the tabs that they lead to from an empty storage.\<close>

inductive event :: "browser \<Rightarrow> browser \<Rightarrow> bool" where
  gpu: "reply_ok x \<Longrightarrow> event b (gpuLineChart now x b)"
| active: "event b (getActiveSession now y b)"
| newer: "event b (getNewSession now y b)"
| queue: "event b (getWaitingQueue now y b)"
| other: "event b (snd (send url (z :: unit exchange) b))"
| navigate: "event b (push l b)"
| logs_in: "login enc name pass key answer b = Some b' \<Longrightarrow> event b b'"
| logs_out: "event b (logout u b)"
| header: "b' \<in> {header_mounted b, header_watch b, header_logo b} \<Longrightarrow> event b b'"
| sidebar: "sidebar_mounted name b = Some b' \<Longrightarrow> event b b'"
| select: "event b (sidebar_select path name b)"
| home: "b' \<in> {beforeunload b, login_changed b} \<Longrightarrow> event b b'"

inductive_cases eventE: "event b b'"

lemma event_ok: "event b b' \<Longrightarrow> charts_ok b \<Longrightarrow> charts_ok b'"
  by (induction rule: event.induct)
     (auto intro: gpuLineChart_ok chart_polls_ok kept_or_dropped_ok send_kept kept_by_interceptors(1) login_kept logout_kept navigation_kept)

text \<open>C1: whatever a tab does, from empty storage on, each session chart keeps as many times as values and never
  more than a hundred, and no series of the GPU chart has more values than the chart has times, of
  which there are never more than a hundred.\<close>

theorem charts_bounded:
  assumes "event\<^sup>*\<^sup>* b b'" and "b_gpuSession b = None" and "b_actionSession b = None" and "b_waitSession b = None"
    and "b_waitingQueue b = None"
  shows "pred_option gpu_ok (b_gpuSession b') \<and> pred_option chart_ok (b_actionSession b') \<and>
    pred_option chart_ok (b_waitSession b') \<and> pred_option chart_ok (b_waitingQueue b')"
proof -
  have "charts_ok b'"
    using assms(1)
  proof (induction rule: rtranclp_induct)
    case base
    then show ?case using assms(2-) by (simp add: charts_ok_def)
  qed (blast intro: event_ok)
  then show ?thesis by (simp add: charts_ok_def)
qed

definition sample_tab :: "string \<Rightarrow> int \<Rightarrow> browser" where
  "sample_tab path state = \<lparr>b_base = ''http://eggroll:8083/'', b_route = \<lparr>r_fullPath = path, r_path = path, r_query = []\<rparr>,
     b_loginInfo = Some \<lparr>userName = ''ada'', isLogin = state\<rparr>, b_isRequest = False, b_gpuSession = None, b_actionSession = None,
     b_waitSession = None, b_waitingQueue = None, b_loginError = [], b_header = \<lparr>userName = ''eggroll'', isLogin = 0\<rparr>,
     b_menu = [], b_active = [], b_toasts = []\<rparr>"

definition ok_reply :: "'d \<Rightarrow> 'd exchange" where
  "ok_reply d = Reply \<lparr>code = 0, msg = None, payload = d, is_buffer = False\<rparr>"

theorem charts_bounded_witness:
  "pred_option gpu_ok (b_gpuSession (gpuLineChart ''10:00:00'' (ok_reply [(''1'', 4)]) (sample_tab ''/'' 1)))"
proof -
  have "event\<^sup>*\<^sup>* (sample_tab ''/'' 1) (gpuLineChart ''10:00:00'' (ok_reply [(''1'', 4)]) (sample_tab ''/'' 1))"
    by (rule r_into_rtranclp, rule event.gpu) (simp add: reply_ok_def ok_reply_def)
  from charts_bounded[OF this] show ?thesis by (simp add: sample_tab_def)
qed

section \<open>A node that joins late\<close>

text \<open>once the GPU chart is full, a node that was not in it has an empty line for ever, whatever the polls
  report about it: the value appended is the one that is dropped.\<close>

theorem late_gpu_line_stays_empty:
  assumes "length (g_time c) = chart_limit" and "map_of (g_data c) k \<in> {None, Some []}"
    and "\<forall>(d, now) \<in> set polls. distinct (map fst d)"
  shows "map_of (g_data (fold (\<lambda>(d, now). gpu_poll d now) polls c)) k \<in> {None, Some []}"
  using assms
proof (induction polls arbitrary: c)
  case (Cons x polls)
  obtain d now where x: "x = (d, now)" by (cases x)
  have d: "distinct (map fst d)" using Cons.prems(3) x by simp
  have "map_of (g_data (gpu_poll d now c)) k \<in> {None, Some []}"
    unfolding gpu_poll_lookup[OF d] using Cons.prems(1,2) by (auto simp: stored_def split: option.split)
  moreover have "length (g_time (gpu_poll d now c)) = chart_limit" using Cons.prems(1) by (simp add: gpu_poll_time)
  ultimately show ?case using Cons x by simp
qed simp

theorem late_gpu_line_stays_empty_witness:
  "map_of (g_data (fold (\<lambda>(d, now). gpu_poll d now) [([(''9'', 8)], ''10:05:00''), ([(''9'', 7)], ''10:05:03'')]
      \<lparr>g_data = [], g_time = replicate chart_limit ''10:00:00''\<rparr>)) ''9'' \<in> {None, Some []}"
  by (rule late_gpu_line_stays_empty) simp_all

section \<open>Losing the login and coming back\<close>

text \<open>The address of a page of the dashboard: absolute, without query and hash, and not the login page.\<close>

definition page :: "string \<Rightarrow> bool" where
  "page p \<longleftrightarrow> prefix ''/'' p \<and> CHR ''?'' \<notin> set p \<and> CHR ''#'' \<notin> set p \<and> \<not> js_includes ''/login'' p"

lemma page_no_redirect: "CHR ''?'' \<notin> set p \<Longrightarrow> \<not> js_includes (CHR ''?'' # s) p"
  unfolding js_includes_def by (induction p) (auto simp: prefix_Cons)

lemma parseURL_plain:
  assumes "prefix ''/'' p" and "CHR ''?'' \<notin> set p" and "CHR ''#'' \<notin> set p"
  shows "parseURL p z = \<lparr>u_fullPath = p, u_path = p, u_query = [], u_hash = []\<rparr>"
  using assms by (simp add: parseURL_def indexOf_char_notin resolveRelativePath_def)

lemma to_login_route:
  "r_path (b_route (to_login b)) = ''/login''"
  "r_query (b_route (to_login b)) = [(''redirect'', One (Some (r_fullPath (b_route b))))]"
  "r_fullPath (b_route (to_login b)) = ''/login?redirect='' @ encodeQueryValue (r_fullPath (b_route b))"
proof -
  have l: "parseURL ''/login'' z = \<lparr>u_fullPath = ''/login'', u_path = ''/login'', u_query = [], u_hash = []\<rparr>" for z
    by (rule parseURL_plain) simp_all
  have "encodeQueryKey ''redirect'' = ''redirect''" by code_simp
  then show "r_path (b_route (to_login b)) = ''/login''"
    "r_query (b_route (to_login b)) = [(''redirect'', One (Some (r_fullPath (b_route b))))]"
    "r_fullPath (b_route (to_login b)) = ''/login?redirect='' @ encodeQueryValue (r_fullPath (b_route b))"
    by (simp_all add: to_login_def push_def resolve_def l stringifyURL_def stringifyQuery_def stringify_entry_def stringify_one_def)
qed

lemma to_login_marks:
  "js_includes ''?redirect='' (r_fullPath (b_route (to_login b)))"
  "js_includes ''?redirect'' (c @ ''#'' @ r_fullPath (b_route (to_login b)))"
  unfolding to_login_route
  using js_includes_middle[of "''?redirect=''" "''/login''"] js_includes_middle[of "''?redirect''" "c @ ''#/login''"] by simp_all

lemma to_login_fields [simp]:
  "b_loginInfo (to_login b) = b_loginInfo b" "b_base (to_login b) = b_base b" "loggedOut (to_login b) = loggedOut b"
  by (simp_all add: to_login_def push_def loggedOut_def)

text \<open>C5: a request from a page of the dashboard without a login is refused and shows the login page;
  after a login that the server accepts the dashboard is on that page again, the user is
  remembered, and requests pass.\<close>

theorem login_returns_to_page:
  assumes "loggedOut b" and "url \<notin> set whitelist" and "page (r_fullPath (b_route b))"
    and "code f = 0" and "\<And>n d. answer n d = Reply (c n d)" and "\<And>n d. code (c n d) = 0 \<and> payload (c n d)"
  shows "\<exists>b1 b2. onRequest url b = (Rejected ''no login'', b1) \<and> r_path (b_route b1) = ''/login'' \<and>
    login enc name pass (Reply f) answer b1 = Some b2 \<and> r_fullPath (b_route b2) = r_fullPath (b_route b) \<and>
    b_loginInfo b2 = Some \<lparr>userName = name, isLogin = 1\<rparr> \<and> onRequest url b2 = (Resolved url, b2)"
proof -
  let ?p = "r_fullPath (b_route b)" and ?b1 = "to_login b"
  have pg: "prefix ''/'' ?p" "CHR ''?'' \<notin> set ?p" "CHR ''#'' \<notin> set ?p" "\<not> js_includes ''/login'' ?p"
    using assms(3) by (auto simp: page_def)
  have req: "onRequest url b = (Rejected ''no login'', ?b1)"
    using assms(1,2) pg(4) page_no_redirect[OF pg(2)] by (simp add: onRequest_def)
  have white: "onRequest u x = (Resolved u, x)" if "u \<in> set whitelist" for u x using that by (simp add: onRequest_def)
  let ?c = "c name (enc (orElse (payload f) []) pass)"
  have s1: "send ''/eggroll/getPublicKey'' (Reply f) ?b1 = (Resolved f, ?b1)"
    using assms(4) white[of "''/eggroll/getPublicKey''"] by (simp add: send_def onResponse_def whitelist_def)
  have s2: "send ''/eggroll/login'' (answer name (enc (orElse (payload f) []) pass)) ?b1 = (Resolved ?c, ?b1)"
    using assms(5,6) white[of "''/eggroll/login''"] by (simp add: send_def onResponse_def whitelist_def)
  let ?b3 = "?b1\<lparr>b_loginInfo := Some \<lparr>userName = name, isLogin = 1\<rparr>\<rparr>"
  have t: "login_target ?b3 = Some (At ?p [])"
    using to_login_marks(2)[where c = "b_base b" and b = b] by (simp add: login_target_def to_login_route(2))
  have in1: "login enc name pass (Reply f) answer ?b1 = Some (push (At ?p []) ?b3)"
    using assms(6) by (simp add: login_def s1 s2 t)
  have fp: "r_fullPath (b_route (push (At ?p []) ?b3)) = ?p"
    by (simp add: push_def resolve_def Let_def parseURL_plain[OF pg(1-3)] stringifyURL_def stringifyQuery_def)
  have pass: "onRequest url (push (At ?p []) ?b3) = (Resolved url, push (At ?p []) ?b3)"
    by (simp add: onRequest_def loggedOut_def push_def)
  show ?thesis
    using req in1 fp pass by (intro exI[of _ ?b1] exI[of _ "push (At ?p []) ?b3"]) (simp add: to_login_route(1) push_def)
qed

theorem login_returns_to_page_witness:
  "\<exists>b1 b2. onRequest ''/eggroll/sessionMain'' (sample_tab ''/session'' 0) = (Rejected ''no login'', b1) \<and>
     r_path (b_route b1) = ''/login'' \<and>
     login (\<lambda>k t. t) ''ada'' ''secret'' (ok_reply (Some ''key'')) (\<lambda>n d. ok_reply True) b1 = Some b2 \<and>
     r_fullPath (b_route b2) = ''/session''"
  using login_returns_to_page[of "sample_tab ''/session'' 0" "''/eggroll/sessionMain''"
      "\<lparr>code = 0, msg = None, payload = Some ''key'', is_buffer = False\<rparr>" "\<lambda>n d. ok_reply True"
      "\<lambda>n d. \<lparr>code = 0, msg = None, payload = True, is_buffer = False\<rparr>" "\<lambda>k t. t" "''ada''" "''secret''"]
  by (simp add: sample_tab_def ok_reply_def loggedOut_def whitelist_def page_def js_includes_def) blast

text \<open>C4: when the server reports an expired session to a tab with a stored login, the login is withdrawn and the stored charts are dropped.  The tab goes
  to the login page, which remembers the page it came from; only a tab whose address carries \<open>?redirect=\<close> already, as
  that of the login page does, stays where it is.  The next request, other than those of a login, is refused without a
  further change of the tab, and so are all after it.\<close>

theorem expired_session_refuses:
  assumes "code e = 10013" and "b_loginInfo b = Some l" and "url \<notin> set whitelist"
  shows "\<exists>p b'. onResponse e b = (p, b') \<and> loggedOut b' \<and>
    b_gpuSession b' = None \<and> b_actionSession b' = None \<and> b_waitSession b' = None \<and> b_waitingQueue b' = None \<and>
    (if js_includes ''?redirect='' (r_fullPath (b_route b)) then b_route b' = b_route b
     else r_path (b_route b') = ''/login'' \<and> r_query (b_route b') = [(''redirect'', One (Some (r_fullPath (b_route b))))]) \<and>
    js_includes ''?redirect='' (r_fullPath (b_route b')) \<and> onRequest url b' = (Rejected ''no login'', b')"
proof -
  have out: "snd (onResponse e b) = log_out b" using assms(1) by (simp add: onResponse_def Let_def)
  have lo: "loggedOut (log_out b)" using assms(2) by (simp add: log_out_def Let_def clear_session_def loggedOut_def)
  have red: "js_includes ''?redirect='' (r_fullPath (b_route (log_out b)))"
    using to_login_marks(1) by (simp add: log_out_def Let_def)
  have dropped: "b_gpuSession (log_out b) = None \<and> b_actionSession (log_out b) = None \<and> b_waitSession (log_out b) = None \<and>
      b_waitingQueue (log_out b) = None"
    by (simp add: log_out_def Let_def clear_session_def to_login_def push_def)
  have route: "if js_includes ''?redirect='' (r_fullPath (b_route b)) then b_route (log_out b) = b_route b
     else r_path (b_route (log_out b)) = ''/login'' \<and> r_query (b_route (log_out b)) = [(''redirect'', One (Some (r_fullPath (b_route b))))]"
    by (simp add: log_out_def Let_def to_login_route) (simp add: clear_session_def)
  have "onRequest url (log_out b) = (Rejected ''no login'', log_out b)"
    using lo red assms(3) by (simp add: onRequest_def)
  with out lo red route dropped show ?thesis by (intro exI[of _ "fst (onResponse e b)"] exI[of _ "log_out b"]) (simp flip: out)
qed

theorem expired_session_refuses_witness:
  "\<exists>p b'. onResponse \<lparr>code = 10013, msg = None, payload = (), is_buffer = False\<rparr> (sample_tab ''/node'' 1) = (p, b') \<and> loggedOut b'"
  using expired_session_refuses[of "\<lparr>code = 10013, msg = None, payload = (), is_buffer = False\<rparr>" "sample_tab ''/node'' 1"
      "\<lparr>userName = ''ada'', isLogin = 1\<rparr>" "''/eggroll/serverNode''"]
  by (auto simp: sample_tab_def whitelist_def)

section \<open>The menu\<close>

lemma sidebar_marks:
  "set (fold (sidebar_mark t) menu active) = (set active - set menu) \<union> (if t \<in> set menu then {t} else {})"
  by (induction menu arbitrary: active) (auto simp: sidebar_mark_def)

text \<open>After a selection the sidebar shows exactly the picture of the selected page as active, if the sidebar has
  been mounted on one of its pages.\<close>

theorem sidebar_single_active:
  assumes "sidebar_mounted start b = Some b1" and "b_active b = []" and "b_menu b = []" and "name \<in> set menu_names"
  shows "set (b_active (sidebar_select path name b1)) = {name}"
proof -
  have b1: "start \<in> set sidebar_pictures" "set (b_active b1) = {start}" "set (b_menu b1) = set menu_names"
    using assms(1-3) by (auto simp: sidebar_mounted_def split: if_splits)
  moreover have "set sidebar_pictures = set menu_names" by code_simp
  ultimately show ?thesis
    using assms(4) by (auto simp: sidebar_select_def Let_def push_def sidebar_marks)
qed

theorem sidebar_single_active_witness:
  "\<exists>b1. sidebar_mounted ''cluster'' (sample_tab ''/'' 1) = Some b1 \<and> set (b_active (sidebar_select ''/node'' ''node'' b1)) = {''node''}"
proof -
  obtain b1 where "sidebar_mounted ''cluster'' (sample_tab ''/'' 1) = Some b1" by (simp add: sidebar_mounted_def sidebar_pictures_def)
  moreover have "''node'' \<in> set menu_names" by code_simp
  ultimately show ?thesis using sidebar_single_active[of "''cluster''" "sample_tab ''/'' 1" b1 "''node''" "''/node''"] by (simp add: sample_tab_def)
qed

end
