(* ===== verification/Dashboard_Views.thy ===== *)
theory Dashboard_Views
  imports Dashboard
begin

text \<open>
  The table pages of the dashboard: sessions (\<open>index-80153201.js\<close>), processors
  (\<open>index-199227cb.js\<close>), nodes with their resources (\<open>index-ca7faabf.js\<close>), the two plain tables
  (\<open>index-2323a9fb.js\<close>, \<open>index-a677f04a.js\<close>) and the table in a dialog
  (\<open>dialogTable-93e56230.js\<close>).  An operation of a page changes the page and may ask the server;
  the reply is handled by an operation of its own.  The rendering itself is not modelled.
\<close>

section \<open>Rows, requests and replies\<close>

datatype jsval = JNum int | JStr string

type_synonym row = "(string \<times> string) list"

datatype request = Request (r_url: string) (r_params: "(string \<times> jsval) list")

text \<open>\<open>Ri\<close>: a missing or empty time is shown as a dash; the formatting is that of the date library.\<close>

definition formatTime :: "(string \<Rightarrow> string) \<Rightarrow> string option \<Rightarrow> string" where
  "formatTime dayjs e = (case e of None \<Rightarrow> ''-'' | Some s \<Rightarrow> if s = [] then ''-'' else dayjs s)"

definition field :: "string \<Rightarrow> row \<Rightarrow> string" where
  "field k r = (case map_of r k of None \<Rightarrow> [] | Some v \<Rightarrow> v)"

definition format_field :: "(string \<Rightarrow> string) \<Rightarrow> string \<Rightarrow> row \<Rightarrow> row" where
  "format_field dayjs k r = AList.update k (formatTime dayjs (map_of r k)) r"

definition format_row :: "(string \<Rightarrow> string) \<Rightarrow> row \<Rightarrow> row" where
  "format_row dayjs r = format_field dayjs ''createdAt'' (format_field dayjs ''updatedAt'' r)"

text \<open>The replies: the rows of a table with their total, and the answer to a kill.\<close>

record table_reply =
  t_code :: int
  t_total :: int
  t_data :: "row list"

record kill_reply =
  k_code :: int
  k_msg :: string
  k_data :: string

record pager =
  page_no :: int
  pageSize :: int

definition page_params :: "pager \<Rightarrow> (string \<times> jsval) list" where
  "page_params u = [(''pageNum'', JNum (page_no u)), (''pageSize'', JNum (pageSize u))]"

definition createdAt_param :: "(string \<Rightarrow> string) \<Rightarrow> string option \<Rightarrow> jsval" where
  "createdAt_param day t = JStr (case t of None \<Rightarrow> [] | Some s \<Rightarrow> if s = [] then [] else formatTime day (Some s))"

section \<open>The processors\<close>

record processor_view =
  pv_pager :: pager
  pv_pid :: "int option"
  pv_sessionId :: string
  pv_status :: string
  pv_createTime :: "string option"
  pv_total :: int
  pv_rows :: "row list"
  pv_dialog :: bool
  pv_dialogRows :: "row list"
  pv_c_sessionId :: string
  pv_c_serverNodeId :: string
  pv_toasts :: "string list"

definition new_processor_view :: processor_view where
  "new_processor_view = \<lparr>pv_pager = \<lparr>page_no = 1, pageSize = 20\<rparr>, pv_pid = None, pv_sessionId = [], pv_status = [], pv_createTime = None,
     pv_total = 0, pv_rows = [], pv_dialog = False, pv_dialogRows = [], pv_c_sessionId = [], pv_c_serverNodeId = [], pv_toasts = []\<rparr>"

definition pid_param :: "int option \<Rightarrow> jsval" where
  "pid_param p = (case p of None \<Rightarrow> JStr [] | Some i \<Rightarrow> if i = 0 then JStr [] else JNum i)"

definition processor_list :: "(string \<Rightarrow> string) \<Rightarrow> processor_view \<Rightarrow> request" where
  "processor_list day a = Request ''/eggroll/sessionProcessor'' (page_params (pv_pager a) @
     [(''pid'', pid_param (pv_pid a)), (''sessionId'', JStr (pv_sessionId a)),
      (''createdAt'', createdAt_param day (pv_createTime a)), (''status'', JStr (pv_status a))])"

definition processor_loaded :: "(string \<Rightarrow> string) \<Rightarrow> table_reply \<Rightarrow> processor_view \<Rightarrow> processor_view" where
  "processor_loaded dayjs t a = (if t_code t = 0
     then a\<lparr>pv_total := t_total t, pv_rows := map (format_row dayjs) (t_data t)\<rparr> else a)"

definition processor_sizeChange :: "int \<Rightarrow> processor_view \<Rightarrow> processor_view" where
  "processor_sizeChange n a = a\<lparr>pv_pager := (pv_pager a)\<lparr>pageSize := n\<rparr>\<rparr>"

definition processor_currentChange :: "int \<Rightarrow> processor_view \<Rightarrow> processor_view" where
  "processor_currentChange n a = a\<lparr>pv_pager := (pv_pager a)\<lparr>page_no := n\<rparr>\<rparr>"

definition processor_search :: "processor_view \<Rightarrow> processor_view" where
  "processor_search a = a\<lparr>pv_pager := \<lparr>page_no = 1, pageSize = 20\<rparr>\<rparr>"

definition processor_refresh :: "processor_view \<Rightarrow> processor_view" where
  "processor_refresh a = a\<lparr>pv_createTime := None, pv_pid := None, pv_sessionId := [], pv_status := [],
     pv_pager := \<lparr>page_no = 1, pageSize = 20\<rparr>\<rparr>"

definition processor_kill_disabled :: "row \<Rightarrow> bool" where
  "processor_kill_disabled r \<longleftrightarrow> field ''status'' r \<notin> {''RUNNING''}"

definition processor_kill :: "row \<Rightarrow> request" where
  "processor_kill r = Request ''/eggroll/killProcessor'' [(''processorId'', JStr (field ''processorId'' r))]"

text \<open>The answer to a kill: the flag says whether the table is loaded again.\<close>

definition processor_killed :: "kill_reply \<Rightarrow> processor_view \<Rightarrow> processor_view \<times> bool" where
  "processor_killed t a = (if k_code t = 0
     then (a\<lparr>pv_toasts := pv_toasts a @ [if k_msg t = [] then k_data t else k_msg t]\<rparr>, True)
     else (a\<lparr>pv_toasts := pv_toasts a @ [k_msg t]\<rparr>, False))"

text \<open>\<open>A\<close> opens the dialog for a row, or asks again for the last one.\<close>

definition processor_dialog :: "row option \<Rightarrow> processor_view \<Rightarrow> processor_view \<times> request" where
  "processor_dialog r a =
     (let a1 = a\<lparr>pv_dialog := True,
            pv_c_sessionId := (case r of None \<Rightarrow> pv_c_sessionId a | Some x \<Rightarrow> field ''sessionId'' x),
            pv_c_serverNodeId := (case r of None \<Rightarrow> pv_c_serverNodeId a | Some x \<Rightarrow> field ''serverNodeId'' x)\<rparr>
      in (a1, Request ''/eggroll/processorResource''
                [(''sessionId'', JStr (pv_c_sessionId a1)), (''serverNodeId'', JStr (pv_c_serverNodeId a1))]))"

definition processor_dialogLoaded :: "(string \<Rightarrow> string) \<Rightarrow> table_reply \<Rightarrow> processor_view \<Rightarrow> processor_view" where
  "processor_dialogLoaded dayjs t a = (if t_code t = 0 then a\<lparr>pv_dialogRows := map (format_row dayjs) (t_data t)\<rparr> else a)"

definition processor_dialogRefresh :: "processor_view \<Rightarrow> processor_view \<times> request" where
  "processor_dialogRefresh a = processor_dialog None a"

definition processor_dialogClose :: "processor_view \<Rightarrow> processor_view" where
  "processor_dialogClose a = a\<lparr>pv_dialog := False\<rparr>"

section \<open>The sessions\<close>

record session_view =
  sv_sessionId :: string
  sv_status :: string
  sv_createTime :: "string option"
  sv_pager :: pager
  sv_total :: int
  sv_rows :: "row list"
  sv_dialog :: bool
  sv_dialogRows :: "row list"
  sv_current :: string
  sv_toasts :: "string list"

definition new_session_view :: session_view where
  "new_session_view = \<lparr>sv_sessionId = [], sv_status = [], sv_createTime = None, sv_pager = \<lparr>page_no = 1, pageSize = 20\<rparr>,
     sv_total = 0, sv_rows = [], sv_dialog = False, sv_dialogRows = [], sv_current = [], sv_toasts = []\<rparr>"

definition session_kill_disabled :: "row \<Rightarrow> bool" where
  "session_kill_disabled r \<longleftrightarrow> field ''status'' r \<notin> {''PREPARE'', ''NEW'', ''ACTIVE''}"

definition session_list :: "(string \<Rightarrow> string) \<Rightarrow> session_view \<Rightarrow> request" where
  "session_list day o1 = Request ''/eggroll/sessionMain'' (page_params (sv_pager o1) @
     [(''sessionId'', JStr (sv_sessionId o1)), (''status'', JStr (sv_status o1)), (''createdAt'', createdAt_param day (sv_createTime o1))])"

definition session_loaded :: "(string \<Rightarrow> string) \<Rightarrow> table_reply \<Rightarrow> session_view \<Rightarrow> session_view" where
  "session_loaded dayjs t o1 = (if t_code t = 0
     then o1\<lparr>sv_total := t_total t, sv_rows := map (format_row dayjs) (t_data t)\<rparr> else o1)"

definition session_sizeChange :: "int \<Rightarrow> session_view \<Rightarrow> session_view" where
  "session_sizeChange n o1 = o1\<lparr>sv_pager := (sv_pager o1)\<lparr>pageSize := n\<rparr>\<rparr>"

definition session_currentChange :: "int \<Rightarrow> session_view \<Rightarrow> session_view" where
  "session_currentChange n o1 = o1\<lparr>sv_pager := (sv_pager o1)\<lparr>page_no := n\<rparr>\<rparr>"

definition session_search :: "session_view \<Rightarrow> session_view" where
  "session_search o1 = o1\<lparr>sv_pager := \<lparr>page_no = 1, pageSize = 20\<rparr>\<rparr>"

definition session_refresh :: "session_view \<Rightarrow> session_view" where
  "session_refresh o1 = o1\<lparr>sv_pager := \<lparr>page_no = 1, pageSize = 15\<rparr>, sv_createTime := None, sv_sessionId := [], sv_status := []\<rparr>"

definition session_kill :: "row \<Rightarrow> request" where
  "session_kill r = Request ''/eggroll/killSession'' [(''sessionId'', JStr (field ''sessionId'' r))]"

definition session_killed :: "kill_reply \<Rightarrow> session_view \<Rightarrow> session_view \<times> bool" where
  "session_killed t o1 = (if k_code t = 0
     then (o1\<lparr>sv_toasts := sv_toasts o1 @ [if k_msg t = [] then k_data t else k_msg t]\<rparr>, True)
     else (o1\<lparr>sv_toasts := sv_toasts o1 @ [k_msg t]\<rparr>, False))"

definition session_dialog :: "row option \<Rightarrow> session_view \<Rightarrow> session_view \<times> request" where
  "session_dialog r o1 =
     (let o2 = o1\<lparr>sv_dialog := True, sv_current := (case r of None \<Rightarrow> sv_current o1 | Some x \<Rightarrow> field ''sessionId'' x)\<rparr>
      in (o2, Request ''/eggroll/sessionProcessor'' [(''sessionId'', JStr (sv_current o2))]))"

definition session_dialogLoaded :: "(string \<Rightarrow> string) \<Rightarrow> table_reply \<Rightarrow> session_view \<Rightarrow> session_view" where
  "session_dialogLoaded dayjs t o1 = (if t_code t = 0 then o1\<lparr>sv_dialogRows := map (format_row dayjs) (t_data t)\<rparr> else o1)"

definition session_dialogRefresh :: "session_view \<Rightarrow> session_view \<times> request" where
  "session_dialogRefresh o1 = session_dialog None o1"

definition session_dialogClose :: "session_view \<Rightarrow> session_view" where
  "session_dialogClose o1 = o1\<lparr>sv_dialog := False\<rparr>"

section \<open>The nodes\<close>

record node_view =
  nv_nodes :: "row list"
  nv_resources :: "row list"
  nv_nodePager :: pager
  nv_resourcePager :: pager
  nv_nodeTotal :: int
  nv_resourceTotal :: int
  nv_title :: string
  nv_dialog :: bool
  nv_dialogRows :: "row list"
  nv_labels :: "string list"
  nv_mode :: string
  nv_current :: string

definition new_node_view :: node_view where
  "new_node_view = \<lparr>nv_nodes = [], nv_resources = [], nv_nodePager = \<lparr>page_no = 1, pageSize = 5\<rparr>, nv_resourcePager = \<lparr>page_no = 1, pageSize = 5\<rparr>,
     nv_nodeTotal = 0, nv_resourceTotal = 0, nv_title = ''Resource List'', nv_dialog = False, nv_dialogRows = [], nv_labels = [],
     nv_mode = [], nv_current = []\<rparr>"

definition node_list :: "node_view \<Rightarrow> request" where
  "node_list v = Request ''/eggroll/serverNode'' (page_params (nv_nodePager v))"

definition node_loaded :: "(string \<Rightarrow> string) \<Rightarrow> table_reply \<Rightarrow> node_view \<Rightarrow> node_view" where
  "node_loaded dayjs t v = (if t_code t = 0
     then v\<lparr>nv_nodeTotal := t_total t, nv_nodes := map (format_row dayjs) (t_data t)\<rparr> else v)"

definition resource_list :: "node_view \<Rightarrow> request" where
  "resource_list v = Request ''/eggroll/nodeResource'' (page_params (nv_resourcePager v))"

text \<open>The memory of a node is shown in the unit that fits; \<open>bytes\<close> is that formatting.\<close>

definition format_memory :: "(string \<Rightarrow> string) \<Rightarrow> row \<Rightarrow> row" where
  "format_memory bytes e = (if field ''resourceType'' e = ''PHYSICAL_MEMORY''
     then AList.update ''used'' (bytes (field ''used'' e)) (AList.update ''total'' (bytes (field ''total'' e)) e) else e)"

definition resource_loaded :: "(string \<Rightarrow> string) \<Rightarrow> (string \<Rightarrow> string) \<Rightarrow> table_reply \<Rightarrow> node_view \<Rightarrow> node_view" where
  "resource_loaded dayjs bytes t v = (if t_code t = 0
     then v\<lparr>nv_resourceTotal := t_total t, nv_resources := map (format_memory bytes \<circ> format_row dayjs) (t_data t)\<rparr> else v)"

definition node_sizeChange :: "int \<Rightarrow> node_view \<Rightarrow> node_view" where
  "node_sizeChange n v = v\<lparr>nv_nodePager := (nv_nodePager v)\<lparr>pageSize := n\<rparr>\<rparr>"

definition node_currentChange :: "int \<Rightarrow> node_view \<Rightarrow> node_view" where
  "node_currentChange n v = v\<lparr>nv_nodePager := (nv_nodePager v)\<lparr>page_no := n\<rparr>\<rparr>"

definition resource_sizeChange :: "int \<Rightarrow> node_view \<Rightarrow> node_view" where
  "resource_sizeChange n v = v\<lparr>nv_resourcePager := (nv_resourcePager v)\<lparr>pageSize := n\<rparr>\<rparr>"

definition resource_currentChange :: "int \<Rightarrow> node_view \<Rightarrow> node_view" where
  "resource_currentChange n v = v\<lparr>nv_resourcePager := (nv_resourcePager v)\<lparr>page_no := n\<rparr>\<rparr>"

text \<open>The dialog shows the configuration of a node or its resources, of the row given or of the last one.\<close>

definition node_select :: "row option \<Rightarrow> node_view \<Rightarrow> node_view" where
  "node_select o1 v = (let cur = (case o1 of None \<Rightarrow> nv_current v | Some x \<Rightarrow> field ''serverNodeId'' x) in
     v\<lparr>nv_current := cur, nv_title := ''serverNodeId: '' @ cur\<rparr>)"

definition node_config :: "row option \<Rightarrow> node_view \<Rightarrow> node_view \<times> request" where
  "node_config o1 v = (let v1 = (node_select o1 v)\<lparr>nv_labels := [''Key'', ''Value'']\<rparr> in
     (v1, Request ''/eggroll/queryNodeMetaInfo'' [(''serverNodeId'', JStr (nv_current v1))]))"

definition node_configLoaded :: "int \<Rightarrow> (string \<times> string) list \<Rightarrow> node_view \<Rightarrow> node_view" where
  "node_configLoaded c data v = (if c = 0
     then v\<lparr>nv_dialog := True, nv_mode := ''config'', nv_dialogRows := map (\<lambda>(k, x). [(''key'', k), (''value'', x)]) data\<rparr> else v)"

definition node_resources :: "row option \<Rightarrow> node_view \<Rightarrow> node_view \<times> request" where
  "node_resources o1 v = (let v1 = (node_select o1 v)\<lparr>nv_labels := [''ResourceType'', ''Total'', ''Used'', ''Allocated'', ''Status'', ''CreatedAt'']\<rparr> in
     (v1, Request ''/eggroll/nodeResource'' [(''serverNodeId'', JStr (nv_current v1))]))"

definition node_resourcesLoaded :: "(string \<Rightarrow> string) \<Rightarrow> table_reply \<Rightarrow> node_view \<Rightarrow> node_view" where
  "node_resourcesLoaded dayjs t v = (if t_code t = 0
     then v\<lparr>nv_mode := [], nv_dialog := True, nv_dialogRows := map (format_row dayjs) (t_data t)\<rparr> else v)"

definition node_dialogRefresh :: "node_view \<Rightarrow> node_view \<times> request" where
  "node_dialogRefresh v = (if nv_mode v = ''config'' then node_config None v else node_resources None v)"

definition node_dialogClose :: "node_view \<Rightarrow> node_view" where
  "node_dialogClose v = v\<lparr>nv_dialog := False\<rparr>"

text \<open>\<open>Y\<close>: the search in the configuration keeps the rows shown whose key contains the text.\<close>

definition node_searchConfig :: "string \<Rightarrow> node_view \<Rightarrow> node_view" where
  "node_searchConfig key v = v\<lparr>nv_dialogRows := filter (\<lambda>t. js_includes key (field ''key'' t)) (nv_dialogRows v)\<rparr>"

section \<open>The plain tables\<close>

text \<open>The pages of servers and of session processors differ only in the time stamps they format.\<close>

record plain_view =
  pt_pager :: pager
  pt_total :: int
  pt_rows :: "row list"

definition new_plain_view :: plain_view where
  "new_plain_view = \<lparr>pt_pager = \<lparr>page_no = 1, pageSize = 5\<rparr>, pt_total = 0, pt_rows = []\<rparr>"

definition plain_list :: "plain_view \<Rightarrow> request" where
  "plain_list n = Request ''/eggroll/prenodesessioninfo'' (page_params (pt_pager n))"

definition plain_sizeChange :: "int \<Rightarrow> plain_view \<Rightarrow> plain_view" where
  "plain_sizeChange k n = n\<lparr>pt_pager := (pt_pager n)\<lparr>pageSize := k\<rparr>\<rparr>"

definition plain_currentChange :: "int \<Rightarrow> plain_view \<Rightarrow> plain_view" where
  "plain_currentChange k n = n\<lparr>pt_pager := (pt_pager n)\<lparr>page_no := k\<rparr>\<rparr>"

definition sessionprocessor_loaded :: "(string \<Rightarrow> string) \<Rightarrow> table_reply \<Rightarrow> plain_view \<Rightarrow> plain_view" where
  "sessionprocessor_loaded dayjs t n = (if t_code t = 0 then n\<lparr>pt_total := t_total t, pt_rows := map (format_row dayjs) (t_data t)\<rparr> else n)"

definition server_loaded :: "(string \<Rightarrow> string) \<Rightarrow> table_reply \<Rightarrow> plain_view \<Rightarrow> plain_view" where
  "server_loaded dayjs t n = (if t_code t = 0
     then n\<lparr>pt_total := t_total t, pt_rows := map (format_field dayjs ''lastHeartbeatAt'' \<circ> format_row dayjs) (t_data t)\<rparr> else n)"

section \<open>The table in a dialog\<close>

record dialog =
  d_visible :: bool
  d_searchKey :: string

datatype emitted = Refresh | UpdateVisiable bool | SearchConfig string

definition dialog_onRefresh :: "dialog \<Rightarrow> dialog \<times> emitted" where
  "dialog_onRefresh d = (d\<lparr>d_searchKey := []\<rparr>, Refresh)"

definition dialog_onClose :: "dialog \<Rightarrow> dialog \<times> emitted" where
  "dialog_onClose d = (d, UpdateVisiable True)"

definition dialog_onSearch :: "dialog \<Rightarrow> dialog \<times> emitted" where
  "dialog_onSearch d = (d, SearchConfig (d_searchKey d))"

definition dialog_watch :: "bool \<Rightarrow> dialog \<Rightarrow> dialog" where
  "dialog_watch s d = d\<lparr>d_visible := s\<rparr>"

definition column_width :: "string option \<Rightarrow> string \<Rightarrow> string" where
  "column_width width label = (case width of Some (c # cs) \<Rightarrow> c # cs
     | _ \<Rightarrow> if label = ''SessionId'' then ''380px'' else if js_includes ''At'' label then ''170px'' else [])"

definition column_tooltip :: "string \<Rightarrow> bool" where
  "column_tooltip label \<longleftrightarrow> label \<in> {''SessionId'', ''ProcessorOption''}"

definition column_fixed :: "string \<Rightarrow> string option" where
  "column_fixed label = (if label = ''ProcessorOption'' then Some ''right'' else None)"

text \<open>The parent handles what the dialog emits, here for the page of the nodes.\<close>

definition node_emitted :: "emitted \<Rightarrow> node_view \<Rightarrow> node_view \<times> request option" where
  "node_emitted e v = (case e of
     Refresh \<Rightarrow> (case node_dialogRefresh v of (v1, r) \<Rightarrow> (v1, Some r))
   | UpdateVisiable _ \<Rightarrow> (node_dialogClose v, None)
   | SearchConfig k \<Rightarrow> (node_searchConfig k v, None))"

section \<open>The pages under use\<close>

text \<open>What can happen to the page of the processors: the form is edited, the pager, the buttons and the dialog are used, and
  replies arrive.  The pager offers four sizes and pages from one on.\<close>

datatype pv_event =
    PForm "int option" string string "string option" | PSize int | PPage int | PSearch | PRefresh | PLoaded table_reply
  | PKilled kill_reply | POpen row | PAgain | PDialogLoaded table_reply | PClose

definition pv_apply :: "(string \<Rightarrow> string) \<Rightarrow> pv_event \<Rightarrow> processor_view \<Rightarrow> processor_view" where
  "pv_apply dayjs e a = (case e of
     PForm pid sid st ct \<Rightarrow> a\<lparr>pv_pid := pid, pv_sessionId := sid, pv_status := st, pv_createTime := ct\<rparr>
   | PSize n \<Rightarrow> processor_sizeChange n a | PPage n \<Rightarrow> processor_currentChange n a
   | PSearch \<Rightarrow> processor_search a | PRefresh \<Rightarrow> processor_refresh a | PLoaded t \<Rightarrow> processor_loaded dayjs t a
   | PKilled t \<Rightarrow> fst (processor_killed t a) | POpen r \<Rightarrow> fst (processor_dialog (Some r) a)
   | PAgain \<Rightarrow> fst (processor_dialogRefresh a) | PDialogLoaded t \<Rightarrow> processor_dialogLoaded dayjs t a | PClose \<Rightarrow> processor_dialogClose a)"

definition page_sizes :: "int list" where
  "page_sizes = [10, 20, 30, 50]"

fun offered :: "pv_event \<Rightarrow> bool" where
  "offered (PSize n) \<longleftrightarrow> n \<in> set page_sizes"
| "offered (PPage n) \<longleftrightarrow> 1 \<le> n"
| "offered _ \<longleftrightarrow> True"

lemmas pv_defs = pv_apply_def processor_sizeChange_def processor_currentChange_def processor_search_def processor_refresh_def
  processor_loaded_def processor_killed_def processor_dialog_def processor_dialogRefresh_def processor_dialogLoaded_def
  processor_dialogClose_def Let_def

definition pager_ok :: "pager \<Rightarrow> bool" where
  "pager_ok u \<longleftrightarrow> 1 \<le> page_no u \<and> pageSize u \<in> set page_sizes"

lemma pv_apply_pager: "offered e \<Longrightarrow> pager_ok (pv_pager a) \<Longrightarrow> pager_ok (pv_pager (pv_apply dayjs e a))"
  by (cases e) (auto simp: pv_defs pager_ok_def page_sizes_def)

text \<open>the table of the processors is always asked for with a page number from one on and one of the sizes the pager offers,
  however the page is used.\<close>

theorem processor_requests_paged:
  assumes "\<forall>e \<in> set es. offered e"
  shows "\<exists>n k rest. processor_list day (fold (pv_apply dayjs) es new_processor_view) =
      Request ''/eggroll/sessionProcessor'' ((''pageNum'', JNum n) # (''pageSize'', JNum k) # rest) \<and> 1 \<le> n \<and> k \<in> set page_sizes"
proof -
  have "pager_ok (pv_pager (fold (pv_apply dayjs) es a))" if "pager_ok (pv_pager a)" for a
    using assms that by (induction es arbitrary: a) (simp_all add: pv_apply_pager)
  from this[of new_processor_view] show ?thesis
    by (simp add: processor_list_def page_params_def pager_ok_def new_processor_view_def page_sizes_def)
qed

theorem processor_requests_paged_witness:
  "\<exists>n k rest. processor_list id (fold (pv_apply id) [PSize 50, PPage 3, PRefresh, PPage 2] new_processor_view) =
      Request ''/eggroll/sessionProcessor'' ((''pageNum'', JNum n) # (''pageSize'', JNum k) # rest) \<and> 1 \<le> n \<and> k \<in> set page_sizes"
  by (rule processor_requests_paged) (simp add: page_sizes_def)

text \<open>The refresh of the page of the sessions clears the form and goes to the first page, but asks for fifteen rows, a
  size that the pager does not offer.\<close>

theorem session_refresh_request:
  "session_list day (session_refresh v) = Request ''/eggroll/sessionMain''
     [(''pageNum'', JNum 1), (''pageSize'', JNum 15), (''sessionId'', JStr []), (''status'', JStr []), (''createdAt'', JStr [])] \<and>
   15 \<notin> set page_sizes \<and> pageSize (sv_pager (session_search (session_refresh v))) = 20"
  by (simp add: session_list_def session_refresh_def session_search_def page_params_def createdAt_param_def page_sizes_def)

text \<open>Refreshing the dialog of a processor asks again for the session and the node it was opened for, whatever else has
  happened on the page since, as long as it was not opened for another row.\<close>

theorem dialog_refresh_repeats:
  assumes "\<forall>e \<in> set es. \<nexists>r'. e = POpen r'"
  shows "snd (processor_dialogRefresh (fold (pv_apply dayjs) es (fst (processor_dialog (Some r) a)))) = snd (processor_dialog (Some r) a)"
proof -
  have step: "pv_c_sessionId (pv_apply dayjs e x) = pv_c_sessionId x \<and> pv_c_serverNodeId (pv_apply dayjs e x) = pv_c_serverNodeId x"
    if "\<nexists>r'. e = POpen r'" for e x
    using that by (cases e) (auto simp: pv_defs)
  have "pv_c_sessionId (fold (pv_apply dayjs) es x) = pv_c_sessionId x \<and> pv_c_serverNodeId (fold (pv_apply dayjs) es x) = pv_c_serverNodeId x" for x
    using assms by (induction es arbitrary: x) (auto simp: step)
  then show ?thesis by (simp add: processor_dialogRefresh_def processor_dialog_def)
qed

theorem dialog_refresh_repeats_witness:
  "snd (processor_dialogRefresh (fold (pv_apply id) [PClose, PSearch, PAgain]
      (fst (processor_dialog (Some [(''sessionId'', ''s1''), (''serverNodeId'', ''7'')]) new_processor_view)))) =
   Request ''/eggroll/processorResource'' [(''sessionId'', JStr ''s1''), (''serverNodeId'', JStr ''7'')]"
  by (subst dialog_refresh_repeats) (simp_all add: processor_dialog_def field_def)

section \<open>Searching the configuration\<close>

lemma search_rows: "nv_dialogRows (fold node_searchConfig ks v) =
    filter (\<lambda>t. \<forall>k \<in> set ks. js_includes k (field ''key'' t)) (nv_dialogRows v)"
  by (induction ks arbitrary: v) (simp_all add: node_searchConfig_def conj_commute)

lemma config_keys: "map (field ''key'') (map (\<lambda>(k, x). [(''key'', k), (''value'', x)]) data) = map fst data"
  by (induction data) (auto simp: field_def)

text \<open>Each search in the configuration of a node narrows what the searches before have left, so that the rows shown are
  those whose key contains every text searched for; only a refresh, once its reply has come, shows all rows again.\<close>

theorem config_search_accumulates:
  fixes data :: "(string \<times> string) list"
  assumes "node_config (Some r) v = (v1, q)" and "v2 = fold node_searchConfig ks (node_configLoaded 0 data v1)"
  shows "map (field ''key'') (nv_dialogRows v2) = filter (\<lambda>k. \<forall>t \<in> set ks. js_includes t k) (map fst data) \<and>
    (\<exists>v3. node_emitted Refresh v2 = (v3, Some q) \<and>
      map (field ''key'') (nv_dialogRows (node_configLoaded 0 data v3)) = map fst data)"
proof -
  let ?rows = "map (\<lambda>(k, x). [(''key'', k), (''value'', x)]) data"
  have fr: "nv_mode (fold node_searchConfig ks w) = nv_mode w \<and> nv_current (fold node_searchConfig ks w) = nv_current w" for w
    by (induction ks arbitrary: w) (simp_all add: node_searchConfig_def)
  have rows: "nv_dialogRows v2 = filter (\<lambda>t. \<forall>k \<in> set ks. js_includes k (field ''key'' t)) ?rows"
    by (simp add: assms(2) search_rows node_configLoaded_def)
  have "map (field ''key'') (nv_dialogRows v2) = filter (\<lambda>k. \<forall>t \<in> set ks. js_includes t k) (map (field ''key'') ?rows)"
    unfolding rows filter_map by (simp add: comp_def)
  moreover have "node_emitted Refresh v2 = (fst (node_config None v2), Some q)"
    using assms fr[of "node_configLoaded 0 data v1"]
    by (auto simp: node_emitted_def node_dialogRefresh_def node_configLoaded_def node_config_def node_select_def Let_def)
  ultimately show ?thesis unfolding config_keys by (simp add: node_configLoaded_def config_keys[simplified])
qed

theorem config_search_accumulates_witness:
  "map (field ''key'') (nv_dialogRows (fold node_searchConfig [''port'', ''p'']
     (node_configLoaded 0 [(''host'', ''h''), (''port'', ''9370''), (''pool'', ''2'')] (fst (node_config (Some [(''serverNodeId'', ''7'')]) new_node_view))))) = [''port'']"
  using config_search_accumulates[of "[(''serverNodeId'', ''7'')]" new_node_view _ _ _ "[''port'', ''p'']" "[(''host'', ''h''), (''port'', ''9370''), (''pool'', ''2'')]", OF surjective_pairing refl]
  by (simp add: js_includes_def)

end
