(* ===== verification/Kill_Chain.thy ===== *)
theory Kill_Chain
  imports Cluster_Manager Dashboard_Views
begin

text \<open>
  The way of a kill from the button of the session table to the tables of the cluster manager:
  the enabling of the buttons (\<open>index-80153201.js\<close>, \<open>index-199227cb.js\<close>), the service of the
  dashboard that answers \<open>/eggroll/killSession\<close> (\<open>ContainerStatusService.killSession\<close>), the command
  it sends to the cluster manager (\<open>CommandServiceProvider\<close>) and what that does.  The remote call
  is a call with a context of its own.
\<close>

section \<open>The service behind the button\<close>

text \<open>An object that \<open>equals\<close> is called with.  An enumeration constant is equal to itself only; a
  string with the same name is another object.\<close>

datatype ProcessorType = egg_pair | deepspeed_download | DeepSpeed

datatype java_object = StringObject string | EnumObject ProcessorType | NullObject

definition enum_equals :: "ProcessorType \<Rightarrow> java_object \<Rightarrow> bool" where
  "enum_equals t x \<longleftrightarrow> x = EnumObject t"

definition first_type :: "SessionProcessor list \<Rightarrow> java_object" where
  "first_type ps = (case ps of [] \<Rightarrow> NullObject | p # _ \<Rightarrow> StringObject (p_processorType p))"

definition command_killSession :: "env \<Rightarrow> ErSessionMeta \<Rightarrow> (world, unit) comp" where
  "command_killSession E s = mbind (in_context (new_Context\<lparr>c_statusReason := Some ''API''\<rparr>) (killSession E s)) (\<lambda>_. mreturn ())"

definition handleJobKill :: "env \<Rightarrow> string \<Rightarrow> (world, unit) comp" where
  "handleJobKill E sid = in_context new_Context (killJob E sid ''API'')"

definition dashboard_killSession :: "env \<Rightarrow> string \<Rightarrow> (world, unit) comp" where
  "dashboard_killSession E sid =
     mbind (\<lambda>w. mlift (getSession_all E sid w) w) (\<lambda>_.
     mbind (mget (\<lambda>w. sql_select (\<lambda>p. p_sessionId p = sid) (session_processor w))) (\<lambda>rows.
     if enum_equals egg_pair (first_type rows)
     then mbind (mlift (toErProcessors E rows)) (\<lambda>ps.
            command_killSession E (new_ErSessionMeta\<lparr>sm_id := sid, sm_processors := ps\<rparr>))
     else handleJobKill E sid))"

section \<open>What a kill leaves behind\<close>

lemma toErProcessors_nodes: "toErProcessors E rs = Inr qs \<Longrightarrow> map pr_serverNodeId qs = map p_serverNodeId rs"
proof (induction rs arbitrary: qs)
  case (Cons r rs)
  then show ?case by (auto split: sum.splits dest!: toErProcessor_fields)
qed simp

text \<open>The rows and commands that \<open>killJob\<close> writes for the nodes of a session.\<close>

definition killed_row :: "string option \<Rightarrow> string \<Rightarrow> SessionMain \<Rightarrow> SessionMain" where
  "killed_row before reason m = m\<lparr>m_statusReason := Some reason, m_beforeStatus := before,
     m_status := Some (if reason = ''API'' then ''KILLED'' else ''ERROR'')\<rparr>"

definition kill_command :: "world \<Rightarrow> string \<Rightarrow> int \<Rightarrow> node_command" where
  "kill_command w sid nid = KillContainers (sn_endpoint (toErServerNode (the (serverNode_getById nid w)))) sid"

lemma sql_update_twice: "(\<And>r. P (f r) = P r) \<Longrightarrow> (\<And>r. f (f r) = f r) \<Longrightarrow> sql_update P f (sql_update P f t) = sql_update P f t"
  by (induction t) auto

lemma kill_on_node_run:
  assumes "serverNode_getById nid w \<noteq> None"
  shows "kill_on_node sid before reason nid w = (Inr (), w\<lparr>sent_commands := sent_commands w @ [kill_command w sid nid],
    session_main := sql_update (\<lambda>m. m_sessionId m = sid) (killed_row before reason) (session_main w)\<rparr>)"
proof -
  have "killed_row before reason = (\<lambda>m. m\<lparr>m_statusReason := Some reason, m_beforeStatus := before,
      m_status := Some (if reason = ''API'' then ''KILLED'' else ''ERROR'')\<rparr>)"
    by (simp add: killed_row_def fun_eq_iff)
  then show ?thesis using assms by (auto simp: kill_on_node_def mbind_def kill_command_def)
qed

lemma kill_on_nodes_run:
  assumes "\<forall>nid \<in> set (n # ns). serverNode_getById nid w \<noteq> None"
  shows "mfor (kill_on_node sid before reason) (n # ns) w =
    (Inr (), w\<lparr>sent_commands := sent_commands w @ map (kill_command w sid) (n # ns),
      session_main := sql_update (\<lambda>m. m_sessionId m = sid) (killed_row before reason) (session_main w)\<rparr>)"
  using assms
proof (induction ns arbitrary: n w)
  case Nil
  then show ?case by (simp add: mbind_def kill_on_node_run)
next
  case (Cons k ns)
  define w1 where "w1 = w\<lparr>sent_commands := sent_commands w @ [kill_command w sid n],
      session_main := sql_update (\<lambda>m. m_sessionId m = sid) (killed_row before reason) (session_main w)\<rparr>"
  have g: "serverNode_getById i w1 = serverNode_getById i w" for i by (simp add: w1_def serverNode_getById_def)
  then have c: "kill_command w1 sid = kill_command w sid" by (simp add: kill_command_def fun_eq_iff)
  have "mfor (kill_on_node sid before reason) (n # k # ns) w = mfor (kill_on_node sid before reason) (k # ns) w1"
    using Cons.prems kill_on_node_run[of n w sid before reason] by (simp add: mbind_def w1_def)
  also have "\<dots> = (Inr (), w1\<lparr>sent_commands := sent_commands w1 @ map (kill_command w1 sid) (k # ns),
      session_main := sql_update (\<lambda>m. m_sessionId m = sid) (killed_row before reason) (session_main w1)\<rparr>)"
    using Cons.prems by (intro Cons.IH) (simp add: g)
  also have "\<dots> = (Inr (), w\<lparr>sent_commands := sent_commands w @ map (kill_command w sid) (n # k # ns),
      session_main := sql_update (\<lambda>m. m_sessionId m = sid) (killed_row before reason) (session_main w)\<rparr>)"
    unfolding c by (simp add: w1_def sql_update_twice killed_row_def)
  finally show ?case .
qed

lemma getSession_all_readable:
  assumes "session_getById sid w = Some m" and "session_readable sid w" and "distinct (map o_name (getSessionOptions sid w))"
  shows "\<exists>s. getSession_all E sid w = Inr (Some s) \<and> sm_status s = sm_status (toErSessionMeta m) \<and>
    map pr_serverNodeId (sm_processors s) = map p_serverNodeId (sql_select (\<lambda>p. p_sessionId p = sid) (session_processor w))"
proof -
  have "\<forall>r \<in> set (sql_select (\<lambda>p. p_sessionId p = sid) (session_processor w)). readable r"
    using assms(2) by (simp add: session_readable_def)
  then obtain qs where qs: "toErProcessors E (sql_select (\<lambda>p. p_sessionId p = sid) (session_processor w)) = Inr qs"
    using toErProcessors_readable by blast
  show ?thesis
    using toErProcessors_nodes[OF qs] by (simp add: getSession_all_def Let_def assms qs getSessionMain_def)
qed

lemma enum_never_string: "\<not> enum_equals t (first_type ps)"
  by (simp add: enum_equals_def first_type_def split: list.split)

text \<open>C40: killing a session from the dashboard that does not wait for resources (\<open>killJob\<close> hands a waiting one to the session state
  machine) does not go through that machine, whatever the type of its
  processors: the comparison of an enumeration constant with a string fails, so the service sends \<open>killJob\<close>.  For a session that
  is neither over nor waiting, has a processor and can be read, the row of the session is marked KILLED with reason API and one
  kill command goes to every node of the session; every row of a processor keeps its status and no resource is given back.\<close>

theorem dashboard_kill_bypasses_machine:
  assumes "session_getById sid w = Some m" and "m_status m = Some st"
    and "st \<notin> {[], ''KILLED'', ''ERROR'', ''FINISHED'', ''WAITING_RESOURCE''}"
    and "session_readable sid w" and "distinct (map o_name (getSessionOptions sid w))"
    and "\<exists>r \<in> set (session_processor w). p_sessionId r = sid"
    and "\<forall>r \<in> set (session_processor w). p_sessionId r = sid \<longrightarrow> serverNode_getById (p_serverNodeId r) w \<noteq> None"
  shows "\<exists>w'. dashboard_killSession E sid w = (Inr (), w') \<and>
    session_getById sid w' = Some (killed_row (Some st) ''API'' m) \<and> m_status (killed_row (Some st) ''API'' m) = Some ''KILLED'' \<and>
    session_processor w' = session_processor w \<and> node_resource w' = node_resource w \<and> processor_resource w' = processor_resource w \<and>
    sent_commands w' = sent_commands w @
      map (kill_command w sid) (remdups (map p_serverNodeId (sql_select (\<lambda>p. p_sessionId p = sid) (session_processor w))))"
proof -
  let ?ns = "remdups (map p_serverNodeId (sql_select (\<lambda>p. p_sessionId p = sid) (session_processor w)))"
  let ?c = "new_Context\<lparr>c_beforeStatus := Some st, c_statusReason := Some ''API''\<rparr>"
  let ?w = "w\<lparr>cx := ?c\<rparr>"
  have all: "getSession_all E sid (w\<lparr>cx := c\<rparr>) = getSession_all E sid w" "session_getById sid (w\<lparr>cx := c\<rparr>) = session_getById sid w" for c
    by (simp_all add: getSession_all_def getSessionOptions_def getSessionMain_def session_getById_def Let_def split: sum.split)
  obtain s where s: "getSession_all E sid w = Inr (Some s)" "sm_status s = Some st"
    "map pr_serverNodeId (sm_processors s) = map p_serverNodeId (sql_select (\<lambda>p. p_sessionId p = sid) (session_processor w))"
    using getSession_all_readable[OF assms(1,4,5), of E] assms(2,3) by (auto simp: toErSessionMeta_def isEmpty_def)
  have ne: "\<forall>nid \<in> set ?ns. serverNode_getById nid ?w \<noteq> None" "?ns \<noteq> []"
    using assms(6,7) by (auto simp: serverNode_getById_def filter_empty_conv sql_select_def)
  then obtain n ns where ns: "?ns = n # ns" by (cases ?ns) auto
  define w2 where "w2 = ?w\<lparr>sent_commands := sent_commands w @ map (kill_command ?w sid) ?ns,
      session_main := sql_update (\<lambda>m. m_sessionId m = sid) (killed_row (Some st) ''API'') (session_main w)\<rparr>"
  have loop: "mfor (kill_on_node sid (Some st) ''API'') ?ns ?w = (Inr (), w2)"
    using kill_on_nodes_run[of n ns ?w sid "Some st" "''API''"] ne(1) unfolding ns[symmetric] w2_def by simp
  have "killJob E sid ''API'' (w\<lparr>cx := new_Context\<rparr>) = (Inr (), w2)"
    using assms(3) loop by (simp add: killJob_def mbind_def all assms(1) s group_nodes_def del: mfor.simps)
  then have "dashboard_killSession E sid w = (Inr (), w2\<lparr>cx := cx w\<rparr>)"
    by (simp add: dashboard_killSession_def mbind_def s(1) enum_never_string handleJobKill_def in_context_def)
  moreover have "session_getById sid (w2\<lparr>cx := cx w\<rparr>) = Some (killed_row (Some st) ''API'' m)"
    using assms(1) sql_get_update[of "\<lambda>m. m_sessionId m = sid" "killed_row (Some st) ''API''"]
    by (auto simp: session_getById_def w2_def killed_row_def dest: sql_get_SomeD)
  ultimately show ?thesis
    by (auto simp: w2_def killed_row_def kill_command_def serverNode_getById_def)
qed

definition node7 :: ServerNode where
  "node7 = \<lparr>v_serverNodeId = 7, v_name = ''n7'', v_serverClusterId = 0, v_host = ''h'', v_port = 4670, v_nodeType = ''NODE_MANAGER'',
     v_status = ''HEALTHY'', v_lastHeartbeatAt = None\<rparr>"

theorem dashboard_kill_bypasses_machine_witness:
  "\<exists>w'. dashboard_killSession plain_env ''s1'' ((session_world ''ACTIVE'' ''RUNNING'')\<lparr>server_node := [node7]\<rparr>) = (Inr (), w') \<and>
    map p_status (session_processor w') = [''RUNNING''] \<and>
    sent_commands w' = [KillContainers \<lparr>ep_host = ''h'', ep_port = 4670\<rparr> ''s1'']"
proof -
  let ?w = "(session_world ''ACTIVE'' ''RUNNING'')\<lparr>server_node := [node7]\<rparr>"
  have "session_getById ''s1'' ?w = Some (sample_meta ''ACTIVE'')" using session_world_row by (simp add: session_getById_def)
  moreover have "session_readable ''s1'' ?w"
    using sample_row_readable[of "''RUNNING''"] by (auto simp: session_readable_def session_world_defs)
  moreover have "distinct (map o_name (getSessionOptions ''s1'' ?w))" by (simp add: getSessionOptions_def session_world_defs)
  moreover have n: "session_processor ?w = [sample_row ''RUNNING'']" "serverNode_getById 7 ?w = Some node7" "sent_commands ?w = []"
    by (simp_all add: session_world_defs serverNode_getById_def node7_def)
  ultimately show ?thesis
    using dashboard_kill_bypasses_machine[of "''s1''" ?w "sample_meta ''ACTIVE''" "''ACTIVE''" plain_env]
    by (auto simp: sample_meta_def sample_row_def kill_command_def toErServerNode_def node7_def new_ErServerNode_def)
qed

section \<open>The buttons and the machines\<close>

text \<open>Whether the machine has a handler of its own for killing out of a status.\<close>

definition session_killable :: "SessionStatus \<Rightarrow> bool" where
  "session_killable s \<longleftrightarrow> lookup_handler session_handlers (session_status_name s @ ''_KILLED'') \<noteq> Some SessionIgnoreHandler"

definition processor_killable :: "ProcessorStatus \<Rightarrow> bool" where
  "processor_killable s \<longleftrightarrow>
     lookup_handler processor_handlers (processor_status_name s @ ''_KILLED'') \<noteq> Some ProcessorStateIgnoreHandler"

definition status_row :: "string \<Rightarrow> row" where
  "status_row st = [(''status'', st)]"

text \<open>the kill button of the session table is enabled for exactly the statuses the machine can kill, but for two: it is
  enabled for PREPARE, for which the machine has no kill, and disabled for WAITING_RESOURCE, which it can kill.  The button of
  the processor table is enabled for RUNNING only, while the machine can kill a NEW processor too.\<close>

theorem kill_buttons_against_machines:
  "{s. \<not> session_kill_disabled (status_row (session_status_name s)) \<and> \<not> session_killable s} = {PREPARE} \<and>
   {s. session_kill_disabled (status_row (session_status_name s)) \<and> session_killable s} = {WAITING_RESOURCE} \<and>
   {t. \<not> processor_kill_disabled (status_row (processor_status_name t)) \<and> \<not> processor_killable t} = {} \<and>
   {t. processor_kill_disabled (status_row (processor_status_name t)) \<and> processor_killable t} = {P_NEW}"
proof -
  have s: "(\<not> session_kill_disabled (status_row (session_status_name s)) \<longleftrightarrow> s \<in> {PREPARE, NEW, ACTIVE}) \<and>
      (session_killable s \<longleftrightarrow> s \<in> {NEW, ACTIVE, WAITING_RESOURCE})" for s
    by (cases s) (simp_all add: session_kill_disabled_def status_row_def field_def session_killable_def lookup_handler_def session_handlers_def)
  have t: "(\<not> processor_kill_disabled (status_row (processor_status_name t)) \<longleftrightarrow> t = P_RUNNING) \<and>
      (processor_killable t \<longleftrightarrow> t \<in> {P_NEW, P_RUNNING})" for t
    by (cases t) (simp_all add: processor_kill_disabled_def status_row_def field_def processor_killable_def lookup_handler_def processor_handlers_def)
  have "session_kill_disabled (status_row (session_status_name s)) \<longleftrightarrow> s \<notin> {PREPARE, NEW, ACTIVE}" for s using s by blast
  moreover have "processor_kill_disabled (status_row (processor_status_name t)) \<longleftrightarrow> t \<noteq> P_RUNNING" for t using t by blast
  ultimately show ?thesis using s t by auto
qed

end
