(* ===== verification/Key_Codec.thy ===== *)
theory Key_Codec
  imports Js_Library
begin

text \<open>
  The text formats of the login page's key handling (\<open>index-7e4c6da8.js\<close>): hexadecimal and
  Base64 texts, the decoders of both, and the armour of a key.  Bytes are natural numbers, and
  the shifts and masks of the code are written as division and remainder.  The lemmas show that
  the encoders and decoders fit together.
\<close>

section \<open>Digits\<close>

text \<open>\<open>V\<close> (\<open>int2char\<close>); a position outside of the string gives the empty string.\<close>

definition int2char :: "nat \<Rightarrow> string" where
  "int2char r = (if r < 36 then [''0123456789abcdefghijklmnopqrstuvwxyz'' ! r] else [])"

definition b64_alphabet :: string where
  "b64_alphabet = ''ABCDEFGHIJKLMNOPQRSTUVWXYZabcdefghijklmnopqrstuvwxyz0123456789+/''"

text \<open>\<open>L.charAt\<close> and \<open>L.indexOf\<close>.\<close>

definition b64_char :: "nat \<Rightarrow> char" where
  "b64_char k = b64_alphabet ! k"

definition b64_index :: "char \<Rightarrow> nat option" where
  "b64_index c = indexOf [c] b64_alphabet"

text \<open>\<open>parseInt(s, 16)\<close> of a text of digits: the value of the digits it starts with, where NaN counts as
  zero, as it does in the shifts that follow.\<close>

fun parse_hex :: "nat \<Rightarrow> string \<Rightarrow> nat" where
  "parse_hex acc [] = acc"
| "parse_hex acc (c # cs) = (case hexval c of None \<Rightarrow> acc | Some d \<Rightarrow> parse_hex (16 * acc + d) cs)"

section \<open>Base64 and hexadecimal texts\<close>

text \<open>\<open>it\<close> (\<open>hex2b64\<close>): three hexadecimal digits become two characters; the rest is filled with
  zero bits and the text padded to a multiple of four.\<close>

fun hex2b64_body :: "string \<Rightarrow> string" where
  "hex2b64_body (a # b # c # r) = (let e = parse_hex 0 [a, b, c] in b64_char (e div 64) # b64_char (e mod 64) # hex2b64_body r)"
| "hex2b64_body [a, b] = (let e = parse_hex 0 [a, b] in [b64_char (e div 4), b64_char ((e mod 4) * 16)])"
| "hex2b64_body [a] = (let e = parse_hex 0 [a] in [b64_char (e * 4)])"
| "hex2b64_body [] = []"

definition hex2b64 :: "string \<Rightarrow> string" where
  "hex2b64 r = (let i = hex2b64_body r in i @ replicate ((4 - length i mod 4) mod 4) (CHR ''=''))"

text \<open>\<open>St\<close> (\<open>b64tohex\<close>): \<open>i\<close> is the position in a group of four characters and \<open>n\<close> the bits not
  yet written; characters outside of the alphabet are skipped.\<close>

fun b64tohex_loop :: "nat \<Rightarrow> nat \<Rightarrow> string \<Rightarrow> string" where
  "b64tohex_loop i n [] = (if i = 1 then int2char (n * 4) else [])"
| "b64tohex_loop i n (c # cs) =
     (if c = CHR ''='' then (if i = 1 then int2char (n * 4) else [])
      else (case b64_index c of
        None \<Rightarrow> b64tohex_loop i n cs
      | Some s \<Rightarrow>
          if i = 0 then int2char (s div 4) @ b64tohex_loop 1 (s mod 4) cs
          else if i = 1 then int2char (n * 4 + s div 16) @ b64tohex_loop 2 (s mod 16) cs
          else if i = 2 then int2char n @ int2char (s div 4) @ b64tohex_loop 3 (s mod 4) cs
          else int2char (n * 4 + s div 16) @ int2char (s mod 16) @ b64tohex_loop 0 n cs))"

definition b64tohex :: "string \<Rightarrow> string" where
  "b64tohex r = b64tohex_loop 0 0 r"

section \<open>Decoders\<close>

datatype decode_error = Illegal_character nat | Incomplete

definition blank_char :: "char \<Rightarrow> bool" where
  "blank_char c \<longleftrightarrow> of_char c \<in> {32, 12, 10, 13, 9, 160 :: nat}"

text \<open>\<open>Xt.decode\<close>: \<open>s\<close> holds the digit read and \<open>h\<close> counts the digits of the byte.\<close>

fun hex_decode_loop :: "nat \<Rightarrow> nat \<Rightarrow> nat \<Rightarrow> nat list \<Rightarrow> string \<Rightarrow> decode_error + nat list" where
  "hex_decode_loop t s h n [] = (if h \<noteq> 0 then Inl Incomplete else Inr n)"
| "hex_decode_loop t s h n (c # cs) =
     (if c = CHR ''='' then (if h \<noteq> 0 then Inl Incomplete else Inr n)
      else if blank_char c then hex_decode_loop (t + 1) s h n cs
      else (case hexval c of
        None \<Rightarrow> Inl (Illegal_character t)
      | Some o1 \<Rightarrow>
          if h + 1 \<ge> 2 then hex_decode_loop (t + 1) 0 0 (n @ [s + o1]) cs
          else hex_decode_loop (t + 1) ((s + o1) * 16) (h + 1) n cs))"

definition hex_decode :: "string \<Rightarrow> decode_error + nat list" where
  "hex_decode r = hex_decode_loop 0 0 0 [] r"

text \<open>\<open>ut.decode\<close>: also the two characters of the URL-safe alphabet are read.\<close>

definition b64_value :: "char \<Rightarrow> nat option" where
  "b64_value c = (if c = CHR ''-'' then Some 62 else if c = CHR ''_'' then Some 63 else b64_index c)"

definition b64_finish :: "nat \<Rightarrow> nat \<Rightarrow> nat list \<Rightarrow> decode_error + nat list" where
  "b64_finish s h n = (if h = 1 then Inl Incomplete else if h = 2 then Inr (n @ [s div 1024])
     else if h = 3 then Inr (n @ [s div 65536, s div 256 mod 256]) else Inr n)"

fun b64_decode_loop :: "nat \<Rightarrow> nat \<Rightarrow> nat \<Rightarrow> nat list \<Rightarrow> string \<Rightarrow> decode_error + nat list" where
  "b64_decode_loop t s h n [] = b64_finish s h n"
| "b64_decode_loop t s h n (c # cs) =
     (if c = CHR ''='' then b64_finish s h n
      else if blank_char c then b64_decode_loop (t + 1) s h n cs
      else (case b64_value c of
        None \<Rightarrow> Inl (Illegal_character t)
      | Some o1 \<Rightarrow>
          (let s1 = s + o1 in
           if h + 1 \<ge> 4 then b64_decode_loop (t + 1) 0 0 (n @ [s1 div 65536, s1 div 256 mod 256, s1 mod 256]) cs
           else b64_decode_loop (t + 1) (s1 * 64) (h + 1) n cs)))"

definition b64_decode :: "string \<Rightarrow> decode_error + nat list" where
  "b64_decode r = b64_decode_loop 0 0 0 [] r"

section \<open>Armour\<close>

text \<open>\<open>wordwrap\<close>: the matches of \<open>(.{1,i})( +|$\n?)|(.{1,i})\<close>, joined by newlines.  A match
  takes the longest run of at most \<open>i\<close> characters that ends before blanks or at the end, with the
  blanks, and otherwise the longest run; a newline is skipped.\<close>

definition line_run :: "nat \<Rightarrow> string \<Rightarrow> nat" where
  "line_run i s = min i (length (takeWhile (\<lambda>c. c \<noteq> CHR 0x0A) s))"

definition wrap_end :: "nat \<Rightarrow> string \<Rightarrow> nat option" where
  "wrap_end i s = find (\<lambda>k. drop k s = [] \<or> hd (drop k s) = CHR '' '') (rev [1..<line_run i s + 1])"

definition wrap_match :: "nat \<Rightarrow> string \<Rightarrow> string" where
  "wrap_match i s = (case wrap_end i s of
     Some k \<Rightarrow> take k s @ takeWhile (\<lambda>c. c = CHR '' '') (drop k s)
   | None \<Rightarrow> take (line_run i s) s)"

function wrap_lines :: "nat \<Rightarrow> string \<Rightarrow> string list" where
  "wrap_lines i [] = []"
| "wrap_lines i (c # cs) = (let m = wrap_match i (c # cs) in
     if m = [] then wrap_lines i cs else m # wrap_lines i (drop (length m) (c # cs)))"
  by pat_completeness auto
termination by (relation "measure (\<lambda>(i, s). length s)") auto

definition wordwrap :: "string \<Rightarrow> string option" where
  "wordwrap e = (if e = [] then Some e else (case wrap_lines 64 e of [] \<Rightarrow> None | ms \<Rightarrow> Some (js_join [CHR 0x0A] ms)))"

text \<open>\<open>getPublicKey\<close> and \<open>getPrivateKey\<close>, given the Base64 text of the key.\<close>

definition armour :: "string \<Rightarrow> string \<Rightarrow> string option" where
  "armour name b64 = map_option (\<lambda>w. ''-----BEGIN '' @ name @ ''-----'' @ [CHR 0x0A] @ w @ [CHR 0x0A] @ ''-----END '' @ name @ ''-----'') (wordwrap b64)"

definition getPublicKey :: "string \<Rightarrow> string option" where
  "getPublicKey b64 = armour ''PUBLIC KEY'' b64"

definition getPrivateKey :: "string \<Rightarrow> string option" where
  "getPrivateKey b64 = armour ''RSA PRIVATE KEY'' b64"

text \<open>\<open>ut.unarmor\<close>: the first place where one of the two forms of armour matches gives the text to decode.\<close>

definition armour_char :: "char \<Rightarrow> bool" where
  "armour_char c \<longleftrightarrow> c \<in> set b64_alphabet \<or> c = CHR ''='' \<or> js_space c"

text \<open>\<open>strip p s\<close>: what follows \<open>p\<close> at the start of \<open>s\<close>.\<close>

definition strip :: "string \<Rightarrow> string \<Rightarrow> string option" where
  "strip p s = (if prefix p s then Some (drop (length p) s) else None)"

text \<open>A dash-free label and the five dashes after it.\<close>

definition armour_label :: "string \<Rightarrow> string option" where
  "armour_label s = (let l = takeWhile (\<lambda>c. c \<noteq> CHR ''-'') s in
     if l = [] then None else strip ''-----'' (drop (length l) s))"

definition pem_at :: "string \<Rightarrow> string option" where
  "pem_at s = (case strip ''-----BEGIN '' s of None \<Rightarrow> None | Some s1 \<Rightarrow>
     (case armour_label s1 of None \<Rightarrow> None | Some s2 \<Rightarrow>
       (let body = takeWhile armour_char s2 in
        if body = [] then None
        else (case strip ''-----END '' (drop (length body) s2) of None \<Rightarrow> None
              | Some s3 \<Rightarrow> (case armour_label s3 of None \<Rightarrow> None | Some _ \<Rightarrow> Some body)))))"

definition uu_at :: "string \<Rightarrow> string option" where
  "uu_at s = (case strip ''begin-base64'' s of None \<Rightarrow> None | Some s1 \<Rightarrow>
     (let l = takeWhile (\<lambda>c. c \<noteq> CHR 0x0A) s1; s2 = drop (length l) s1 in
      if l = [] \<or> s2 = [] then None
      else (let s3 = tl s2; run = takeWhile armour_char s3 in
        map_option (\<lambda>k. take k s3) (find (\<lambda>k. prefix ''===='' (drop k s3)) (rev [1..<length run + 1])))))"

fun unarmor_search :: "string \<Rightarrow> string option" where
  "unarmor_search s = (case pem_at s of Some b \<Rightarrow> Some b | None \<Rightarrow>
     (case uu_at s of Some b \<Rightarrow> Some b | None \<Rightarrow> (case s of [] \<Rightarrow> None | c # cs \<Rightarrow> unarmor_search cs)))"

definition unarmor :: "string \<Rightarrow> decode_error + nat list" where
  "unarmor r = b64_decode (case unarmor_search r of None \<Rightarrow> r | Some b \<Rightarrow> b)"

section \<open>Digits and alphabet\<close>

definition hx :: "nat \<Rightarrow> char" where
  "hx d = ''0123456789abcdef'' ! d"

definition hex_text :: "string \<Rightarrow> bool" where
  "hex_text h \<longleftrightarrow> set h \<subseteq> set ''0123456789abcdef''"

lemma indexOf_nth: "distinct s \<Longrightarrow> k < length s \<Longrightarrow> indexOf [s ! k] s = Some k"
  by (induction s arbitrary: k) (auto simp: nth_Cons split: nat.split)

lemma hx_facts:
  assumes "d < 16"
  shows "hexval (hx d) = Some d" and "int2char d = [hx d]" and "\<not> blank_char (hx d)" and "hx d \<noteq> CHR ''=''"
proof -
  have val: "map hexval ''0123456789abcdef'' = map Some [0..<16]" by (simp add: hexval_def upt_rec)
  show "hexval (hx d) = Some d"
    using arg_cong[OF val, of "\<lambda>l. l ! d"] assms by (simp add: hx_def nth_map del: list.map)
  have "''0123456789abcdefghijklmnopqrstuvwxyz'' ! d = (''0123456789abcdef'' @ ''ghijklmnopqrstuvwxyz'') ! d" by simp
  also have "\<dots> = hx d" unfolding hx_def using assms by (subst nth_append) simp
  finally show "int2char d = [hx d]" using assms by (simp add: int2char_def)
  have "hx d \<in> set ''0123456789abcdef''" unfolding hx_def using assms by (intro nth_mem) simp
  moreover have "\<forall>c \<in> set ''0123456789abcdef''. \<not> blank_char c \<and> c \<noteq> CHR ''=''" by (simp add: blank_char_def)
  ultimately show "\<not> blank_char (hx d)" "hx d \<noteq> CHR ''=''" by blast+
qed

lemma alphabet: "length b64_alphabet = 64" "distinct b64_alphabet"
  by (simp_all add: b64_alphabet_def)

lemma alphabet_chars:
  "\<forall>c \<in> set b64_alphabet. \<not> blank_char c \<and> c \<notin> {CHR ''='', CHR ''-'', CHR ''_'', CHR '' '', CHR 0x0A}"
  by (simp add: b64_alphabet_def blank_char_def)

lemma b64_facts:
  assumes "k < 64"
  shows "b64_index (b64_char k) = Some k" and "b64_value (b64_char k) = Some k" and "\<not> blank_char (b64_char k)"
    and "b64_char k \<noteq> CHR ''=''" and "b64_char k \<in> set b64_alphabet"
proof -
  show i: "b64_index (b64_char k) = Some k"
    unfolding b64_index_def b64_char_def using assms alphabet by (simp add: indexOf_nth)
  show m: "b64_char k \<in> set b64_alphabet" unfolding b64_char_def using assms alphabet(1) by (intro nth_mem) simp
  show "\<not> blank_char (b64_char k)" "b64_char k \<noteq> CHR ''=''" "b64_value (b64_char k) = Some k"
    using bspec[OF alphabet_chars m] i by (simp_all add: b64_value_def)
qed

lemma hex_textE:
  assumes "hex_text h"
  obtains xs where "h = map hx xs" "\<forall>x \<in> set xs. x < 16"
proof -
  have "\<forall>c \<in> set h. \<exists>d < 16. c = hx d"
  proof
    fix c assume "c \<in> set h"
    then have "c \<in> set ''0123456789abcdef''" using assms unfolding hex_text_def by (rule rev_subsetD)
    then obtain d where "d < length ''0123456789abcdef''" "''0123456789abcdef'' ! d = c" unfolding in_set_conv_nth by blast
    then show "\<exists>d < 16. c = hx d" unfolding hx_def by (intro exI[of _ d]) simp
  qed
  then have "\<exists>xs. h = map hx xs \<and> (\<forall>x \<in> set xs. x < 16)"
  proof (induction h)
    case (Cons c h)
    then obtain xs d where "h = map hx xs" "\<forall>x \<in> set xs. x < 16" "d < 16" "c = hx d" by auto
    then show ?case by (intro exI[of _ "d # xs"]) simp
  qed simp
  then show thesis using that by blast
qed

lemma parse_digits:
  "a < 16 \<Longrightarrow> parse_hex 0 [hx a] = a"
  "a < 16 \<Longrightarrow> b < 16 \<Longrightarrow> parse_hex 0 [hx a, hx b] = 16 * a + b"
  "a < 16 \<Longrightarrow> b < 16 \<Longrightarrow> c < 16 \<Longrightarrow> parse_hex 0 [hx a, hx b, hx c] = 256 * a + 16 * b + c"
  by (simp_all add: hx_facts)

text \<open>The characters that three, two and one digits become.\<close>

lemma split_digits:
  assumes "a < 16" "b < 16" "c < (16 :: nat)"
  shows "(256 * a + 16 * b + c) div 64 = 4 * a + b div 4" and "(256 * a + 16 * b + c) mod 64 = 16 * (b mod 4) + c"
    and "(16 * a + b) div 4 = 4 * a + b div 4" and "(16 * a + b) mod 4 = b mod 4"
proof -
  obtain q m where "b div 4 = q" "b mod 4 = m" "b = 4 * q + m" using mult_div_mod_eq[of 4 b] by metis
  then have e: "256 * a + 16 * b + c = 64 * (4 * a + b div 4) + (16 * (b mod 4) + c)" by simp
  have lt: "16 * (b mod 4) + c < 64" using assms(3) mod_less_divisor[of 4 b] by linarith
  show "(256 * a + 16 * b + c) div 64 = 4 * a + b div 4" unfolding e using lt by (subst div_mult_self4) simp_all
  show "(256 * a + 16 * b + c) mod 64 = 16 * (b mod 4) + c" unfolding e mod_mult_self4 using lt by simp
  show "(16 * a + b) div 4 = 4 * a + b div 4" "(16 * a + b) mod 4 = b mod 4" by presburger+
qed

lemma body_digits:
  assumes "\<forall>x \<in> set xs. x < 16"
  shows "hex2b64_body (map hx xs) = (case xs of
      [] \<Rightarrow> [] | [a] \<Rightarrow> [b64_char (a * 4)] | [a, b] \<Rightarrow> [b64_char (4 * a + b div 4), b64_char (b mod 4 * 16)]
    | a # b # c # r \<Rightarrow> b64_char (4 * a + b div 4) # b64_char (16 * (b mod 4) + c) # hex2b64_body (map hx r))"
  using assms by (auto simp: parse_digits split_digits Let_def simp del: parse_hex.simps split: list.split)

section \<open>From Base64 back to hexadecimal\<close>

fun unpack :: "nat list \<Rightarrow> nat list" and unpack2 :: "nat \<Rightarrow> nat list \<Rightarrow> nat list" where
  "unpack [] = []"
| "unpack [a] = [a, 0]"
| "unpack [a, b] = [a, b]"
| "unpack (a # b # c # r) = a # b # unpack2 c r"
| "unpack2 p [] = []"
| "unpack2 p [a] = [p, a]"
| "unpack2 p [a, b] = [p, a, b, 0]"
| "unpack2 p (a # b # c # r) = p # a # b # c # unpack r"

lemma quarter: "b < 16 \<Longrightarrow> b div 4 < (4 :: nat)" "b div 4 * 4 + b mod 4 = (b :: nat)" "4 * (b div 4) + b mod 4 = b"
  by simp_all

lemma b64_step:
  assumes "s < 64"
  shows "b64tohex_loop 0 n (b64_char s # cs) = int2char (s div 4) @ b64tohex_loop (Suc 0) (s mod 4) cs"
    and "b64tohex_loop (Suc 0) n (b64_char s # cs) = int2char (n * 4 + s div 16) @ b64tohex_loop 2 (s mod 16) cs"
    and "b64tohex_loop 2 n (b64_char s # cs) = int2char n @ int2char (s div 4) @ b64tohex_loop 3 (s mod 4) cs"
    and "b64tohex_loop 3 n (b64_char s # cs) = int2char (n * 4 + s div 16) @ int2char (s mod 16) @ b64tohex_loop 0 n cs"
  using b64_facts[OF assms] by simp_all

lemma b64_pad: "b64tohex_loop i n (replicate k (CHR ''='')) = (if i = Suc 0 then int2char (n * 4) else [])"
  by (cases k) simp_all

lemma list3_cases:
  obtains (nil) "xs = []" | (one) a where "xs = [a]" | (two) a b where "xs = [a, b]" | (three) a b c r where "xs = a # b # c # r"
  by (metis neq_Nil_conv)

lemma b64_loop_unpack:
  assumes "\<forall>x \<in> set xs. x < 16"
  shows "b64tohex_loop 0 n (hex2b64_body (map hx xs) @ replicate k (CHR ''='')) = map hx (unpack xs) \<and>
    (\<forall>p < 16. b64tohex_loop 2 p (hex2b64_body (map hx xs) @ replicate k (CHR ''='')) = map hx (unpack2 p xs))"
  using assms
proof (induction xs arbitrary: n rule: length_induct)
  case (1 xs)
  show ?case
  proof (cases xs rule: list3_cases)
    case nil
    then show ?thesis by (simp add: b64_pad)
  next
    case (one a)
    then have a: "a < 16" "a * 4 < 64" using 1(2) by auto
    have bd: "hex2b64_body (map hx xs) = [b64_char (a * 4)]" using body_digits[OF 1(2)] one by simp
    show ?thesis unfolding bd using one a by (simp add: b64_step[OF a(2)] b64_pad hx_facts del: b64tohex_loop.simps)
  next
    case (two a b)
    then have lt: "a < 16" "b < 16" using 1(2) by auto
    have s1: "4 * a + b div 4 < 64" "(4 * a + b div 4) div 4 = a" "(4 * a + b div 4) mod 4 = b div 4" using lt by auto
    have s2: "b mod 4 * 16 < 64" "b mod 4 * 16 div 16 = b mod 4" "b mod 4 * 16 mod 16 = 0" by auto
    have bd: "hex2b64_body (map hx xs) = [b64_char (4 * a + b div 4), b64_char (b mod 4 * 16)]" using body_digits[OF 1(2)] two by simp
    show ?thesis
      unfolding bd using two lt by (simp add: b64_step[OF s1(1)] b64_step[OF s2(1)] b64_pad s1 s2 quarter hx_facts del: b64tohex_loop.simps)
  next
    case (three a b c r)
    then have lt: "a < 16" "b < 16" "c < 16" "\<forall>x \<in> set r. x < 16" using 1(2) by auto
    have s1: "4 * a + b div 4 < 64" "(4 * a + b div 4) div 4 = a" "(4 * a + b div 4) mod 4 = b div 4" using lt by auto
    have s2: "16 * (b mod 4) + c < 64" "(16 * (b mod 4) + c) div 16 = b mod 4" "(16 * (b mod 4) + c) mod 16 = c"
      using lt mod_less_divisor[of 4 b] by auto
    have ih: "b64tohex_loop 0 m (hex2b64_body (map hx r) @ replicate k (CHR ''='')) = map hx (unpack r)"
      "p < 16 \<Longrightarrow> b64tohex_loop 2 p (hex2b64_body (map hx r) @ replicate k (CHR ''='')) = map hx (unpack2 p r)" for m p
      using 1(1) three lt(4) by auto
    have bd: "hex2b64_body (map hx xs) = b64_char (4 * a + b div 4) # b64_char (16 * (b mod 4) + c) # hex2b64_body (map hx r)"
      using body_digits[OF 1(2)] three by simp
    show ?thesis
      unfolding bd using three lt ih by (simp add: b64_step[OF s1(1)] b64_step[OF s2(1)] s1 s2 quarter hx_facts del: b64tohex_loop.simps)
  qed
qed

text \<open>What unpacking gives: whole bytes come back, an odd number of digits does not.\<close>

lemma unpack_closed:
  "unpack xs = (if even (length xs) then xs else if length xs mod 6 = 3 then butlast xs else xs @ [0])"
  "unpack2 p xs = (if even (length (p # xs)) then p # xs else if length (p # xs) mod 6 = 1 then butlast (p # xs) else p # xs @ [0])"
proof (induction xs and p xs rule: unpack_unpack2.induct)
  case (4 a b c r)
  have "length (a # b # c # r) mod 6 = 3 \<longleftrightarrow> length (c # r) mod 6 = 1" by simp presburger
  then show ?case using 4 by (simp del: mod_Suc_eq)
next
  case (8 p a b c r)
  have "length (p # a # b # c # r) mod 6 = 1 \<longleftrightarrow> length r mod 6 = 3" by simp presburger
  then show ?case using 8 by (simp del: mod_Suc_eq)
qed simp_all

text \<open>Turning a text of hexadecimal digits into Base64 and back gives the text, if it has an even number of digits, that is
  for whole bytes; of an odd number of digits it drops the last one or adds a zero.\<close>

theorem hex_b64_round_trip:
  assumes "hex_text h"
  shows "b64tohex (hex2b64 h) = (if even (length h) then h else if length h mod 6 = 3 then butlast h else h @ ''0'')"
proof -
  obtain xs where xs: "h = map hx xs" "\<forall>x \<in> set xs. x < 16" by (rule hex_textE[OF assms])
  have "b64tohex (hex2b64 h) = map hx (unpack xs)"
    using b64_loop_unpack[OF xs(2)] by (simp add: b64tohex_def hex2b64_def Let_def xs(1))
  then show ?thesis unfolding unpack_closed xs(1) by (simp add: map_butlast hx_def)
qed

theorem hex_b64_round_trip_witness: "b64tohex (hex2b64 ''30820a'') = ''30820a'' \<and> b64tohex (hex2b64 ''abc'') = ''ab''"
  using hex_b64_round_trip[of "''30820a''"] hex_b64_round_trip[of "''abc''"] by (simp add: hex_text_def)

section \<open>Both decoders read the same bytes\<close>

fun bytes :: "nat list \<Rightarrow> nat list" where
  "bytes (a # b # r) = (16 * a + b) # bytes r"
| "bytes _ = []"

lemma hex_loop_bytes:
  assumes "\<forall>x \<in> set xs. x < 16" and "even (length xs)"
  shows "hex_decode_loop t 0 0 n (map hx xs) = Inr (n @ bytes xs)"
  using assms by (induction xs arbitrary: t n rule: bytes.induct) (simp_all add: hx_facts add.commute mult.commute)

lemma b64_decode_step:
  assumes "o1 < 64"
  shows "b64_decode_loop t s h n (b64_char o1 # cs) = (if h \<ge> 3
    then b64_decode_loop (t + 1) 0 0 (n @ [(s + o1) div 65536, (s + o1) div 256 mod 256, (s + o1) mod 256]) cs
    else b64_decode_loop (t + 1) ((s + o1) * 64) (h + 1) n cs)"
  using b64_facts[OF assms] by (simp add: Let_def)

lemma b64_decode_pad: "b64_decode_loop t s h n (replicate k (CHR ''='')) = b64_finish s h n"
  by (cases k) simp_all

text \<open>Three digits are twelve bits, and two groups of three are three bytes.\<close>

lemma twelve_bits:
  assumes "b < 16"
  shows "(4 * a + b div 4) * 64 + (16 * (b mod 4) + c) = 256 * a + 16 * b + (c :: nat)"
proof -
  obtain q m where "b div 4 = q" "b mod 4 = m" "b = 4 * q + m" using mult_div_mod_eq[of 4 b] by metis
  then show ?thesis by simp
qed

lemma three_bytes:
  assumes "a < 16" "b < 16" "c < 16" "d < 16" "e < 16" "f < (16 :: nat)"
  shows "((256 * a + 16 * b + c) * 4096 + (256 * d + 16 * e + f)) div 65536 = 16 * a + b"
    and "((256 * a + 16 * b + c) * 4096 + (256 * d + 16 * e + f)) div 256 mod 256 = 16 * c + d"
    and "((256 * a + 16 * b + c) * 4096 + (256 * d + 16 * e + f)) mod 256 = 16 * e + f"
proof -
  let ?v = "(256 * a + 16 * b + c) * 4096 + (256 * d + 16 * e + f)"
  have lo: "?v = 256 * (4096 * a + 256 * b + 16 * c + d) + (16 * e + f)" by simp
  have v1: "?v div 256 = 4096 * a + 256 * b + 16 * c + d" unfolding lo using assms by (subst div_mult_self4) simp_all
  show "?v mod 256 = 16 * e + f" unfolding lo mod_mult_self4 using assms by simp
  have mid: "4096 * a + 256 * b + 16 * c + d = 256 * (16 * a + b) + (16 * c + d)" by simp
  show "?v div 256 mod 256 = 16 * c + d" unfolding v1 mid mod_mult_self4 using assms by simp
  have "?v div 65536 = ?v div 256 div 256" by (simp add: div_mult2_eq[symmetric])
  also have "\<dots> = 16 * a + b" unfolding v1 mid using assms by (subst div_mult_self4) simp_all
  finally show "?v div 65536 = 16 * a + b" .
qed

lemma tail_bytes:
  assumes "a < 16" "b < 16" "c < 16" "d < (16 :: nat)"
  shows "((4 * a + b div 4) * 64 + b mod 4 * 16) * 64 div 1024 = 16 * a + b"
    and "((256 * a + 16 * b + c) * 64 + d * 4) * 64 div 65536 = 16 * a + b"
    and "((256 * a + 16 * b + c) * 64 + d * 4) * 64 div 256 mod 256 = 16 * c + d"
proof -
  have "((4 * a + b div 4) * 64 + b mod 4 * 16) * 64 = (16 * a + b) * 1024"
    using twelve_bits[OF assms(2), of a 0] by (simp add: mult.commute)
  then show "((4 * a + b div 4) * 64 + b mod 4 * 16) * 64 div 1024 = 16 * a + b" by simp
  have eq: "((256 * a + 16 * b + c) * 64 + d * 4) * 64 = (256 * a + 16 * b + c) * 4096 + (256 * d + 16 * 0 + 0)" by simp
  show "((256 * a + 16 * b + c) * 64 + d * 4) * 64 div 65536 = 16 * a + b"
    "((256 * a + 16 * b + c) * 64 + d * 4) * 64 div 256 mod 256 = 16 * c + d"
    unfolding eq using three_bytes[OF assms, of 0 0] by simp_all
qed

lemma even_list_cases:
  fixes xs :: "nat list"
  assumes "even (length xs)"
  obtains (nil) "xs = []" | (two) a b where "xs = [a, b]" | (four) a b c d where "xs = [a, b, c, d]"
    | (six) a b c d e f r where "xs = a # b # c # d # e # f # r" "even (length r)"
proof (cases xs rule: bytes.cases)
  case (1 a b r)
  then have "even (length r)" using assms by simp
  show thesis
  proof (cases r rule: bytes.cases)
    case (1 c d r')
    have "even (length r')" using 1 \<open>even (length r)\<close> by simp
    show thesis
      by (cases r' rule: bytes.cases) (use 1 \<open>xs = a # b # r\<close> \<open>even (length r')\<close> four six in auto)
  qed (use 1 \<open>even (length r)\<close> two in auto)
qed (use assms nil in auto)

lemma digit_group:
  assumes "a < 16" "b < 16" "c < (16 :: nat)"
  shows "4 * a + b div 4 < 64" "16 * (b mod 4) + c < 64"
  using assms mod_less_divisor[of 4 b] by auto

lemma body_group:
  assumes "a < 16" "b < 16" "c < 16"
  shows "hex2b64_body (hx a # hx b # hx c # r) = b64_char (4 * a + b div 4) # b64_char (16 * (b mod 4) + c) # hex2b64_body r"
  using assms by (simp add: Let_def parse_digits split_digits del: parse_hex.simps)

lemma four_chars:
  assumes "o1 < 64" "o2 < 64" "o3 < 64" "o4 < 64"
  shows "b64_decode_loop t 0 0 n (b64_char o1 # b64_char o2 # b64_char o3 # b64_char o4 # cs) =
    b64_decode_loop (t + 1 + 1 + 1 + 1) 0 0 (n @ [(((o1 * 64 + o2) * 64 + o3) * 64 + o4) div 65536,
      (((o1 * 64 + o2) * 64 + o3) * 64 + o4) div 256 mod 256, (((o1 * 64 + o2) * 64 + o3) * 64 + o4) mod 256]) cs"
  by (simp add: b64_decode_step[OF assms(1)] b64_decode_step[OF assms(2)] b64_decode_step[OF assms(3)] b64_decode_step[OF assms(4)]
      del: b64_decode_loop.simps)

lemma b64_loop_bytes:
  assumes "\<forall>x \<in> set xs. x < 16" and "even (length xs)"
  shows "b64_decode_loop t 0 0 n (hex2b64_body (map hx xs) @ replicate k (CHR ''='')) = Inr (n @ bytes xs)"
  using assms
proof (induction xs arbitrary: t n rule: length_induct)
  case (1 xs)
  from 1(3) show ?case
  proof (cases xs rule: even_list_cases)
    case nil
    then show ?thesis by (simp add: b64_decode_pad b64_finish_def)
  next
    case (two a b)
    then have lt: "a < 16" "b < 16" using 1(2) by auto
    have bd: "hex2b64_body (map hx xs) = [b64_char (4 * a + b div 4), b64_char (b mod 4 * 16)]" using body_digits[OF 1(2)] two by simp
    have s2: "4 * a + b div 4 < 64" "b mod 4 * 16 < 64" using lt by auto
    show ?thesis
      unfolding bd using two tail_bytes(1)[OF lt, of 0 0]
      by (simp add: b64_decode_step[OF s2(1)] b64_decode_step[OF s2(2)] b64_decode_pad b64_finish_def del: b64_decode_loop.simps)
  next
    case (four a b c d)
    then have lt: "a < 16" "b < 16" "c < 16" "d < 16" using 1(2) by auto
    have bd: "hex2b64_body (map hx xs) = [b64_char (4 * a + b div 4), b64_char (16 * (b mod 4) + c), b64_char (d * 4)]"
      using four lt body_digits[OF 1(2)] by (simp add: Let_def parse_digits del: parse_hex.simps hex2b64_body.simps(1))
    note g = digit_group[OF lt(1-3)]
    have d4: "d * 4 < 64" using lt by simp
    have "b64_decode_loop t 0 0 n (hex2b64_body (map hx xs) @ replicate k (CHR ''='')) =
        b64_finish ((((4 * a + b div 4) * 64 + (16 * (b mod 4) + c)) * 64 + d * 4) * 64) (Suc (Suc (Suc 0))) n"
      unfolding bd by (simp add: b64_decode_step[OF g(1)] b64_decode_step[OF g(2)] b64_decode_step[OF d4] b64_decode_pad del: b64_decode_loop.simps)
    also have "\<dots> = Inr (n @ bytes xs)"
      unfolding twelve_bits[OF lt(2)] b64_finish_def using tail_bytes(2,3)[OF lt] four by simp
    finally show ?thesis .
  next
    case (six a b c d e f r)
    then have lt: "a < 16" "b < 16" "c < 16" "d < 16" "e < 16" "f < 16" and r: "\<forall>x \<in> set r. x < 16" using 1(2) by auto
    have bd: "hex2b64_body (map hx xs) = b64_char (4 * a + b div 4) # b64_char (16 * (b mod 4) + c) #
        b64_char (4 * d + e div 4) # b64_char (16 * (e mod 4) + f) # hex2b64_body (map hx r)"
      using six lt by (simp add: body_group del: hex2b64_body.simps)
    note g = digit_group[OF lt(1-3)] digit_group[OF lt(4-6)]
    have v: "((256 * a + 16 * b + c) * 64 + (4 * d + e div 4)) * 64 + (16 * (e mod 4) + f) =
        (256 * a + 16 * b + c) * 4096 + (256 * d + 16 * e + f)" using twelve_bits[OF lt(5), of d f] by simp
    have ih: "b64_decode_loop t' 0 0 n' (hex2b64_body (map hx r) @ replicate k (CHR ''='')) = Inr (n' @ bytes r)" for t' n'
      using 1(1) six r by simp
    have "b64_decode_loop t 0 0 n (hex2b64_body (map hx xs) @ replicate k (CHR ''='')) =
        Inr ((n @ [16 * a + b, 16 * c + d, 16 * e + f]) @ bytes r)"
      by (simp only: bd append_Cons four_chars[OF g] twelve_bits[OF lt(2)] v three_bytes[OF lt] ih)
    then show ?thesis using six(1) by (simp del: hex2b64_body.simps)
  qed
qed

text \<open>The decoder of Base64 reads from the Base64 text of a hexadecimal text the bytes that the decoder of hexadecimal
  texts reads from it directly.\<close>

theorem decoders_agree:
  assumes "hex_text h" and "even (length h)"
  shows "\<exists>bs. hex_decode h = Inr bs \<and> b64_decode (hex2b64 h) = Inr bs \<and> 2 * length bs = length h \<and> (\<forall>b \<in> set bs. b < 256)"
proof -
  obtain xs where xs: "h = map hx xs" "\<forall>x \<in> set xs. x < 16" by (rule hex_textE[OF assms(1)])
  have ev: "even (length xs)" using assms(2) xs(1) by simp
  have "2 * length (bytes xs) = length xs \<and> (\<forall>b \<in> set (bytes xs). b < 256)"
    using xs(2) ev by (induction xs rule: bytes.induct) auto
  then show ?thesis
    using hex_loop_bytes[OF xs(2) ev] b64_loop_bytes[OF xs(2) ev]
    by (intro exI[of _ "bytes xs"]) (simp add: hex_decode_def b64_decode_def hex2b64_def Let_def xs(1))
qed

theorem decoders_agree_witness: "\<exists>bs. hex_decode ''30820a'' = Inr bs \<and> b64_decode (hex2b64 ''30820a'') = Inr bs"
  using decoders_agree[of "''30820a''"] by (auto simp: hex_text_def)

section \<open>Armour and back\<close>

lemma prefix_drop: "prefix p s \<Longrightarrow> p @ drop (length p) s = s"
  by (auto simp: prefix_def)

lemma wrap_match_prefix:
  assumes "\<forall>c \<in> set s. c \<noteq> CHR 0x0A" and "0 < i" and "s \<noteq> []"
  shows "wrap_match i s \<noteq> []" and "wrap_match i s @ drop (length (wrap_match i s)) s = s"
proof -
  have run: "1 \<le> line_run i s" using assms by (cases s) (simp_all add: line_run_def)
  have k1: "1 \<le> k" if "wrap_end i s = Some k" for k
  proof -
    have "k \<in> set (rev [1..<line_run i s + 1])" using that unfolding wrap_end_def find_Some_iff by (metis nth_mem)
    then show ?thesis by auto
  qed
  show "wrap_match i s \<noteq> []"
    using run assms(3) k1 by (auto simp: wrap_match_def split: option.split)
  have "prefix (wrap_match i s) s"
  proof (cases "wrap_end i s")
    case None
    then show ?thesis by (simp add: wrap_match_def take_is_prefix)
  next
    case (Some k)
    have "prefix (takeWhile (\<lambda>c. c = CHR '' '') (drop k s)) (drop k s)"
      by (metis prefixI takeWhile_dropWhile_id)
    then have "prefix (take k s @ takeWhile (\<lambda>c. c = CHR '' '') (drop k s)) (take k s @ drop k s)" by (simp only: same_prefix_prefix)
    with Some show ?thesis by (simp add: wrap_match_def)
  qed
  then show "wrap_match i s @ drop (length (wrap_match i s)) s = s" by (rule prefix_drop)
qed

lemma wrap_lines_concat:
  assumes "\<forall>c \<in> set s. c \<noteq> CHR 0x0A" and "0 < i"
  shows "concat (wrap_lines i s) = s"
  using assms
proof (induction i s rule: wrap_lines.induct)
  case (2 i c cs)
  let ?m = "wrap_match i (c # cs)"
  note m = wrap_match_prefix[OF 2(3,4), simplified]
  have "\<forall>x \<in> set (drop (length ?m) (c # cs)). x \<noteq> CHR 0x0A" using 2(3) by (meson in_set_dropD)
  then have "concat (wrap_lines i (drop (length ?m) (c # cs))) = drop (length ?m) (c # cs)" using 2 m(1) by simp
  then show ?case using m by (simp add: Let_def del: drop_Cons')
qed simp

lemma filter_js_join: "filter P (js_join sep xs) = concat (map (filter P) xs)" if "filter P sep = []"
  using that by (induction sep xs rule: js_join.induct) simp_all

lemma decode_skips_blanks:
  "b64_decode_loop t s h n (filter (\<lambda>c. \<not> blank_char c) cs) = Inr r \<Longrightarrow> b64_decode_loop t' s h n cs = Inr r"
proof (induction cs arbitrary: t t' s h n)
  case (Cons c cs)
  show ?case
  proof (cases "blank_char c")
    case True
    then have "c \<noteq> CHR ''=''" by (auto simp: blank_char_def)
    with True Cons show ?thesis by simp
  next
    case False
    show ?thesis
    proof (cases "c = CHR ''='' \<or> b64_value c = None")
      case True
      then show ?thesis using False Cons.prems by auto
    next
      case no: False
      then obtain o1 where o1: "b64_value c = Some o1" "c \<noteq> CHR ''=''" by auto
      show ?thesis
        using Cons.prems False o1 Cons.IH by (auto simp: Let_def split: if_splits)
    qed
  qed
qed simp

lemma hex2b64_chars:
  assumes "hex_text h"
  shows "\<forall>c \<in> set (hex2b64 h). c \<in> set b64_alphabet \<or> c = CHR ''=''"
proof -
  obtain xs where xs: "h = map hx xs" "\<forall>x \<in> set xs. x < 16" by (rule hex_textE[OF assms])
  have "\<forall>c \<in> set (hex2b64_body (map hx xs)). c \<in> set b64_alphabet"
    using xs(2)
  proof (induction xs rule: length_induct)
    case (1 ys)
    have lt: "\<forall>x \<in> set ys. x < 16" by (rule 1(2))
    have ok: "k < 64 \<Longrightarrow> b64_char k \<in> set b64_alphabet" for k by (rule b64_facts(5))
    show ?case
    proof (cases ys rule: list3_cases)
      case (three a b c r)
      have "\<forall>x \<in> set (hex2b64_body (map hx r)). x \<in> set b64_alphabet" using 1(1)[rule_format, of r] lt three by simp
      with three show ?thesis using lt digit_group[of a b c] by (auto simp: body_group intro!: ok simp del: hex2b64_body.simps)
    next
      case (two a b)
      then have "hex2b64_body (map hx ys) = [b64_char (4 * a + b div 4), b64_char (b mod 4 * 16)]"
        using body_digits[OF lt] by simp
      then show ?thesis using lt two by (auto intro!: ok)
    next
      case (one a)
      then have "hex2b64_body (map hx ys) = [b64_char (a * 4)]" using body_digits[OF lt] by simp
      then show ?thesis using lt one by (auto intro!: ok)
    qed simp
  qed
  then show ?thesis by (auto simp: hex2b64_def Let_def xs(1))
qed

lemma takeWhile_stop: "\<forall>c \<in> set xs. P c \<Longrightarrow> \<not> P y \<Longrightarrow> takeWhile P (xs @ y # ys) = xs"
  by (induction xs) auto

lemma strip_append [simp]: "strip p (p @ s) = Some s"
  by (simp add: strip_def)

lemma armour_label_append:
  assumes "l \<noteq> []" and "CHR ''-'' \<notin> set l"
  shows "armour_label (l @ ''-----'' @ s) = Some s"
proof -
  have "takeWhile (\<lambda>c. c \<noteq> CHR ''-'') (l @ ''-----'' @ s) = l"
  proof -
    have "takeWhile (\<lambda>c. c \<noteq> CHR ''-'') (l @ CHR ''-'' # (''----'' @ s)) = l" by (rule takeWhile_stop) (use assms(2) in auto)
    then show ?thesis by simp
  qed
  with assms(1) show ?thesis by (simp add: armour_label_def strip_def)
qed

lemma unarmor_armour:
  assumes "label \<noteq> []" and "CHR ''-'' \<notin> set label" and "w \<noteq> []" and "\<forall>c \<in> set w. armour_char c"
  shows "unarmor_search (''-----BEGIN '' @ label @ ''-----'' @ [CHR 0x0A] @ w @ [CHR 0x0A] @ ''-----END '' @ label @ ''-----'') =
    Some ([CHR 0x0A] @ w @ [CHR 0x0A])"
proof -
  let ?body = "[CHR 0x0A] @ w @ [CHR 0x0A]"
  let ?rest = "?body @ ''-----END '' @ label @ ''-----''"
  have nl: "armour_char (CHR 0x0A)" by (simp add: armour_char_def js_space_def)
  have dash: "\<not> armour_char (CHR ''-'')" using alphabet_chars by (auto simp: armour_char_def js_space_def)
  have tw: "takeWhile armour_char ?rest = ?body"
    using takeWhile_stop[of ?body armour_char "CHR ''-''" "''----END '' @ label @ ''-----''"] nl dash assms(4) by auto
  have e: "armour_label (label @ ''-----'') = Some []" using armour_label_append[OF assms(1,2), of "[]"] by simp
  have "pem_at (''-----BEGIN '' @ label @ ''-----'' @ ?rest) = Some ?body"
    unfolding pem_at_def strip_append option.case armour_label_append[OF assms(1,2)] Let_def tw using e by (simp add: strip_def)
  then show ?thesis by (subst unarmor_search.simps) simp
qed

lemma wordwrap_key:
  assumes "hex_text h" and "h \<noteq> []"
  shows "\<exists>w. wordwrap (hex2b64 h) = Some w \<and> w \<noteq> [] \<and> filter (\<lambda>c. \<not> blank_char c) w = hex2b64 h \<and> (\<forall>c \<in> set w. armour_char c)"
proof -
  let ?s = "hex2b64 h"
  have chars: "\<forall>c \<in> set ?s. c \<in> set b64_alphabet \<or> c = CHR ''=''" by (rule hex2b64_chars[OF assms(1)])
  have "\<not> blank_char (CHR ''='')" by (simp add: blank_char_def)
  then have plain: "\<forall>c \<in> set ?s. \<not> blank_char c \<and> c \<noteq> CHR 0x0A" using chars alphabet_chars by blast
  have ne: "?s \<noteq> []" using assms(2) by (cases h rule: hex2b64_body.cases) (simp_all add: hex2b64_def Let_def)
  define ls where "ls = wrap_lines 64 ?s"
  have cat: "concat ls = ?s" unfolding ls_def by (rule wrap_lines_concat) (use plain in auto)
  then have "ls \<noteq> []" using ne by auto
  define w where "w = js_join [CHR 0x0A] ls"
  have "filter (\<lambda>c. \<not> blank_char c) w = filter (\<lambda>c. \<not> blank_char c) (concat ls)"
    unfolding w_def by (subst filter_js_join) (simp_all add: blank_char_def filter_concat)
  also have "\<dots> = ?s" unfolding cat using plain by (simp add: filter_id_conv)
  finally have fil: "filter (\<lambda>c. \<not> blank_char c) w = ?s" .
  have "armour_char c" if "c \<in> set w" for c
  proof (cases "blank_char c")
    case False
    then have "c \<in> set (filter (\<lambda>c. \<not> blank_char c) w)" using that by simp
    then show ?thesis unfolding fil using chars by (auto simp: armour_char_def)
  qed (auto simp: blank_char_def armour_char_def js_space_def)
  moreover have "wordwrap ?s = Some w" using ne \<open>ls \<noteq> []\<close> by (simp add: wordwrap_def ls_def[symmetric] w_def split: list.split)
  ultimately show ?thesis using fil ne by auto
qed

lemma armour_decodes:
  assumes "hex_text h" and "even (length h)" and "h \<noteq> []" and label: "label \<noteq> []" "CHR ''-'' \<notin> set label"
  shows "\<exists>p bs. armour label (hex2b64 h) = Some p \<and> prefix ''-----BEGIN '' p \<and> hex_decode h = Inr bs \<and> unarmor p = Inr bs"
proof -
  obtain xs where xs: "h = map hx xs" "\<forall>x \<in> set xs. x < 16" by (rule hex_textE[OF assms(1)])
  have ev: "even (length xs)" using assms(2) xs(1) by simp
  have dec: "hex_decode h = Inr (bytes xs)" "b64_decode (hex2b64 h) = Inr (bytes xs)"
    using hex_loop_bytes[OF xs(2) ev] b64_loop_bytes[OF xs(2) ev]
    by (simp_all add: hex_decode_def b64_decode_def hex2b64_def Let_def xs(1))
  obtain w where w: "wordwrap (hex2b64 h) = Some w" "w \<noteq> []" "filter (\<lambda>c. \<not> blank_char c) w = hex2b64 h" "\<forall>c \<in> set w. armour_char c"
    using wordwrap_key[OF assms(1,3)] by blast
  have "b64_decode_loop 0 0 0 [] (filter (\<lambda>c. \<not> blank_char c) ([CHR 0x0A] @ w @ [CHR 0x0A])) = Inr (bytes xs)"
    using dec(2) w(3) by (simp add: b64_decode_def blank_char_def)
  from decode_skips_blanks[OF this] unarmor_armour[OF label w(2,4)] dec(1) show ?thesis
    by (auto simp: unarmor_def armour_def w(1) b64_decode_def)
qed

text \<open>a key that is written as Base64 between the lines of its armour, wrapped into lines, is read back as the bytes of the
  key, for public and for private keys.\<close>

theorem key_armour_round_trip:
  assumes "hex_text h" and "even (length h)" and "h \<noteq> []"
  shows "\<exists>p q bs. getPublicKey (hex2b64 h) = Some p \<and> getPrivateKey (hex2b64 h) = Some q \<and>
    hex_decode h = Inr bs \<and> unarmor p = Inr bs \<and> unarmor q = Inr bs"
  using armour_decodes[OF assms, of "''PUBLIC KEY''"] armour_decodes[OF assms, of "''RSA PRIVATE KEY''"]
  by (auto simp: getPublicKey_def getPrivateKey_def)

theorem key_armour_round_trip_witness:
  "\<exists>p bs. getPublicKey (hex2b64 ''300d0609'') = Some p \<and> hex_decode ''300d0609'' = Inr bs \<and> unarmor p = Inr bs"
  using key_armour_round_trip[of "''300d0609''"] by (auto simp: hex_text_def)

end
