(* ===== verification/Asn1_Reader.thy ===== *)
theory Asn1_Reader
  imports Key_Codec
begin

text \<open>
  The reader of ASN.1 structures behind the login page's keys (\<open>index-7e4c6da8.js\<close>): the stream of
  bytes, decimal numbers of any size, tags, lengths and the recursive decoder with the exceptions
  it throws and catches.  The code units of texts are natural numbers.  The decoder is written
  with fuel; the lemmas show that one unit more than the stream has bytes is always enough, and that
  the decoder inverts the definite-length encoding of a tree.
\<close>

section \<open>Numbers in base ten to the thirteenth\<close>

text \<open>\<open>Z\<close>: the buffer of a number, the lowest part first.  Products stay below \<open>2\<^sup>5\<^sup>3\<close>, so they are exact.\<close>

abbreviation zk :: nat where "zk \<equiv> 10000000000000"

type_synonym zbuf = "nat list"

definition z_new :: "nat \<Rightarrow> zbuf" where
  "z_new t = [t]"

fun mulAdd :: "nat \<Rightarrow> nat \<Rightarrow> zbuf \<Rightarrow> zbuf" where
  "mulAdd t e [] = (if e > 0 then [e] else [])"
| "mulAdd t e (b # bs) = (let h = b * t + e in if h < zk then h # mulAdd t 0 bs else (h - h div zk * zk) # mulAdd t (h div zk) bs)"

text \<open>\<open>sub\<close>: the borrow that is left over after the last part is lost; zero parts at the top are dropped.\<close>

fun z_borrow :: "nat \<Rightarrow> zbuf \<Rightarrow> zbuf" where
  "z_borrow t [] = []"
| "z_borrow t (b # bs) = (if b < t then (b + zk - t) # z_borrow 1 bs else (b - t) # z_borrow 0 bs)"

definition z_sub :: "nat \<Rightarrow> zbuf \<Rightarrow> zbuf" where
  "z_sub t bs = rev (dropWhile (\<lambda>b. b = 0) (rev (z_borrow t bs)))"

fun z_low_parts :: "zbuf \<Rightarrow> string" where
  "z_low_parts [] = []"
| "z_low_parts (b # bs) = z_low_parts bs @ tl (string_of_nat (zk + b))"

definition z_toString :: "zbuf \<Rightarrow> string" where
  "z_toString bs = string_of_nat (last bs) @ z_low_parts (butlast bs)"

text \<open>\<open>simplify\<close>: a plain number if there is one part only.\<close>

datatype znum = Small nat | Big zbuf

definition simplify :: "zbuf \<Rightarrow> znum" where
  "simplify bs = (case bs of [b] \<Rightarrow> Small b | _ \<Rightarrow> Big bs)"

fun znum_string :: "znum \<Rightarrow> string" where
  "znum_string (Small n) = string_of_nat n"
| "znum_string (Big bs) = z_toString bs"

section \<open>The stream\<close>

datatype asn_error =
    Requesting_byte nat nat
  | Length_over_48_bits nat
  | Content_size nat
  | Undefined_length_content asn_error
  | Unused_bits
  | Cannot_skip nat

text \<open>What a reader leaves: a value and the new position, an exception, or no fuel.\<close>

datatype 'a read = Done 'a nat | Throw asn_error | Out

fun rbind :: "'a read \<Rightarrow> ('a \<Rightarrow> nat \<Rightarrow> 'b read) \<Rightarrow> 'b read" where
  "rbind (Done x p) f = f x p"
| "rbind (Throw e) f = Throw e"
| "rbind Out f = Out"

text \<open>\<open>get\<close>, at a given position and at the position of the stream.\<close>

definition get_at :: "nat list \<Rightarrow> nat \<Rightarrow> asn_error + nat" where
  "get_at enc t = (if t \<ge> length enc then Inl (Requesting_byte t (length enc)) else Inr (enc ! t))"

definition get :: "nat list \<Rightarrow> nat \<Rightarrow> nat read" where
  "get enc p = (case get_at enc p of Inl e \<Rightarrow> Throw e | Inr b \<Rightarrow> Done b (p + 1))"

text \<open>The bytes from \<open>t\<close> to \<open>e\<close>, as every loop over \<open>get\<close> reads them; the first one outside of the stream throws.\<close>

fun get_all :: "nat list \<Rightarrow> nat list \<Rightarrow> asn_error + nat list" where
  "get_all enc [] = Inr []"
| "get_all enc (t # ts) = (case get_at enc t of Inl e \<Rightarrow> Inl e | Inr b \<Rightarrow> map_sum id ((#) b) (get_all enc ts))"

definition hexByte :: "nat \<Rightarrow> string" where
  "hexByte b = [hex_upper (b div 16 mod 16), hex_upper (b mod 16)]"

text \<open>\<open>hexDump\<close>: \<open>raw\<close> leaves out the blanks.\<close>

fun dump_gap :: "nat \<Rightarrow> string" where
  "dump_gap s = (if s mod 16 = 7 then ''  '' else if s mod 16 = 15 then [CHR 0x0A] else '' '')"

definition hexDump :: "nat list \<Rightarrow> nat \<Rightarrow> nat \<Rightarrow> bool \<Rightarrow> asn_error + string" where
  "hexDump enc t e raw = map_sum id
     (\<lambda>bs. concat (map (\<lambda>(s, b). hexByte b @ (if raw then [] else dump_gap s)) (zip [t..<e] bs))) (get_all enc [t..<e])"

text \<open>\<open>isASCII\<close> stops at the first other byte, so it can answer no before it leaves the stream.\<close>

fun isASCII :: "nat list \<Rightarrow> nat list \<Rightarrow> asn_error + bool" where
  "isASCII enc [] = Inr True"
| "isASCII enc (t # ts) = (case get_at enc t of Inl e \<Rightarrow> Inl e
     | Inr n \<Rightarrow> if n < 32 \<or> n > 176 then Inr False else isASCII enc ts)"

definition parseStringISO :: "nat list \<Rightarrow> nat \<Rightarrow> nat \<Rightarrow> asn_error + nat list" where
  "parseStringISO enc t e = get_all enc [t..<e]"

text \<open>\<open>parseStringUTF\<close>: a sequence that starts before \<open>e\<close> is read to its end, and \<open>fromCharCode\<close> keeps sixteen bits.\<close>

function parseStringUTF :: "nat list \<Rightarrow> nat \<Rightarrow> nat \<Rightarrow> asn_error + nat list" where
  "parseStringUTF enc n e = (if n < e then
     (case get_at enc n of Inl x \<Rightarrow> Inl x | Inr s \<Rightarrow>
        if s < 128 then map_sum id ((#) s) (parseStringUTF enc (n + 1) e)
        else if s > 191 \<and> s < 224 then
          (case get_at enc (n + 1) of Inl x \<Rightarrow> Inl x | Inr a \<Rightarrow>
             map_sum id ((#) (s mod 32 * 64 + a mod 64)) (parseStringUTF enc (n + 2) e))
        else (case get_at enc (n + 1) of Inl x \<Rightarrow> Inl x | Inr a \<Rightarrow>
          (case get_at enc (n + 2) of Inl x \<Rightarrow> Inl x | Inr b \<Rightarrow>
             map_sum id ((#) (s mod 16 * 4096 + a mod 64 * 64 + b mod 64)) (parseStringUTF enc (n + 3) e))))
     else Inr [])"
  by pat_completeness auto
termination by (relation "measure (\<lambda>(enc, n, e). e - n)") auto

function parseStringBMP :: "nat list \<Rightarrow> nat \<Rightarrow> nat \<Rightarrow> asn_error + nat list" where
  "parseStringBMP enc h e = (if h < e then
     (case get_at enc h of Inl x \<Rightarrow> Inl x | Inr n \<Rightarrow> (case get_at enc (h + 1) of Inl x \<Rightarrow> Inl x | Inr s \<Rightarrow>
        map_sum id ((#) (n * 256 + s)) (parseStringBMP enc (h + 2) e)))
     else Inr [])"
  by pat_completeness auto
termination by (relation "measure (\<lambda>(enc, h, e). e - h)") auto

declare parseStringUTF.simps [simp del] parseStringBMP.simps [simp del]

text \<open>\<open>K\<close> (\<open>stringCut\<close>) with the ellipsis \<open>At\<close>; no limit is \<open>Infinity\<close>.\<close>

definition ellipsis :: nat where
  "ellipsis = 8230"

definition stringCut :: "nat list \<Rightarrow> nat option \<Rightarrow> nat list" where
  "stringCut r m = (case m of Some t \<Rightarrow> if length r > t then take t r @ [ellipsis] else r | None \<Rightarrow> r)"

definition units :: "string \<Rightarrow> nat list" where
  "units s = map of_char s"

definition int32 :: "int \<Rightarrow> int" where
  "int32 x = (x + 2 ^ 31) mod 2 ^ 32 - 2 ^ 31"

text \<open>\<open>parseBitString\<close>: the bits of a byte from the top, without the unused ones of the last byte; it is cut as soon as there
  are too many.\<close>

definition bits_of :: "nat \<Rightarrow> nat \<Rightarrow> string" where
  "bits_of f l = map (\<lambda>d. if f div 2 ^ d mod 2 = 1 then CHR ''1'' else CHR ''0'') (rev [l..<8])"

fun bit_loop :: "nat list \<Rightarrow> nat \<Rightarrow> nat \<Rightarrow> nat option \<Rightarrow> string \<Rightarrow> string \<Rightarrow> nat list \<Rightarrow> asn_error + nat list" where
  "bit_loop enc n e i h o1 [] = Inr (units (h @ o1))"
| "bit_loop enc n e i h o1 (a # as) = (case get_at enc a of Inl x \<Rightarrow> Inl x | Inr f \<Rightarrow>
     (let o2 = o1 @ bits_of f (if a + 1 = e then n else 0) in
      if (case i of Some t \<Rightarrow> length o2 > t | None \<Rightarrow> False) then Inr (units h @ stringCut (units o2) i)
      else bit_loop enc n e i h o2 as))"

definition parseBitString :: "nat list \<Rightarrow> nat \<Rightarrow> nat \<Rightarrow> nat option \<Rightarrow> asn_error + nat list" where
  "parseBitString enc t e i = (case get_at enc t of Inl x \<Rightarrow> Inl x | Inr n \<Rightarrow>
     bit_loop enc n e i (''('' @ string_of_int (int32 ((int e - int t - 1) * 8) - int n) @ '' bit)'' @ [CHR 0x0A]) [] [t + 1..<e])"

text \<open>\<open>parseOctetString\<close>: half the limit, rounded up, is how many bytes are shown.\<close>

definition parseOctetString :: "nat list \<Rightarrow> nat \<Rightarrow> nat \<Rightarrow> nat option \<Rightarrow> asn_error + nat list" where
  "parseOctetString enc t e i = (case isASCII enc [t..<e] of Inl x \<Rightarrow> Inl x
     | Inr True \<Rightarrow> map_sum id (\<lambda>s. stringCut s i) (parseStringISO enc t e)
     | Inr False \<Rightarrow>
         (let n = e - t; cut = (case i of Some m \<Rightarrow> 2 * n > m | None \<Rightarrow> False);
              e1 = (case i of Some m \<Rightarrow> if cut then t + (m + 1) div 2 else e | None \<Rightarrow> e) in
          map_sum id (\<lambda>bs. units (''('' @ string_of_nat n @ '' byte)'' @ [CHR 0x0A] @ concat (map hexByte bs)) @ (if cut then [ellipsis] else []))
            (get_all enc [t..<e1])))"

text \<open>\<open>parseOID\<close>: \<open>s\<close> is the arc that is read and \<open>h\<close> counts its bits.\<close>

definition first_arcs :: "zbuf \<Rightarrow> string" where
  "first_arcs s = (case simplify s of
     Big b \<Rightarrow> ''2.'' @ z_toString (z_sub 80 b)
   | Small v \<Rightarrow> (let f = if v < 80 then if v < 40 then 0 else 1 else 2 in string_of_nat f @ ''.'' @ string_of_nat (v - f * 40)))"

fun oid_loop :: "nat list \<Rightarrow> nat option \<Rightarrow> string \<Rightarrow> zbuf \<Rightarrow> nat \<Rightarrow> nat list \<Rightarrow> asn_error + nat list" where
  "oid_loop enc i n s h [] = Inr (units (if h > 0 then n @ ''.incomplete'' else n))"
| "oid_loop enc i n s h (o1 # os) = (case get_at enc o1 of Inl x \<Rightarrow> Inl x | Inr a \<Rightarrow>
     (let s1 = mulAdd 128 (a mod 128) s in
      if a div 128 mod 2 = 0 then
        (let n1 = (if n = [] then first_arcs s1 else n @ ''.'' @ z_toString s1) in
         if (case i of Some t \<Rightarrow> length n1 > t | None \<Rightarrow> False) then Inr (stringCut (units n1) i)
         else oid_loop enc i n1 (z_new 0) 0 os)
      else oid_loop enc i n s1 (h + 7) os))"

definition parseOID :: "nat list \<Rightarrow> nat \<Rightarrow> nat \<Rightarrow> nat option \<Rightarrow> asn_error + nat list" where
  "parseOID enc t e i = oid_loop enc i [] (z_new 0) 0 [t..<e]"

section \<open>Tags and lengths\<close>

record asn1_tag =
  tagClass :: nat
  tagConstructed :: bool
  tagNumber :: znum

text \<open>The loop of \<open>Tt\<close> (\<open>ASN1Tag\<close>) over the bytes of a long tag number.\<close>

function long_number :: "nat list \<Rightarrow> nat \<Rightarrow> zbuf \<Rightarrow> znum read" where
  "long_number enc p i = (if p \<ge> length enc then Throw (Requesting_byte p (length enc))
     else (let e = enc ! p; i1 = mulAdd 128 (e mod 128) i in
           if e div 128 mod 2 = 1 then long_number enc (p + 1) i1 else Done (simplify i1) (p + 1)))"
  by pat_completeness auto
termination by (relation "measure (\<lambda>(enc, p, i). length enc - p)") auto

declare long_number.simps [simp del]

definition read_tag :: "nat list \<Rightarrow> nat \<Rightarrow> asn1_tag read" where
  "read_tag enc p = rbind (get enc p) (\<lambda>e p1.
     let mk = (\<lambda>n. \<lparr>tagClass = e div 64, tagConstructed = (e div 32 mod 2 \<noteq> 0), tagNumber = n\<rparr>) in
     if e mod 32 = 31 then rbind (long_number enc p1 (z_new 0)) (\<lambda>n p2. Done (mk n) p2)
     else Done (mk (Small (e mod 32))) p1)"

definition isUniversal :: "asn1_tag \<Rightarrow> bool" where
  "isUniversal t \<longleftrightarrow> tagClass t = 0"

definition isEOC :: "asn1_tag \<Rightarrow> bool" where
  "isEOC t \<longleftrightarrow> tagClass t = 0 \<and> tagNumber t = Small 0"

fun length_bytes :: "nat list \<Rightarrow> nat \<Rightarrow> nat \<Rightarrow> nat \<Rightarrow> nat read" where
  "length_bytes enc p e 0 = Done e p"
| "length_bytes enc p e (Suc i) = rbind (get enc p) (\<lambda>b p1. length_bytes enc p1 (e * 256 + b) i)"

text \<open>\<open>decodeLength\<close>; \<open>None\<close> is the undefined length.\<close>

definition decodeLength :: "nat list \<Rightarrow> nat \<Rightarrow> nat option read" where
  "decodeLength enc p = rbind (get enc p) (\<lambda>e p1.
     let i = e mod 128 in
     if i = e then Done (Some i) p1
     else if i > 6 then Throw (Length_over_48_bits (p1 - 1))
     else if i = 0 then Done None p1
     else rbind (length_bytes enc p1 0 i) (\<lambda>l p2. Done (Some l) p2))"

section \<open>The decoder\<close>

text \<open>\<open>te\<close> (\<open>ASN1\<close>): the position of its stream, the size of its header, its length (negative if it was undefined), its tag and
  its parts.  The bytes of the stream are shared by all elements.\<close>

datatype asn1 = ASN1 (stream_pos: nat) (header: nat) (len: int) (tag: asn1_tag) (sub: "asn1 list option")

text \<open>The two ways in which the local function of \<open>decode\<close> ends: the parts of a container, and its length.\<close>

fun sized :: "nat \<Rightarrow> nat \<Rightarrow> asn1 list read \<Rightarrow> (asn1 list \<times> int) read" where
  "sized h l (Done ds q) = (if q \<noteq> h + l then Throw (Content_size h) else Done (ds, int l) q)"
| "sized h l (Throw e) = Throw e"
| "sized h l Out = Out"

fun unsized :: "nat \<Rightarrow> asn1 list read \<Rightarrow> (asn1 list \<times> int) read" where
  "unsized h (Done ds q) = Done (ds, int h - int q) q"
| "unsized h (Throw e) = Throw (Undefined_length_content e)"
| "unsized h Out = Out"

definition skip_content :: "nat \<Rightarrow> nat \<Rightarrow> asn1_tag \<Rightarrow> int option \<Rightarrow> asn1 read" where
  "skip_content i h n s = (case s of None \<Rightarrow> Throw (Cannot_skip h)
     | Some l \<Rightarrow> Done (ASN1 i (h - i) l n None) (h + nat \<bar>l\<bar>))"

text \<open>After \<open>try\<close>: a failure and an end-of-contents part both leave the content unread.\<close>

fun try_parts :: "nat \<Rightarrow> nat \<Rightarrow> asn1_tag \<Rightarrow> nat option \<Rightarrow> (asn1 list \<times> int) read \<Rightarrow> asn1 read" where
  "try_parts i h n s (Done (ds, l) q) =
     (if list_ex (\<lambda>d. isEOC (tag d)) ds then skip_content i h n (Some l) else Done (ASN1 i (h - i) l n (Some ds)) q)"
| "try_parts i h n s (Throw e) = skip_content i h n (map_option int s)"
| "try_parts i h n s Out = Out"

text \<open>What \<open>decode\<close> does after the header; \<open>f\<close> reads the parts.\<close>

definition element :: "nat list \<Rightarrow> nat \<Rightarrow> asn1_tag \<Rightarrow> nat option \<Rightarrow> nat \<Rightarrow> (nat \<Rightarrow> (asn1 list \<times> int) read) \<Rightarrow> asn1 read" where
  "element enc i n s h f =
    (if tagConstructed n then rbind (f h) (\<lambda>(ds, l) q. Done (ASN1 i (h - i) l n (Some ds)) q)
     else if isUniversal n \<and> tagNumber n = Small 3 then
       try_parts i h n s (rbind (get enc h) (\<lambda>b q. if b \<noteq> 0 then Throw Unused_bits else f q))
     else if isUniversal n \<and> tagNumber n = Small 4 then try_parts i h n s (f h)
     else skip_content i h n (map_option int s))"

fun decode :: "nat \<Rightarrow> nat list \<Rightarrow> nat \<Rightarrow> asn1 read"
and items :: "nat \<Rightarrow> nat list \<Rightarrow> nat \<Rightarrow> nat \<Rightarrow> asn1 list read"
and until_eoc :: "nat \<Rightarrow> nat list \<Rightarrow> nat \<Rightarrow> asn1 list read" where
  "decode 0 enc i = Out"
| "decode (Suc m) enc i = rbind (read_tag enc i) (\<lambda>n p. rbind (decodeLength enc p) (\<lambda>s h.
     element enc i n s h (\<lambda>q. case s of Some l \<Rightarrow> sized h l (items m enc (h + l) q) | None \<Rightarrow> unsized h (until_eoc m enc q))))"
| "items 0 enc c p = Out"
| "items (Suc m) enc c p = (if p < c then rbind (decode m enc p) (\<lambda>d q. rbind (items m enc c q) (\<lambda>ds r. Done (d # ds) r))
     else Done [] p)"
| "until_eoc 0 enc p = Out"
| "until_eoc (Suc m) enc p = rbind (decode m enc p) (\<lambda>v q. if isEOC (tag v) then Done [] q
     else rbind (until_eoc m enc q) (\<lambda>ds r. Done (v # ds) r))"

text \<open>\<open>te.decode\<close> on a list of bytes.\<close>

definition asn1_decode :: "nat list \<Rightarrow> asn1 read" where
  "asn1_decode enc = decode (length enc + 1) enc 0"

section \<open>What an element shows of itself\<close>

definition universal_names :: "(nat \<times> string) list" where
  "universal_names = [(0, ''EOC''), (1, ''BOOLEAN''), (2, ''INTEGER''), (3, ''BIT_STRING''), (4, ''OCTET_STRING''), (5, ''NULL''),
     (6, ''OBJECT_IDENTIFIER''), (7, ''ObjectDescriptor''), (8, ''EXTERNAL''), (9, ''REAL''), (10, ''ENUMERATED''),
     (11, ''EMBEDDED_PDV''), (12, ''UTF8String''), (16, ''SEQUENCE''), (17, ''SET''), (18, ''NumericString''),
     (19, ''PrintableString''), (20, ''TeletexString''), (21, ''VideotexString''), (22, ''IA5String''), (23, ''UTCTime''),
     (24, ''GeneralizedTime''), (25, ''GraphicString''), (26, ''VisibleString''), (27, ''GeneralString''),
     (28, ''UniversalString''), (30, ''BMPString'')]"

text \<open>\<open>typeName\<close>; there is no name for a class above three, which no byte has.\<close>

definition typeName :: "asn1_tag \<Rightarrow> string option" where
  "typeName t = (let n = znum_string (tagNumber t) in
     if tagClass t = 0 then Some (case tagNumber t of Small k \<Rightarrow> (case map_of universal_names k of Some s \<Rightarrow> s | None \<Rightarrow> ''Universal_'' @ n)
        | Big _ \<Rightarrow> ''Universal_'' @ n)
     else if tagClass t = 1 then Some (''Application_'' @ n)
     else if tagClass t = 2 then Some (''['' @ n @ '']'')
     else if tagClass t = 3 then Some (''Private_'' @ n) else None)"

definition type_text :: "asn1_tag \<Rightarrow> string" where
  "type_text t = (case typeName t of Some s \<Rightarrow> s | None \<Rightarrow> ''undefined'')"

definition asn1_toString :: "asn1 \<Rightarrow> string" where
  "asn1_toString x = type_text (tag x) @ ''@'' @ string_of_nat (stream_pos x) @ ''[header:'' @ string_of_nat (header x) @ '',length:'' @
     string_of_int (len x) @ '',sub:'' @ (case sub x of None \<Rightarrow> ''null'' | Some ds \<Rightarrow> string_of_nat (length ds)) @ '']''"

fun toPrettyString :: "string \<Rightarrow> asn1 \<Rightarrow> string" where
  "toPrettyString t (ASN1 p h l n s) = t @ type_text n @ '' @'' @ string_of_nat p @ (if l \<ge> 0 then ''+'' else []) @ string_of_int l @
     (if tagConstructed n then '' (constructed)''
      else if isUniversal n \<and> (tagNumber n = Small 3 \<or> tagNumber n = Small 4) \<and> s \<noteq> None then '' (encapsulates)'' else []) @
     [CHR 0x0A] @ (case s of None \<Rightarrow> [] | Some ds \<Rightarrow> concat (map (toPrettyString (t @ ''  '')) ds))"

definition posStart :: "asn1 \<Rightarrow> nat" where
  "posStart x = stream_pos x"

definition posContent :: "asn1 \<Rightarrow> nat" where
  "posContent x = stream_pos x + header x"

definition posEnd :: "asn1 \<Rightarrow> nat" where
  "posEnd x = stream_pos x + header x + nat \<bar>len x\<bar>"

definition toHexString :: "nat list \<Rightarrow> asn1 \<Rightarrow> asn_error + string" where
  "toHexString enc x = hexDump enc (posStart x) (posEnd x) True"

text \<open>\<open>getHexStringValue\<close>: \<open>substr\<close> with a negative length gives nothing.\<close>

definition getHexStringValue :: "nat list \<Rightarrow> asn1 \<Rightarrow> asn_error + string" where
  "getHexStringValue enc x = map_sum id (\<lambda>t. take (nat (len x * 2)) (drop (header x * 2) t)) (toHexString enc x)"

section \<open>Every reader moves forward, and the decoder returns\<close>

text \<open>A reader that ends in a value has reached position \<open>p\<close> at least.\<close>

fun ahead :: "nat \<Rightarrow> 'a read \<Rightarrow> bool" where
  "ahead p (Done x q) = (p \<le> q)"
| "ahead p _ = True"

lemma ahead_rbind: "(\<And>x q. r = Done x q \<Longrightarrow> ahead p (f x q)) \<Longrightarrow> ahead p (rbind r f)"
  by (cases r) auto

lemma ahead_mono: "ahead p r \<Longrightarrow> p' \<le> p \<Longrightarrow> ahead p' r"
  by (cases r) auto

lemma ahead_Done: "ahead p r \<Longrightarrow> r = Done x q \<Longrightarrow> p \<le> q"
  by auto

lemma rbind_Out: "rbind r f = Out \<longleftrightarrow> r = Out \<or> (\<exists>x q. r = Done x q \<and> f x q = Out)"
  by (cases r) auto

lemma rbind_Done: "rbind r f = Done y q \<longleftrightarrow> (\<exists>x p. r = Done x p \<and> f x p = Done y q)"
  by (cases r) auto

lemma get_Done: "get enc p = Done b q \<longleftrightarrow> p < length enc \<and> b = enc ! p \<and> q = p + 1"
  by (auto simp: get_def get_at_def)

lemma get_returns [simp]: "get enc p \<noteq> Out"
  by (simp add: get_def get_at_def)

lemma long_number_ahead: "ahead (p + 1) (long_number enc p i) \<and> long_number enc p i \<noteq> Out"
proof (induction enc p i rule: long_number.induct)
  case (1 enc p i)
  then show ?case by (subst (1 2) long_number.simps) (auto simp: Let_def intro: ahead_mono[of "Suc (Suc p)"])
qed

lemma read_tag_ahead: "ahead (p + 1) (read_tag enc p)" and read_tag_returns: "read_tag enc p \<noteq> Out"
proof -
  show "ahead (p + 1) (read_tag enc p)" unfolding read_tag_def
    by (rule ahead_rbind) (auto simp: get_Done Let_def intro!: ahead_rbind dest!: ahead_Done[OF conjunct1[OF long_number_ahead]])
  show "read_tag enc p \<noteq> Out" by (auto simp: read_tag_def rbind_Out Let_def long_number_ahead)
qed

lemma length_bytes_ahead: "ahead p (length_bytes enc p e i) \<and> length_bytes enc p e i \<noteq> Out"
proof (induction i arbitrary: p e)
  case (Suc i)
  then show ?case by (auto simp: get_Done rbind_Out intro!: ahead_rbind intro: ahead_mono[of "Suc p"])
qed simp

lemma decodeLength_ahead: "ahead (p + 1) (decodeLength enc p)" and decodeLength_returns: "decodeLength enc p \<noteq> Out"
proof -
  show "ahead (p + 1) (decodeLength enc p)" unfolding decodeLength_def
    by (rule ahead_rbind) (auto simp: get_Done Let_def intro!: ahead_rbind dest!: ahead_Done[OF conjunct1[OF length_bytes_ahead]])
  show "decodeLength enc p \<noteq> Out" by (auto simp: decodeLength_def rbind_Out Let_def length_bytes_ahead)
qed

lemma header_ahead:
  assumes "read_tag enc i = Done n p" and "decodeLength enc p = Done s h"
  shows "i + 2 \<le> h" and "i + 1 < length enc"
proof -
  show "i + 2 \<le> h" using ahead_Done[OF read_tag_ahead assms(1)] ahead_Done[OF decodeLength_ahead assms(2)] by simp
  have "p < length enc" using assms(2) by (cases "get enc p") (auto simp: decodeLength_def get_Done)
  then show "i + 1 < length enc" using ahead_Done[OF read_tag_ahead assms(1)] by simp
qed

lemma sized_ahead: "ahead p r \<Longrightarrow> ahead p (sized h l r)" and unsized_ahead: "ahead p r \<Longrightarrow> ahead p (unsized h r)"
  and try_parts_ahead: "ahead h r' \<Longrightarrow> ahead h (try_parts i h n s r')"
  and skip_content_ahead: "ahead h (skip_content i h n l')"
proof -
  show sk: "ahead h (skip_content i h n l')" for l' by (auto simp: skip_content_def split: option.split)
  show "ahead p r \<Longrightarrow> ahead p (sized h l r)" "ahead p r \<Longrightarrow> ahead p (unsized h r)" by (cases r; simp)+
  show "ahead h r' \<Longrightarrow> ahead h (try_parts i h n s r')" by (cases r') (auto simp: sk)
qed

lemma element_ahead:
  assumes f: "\<And>q. ahead q (f q)"
  shows "ahead h (element enc i n s h f)"
proof -
  have "ahead h (rbind (get enc h) (\<lambda>b q. if b \<noteq> 0 then Throw Unused_bits else f q))"
    by (rule ahead_rbind) (auto simp: get_Done intro: ahead_mono[OF f])
  moreover have "ahead h (rbind (f h) (\<lambda>(ds, l) q. Done (ASN1 i (h - i) l n (Some ds)) q))"
    by (rule ahead_rbind) (auto dest: ahead_Done[OF f])
  ultimately show ?thesis unfolding element_def by (simp add: f try_parts_ahead skip_content_ahead)
qed

lemma decode_ahead:
  "ahead (i + 2) (decode m enc i)" "ahead p (items m enc c p)" "ahead p (until_eoc m enc p)"
proof (induction m enc i and m enc c p and m enc p rule: decode_items_until_eoc.induct)
  case (2 m enc i)
  have "ahead (i + 2) (element enc i n s h (\<lambda>q. case s of Some l \<Rightarrow> sized h l (items m enc (h + l) q) | None \<Rightarrow> unsized h (until_eoc m enc q)))"
    if d: "read_tag enc i = Done n p" "decodeLength enc p = Done s h" for n p s h
    by (rule ahead_mono[OF element_ahead header_ahead(1)[OF d]]) (auto intro!: sized_ahead unsized_ahead 2 split: option.split)
  then show ?case by (auto intro!: ahead_rbind simp del: add_2_eq_Suc')
next
  case (4 m enc c p)
  have "p \<le> r" if "p < c" "decode m enc p = Done d q" "items m enc c q = Done ds r" for d q ds r
    using ahead_Done[OF 4(1)[OF that(1)] that(2)] ahead_Done[OF 4(2)[OF that(1)] that(3)] by simp
  then show ?case by (auto intro!: ahead_rbind)
next
  case (6 m enc p)
  have "p \<le> r" if "decode m enc p = Done d q" "\<not> isEOC (tag d)" "until_eoc m enc q = Done ds r" for d q ds r
    using ahead_Done[OF 6(1) that(1)] ahead_Done[OF 6(2)[OF that(2)] that(3)] by simp
  then show ?case using ahead_Done[OF 6(1)] by (auto intro!: ahead_rbind)
qed auto

lemma parts_Out: "sized h l r = Out \<longleftrightarrow> r = Out" "unsized h r = Out \<longleftrightarrow> r = Out" "try_parts i h n s r' = Out \<longleftrightarrow> r' = Out"
  "skip_content i h n l' \<noteq> Out"
proof -
  show sk: "skip_content i h n l' \<noteq> Out" for l' by (auto simp: skip_content_def split: option.split)
  show "sized h l r = Out \<longleftrightarrow> r = Out" "unsized h r = Out \<longleftrightarrow> r = Out" by (cases r; simp)+
  show "try_parts i h n s r' = Out \<longleftrightarrow> r' = Out" by (cases r') (auto simp: sk split: if_splits)
qed

lemma element_Out: "element enc i n s h f = Out \<Longrightarrow> \<exists>q \<ge> h. f q = Out"
  by (auto simp: element_def rbind_Out parts_Out get_Done split: if_splits intro: exI[of _ "Suc h"])

lemma decode_inside: "decode m enc i = Done d q \<Longrightarrow> i + 1 < length enc"
  by (cases m) (auto simp: rbind_Done dest: header_ahead(2))

text \<open>One unit of fuel per byte that is left, and one more, is enough.\<close>

lemma decode_fuel:
  "length enc - i < m \<Longrightarrow> decode m enc i \<noteq> Out"
  "length enc - p + 1 < m \<Longrightarrow> items m enc c p \<noteq> Out"
  "length enc - p + 1 < m \<Longrightarrow> until_eoc m enc p \<noteq> Out"
proof (induction m arbitrary: i c p)
  case (Suc m)
  have next_fuel: "length enc - q + 1 < m" if "length enc - p + 1 < Suc m" "decode m enc p = Done d q" for p d q
    using ahead_Done[OF decode_ahead(1) that(2)] decode_inside[OF that(2)] that(1) by linarith
  {
    case 1
    have q: "length enc - q + 1 < m" if "read_tag enc i = Done n p" "decodeLength enc p = Done s h" "h \<le> q" for n p s h q
      using header_ahead[OF that(1,2)] that(3) 1 by linarith
    show ?case
    proof
      assume "decode (Suc m) enc i = Out"
      then obtain n p s h q where d: "read_tag enc i = Done n p" "decodeLength enc p = Done s h" "h \<le> q"
        "(case s of Some l \<Rightarrow> sized h l (items m enc (h + l) q) | None \<Rightarrow> unsized h (until_eoc m enc q)) = Out"
        by (auto simp: rbind_Out read_tag_returns decodeLength_returns dest!: element_Out)
      then show False using Suc.IH(2,3)[OF q[OF d(1-3)]] by (auto simp: parts_Out split: option.splits)
    qed
  next
    case 2
    then show ?case using Suc.IH(1)[of p] Suc.IH(2) next_fuel[OF 2] by (auto simp: rbind_Out)
  next
    case 3
    then show ?case using Suc.IH(1,3) next_fuel[OF 3] by (auto simp: rbind_Out)
  }
qed auto

text \<open>More fuel never changes a result.\<close>

lemma rbind_more:
  "rbind r f \<noteq> Out \<Longrightarrow> (r \<noteq> Out \<Longrightarrow> r' = r) \<Longrightarrow> (\<And>x q. r = Done x q \<Longrightarrow> f x q \<noteq> Out \<Longrightarrow> f' x q = f x q) \<Longrightarrow> rbind r' f' = rbind r f"
  by (cases r) auto

lemma element_more:
  assumes "element enc i n s h f \<noteq> Out" and f: "\<And>q. f q \<noteq> Out \<Longrightarrow> f' q = f q"
  shows "element enc i n s h f' = element enc i n s h f"
proof -
  have "rbind (get enc h) (\<lambda>b q. if b \<noteq> 0 then Throw Unused_bits else f' q) = rbind (get enc h) (\<lambda>b q. if b \<noteq> 0 then Throw Unused_bits else f q)"
    if "rbind (get enc h) (\<lambda>b q. if b \<noteq> 0 then Throw Unused_bits else f q) \<noteq> Out"
    using that by (rule rbind_more) (auto intro: f)
  then show ?thesis using assms(1) f[of h] unfolding element_def by (auto simp: parts_Out rbind_Out split: if_splits)
qed

declare decode.simps [simp del] items.simps [simp del] until_eoc.simps [simp del]

lemma decode_more:
  "decode m enc i \<noteq> Out \<Longrightarrow> decode (Suc m) enc i = decode m enc i"
  "items m enc c p \<noteq> Out \<Longrightarrow> items (Suc m) enc c p = items m enc c p"
  "until_eoc m enc p \<noteq> Out \<Longrightarrow> until_eoc (Suc m) enc p = until_eoc m enc p"
proof (induction m arbitrary: i c p)
  case (Suc m)
  {
    case 1
    show ?case using 1 unfolding decode.simps(2)[of "Suc m"] decode.simps(2)[of m]
      by (intro rbind_more element_more) (auto simp: parts_Out Suc.IH split: option.splits)
  next
    case 2
    show ?case using 2[unfolded items.simps(2)]
      by (subst (1 2) items.simps(2)) (auto split: if_splits intro!: rbind_more Suc.IH)
  next
    case 3
    show ?case using 3[unfolded until_eoc.simps(2)]
      by (subst (1 2) until_eoc.simps(2)) (auto split: if_splits intro!: rbind_more Suc.IH)
  }
qed (auto simp: decode.simps(1) items.simps(1) until_eoc.simps(1))

lemma decode_enough:
  assumes "Suc (length enc - i) \<le> m"
  shows "decode m enc i = decode (Suc (length enc - i)) enc i"
  using assms
proof (induction m rule: dec_induct)
  case (step m)
  have "decode m enc i \<noteq> Out" using step.hyps by (intro decode_fuel) simp
  then show ?case using step.IH by (simp add: decode_more)
qed simp

text \<open>C18: reading a key always ends, with an element or with one of the exceptions of the reader, whatever bytes it is given: as
  many steps as the stream has bytes and one more are enough, and more steps do not change the result.\<close>

theorem asn1_decode_returns:
  assumes "length enc < m"
  shows "decode m enc 0 = asn1_decode enc \<and> asn1_decode enc \<noteq> Out"
  using decode_enough[of enc 0 m] decode_fuel(1)[of enc 0 "length enc + 1"] assms by (simp add: asn1_decode_def)

theorem asn1_decode_returns_witness:
  "decode 9 [48, 128, 2, 1, 5, 0, 0] 0 = asn1_decode [48, 128, 2, 1, 5, 0, 0] \<and> asn1_decode [48, 128, 2, 1, 5, 0, 0] \<noteq> Out"
  by (rule asn1_decode_returns) simp

section \<open>The definite-length encoding\<close>

text \<open>Trees with tag numbers below 31: a primitive element with its content, a constructed one with its parts, and the two
  string types that hold the encoding of parts.\<close>

datatype der = Prim nat nat "nat list" | Constr nat nat "der list" | Octets "der list" | Bits "der list"

text \<open>The bytes of a number, the highest first and without leading zeros.\<close>

fun big_endian :: "nat \<Rightarrow> nat list" where
  "big_endian n = (if n = 0 then [] else big_endian (n div 256) @ [n mod 256])"

declare big_endian.simps [simp del]

definition der_length :: "nat \<Rightarrow> nat list" where
  "der_length l = (if l < 128 then [l] else (128 + length (big_endian l)) # big_endian l)"

definition tlv :: "nat \<Rightarrow> nat list \<Rightarrow> nat list" where
  "tlv t v = t # der_length (length v) @ v"

fun der_tag :: "der \<Rightarrow> nat" where
  "der_tag (Prim c n v) = 64 * c + n"
| "der_tag (Constr c n ds) = 64 * c + 32 + n"
| "der_tag (Octets ds) = 4"
| "der_tag (Bits ds) = 3"

fun der_content :: "der \<Rightarrow> nat list" where
  "der_content (Prim c n v) = v"
| "der_content (Constr c n ds) = concat (map (\<lambda>d. tlv (der_tag d) (der_content d)) ds)"
| "der_content (Octets ds) = concat (map (\<lambda>d. tlv (der_tag d) (der_content d)) ds)"
| "der_content (Bits ds) = 0 # concat (map (\<lambda>d. tlv (der_tag d) (der_content d)) ds)"

definition der_bytes :: "der \<Rightarrow> nat list" where
  "der_bytes d = tlv (der_tag d) (der_content d)"

text \<open>Well-formed trees: bytes are bytes, classes and numbers fit into the tag, a content is shorter than \<open>2\<^sup>4\<^sup>8\<close> bytes, a primitive
  element is none of the two string types, and no part of a string is an end-of-contents element.\<close>

fun eoc_der :: "der \<Rightarrow> bool" where
  "eoc_der (Prim c n v) = (c = 0 \<and> n = 0)"
| "eoc_der (Constr c n ds) = (c = 0 \<and> n = 0)"
| "eoc_der _ = False"

fun wf_der :: "der \<Rightarrow> bool" where
  "wf_der (Prim c n v) = (c < 4 \<and> n < 31 \<and> \<not> (c = 0 \<and> (n = 3 \<or> n = 4)) \<and> length v < 2 ^ 48)"
| "wf_der (Constr c n ds) = (c < 4 \<and> n < 31 \<and> list_all wf_der ds \<and> length (der_content (Constr c n ds)) < 2 ^ 48)"
| "wf_der (Octets ds) = (list_all wf_der ds \<and> \<not> list_ex eoc_der ds \<and> length (der_content (Octets ds)) < 2 ^ 48)"
| "wf_der (Bits ds) = (list_all wf_der ds \<and> \<not> list_ex eoc_der ds \<and> length (der_content (Bits ds)) < 2 ^ 48)"

text \<open>The element that stands for a tree whose encoding starts at position \<open>p\<close>.\<close>

definition head_size :: "der \<Rightarrow> nat" where
  "head_size d = 1 + length (der_length (length (der_content d)))"

definition low_tag :: "nat \<Rightarrow> bool \<Rightarrow> nat \<Rightarrow> asn1_tag" where
  "low_tag c k n = \<lparr>tagClass = c, tagConstructed = k, tagNumber = Small n\<rparr>"

fun element_of :: "nat \<Rightarrow> der \<Rightarrow> asn1" and elements_of :: "nat \<Rightarrow> der list \<Rightarrow> asn1 list" where
  "element_of p (Prim c n v) = ASN1 p (head_size (Prim c n v)) (int (length v)) (low_tag c False n) None"
| "element_of p (Constr c n ds) = ASN1 p (head_size (Constr c n ds)) (int (length (der_content (Constr c n ds))))
     (low_tag c True n) (Some (elements_of (p + head_size (Constr c n ds)) ds))"
| "element_of p (Octets ds) = ASN1 p (head_size (Octets ds)) (int (length (der_content (Octets ds))))
     (low_tag 0 False 4) (Some (elements_of (p + head_size (Octets ds)) ds))"
| "element_of p (Bits ds) = ASN1 p (head_size (Bits ds)) (int (length (der_content (Bits ds))))
     (low_tag 0 False 3) (Some (elements_of (p + head_size (Bits ds) + 1) ds))"
| "elements_of p [] = []"
| "elements_of p (d # ds) = element_of p d # elements_of (p + length (der_bytes d)) ds"

section \<open>The decoder inverts the encoding\<close>

lemma big_endian_snoc: "n > 0 \<Longrightarrow> big_endian n = big_endian (n div 256) @ [n mod 256]"
  by (simp add: big_endian.simps[of n])

lemma big_endian_length: "n < 256 ^ k \<Longrightarrow> length (big_endian n) \<le> k"
proof (induction k arbitrary: n)
  case (Suc k)
  then have "n div 256 < 256 ^ k" by (simp add: less_mult_imp_div_less mult.commute)
  with Suc.IH show ?case by (cases "n = 0") (auto simp: big_endian_snoc big_endian.simps[of 0])
qed (simp add: big_endian.simps)

lemma length_bytes_append:
  "length_bytes enc p e (length xs + k) = rbind (length_bytes enc p e (length xs)) (\<lambda>e' p'. length_bytes enc p' e' k)"
  by (induction xs arbitrary: p e) (auto simp: get_def get_at_def)

lemma get_middle: "enc = pre @ b # post \<Longrightarrow> get enc (length pre) = Done b (length pre + 1)"
  by (simp add: get_Done)

lemma length_bytes_big_endian:
  "enc = pre @ big_endian n @ post \<Longrightarrow>
   length_bytes enc (length pre) 0 (length (big_endian n)) = Done n (length pre + length (big_endian n))"
proof (induction n arbitrary: post rule: big_endian.induct)
  case (1 n)
  show ?case
  proof (cases "n = 0")
    case False
    then have b: "big_endian n = big_endian (n div 256) @ [n mod 256]" by (simp add: big_endian_snoc)
    have "length_bytes enc (length pre) 0 (length (big_endian (n div 256)) + 1) =
      rbind (Done (n div 256) (length pre + length (big_endian (n div 256)))) (\<lambda>e' p'. length_bytes enc p' e' 1)"
      using 1 False unfolding length_bytes_append by (simp add: b)
    also have "\<dots> = Done n (length pre + length (big_endian n))"
      using get_middle[of enc "pre @ big_endian (n div 256)" "n mod 256" post] 1(2) by (simp add: b)
    finally show ?thesis by (simp add: b)
  qed (simp add: big_endian.simps)
qed

lemma decodeLength_der:
  assumes "enc = pre @ der_length l @ post" and "l < 2 ^ 48"
  shows "decodeLength enc (length pre) = Done (Some l) (length pre + length (der_length l))"
proof (cases "l < 128")
  case True
  then show ?thesis using assms(1) get_middle[of enc pre l post] by (simp add: decodeLength_def der_length_def)
next
  case False
  define k where "k = length (big_endian l)"
  have k: "k \<le> 6" "0 < k" using big_endian_length[of l 6] assms(2) False by (auto simp: k_def big_endian_snoc)
  have "get enc (length pre) = Done (128 + k) (length pre + 1)" using assms(1) False by (intro get_middle) (simp add: der_length_def k_def)
  moreover have "length_bytes enc (length (pre @ [128 + k])) 0 k = Done l (length (pre @ [128 + k]) + k)"
    unfolding k_def using assms(1) False by (intro length_bytes_big_endian) (simp add: der_length_def)
  moreover have "(128 + k) mod 128 = k" using k by simp
  ultimately show ?thesis using k False by (simp add: decodeLength_def der_length_def Let_def flip: k_def)
qed

lemma read_tag_low:
  assumes "enc = pre @ (64 * c + (if k then 32 else 0) + n) # post" and "n < 31"
  shows "read_tag enc (length pre) = Done (low_tag c k n) (length pre + 1)"
proof -
  define t where "t = 64 * c + (if k then 32 else 0) + n"
  have t: "t = 32 * (2 * c + (if k then 1 else 0)) + n" by (simp add: t_def)
  have "t div 32 = 2 * c + (if k then 1 else 0)" unfolding t using assms(2) by (subst div_mult_self4) simp_all
  moreover have "t mod 32 = n" unfolding t mod_mult_self4 using assms(2) by simp
  moreover have "t div 64 = t div 32 div 2" by (simp add: div_mult2_eq[symmetric])
  ultimately have "t div 64 = c" "t mod 32 = n" "t div 32 mod 2 = (if k then 1 else 0)" by auto
  then show ?thesis using get_middle[OF assms(1)] assms(2) unfolding t_def[symmetric] by (simp add: read_tag_def low_tag_def Let_def)
qed

lemma read_tag_der:
  assumes "wf_der d" and "enc = pre @ der_tag d # post"
  shows "read_tag enc (length pre) = Done (tag (element_of p d)) (length pre + 1)"
proof (cases d)
  case (Prim c n v)
  then show ?thesis using assms read_tag_low[of enc pre c False n post] by simp
next
  case (Constr c n ds)
  then show ?thesis using assms read_tag_low[of enc pre c True n post] by simp
next
  case (Octets ds)
  then show ?thesis using assms read_tag_low[of enc pre 0 False 4 post] by simp
next
  case (Bits ds)
  then show ?thesis using assms read_tag_low[of enc pre 0 False 3 post] by simp
qed

lemma eoc_elements: "list_ex (\<lambda>x. isEOC (tag x)) (elements_of p ds) = list_ex eoc_der ds"
proof (induction ds arbitrary: p)
  case (Cons d ds)
  have "isEOC (tag (element_of p d)) = eoc_der d" by (cases d) (auto simp: isEOC_def low_tag_def)
  then show ?case using Cons by simp
qed simp

lemma der_bytes_split: "der_bytes d = der_tag d # der_length (length (der_content d)) @ der_content d"
  and der_bytes_length: "length (der_bytes d) = head_size d + length (der_content d)"
  by (simp_all add: der_bytes_def tlv_def head_size_def)

lemma der_content_bytes:
  "der_content (Constr c n ds) = concat (map der_bytes ds)" "der_content (Octets ds) = concat (map der_bytes ds)"
  "der_content (Bits ds) = 0 # concat (map der_bytes ds)"
  by (simp_all add: der_bytes_def[abs_def])

lemma decode_der_step:
  assumes IH: "\<And>ds pre post. list_all wf_der ds \<Longrightarrow> enc = pre @ concat (map der_bytes ds) @ post \<Longrightarrow>
      items m enc (length pre + length (concat (map der_bytes ds))) (length pre) \<noteq> Out \<Longrightarrow>
      items m enc (length pre + length (concat (map der_bytes ds))) (length pre) =
        Done (elements_of (length pre) ds) (length pre + length (concat (map der_bytes ds)))"
    and W: "wf_der d" and E: "enc = pre @ der_bytes d @ post" and O: "decode (Suc m) enc (length pre) \<noteq> Out"
  shows "decode (Suc m) enc (length pre) = Done (element_of (length pre) d) (length pre + length (der_bytes d))"
proof -
  define l h where "l = length (der_content d)" and "h = length pre + head_size d"
  define hd' where "hd' = pre @ der_tag d # der_length l"
  have h: "h = length hd'" by (simp add: h_def hd'_def head_size_def l_def)
  have enc: "enc = hd' @ der_content d @ post" using E by (simp add: hd'_def der_bytes_split l_def)
  have "read_tag enc (length pre) = Done (tag (element_of (length pre) d)) (length (pre @ [der_tag d]))"
    using read_tag_der[OF W] E by (simp add: der_bytes_split)
  moreover have "decodeLength enc (length (pre @ [der_tag d])) = Done (Some l) h"
    using decodeLength_der[of enc "pre @ [der_tag d]" l] W E by (cases d) (auto simp: h_def head_size_def l_def der_bytes_split)
  ultimately have dec: "decode (Suc m) enc (length pre) =
      element enc (length pre) (tag (element_of (length pre) d)) (Some l) h (\<lambda>q. sized h l (items m enc (h + l) q))"
    by (simp add: decode.simps)
  have parts: "sized h l (items m enc (h + l) (length (hd' @ u))) = Done (elements_of (length (hd' @ u)) ds, int l) (h + l)"
    if "der_content d = u @ concat (map der_bytes ds)" "list_all wf_der ds" "items m enc (h + l) (length (hd' @ u)) \<noteq> Out" for u ds
  proof -
    have "h + l = length (hd' @ u) + length (concat (map der_bytes ds))" using that(1) by (simp add: h l_def)
    then show ?thesis using IH[of ds "hd' @ u" post] that enc by simp
  qed
  have ends: "length pre + length (der_bytes d) = h + l" "h - length pre = head_size d" by (simp_all add: h_def l_def der_bytes_length)
  show ?thesis
  proof (cases d)
    case (Prim c n v)
    then show ?thesis
      using W ends by (auto simp: dec element_def low_tag_def isUniversal_def skip_content_def l_def)
  next
    case (Constr c n ds)
    have ct: "der_content d = [] @ concat (map der_bytes ds)" "list_all wf_der ds"
      and el: "element_of (length pre) d = ASN1 (length pre) (head_size d) (int l) (low_tag c True n) (Some (elements_of h ds))"
      using W by (simp_all add: Constr der_content_bytes l_def h_def del: der_content.simps)
    show ?thesis using O parts[OF ct] ends by (auto simp: dec el element_def low_tag_def rbind_Out parts_Out h)
  next
    case (Octets ds)
    have ct: "der_content d = [] @ concat (map der_bytes ds)" "list_all wf_der ds" "\<not> list_ex eoc_der ds"
      and el: "element_of (length pre) d = ASN1 (length pre) (head_size d) (int l) (low_tag 0 False 4) (Some (elements_of h ds))"
      using W by (simp_all add: Octets der_content_bytes l_def h_def del: der_content.simps)
    show ?thesis using O parts[OF ct(1,2)] ct(3) ends
      by (auto simp: dec el element_def low_tag_def isUniversal_def parts_Out eoc_elements h)
  next
    case (Bits ds)
    have ct: "der_content d = [0] @ concat (map der_bytes ds)" "list_all wf_der ds" "\<not> list_ex eoc_der ds"
      and el: "element_of (length pre) d = ASN1 (length pre) (head_size d) (int l) (low_tag 0 False 3) (Some (elements_of (h + 1) ds))"
      using W by (simp_all add: Bits der_content_bytes l_def h_def del: der_content.simps)
    have "get enc h = Done 0 (h + 1)" using enc get_middle[of enc hd' 0] ct(1) by (simp add: h)
    then show ?thesis using O parts[OF ct(1,2)] ct(3) ends
      by (auto simp: dec el element_def low_tag_def isUniversal_def parts_Out eoc_elements h)
  qed
qed

lemma decode_der:
  "wf_der d \<Longrightarrow> enc = pre @ der_bytes d @ post \<Longrightarrow> decode m enc (length pre) \<noteq> Out \<Longrightarrow>
   decode m enc (length pre) = Done (element_of (length pre) d) (length pre + length (der_bytes d))"
  "list_all wf_der ds \<Longrightarrow> enc = pre @ concat (map der_bytes ds) @ post \<Longrightarrow>
   items m enc (length pre + length (concat (map der_bytes ds))) (length pre) \<noteq> Out \<Longrightarrow>
   items m enc (length pre + length (concat (map der_bytes ds))) (length pre) =
     Done (elements_of (length pre) ds) (length pre + length (concat (map der_bytes ds)))"
proof (induction m arbitrary: d ds pre post)
  case (Suc m)
  {
    case 1
    from Suc.IH(2) 1 show ?case by (rule decode_der_step)
  next
    case 2
    show ?case
    proof (cases ds)
      case (Cons d ds')
      define c where "c = length pre + length (concat (map der_bytes ds))"
      have c: "c = length (pre @ der_bytes d) + length (concat (map der_bytes ds'))" "length pre < c"
        by (simp_all add: c_def Cons der_bytes_length head_size_def)
      have "items (Suc m) enc c (length pre) = rbind (decode m enc (length pre)) (\<lambda>d q. rbind (items m enc c q) (\<lambda>ds r. Done (d # ds) r))"
        using c(2) by (simp add: items.simps)
      then show ?thesis
        using Suc.IH(1)[of d pre "concat (map der_bytes ds') @ post"] Suc.IH(2)[of ds' "pre @ der_bytes d" post, folded c(1)] 2
        unfolding c_def[symmetric] by (auto simp: Cons rbind_Out)
    qed (simp add: items.simps)
  }
qed (simp_all add: decode.simps items.simps)

lemma decode_at:
  assumes "wf_der d"
  shows "decode (Suc (length (pre @ der_bytes d @ post))) (pre @ der_bytes d @ post) (length pre) =
    Done (element_of (length pre) d) (length pre + length (der_bytes d))"
  using assms by (intro decode_der decode_fuel) auto

lemma element_of_fields [simp]:
  "stream_pos (element_of p d) = p" "header (element_of p d) = head_size d" "len (element_of p d) = int (length (der_content d))"
  by (cases d; simp)+

lemma get_all_middle: "enc = pre @ xs @ post \<Longrightarrow> get_all enc [length pre..<length pre + length xs] = Inr xs"
proof (induction xs arbitrary: pre)
  case (Cons x xs)
  have "[length pre..<length pre + length (x # xs)] = length pre # [length (pre @ [x])..<length (pre @ [x]) + length xs]"
    by (subst upt_conv_Cons) simp_all
  then show ?case using Cons.prems Cons.IH[of "pre @ [x]"] by (simp add: get_at_def)
qed simp

lemma hexDump_middle: "enc = pre @ xs @ post \<Longrightarrow> hexDump enc (length pre) (length pre + length xs) True = Inr (concat (map hexByte xs))"
proof -
  have "map (\<lambda>(s, b). hexByte b @ []) (zip [length pre..<length pre + length xs] xs) =
    map hexByte (map snd (zip [length pre..<length pre + length xs] xs))"
    unfolding map_map by (rule map_cong) auto
  moreover assume "enc = pre @ xs @ post"
  ultimately show ?thesis using get_all_middle[of enc pre xs post] by (simp add: hexDump_def)
qed

lemma hex_bytes_length: "length (concat (map hexByte xs)) = 2 * length xs"
  by (induction xs) (auto simp: hexByte_def)

lemma getHexStringValue_der:
  assumes "enc = pre @ der_bytes d @ post"
  shows "getHexStringValue enc (element_of (length pre) d) = Inr (concat (map hexByte (der_content d)))"
proof -
  define hd' where "hd' = der_tag d # der_length (length (der_content d))"
  have b: "der_bytes d = hd' @ der_content d" "head_size d = length hd'" by (simp_all add: hd'_def der_bytes_split head_size_def)
  have "toHexString enc (element_of (length pre) d) = Inr (concat (map hexByte (der_bytes d)))"
    using hexDump_middle[OF assms] by (simp add: toHexString_def posStart_def posEnd_def der_bytes_length add.assoc)
  then show ?thesis by (simp add: getHexStringValue_def b hex_bytes_length mult.commute nat_mult_distrib)
qed

text \<open>C17: reading the definite-length encoding of a tree gives the tree back, element by element: every element has its position,
  the size of its header, its length, its tag and its parts, also where the parts stand inside of a bit string or an octet
  string, and bytes after the tree are left alone; the text of hexadecimal digits that the outermost element gives is that of
  its content.  A tree is made of primitive values, constructed values, and values wrapped in an octet string or a bit string,
  with tag numbers below 31 and contents below 2^48 bytes.  Universal octet strings and bit strings occur only as such
  wrappings, without an end of contents among their parts, because the reader looks for elements in their contents.\<close>

theorem asn1_round_trip:
  assumes "wf_der d"
  shows "asn1_decode (der_bytes d @ rest) = Done (element_of 0 d) (length (der_bytes d)) \<and>
    getHexStringValue (der_bytes d @ rest) (element_of 0 d) = Inr (concat (map hexByte (der_content d)))"
  using decode_at[OF assms, of "[]" rest] getHexStringValue_der[of "der_bytes d @ rest" "[]" d rest] by (simp add: asn1_decode_def)

theorem asn1_round_trip_witness:
  "asn1_decode (der_bytes (Constr 0 16 [Prim 0 2 [5], Bits [Prim 0 2 [7]]]) @ [1]) =
     Done (element_of 0 (Constr 0 16 [Prim 0 2 [5], Bits [Prim 0 2 [7]]])) 11 \<and>
   getHexStringValue (der_bytes (Constr 0 16 [Prim 0 2 [5], Bits [Prim 0 2 [7]]]) @ [1])
     (element_of 0 (Constr 0 16 [Prim 0 2 [5], Bits [Prim 0 2 [7]]])) = Inr ''020105030400020107''"
  using asn1_round_trip[of "Constr 0 16 [Prim 0 2 [5], Bits [Prim 0 2 [7]]]" "[1]"]
  by (simp add: der_bytes_def tlv_def der_length_def hexByte_def hex_upper_def)

end
