(* ===== verification/Big_Integer.thy ===== *)
theory Big_Integer
  imports Key_Codec
begin

unbundle bit_operations_syntax

text \<open>
  Big integers of the login page (\<open>index-7e4c6da8.js\<close>), as far as keys are read and written with them: digits of
  28 bits, the lowest first, and a sign that is zero or minus one, in the manner of two's complement.
  Modelled are the readers of hexadecimal and decimal texts and what they are built from, the
  printer for radixes that are powers of two, addition, subtraction and the bitwise operations.  The
  lemmas relate the digits to the number they stand for.  The digits are those of the browsers that
  call themselves Netscape, as all current ones do.
\<close>

section \<open>Digits\<close>

record bigint =
  limbs :: "int list"
  bsign :: int

abbreviation DB :: nat where "DB \<equiv> 28"

abbreviation DM :: int where "DM \<equiv> 268435455"

abbreviation DV :: int where "DV \<equiv> 268435456"

text \<open>\<open>xt\<close> (\<open>intAt\<close>): the table knows the digits and the letters of both cases.\<close>

definition intAt :: "char \<Rightarrow> int" where
  "intAt c = (let k = int (of_char c) in
     if 48 \<le> k \<and> k \<le> 57 then k - 48 else if 97 \<le> k \<and> k \<le> 122 then k - 87 else if 65 \<le> k \<and> k \<le> 90 then k - 55 else - 1)"

definition big_clamp :: "bigint \<Rightarrow> bigint" where
  "big_clamp x = x\<lparr>limbs := rev (dropWhile (\<lambda>d. d = bsign x AND DM) (rev (limbs x)))\<rparr>"

definition signum :: "bigint \<Rightarrow> int" where
  "signum x = (if bsign x < 0 then - 1 else if limbs x = [] \<or> length (limbs x) = 1 \<and> hd (limbs x) \<le> 0 then 0 else 1)"

text \<open>\<open>fromInt\<close>, for zero and one.\<close>

definition big_zero :: bigint where
  "big_zero = \<lparr>limbs = [], bsign = 0\<rparr>"

definition big_one :: bigint where
  "big_one = \<lparr>limbs = [1], bsign = 0\<rparr>"

section \<open>Sums, differences and bitwise operations\<close>

text \<open>\<open>addTo\<close> and \<open>subTo\<close>: the digits that both numbers have, then the rest of the longer one with the sign of the other.\<close>

fun carry_both :: "(int \<Rightarrow> int \<Rightarrow> int) \<Rightarrow> int \<Rightarrow> int list \<Rightarrow> int list \<Rightarrow> int list \<times> int" where
  "carry_both f n (x # xs) (y # ys) = (let m = n + f x y; (ds, c) = carry_both f (drop_bit DB m) xs ys in ((m AND DM) # ds, c))"
| "carry_both f n _ _ = ([], n)"

fun carry_rest :: "(int \<Rightarrow> int) \<Rightarrow> int \<Rightarrow> int list \<Rightarrow> int list \<times> int" where
  "carry_rest f n [] = ([], n)"
| "carry_rest f n (x # xs) = (let m = n + f x; (ds, c) = carry_rest f (drop_bit DB m) xs in ((m AND DM) # ds, c))"

definition addTo :: "bigint \<Rightarrow> bigint \<Rightarrow> bigint" where
  "addTo x t = (let (ds, n) = carry_both (+) 0 (limbs x) (limbs t); k = length ds;
     (es, m) = (if length (limbs t) < length (limbs x)
        then (case carry_rest (\<lambda>d. d) (n + bsign t) (drop k (limbs x)) of (es, m) \<Rightarrow> (es, m + bsign x))
        else (case carry_rest (\<lambda>d. d) (n + bsign x) (drop k (limbs t)) of (es, m) \<Rightarrow> (es, m + bsign t)))
     in big_clamp \<lparr>limbs = ds @ es @ (if m > 0 then [m] else if m < - 1 then [DV + m] else []), bsign = (if m < 0 then - 1 else 0)\<rparr>)"

definition subTo :: "bigint \<Rightarrow> bigint \<Rightarrow> bigint" where
  "subTo x t = (let (ds, n) = carry_both (-) 0 (limbs x) (limbs t); k = length ds;
     (es, m) = (if length (limbs t) < length (limbs x)
        then (case carry_rest (\<lambda>d. d) (n - bsign t) (drop k (limbs x)) of (es, m) \<Rightarrow> (es, m + bsign x))
        else (case carry_rest (\<lambda>d. - d) (n + bsign x) (drop k (limbs t)) of (es, m) \<Rightarrow> (es, m - bsign t)))
     in big_clamp \<lparr>limbs = ds @ es @ (if m < - 1 then [DV + m] else if m > 0 then [m] else []), bsign = (if m < 0 then - 1 else 0)\<rparr>)"

definition big_negate :: "bigint \<Rightarrow> bigint" where
  "big_negate x = subTo big_zero x"

definition bitwiseTo :: "(int \<Rightarrow> int \<Rightarrow> int) \<Rightarrow> bigint \<Rightarrow> bigint \<Rightarrow> bigint" where
  "bitwiseTo e x t = (let h = min (length (limbs t)) (length (limbs x));
     both = map2 e (take h (limbs x)) (take h (limbs t));
     rest = (if length (limbs t) < length (limbs x) then map (\<lambda>d. e d (bsign t AND DM)) (drop h (limbs x))
             else map (\<lambda>d. e (bsign x AND DM) d) (drop h (limbs t)))
     in big_clamp \<lparr>limbs = both @ rest, bsign = e (bsign x) (bsign t)\<rparr>)"

definition big_xor :: "bigint \<Rightarrow> bigint \<Rightarrow> bigint" where
  "big_xor x t = bitwiseTo (XOR) x t"

section \<open>Readers\<close>

text \<open>\<open>fromString\<close> for a radix of \<open>2\<^sup>i\<close>, from the last character on: \<open>h\<close> counts the bits of the highest digit in use and \<open>s\<close>
  remembers a minus sign before the digits.\<close>

fun fromString_loop :: "nat \<Rightarrow> int list \<Rightarrow> nat \<Rightarrow> bool \<Rightarrow> string \<Rightarrow> int list \<times> bool" where
  "fromString_loop i ds h s [] = (ds, s)"
| "fromString_loop i ds h s (c # cs) = (let o1 = intAt c in
     if o1 < 0 then fromString_loop i ds h (s \<or> c = CHR ''-'') cs
     else (let ds1 = (if h = 0 then ds @ [o1]
             else if h + i > DB then butlast ds @ [last ds OR push_bit h (o1 AND (2 ^ (DB - h) - 1)), drop_bit (DB - h) o1]
             else butlast ds @ [last ds OR push_bit h o1]);
           h1 = h + i in fromString_loop i ds1 (if h1 \<ge> DB then h1 - DB else h1) False cs))"

definition fromString :: "nat \<Rightarrow> string \<Rightarrow> bigint" where
  "fromString i t = (let (ds, s) = fromString_loop i [] 0 False (rev t); x = big_clamp \<lparr>limbs = ds, bsign = 0\<rparr> in
     if s then subTo big_zero x else x)"

text \<open>\<open>am\<close> with digits of 28 bits: \<open>ys\<close> plus \<open>e\<close> times \<open>xs\<close>, with the carry \<open>s\<close>, in halves of 14 bits.\<close>

fun am :: "int \<Rightarrow> int list \<Rightarrow> int list \<Rightarrow> int \<Rightarrow> int list \<times> int" where
  "am e (x # xs) (y # ys) s = (let o1 = e AND 16383; a = drop_bit 14 e; f = x AND 16383; l = drop_bit 14 x; d = a * f + l * o1;
     f1 = o1 * f + push_bit 14 (d AND 16383) + y + s; s1 = drop_bit 28 f1 + drop_bit 14 d + a * l;
     (zs, c) = am e xs ys s1 in ((f1 AND 268435455) # zs, c))"
| "am e _ _ s = ([], s)"

definition dMultiply :: "int \<Rightarrow> bigint \<Rightarrow> bigint" where
  "dMultiply t x = (let (zs, c) = am (t - 1) (limbs x) (limbs x) 0 in big_clamp (x\<lparr>limbs := zs @ [c]\<rparr>))"

text \<open>\<open>dAddOffset\<close>: the loop takes one \<open>DV\<close> from a digit and carries one.\<close>

fun carry_one :: "int \<Rightarrow> int list \<Rightarrow> int list" where
  "carry_one d rest = (if d \<ge> DV then (d - DV) # (case rest of [] \<Rightarrow> carry_one 1 [] | r # rs \<Rightarrow> carry_one (r + 1) rs) else d # rest)"

declare carry_one.simps [simp del]

definition dAddOffset :: "int \<Rightarrow> nat \<Rightarrow> bigint \<Rightarrow> bigint" where
  "dAddOffset t e x = (if t = 0 then x else
     (let ds = limbs x @ replicate (e + 1 - length (limbs x)) 0 in x\<lparr>limbs := take e ds @ carry_one (ds ! e + t) (drop (e + 1) ds)\<rparr>))"

text \<open>\<open>fromRadix\<close> for radix ten, in chunks of eight digits.\<close>

fun fromRadix_loop :: "bigint \<Rightarrow> bool \<Rightarrow> nat \<Rightarrow> int \<Rightarrow> string \<Rightarrow> bigint \<times> bool \<times> nat \<times> int" where
  "fromRadix_loop x s h o1 [] = (x, s, h, o1)"
| "fromRadix_loop x s h o1 (c # cs) = (let f = intAt c in
     if f < 0 then fromRadix_loop x (s \<or> c = CHR ''-'' \<and> signum x = 0) h o1 cs
     else (let o2 = 10 * o1 + f in
       if h + 1 \<ge> 8 then fromRadix_loop (dAddOffset o2 0 (dMultiply 100000000 x)) s 0 0 cs
       else fromRadix_loop x s (h + 1) o2 cs))"

definition fromRadix10 :: "string \<Rightarrow> bigint" where
  "fromRadix10 t = (let (x, s, h, o1) = fromRadix_loop big_zero False 0 0 t;
     y = (if h > 0 then dAddOffset o1 0 (dMultiply (10 ^ h) x) else x) in if s then subTo big_zero y else y)"

section \<open>The printer\<close>

text \<open>The radixes that \<open>toString\<close> prints digit by digit.\<close>

datatype radix = R2 | R4 | R8 | R16 | R32

fun radix_bits :: "radix \<Rightarrow> nat" where
  "radix_bits R16 = 4"
| "radix_bits R8 = 3"
| "radix_bits R2 = 1"
| "radix_bits R32 = 5"
| "radix_bits R4 = 2"

lemma radix_bits_range: "0 < radix_bits r" "radix_bits r \<le> 5"
  by (cases r; simp)+

text \<open>The loop: \<open>k\<close> digits of the number are left, of the highest of them the lower \<open>a\<close> bits; \<open>s\<close> tells that a digit was written.\<close>

function print_loop :: "int list \<Rightarrow> radix \<Rightarrow> nat \<Rightarrow> nat \<Rightarrow> bool \<Rightarrow> string \<Rightarrow> string" where
  "print_loop ds r 0 a s h = (if s then h else ''0'')"
| "print_loop ds r (Suc k) a s h = (let e = radix_bits r in
     if a < e then
       (let a1 = a + DB - e; n = push_bit (e - a) (ds ! k AND (2 ^ a - 1)) OR (if k = 0 then 0 else drop_bit a1 (ds ! (k - 1)));
            s1 = (s \<or> n > 0) in print_loop ds r k a1 s1 (if s1 then h @ int2char (nat n) else h))
     else
       (let a1 = a - e; n = drop_bit a1 (ds ! k) AND (2 ^ e - 1); s1 = (s \<or> n > 0); h1 = (if s1 then h @ int2char (nat n) else h) in
        if a1 = 0 then print_loop ds r k DB s1 h1 else print_loop ds r (Suc k) a1 s1 h1))"
  by pat_completeness auto
termination
proof (relation "measure (\<lambda>(ds, r, k, a, s, h). k * 28 + a)")
qed (use radix_bits_range in \<open>auto simp: not_less diff_less trans_less_add2\<close>)

declare print_loop.simps [simp del]

definition print_digits :: "radix \<Rightarrow> int list \<Rightarrow> string" where
  "print_digits r ds = (let t = length ds; a = DB - t * DB mod radix_bits r;
     n = (if t > 0 \<and> a < DB then drop_bit a (ds ! (t - 1)) else 0) in
     print_loop ds r t a (n > 0) (if n > 0 then int2char (nat n) else []))"

definition big_toString :: "radix \<Rightarrow> bigint \<Rightarrow> string" where
  "big_toString r x = (if bsign x < 0 then CHR ''-'' # print_digits r (limbs (big_negate x)) else print_digits r (limbs x))"

section \<open>The number behind the digits\<close>

fun bval :: "int list \<Rightarrow> int" where
  "bval [] = 0"
| "bval (d # ds) = d + DV * bval ds"

definition limbs_ok :: "int list \<Rightarrow> bool" where
  "limbs_ok ds \<longleftrightarrow> (\<forall>d \<in> set ds. 0 \<le> d \<and> d < DV)"

text \<open>Numbers without a sign, in the form that \<open>clamp\<close> leaves.\<close>

definition natural :: "bigint \<Rightarrow> bool" where
  "natural x \<longleftrightarrow> bsign x = 0 \<and> limbs_ok (limbs x) \<and> (limbs x = [] \<or> last (limbs x) \<noteq> 0)"

lemma limbs_ok_simps [simp]: "limbs_ok []" "limbs_ok (d # ds) \<longleftrightarrow> 0 \<le> d \<and> d < DV \<and> limbs_ok ds"
  "limbs_ok (ds @ es) \<longleftrightarrow> limbs_ok ds \<and> limbs_ok es"
  by (auto simp: limbs_ok_def)

lemma bval_append: "bval (ds @ es) = bval ds + 2 ^ (28 * length ds) * bval es"
  by (induction ds) (simp_all add: power_add algebra_simps)

lemma bval_range: "limbs_ok ds \<Longrightarrow> 0 \<le> bval ds \<and> bval ds < 2 ^ (28 * length ds)"
proof (induction ds)
  case (Cons d ds)
  then have "bval ds + 1 \<le> 2 ^ (28 * length ds)" "0 \<le> bval ds" by auto
  then have "DV * (bval ds + 1) \<le> DV * 2 ^ (28 * length ds)" by (intro mult_left_mono) auto
  then show ?case using Cons.prems \<open>0 \<le> bval ds\<close> by (simp add: power_add)
qed simp

lemma bval_inject:
  "limbs_ok ds \<Longrightarrow> limbs_ok es \<Longrightarrow> (ds = [] \<or> last ds \<noteq> 0) \<Longrightarrow> (es = [] \<or> last es \<noteq> 0) \<Longrightarrow> bval ds = bval es \<Longrightarrow> ds = es"
proof (induction ds arbitrary: es)
  case Nil
  have "bval es \<noteq> 0" if "es \<noteq> []" using Nil that
  proof (induction es)
    case (Cons e es)
    then show ?case using bval_range[of es] by (cases "es = []") (auto simp: add_nonneg_eq_0_iff)
  qed simp
  then show ?case using Nil by auto
next
  case (Cons d ds)
  note outer = Cons
  show ?case
  proof (cases es)
    case Nil
    have "bval (d # ds) \<noteq> 0" using Cons.prems(1,3)
    proof (induction ds arbitrary: d)
      case (Cons e ds)
      then show ?case using bval_range[of "e # ds"] by (force simp: add_nonneg_eq_0_iff)
    qed auto
    then show ?thesis using Cons.prems(5) Nil by simp
  next
    case (Cons e es')
    have de: "d + DV * bval ds = e + DV * bval es'" "0 \<le> d" "d < DV" "0 \<le> e" "e < DV" using outer(2,3,6) Cons by auto
    have "(d + DV * bval ds) mod DV = d" "(e + DV * bval es') mod DV = e" using de(2-5) by auto
    then have "d = e" by (metis de(1))
    moreover have "bval ds = bval es'" using de(1) \<open>d = e\<close> by simp
    then have "ds = es'" using outer(2-5) Cons by (intro outer(1)) (simp_all split: if_splits)
    ultimately show ?thesis using Cons by simp
  qed
qed

lemma natural_inject: "natural x \<Longrightarrow> natural y \<Longrightarrow> bval (limbs x) = bval (limbs y) \<Longrightarrow> x = y"
  using bval_inject[of "limbs x" "limbs y"] by (cases x; cases y) (auto simp: natural_def)

lemma big_clamp_natural:
  assumes "bsign x = 0" and "limbs_ok (limbs x)"
  shows "natural (big_clamp x)" and "bval (limbs (big_clamp x)) = bval (limbs x)"
proof -
  define ds where "ds = rev (dropWhile (\<lambda>d. d = 0) (rev (limbs x)))"
  define zs where "zs = rev (takeWhile (\<lambda>d. d = 0) (rev (limbs x)))"
  have x: "limbs x = ds @ zs" unfolding ds_def zs_def by (metis rev_append rev_rev_ident takeWhile_dropWhile_id)
  have "\<forall>z \<in> set zs. z = 0" by (auto simp: zs_def dest: set_takeWhileD)
  then have "bval zs = 0" by (induction zs) auto
  moreover have c: "limbs (big_clamp x) = ds" "bsign (big_clamp x) = 0" using assms(1) by (auto simp: big_clamp_def ds_def)
  ultimately show "bval (limbs (big_clamp x)) = bval (limbs x)" by (simp add: x bval_append)
  have "ds = [] \<or> last ds \<noteq> 0" 
    unfolding ds_def using hd_dropWhile[of "\<lambda>d. d = 0" "rev (limbs x)"] by (simp add: last_rev del: dropWhile_eq_Nil_conv) blast
  then show "natural (big_clamp x)" using assms(2) by (simp add: natural_def c x)
qed

section \<open>Readers\<close>

text \<open>The number of a text of digits below the radix \<open>2\<^sup>i\<close>, the lowest first.\<close>

fun low_value :: "int \<Rightarrow> string \<Rightarrow> int" where
  "low_value b [] = 0"
| "low_value b (c # cs) = intAt c + b * low_value b cs"

lemma or_push_bit: "0 \<le> x \<Longrightarrow> x < 2 ^ h \<Longrightarrow> x OR push_bit h y = x + 2 ^ h * (y :: int)"
  using concat_bit_eq[of h x y] concat_bit_def[of h x y] by (simp add: take_bit_int_eq_self push_bit_eq_mult)

text \<open>The state of the loop after \<open>T\<close> bits.\<close>

definition reading :: "int list \<Rightarrow> nat \<Rightarrow> nat \<Rightarrow> bool" where
  "reading ds h T \<longleftrightarrow> limbs_ok ds \<and> h < 28 \<and> 4 dvd h \<and>
     (if h = 0 then T = 28 * length ds else ds \<noteq> [] \<and> T = 28 * (length ds - 1) + h \<and> last ds < 2 ^ h)"

lemma read_digit:
  assumes R: "reading ds h T" and d: "0 \<le> d" "d < 16"
  defines "es \<equiv> if h = 0 then ds @ [d] else butlast ds @ [last ds OR push_bit h d]"
  shows "reading es (if h + 4 \<ge> 28 then h + 4 - 28 else h + 4) (T + 4)" and "bval es = bval ds + 2 ^ T * d"
proof -
  consider (fresh) "h = 0" | (more) "h \<noteq> 0" by blast
  then have "reading es (if h + 4 \<ge> 28 then h + 4 - 28 else h + 4) (T + 4) \<and> bval es = bval ds + 2 ^ T * d"
  proof cases
    case fresh
    then show ?thesis using R d by (auto simp: es_def reading_def bval_append)
  next
    case more
    then obtain cs l where ds: "ds = cs @ [l]" "T = 28 * length cs + h" "0 \<le> l" "l < 2 ^ h" "limbs_ok cs"
      using R by (cases ds rule: rev_cases) (auto simp: reading_def)
    have h: "h + 4 \<le> 28" "4 dvd h" using R by (auto simp: reading_def elim!: dvdE)
    have es: "es = cs @ [l + 2 ^ h * d]" using more ds(3,4) by (simp add: es_def ds(1) or_push_bit)
    have "2 ^ h * d \<le> (2 :: int) ^ h * 15" using d by (intro mult_left_mono) auto
    moreover have "(2 :: int) ^ (h + 4) = 2 ^ h * 16" "0 \<le> 2 ^ h * d" using d by (simp_all add: power_add)
    ultimately have lt: "l + 2 ^ h * d < 2 ^ (h + 4)" "0 \<le> l + 2 ^ h * d" using ds(3,4) by linarith+
    have "(2 :: int) ^ (h + 4) \<le> 2 ^ 28" using h(1) by (intro power_increasing) auto
    then have "limbs_ok es" using lt ds(5) by (simp add: es)
    then show ?thesis using h lt more ds by (auto simp: reading_def es bval_append power_add algebra_simps)
  qed
  then show "reading es (if h + 4 \<ge> 28 then h + 4 - 28 else h + 4) (T + 4)" "bval es = bval ds + 2 ^ T * d" by auto
qed

lemma fromString_loop_hex:
  assumes "\<forall>c \<in> set cs. 0 \<le> intAt c \<and> intAt c < 16" and "reading ds h T"
  shows "\<exists>es. fromString_loop 4 ds h False cs = (es, False) \<and> limbs_ok es \<and> bval es = bval ds + 2 ^ T * low_value 16 cs"
  using assms
proof (induction cs arbitrary: ds h T)
  case (Cons c cs)
  define es where "es = (if h = 0 then ds @ [intAt c] else butlast ds @ [last ds OR push_bit h (intAt c)])"
  define h1 where "h1 = (if h + 4 \<ge> 28 then h + 4 - 28 else h + 4)"
  have c: "0 \<le> intAt c" "intAt c < 16" using Cons.prems(1) by auto
  have "h + 4 \<le> 28" using Cons.prems(2) by (auto simp: reading_def elim!: dvdE)
  then have "fromString_loop 4 ds h False (c # cs) = fromString_loop 4 es h1 False cs" using c by (simp add: Let_def es_def h1_def)
  moreover have "reading es h1 (T + 4)" "bval es = bval ds + 2 ^ T * intAt c"
    using read_digit[OF Cons.prems(2) c] by (auto simp: es_def h1_def)
  ultimately show ?case using Cons.IH[of es h1 "T + 4"] Cons.prems(1) by (auto simp: power_add algebra_simps)
qed (auto simp: reading_def)

lemma fromString_hex:
  assumes "\<forall>c \<in> set t. 0 \<le> intAt c \<and> intAt c < 16"
  shows "natural (fromString 4 t)" and "bval (limbs (fromString 4 t)) = low_value 16 (rev t)"
proof -
  obtain es where "fromString_loop 4 [] 0 False (rev t) = (es, False)" "limbs_ok es" "bval es = low_value 16 (rev t)"
    using fromString_loop_hex[of "rev t" "[]" 0 0] assms by (auto simp: reading_def)
  then show "natural (fromString 4 t)" "bval (limbs (fromString 4 t)) = low_value 16 (rev t)"
    using big_clamp_natural[of "\<lparr>limbs = es, bsign = 0\<rparr>"] by (simp_all add: fromString_def)
qed

section \<open>The printer\<close>

lemma bit_bval: "limbs_ok ds \<Longrightarrow> k < length ds \<Longrightarrow> j < 28 \<Longrightarrow> bit (bval ds) (28 * k + j) = bit (ds ! k) j"
proof (induction ds arbitrary: k)
  case (Cons d ds)
  have "bval (d # ds) = concat_bit 28 d (bval ds)"
    using Cons.prems(1) by (simp add: concat_bit_eq take_bit_int_eq_self push_bit_eq_mult)
  then show ?case using Cons by (cases k) (auto simp: bit_concat_bit_iff)
qed simp

lemma limb_bit_high: "limbs_ok ds \<Longrightarrow> k < length ds \<Longrightarrow> 28 \<le> j \<Longrightarrow> \<not> bit (ds ! k) j"
proof -
  assume "limbs_ok ds" "k < length ds" "28 \<le> j"
  then have "ds ! k = take_bit 28 (ds ! k)" by (simp add: limbs_ok_def take_bit_int_eq_self)
  then show ?thesis using \<open>28 \<le> j\<close> by (metis bit_take_bit_iff not_less)
qed

lemma and_exp_minus_1: "x AND (2 ^ a - 1) = take_bit a (x :: int)"
  by (simp add: take_bit_eq_mask mask_eq_exp_minus_1)

text \<open>What one round of the loop writes is the next digit of the number.\<close>

definition round_digit :: "int list \<Rightarrow> nat \<Rightarrow> nat \<Rightarrow> nat \<Rightarrow> int" where
  "round_digit ds e k a = (if a < e then push_bit (e - a) (ds ! k AND (2 ^ a - 1)) OR (if k = 0 then 0 else drop_bit (a + DB - e) (ds ! (k - 1)))
     else drop_bit (a - e) (ds ! k) AND (2 ^ e - 1))"

lemma round_digit_bits:
  assumes ok: "limbs_ok ds" "k < length ds" and a: "0 < a" "a \<le> 28" and e: "0 < e" "e < 28" "e dvd 28 * k + a"
  shows "round_digit ds e k a = take_bit e (drop_bit (28 * k + a - e) (bval ds))"
proof (cases "a < e")
  case False
  have "bit (bval ds) (28 * k + a - e + i) = bit (ds ! k) (a - e + i)" if "i < e" for i
    using bit_bval[OF ok, of "a - e + i"] False that a by (simp add: add.assoc)
  then show ?thesis
    using False by (auto simp: round_digit_def and_exp_minus_1 bit_take_bit_iff bit_drop_bit_eq comp_def intro!: bit_eqI)
next
  case True
  then have "k \<noteq> 0" using e(3) a(1) by (auto dest: dvd_imp_le)
  then obtain k' where k: "k = Suc k'" by (cases k) auto
  have low: "bit (bval ds) (28 * k + a - e + i) = bit (ds ! k') (a + 28 - e + i)" if "i < e - a" for i
    using bit_bval[OF ok(1), of k' "a + 28 - e + i"] ok(2) that True e k by (simp add: algebra_simps)
  have high: "bit (bval ds) (28 * k + a - e + i) = bit (ds ! k) (i - (e - a))" if "e - a \<le> i" "i < e" for i
  proof -
    have "28 * k + (i - (e - a)) = 28 * k + a - e + i" using that True e(2) k by simp
    then show ?thesis using bit_bval[OF ok, of "i - (e - a)"] that e(2) by (metis less_imp_diff_less order.strict_trans)
  qed
  have none: "\<not> bit (ds ! k') (a + 28 - e + i)" if "e - a \<le> i" for i
    using ok k that e(2) by (intro limb_bit_high) auto
  show ?thesis
  proof (rule bit_eqI)
    fix i
    show "bit (round_digit ds e k a) i \<longleftrightarrow> bit (take_bit e (drop_bit (28 * k + a - e) (bval ds))) i"
      using True k low[of i] high[of i] none[of i] a
      by (cases "i < e - a") (auto simp: round_digit_def and_exp_minus_1 bit_or_iff bit_push_bit_iff bit_take_bit_iff bit_drop_bit_eq comp_def)
  qed
qed

lemma print_loop_round:
  assumes "0 < a" "a \<le> 28"
  shows "print_loop ds r (Suc k) a s h = (let e = radix_bits r; n = round_digit ds e k a; s1 = (s \<or> n > 0);
     h1 = (if s1 then h @ int2char (nat n) else h) in
     if a \<le> e then print_loop ds r k (a + 28 - e) s1 h1 else print_loop ds r (Suc k) (a - e) s1 h1)"
  using assms by (subst print_loop.simps) (auto simp: Let_def round_digit_def)

text \<open>The digits of a number in a radix, and the text of them.\<close>

fun radix_digits :: "nat \<Rightarrow> nat \<Rightarrow> nat list" where
  "radix_digits b n = (if n < b \<or> b < 2 then [n] else radix_digits b (n div b) @ [n mod b])"

declare radix_digits.simps [simp del]

lemma radix_digits_nonempty [simp]: "radix_digits b n \<noteq> []"
  by (subst radix_digits.simps) simp

definition radix_text :: "nat \<Rightarrow> nat \<Rightarrow> string" where
  "radix_text b n = concat (map int2char (radix_digits b n))"

text \<open>The lowest \<open>m\<close> digits of a number, with zeros in front, and what is left without the zeros.\<close>

definition low_digits :: "nat \<Rightarrow> int \<Rightarrow> nat \<Rightarrow> nat list" where
  "low_digits e v m = map (\<lambda>j. nat (take_bit e (drop_bit (e * j) v))) (rev [0..<m])"

definition without_zeros :: "nat list \<Rightarrow> nat list" where
  "without_zeros xs = (case dropWhile (\<lambda>d. d = 0) xs of [] \<Rightarrow> [0] | ys \<Rightarrow> ys)"

lemma low_digits_Suc:
  "low_digits e v (Suc m) = nat (take_bit e (drop_bit (e * m) v)) # low_digits e v m"
  "low_digits e v (Suc m) = low_digits e (drop_bit e v) m @ [nat (take_bit e v)]"
proof -
  show "low_digits e v (Suc m) = nat (take_bit e (drop_bit (e * m) v)) # low_digits e v m" by (simp add: low_digits_def)
  have "rev [0..<Suc m] = map Suc (rev [0..<m]) @ [0]" by (simp add: upt_conv_Cons map_Suc_upt del: upt_Suc flip: rev_map)
  then show "low_digits e v (Suc m) = low_digits e (drop_bit e v) m @ [nat (take_bit e v)]"
    unfolding low_digits_def by (simp add: add.commute)
qed

lemma without_zeros_Cons: "without_zeros (d # ds) = (if d = 0 then without_zeros ds else d # ds)"
  by (simp add: without_zeros_def)

lemma without_zeros_snoc: "dropWhile (\<lambda>d. d = 0) xs \<noteq> [] \<Longrightarrow> without_zeros (xs @ [d]) = without_zeros xs @ [d]"
  by (induction xs) (auto simp: without_zeros_Cons)

lemma without_zeros_low_digits:
  assumes "0 \<le> v" "v < 2 ^ (e * m)" "0 < e"
  shows "without_zeros (low_digits e v m) = radix_digits (2 ^ e) (nat v)"
  using assms
proof (induction m arbitrary: v)
  case 0
  then show ?case by (simp add: low_digits_def without_zeros_def radix_digits.simps)
next
  case (Suc m)
  have b: "(2 :: nat) \<le> 2 ^ e" using Suc.prems(3) by (cases e) auto
  have "v = take_bit (e * Suc m) v" using Suc.prems by (simp add: take_bit_int_eq_self)
  then have "drop_bit e v = take_bit (e * m) (drop_bit e v)" by (metis add_diff_cancel_left' drop_bit_take_bit mult_Suc_right)
  then have w: "0 \<le> drop_bit e v" "drop_bit e v < 2 ^ (e * m)" by (metis take_bit_nonnegative, metis take_bit_int_less_exp)
  note IH = Suc.IH[OF w Suc.prems(3)]
  have nv: "nat (drop_bit e v) = nat v div 2 ^ e" "nat (take_bit e v) = nat v mod 2 ^ e"
    using Suc.prems(1) by (simp_all add: drop_bit_eq_div take_bit_eq_mod nat_div_distrib nat_mod_distrib nat_power_eq)
  show ?case
  proof (cases "nat v < 2 ^ e")
    case True
    then have "nat (drop_bit e v) = 0" using nv(1) by simp
    then have "drop_bit e v = 0" using w(1) by linarith
    moreover have "low_digits e 0 m = replicate m 0" by (simp add: low_digits_def map_replicate_const)
    ultimately have "low_digits e v (Suc m) = replicate m 0 @ [nat v]" using True unfolding low_digits_Suc(2) nv by simp
    then show ?thesis using True by (simp add: without_zeros_def radix_digits.simps[of _ "nat v"] dropWhile_append)
  next
    case False
    then have "nat v div 2 ^ e \<noteq> 0" by (simp add: not_less div_eq_0_iff)
    then have "radix_digits (2 ^ e) (nat v div 2 ^ e) \<noteq> [0]" using b by (subst radix_digits.simps) auto
    then have "dropWhile (\<lambda>d. d = 0) (low_digits e (drop_bit e v) m) \<noteq> []" using IH nv(1)
      by (auto simp: without_zeros_def simp del: dropWhile_eq_Nil_conv)
    then have "without_zeros (low_digits e v (Suc m)) = without_zeros (low_digits e (drop_bit e v) m) @ [nat v mod 2 ^ e]"
      unfolding low_digits_Suc(2) nv by (rule without_zeros_snoc)
    then show ?thesis using False b IH by (simp add: nv radix_digits.simps[of _ "nat v"])
  qed
qed

text \<open>The whole loop writes the digits that are left, without zeros in front if nothing was written yet.\<close>

lemma print_loop_digits:
  assumes "limbs_ok ds" "k \<le> length ds" "s \<or> h = []"
    "k = 0 \<and> m = 0 \<or> 0 < k \<and> 0 < a \<and> a \<le> 28 \<and> 28 * (k - 1) + a = radix_bits r * m"
  shows "print_loop ds r k a s h = h @ concat (map int2char
      (if s then low_digits (radix_bits r) (bval ds) m else without_zeros (low_digits (radix_bits r) (bval ds) m)))"
  using assms(2-4)
proof (induction m arbitrary: k a s h)
  case 0
  then have "k = 0" by auto
  then show ?case using 0 by (auto simp: print_loop.simps low_digits_def without_zeros_def int2char_def)
next
  case (Suc m)
  define e where "e = radix_bits r"
  obtain k' where k: "k = Suc k'" and a: "0 < a" "a \<le> 28" "28 * k' + a = e * Suc m" using Suc.prems(3) by (cases k) (auto simp: e_def)
  have e: "0 < e" "e < 28" using radix_bits_range[of r] by (auto simp: e_def)
  define n where "n = round_digit ds e k' a"
  define s1 h1 where "s1 = (s \<or> n > 0)" and "h1 = (if s1 then h @ int2char (nat n) else h)"
  have "e dvd 28 * k' + a" "28 * k' + a - e = e * m" using a(3) by simp_all
  then have n: "n = take_bit e (drop_bit (e * m) (bval ds))"
    using round_digit_bits[OF assms(1) _ a(1,2) e, of k'] Suc.prems(1) by (simp add: n_def k)
  define k2 a2 where "k2 = (if a \<le> e then k' else k)" and "a2 = (if a \<le> e then a + 28 - e else a - e)"
  have "print_loop ds r k a s h = print_loop ds r k2 a2 s1 h1"
    using print_loop_round[OF a(1,2), of ds r k' s h] by (simp add: k k2_def a2_def s1_def h1_def n_def e_def Let_def)
  also have "\<dots> = h1 @ concat (map int2char (if s1 then low_digits e (bval ds) m else without_zeros (low_digits e (bval ds) m)))"
  proof -
    have "k2 = 0 \<and> m = 0 \<or> 0 < k2 \<and> 0 < a2 \<and> a2 \<le> 28 \<and> 28 * (k2 - 1) + a2 = e * m"
      using a e k by (cases k') (auto simp: k2_def a2_def split: if_splits)
    then show ?thesis unfolding e_def using Suc.prems(1,2) by (intro Suc.IH) (auto simp: k2_def k s1_def h1_def e_def)
  qed
  also have "\<dots> = h @ concat (map int2char (if s then low_digits e (bval ds) (Suc m) else without_zeros (low_digits e (bval ds) (Suc m))))"
    using Suc.prems(2) n by (auto simp: low_digits_Suc(1) without_zeros_Cons s1_def h1_def simp del: take_bit_drop_bit)
  finally show ?case unfolding e_def .
qed

lemma print_head:
  assumes ok: "limbs_ok ds" "ds \<noteq> []" and a: "0 < a" "a \<le> 28" and T: "T = 28 * (length ds - 1) + a"
  shows "(if a < 28 then drop_bit a (last ds) else 0) = drop_bit T (bval ds)"
proof -
  have k: "length ds - 1 < length ds" using ok(2) by (cases ds) auto
  have high: "\<not> bit (bval ds) i" if "28 * length ds \<le> i" for i
    using bval_range[OF ok(1)] that by (metis bit_take_bit_iff not_less take_bit_int_eq_self)
  have T28: "28 * length ds = 28 * (length ds - 1) + 28" using ok(2) by (cases ds) auto
  show ?thesis
  proof (rule bit_eqI)
    fix i
    show "bit (if a < 28 then drop_bit a (last ds) else 0) i \<longleftrightarrow> bit (drop_bit T (bval ds)) i"
    proof (cases "a + i < 28")
      case True
      then show ?thesis using bit_bval[OF ok(1) k True] ok(2) by (simp add: bit_drop_bit_eq T add.assoc last_conv_nth)
    next
      case False
      then show ?thesis
        using high[of "T + i"] limb_bit_high[OF ok(1) k, of "a + i"] ok(2) T28 T by (simp add: bit_drop_bit_eq last_conv_nth)
    qed
  qed
qed

lemma print_digits_value:
  assumes ok: "limbs_ok ds"
  shows "print_digits r ds = radix_text (2 ^ radix_bits r) (nat (bval ds))"
proof (cases "ds = []")
  case True
  then show ?thesis by (simp add: print_digits_def print_loop.simps radix_text_def radix_digits.simps int2char_def)
next
  case False
  define e t where "e = radix_bits r" and "t = length ds"
  define x m where "x = t * 28 mod e" and "m = t * 28 div e"
  define n where "n = drop_bit (e * m) (bval ds)"
  have e: "0 < e" "e \<le> 5" using radix_bits_range[of r] by (auto simp: e_def)
  have x: "x < e" "e * m + x = t * 28" using e(1) by (simp_all add: m_def x_def mult_div_mod_eq)
  have t: "0 < t" "0 < 28 - x" "28 - x \<le> 28" "28 * (t - 1) + (28 - x) = e * m" using False x e by (cases ds; auto simp: t_def)+
  have hd: "(if t > 0 \<and> 28 - x < 28 then drop_bit (28 - x) (ds ! (t - 1)) else 0) = n"
    unfolding n_def using print_head[OF ok False t(2,3) refl] t(1,4) False by (auto simp: t_def last_conv_nth split: if_splits)
  have "print_digits r ds = print_loop ds r t (28 - x) (n > 0) (if n > 0 then int2char (nat n) else [])"
    unfolding print_digits_def Let_def e_def[symmetric] t_def[symmetric] x_def[symmetric] hd ..
  also have "\<dots> = (if n > 0 then int2char (nat n) else []) @
      concat (map int2char (if n > 0 then low_digits e (bval ds) m else without_zeros (low_digits e (bval ds) m)))"
    unfolding e_def by (rule print_loop_digits[OF ok]) (use t in \<open>auto simp: t_def e_def\<close>)
  also have "\<dots> = concat (map int2char (without_zeros (low_digits e (bval ds) (Suc m))))"
  proof -
    have v: "0 \<le> bval ds" "bval ds < 2 ^ (28 * t)" using bval_range[OF ok] by (auto simp: t_def)
    have "(2 :: int) ^ (28 * t) \<le> 2 ^ (e * m + e)" using x by (intro power_increasing) auto
    then have "bval ds = take_bit (e * m + e) (bval ds)" using v by (intro take_bit_int_eq_self[symmetric]) linarith+
    then have "n = take_bit e n" unfolding n_def by (metis add_diff_cancel_left' drop_bit_take_bit)
    moreover have "0 \<le> n" using v(1) by (simp add: n_def)
    ultimately show ?thesis unfolding low_digits_Suc(1) n_def[symmetric] by (auto simp: without_zeros_Cons)
  qed
  also have "without_zeros (low_digits e (bval ds) (Suc m)) = radix_digits (2 ^ e) (nat (bval ds))"
  proof (rule without_zeros_low_digits)
    have "(2 :: int) ^ (28 * t) \<le> 2 ^ (e * Suc m)" using x by (intro power_increasing) auto
    then show "bval ds < 2 ^ (e * Suc m)" "0 \<le> bval ds" using bval_range[OF ok] unfolding t_def by linarith+
  qed (rule e)
  finally show ?thesis by (simp add: radix_text_def e_def)
qed

section \<open>Decimal texts\<close>

lemma mask_mod: "x AND 16383 = x mod 16384" "x AND 268435455 = x mod 268435456" for x :: int
  using and_exp_minus_1[of x 14] and_exp_minus_1[of x 28] by (simp_all add: take_bit_eq_mod)

lemma shift_div: "push_bit 14 x = 16384 * x" "drop_bit 14 x = x div 16384" "drop_bit 28 x = x div 268435456" for x :: int
  by (simp_all add: push_bit_eq_mult drop_bit_eq_div)

text \<open>One step of \<open>am\<close> is exact; the sums it shifts stay below \<open>2\<^sup>3\<^sup>0\<close>, so 32 bits hold them.\<close>

lemma am_step:
  fixes e x y s :: int
  assumes e: "0 \<le> e" "e < DV" and x: "0 \<le> x" "x < DV" and y: "0 \<le> y" "y < DV" and s: "0 \<le> s" "s < DV"
  defines "o1 \<equiv> e mod 16384" and "a \<equiv> e div 16384" and "f \<equiv> x mod 16384" and "l \<equiv> x div 16384"
  defines "d \<equiv> a * f + l * o1"
  defines "f1 \<equiv> o1 * f + 16384 * (d mod 16384) + y + s"
  defines "s1 \<equiv> f1 div DV + d div 16384 + a * l"
  shows "f1 mod DV + DV * s1 = e * x + y + s" and "0 \<le> s1" and "s1 < DV" and "0 \<le> f1" and "f1 < 2 ^ 30" and "0 \<le> d" and "d < 2 ^ 30"
proof -
  have r: "0 \<le> o1" "o1 \<le> 16383" "0 \<le> a" "a \<le> 16383" "0 \<le> f" "f \<le> 16383" "0 \<le> l" "l \<le> 16383"
    using e x by (auto simp: o1_def a_def f_def l_def)
  have ex: "e = 16384 * a + o1" "x = 16384 * l + f" by (simp_all add: a_def o1_def l_def f_def)
  have le: "u * v \<le> 16383 * 16383" if "0 \<le> u" "u \<le> 16383" "0 \<le> v" "v \<le> 16383" for u v :: int using that by (intro mult_mono) auto
  have p: "0 \<le> o1 * f" "o1 * f \<le> 16383 * 16383" "0 \<le> a * f" "a * f \<le> 16383 * 16383" "0 \<le> l * o1" "l * o1 \<le> 16383 * 16383" "0 \<le> a * l"
    using r by (intro le mult_nonneg_nonneg; simp)+
  show d: "0 \<le> d" "d < 2 ^ 30" using p by (auto simp: d_def)
  have m: "0 \<le> d mod 16384" "d mod 16384 \<le> 16383" by (auto intro: zle_add1_eq_le[THEN iffD1])
  show f1: "0 \<le> f1" "f1 < 2 ^ 30" using p m y s by (auto simp: f1_def)
  have "f1 mod DV + DV * s1 = f1 + 16384 * (16384 * (d div 16384)) + DV * (a * l)"
    using mult_div_mod_eq[of DV f1] by (simp add: s1_def distrib_left)
  also have "\<dots> = o1 * f + 16384 * d + y + s + DV * (a * l)"
    unfolding f1_def using mult_div_mod_eq[of 16384 d] by linarith
  also have "\<dots> = e * x + y + s" unfolding ex d_def by (simp add: algebra_simps)
  finally show eq: "f1 mod DV + DV * s1 = e * x + y + s" .
  show "0 \<le> s1" using f1 d p by (simp add: s1_def pos_imp_zdiv_nonneg_iff)
  have "e * x \<le> DM * DM" using e x by (intro mult_mono) auto
  then have "DV * s1 < DV * DV" using eq y s pos_mod_sign[of DV f1] by linarith
  then show "s1 < DV" by simp
qed

lemma am_value:
  assumes "limbs_ok xs" "limbs_ok ys" "length xs = length ys" "0 \<le> e" "e < DV" "0 \<le> s" "s < DV" "am e xs ys s = (zs, c)"
  shows "limbs_ok zs \<and> length zs = length xs \<and> 0 \<le> c \<and> c < DV \<and> bval zs + 2 ^ (28 * length xs) * c = bval ys + e * bval xs + s"
  using assms(3,1,2,6-8)
proof (induction xs ys arbitrary: s zs rule: list_induct2)
  case (Cons x xs y ys)
  define o1 a f l where "o1 = e mod 16384" and "a = e div 16384" and "f = x mod 16384" and "l = x div 16384"
  define d where "d = a * f + l * o1"
  define f1 where "f1 = o1 * f + 16384 * (d mod 16384) + y + s"
  define s1 where "s1 = f1 div DV + d div 16384 + a * l"
  note defs = o1_def a_def f_def l_def d_def f1_def s1_def
  have xy: "0 \<le> x" "x < DV" "0 \<le> y" "y < DV" using Cons.prems by auto
  have st: "f1 mod DV + DV * s1 = e * x + y + s" "0 \<le> s1" "s1 < DV"
    unfolding defs by (rule am_step[OF assms(4,5) xy Cons.prems(3,4)])+
  have "am e (x # xs) (y # ys) s = (case am e xs ys s1 of (zs, c) \<Rightarrow> (f1 mod DV # zs, c))"
    unfolding am.simps Let_def mask_mod shift_div defs ..
  then obtain zs' where zs: "am e xs ys s1 = (zs', c)" "zs = f1 mod DV # zs'" using Cons.prems(5) by (auto split: prod.splits)
  have ih: "limbs_ok zs'" "length zs' = length xs" "0 \<le> c" "c < DV" "bval zs' + 2 ^ (28 * length xs) * c = bval ys + e * bval xs + s1"
    using Cons.IH[of s1 zs'] Cons.prems st zs by auto
  have pw: "2 ^ (28 * length (x # xs)) * c = DV * (2 ^ (28 * length xs) * c)" by (simp add: power_add)
  have ex: "e * (x + DV * bval xs) = e * x + DV * (e * bval xs)" by (simp add: distrib_left)
  have "bval zs + 2 ^ (28 * length (x # xs)) * c = bval (y # ys) + e * bval (x # xs) + s"
    unfolding zs(2) pw ex bval.simps using ih(5) st(1) by linarith
  then show ?case using ih by (simp add: zs(2))
qed simp

lemma dMultiply_natural:
  assumes "natural x" and "1 \<le> t" and "t \<le> DV"
  shows "natural (dMultiply t x)" and "bval (limbs (dMultiply t x)) = t * bval (limbs x)"
proof -
  obtain zs c where am: "am (t - 1) (limbs x) (limbs x) 0 = (zs, c)" by force
  have x: "limbs_ok (limbs x)" "bsign x = 0" using assms(1) by (auto simp: natural_def)
  have "limbs_ok zs \<and> length zs = length (limbs x) \<and> 0 \<le> c \<and> c < DV \<and> bval zs + 2 ^ (28 * length (limbs x)) * c = bval (limbs x) + (t - 1) * bval (limbs x) + 0"
    using am_value[OF x(1) x(1) refl _ _ _ _ am] assms(2,3) by simp
  then have "limbs_ok (zs @ [c])" "bval (zs @ [c]) = t * bval (limbs x)" by (auto simp: bval_append algebra_simps)
  then show "natural (dMultiply t x)" "bval (limbs (dMultiply t x)) = t * bval (limbs x)"
    using big_clamp_natural[of "x\<lparr>limbs := zs @ [c]\<rparr>"] x(2) am by (simp_all add: dMultiply_def)
qed

lemma carry_one_value:
  "0 \<le> d \<Longrightarrow> d < 2 * DV \<Longrightarrow> limbs_ok rest \<Longrightarrow> (if rest = [] then d \<noteq> 0 else last rest \<noteq> 0) \<Longrightarrow>
   limbs_ok (carry_one d rest) \<and> carry_one d rest \<noteq> [] \<and> last (carry_one d rest) \<noteq> 0 \<and> bval (carry_one d rest) = d + DV * bval rest"
proof (induction rest arbitrary: d)
  case Nil
  then show ?case by (auto simp: carry_one.simps[of d "[]"] carry_one.simps[of 1])
next
  case (Cons r rs)
  have "limbs_ok (carry_one (r + 1) rs) \<and> carry_one (r + 1) rs \<noteq> [] \<and> last (carry_one (r + 1) rs) \<noteq> 0 \<and>
    bval (carry_one (r + 1) rs) = r + 1 + DV * bval rs"
    using Cons.prems by (intro Cons.IH) (auto split: if_splits)
  then show ?case using Cons.prems by (auto simp: carry_one.simps[of d "r # rs"] algebra_simps split: if_splits)
qed

lemma dAddOffset_natural:
  assumes "natural x" and "0 \<le> t" and "t < DV"
  shows "natural (dAddOffset t 0 x) \<and> bval (limbs (dAddOffset t 0 x)) = bval (limbs x) + t"
proof (cases "t = 0")
  case False
  define ds where "ds = limbs x @ replicate (1 - length (limbs x)) 0"
  obtain d rest where ds: "ds = d # rest" by (cases ds) (auto simp: ds_def)
  have "limbs_ok ds \<and> (if rest = [] then d + t \<noteq> 0 else last rest \<noteq> 0) \<and> bval ds = bval (limbs x)"
    using assms(1,2) False ds by (cases "limbs x") (auto simp: ds_def natural_def)
  moreover have "dAddOffset t 0 x = x\<lparr>limbs := carry_one (d + t) rest\<rparr>"
    by (simp only: dAddOffset_def False if_False Let_def add_0 ds[unfolded ds_def]) simp
  ultimately show ?thesis using carry_one_value[of "d + t" rest] assms ds by (auto simp: natural_def)
qed (use assms in \<open>simp add: dAddOffset_def\<close>)

lemma intAt_digit: "d < 10 \<Longrightarrow> intAt (digit_char d) = int d"
  by (simp add: intAt_def of_char_digit_char)

lemma fromRadix_loop_value:
  assumes "set cs \<subseteq> digit_char ` {..<10}" "natural x" "h < 8" "0 \<le> o1" "o1 < 10 ^ h"
  shows "\<exists>y k p. fromRadix_loop x False h o1 cs = (y, False, k, p) \<and> natural y \<and> k < 8 \<and> 0 \<le> p \<and> p < 10 ^ k \<and>
    10 ^ k * bval (limbs y) + p = int (the (digits_value (nat (10 ^ h * bval (limbs x) + o1)) cs))"
  using assms
proof (induction cs arbitrary: x h o1)
  case Nil
  then show ?case using bval_range[of "limbs x"] by (auto simp: natural_def)
next
  case (Cons c cs)
  obtain d where d: "c = digit_char d" "d < 10" using Cons.prems(1) by auto
  define o2 where "o2 = 10 * o1 + int d"
  have o2: "0 \<le> o2" "o2 < 10 ^ Suc h" using Cons.prems d by (auto simp: o2_def)
  have bx: "0 \<le> bval (limbs x)" using bval_range[of "limbs x"] Cons.prems(2) by (simp add: natural_def)
  have acc: "10 * nat (10 ^ h * bval (limbs x) + o1) + d = nat (10 ^ Suc h * bval (limbs x) + o2)"
    using bx Cons.prems(4) by (simp add: o2_def nat_add_distrib nat_mult_distrib algebra_simps)
  have step: "digits_value (nat (10 ^ h * bval (limbs x) + o1)) (c # cs) = digits_value (nat (10 ^ Suc h * bval (limbs x) + o2)) cs"
    unfolding acc[symmetric] using d by simp
  show ?case
  proof (cases "h + 1 \<ge> 8")
    case True
    then have h: "h = 7" using Cons.prems(3) by simp
    define y where "y = dAddOffset o2 0 (dMultiply 100000000 x)"
    have y: "natural y" "bval (limbs y) = 10 ^ Suc h * bval (limbs x) + o2"
      using dMultiply_natural[OF Cons.prems(2), of 100000000] dAddOffset_natural[of "dMultiply 100000000 x" o2] o2 h
      by (simp_all add: y_def)
    have "fromRadix_loop x False h o1 (c # cs) = fromRadix_loop y False 0 0 cs"
      using True d by (simp add: intAt_digit Let_def y_def o2_def)
    then show ?thesis using Cons.IH[of y 0 0] Cons.prems(1) y step by (simp del: digits_value.simps)
  next
    case False
    then have "fromRadix_loop x False h o1 (c # cs) = fromRadix_loop x False (h + 1) o2 cs" using d by (simp add: intAt_digit Let_def o2_def)
    then show ?thesis using Cons.IH[of x "h + 1" o2] Cons.prems(1,2) False o2 step by (simp del: digits_value.simps)
  qed
qed

lemma fromRadix10_value: "natural (fromRadix10 (string_of_nat n))" "bval (limbs (fromRadix10 (string_of_nat n))) = int n"
proof -
  have "set (string_of_nat n) \<subseteq> digit_char ` {..<10}" using set_string_of_nat[of _ n] by fastforce
  then obtain y k p where l: "fromRadix_loop big_zero False 0 0 (string_of_nat n) = (y, False, k, p)"
    and y: "natural y" "k < 8" "0 \<le> p" "p < 10 ^ k" "10 ^ k * bval (limbs y) + p = int n"
    using fromRadix_loop_value[of "string_of_nat n" big_zero 0 0] by (auto simp: big_zero_def natural_def digits_value_string_of_nat)
  have "(10 :: int) ^ k \<le> 10 ^ 7" using y(2) by (intro power_increasing) auto
  then have b: "(1 :: int) \<le> 10 ^ k" "(10 :: int) ^ k \<le> DV" "p < DV" using y(4) by auto
  note m = dMultiply_natural[OF y(1) b(1,2)]
  have "natural (dAddOffset p 0 (dMultiply (10 ^ k) y)) \<and> bval (limbs (dAddOffset p 0 (dMultiply (10 ^ k) y))) = int n"
    using dAddOffset_natural[OF m(1) y(3) b(3)] m(2) y(5) by simp
  then show "natural (fromRadix10 (string_of_nat n))" "bval (limbs (fromRadix10 (string_of_nat n))) = int n"
    using y by (auto simp: fromRadix10_def l)
qed

section \<open>Sums and differences\<close>

text \<open>The number of a big integer with its sign.\<close>

definition sval :: "bigint \<Rightarrow> int" where
  "sval x = bval (limbs x) + 2 ^ (28 * length (limbs x)) * bsign x"

lemma mod_div_DV: "(m AND DM) + DV * drop_bit DB m = m"
  by (simp add: mask_mod shift_div)

lemma carry_both_value:
  "carry_both f n xs ys = (ds, c) \<Longrightarrow> length ds = min (length xs) (length ys) \<and>
   bval ds + 2 ^ (28 * length ds) * c = n + bval (map2 f xs ys)"
proof (induction f n xs ys arbitrary: ds rule: carry_both.induct)
  case (1 f n x xs y ys)
  define m where "m = n + f x y"
  obtain es where es: "carry_both f (drop_bit DB m) xs ys = (es, c)" "ds = (m AND DM) # es"
    using 1(2) by (auto simp: m_def Let_def split: prod.splits)
  have ih: "length es = min (length xs) (length ys)" "bval es + 2 ^ (28 * length es) * c = drop_bit DB m + bval (map2 f xs ys)"
    using 1(1)[OF m_def es(1)] by (auto simp: Let_def)
  have "DV * (bval es + 2 ^ (28 * length es) * c) = DV * drop_bit DB m + DV * bval (map2 f xs ys)" by (simp only: ih(2) distrib_left)
  then have "bval ds + 2 ^ (28 * length ds) * c = n + bval (map2 f (x # xs) (y # ys))"
    using mod_div_DV[of m] by (simp add: es(2) m_def power_add distrib_left mult.assoc)
  then show ?case using ih(1) es(2) by simp
qed auto

lemma carry_rest_value:
  "carry_rest f n xs = (ds, c) \<Longrightarrow> length ds = length xs \<and> bval ds + 2 ^ (28 * length xs) * c = n + bval (map f xs)"
proof (induction f n xs arbitrary: ds rule: carry_rest.induct)
  case (2 f n x xs)
  define m where "m = n + f x"
  obtain es where es: "carry_rest f (drop_bit DB m) xs = (es, c)" "ds = (m AND DM) # es"
    using 2(2) by (auto simp: m_def Let_def split: prod.splits)
  have ih: "length es = length xs" "bval es + 2 ^ (28 * length xs) * c = drop_bit DB m + bval (map f xs)"
    using 2(1)[OF m_def es(1)] by (auto simp: Let_def)
  have "DV * (bval es + 2 ^ (28 * length xs) * c) = DV * drop_bit DB m + DV * bval (map f xs)" by (simp only: ih(2) distrib_left)
  then have "bval ds + 2 ^ (28 * length (x # xs)) * c = n + bval (map f (x # xs))"
    using mod_div_DV[of m] by (simp add: es(2) m_def power_add distrib_left mult.assoc)
  then show ?case using ih(1) es(2) by simp
qed auto

lemma big_clamp_sval:
  assumes "bsign x = 0 \<or> bsign x = - 1"
  shows "sval (big_clamp x) = sval x"
proof -
  define t where "t = bsign x AND DM"
  have t: "t + DV * bsign x = bsign x" using assms by (auto simp: t_def mask_mod)
  have "sval (x\<lparr>limbs := rev (dropWhile (\<lambda>d. d = t) ds)\<rparr>) = sval (x\<lparr>limbs := rev ds\<rparr>)" for ds
  proof (induction ds)
    case (Cons d ds)
    have "sval (x\<lparr>limbs := rev ds @ [t]\<rparr>) = sval (x\<lparr>limbs := rev ds\<rparr>)"
      using arg_cong[OF t, of "\<lambda>v. 2 ^ (28 * length ds) * v"] by (simp add: sval_def bval_append power_add distrib_left mult.assoc)
    then show ?case using Cons by auto
  qed simp
  from this[of "rev (limbs x)"] show ?thesis by (simp add: big_clamp_def t_def)
qed

definition carried :: "int list \<Rightarrow> int \<Rightarrow> bigint" where
  "carried ds m = \<lparr>limbs = ds @ (if m > 0 then [m] else if m < - 1 then [DV + m] else []), bsign = (if m < 0 then - 1 else 0)\<rparr>"

lemma carried_sval: "sval (big_clamp (carried ds m)) = bval ds + 2 ^ (28 * length ds) * m"
proof -
  have "m = 0 \<or> m = - 1 \<or> m > 0 \<or> m < - 1" by linarith
  then show ?thesis by (subst big_clamp_sval) (auto simp: carried_def sval_def bval_append power_add algebra_simps)
qed

lemma bval_map2_add: "length xs = length ys \<Longrightarrow> bval (map2 (+) xs ys) = bval xs + bval ys"
  by (induction xs ys rule: list_induct2) auto

lemma bval_map2_sub: "length xs = length ys \<Longrightarrow> bval (map2 (-) xs ys) = bval xs - bval ys"
  by (induction xs ys rule: list_induct2) auto

lemma bval_map_minus: "bval (map uminus zs) = - bval zs"
  by (induction zs) auto

lemma bval_take_drop: "k \<le> length xs \<Longrightarrow> bval xs = bval (take k xs) + 2 ^ (28 * k) * bval (drop k xs)"
  using bval_append[of "take k xs" "drop k xs"] by (simp add: min_absorb2)

lemma carry_total:
  assumes "carry_both f 0 xs ys = (ds, n)" and "carry_rest g (n + q) (drop (length ds) zs) = (es, m)"
  shows "bval (ds @ es) + 2 ^ (28 * length (ds @ es)) * (m + p) =
    bval (map2 f xs ys) + 2 ^ (28 * length ds) * (q + bval (map g (drop (length ds) zs))) + 2 ^ (28 * length (ds @ es)) * p"
proof -
  note b = carry_both_value[OF assms(1)] and r = carry_rest_value[OF assms(2)]
  have "2 ^ (28 * length ds) * (bval es + 2 ^ (28 * length es) * m) = 2 ^ (28 * length ds) * (n + q + bval (map g (drop (length ds) zs)))"
    using r by simp
  then show ?thesis using conjunct2[OF b] by (simp add: bval_append power_add distrib_left mult.assoc)
qed

lemma map2_take: "map2 f xs ys = map2 f (take k xs) (take k ys)" if "k = min (length xs) (length ys)" for xs ys
  using that by (induction xs ys arbitrary: k rule: list_induct2') auto

lemma addTo_sval: "sval (addTo x t) = sval x + sval t"
proof -
  obtain ds n where ds: "carry_both (+) 0 (limbs x) (limbs t) = (ds, n)" by force
  have k: "length ds = min (length (limbs x)) (length (limbs t))" using carry_both_value[OF ds] by simp
  have m2: "bval (map2 (+) (limbs x) (limbs t)) = bval (take (length ds) (limbs x)) + bval (take (length ds) (limbs t))"
    using bval_map2_add[of "take (length ds) (limbs x)" "take (length ds) (limbs t)"] map2_take[OF k, of "(+)"] k by simp
  show ?thesis
  proof (cases "length (limbs t) < length (limbs x)")
    case True
    obtain es m where es: "carry_rest (\<lambda>d. d) (n + bsign t) (drop (length ds) (limbs x)) = (es, m)" by force
    have l: "length (ds @ es) = length (limbs x)" "length ds = length (limbs t)" using carry_rest_value[OF es] k True by auto
    have "addTo x t = big_clamp (carried (ds @ es) (m + bsign x))" using True es by (auto simp: addTo_def carried_def ds l(2) Let_def)
    then have "sval (addTo x t) = bval (ds @ es) + 2 ^ (28 * length (ds @ es)) * (m + bsign x)" by (simp only: carried_sval)
    also have "\<dots> = sval x + sval t"
      unfolding carry_total[OF ds es] unfolding m2 l(1) sval_def using bval_take_drop[of "length ds" "limbs x"] l by (simp add: bval_map_minus algebra_simps)
    finally show ?thesis .
  next
    case False
    obtain es m where es: "carry_rest (\<lambda>d. d) (n + bsign x) (drop (length ds) (limbs t)) = (es, m)" by force
    have l: "length (ds @ es) = length (limbs t)" "length ds = length (limbs x)" using carry_rest_value[OF es] k False by auto
    have "addTo x t = big_clamp (carried (ds @ es) (m + bsign t))" using False es by (auto simp: addTo_def carried_def ds l(2) Let_def)
    then have "sval (addTo x t) = bval (ds @ es) + 2 ^ (28 * length (ds @ es)) * (m + bsign t)" by (simp only: carried_sval)
    also have "\<dots> = sval x + sval t"
      unfolding carry_total[OF ds es] unfolding m2 l(1) sval_def using bval_take_drop[of "length ds" "limbs t"] l by (simp add: bval_map_minus algebra_simps)
    finally show ?thesis .
  qed
qed

lemma subTo_sval: "sval (subTo x t) = sval x - sval t"
proof -
  obtain ds n where ds: "carry_both (-) 0 (limbs x) (limbs t) = (ds, n)" by force
  have k: "length ds = min (length (limbs x)) (length (limbs t))" using carry_both_value[OF ds] by simp
  have m2: "bval (map2 (-) (limbs x) (limbs t)) = bval (take (length ds) (limbs x)) - bval (take (length ds) (limbs t))"
    using bval_map2_sub[of "take (length ds) (limbs x)" "take (length ds) (limbs t)"] map2_take[OF k, of "(-)"] k by simp
  show ?thesis
  proof (cases "length (limbs t) < length (limbs x)")
    case True
    obtain es m where es: "carry_rest (\<lambda>d. d) (n + (- bsign t)) (drop (length ds) (limbs x)) = (es, m)" by force
    have l: "length (ds @ es) = length (limbs x)" "length ds = length (limbs t)" using carry_rest_value[OF es] k True by auto
    have "subTo x t = big_clamp (carried (ds @ es) (m + bsign x))" using True es by (auto simp: subTo_def carried_def ds l(2) Let_def)
    then have "sval (subTo x t) = bval (ds @ es) + 2 ^ (28 * length (ds @ es)) * (m + bsign x)" by (simp only: carried_sval)
    also have "\<dots> = sval x - sval t"
      unfolding carry_total[OF ds es] unfolding m2 l(1) sval_def using bval_take_drop[of "length ds" "limbs x"] l by (simp add: bval_map_minus algebra_simps)
    finally show ?thesis .
  next
    case False
    obtain es m where es: "carry_rest uminus (n + bsign x) (drop (length ds) (limbs t)) = (es, m)" by force
    have l: "length (ds @ es) = length (limbs t)" "length ds = length (limbs x)" using carry_rest_value[OF es] k False by auto
    have "subTo x t = big_clamp (carried (ds @ es) (m + (- bsign t)))" using False es by (auto simp: subTo_def carried_def ds l(2) Let_def)
    then have "sval (subTo x t) = bval (ds @ es) + 2 ^ (28 * length (ds @ es)) * (m + (- bsign t))" by (simp only: carried_sval)
    also have "\<dots> = sval x - sval t"
      unfolding carry_total[OF ds es] unfolding m2 l(1) sval_def using bval_take_drop[of "length ds" "limbs t"] l by (simp add: bval_map_minus algebra_simps)
    finally show ?thesis .
  qed
qed

section \<open>Properties\<close>

lemma radix_digits_less: "2 \<le> b \<Longrightarrow> d \<in> set (radix_digits b n) \<Longrightarrow> d < b"
proof (induction b n rule: radix_digits.induct)
  case (1 b n)
  then show ?case by (subst (asm) (2) radix_digits.simps) (auto split: if_splits)
qed

lemma intAt_hx: "d < 16 \<Longrightarrow> intAt (hx d) = int d"
  and intAt_hex_upper: "d < 16 \<Longrightarrow> intAt (hex_upper d) = int d"
proof -
  have m: "map intAt ''0123456789abcdef'' = map int [0..<16]" "map intAt ''0123456789ABCDEF'' = map int [0..<16]"
    by (simp_all add: intAt_def upt_rec)
  show "d < 16 \<Longrightarrow> intAt (hx d) = int d" using arg_cong[OF m(1), of "\<lambda>l. l ! d"] by (simp add: hx_def nth_map del: list.map)
  show "d < 16 \<Longrightarrow> intAt (hex_upper d) = int d" using arg_cong[OF m(2), of "\<lambda>l. l ! d"] by (simp add: hex_upper_def nth_map del: list.map)
qed

lemma radix_text_16: "radix_text 16 n = map hx (radix_digits 16 n)"
proof -
  have "concat (map int2char ds) = map hx ds" if "\<forall>d \<in> set ds. d < 16" for ds
    using that by (induction ds) (auto simp: hx_facts)
  then show ?thesis using radix_digits_less[of 16] by (simp add: radix_text_def)
qed

lemma low_value_append: "low_value b (xs @ ys) = low_value b xs + b ^ length xs * low_value b ys"
  by (induction xs) (auto simp: algebra_simps)

lemma low_value_radix: "low_value 16 (rev (radix_text 16 n)) = int n"
  unfolding radix_text_16
proof (induction "16 :: nat" n rule: radix_digits.induct)
  case (1 n)
  show ?case
  proof (cases "n < 16")
    case False
    then show ?thesis using 1 by (subst radix_digits.simps) (simp add: intAt_hx zmod_int zdiv_int)
  qed (subst radix_digits.simps, simp add: intAt_hx)
qed

text \<open>C19: a big integer without a sign that is printed in hexadecimal and read again, also with zeros put in front, is the same big
  integer, digit by digit.\<close>

theorem big_hex_round_trip:
  assumes "natural x"
  shows "fromString 4 (replicate k (CHR ''0'') @ big_toString R16 x) = x"
proof -
  have t: "big_toString R16 x = radix_text 16 (nat (bval (limbs x)))" and v: "0 \<le> bval (limbs x)"
    using assms print_digits_value[of "limbs x" R16] bval_range[of "limbs x"] by (auto simp: big_toString_def natural_def)
  have "0 \<le> intAt c \<and> intAt c < 16" if "c \<in> set (replicate k (CHR ''0'') @ big_toString R16 x)" for c
    using that radix_digits_less[of 16] by (auto simp: t radix_text_16 intAt_hx intAt_def[of "CHR ''0''"])
  moreover have "low_value b (replicate k (CHR ''0'')) = 0" for b by (induction k) (auto simp: intAt_def)
  then have "low_value 16 (rev (replicate k (CHR ''0'') @ big_toString R16 x)) = bval (limbs x)"
    using v by (simp add: low_value_append t low_value_radix)
  ultimately show ?thesis using fromString_hex[of "replicate k (CHR ''0'') @ big_toString R16 x"] assms by (intro natural_inject) auto
qed

theorem big_hex_round_trip_witness:
  "fromString 4 (replicate 3 (CHR ''0'') @ big_toString R16 \<lparr>limbs = [5, 268435455, 7], bsign = 0\<rparr>) = \<lparr>limbs = [5, 268435455, 7], bsign = 0\<rparr>"
  by (rule big_hex_round_trip) (simp add: natural_def)

text \<open>The big integer that is read from a decimal text, in chunks of eight digits that are multiplied and added digit by digit, prints in
  every radix that is a power of two as the digits of that number.\<close>

theorem decimal_prints_in_radix:
  "big_toString r (fromRadix10 (string_of_nat n)) = radix_text (2 ^ radix_bits r) n"
  using fromRadix10_value[of n] print_digits_value[of "limbs (fromRadix10 (string_of_nat n))" r] by (simp add: big_toString_def natural_def)

text \<open>C20: sums and differences of big integers are those of the numbers they stand for, whatever their signs and their numbers of digits.\<close>

theorem big_sums: "sval (addTo x t) = sval x + sval t \<and> sval (subTo x t) = sval x - sval t"
  by (simp add: addTo_sval subTo_sval)

end
