(* ===== verification/Login_Key.thy ===== *)
theory Login_Key
  imports Asn1_Reader Big_Integer
begin

text \<open>
  The keys of the login page (\<open>index-7e4c6da8.js\<close>): the writer of ASN.1 objects as texts of hexadecimal digits, the texts of
  public and private keys, and the reader \<open>parseKey\<close>, which sets the fields of a key one after
  the other and keeps those it has set when it fails.  The lemmas show that the writer
  produces the definite-length encoding, and that a key that is written and read is the same key.
\<close>

section \<open>The writer of ASN.1 objects\<close>

datatype der_error = Odd_value | Length_too_long | Malformed_oid | Type_error

fun ebind :: "'e + 'a \<Rightarrow> ('a \<Rightarrow> 'e + 'b) \<Rightarrow> 'e + 'b" where
  "ebind (Inl e) f = Inl e"
| "ebind (Inr x) f = f x"

definition pad_even :: "string \<Rightarrow> string" where
  "pad_even t = (if odd (length t) then CHR ''0'' # t else t)"

text \<open>\<open>bigIntToMinTwosComplementsHex\<close>; in the branch of the negative numbers the text that is compared with the digits from
  zero to seven starts with the minus sign.\<close>

definition starts_low :: "string \<Rightarrow> bool" where
  "starts_low t \<longleftrightarrow> t \<noteq> [] \<and> hd t \<in> set ''01234567''"

definition bigIntToMinTwosComplementsHex :: "bigint \<Rightarrow> string" where
  "bigIntToMinTwosComplementsHex r = (let t = big_toString R16 r in
     if take 1 t \<noteq> ''-'' then (if odd (length t) then CHR ''0'' # t else if starts_low t then t else ''00'' @ t)
     else (let i = length t - 1; i1 = (if odd i then i + 1 else if starts_low t then i else i + 2);
               h = fromString 4 (replicate i1 (CHR ''f'')); o1 = big_toString R16 (addTo (big_xor h r) big_one)
           in if take 1 o1 = ''-'' then tl o1 else o1))"

text \<open>The objects: those whose encoding is fixed, those with a tag and a value, and sequences.\<close>

datatype der_object = Fixed string | Plain string string | DERSequence "der_object list"

definition getLengthHexFromValue :: "string \<Rightarrow> der_error + string" where
  "getLengthHexFromValue hV = (if odd (length hV) then Inl Odd_value
     else (let t = length hV div 2; e = pad_even (radix_text 16 t) in
       if t < 128 then Inr e
       else (let i = length e div 2 in if i > 15 then Inl Length_too_long else Inr (radix_text 16 (128 + i) @ e))))"

definition tlv_hex :: "string \<Rightarrow> string \<Rightarrow> der_error + string" where
  "tlv_hex hT hV = map_sum id (\<lambda>hL. hT @ hL @ hV) (getLengthHexFromValue hV)"

fun getEncodedHex :: "der_object \<Rightarrow> der_error + string" and parts_hex :: "der_object list \<Rightarrow> der_error + string" where
  "getEncodedHex (Fixed t) = Inr t"
| "getEncodedHex (Plain hT hV) = tlv_hex hT hV"
| "getEncodedHex (DERSequence ds) = ebind (parts_hex ds) (tlv_hex ''30'')"
| "parts_hex [] = Inr []"
| "parts_hex (d # ds) = ebind (getEncodedHex d) (\<lambda>t. map_sum id ((@) t) (parts_hex ds))"

definition DERNull :: der_object where
  "DERNull = Fixed ''0500''"

text \<open>\<open>DERInteger\<close> of a big integer, where \<open>null\<close> has no \<open>toString\<close>, and of a number, through its decimal text.\<close>

definition DERInteger_bigint :: "bigint option \<Rightarrow> der_error + der_object" where
  "DERInteger_bigint n = (case n of None \<Rightarrow> Inl Type_error | Some x \<Rightarrow> Inr (Plain ''02'' (bigIntToMinTwosComplementsHex x)))"

definition number_text :: "nat option \<Rightarrow> string" where
  "number_text e = (case e of Some v \<Rightarrow> string_of_nat v | None \<Rightarrow> ''NaN'')"

definition DERInteger_int :: "nat option \<Rightarrow> der_object" where
  "DERInteger_int e = Plain ''02'' (bigIntToMinTwosComplementsHex (fromRadix10 (number_text e)))"

definition DERBitString_hex :: "string \<Rightarrow> der_object" where
  "DERBitString_hex h = Plain ''03'' h"

text \<open>\<open>setValueOidString\<close>: the first two parts share a byte, every other part is written in groups of seven bits.\<close>

fun js_split :: "char \<Rightarrow> string \<Rightarrow> string \<Rightarrow> string list" where
  "js_split c acc [] = [acc]"
| "js_split c acc (x # xs) = (if x = c then acc # js_split c [] xs else js_split c (acc @ [x]) xs)"

definition oid_byte :: "string \<Rightarrow> string" where
  "oid_byte a = (if length a = 1 then CHR ''0'' # a else a)"

fun parse_bin :: "nat \<Rightarrow> string \<Rightarrow> nat" where
  "parse_bin acc [] = acc"
| "parse_bin acc (c # cs) = (if c = CHR ''0'' then parse_bin (2 * acc) cs else if c = CHR ''1'' then parse_bin (2 * acc + 1) cs else acc)"

function oid_groups :: "string \<Rightarrow> string" where
  "oid_groups l = (if length l \<le> 1 then [] else
     (let m = take 7 l; r = drop 7 l in oid_byte (radix_text 16 (parse_bin 0 (if r \<noteq> [] then CHR ''1'' # m else m))) @ oid_groups r))"
  by pat_completeness auto
termination by (relation "measure length") auto

declare oid_groups.simps [simp del]

definition oid_arc :: "string \<Rightarrow> string" where
  "oid_arc o1 = (let l = big_toString R2 (fromRadix10 o1); d = 7 - length l mod 7 in
     oid_groups (replicate (if d = 7 then 0 else d) (CHR ''0'') @ l))"

definition setValueOidString :: "string \<Rightarrow> der_error + string" where
  "setValueOidString i = (if i = [] \<or> \<not> (\<forall>c \<in> set i. char_digit c \<noteq> None \<or> c = CHR ''.'') then Inl Malformed_oid
     else (let s = js_split (CHR ''.'') [] i;
               first = (case (parse_nat (hd s), if length s > 1 then parse_nat (s ! 1) else None) of
                  (Some a, Some b) \<Rightarrow> radix_text 16 (a * 40 + b) | _ \<Rightarrow> ''NaN'')
           in Inr (oid_byte first @ concat (map oid_arc (drop 2 s)))))"

definition DERObjectIdentifier_oid :: "string \<Rightarrow> der_error + der_object" where
  "DERObjectIdentifier_oid i = map_sum id (Plain ''06'') (setValueOidString i)"

section \<open>Keys\<close>

text \<open>The fields of a key; \<open>None\<close> is \<open>null\<close>, and for the exponent \<open>NaN\<close>.  The exponent is a number, which is exact below \<open>2\<^sup>5\<^sup>3\<close>.\<close>

record rsa_key =
  rsa_n :: "bigint option"
  rsa_e :: "nat option"
  rsa_d :: "bigint option"
  rsa_p :: "bigint option"
  rsa_q :: "bigint option"
  rsa_dmp1 :: "bigint option"
  rsa_dmq1 :: "bigint option"
  rsa_coeff :: "bigint option"

definition new_rsa_key :: rsa_key where
  "new_rsa_key = \<lparr>rsa_n = None, rsa_e = Some 0, rsa_d = None, rsa_p = None, rsa_q = None, rsa_dmp1 = None, rsa_dmq1 = None, rsa_coeff = None\<rparr>"

definition getPublicBaseKey :: "rsa_key \<Rightarrow> der_error + string" where
  "getPublicBaseKey k =
    ebind (DERObjectIdentifier_oid ''1.2.840.113549.1.1.1'') (\<lambda>oid.
    ebind (DERInteger_bigint (rsa_n k)) (\<lambda>n.
    ebind (getEncodedHex (DERSequence [n, DERInteger_int (rsa_e k)])) (\<lambda>i.
    getEncodedHex (DERSequence [DERSequence [oid, DERNull], DERBitString_hex (''00'' @ i)]))))"

fun bigint_objects :: "bigint option list \<Rightarrow> der_error + der_object list" where
  "bigint_objects [] = Inr []"
| "bigint_objects (x # xs) = ebind (DERInteger_bigint x) (\<lambda>d. map_sum id ((#) d) (bigint_objects xs))"

definition getPrivateBaseKey :: "rsa_key \<Rightarrow> der_error + string" where
  "getPrivateBaseKey k =
    ebind (DERInteger_bigint (rsa_n k)) (\<lambda>n.
    ebind (bigint_objects [rsa_d k, rsa_p k, rsa_q k, rsa_dmp1 k, rsa_dmq1 k, rsa_coeff k]) (\<lambda>ds.
    getEncodedHex (DERSequence ([DERInteger_int (Some 0), n, DERInteger_int (rsa_e k)] @ ds))))"

text \<open>\<open>parseKey\<close>: the test for a text of pairs of hexadecimal digits with white space between them.\<close>

fun hex_pairs :: "string \<Rightarrow> bool" where
  "hex_pairs [] = True"
| "hex_pairs [c] = js_space c"
| "hex_pairs (c # d # r) = (if js_space c then hex_pairs (d # r) else hexval c \<noteq> None \<and> hexval d \<noteq> None \<and> hex_pairs r)"

definition hex_test :: "string \<Rightarrow> bool" where
  "hex_test e = (let t = dropWhile js_space e in t \<noteq> [] \<and> hex_pairs t)"

text \<open>\<open>S(t, 16)\<close> and \<open>parseInt(t, 16)\<close> of a text of hexadecimal digits.\<close>

definition parseBigInt :: "string \<Rightarrow> bigint" where
  "parseBigInt t = fromString 4 t"

definition parseInt16 :: "string \<Rightarrow> nat option" where
  "parseInt16 t = (if t = [] then None else Some (parse_hex 0 t))"

text \<open>The assignments to the fields in turn; the first element that is missing or cannot be read throws.\<close>

fun read_fields :: "nat list \<Rightarrow> (string \<Rightarrow> rsa_key \<Rightarrow> rsa_key) list \<Rightarrow> asn1 list \<Rightarrow> rsa_key \<Rightarrow> bool \<times> rsa_key" where
  "read_fields enc [] xs k = (True, k)"
| "read_fields enc (f # fs) [] k = (False, k)"
| "read_fields enc (f # fs) (x # xs) k = (case getHexStringValue enc x of Inl _ \<Rightarrow> (False, k) | Inr t \<Rightarrow> read_fields enc fs xs (f t k))"

definition public_fields :: "(string \<Rightarrow> rsa_key \<Rightarrow> rsa_key) list" where
  "public_fields = [\<lambda>t k. k\<lparr>rsa_n := Some (parseBigInt t)\<rparr>, \<lambda>t k. k\<lparr>rsa_e := parseInt16 t\<rparr>]"

definition private_fields :: "(string \<Rightarrow> rsa_key \<Rightarrow> rsa_key) list" where
  "private_fields = public_fields @ [\<lambda>t k. k\<lparr>rsa_d := Some (parseBigInt t)\<rparr>, \<lambda>t k. k\<lparr>rsa_p := Some (parseBigInt t)\<rparr>,
     \<lambda>t k. k\<lparr>rsa_q := Some (parseBigInt t)\<rparr>, \<lambda>t k. k\<lparr>rsa_dmp1 := Some (parseBigInt t)\<rparr>,
     \<lambda>t k. k\<lparr>rsa_dmq1 := Some (parseBigInt t)\<rparr>, \<lambda>t k. k\<lparr>rsa_coeff := Some (parseBigInt t)\<rparr>]"

text \<open>\<open>x.sub[i]\<close>, where \<open>null\<close> and \<open>undefined\<close> throw on the next access.\<close>

definition sub_at :: "asn1 \<Rightarrow> nat \<Rightarrow> asn1 option" where
  "sub_at x i = (case sub x of None \<Rightarrow> None | Some ds \<Rightarrow> if i < length ds then Some (ds ! i) else None)"

text \<open>What is read from the structure without its wrapping.\<close>

definition read_key :: "nat list \<Rightarrow> asn1 \<Rightarrow> rsa_key \<Rightarrow> bool \<times> rsa_key" where
  "read_key enc o1 k = (case sub o1 of None \<Rightarrow> (False, k) | Some ds \<Rightarrow>
     if length ds = 9 then read_fields enc private_fields (drop 1 ds) k
     else if length ds = 2 then
       (if sub (ds ! 0) \<noteq> None then
          (case sub_at (ds ! 1) 0 of None \<Rightarrow> (False, k) | Some t \<Rightarrow>
             (case sub t of None \<Rightarrow> (False, k) | Some es \<Rightarrow> read_fields enc public_fields es k))
        else read_fields enc public_fields ds k)
     else (False, k))"

definition parseKey :: "string \<Rightarrow> rsa_key \<Rightarrow> bool \<times> rsa_key" where
  "parseKey e k = (case (if hex_test e then hex_decode e else unarmor e) of Inl _ \<Rightarrow> (False, k) | Inr enc \<Rightarrow>
     (case asn1_decode enc of
        Done o1 _ \<Rightarrow> (case sub o1 of None \<Rightarrow> (False, k) | Some ds \<Rightarrow>
          if length ds = 3 then (case sub_at (ds ! 2) 0 of None \<Rightarrow> (False, k) | Some o2 \<Rightarrow> read_key enc o2 k)
          else read_key enc o1 k)
      | _ \<Rightarrow> (False, k)))"

section \<open>Bytes in hexadecimal digits\<close>

definition lower_hex :: "nat list \<Rightarrow> string" where
  "lower_hex bs = concat (map (\<lambda>b. [hx (b div 16), hx (b mod 16)]) bs)"

definition is_bytes :: "nat list \<Rightarrow> bool" where
  "is_bytes bs \<longleftrightarrow> (\<forall>b \<in> set bs. b < 256)"

lemma lower_hex_simps [simp]: "lower_hex [] = []" "lower_hex (b # bs) = hx (b div 16) # hx (b mod 16) # lower_hex bs"
  "lower_hex (xs @ ys) = lower_hex xs @ lower_hex ys"
  by (simp_all add: lower_hex_def)

lemma is_bytes_simps [simp]: "is_bytes []" "is_bytes (b # bs) \<longleftrightarrow> b < 256 \<and> is_bytes bs" "is_bytes (xs @ ys) \<longleftrightarrow> is_bytes xs \<and> is_bytes ys"
  by (auto simp: is_bytes_def)

lemma lower_hex_length [simp]: "length (lower_hex bs) = 2 * length bs"
  by (induction bs) auto

lemma lower_hex_text: "is_bytes bs \<Longrightarrow> hex_text (lower_hex bs)"
proof -
  define A where "A = set ''0123456789abcdef''"
  have A: "hx d \<in> A" if "d < 16" for d unfolding hx_def A_def using that by (intro nth_mem) simp
  assume "is_bytes bs"
  then show ?thesis unfolding hex_text_def A_def[symmetric] by (induction bs) (auto intro: A)
qed

lemma hex_decode_lower_hex: "is_bytes bs \<Longrightarrow> hex_decode (lower_hex bs) = Inr bs"
proof -
  assume b: "is_bytes bs"
  define xs where "xs = concat (map (\<lambda>b. [b div 16, b mod 16]) bs)"
  have "lower_hex bs = map hx xs \<and> even (length xs) \<and> bytes xs = bs" unfolding xs_def by (induction bs) auto
  moreover have "\<forall>x \<in> set xs. x < 16" using b by (auto simp: xs_def is_bytes_def)
  ultimately show ?thesis using hex_loop_bytes[of xs 0 "[]"] by (simp add: hex_decode_def)
qed

lemma big_endian_bytes: "is_bytes (big_endian n)"
  by (induction n rule: big_endian.induct) (subst big_endian.simps, simp)

lemma hx_char: "hx 0 = CHR ''0''"
  by (simp add: hx_def)

lemma radix_digits_byte:
  "n < 16 \<Longrightarrow> radix_digits 16 n = [n]" "16 \<le> n \<Longrightarrow> n < 256 \<Longrightarrow> radix_digits 16 n = [n div 16, n mod 16]"
  "256 \<le> n \<Longrightarrow> radix_digits 16 n = radix_digits 16 (n div 256) @ [n div 16 mod 16, n mod 16]"
proof -
  show "n < 16 \<Longrightarrow> radix_digits 16 n = [n]" for n by (simp add: radix_digits.simps)
  show "16 \<le> n \<Longrightarrow> n < 256 \<Longrightarrow> radix_digits 16 n = [n div 16, n mod 16]"
    by (subst radix_digits.simps, subst radix_digits.simps) simp
  show "256 \<le> n \<Longrightarrow> radix_digits 16 n = radix_digits 16 (n div 256) @ [n div 16 mod 16, n mod 16]"
    by (subst radix_digits.simps, subst radix_digits.simps) (simp add: div_mult2_eq[symmetric])
qed

text \<open>A number in hexadecimal, padded to whole bytes, is the text of its bytes.\<close>

lemma pad_even_radix: "0 < n \<Longrightarrow> pad_even (radix_text 16 n) = lower_hex (big_endian n)"
proof (induction n rule: big_endian.induct)
  case (1 n)
  consider "n < 16" | "16 \<le> n" "n < 256" | "256 \<le> n" by linarith
  then show ?case
  proof cases
    case 1
    then show ?thesis using \<open>0 < n\<close> by (simp add: radix_text_16 radix_digits_byte pad_even_def big_endian_snoc big_endian.simps[of 0] hx_char)
  next
    case 2
    then show ?thesis by (simp add: radix_text_16 radix_digits_byte pad_even_def big_endian_snoc big_endian.simps[of 0])
  next
    case 3
    then have "pad_even (radix_text 16 (n div 256)) = lower_hex (big_endian (n div 256))" using 1 by simp
    moreover have "pad_even (t @ [c, d]) = pad_even t @ [c, d]" for t c d by (simp add: pad_even_def)
    moreover have "n mod 256 div 16 = n div 16 mod 16" "n mod 256 mod 16 = n mod 16"
      using mod_mult2_eq[of n 16 16] by simp_all
    ultimately show ?thesis using 3 by (simp add: radix_text_16 radix_digits_byte big_endian_snoc[of n])
  qed
qed

lemma big_endian_nonempty: "0 < n \<Longrightarrow> big_endian n \<noteq> []"
  by (simp add: big_endian_snoc)

lemma lengthHex_der:
  assumes "length v < 2 ^ 48"
  shows "getLengthHexFromValue (lower_hex v) = Inr (lower_hex (der_length (length v)))"
proof -
  define t where "t = length v"
  have e: "pad_even (radix_text 16 t) = (if t = 0 then ''00'' else lower_hex (big_endian t))"
    by (simp add: pad_even_radix) (simp add: radix_text_16 radix_digits_byte pad_even_def hx_char)
  show ?thesis
  proof (cases "t < 128")
    case True
    have "big_endian t = [t]" if "0 < t" using True that by (simp add: big_endian_snoc big_endian.simps[of 0])
    then show ?thesis using True e by (auto simp: getLengthHexFromValue_def der_length_def hx_char simp flip: t_def)
  next
    case False
    define k where "k = length (big_endian t)"
    have "big_endian t \<noteq> []" using False by (intro big_endian_nonempty) simp
    then have k: "k \<le> 6" "0 < k" using big_endian_length[of t 6] assms by (auto simp: k_def t_def)
    have "radix_text 16 (128 + k) = lower_hex [128 + k]" using k by (simp add: radix_text_16 radix_digits_byte)
    moreover have "length (pad_even (radix_text 16 t)) div 2 = k" using e False by (simp add: k_def)
    ultimately show ?thesis using False e k by (simp add: getLengthHexFromValue_def der_length_def flip: t_def k_def)
  qed
qed

lemma tlv_hex_der: "length v < 2 ^ 48 \<Longrightarrow> tlv_hex (lower_hex [t]) (lower_hex v) = Inr (lower_hex (tlv t v))"
  by (simp add: tlv_hex_def lengthHex_der tlv_def)

text \<open>The content of an integer, in two's complement.\<close>

definition int_bytes :: "nat \<Rightarrow> nat list" where
  "int_bytes n = (if n = 0 then [0] else if hd (big_endian n) \<ge> 128 then 0 # big_endian n else big_endian n)"

lemma starts_low_hx: "d < 16 \<Longrightarrow> starts_low (hx d # t) \<longleftrightarrow> d < 8"
proof -
  assume d: "d < 16"
  have "map (\<lambda>c. c \<in> set ''01234567'') ''0123456789abcdef'' = map (\<lambda>d. d < 8) [0..<16]" by (simp add: upt_rec)
  from arg_cong[OF this, of "\<lambda>l. l ! d"] show ?thesis using d by (simp add: starts_low_def hx_def nth_map del: list.map)
qed

lemma minimal_hex:
  assumes "natural x"
  shows "bigIntToMinTwosComplementsHex x = lower_hex (int_bytes (nat (bval (limbs x))))"
proof -
  define n where "n = nat (bval (limbs x))"
  define t where "t = radix_text 16 n"
  have bt: "big_toString R16 x = t" using assms print_digits_value[of "limbs x" R16] by (simp add: big_toString_def natural_def t_def n_def)
  have neg: "take 1 t \<noteq> ''-''"
  proof -
    obtain d ds where d: "radix_digits 16 n = d # ds" by (cases "radix_digits 16 n") auto
    have "d < 16" using radix_digits_less[of 16 d n] d by simp
    then have "intAt (hx d) = int d" by (rule intAt_hx)
    then have "hx d \<noteq> CHR ''-''" by (auto simp: intAt_def)
    then show ?thesis by (simp add: t_def radix_text_16 d)
  qed
  have hex: "bigIntToMinTwosComplementsHex x = (if odd (length t) then CHR ''0'' # t else if starts_low t then t else ''00'' @ t)"
    using neg by (simp add: bigIntToMinTwosComplementsHex_def bt)
  show ?thesis
  proof (cases "n = 0")
    case True
    then show ?thesis unfolding hex n_def[symmetric] by (simp add: t_def radix_text_16 radix_digits_byte int_bytes_def hx_char)
  next
    case False
    then have p: "pad_even t = lower_hex (big_endian n)" by (simp add: t_def pad_even_radix)
    obtain b bs where b: "big_endian n = b # bs" using False big_endian_nonempty[of n] by (cases "big_endian n") auto
    have lt: "b < 256" using big_endian_bytes[of n] b by simp
    show ?thesis
    proof (cases "odd (length t)")
      case True
      then have "hx (b div 16) = hx 0" using p b by (simp add: pad_even_def hx_char)
      from arg_cong[OF this, of intAt] have "b div 16 = 0" using intAt_hx[of "b div 16"] intAt_hx[of 0] lt by simp
      then have "b < 128" by simp
      then show ?thesis unfolding hex n_def[symmetric] using True p False b by (simp add: pad_even_def int_bytes_def)
    next
      case ev: False
      have "starts_low t \<longleftrightarrow> b < 128" using p b lt ev starts_low_hx[of "b div 16"] by (simp add: pad_even_def) linarith
      then show ?thesis unfolding hex n_def[symmetric] using ev p False b by (auto simp: pad_even_def int_bytes_def hx_char)
    qed
  qed
qed

section \<open>Numbers from their bytes\<close>

fun be_value :: "nat \<Rightarrow> nat list \<Rightarrow> nat" where
  "be_value acc [] = acc"
| "be_value acc (b # bs) = be_value (256 * acc + b) bs"

definition upper_hex :: "nat list \<Rightarrow> string" where
  "upper_hex bs = concat (map hexByte bs)"

lemma be_value_snoc: "be_value acc (bs @ [b]) = 256 * be_value acc bs + b"
  by (induction bs arbitrary: acc) auto

lemma be_value_int_bytes: "be_value 0 (int_bytes n) = n"
proof -
  have be: "be_value 0 (big_endian n) = n" for n
  proof (induction n rule: big_endian.induct)
    case (1 n)
    then show ?case by (cases "n = 0") (simp_all add: big_endian_snoc be_value_snoc big_endian.simps[of 0])
  qed
  then show ?thesis by (simp add: int_bytes_def)
qed

lemma int_bytes_props: "is_bytes (int_bytes n)" "int_bytes n \<noteq> []" "n < 256 ^ k \<Longrightarrow> length (int_bytes n) \<le> k + 1"
proof -
  show "is_bytes (int_bytes n)" "int_bytes n \<noteq> []" using big_endian_bytes[of n] big_endian_nonempty[of n] by (auto simp: int_bytes_def)
  show "n < 256 ^ k \<Longrightarrow> length (int_bytes n) \<le> k + 1" using big_endian_length[of n k] by (auto simp: int_bytes_def)
qed

lemma hexval_hex_upper: "d < 16 \<Longrightarrow> hexval (hex_upper d) = Some d"
proof -
  have "map hexval ''0123456789ABCDEF'' = map Some [0..<16]" by (simp add: hexval_def upt_rec)
  from arg_cong[OF this, of "\<lambda>l. l ! d"] show "d < 16 \<Longrightarrow> hexval (hex_upper d) = Some d" by (simp add: hex_upper_def nth_map del: list.map)
qed

lemma parse_hex_upper: "is_bytes bs \<Longrightarrow> parse_hex acc (upper_hex bs) = be_value acc bs"
proof (induction bs arbitrary: acc)
  case (Cons b bs)
  have "16 * (16 * acc + b div 16) + b mod 16 = 256 * acc + b" by simp
  moreover have "b div 16 < 16" "b div 16 mod 16 = b div 16" using Cons.prems by auto
  ultimately show ?case using Cons by (simp add: upper_hex_def hexByte_def hexval_hex_upper add.commute)
qed (simp add: upper_hex_def)

lemma low_value_upper: "is_bytes bs \<Longrightarrow> low_value 16 (rev (upper_hex bs)) = int (be_value 0 bs)"
proof (induction bs rule: rev_induct)
  case (snoc b bs)
  have "b div 16 < 16" "b div 16 mod 16 = b div 16" "b = b mod 16 + 16 * (b div 16)" using snoc.prems by auto
  then have "int b = int (b mod 16) + 16 * int (b div 16)" by (metis of_nat_add of_nat_mult of_nat_numeral)
  then show ?case using snoc \<open>b div 16 < 16\<close> by (simp add: upper_hex_def hexByte_def intAt_hex_upper be_value_snoc)
qed (simp add: upper_hex_def)

lemma parseBigInt_bytes:
  assumes "natural x" and "is_bytes bs" and "int (be_value 0 bs) = bval (limbs x)"
  shows "parseBigInt (upper_hex bs) = x"
proof -
  have "0 \<le> intAt c \<and> intAt c < 16" if "c \<in> set (upper_hex bs)" for c
    using that by (auto simp: upper_hex_def hexByte_def intAt_hex_upper)
  then show ?thesis unfolding parseBigInt_def
    using fromString_hex[of "upper_hex bs"] low_value_upper[OF assms(2)] assms(1,3) by (intro natural_inject) auto
qed

lemma parseInt16_bytes: "is_bytes bs \<Longrightarrow> bs \<noteq> [] \<Longrightarrow> parseInt16 (upper_hex bs) = Some (be_value 0 bs)"
  using parse_hex_upper[of bs 0] by (cases bs) (auto simp: parseInt16_def upper_hex_def hexByte_def)

section \<open>The fields that are read\<close>

lemma elements_hex:
  "enc = pre @ concat (map der_bytes ds) @ post \<Longrightarrow>
   map (getHexStringValue enc) (elements_of (length pre) ds) = map (\<lambda>d. Inr (upper_hex (der_content d))) ds"
proof (induction ds arbitrary: pre)
  case (Cons d ds)
  have "getHexStringValue enc (element_of (length pre) d) = Inr (upper_hex (der_content d))"
    unfolding upper_hex_def using Cons.prems by (intro getHexStringValue_der[where post = "concat (map der_bytes ds) @ post"]) simp
  then show ?case using Cons.IH[of "pre @ der_bytes d"] Cons.prems by simp
qed simp

lemma read_fields_texts:
  "map (getHexStringValue enc) xs = map Inr ts \<Longrightarrow> length fs \<le> length ts \<Longrightarrow>
   read_fields enc fs xs k = (True, fold (\<lambda>(f, t). f t) (zip fs ts) k)"
proof (induction fs arbitrary: xs ts k)
  case (Cons f fs)
  then obtain x xs' t ts' where "xs = x # xs'" "ts = t # ts'" by (cases xs; cases ts) auto
  then show ?case using Cons by simp
qed simp

lemma elements_of_length [simp]: "length (elements_of p ds) = length ds"
  by (induction ds arbitrary: p) auto

section \<open>Objects and trees\<close>

definition encodes :: "der_object \<Rightarrow> der \<Rightarrow> bool" where
  "encodes ob d \<longleftrightarrow> getEncodedHex ob = Inr (lower_hex (der_bytes d))"

lemma tag_digits: "''30'' = lower_hex [48]" "''02'' = lower_hex [2]" "''03'' = lower_hex [3]" "''06'' = lower_hex [6]"
  by (simp_all add: hx_def)

lemma encodes_plain:
  assumes "length v < 2 ^ 48"
  shows "encodes (Plain ''02'' (lower_hex v)) (Prim 0 2 v)" and "encodes (Plain ''06'' (lower_hex v)) (Prim 0 6 v)"
  using assms by (simp_all add: encodes_def tag_digits tlv_hex_der der_bytes_def del: lower_hex_simps flip: numeral_2_eq_2)

lemma encodes_null: "encodes DERNull (Prim 0 5 [])"
  by (simp add: encodes_def DERNull_def der_bytes_def tlv_def der_length_def hx_def)

lemma encodes_sequence:
  assumes "list_all2 encodes os ds" and "length (concat (map der_bytes ds)) < 2 ^ 48"
  shows "encodes (DERSequence os) (Constr 0 16 ds)"
proof -
  have "parts_hex os = Inr (lower_hex (concat (map der_bytes ds)))"
    using assms(1) by (induction rule: list_all2_induct) (auto simp: encodes_def)
  then show ?thesis using assms(2)
    by (simp add: encodes_def tag_digits tlv_hex_der der_bytes_def[of "Constr 0 16 ds"] der_content_bytes del: lower_hex_simps der_content.simps)
qed

lemma encodes_bits:
  assumes "getEncodedHex ob = Inr t" and "encodes ob d" and "length (der_bytes d) + 1 < 2 ^ 48"
  shows "encodes (DERBitString_hex (''00'' @ t)) (Bits [d])"
proof -
  have "''00'' @ t = lower_hex (0 # der_bytes d)" using assms(1,2) by (simp add: encodes_def hx_char)
  then show ?thesis using assms(3)
    by (simp add: encodes_def DERBitString_hex_def tag_digits tlv_hex_der der_bytes_def[of "Bits [d]"] der_content_bytes
        del: lower_hex_simps der_content.simps append.simps)
qed

section \<open>A key that is written and read\<close>

lemma der_length_small: "l < 2 ^ 48 \<Longrightarrow> length (der_length l) \<le> 7 \<and> is_bytes (der_length l)"
proof -
  assume "l < 2 ^ 48"
  then have "length (big_endian l) \<le> 6" using big_endian_length[of l 6] by simp
  then show ?thesis using big_endian_bytes[of l] by (auto simp: der_length_def)
qed

lemma der_bytes_small:
  assumes "length (der_content d) < 2 ^ 48"
  shows "length (der_bytes d) \<le> length (der_content d) + 8" and "der_tag d < 256 \<Longrightarrow> is_bytes (der_content d) \<Longrightarrow> is_bytes (der_bytes d)"
  using der_length_small[OF assms] by (simp_all add: der_bytes_split)

text \<open>The content of an integer that is short enough; the limit of \<open>2\<^sup>4\<^sup>0\<close> digits is far above the memory of a browser.\<close>

definition key_limit :: nat where
  "key_limit = 2 ^ 42"

definition short_number :: "nat \<Rightarrow> bool" where
  "short_number n \<longleftrightarrow> n < 256 ^ key_limit"

definition int_der :: "nat \<Rightarrow> der" where
  "int_der n = Prim 0 2 (int_bytes n)"

lemma int_der_facts:
  assumes "short_number n"
  shows "wf_der (int_der n)" "\<not> eoc_der (int_der n)" "length (der_bytes (int_der n)) \<le> key_limit + 9" "is_bytes (der_bytes (int_der n))"
    "encodes (Plain ''02'' (lower_hex (int_bytes n))) (int_der n)"
proof -
  have l: "length (int_bytes n) \<le> key_limit + 1" using int_bytes_props(3)[of n key_limit] assms by (simp add: short_number_def)
  have k: "key_limit + 1 < 2 ^ 48" by (simp add: key_limit_def)
  have c: "der_content (int_der n) = int_bytes n" "der_tag (int_der n) = 2" by (simp_all add: int_der_def)
  show "wf_der (int_der n)" "\<not> eoc_der (int_der n)" using l k by (simp_all add: int_der_def)
  show "length (der_bytes (int_der n)) \<le> key_limit + 9" "is_bytes (der_bytes (int_der n))"
    using der_bytes_small[of "int_der n"] l k int_bytes_props(1)[of n] by (simp_all add: c)
  show "encodes (Plain ''02'' (lower_hex (int_bytes n))) (int_der n)" unfolding int_der_def using l k by (intro encodes_plain) simp
qed

definition short_key :: "bigint \<Rightarrow> bool" where
  "short_key x \<longleftrightarrow> natural x \<and> length (limbs x) < 2 ^ 40"

definition num :: "bigint \<Rightarrow> nat" where
  "num x = nat (bval (limbs x))"

lemma short_key_number: "short_key x \<Longrightarrow> short_number (num x) \<and> int (num x) = bval (limbs x)"
proof -
  assume s: "short_key x"
  then have r: "0 \<le> bval (limbs x)" "bval (limbs x) < 2 ^ (28 * length (limbs x))" using bval_range[of "limbs x"] by (auto simp: short_key_def natural_def)
  then have "int (num x) < int (2 ^ (28 * length (limbs x)))" by (simp add: num_def)
  then have "num x < 2 ^ (28 * length (limbs x))" by (simp only: of_nat_less_iff)
  also have "\<dots> \<le> 2 ^ (8 * key_limit)" using s by (intro power_increasing) (auto simp: short_key_def key_limit_def)
  also have "\<dots> = (256 :: nat) ^ key_limit" by (simp add: power_mult)
  finally show ?thesis using r by (simp add: short_number_def num_def)
qed

lemma small_number: "e < 2 ^ 53 \<Longrightarrow> short_number e"
proof -
  assume "e < 2 ^ 53"
  also have "(2 :: nat) ^ 53 \<le> 256 ^ 7" by simp
  also have "\<dots> \<le> 256 ^ key_limit" by (intro power_increasing) (auto simp: key_limit_def)
  finally show ?thesis by (simp add: short_number_def)
qed

lemma DERInteger_objects:
  "short_key x \<Longrightarrow> DERInteger_bigint (Some x) = Inr (Plain ''02'' (lower_hex (int_bytes (num x))))"
  "DERInteger_int (Some e) = Plain ''02'' (lower_hex (int_bytes e))"
  using minimal_hex[of x] minimal_hex[OF fromRadix10_value(1), of e] fromRadix10_value(2)[of e]
  by (simp_all add: DERInteger_bigint_def DERInteger_int_def number_text_def short_key_def num_def)

definition oid_bytes :: "nat list" where
  "oid_bytes = [42, 134, 72, 134, 247, 13, 1, 1, 1]"

lemma rsa_oid: "DERObjectIdentifier_oid ''1.2.840.113549.1.1.1'' = Inr (Plain ''06'' (lower_hex oid_bytes))"
  by code_simp

text \<open>The trees of the two kinds of keys.\<close>

definition algorithm_der :: der where
  "algorithm_der = Constr 0 16 [Prim 0 6 oid_bytes, Prim 0 5 []]"

definition numbers_der :: "nat list \<Rightarrow> der" where
  "numbers_der ns = Constr 0 16 (map int_der ns)"

definition public_der :: "nat \<Rightarrow> nat \<Rightarrow> der" where
  "public_der n e = Constr 0 16 [algorithm_der, Bits [numbers_der [n, e]]]"

lemma algorithm_der_facts:
  "wf_der algorithm_der" "der_bytes algorithm_der = [48, 13, 6, 9, 42, 134, 72, 134, 247, 13, 1, 1, 1, 5, 0]"
  "encodes (DERSequence [Plain ''06'' (lower_hex oid_bytes), DERNull]) algorithm_der"
proof -
  show "wf_der algorithm_der" "der_bytes algorithm_der = [48, 13, 6, 9, 42, 134, 72, 134, 247, 13, 1, 1, 1, 5, 0]"
    by (simp_all add: algorithm_der_def oid_bytes_def der_bytes_def tlv_def der_length_def)
  have "encodes (Plain ''06'' (lower_hex oid_bytes)) (Prim 0 6 oid_bytes)" by (rule encodes_plain) (simp add: oid_bytes_def)
  then show "encodes (DERSequence [Plain ''06'' (lower_hex oid_bytes), DERNull]) algorithm_der"
    unfolding algorithm_der_def by (intro encodes_sequence) (simp_all add: encodes_null oid_bytes_def der_bytes_def tlv_def der_length_def)
qed

lemma numbers_content: "der_content (numbers_der ns) = concat (map (\<lambda>n. der_bytes (int_der n)) ns)"
  by (simp add: numbers_der_def der_content_bytes comp_def del: der_content.simps)

lemma numbers_der_facts:
  assumes "list_all short_number ns" and "length ns \<le> 9"
  shows "wf_der (numbers_der ns)" "\<not> eoc_der (numbers_der ns)" "length (der_bytes (numbers_der ns)) \<le> 9 * (key_limit + 9) + 8"
    "is_bytes (der_bytes (numbers_der ns))"
    "encodes (DERSequence (map (\<lambda>n. Plain ''02'' (lower_hex (int_bytes n))) ns)) (numbers_der ns)"
proof -
  have f: "list_all (\<lambda>n. wf_der (int_der n) \<and> length (der_bytes (int_der n)) \<le> key_limit + 9 \<and> is_bytes (der_bytes (int_der n))) ns"
    using assms(1) int_der_facts by (simp add: list_all_iff)
  have "length (der_content (numbers_der ns)) \<le> length ns * (key_limit + 9)"
    unfolding numbers_content using f by (induction ns) auto
  also have "\<dots> \<le> 9 * (key_limit + 9)" using assms(2) by (intro mult_le_mono1)
  finally have l: "length (der_content (numbers_der ns)) \<le> 9 * (key_limit + 9)" .
  have k: "9 * (key_limit + 9) < 2 ^ 48" by (simp add: key_limit_def)
  have b: "is_bytes (der_content (numbers_der ns))" unfolding numbers_content using f by (induction ns) auto
  have t: "der_tag (numbers_der ns) = 48" by (simp add: numbers_der_def)
  show "wf_der (numbers_der ns)" using l k f unfolding numbers_der_def by (simp add: list_all_iff del: der_content.simps)
  show "\<not> eoc_der (numbers_der ns)" by (simp add: numbers_der_def)
  show "length (der_bytes (numbers_der ns)) \<le> 9 * (key_limit + 9) + 8" "is_bytes (der_bytes (numbers_der ns))"
    using der_bytes_small[of "numbers_der ns"] l k b t by simp_all
  have "list_all2 encodes (map (\<lambda>n. Plain ''02'' (lower_hex (int_bytes n))) ns) (map int_der ns)"
    using assms(1) int_der_facts(5) by (simp add: list_all_iff list_all2_conv_all_nth)
  then show "encodes (DERSequence (map (\<lambda>n. Plain ''02'' (lower_hex (int_bytes n))) ns)) (numbers_der ns)"
    unfolding numbers_der_def using l k numbers_content[of ns] by (intro encodes_sequence) (simp_all add: comp_def)
qed

lemma public_der_facts:
  assumes "short_number n" "short_number e"
  shows "wf_der (public_der n e)" "is_bytes (der_bytes (public_der n e))"
    "encodes (DERSequence [DERSequence [Plain ''06'' (lower_hex oid_bytes), DERNull],
       DERBitString_hex (''00'' @ lower_hex (der_bytes (numbers_der [n, e])))]) (public_der n e)"
proof -
  note nf = numbers_der_facts[of "[n, e]"]
  have nb: "length (der_bytes (numbers_der [n, e])) \<le> 9 * (key_limit + 9) + 8" "is_bytes (der_bytes (numbers_der [n, e]))"
    "wf_der (numbers_der [n, e])" "encodes (DERSequence [Plain ''02'' (lower_hex (int_bytes n)), Plain ''02'' (lower_hex (int_bytes e))]) (numbers_der [n, e])"
    using nf assms by simp_all
  have k: "9 * (key_limit + 9) + 100 < 2 ^ 48" by (simp add: key_limit_def)
  define bits where "bits = Bits [numbers_der [n, e]]"
  have bc: "der_content bits = 0 # der_bytes (numbers_der [n, e])" "der_tag bits = 3" by (simp_all add: bits_def der_content_bytes del: der_content.simps)
  have wb: "wf_der bits" using nb(1,3) k nf(2) assms by (simp add: bits_def der_content_bytes del: der_content.simps)
  have bl: "length (der_bytes bits) \<le> 9 * (key_limit + 9) + 17" "is_bytes (der_bytes bits)"
    using der_bytes_small[of bits] nb(1,2) k by (simp_all add: bc)
  have pc: "der_content (public_der n e) = der_bytes algorithm_der @ der_bytes bits" "der_tag (public_der n e) = 48"
    by (simp_all add: public_der_def der_content_bytes bits_def del: der_content.simps)
  have pl: "length (der_bytes algorithm_der @ der_bytes bits) < 2 ^ 48" using bl(1) k by (simp add: algorithm_der_facts(2))
  show "wf_der (public_der n e)" using wb algorithm_der_facts(1) pl pc(1) unfolding public_der_def bits_def by simp
  show "is_bytes (der_bytes (public_der n e))"
    using der_bytes_small(2)[of "public_der n e"] pl bl(2) by (simp add: pc algorithm_der_facts(2))
  have eb: "encodes (DERBitString_hex (''00'' @ lower_hex (der_bytes (numbers_der [n, e])))) bits"
    unfolding bits_def using nb(1,4) k by (intro encodes_bits[OF nb(4)[unfolded encodes_def] nb(4)]) simp
  then show "encodes (DERSequence [DERSequence [Plain ''06'' (lower_hex oid_bytes), DERNull],
       DERBitString_hex (''00'' @ lower_hex (der_bytes (numbers_der [n, e])))]) (public_der n e)"
    unfolding public_der_def bits_def[symmetric] using algorithm_der_facts(3) pl by (intro encodes_sequence) simp_all
qed

lemma armoured_key:
  assumes "is_bytes bs" and "bs \<noteq> []" and "label \<noteq> []" and "CHR ''-'' \<notin> set label"
  obtains p where "armour label (hex2b64 (lower_hex bs)) = Some p" and "\<not> hex_test p" and "unarmor p = Inr bs"
proof -
  have "lower_hex bs \<noteq> []" using assms(2) by (cases bs) auto
  then obtain p where p: "armour label (hex2b64 (lower_hex bs)) = Some p" "prefix ''-----BEGIN '' p" "unarmor p = Inr bs"
    using armour_decodes[OF lower_hex_text[OF assms(1)] _ _ assms(3,4)] hex_decode_lower_hex[OF assms(1)] by auto
  obtain r where "p = CHR ''-'' # CHR ''-'' # r" using p(2) by (auto simp: prefix_def)
  then have "\<not> hex_test p" by (simp add: hex_test_def js_space_def hexval_def)
  then show thesis using that p by blast
qed

lemma parseKey_tree:
  assumes "unarmor p = Inr (der_bytes d)" and "\<not> hex_test p" and "wf_der d" and "sub (element_of 0 d) = Some ds" and "length ds \<noteq> 3"
  shows "parseKey p k = read_key (der_bytes d) (element_of 0 d) k"
  using assms decode_at[OF assms(3), of "[]" "[]"] by (simp add: parseKey_def asn1_decode_def)

text \<open>The two fields, or all eight, from the bytes of the numbers.\<close>

lemma read_numbers:
  assumes "enc = pre @ der_content (numbers_der ns) @ post" and "length fs \<le> length ns"
  shows "read_fields enc fs (elements_of (length pre) (map int_der ns)) k = (True, fold (\<lambda>(f, t). f t) (zip fs (map (\<lambda>n. upper_hex (int_bytes n)) ns)) k)"
proof (rule read_fields_texts)
  have "enc = pre @ concat (map der_bytes (map int_der ns)) @ post" using assms(1) by (simp add: numbers_content comp_def)
  then show "map (getHexStringValue enc) (elements_of (length pre) (map int_der ns)) = map Inr (map (\<lambda>n. upper_hex (int_bytes n)) ns)"
    by (simp add: elements_hex comp_def int_der_def)
qed (use assms(2) in simp)

lemma field_values:
  "short_key x \<Longrightarrow> parseBigInt (upper_hex (int_bytes (num x))) = x" "parseInt16 (upper_hex (int_bytes e)) = Some e"
  using parseBigInt_bytes[of x "int_bytes (num x)"] short_key_number[of x] int_bytes_props[of "num x"] int_bytes_props[of e]
  by (auto simp: be_value_int_bytes short_key_def parseInt16_bytes)

lemma read_public_der:
  "read_key (der_bytes (public_der (num n) e)) (element_of 0 (public_der (num n) e)) k = (True, k\<lparr>rsa_n := Some n, rsa_e := Some e\<rparr>)"
  if "short_key n"
proof -
  define s where "s = numbers_der [num n, e]"
  define hp where "hp = der_tag (public_der (num n) e) # der_length (length (der_content (public_der (num n) e)))"
  define hb where "hb = der_tag (Bits [s]) # der_length (length (der_content (Bits [s])))"
  define hs where "hs = der_tag s # der_length (length (der_content s))"
  define pre where "pre = hp @ der_bytes algorithm_der @ hb @ [0] @ hs"
  have "der_bytes (public_der (num n) e) = hp @ der_content (public_der (num n) e)" "der_bytes (Bits [s]) = hb @ [0] @ der_bytes s" "der_bytes s = hs @ der_content s"
    by (simp_all add: der_bytes_split hp_def hb_def hs_def der_content_bytes del: der_content.simps)
  then have enc: "der_bytes (public_der (num n) e) = pre @ der_content s @ []"
    by (simp add: pre_def public_der_def der_content_bytes flip: s_def del: der_content.simps)
  have hd: "head_size (public_der (num n) e) = length hp" "head_size (Bits [s]) = length hb" "head_size s = length hs"
    by (simp_all add: head_size_def hp_def hb_def hs_def)
  have sub0: "sub (element_of 0 (public_der (num n) e)) =
      Some [element_of (length hp) algorithm_der, element_of (length hp + length (der_bytes algorithm_der)) (Bits [s])]"
    using hd(1) by (simp add: public_der_def s_def)
  have sub1: "sub_at (element_of (length hp + length (der_bytes algorithm_der)) (Bits [s])) 0 =
      Some (element_of (length (hp @ der_bytes algorithm_der @ hb @ [0])) s)"
    using hd(2) by (simp add: sub_at_def add.assoc)
  have sub2: "sub (element_of (length (hp @ der_bytes algorithm_der @ hb @ [0])) s) = Some (elements_of (length pre) (map int_der [num n, e]))"
    using hd(3) by (simp add: s_def numbers_der_def pre_def add.assoc)
  have "sub (element_of (length hp) algorithm_der) \<noteq> None" by (simp add: algorithm_der_def)
  then have "read_key (der_bytes (public_der (num n) e)) (element_of 0 (public_der (num n) e)) k =
      read_fields (der_bytes (public_der (num n) e)) public_fields (elements_of (length pre) (map int_der [num n, e])) k"
    unfolding read_key_def sub0 using sub1 sub2 by (simp del: elements_of.simps element_of.simps append.simps list.map append_assoc length_append)
  also have "\<dots> = (True, fold (\<lambda>(f, t). f t) (zip public_fields (map (\<lambda>n. upper_hex (int_bytes n)) [num n, e])) k)"
    using enc unfolding s_def by (rule read_numbers) (simp add: public_fields_def)
  also have "\<dots> = (True, k\<lparr>rsa_n := Some n, rsa_e := Some e\<rparr>)" using that by (simp add: public_fields_def field_values)
  finally show ?thesis .
qed

text \<open>C16: a public key that is written, as the definite-length encoding of its numbers, in Base64, wrapped and armoured, and
  then read is the same key, digit by digit, and the fields of a private key that the reading key had before are kept.\<close>

theorem public_key_round_trip:
  assumes "rsa_n k0 = Some n" and "short_key n" and "rsa_e k0 = Some e" and "e < 2 ^ 53"
  shows "\<exists>h p. getPublicBaseKey k0 = Inr h \<and> getPublicKey (hex2b64 h) = Some p \<and>
    parseKey p k = (True, k\<lparr>rsa_n := Some n, rsa_e := Some e\<rparr>)"
proof -
  define d where "d = public_der (num n) e"
  have sh: "short_number (num n)" "short_number e" using short_key_number[OF assms(2)] small_number[OF assms(4)] by auto
  note pf = public_der_facts[OF sh, folded d_def]
  have "encodes (DERSequence [Plain ''02'' (lower_hex (int_bytes (num n))), Plain ''02'' (lower_hex (int_bytes e))]) (numbers_der [num n, e])"
    using numbers_der_facts(5)[of "[num n, e]"] sh by simp
  then have h: "getPublicBaseKey k0 = Inr (lower_hex (der_bytes d))"
    using pf(3) by (simp add: getPublicBaseKey_def rsa_oid assms DERInteger_objects encodes_def del: getEncodedHex.simps)
  have "der_bytes d \<noteq> []" by (simp add: der_bytes_split)
  then obtain p where p: "armour ''PUBLIC KEY'' (hex2b64 (lower_hex (der_bytes d))) = Some p" "\<not> hex_test p" "unarmor p = Inr (der_bytes d)"
    using armoured_key[OF pf(2), of "''PUBLIC KEY''"] by auto
  have "sub (element_of 0 d) = Some (elements_of (0 + head_size d) [algorithm_der, Bits [numbers_der [num n, e]]])"
    unfolding d_def public_der_def by (simp only: element_of.simps asn1.sel)
  then have "parseKey p k = read_key (der_bytes d) (element_of 0 d) k"
    by (rule parseKey_tree[OF p(3,2) pf(1)]) (simp del: elements_of.simps)
  then show ?thesis using h p(1) read_public_der[OF assms(2)] by (auto simp: getPublicKey_def d_def)
qed

theorem public_key_round_trip_witness:
  "\<exists>h p. getPublicBaseKey (new_rsa_key\<lparr>rsa_n := Some \<lparr>limbs = [187], bsign = 0\<rparr>, rsa_e := Some 65537\<rparr>) = Inr h \<and>
    getPublicKey (hex2b64 h) = Some p \<and>
    parseKey p new_rsa_key = (True, new_rsa_key\<lparr>rsa_n := Some \<lparr>limbs = [187], bsign = 0\<rparr>, rsa_e := Some 65537\<rparr>)"
  by (rule public_key_round_trip) (simp_all add: short_key_def natural_def)

text \<open>a private key that is written and then read is the same key in all of its fields.\<close>

theorem private_key_round_trip:
  assumes "rsa_n k0 = Some n" "rsa_e k0 = Some e" "rsa_d k0 = Some d" "rsa_p k0 = Some p" "rsa_q k0 = Some q"
    "rsa_dmp1 k0 = Some dp" "rsa_dmq1 k0 = Some dq" "rsa_coeff k0 = Some c" and "list_all short_key [n, d, p, q, dp, dq, c]" and "e < 2 ^ 53"
  shows "\<exists>h t. getPrivateBaseKey k0 = Inr h \<and> getPrivateKey (hex2b64 h) = Some t \<and> parseKey t k = (True, k0)"
proof -
  define ns where "ns = [0, num n, e, num d, num p, num q, num dp, num dq, num c]"
  have k: "short_key n" "short_key d" "short_key p" "short_key q" "short_key dp" "short_key dq" "short_key c" using assms(9) by simp_all
  have sh: "list_all short_number ns"
    using k[THEN short_key_number] small_number[OF assms(10)] small_number[of 0] by (simp add: ns_def)
  note nf = numbers_der_facts[OF sh]
  have "getPrivateBaseKey k0 = getEncodedHex (DERSequence (map (\<lambda>n. Plain ''02'' (lower_hex (int_bytes n))) ns))"
    using assms(1-8) k by (simp add: getPrivateBaseKey_def DERInteger_objects ns_def del: getEncodedHex.simps)
  then have h: "getPrivateBaseKey k0 = Inr (lower_hex (der_bytes (numbers_der ns)))" using nf(5) by (simp add: encodes_def ns_def)
  have "der_bytes (numbers_der ns) \<noteq> []" by (simp add: der_bytes_split)
  then obtain t where t: "armour ''RSA PRIVATE KEY'' (hex2b64 (lower_hex (der_bytes (numbers_der ns)))) = Some t" "\<not> hex_test t"
    "unarmor t = Inr (der_bytes (numbers_der ns))"
    using armoured_key[OF nf(4), of "''RSA PRIVATE KEY''"] by (auto simp: ns_def)
  have sub: "sub (element_of 0 (numbers_der ns)) = Some (elements_of (head_size (numbers_der ns)) (map int_der ns))"
    by (simp add: numbers_der_def)
  have "parseKey t k = read_key (der_bytes (numbers_der ns)) (element_of 0 (numbers_der ns)) k"
    by (rule parseKey_tree[OF t(3,2) _ sub]) (use nf(1) in \<open>simp_all add: ns_def del: elements_of.simps\<close>)
  also have "\<dots> = read_fields (der_bytes (numbers_der ns)) private_fields (drop 1 (elements_of (head_size (numbers_der ns)) (map int_der ns))) k"
    unfolding read_key_def sub by (simp add: ns_def del: elements_of.simps drop_Suc_Cons)
  also have "\<dots> = (True, k0)"
  proof -
    define ms where "ms = [num n, e, num d, num p, num q, num dp, num dq, num c]"
    define hs where "hs = der_tag (numbers_der ns) # der_length (length (der_content (numbers_der ns)))"
    have ns: "ns = 0 # ms" by (simp add: ns_def ms_def)
    have enc: "der_bytes (numbers_der ns) = (hs @ der_bytes (int_der 0)) @ der_content (numbers_der ms) @ []"
      unfolding der_bytes_split[of "numbers_der ns"] hs_def[symmetric] by (simp add: hs_def numbers_content ns)
    have "drop 1 (elements_of (head_size (numbers_der ns)) (map int_der ns)) = elements_of (length (hs @ der_bytes (int_der 0))) (map int_der ms)"
      unfolding ns by (simp add: head_size_def hs_def ns)
    then show ?thesis using read_numbers[OF enc, of private_fields k] assms(1-8) k
      by (simp add: private_fields_def public_fields_def ms_def field_values del: elements_of.simps)
  qed
  finally show ?thesis using h t(1) by (auto simp: getPrivateKey_def)
qed

theorem private_key_round_trip_witness:
  "\<exists>h t. getPrivateBaseKey \<lparr>rsa_n = Some \<lparr>limbs = [3233], bsign = 0\<rparr>, rsa_e = Some 17, rsa_d = Some \<lparr>limbs = [2753], bsign = 0\<rparr>,
       rsa_p = Some \<lparr>limbs = [61], bsign = 0\<rparr>, rsa_q = Some \<lparr>limbs = [53], bsign = 0\<rparr>, rsa_dmp1 = Some \<lparr>limbs = [53], bsign = 0\<rparr>,
       rsa_dmq1 = Some \<lparr>limbs = [49], bsign = 0\<rparr>, rsa_coeff = Some \<lparr>limbs = [38], bsign = 0\<rparr>\<rparr> = Inr h \<and>
     getPrivateKey (hex2b64 h) = Some t \<and> fst (parseKey t new_rsa_key) \<and> rsa_q (snd (parseKey t new_rsa_key)) = Some \<lparr>limbs = [53], bsign = 0\<rparr>"
  using private_key_round_trip[of "\<lparr>rsa_n = Some \<lparr>limbs = [3233], bsign = 0\<rparr>, rsa_e = Some 17, rsa_d = Some \<lparr>limbs = [2753], bsign = 0\<rparr>,
       rsa_p = Some \<lparr>limbs = [61], bsign = 0\<rparr>, rsa_q = Some \<lparr>limbs = [53], bsign = 0\<rparr>, rsa_dmp1 = Some \<lparr>limbs = [53], bsign = 0\<rparr>,
       rsa_dmq1 = Some \<lparr>limbs = [49], bsign = 0\<rparr>, rsa_coeff = Some \<lparr>limbs = [38], bsign = 0\<rparr>\<rparr>"
    "\<lparr>limbs = [3233], bsign = 0\<rparr>" 17 "\<lparr>limbs = [2753], bsign = 0\<rparr>" "\<lparr>limbs = [61], bsign = 0\<rparr>" "\<lparr>limbs = [53], bsign = 0\<rparr>"
    "\<lparr>limbs = [53], bsign = 0\<rparr>" "\<lparr>limbs = [49], bsign = 0\<rparr>" "\<lparr>limbs = [38], bsign = 0\<rparr>" new_rsa_key]
  by (force simp: short_key_def natural_def)

end
