(* ===== verification/Data_View.thy ===== *)
theory Data_View
  imports Js_Library Complex_Main
begin

text \<open>
  The data view of the charts (\<open>home-296339b0.js\<close>, the charts library of the bundle): the
  text in which a chart shows its numbers for editing, and the reader that turns the edited
  text back into an option of the chart.  Series over the same category axis are shown as one
  table with tabs between the cells, every other series as a list of its own; the blocks are
  separated by lines of 59 dashes.

  The numbers are a parameter: \<open>shw\<close> is the text of a number of the chart, \<open>num\<close> is the unary plus of the
  language on a text, None for \<open>NaN\<close>.  The locale \<open>number_text\<close> says what the round trip needs
  of them.  It is interpreted on charts of integers with their decimal texts, and on the whole grammar of numbers
  of the language for the reader (\<open>to_number\<close>).
\<close>

section \<open>Data\<close>

record axis =
  axis_type :: string
  axis_dim :: string
  axis_index :: nat
  axis_categories :: "string list"

text \<open>A series of a chart: its coordinate system, if any, with its base axis, the items of its
  raw data (the name of an item and its value in each dimension) and the dimension that the
  value axis shows.\<close>

record 'n series =
  series_name :: string
  coordinateSystem :: "(string \<times> axis) option"
  value_dim :: nat
  items :: "(string \<times> 'n list) list"

record 'n group =
  categoryAxis :: axis
  group_series :: "'n series list"

record meta =
  meta_dim :: string
  meta_index :: nat

text \<open>What the reader makes of a block: cells of a table stay texts, the lines of a list become
  numbers; a list of one number is that number.  A hole of an array is None.\<close>

datatype 'n reading = One "'n option" | Many "'n option list"
datatype 'n entry = Cell string | Value "'n reading" | Named string "'n reading"

record 'n parsed =
  parsed_name :: string
  parsed_data :: "'n entry option list"

record 'n newOption =
  axes :: "(string \<times> string list option list) list"
  new_series :: "'n parsed list"

datatype view_error = TypeError

section \<open>From the chart to the text\<close>

definition block_line :: string where
  "block_line = replicate 59 (CHR ''-'')"

abbreviation tab :: char where "tab \<equiv> CHR 0x09"
abbreviation newline :: char where "newline \<equiv> CHR 0x0A"

definition block_sep :: string where
  "block_sep = [newline, newline] @ block_line @ [newline, newline]"

definition nth_opt :: "nat \<Rightarrow> 'a list \<Rightarrow> 'a option" where
  "nth_opt i xs = (if i < length xs then Some (xs ! i) else None)"

text \<open>The key under which a series is grouped, and the grouping itself: groups in the order of
  their first series, the description of their axes beside them, the other series apart.\<close>

definition group_key :: "axis \<Rightarrow> string" where
  "group_key a = axis_dim a @ ''_'' @ string_of_nat (axis_index a)"

definition category_axis :: "'n series \<Rightarrow> axis option" where
  "category_axis s = (case coordinateSystem s of
     Some (t, a) \<Rightarrow> if (t = ''cartesian2d'' \<or> t = ''polar'') \<and> axis_type a = ''category'' then Some a else None
   | None \<Rightarrow> None)"

fun add_group :: "axis \<Rightarrow> 'n series \<Rightarrow> (string \<times> 'n group) list \<Rightarrow> (string \<times> 'n group) list" where
  "add_group a s [] = [(group_key a, \<lparr>categoryAxis = a, group_series = [s]\<rparr>)]"
| "add_group a s ((k, g) # gs) =
     (if k = group_key a then (k, g\<lparr>group_series := group_series g @ [s]\<rparr>) # gs else (k, g) # add_group a s gs)"

definition group_step :: "'n series \<Rightarrow> (string \<times> 'n group) list \<times> 'n series list \<times> meta list \<Rightarrow>
    (string \<times> 'n group) list \<times> 'n series list \<times> meta list" where
  "group_step s = (\<lambda>(e, t, a). case category_axis s of
     None \<Rightarrow> (e, t @ [s], a)
   | Some x \<Rightarrow> (add_group x s e, t,
       if group_key x \<in> fst ` set e then a else a @ [\<lparr>meta_dim = axis_dim x, meta_index = axis_index x\<rparr>]))"

definition groupSeries :: "'n series list \<Rightarrow> (string \<times> 'n group) list \<times> 'n series list \<times> meta list" where
  "groupSeries ss = fold group_step ss ([], [], [])"

text \<open>\<open>xs.join(sep)\<close> prints nothing for a missing element.\<close>

definition join_opt :: "char \<Rightarrow> string option list \<Rightarrow> string" where
  "join_opt c xs = js_join [c] (map (\<lambda>x. case x of Some s \<Rightarrow> s | None \<Rightarrow> []) xs)"

definition series_values :: "'n series \<Rightarrow> 'n option list" where
  "series_values s = map (\<lambda>(_, vs). nth_opt (value_dim s) vs) (items s)"

definition table_rows :: "('n \<Rightarrow> string) \<Rightarrow> 'n group \<Rightarrow> string option list list" where
  "table_rows shw g = map (\<lambda>f. Some (axis_categories (categoryAxis g) ! f) #
       map (\<lambda>s. map_option shw (Option.bind (nth_opt f (series_values s)) id)) (group_series g))
     [0..<length (axis_categories (categoryAxis g))]"

definition table_block :: "('n \<Rightarrow> string) \<Rightarrow> 'n group \<Rightarrow> string" where
  "table_block shw g = js_join [newline]
     (js_join [tab] ('' '' # map series_name (group_series g)) # map (join_opt tab) (table_rows shw g))"

definition assembleCategory :: "('n \<Rightarrow> string) \<Rightarrow> (string \<times> 'n group) list \<Rightarrow> string" where
  "assembleCategory shw gs = js_join block_sep (map (\<lambda>(_, g). table_block shw g) gs)"

definition list_line :: "('n \<Rightarrow> string) \<Rightarrow> string \<times> 'n list \<Rightarrow> string" where
  "list_line shw = (\<lambda>(s, n). (if s \<noteq> [] then s @ [tab] else []) @ js_join [tab] (map shw n))"

definition list_block :: "('n \<Rightarrow> string) \<Rightarrow> 'n series \<Rightarrow> string" where
  "list_block shw s = js_join [newline] (series_name s # map (list_line shw) (items s))"

definition assembleOther :: "('n \<Rightarrow> string) \<Rightarrow> 'n series list \<Rightarrow> string" where
  "assembleOther shw ss = js_join block_sep (map (list_block shw) ss)"

definition getContent :: "('n \<Rightarrow> string) \<Rightarrow> 'n series list \<Rightarrow> string \<times> meta list" where
  "getContent shw ss = (case groupSeries ss of (e, t, a) \<Rightarrow>
     (js_join block_sep (filter (\<lambda>x. filter (\<lambda>c. \<not> js_space c) x \<noteq> []) [assembleCategory shw e, assembleOther shw t]), a))"

section \<open>From the text to an option\<close>

text \<open>\<open>s.split(/c+/)\<close>: the pieces between runs of a character.\<close>

function split_runs :: "char \<Rightarrow> string \<Rightarrow> string list" where
  "split_runs c [] = [[]]"
| "split_runs c (x # xs) = (if x = c then [] # split_runs c (dropWhile (\<lambda>y. y = c) xs)
     else case split_runs c xs of [] \<Rightarrow> [[x]] | p # ps \<Rightarrow> (x # p) # ps)"
  by pat_completeness auto
termination by (relation "measure (\<lambda>(c, s). length s)") (auto simp: le_imp_less_Suc length_dropWhile_le)

text \<open>The separator of blocks at the front of a text: line breaks, the 59 dashes, line breaks.\<close>

definition sep_at :: "string \<Rightarrow> string option" where
  "sep_at s = (let r = dropWhile (\<lambda>c. c = newline) s in
     if prefix block_line r then Some (dropWhile (\<lambda>c. c = newline) (drop 59 r)) else None)"

lemma sep_at_shorter: "sep_at s = Some r \<Longrightarrow> length r < length s"
proof -
  assume "sep_at s = Some r"
  then have p: "prefix block_line (dropWhile (\<lambda>c. c = newline) s)"
    and r: "r = dropWhile (\<lambda>c. c = newline) (drop 59 (dropWhile (\<lambda>c. c = newline) s))"
    by (auto simp: sep_at_def Let_def split: if_splits)
  have "59 \<le> length (dropWhile (\<lambda>c. c = newline) s)" using prefix_length_le[OF p] by (simp add: block_line_def)
  moreover have "length r \<le> length (drop 59 (dropWhile (\<lambda>c. c = newline) s))" unfolding r by (rule length_dropWhile_le)
  moreover have "length (dropWhile (\<lambda>c. c = newline) s) \<le> length s" by (rule length_dropWhile_le)
  ultimately show ?thesis unfolding length_drop by arith
qed

function split_blocks :: "string \<Rightarrow> string list" where
  "split_blocks s = (case sep_at s of
     Some r \<Rightarrow> [] # split_blocks r
   | None \<Rightarrow> (case s of [] \<Rightarrow> [[]]
       | x # xs \<Rightarrow> (case split_blocks xs of [] \<Rightarrow> [[x]] | p # ps \<Rightarrow> (x # p) # ps)))"
  by pat_completeness auto
termination by (relation "measure length") (auto dest: sep_at_shorter)

declare split_blocks.simps [simp del]

definition isTSV :: "string \<Rightarrow> bool" where
  "isTSV r \<longleftrightarrow> tab \<in> set (case indexOf [newline] r of Some i \<Rightarrow> take i r | None \<Rightarrow> butlast r)"

text \<open>\<open>xs[i] = v\<close>: an assignment past the end leaves holes.\<close>

definition js_set :: "nat \<Rightarrow> 'a \<Rightarrow> 'a option list \<Rightarrow> 'a option list" where
  "js_set i v xs = (if i < length xs then xs[i := Some v] else xs @ replicate (i - length xs) None @ [Some v])"

fun put_cells :: "nat \<Rightarrow> string list \<Rightarrow> 'n parsed list \<Rightarrow> 'n parsed list" where
  "put_cells i (c # cs) (x # xs) = x\<lparr>parsed_data := js_set i (Cell c) (parsed_data x)\<rparr> # put_cells i cs xs"
| "put_cells i _ xs = xs"

fun parseRows :: "nat \<Rightarrow> string list \<Rightarrow> 'n parsed list \<Rightarrow> string list \<Rightarrow> 'n parsed list \<times> string list" where
  "parseRows i [] n a = (n, a)"
| "parseRows i (l # ls) n a = (let o' = split_runs tab (js_trim l) in parseRows (Suc i) ls (put_cells i (tl o') n) (a @ [hd o']))"

definition parseTSV :: "string \<Rightarrow> 'n parsed list \<times> string list" where
  "parseTSV r = (let e = split_runs newline r; t = split_runs tab (js_trim (hd e)) in
     parseRows 0 (tl e) (map (\<lambda>l. \<lparr>parsed_name = l, parsed_data = []\<rparr>) t) [])"

definition unwrap :: "'n option list \<Rightarrow> 'n reading" where
  "unwrap l = (case l of [x] \<Rightarrow> One x | _ \<Rightarrow> Many l)"

definition parseLine :: "(string \<Rightarrow> 'n option) \<Rightarrow> string \<Rightarrow> 'n entry option" where
  "parseLine num l = (let i = js_trim l; o' = split_runs tab i in
     if i = [] then None
     else if num (hd o') = None then Some (Named (hd o') (unwrap (map num (tl o'))))
     else Some (Value (unwrap (map num o'))))"

fun parseLines :: "(string \<Rightarrow> 'n option) \<Rightarrow> nat \<Rightarrow> string list \<Rightarrow> 'n entry option list \<Rightarrow> 'n entry option list" where
  "parseLines num n [] a = a"
| "parseLines num n (l # ls) a = parseLines num (Suc n) ls (case parseLine num l of None \<Rightarrow> a | Some e \<Rightarrow> js_set n e a)"

definition parseList :: "(string \<Rightarrow> 'n option) \<Rightarrow> string \<Rightarrow> 'n parsed" where
  "parseList num r = (let e = split_runs newline r in
     \<lparr>parsed_name = js_trim (hd e), parsed_data = parseLines num 0 (tl e) []\<rparr>)"

definition alist_get :: "'k \<Rightarrow> ('k \<times> 'v list) list \<Rightarrow> 'v list" where
  "alist_get k xs = (case map_of xs k of Some v \<Rightarrow> v | None \<Rightarrow> [])"

fun alist_put :: "'k \<Rightarrow> 'v \<Rightarrow> ('k \<times> 'v) list \<Rightarrow> ('k \<times> 'v) list" where
  "alist_put k v [] = [(k, v)]"
| "alist_put k v ((l, w) # xs) = (if l = k then (l, v) # xs else (l, w) # alist_put k v xs)"

definition set_axis :: "meta \<Rightarrow> string list \<Rightarrow> (string \<times> string list option list) list \<Rightarrow> (string \<times> string list option list) list" where
  "set_axis m cs a = (let l = meta_dim m @ ''Axis'' in alist_put l (js_set (meta_index m) cs (alist_get l a)) a)"

text \<open>One block after the other; a table beyond the described axes reads a property of
  \<open>undefined\<close>.\<close>

fun parseBlocks :: "(string \<Rightarrow> 'n option) \<Rightarrow> meta list \<Rightarrow> nat \<Rightarrow> string list \<Rightarrow> 'n newOption \<Rightarrow> view_error + 'n newOption" where
  "parseBlocks num e i [] a = Inr a"
| "parseBlocks num e i (n # ns) a =
     (if isTSV n then
        (case nth_opt i e of
           None \<Rightarrow> Inl TypeError
         | Some s \<Rightarrow> (case parseTSV n of (srs, cats) \<Rightarrow>
             parseBlocks num e (Suc i) ns (a\<lparr>axes := set_axis s cats (axes a), new_series := new_series a @ srs\<rparr>)))
      else parseBlocks num e (Suc i) ns (a\<lparr>new_series := new_series a @ [parseList num n]\<rparr>))"

definition parseContents :: "(string \<Rightarrow> 'n option) \<Rightarrow> string \<Rightarrow> meta list \<Rightarrow> view_error + 'n newOption" where
  "parseContents num r e = parseBlocks num e 0 (split_blocks r) \<lparr>axes = [], new_series = []\<rparr>"

section \<open>Texts that survive the view\<close>

text \<open>A cell that the reader finds again: not empty, in one line and one column, not losing
  white space at its ends and not holding the separator.\<close>

definition cell_text :: "string \<Rightarrow> bool" where
  "cell_text s \<longleftrightarrow> s \<noteq> [] \<and> tab \<notin> set s \<and> newline \<notin> set s \<and> \<not> js_space (hd s) \<and> \<not> js_space (last s) \<and> \<not> sublist block_line s"

definition block_text :: "string \<Rightarrow> bool" where
  "block_text b \<longleftrightarrow> b \<noteq> [] \<and> hd b \<noteq> newline \<and> \<not> js_space (last b) \<and> \<not> sublist block_line b"

lemma js_space_facts [simp]: "js_space tab" "js_space newline" "js_space (CHR '' '')" "\<not> js_space (CHR ''-'')"
  by (simp_all add: js_space_def)

lemma js_join_facts:
  assumes "xs \<noteq> []" and "\<forall>x \<in> set xs. x \<noteq> []"
  shows "js_join sep xs \<noteq> []" "hd (js_join sep xs) = hd (hd xs)" "last (js_join sep xs) = last (last xs)"
    "set (js_join sep xs) \<subseteq> set sep \<union> \<Union> (set ` set xs)"
  using assms by (induction sep xs rule: js_join.induct) auto

lemma js_join_append: "xs \<noteq> [] \<Longrightarrow> ys \<noteq> [] \<Longrightarrow> js_join sep (xs @ ys) = js_join sep xs @ sep @ js_join sep ys"
  by (induction sep xs rule: js_join.induct) (auto simp: js_join_Cons)

lemma prefix_dashes_stop: "c \<noteq> CHR ''-'' \<Longrightarrow> prefix block_line (s @ c # t) \<longleftrightarrow> prefix block_line s"
proof
  assume c: "c \<noteq> CHR ''-''" and p: "prefix block_line (s @ c # t)"
  then have "prefix block_line s \<or> (\<exists>us. block_line = s @ c # us)"
    by (auto simp: prefix_append prefix_Cons block_line_def)
  moreover have "block_line \<noteq> s @ c # us" for us
  proof
    assume "block_line = s @ c # us"
    then have "c \<in> set block_line" by (metis in_set_conv_decomp)
    with c show False by (simp add: block_line_def)
  qed
  ultimately show "prefix block_line s" by blast
qed (auto simp: prefix_append)

lemma sublist_dashes:
  assumes "c \<noteq> CHR ''-''"
  shows "sublist block_line (s @ c # t) \<longleftrightarrow> sublist block_line s \<or> sublist block_line t"
proof (induction s)
  case Nil
  have "\<not> prefix block_line (c # t)" using assms by (auto simp: block_line_def replicate_Suc numeral_eq_Suc)
  then show ?case by (auto simp: sublist_Cons_right block_line_def)
next
  case (Cons x s)
  then show ?case using prefix_dashes_stop[OF assms, of "x # s" t] by (auto simp: sublist_Cons_right)
qed

lemma no_dashes [simp]: "\<not> sublist block_line []" "block_line \<noteq> []"
  by (simp_all add: block_line_def)

lemma sublist_join:
  assumes "c \<noteq> CHR ''-''" and "\<forall>x \<in> set xs. \<not> sublist block_line x"
  shows "\<not> sublist block_line (js_join [c] xs)"
  using assms by (induction "[c]" xs rule: js_join.induct) (auto simp: sublist_dashes no_dashes)

lemma split_runs_nonempty [simp]: "split_runs c s \<noteq> []"
  by (cases s) (auto split: list.splits)

lemma split_runs_none: "c \<notin> set s \<Longrightarrow> split_runs c s = [s]"
  by (induction s) auto

lemma split_runs_step:
  "c \<notin> set p \<Longrightarrow> s \<noteq> [] \<Longrightarrow> hd s \<noteq> c \<Longrightarrow> split_runs c (p @ c # s) = p # split_runs c s"
proof (induction p)
  case Nil
  then have "dropWhile (\<lambda>y. y = c) s = s" by (cases s) auto
  then show ?case by simp
qed auto

lemma split_runs_join:
  assumes "xs \<noteq> []" and "\<forall>x \<in> set xs. x \<noteq> [] \<and> c \<notin> set x"
  shows "split_runs c (js_join [c] xs) = xs"
  using assms
proof (induction "[c]" xs rule: js_join.induct)
  case (3 x y xs)
  have "js_join [c] (y # xs) \<noteq> [] \<and> hd (js_join [c] (y # xs)) = hd y" using js_join_facts(1,2)[of "y # xs" "[c]"] 3(3) by simp
  moreover have "hd y \<noteq> c" using 3(3) hd_in_set[of y] by auto
  ultimately show ?case using 3 by (simp add: split_runs_step)
qed (auto simp: split_runs_none)

section \<open>Lines and blocks\<close>

lemma cells_line:
  assumes "cs \<noteq> []" and "\<forall>c \<in> set cs. cell_text c"
  shows "js_join [tab] cs \<noteq> []" "newline \<notin> set (js_join [tab] cs)" "\<not> js_space (hd (js_join [tab] cs))"
    "\<not> js_space (last (js_join [tab] cs))" "\<not> sublist block_line (js_join [tab] cs)"
    "js_trim (js_join [tab] cs) = js_join [tab] cs" "split_runs tab (js_join [tab] cs) = cs"
proof -
  have ne: "\<forall>c \<in> set cs. c \<noteq> []" using assms(2) by (auto simp: cell_text_def)
  note f = js_join_facts[OF assms(1) ne, of "[tab]"]
  show "js_join [tab] cs \<noteq> []" by (rule f(1))
  show "newline \<notin> set (js_join [tab] cs)" using f(4) assms(2) by (auto simp: cell_text_def)
  show h: "\<not> js_space (hd (js_join [tab] cs))" unfolding f(2) using assms hd_in_set[of cs] by (auto simp: cell_text_def)
  show l: "\<not> js_space (last (js_join [tab] cs))" unfolding f(3) using assms last_in_set[of cs] by (auto simp: cell_text_def)
  show "\<not> sublist block_line (js_join [tab] cs)" by (rule sublist_join) (use assms(2) in \<open>auto simp: cell_text_def\<close>)
  show "js_trim (js_join [tab] cs) = js_join [tab] cs" by (rule js_trim_id) (use h l in simp)
  show "split_runs tab (js_join [tab] cs) = cs" by (rule split_runs_join) (use assms in \<open>auto simp: cell_text_def\<close>)
qed

lemma lines_block:
  assumes "ls \<noteq> []" and "\<forall>l \<in> set ls. l \<noteq> [] \<and> newline \<notin> set l \<and> \<not> js_space (last l) \<and> \<not> sublist block_line l"
  shows "block_text (js_join [newline] ls)" "split_runs newline (js_join [newline] ls) = ls"
proof -
  have ne: "\<forall>l \<in> set ls. l \<noteq> []" using assms(2) by auto
  note f = js_join_facts[OF assms(1) ne, of "[newline]"]
  have "hd ls \<noteq> []" "newline \<notin> set (hd ls)" using assms hd_in_set[OF assms(1)] by auto
  then have "hd (hd ls) \<noteq> newline" by (metis hd_in_set)
  moreover have "\<not> js_space (last (last ls))" using assms last_in_set[of ls] by auto
  moreover have "\<not> sublist block_line (js_join [newline] ls)" by (rule sublist_join) (use assms(2) in auto)
  ultimately show "block_text (js_join [newline] ls)" by (simp add: block_text_def f)
  show "split_runs newline (js_join [newline] ls) = ls" by (rule split_runs_join) (use assms in auto)
qed

lemma dropWhile_stays: "s \<noteq> [] \<Longrightarrow> \<not> P (last s) \<Longrightarrow> dropWhile P (s @ t) = dropWhile P s @ t"
  by (rule dropWhile_append1[of "last s"]) auto

lemma sep_at_inside:
  assumes "b \<noteq> []" and "\<not> js_space (last b)" and "\<not> sublist block_line b"
  shows "sep_at (b @ newline # r) = None" "sep_at b = None"
proof -
  have n: "last b \<noteq> newline" using assms(2) by auto
  have "\<not> prefix block_line (dropWhile (\<lambda>c. c = newline) b)"
    using assms(3) suffix_dropWhile[of "\<lambda>c. c = newline" b]
    by (meson prefix_imp_sublist suffix_imp_sublist sublist_order.order_trans)
  then show "sep_at b = None" "sep_at (b @ newline # r) = None"
    using dropWhile_stays[OF assms(1), of "\<lambda>c. c = newline" "newline # r"] n
    by (simp_all add: sep_at_def Let_def prefix_dashes_stop)
qed

lemma sep_at_sep:
  assumes "r \<noteq> []" and "hd r \<noteq> newline"
  shows "sep_at (block_sep @ r) = Some r"
proof -
  have r: "dropWhile (\<lambda>c. c = newline) r = r" using assms by (cases r) auto
  have b: "dropWhile (\<lambda>c. c = newline) (block_line @ t) = block_line @ t" for t by (simp add: block_line_def numeral_eq_Suc)
  show ?thesis using r b[of "newline # newline # r"] by (simp add: sep_at_def Let_def block_sep_def) (simp add: block_line_def)
qed

lemma split_blocks_sep:
  assumes "b = [] \<or> \<not> js_space (last b)" and "\<not> sublist block_line b" and "r \<noteq> []" and "hd r \<noteq> newline"
  shows "split_blocks (b @ block_sep @ r) = b # split_blocks r"
  using assms(1,2)
proof (induction b)
  case Nil
  then show ?case using sep_at_sep[OF assms(3,4)] by (subst split_blocks.simps) simp
next
  case (Cons x b)
  have "sep_at ((x # b) @ block_sep @ r) = None"
    using sep_at_inside(1)[of "x # b" "newline # block_line @ [newline, newline] @ r"] Cons.prems by (simp add: block_sep_def)
  moreover have "split_blocks (b @ block_sep @ r) = b # split_blocks r"
    using Cons by (auto simp: sublist_Cons_right split: if_splits)
  ultimately show ?case by (subst split_blocks.simps) simp
qed

lemma split_blocks_one:
  assumes "b = [] \<or> \<not> js_space (last b)" and "\<not> sublist block_line b"
  shows "split_blocks b = [b]"
  using assms
proof (induction b)
  case Nil
  then show ?case by (subst split_blocks.simps) (simp add: sep_at_def block_line_def)
next
  case (Cons x b)
  have "sep_at (x # b) = None" using sep_at_inside(2)[of "x # b"] Cons.prems by simp
  moreover have "split_blocks b = [b]" using Cons by (auto simp: sublist_Cons_right split: if_splits)
  ultimately show ?case by (subst split_blocks.simps) simp
qed

lemma split_blocks_join:
  assumes "bs \<noteq> []" and "\<forall>b \<in> set bs. block_text b"
  shows "split_blocks (js_join block_sep bs) = bs"
  using assms
proof (induction "block_sep" bs rule: js_join.induct)
  case (3 x y xs)
  have ne: "\<forall>b \<in> set (y # xs). b \<noteq> []" using 3(3) by (auto simp: block_text_def)
  have "js_join block_sep (y # xs) \<noteq> []" "hd (js_join block_sep (y # xs)) \<noteq> newline"
    using js_join_facts(1,2)[OF _ ne, of block_sep] 3(3) by (auto simp: block_text_def)
  then show ?case using 3 split_blocks_sep[of x "js_join block_sep (y # xs)"] by (simp add: block_text_def)
qed (auto simp: split_blocks_one block_text_def)

section \<open>Tables\<close>

lemma js_set_end: "length xs = i \<Longrightarrow> js_set i v xs = xs @ [Some v]"
  by (simp add: js_set_def)

lemma put_cells_end:
  assumes "length cs = length xs" and "\<forall>x \<in> set xs. length (parsed_data x) = i"
  shows "put_cells i cs xs = map2 (\<lambda>x c. x\<lparr>parsed_data := parsed_data x @ [Some (Cell c)]\<rparr>) xs cs"
  using assms by (induction cs xs rule: list_induct2) (auto simp: js_set_end)

text \<open>Reading the rows of a table adds to each series its column.\<close>

lemma parseRows_columns:
  assumes "\<forall>(k, cs) \<in> set rows. cell_text k \<and> length cs = length n \<and> (\<forall>c \<in> set cs. cell_text c)"
    and "\<forall>x \<in> set n. length (parsed_data x) = i"
  shows "parseRows i (map (\<lambda>(k, cs). js_join [tab] (k # cs)) rows) n a =
    (map2 (\<lambda>x j. x\<lparr>parsed_data := parsed_data x @ map (\<lambda>(k, cs). Some (Cell (cs ! j))) rows\<rparr>) n [0..<length n], a @ map fst rows)"
  using assms
proof (induction rows arbitrary: i n a)
  case Nil
  have "map2 (\<lambda>x j. x) n [0..<length n] = n" by (intro nth_equalityI) auto
  then show ?case by simp
next
  case (Cons r rows)
  obtain k cs where r: "r = (k, cs)" by force
  have c: "cell_text k" "length cs = length n" "\<forall>c \<in> set cs. cell_text c" using Cons.prems(1) r by auto
  let ?n = "map2 (\<lambda>x c. x\<lparr>parsed_data := parsed_data x @ [Some (Cell c)]\<rparr>) n cs"
  have l: "length ?n = length n" "\<forall>x \<in> set ?n. length (parsed_data x) = Suc i"
    using c(2) Cons.prems(2) by (auto dest: set_zip_leftD)
  have "split_runs tab (js_trim (js_join [tab] (k # cs))) = k # cs" using cells_line(6,7)[of "k # cs"] c by simp
  then show ?case
    using Cons.IH[of ?n "Suc i" "a @ [k]"] Cons.prems(1) l put_cells_end[OF c(2) Cons.prems(2)] c(2)
    by (auto simp: r Let_def intro!: nth_equalityI)
qed

definition column :: "('n \<Rightarrow> string) \<Rightarrow> 'n series \<Rightarrow> 'm parsed" where
  "column shw s = \<lparr>parsed_name = series_name s, parsed_data = map (\<lambda>v. Some (Cell (shw (the v)))) (series_values s)\<rparr>"

text \<open>A group that the reader finds again: its axis and its series have texts that survive, and
  every series has a value for every category.\<close>

definition table_ok :: "'n group \<Rightarrow> bool" where
  "table_ok g \<longleftrightarrow> (\<forall>c \<in> set (axis_categories (categoryAxis g)). cell_text c) \<and> group_series g \<noteq> [] \<and>
     (\<forall>s \<in> set (group_series g). cell_text (series_name s) \<and> length (items s) = length (axis_categories (categoryAxis g)) \<and>
        (\<forall>(_, vs) \<in> set (items s). value_dim s < length vs))"

definition list_ok :: "(string \<Rightarrow> 'm option) \<Rightarrow> 'n series \<Rightarrow> bool" where
  "list_ok num s \<longleftrightarrow> cell_text (series_name s) \<and>
     (\<forall>(n, vs) \<in> set (items s). vs \<noteq> [] \<and> (n \<noteq> [] \<longrightarrow> cell_text n \<and> num n = None))"

text \<open>\<open>emb\<close> is the number that the reader makes of a number of the chart.\<close>

definition list_entry :: "('n \<Rightarrow> 'm) \<Rightarrow> string \<times> 'n list \<Rightarrow> 'm entry option" where
  "list_entry emb = (\<lambda>(n, vs). Some (let ws = unwrap (map (\<lambda>v. Some (emb v)) vs) in if n = [] then Value ws else Named n ws))"

definition listing :: "('n \<Rightarrow> 'm) \<Rightarrow> 'n series \<Rightarrow> 'm parsed" where
  "listing emb s = \<lparr>parsed_name = series_name s, parsed_data = map (list_entry emb) (items s)\<rparr>"

lemma series_values_facts:
  assumes "table_ok g" and "s \<in> set (group_series g)"
  shows "length (series_values s) = length (axis_categories (categoryAxis g))" "None \<notin> set (series_values s)"
  using assms unfolding table_ok_def series_values_def by (fastforce simp: nth_opt_def)+

text \<open>What the client of the numbers needs: the text of a number is a cell and reads as the number.\<close>

locale number_text =
  fixes shw :: "'n \<Rightarrow> string" and num :: "string \<Rightarrow> 'm option" and emb :: "'n \<Rightarrow> 'm"
  assumes read_shown: "num (shw v) = Some (emb v)"
    and shown_cell: "cell_text (shw v)"
begin

definition table_data :: "'n group \<Rightarrow> (string \<times> string list) list" where
  "table_data g = map (\<lambda>f. (axis_categories (categoryAxis g) ! f, map (\<lambda>s. shw (the (series_values s ! f))) (group_series g)))
     [0..<length (axis_categories (categoryAxis g))]"

lemma table_data_lines:
  assumes "table_ok g"
  shows "map (join_opt tab) (table_rows shw g) = map (\<lambda>(k, cs). js_join [tab] (k # cs)) (table_data g)"
proof -
  have "(case map_option shw (Option.bind (nth_opt f (series_values s)) id) of Some t \<Rightarrow> t | None \<Rightarrow> []) = shw (the (series_values s ! f))"
    if "s \<in> set (group_series g)" "f < length (axis_categories (categoryAxis g))" for s f
  proof -
    have l: "f < length (series_values s)" using series_values_facts(1)[OF assms that(1)] that(2) by simp
    then have "series_values s ! f \<noteq> None" using series_values_facts(2)[OF assms that(1)] nth_mem by metis
    with l show ?thesis by (auto simp: nth_opt_def)
  qed
  then show ?thesis
    unfolding table_rows_def table_data_def join_opt_def map_map o_def prod.case list.map option.case
    by (intro map_cong refl arg_cong[of _ _ "js_join [tab]"] arg_cong2[of _ _ _ _ "(#)"]) auto
qed

lemma table_data_cells:
  assumes "table_ok g"
  shows "\<forall>(k, cs) \<in> set (table_data g). cell_text k \<and> length cs = length (group_series g) \<and> (\<forall>c \<in> set cs. cell_text c)"
  using assms by (auto simp: table_data_def table_ok_def shown_cell)

lemma table_columns:
  assumes "table_ok g"
  shows "map2 (\<lambda>s j. \<lparr>parsed_name = series_name s, parsed_data = map (\<lambda>(k, cs). Some (Cell (cs ! j))) (table_data g)\<rparr>)
      (group_series g) [0..<length (group_series g)] = map (column shw) (group_series g)"
proof (intro nth_equalityI)
  fix j assume "j < length (map2 (\<lambda>s j. \<lparr>parsed_name = series_name s, parsed_data = map (\<lambda>(k, cs). Some (Cell (cs ! j))) (table_data g)\<rparr>)
      (group_series g) [0..<length (group_series g)])"
  then have j: "j < length (group_series g)" by simp
  then have "length (series_values (group_series g ! j)) = length (axis_categories (categoryAxis g))"
    using series_values_facts(1)[OF assms] by simp
  then show "map2 (\<lambda>s j. \<lparr>parsed_name = series_name s, parsed_data = map (\<lambda>(k, cs). Some (Cell (cs ! j))) (table_data g)\<rparr>)
      (group_series g) [0..<length (group_series g)] ! j = map (column shw) (group_series g) ! j"
    using j by (auto simp: column_def table_data_def intro!: nth_equalityI)
qed simp

lemma table_block_facts:
  assumes "table_ok g"
  shows "block_text (table_block shw g)" "isTSV (table_block shw g)"
    "parseTSV (table_block shw g) = (map (column shw) (group_series g) :: 'm parsed list, axis_categories (categoryAxis g))"
proof -
  let ?names = "map series_name (group_series g)"
  have nm: "?names \<noteq> []" "\<forall>c \<in> set ?names. cell_text c" using assms by (auto simp: table_ok_def)
  let ?h = "js_join [tab] ('' '' # ?names)"
  have h: "?h = CHR '' '' # tab # js_join [tab] ?names" using nm(1) by (simp add: js_join_Cons)
  let ?rows = "map (\<lambda>(k, cs). js_join [tab] (k # cs)) (table_data g)"
  have b: "table_block shw g = js_join [newline] (?h # ?rows)" by (simp add: table_block_def table_data_lines[OF assms])
  have row: "l \<noteq> [] \<and> newline \<notin> set l \<and> \<not> js_space (last l) \<and> \<not> sublist block_line l" if "l \<in> set ?rows" for l
    using that table_data_cells[OF assms] cells_line[of "fst x # snd x" for x] by (force simp: case_prod_unfold)
  have sl: "\<not> sublist block_line ?h" unfolding h using cells_line(5)[OF nm] sublist_dashes[of tab "'' ''"] sublist_dashes[of "CHR '' ''" "[]" "[]"] by simp
  have hd: "?h \<noteq> [] \<and> newline \<notin> set ?h \<and> \<not> js_space (last ?h) \<and> \<not> sublist block_line ?h"
    using cells_line(1,2,4)[OF nm] sl by (simp add: h)
  show "block_text (table_block shw g)" unfolding b by (rule lines_block) (use row hd in auto)
  have sp: "split_runs newline (table_block shw g) = ?h # ?rows" unfolding b by (rule lines_block) (use row hd in auto)
  have "js_trim ?h = js_trim (js_join [tab] ?names)" unfolding h by (simp add: js_trim_def)
  then have tr: "split_runs tab (js_trim ?h) = ?names" using cells_line(6,7)[OF nm] by simp
  let ?n = "map (\<lambda>l. \<lparr>parsed_name = l, parsed_data = []\<rparr>) ?names :: 'm parsed list"
  have "parseRows 0 ?rows ?n [] = (map (column shw) (group_series g), map fst (table_data g))"
    using parseRows_columns[of "table_data g" ?n 0 "[]"] table_data_cells[OF assms] table_columns[OF assms]
    by (simp add: zip_map1 o_def case_prod_unfold)
  moreover have "map fst (table_data g) = axis_categories (categoryAxis g)" by (simp add: table_data_def o_def map_nth)
  ultimately show "parseTSV (table_block shw g) = (map (column shw) (group_series g) :: 'm parsed list, axis_categories (categoryAxis g))"
    by (simp add: parseTSV_def sp tr Let_def)
  show "isTSV (table_block shw g)"
  proof (cases ?rows)
    case Nil
    have "table_block shw g = ?h" "indexOf [newline] ?h = None" using b Nil hd by (simp_all add: indexOf_char_notin)
    then show ?thesis using cells_line(1)[OF nm] by (simp add: isTSV_def h)
  next
    case (Cons r rs)
    then have "table_block shw g = ?h @ newline # js_join [newline] ?rows" using b by simp
    then show ?thesis using hd by (simp add: isTSV_def indexOf_char) (simp add: h)
  qed
qed

lemma list_line_facts:
  assumes "vs \<noteq> []" and "n \<noteq> [] \<longrightarrow> cell_text n \<and> num n = None"
  shows "list_line shw (n, vs) \<noteq> []" "newline \<notin> set (list_line shw (n, vs))" "\<not> js_space (last (list_line shw (n, vs)))"
    "\<not> sublist block_line (list_line shw (n, vs))" "parseLine num (list_line shw (n, vs)) = list_entry emb (n, vs)"
proof -
  let ?cs = "(if n = [] then [] else [n]) @ map shw vs"
  have l: "list_line shw (n, vs) = js_join [tab] ?cs" using assms(1) by (simp add: list_line_def js_join_Cons)
  have cs: "?cs \<noteq> []" "\<forall>c \<in> set ?cs. cell_text c" using assms shown_cell by auto
  note f = cells_line[OF cs]
  show "list_line shw (n, vs) \<noteq> []" "newline \<notin> set (list_line shw (n, vs))" "\<not> js_space (last (list_line shw (n, vs)))"
    "\<not> sublist block_line (list_line shw (n, vs))" unfolding l by (rule f)+
  have "parseLine num (js_join [tab] ?cs) =
      (if num (hd ?cs) = None then Some (Named (hd ?cs) (unwrap (map num (tl ?cs)))) else Some (Value (unwrap (map num ?cs))))"
    unfolding parseLine_def Let_def f(6,7) using f(1) by simp
  moreover have "num (hd ?cs) = None \<longleftrightarrow> n \<noteq> []" using assms by (auto simp: hd_map read_shown)
  moreover have rd: "num \<circ> shw = (\<lambda>v. Some (emb v))" by (auto simp: read_shown)
  ultimately show "parseLine num (list_line shw (n, vs)) = list_entry emb (n, vs)"
    unfolding l by (cases "n = []") (simp_all add: list_entry_def rd Let_def)
qed

lemma parseLines_entries:
  assumes "\<forall>(n, vs) \<in> set xs. vs \<noteq> [] \<and> (n \<noteq> [] \<longrightarrow> cell_text n \<and> num n = None)" and "length a = i"
  shows "parseLines num i (map (list_line shw) xs) a = a @ map (list_entry emb) xs"
  using assms
proof (induction xs arbitrary: i a)
  case (Cons x xs)
  obtain n vs where x: "x = (n, vs)" by force
  then have "parseLine num (list_line shw x) = list_entry emb x" using Cons.prems(1) list_line_facts(5)[of vs n] by auto
  moreover obtain e where "list_entry emb x = Some e" by (simp add: list_entry_def x)
  ultimately show ?case using Cons.IH[of "a @ [Some e]" "Suc i"] Cons.prems by (simp add: js_set_end)
qed simp

lemma list_block_facts:
  assumes "list_ok num s"
  shows "block_text (list_block shw s)" "\<not> isTSV (list_block shw s)" "parseList num (list_block shw s) = listing emb s"
proof -
  let ?ls = "series_name s # map (list_line shw) (items s)"
  have nm: "cell_text (series_name s)" and it: "\<forall>(n, vs) \<in> set (items s). vs \<noteq> [] \<and> (n \<noteq> [] \<longrightarrow> cell_text n \<and> num n = None)"
    using assms by (auto simp: list_ok_def)
  have "\<forall>l \<in> set (map (list_line shw) (items s)). l \<noteq> [] \<and> newline \<notin> set l \<and> \<not> js_space (last l) \<and> \<not> sublist block_line l"
    using it list_line_facts(1-4) by auto
  then have ls: "\<forall>l \<in> set ?ls. l \<noteq> [] \<and> newline \<notin> set l \<and> \<not> js_space (last l) \<and> \<not> sublist block_line l"
    using nm by (simp add: cell_text_def)
  show "block_text (list_block shw s)" unfolding list_block_def by (rule lines_block[OF _ ls]) simp
  have sp: "split_runs newline (list_block shw s) = ?ls" unfolding list_block_def by (rule lines_block[OF _ ls]) simp
  have "js_trim (series_name s) = series_name s" using nm by (intro js_trim_id) (simp add: cell_text_def)
  then show "parseList num (list_block shw s) = listing emb s"
    using parseLines_entries[OF it, of "[]" 0] by (simp add: parseList_def sp Let_def listing_def)
  show "\<not> isTSV (list_block shw s)"
  proof (cases "items s")
    case Nil
    have "tab \<notin> set (butlast (series_name s))" using nm in_set_butlastD by (fastforce simp: cell_text_def)
    moreover have "indexOf [newline] (series_name s) = None" using nm by (intro indexOf_char_notin) (simp add: cell_text_def)
    ultimately show ?thesis by (simp add: isTSV_def list_block_def Nil)
  next
    case (Cons x xs)
    then have "list_block shw s = series_name s @ newline # js_join [newline] (map (list_line shw) (items s))"
      by (simp add: list_block_def)
    moreover have "newline \<notin> set (series_name s)" "tab \<notin> set (series_name s)" using nm by (auto simp: cell_text_def)
    ultimately show ?thesis by (simp add: isTSV_def indexOf_char)
  qed
qed

end

section \<open>The round trip of the view\<close>

definition meta_of :: "'n group \<Rightarrow> meta" where
  "meta_of g = \<lparr>meta_dim = axis_dim (categoryAxis g), meta_index = axis_index (categoryAxis g)\<rparr>"

text \<open>The option that a chart stands for: the categories of its axes, the columns of its tables
  with their texts, then its lists with their numbers.\<close>

definition chart_option :: "('n \<Rightarrow> string) \<Rightarrow> ('n \<Rightarrow> 'm) \<Rightarrow> 'n series list \<Rightarrow> 'm newOption" where
  "chart_option shw emb ss = (case groupSeries ss of (e, t, _) \<Rightarrow>
     \<lparr>axes = fold (\<lambda>(_, g). set_axis (meta_of g) (axis_categories (categoryAxis g))) e [],
      new_series = concat (map (\<lambda>(_, g). map (column shw) (group_series g)) e) @ map (listing emb) t\<rparr>)"

definition viewable :: "(string \<Rightarrow> 'm option) \<Rightarrow> 'n series list \<Rightarrow> bool" where
  "viewable num ss \<longleftrightarrow> (case groupSeries ss of (e, t, _) \<Rightarrow> (\<forall>(_, g) \<in> set e. table_ok g) \<and> (\<forall>s \<in> set t. list_ok num s))"

lemma add_group_meta:
  "map (meta_of \<circ> snd) (add_group x s e) =
    (if group_key x \<in> fst ` set e then map (meta_of \<circ> snd) e
     else map (meta_of \<circ> snd) e @ [\<lparr>meta_dim = axis_dim x, meta_index = axis_index x\<rparr>])"
  by (induction x s e rule: add_group.induct) (auto simp: meta_of_def)

lemma add_group_nonempty [simp]: "add_group x s e \<noteq> []"
  by (cases "(x, s, e)" rule: add_group.cases) auto

lemma group_step_facts:
  assumes "group_step s (e, t, a) = (e', t', a')" and "a = map (meta_of \<circ> snd) e"
  shows "a' = map (meta_of \<circ> snd) e'" "e' \<noteq> [] \<or> t' \<noteq> []"
  using assms add_group_meta[of "the (category_axis s)" s e]
  by (simp_all add: group_step_def split: option.splits if_splits) auto

lemma groupSeries_meta:
  assumes "groupSeries ss = (e, t, a)"
  shows "a = map (meta_of \<circ> snd) e" "ss \<noteq> [] \<Longrightarrow> e \<noteq> [] \<or> t \<noteq> []"
proof -
  have "fold group_step ss ([], [], []) = (e, t, a) \<Longrightarrow> a = map (meta_of \<circ> snd) e \<and> (ss \<noteq> [] \<longrightarrow> e \<noteq> [] \<or> t \<noteq> [])" for e t a
  proof (induction ss arbitrary: e t a rule: rev_induct)
    case (snoc s ss)
    obtain e0 t0 a0 where f: "fold group_step ss ([], [], []) = (e0, t0, a0)" by (metis prod_cases3)
    with snoc.prems have "group_step s (e0, t0, a0) = (e, t, a)" by simp
    from group_step_facts[OF this] snoc.IH[OF f] show ?case by simp
  qed simp
  from this[of e t a] assms show "a = map (meta_of \<circ> snd) e" "ss \<noteq> [] \<Longrightarrow> e \<noteq> [] \<or> t \<noteq> []"
    by (auto simp: groupSeries_def)
qed

context number_text
begin

lemma parse_tables:
  assumes "\<forall>(_, g) \<in> set e. table_ok g"
  shows "parseBlocks num (m @ map (meta_of \<circ> snd) e) (length m) (map (\<lambda>(_, g). table_block shw g) e @ bs) a =
    parseBlocks num (m @ map (meta_of \<circ> snd) e) (length m + length e) bs
      (a\<lparr>axes := fold (\<lambda>(_, g). set_axis (meta_of g) (axis_categories (categoryAxis g))) e (axes a),
         new_series := new_series a @ concat (map (\<lambda>(_, g). map (column shw) (group_series g)) e)\<rparr>)"
  using assms
proof (induction e arbitrary: m a)
  case (Cons x e)
  obtain k g where x: "x = (k, g)" by force
  have ok: "table_ok g" "\<forall>(_, g) \<in> set e. table_ok g" using Cons.prems x by auto
  have i: "nth_opt (length m) (m @ meta_of g # ms) = Some (meta_of g)" for ms by (simp add: nth_opt_def)
  show ?case
    using Cons.IH[OF ok(2), of "m @ [meta_of g]"] by (simp add: x i table_block_facts(2,3)[OF ok(1)])
qed simp

lemma parse_lists:
  assumes "\<forall>s \<in> set t. list_ok num s"
  shows "parseBlocks num e i (map (list_block shw) t) a = Inr (a\<lparr>new_series := new_series a @ map (listing emb) t\<rparr>)"
  using assms by (induction t arbitrary: i a) (auto simp: list_block_facts)

lemma content_blocks:
  assumes "groupSeries ss = (e, t, a)" and "\<forall>(_, g) \<in> set e. table_ok g" and "\<forall>s \<in> set t. list_ok num s" and "ss \<noteq> []"
  shows "split_blocks (fst (getContent shw ss)) = map (\<lambda>(_, g). table_block shw g) e @ map (list_block shw) t"
proof -
  let ?t = "map (\<lambda>(_, g). table_block shw g) e" and ?l = "map (list_block shw) t"
  have b: "\<forall>b \<in> set (?t @ ?l). block_text b" using assms(2,3) table_block_facts(1) list_block_facts(1) by auto
  have vis: "filter (\<lambda>c. \<not> js_space c) (js_join block_sep bs) \<noteq> []" if "bs \<noteq> []" "set bs \<subseteq> set (?t @ ?l)" for bs
  proof -
    have ne: "\<forall>x \<in> set bs. x \<noteq> []" using that b by (auto simp: block_text_def)
    have "\<not> js_space (last (js_join block_sep bs))"
      unfolding js_join_facts(3)[OF that(1) ne] using that(2) b last_in_set[OF that(1)] unfolding block_text_def by blast
    then show ?thesis using last_in_set[OF js_join_facts(1)[OF that(1) ne]] by (auto simp: filter_empty_conv)
  qed
  have "fst (getContent shw ss) = js_join block_sep (?t @ ?l)"
    using vis[of ?t] vis[of ?l]
    by (cases "e = []"; cases "t = []") (simp_all add: getContent_def assms(1) assembleCategory_def assembleOther_def js_join_append)
  moreover have "?t @ ?l \<noteq> []" using groupSeries_meta(2)[OF assms(1,4)] by simp
  ultimately show ?thesis using split_blocks_join[OF _ b] by simp
qed

lemma round_trip:
  assumes "viewable num ss" and "ss \<noteq> []"
  shows "parseContents num (fst (getContent shw ss)) (snd (getContent shw ss)) = Inr (chart_option shw emb ss)"
proof -
  obtain e t a where g: "groupSeries ss = (e, t, a)" by (metis prod_cases3)
  have ok: "\<forall>(_, g) \<in> set e. table_ok g" "\<forall>s \<in> set t. list_ok num s" using assms(1) g by (auto simp: viewable_def)
  have m: "snd (getContent shw ss) = map (meta_of \<circ> snd) e" using groupSeries_meta(1)[OF g] g by (simp add: getContent_def)
  show ?thesis
    unfolding parseContents_def m content_blocks[OF g ok assms(2)]
    using parse_tables[OF ok(1), of "[]" "map (list_block shw) t"] by (simp add: parse_lists[OF ok(2)] chart_option_def g)
qed

end

section \<open>The numbers of the language\<close>

datatype js_number = Finite rat | Infinite bool

text \<open>Unary plus on a text, with the whole grammar of numeric literals: white space around it does not count, an empty
  text is 0; then binary, octal and hexadecimal integers without a sign, or a sign, digits with a point among
  them, and an exponent, or \<open>Infinity\<close>.  None is \<open>NaN\<close>.  The value is the exact one; the language rounds it to a double,
  which changes no integer below 2^53.\<close>

definition digits :: "string \<Rightarrow> string" where
  "digits s = takeWhile (\<lambda>c. char_digit c \<noteq> None) s"

definition after_digits :: "string \<Rightarrow> string" where
  "after_digits s = dropWhile (\<lambda>c. char_digit c \<noteq> None) s"

fun radix_value :: "nat \<Rightarrow> nat \<Rightarrow> string \<Rightarrow> nat option" where
  "radix_value r acc [] = Some acc"
| "radix_value r acc (c # cs) = (case hexval c of None \<Rightarrow> None | Some d \<Rightarrow> if d < r then radix_value r (r * acc + d) cs else None)"

definition radix_prefix :: "string \<Rightarrow> nat option" where
  "radix_prefix s = (case s of a # b # c # cs \<Rightarrow> if a \<noteq> CHR ''0'' then None
       else if b \<in> {CHR ''x'', CHR ''X''} then Some 16 else if b \<in> {CHR ''o'', CHR ''O''} then Some 8
       else if b \<in> {CHR ''b'', CHR ''B''} then Some 2 else None
     | _ \<Rightarrow> None)"

definition exponent_value :: "string \<Rightarrow> int option" where
  "exponent_value s = (case s of [] \<Rightarrow> Some 0
     | e # cs \<Rightarrow> if e \<notin> {CHR ''e'', CHR ''E''} then None
         else (case cs of [] \<Rightarrow> None
           | c # ds \<Rightarrow> if c = CHR ''-'' then map_option (\<lambda>n. - int n) (parse_nat ds)
               else if c = CHR ''+'' then map_option int (parse_nat ds) else map_option int (parse_nat cs)))"

definition unsigned_value :: "string \<Rightarrow> js_number option" where
  "unsigned_value u = (if u = ''Infinity'' then Some (Infinite True)
     else let ds = digits u; r = after_digits u; point = r \<noteq> [] \<and> hd r = CHR ''.'';
              fs = (if point then digits (tl r) else []); r' = (if point then after_digits (tl r) else r)
       in if ds @ fs = [] then None
          else (case (parse_nat (ds @ fs), exponent_value r') of
            (Some m, Some e) \<Rightarrow> Some (Finite (let k = e - int (length fs) in if 0 \<le> k then of_nat m * 10 ^ nat k else of_nat m / 10 ^ nat (- k)))
          | _ \<Rightarrow> None))"

definition negated :: "js_number \<Rightarrow> js_number" where
  "negated x = (case x of Finite q \<Rightarrow> Finite (- q) | Infinite p \<Rightarrow> Infinite (\<not> p))"

definition to_number :: "string \<Rightarrow> js_number option" where
  "to_number s = (let t = js_trim s in
     case radix_prefix t of Some r \<Rightarrow> map_option (\<lambda>n. Finite (of_nat n)) (radix_value r 0 (drop 2 t))
     | None \<Rightarrow> (case t of [] \<Rightarrow> Some (Finite 0)
         | c # cs \<Rightarrow> if c = CHR ''-'' then map_option negated (unsigned_value cs)
             else if c = CHR ''+'' then unsigned_value cs else unsigned_value t))"

lemma string_of_int_char: "c \<in> set (string_of_int i) \<Longrightarrow> c = CHR ''-'' \<or> (\<exists>d < 10. c = digit_char d)"
  using set_string_of_nat by (auto simp: string_of_int_def split: if_splits)

lemma digit_char_space: "d < 10 \<Longrightarrow> \<not> js_space (digit_char d)"
  using of_char_digit_char[of d] by (auto simp: js_space_def)

lemma string_of_int_no_space: "c \<in> set (string_of_int i) \<Longrightarrow> \<not> js_space c"
  using string_of_int_char digit_char_space by fastforce

lemma dashes_in_integer: "\<not> sublist block_line (string_of_int i)"
proof
  assume "sublist block_line (string_of_int i)"
  then obtain u v where "string_of_int i = u @ block_line @ v" by (auto simp: sublist_def)
  then have "sublist [CHR ''-'', CHR ''-''] (string_of_int i)"
    by (simp add: sublist_def block_line_def numeral_eq_Suc) (metis append.assoc append_Cons append_Nil)
  then have "\<exists>n. CHR ''-'' \<in> set (string_of_nat n)"
    unfolding string_of_int_def
    by (auto simp: sublist_Cons_right split: if_splits dest!: set_mono_sublist set_mono_prefix)
  then show False by (auto dest!: set_string_of_nat simp: digit_char_neq)
qed

lemma digit_of_nat: "c \<in> set (string_of_nat n) \<Longrightarrow> char_digit c \<noteq> None"
  using set_string_of_nat by fastforce

lemma digits_string_of_nat: "digits (string_of_nat n) = string_of_nat n" "after_digits (string_of_nat n) = []"
proof -
  have "\<forall>c \<in> set (string_of_nat n). char_digit c \<noteq> None" using digit_of_nat by blast
  then show "digits (string_of_nat n) = string_of_nat n" "after_digits (string_of_nat n) = []"
    by (simp_all add: digits_def after_digits_def)
qed

lemma unsigned_string_of_nat: "unsigned_value (string_of_nat n) = Some (Finite (of_nat n))"
proof -
  have "string_of_nat n \<noteq> ''Infinity''"
    using digit_of_nat[of "CHR ''I''" n] by (auto simp: char_digit_def)
  then show ?thesis
    by (simp add: unsigned_value_def digits_string_of_nat Let_def parse_nat_string_of_nat exponent_value_def)
qed

lemma radix_prefix_integer: "radix_prefix (string_of_int v) = None"
proof -
  have "b \<notin> set ''xXoObB''" if "string_of_int v = a # b # cs" for a b cs
  proof -
    have "b \<in> set (string_of_int v)" using that by simp
    then have "b = CHR ''-'' \<or> char_digit b \<noteq> None" using string_of_int_char[of b v] by auto
    then show ?thesis by (auto simp: char_digit_def)
  qed
  then show ?thesis by (auto simp: radix_prefix_def split: list.split)
qed

interpretation integers: number_text string_of_int to_number "\<lambda>v. Finite (of_int v)"
proof unfold_locales
  fix v :: int
  have sp: "\<forall>c \<in> set (string_of_int v). \<not> js_space c" using string_of_int_no_space by blast
  have ne: "string_of_int v \<noteq> []" by simp
  show "cell_text (string_of_int v)"
    using sp hd_in_set[OF ne] last_in_set[OF ne] dashes_in_integer js_space_facts unfolding cell_text_def by (metis ne)
  have tr: "js_trim (string_of_int v) = string_of_int v" by (rule js_trim_none[OF sp])
  obtain c cs where c: "string_of_nat (nat v) = c # cs" "c \<noteq> CHR ''-''" "c \<noteq> CHR ''+''"
    using sign_not_in_string_of_nat[of "nat v"] by (cases "string_of_nat (nat v)") auto
  show "to_number (string_of_int v) = Some (Finite (of_int v))"
    unfolding to_number_def tr Let_def radix_prefix_integer using c unsigned_string_of_nat[of "nat v"]
    by (simp add: string_of_int_def unsigned_string_of_nat negated_def)
qed

text \<open>The integers that the language prints and reads without rounding.\<close>

definition safe_values :: "int series list \<Rightarrow> bool" where
  "safe_values ss \<longleftrightarrow> list_all (\<lambda>s. list_all (\<lambda>(n, vs). list_all (\<lambda>v. \<bar>v\<bar> < 2 ^ 53) vs) (items s)) ss"

text \<open>C6: what the reader of the data view makes of the text of a chart that nobody edited is the chart: the categories
  of every axis under its dimension and index, a series for every column of every table, and every other series with its numbers.
  It holds for every chart with at least one series whose values are integers below 2^53, whose names and categories survive the
  text, whose items have no name that reads as a number, as 1.5, 1e3 or 0x1F do, and whose tables have no gaps.\<close>

theorem dataview_round_trip:
  assumes "viewable to_number ss" and "ss \<noteq> []" and "safe_values ss"
  shows "parseContents to_number (fst (getContent string_of_int ss)) (snd (getContent string_of_int ss)) =
    Inr (chart_option string_of_int (\<lambda>v. Finite (of_int v)) ss)"
  using assms(1,2) by (rule integers.round_trip)

definition sample_chart :: "int series list" where
  "sample_chart =
    (let time = \<lparr>axis_type = ''category'', axis_dim = ''x'', axis_index = 0, axis_categories = [''9:00'', ''10:00'']\<rparr> in
     [\<lparr>series_name = ''active'', coordinateSystem = Some (''cartesian2d'', time), value_dim = 1, items = [([], [0, 3]), ([], [1, - 4])]\<rparr>,
      \<lparr>series_name = ''nodes'', coordinateSystem = None, value_dim = 0, items = [(''one'', [7]), ([], [8, 9])]\<rparr>,
      \<lparr>series_name = ''new'', coordinateSystem = Some (''cartesian2d'', time), value_dim = 1, items = [([], [0, 5]), ([], [1, 6])]\<rparr>])"

theorem dataview_round_trip_witness:
  "viewable to_number sample_chart \<and> sample_chart \<noteq> [] \<and> safe_values sample_chart \<and>
   parseContents to_number (fst (getContent string_of_int sample_chart)) (snd (getContent string_of_int sample_chart)) =
    Inr \<lparr>axes = [(''xAxis'', [Some [''9:00'', ''10:00'']])],
      new_series =
       [\<lparr>parsed_name = ''active'', parsed_data = [Some (Cell ''3''), Some (Cell ''-4'')]\<rparr>,
        \<lparr>parsed_name = ''new'', parsed_data = [Some (Cell ''5''), Some (Cell ''6'')]\<rparr>,
        \<lparr>parsed_name = ''nodes'', parsed_data = [Some (Named ''one'' (One (Some (Finite 7)))), Some (Value (Many [Some (Finite 8), Some (Finite 9)]))]\<rparr>]\<rparr>"
proof -
  have ok: "viewable to_number sample_chart" by code_simp
  have ne: "sample_chart \<noteq> []" by (simp add: sample_chart_def Let_def)
  have sf: "safe_values sample_chart" by code_simp
  have o: "chart_option string_of_int (\<lambda>v. Finite (of_int v)) sample_chart = \<lparr>axes = [(''xAxis'', [Some [''9:00'', ''10:00'']])],
      new_series =
       [\<lparr>parsed_name = ''active'', parsed_data = [Some (Cell ''3''), Some (Cell ''-4'')]\<rparr>,
        \<lparr>parsed_name = ''new'', parsed_data = [Some (Cell ''5''), Some (Cell ''6'')]\<rparr>,
        \<lparr>parsed_name = ''nodes'', parsed_data = [Some (Named ''one'' (One (Some (Finite 7)))), Some (Value (Many [Some (Finite 8), Some (Finite 9)]))]\<rparr>]\<rparr>"
    by code_simp
  show ?thesis using dataview_round_trip[OF ok ne sf] ok ne sf o by simp
qed

text \<open>Names that read as numbers.\<close>

lemma numeric_names: "list_all (\<lambda>s. to_number s \<noteq> None) [''1.5'', ''1e3'', ''0x1F'', ''.5'', ''5.'', ''-2E-1'', ''+Infinity'', ''0b10'', '' 7 ''] \<and>
    list_all (\<lambda>s. to_number s = None) [''.'', ''1e'', ''0x'', ''0xg'', ''-0x1'', ''infinity'', ''1 2'', ''node1'', ''1.2.3'']"
  by code_simp

section \<open>Saving an edited text\<close>

text \<open>The view on the page: whether it is open, the options dispatched to the chart and whether
  the handler of the save button threw.  The button parses the text, closes the view on every
  path, and dispatches the option only when the text could be read.\<close>

record 'n view =
  view_open :: bool
  dispatched :: "'n newOption list"
  raised :: bool

definition save_click :: "(string \<Rightarrow> 'n option) \<Rightarrow> string \<Rightarrow> meta list \<Rightarrow> 'n view \<Rightarrow> 'n view" where
  "save_click num text e v = (case parseContents num text e of
     Inl _ \<Rightarrow> v\<lparr>view_open := False, raised := True\<rparr>
   | Inr b \<Rightarrow> v\<lparr>dispatched := dispatched v @ [b], view_open := False\<rparr>)"

lemma parseBlocks_error:
  "parseBlocks num e i ns a = Inl TypeError \<longleftrightarrow> (\<exists>j < length ns. isTSV (ns ! j) \<and> length e \<le> i + j)"
proof (induction num e i ns a rule: parseBlocks.induct)
  case (2 num e i n ns a)
  show ?case
  proof (cases "isTSV n")
    case True
    then show ?thesis
    proof (cases "i < length e")
      case lt: True
      obtain srs cats where p: "parseTSV n = (srs :: 'a parsed list, cats)" by force
      show ?thesis
        using 2(1)[OF True, of "e ! i" srs cats] True lt p by (auto simp: nth_opt_def less_Suc_eq_0_disj)
    qed (auto simp: nth_opt_def)
  next
    case False
    then show ?thesis using 2(2)[OF False] by (auto simp: less_Suc_eq_0_disj)
  qed
qed simp

lemma parse_error: "parseContents num r e = Inl x \<longleftrightarrow> (\<exists>j < length (split_blocks r). isTSV (split_blocks r ! j) \<and> length e \<le> j)"
  by (cases x) (simp add: parseContents_def parseBlocks_error)

text \<open>saving an edited data view closes it whatever the text; the handler throws exactly when a block that reads as a
  table stands past the described category axes, the option is then not dispatched, and otherwise exactly one option is.\<close>

theorem save_closes_view:
  "\<not> view_open (save_click num text e v) \<and>
   (if \<exists>j < length (split_blocks text). isTSV (split_blocks text ! j) \<and> length e \<le> j
    then raised (save_click num text e v) \<and> dispatched (save_click num text e v) = dispatched v
    else raised (save_click num text e v) = raised v \<and>
      (\<exists>b. parseContents num text e = Inr b \<and> dispatched (save_click num text e v) = dispatched v @ [b]))"
proof (cases "parseContents num text e")
  case (Inl x)
  with parse_error[of num "text" e x] show ?thesis by (simp add: save_click_def)
next
  case (Inr b)
  then have "\<nexists>j. j < length (split_blocks text) \<and> isTSV (split_blocks text ! j) \<and> length e \<le> j"
    using parse_error[of num "text" e TypeError] by simp
  with Inr show ?thesis by (auto simp: save_click_def)
qed

end
