(* ===== verification/Zoom_History.thy ===== *)
theory Zoom_History
  imports Data_View
begin

text \<open>
  The history of zooms of a chart (\<open>home-296339b0.js\<close>): a stack of snapshots, each the ranges
  of the zoom components that one gesture changed.  The bottom snapshot holds the ranges that
  components had before their first gesture.  A range is a parameter of the theory; the current
  range of a component is the argument \<open>q\<close>, None when the chart has no such component.
\<close>

type_synonym 'r snapshot = "(string \<times> 'r) list"

text \<open>The snapshots of a chart, created on first use.\<close>

definition snapshots_of :: "'r snapshot list option \<Rightarrow> 'r snapshot list" where
  "snapshots_of st = (case st of None \<Rightarrow> [[]] | Some t \<Rightarrow> t)"

text \<open>The search from the top of the stack downwards.\<close>

fun search_down :: "string \<Rightarrow> 'r snapshot list \<Rightarrow> 'r option" where
  "search_down n [] = None"
| "search_down n (s # ss) = (case map_of s n of Some r \<Rightarrow> Some r | None \<Rightarrow> search_down n ss)"

definition latest :: "string \<Rightarrow> 'r snapshot list \<Rightarrow> 'r option" where
  "latest n t = search_down n (rev t)"

definition remember :: "(string \<Rightarrow> 'r option) \<Rightarrow> string \<Rightarrow> 'r snapshot list \<Rightarrow> 'r snapshot list" where
  "remember q n t = (case latest n t of Some _ \<Rightarrow> t
     | None \<Rightarrow> (case q n of None \<Rightarrow> t | Some r \<Rightarrow> t[0 := alist_put n r (t ! 0)]))"

definition zoom_push :: "(string \<Rightarrow> 'r option) \<Rightarrow> 'r snapshot \<Rightarrow> 'r snapshot list option \<Rightarrow> 'r snapshot list option" where
  "zoom_push q e st = Some (fold (\<lambda>(n, _). remember q n) e (snapshots_of st) @ [e])"

definition zoom_pop :: "'r snapshot list option \<Rightarrow> 'r snapshot \<times> 'r snapshot list option" where
  "zoom_pop st = (let e = snapshots_of st; t = last e; e' = (if 1 < length e then butlast e else e) in
     (concat (map (\<lambda>(i, _). case latest i e' of Some r \<Rightarrow> [(i, r)] | None \<Rightarrow> []) t), Some e'))"

definition zoom_clear :: "'r snapshot list option \<Rightarrow> 'r snapshot list option" where
  "zoom_clear st = None"

definition zoom_count :: "'r snapshot list option \<Rightarrow> nat" where
  "zoom_count st = length (snapshots_of st)"

section \<open>Laws\<close>

lemma search_down_append: "search_down n (xs @ ys) = (case search_down n xs of Some r \<Rightarrow> Some r | None \<Rightarrow> search_down n ys)"
  by (induction xs) (auto split: option.splits)

lemma latest_bottom: "latest n (s # ss) = (case latest n ss of Some r \<Rightarrow> Some r | None \<Rightarrow> map_of s n)"
  by (auto simp: latest_def search_down_append split: option.splits)

lemma map_of_alist_put: "map_of (alist_put k v xs) n = (if n = k then Some v else map_of xs n)"
  by (induction k v xs rule: alist_put.induct) auto

lemma remember_length [simp]: "length (remember q n t) = length t"
  by (simp add: remember_def split: option.splits)

lemma latest_remember:
  assumes "t \<noteq> []"
  shows "latest m (remember q n t) = (case latest m t of Some r \<Rightarrow> Some r | None \<Rightarrow> if m = n then q n else None)"
proof -
  obtain s ss where "t = s # ss" using assms by (cases t) auto
  then show ?thesis by (auto simp: remember_def latest_bottom map_of_alist_put split: option.splits)
qed

lemma remember_nonempty: "t \<noteq> [] \<Longrightarrow> remember q n t \<noteq> []"
  using remember_length[of q n t] by (metis length_0_conv)

lemma latest_remember_all:
  assumes "t \<noteq> []"
  shows "latest m (fold (\<lambda>(n, _). remember q n) e t) =
      (case latest m t of Some r \<Rightarrow> Some r | None \<Rightarrow> if m \<in> fst ` set e then q m else None)"
    and "length (fold (\<lambda>(n, _). remember q n) e t) = length t"
  using assms
  by (induction e arbitrary: t) (simp_all add: case_prod_unfold latest_remember remember_nonempty split: option.split)

lemma restored_ranges:
  "map_of (concat (map (\<lambda>(i, _). case f i of Some r \<Rightarrow> [(i, r)] | None \<Rightarrow> []) e)) n = (if n \<in> fst ` set e then f n else None)"
  by (induction e) (simp_all add: case_prod_unfold map_add_def split: option.split, auto)

text \<open>undoing a zoom gives every component that the gesture changed the range it had before (the latest one on
  the history, and without one the range the component had when the gesture was recorded), touches no other component and
  leaves the history as long as it was.\<close>

theorem zoom_undo:
  assumes "snapshots_of st \<noteq> []"
  shows "map_of (fst (zoom_pop (zoom_push q e st))) n =
      (if n \<in> fst ` set e then (case latest n (snapshots_of st) of Some r \<Rightarrow> Some r | None \<Rightarrow> q n) else None) \<and>
    zoom_count (snd (zoom_pop (zoom_push q e st))) = zoom_count st \<and> 1 \<le> zoom_count st"
proof -
  let ?t = "fold (\<lambda>(n, _). remember q n) e (snapshots_of st)"
  have l: "length ?t = length (snapshots_of st)" by (rule latest_remember_all(2)[OF assms])
  then have p: "zoom_pop (zoom_push q e st) =
      (concat (map (\<lambda>(i, _). case latest i ?t of Some r \<Rightarrow> [(i, r)] | None \<Rightarrow> []) e), Some ?t)"
    using assms by (auto simp: zoom_pop_def zoom_push_def snapshots_of_def Let_def)
  show ?thesis
    using l assms restored_ranges[of "\<lambda>i. latest i ?t" e n] latest_remember_all(1)[OF assms, of n q e]
    by (auto simp: p zoom_count_def snapshots_of_def[of "Some ?t"] Suc_le_eq split: option.splits)
qed

theorem zoom_undo_witness:
  "snapshots_of (Some [[(''b'', 0 :: int)], [(''a'', 5)]]) \<noteq> [] \<and>
   map_of (fst (zoom_pop (zoom_push (\<lambda>_. Some 9) [(''a'', 6), (''c'', 7)] (Some [[(''b'', 0)], [(''a'', 5 :: int)]])))) ''c'' = Some 9"
  using zoom_undo[of "Some [[(''b'', 0)], [(''a'', 5 :: int)]]" "\<lambda>_. Some 9" "[(''a'', 6), (''c'', 7)]" "''c''"]
  by (simp add: snapshots_of_def latest_def)

end
