(* ===== verification/Text_Layout.thy ===== *)
theory Text_Layout
  imports Js_Library Complex_Main "HOL-Library.Multiset"
begin

text \<open>
  The layout of texts in charts (\<open>home-296339b0.js\<close>, lines 23 to 29, the drawing library of the
  bundle): cutting lines to a width with an ellipsis, cutting a block to a height and wrapping
  a text into lines.  The width of a text in the current font is measured by the browser: the
  functions take it as the argument \<open>We\<close>.
\<close>

section \<open>Truncation\<close>

text \<open>The options of a truncation, worked out once for all lines.\<close>

record truncation =
  containerWidth :: rat
  contentWidth :: rat
  ellipsis :: string
  maxIterations :: nat
  ascCharWidth :: rat
  cnCharWidth :: rat
  placeholder :: string

text \<open>Room for the least number of characters is taken off while there is room left.\<close>

fun reserve :: "nat \<Rightarrow> rat \<Rightarrow> rat \<Rightarrow> rat" where
  "reserve 0 w s = s"
| "reserve (Suc l) w s = (if w \<le> s then reserve l w (s - w) else s)"

definition prepareTruncate :: "(string \<Rightarrow> rat) \<Rightarrow> string \<Rightarrow> rat \<Rightarrow> string option \<Rightarrow> nat \<Rightarrow> nat \<Rightarrow> string \<Rightarrow> truncation" where
  "prepareTruncate We cn width ell maxIter minChar place =
     (let t = (case ell of None \<Rightarrow> ''...'' | Some x \<Rightarrow> x); r = max 0 (width - 1); a = We ''a'';
          s = reserve minChar a r; u = We t;
          (t', u') = (if u > s then ([], 0) else (t, u)) in
      \<lparr>containerWidth = r, contentWidth = r - u', ellipsis = t', maxIterations = maxIter, ascCharWidth = a, cnCharWidth = We cn,
       placeholder = place\<rparr>)"

text \<open>The number of characters, counted with two widths, after which a width is reached.\<close>

fun estimateLength :: "string \<Rightarrow> rat \<Rightarrow> rat \<Rightarrow> rat \<Rightarrow> rat \<Rightarrow> nat" where
  "estimateLength [] n w asc cn = 0"
| "estimateLength (c # cs) n w asc cn = (if n < w then Suc (estimateLength cs (n + (if (of_char c :: nat) \<le> 127 then asc else cn)) w asc cn) else 0)"

text \<open>The loop of the truncation of a line: each round shortens the text, the number of rounds is bounded.\<close>

function shorten :: "(string \<Rightarrow> rat) \<Rightarrow> truncation \<Rightarrow> nat \<Rightarrow> string \<Rightarrow> string" where
  "shorten We e k r =
     (if We r \<le> contentWidth e \<or> maxIterations e \<le> k then r @ ellipsis e
      else
        let s = (if k = 0 then estimateLength r 0 (contentWidth e) (ascCharWidth e) (cnCharWidth e)
                 else if We r > 0 then nat \<lfloor>of_nat (length r) * contentWidth e / We r\<rfloor> else 0)
        in shorten We e (Suc k) (take s r))"
  by pat_completeness auto
termination by (relation "measure (\<lambda>(W, e, k, r). maxIterations e - k)") auto

declare shorten.simps [simp del]

definition truncateSingleLine :: "(string \<Rightarrow> rat) \<Rightarrow> truncation \<Rightarrow> string \<Rightarrow> string" where
  "truncateSingleLine We e r =
     (if containerWidth e = 0 then []
      else if We r \<le> containerWidth e then r
      else (let x = shorten We e 0 r in if x = [] then placeholder e else x))"

definition truncateText :: "(string \<Rightarrow> rat) \<Rightarrow> string \<Rightarrow> string \<Rightarrow> rat \<Rightarrow> string option \<Rightarrow> nat \<Rightarrow> nat \<Rightarrow> string \<Rightarrow> string" where
  "truncateText We cn text width ell maxIter minChar place =
     (if width = 0 then []
      else let n = prepareTruncate We cn width ell maxIter minChar place in
        js_join [CHR 0x0A] (map (truncateSingleLine We n) (pieces (CHR 0x0A) text)))"

section \<open>Blocks of lines\<close>

text \<open>The lines of a plain text that \<open>overflow: truncate\<close> and \<open>lineOverflow: truncate\<close> leave, for a text
  that is not wrapped: \<open>height\<close> and \<open>width\<close> are the optional sizes of the block.\<close>

definition slice_to :: "int \<Rightarrow> 'a list \<Rightarrow> 'a list" where
  "slice_to p xs = (if p < 0 then take (nat (int (length xs) + p)) xs else take (nat p) xs)"

definition plainLines :: "(string \<Rightarrow> rat) \<Rightarrow> string \<Rightarrow> string \<Rightarrow> rat \<Rightarrow> rat option \<Rightarrow> rat option \<Rightarrow> bool \<Rightarrow> bool \<Rightarrow>
    string option \<Rightarrow> nat \<Rightarrow> string \<Rightarrow> string list" where
  "plainLines We cn text lineHeight height width trunc lineTrunc ell minChar place =
     (let h = (if text = [] then [] else pieces (CHR 0x0A) text);
          v = of_nat (length h) * lineHeight; c = (case height of Some x \<Rightarrow> x | None \<Rightarrow> v);
          h' = (if v > c \<and> lineTrunc then slice_to \<lfloor>c / lineHeight\<rfloor> h else h) in
      case width of
        Some f \<Rightarrow> if text \<noteq> [] \<and> trunc then map (truncateSingleLine We (prepareTruncate We cn f ell 2 minChar place)) h' else h'
      | None \<Rightarrow> h')"

section \<open>Wrapping\<close>

text \<open>The characters that end a word: outside the alphabetic ranges every character does, inside only the listed ones.\<close>

definition isAlphabetic :: "char \<Rightarrow> bool" where
  "isAlphabetic c \<longleftrightarrow> 32 \<le> (of_char c :: nat)"

definition breakChars :: string where
  "breakChars = '',&?/;] ''"

definition isWordBreak :: "char \<Rightarrow> bool" where
  "isWordBreak c \<longleftrightarrow> (if isAlphabetic c then c \<in> set breakChars else True)"

text \<open>The state of the loop: the finished lines with their widths, the current line, the current
  word with its width, and the width used so far.\<close>

record wrapping =
  lines :: "string list"
  linesWidths :: "rat list"
  line :: string
  currentWord :: string
  currentWordWidth :: rat
  accumWidth :: rat

definition newWrapping :: wrapping where
  "newWrapping = \<lparr>lines = [], linesWidths = [], line = [], currentWord = [], currentWordWidth = 0, accumWidth = 0\<rparr>"

definition pushLine :: "string \<Rightarrow> rat \<Rightarrow> wrapping \<Rightarrow> wrapping" where
  "pushLine s w st = st\<lparr>lines := lines st @ [s], linesWidths := linesWidths st @ [w]\<rparr>"

text \<open>The current word joins the current line.\<close>

definition flushWord :: "wrapping \<Rightarrow> wrapping" where
  "flushWord st = (if currentWord st = [] then st else st\<lparr>line := line st @ currentWord st, currentWord := [], currentWordWidth := 0\<rparr>)"

definition wrapNewline :: "wrapping \<Rightarrow> wrapping" where
  "wrapNewline st =
     (let s = line st @ currentWord st; f = (if currentWord st = [] then accumWidth st else accumWidth st + currentWordWidth st) in
      (pushLine s f st)\<lparr>line := [], currentWord := [], currentWordWidth := 0, accumWidth := 0\<rparr>)"

definition wrapOverflow :: "char \<Rightarrow> rat \<Rightarrow> bool \<Rightarrow> wrapping \<Rightarrow> wrapping" where
  "wrapOverflow v c p st =
     (if accumWidth st = 0 then
        (if p then (pushLine (currentWord st) (currentWordWidth st) st)\<lparr>currentWord := [v], currentWordWidth := c\<rparr>
         else pushLine [v] c st)
      else if line st = [] \<and> currentWord st = [] then st
      else if p then
        (let st1 = (if line st = [] then st\<lparr>line := currentWord st, currentWord := [], currentWordWidth := 0, accumWidth := 0\<rparr> else st);
             st2 = pushLine (line st1) (accumWidth st1 - currentWordWidth st1) st1 in
         st2\<lparr>currentWord := currentWord st2 @ [v], currentWordWidth := currentWordWidth st2 + c, line := [],
             accumWidth := currentWordWidth st2 + c\<rparr>)
      else
        (let st1 = flushWord st in (pushLine (line st1) (accumWidth st1) st1)\<lparr>line := [v], accumWidth := c\<rparr>))"

definition wrapChar :: "(string \<Rightarrow> rat) \<Rightarrow> rat \<Rightarrow> bool \<Rightarrow> rat \<Rightarrow> char \<Rightarrow> wrapping \<Rightarrow> wrapping" where
  "wrapChar We t breakAll n v st =
     (if v = CHR 0x0A then wrapNewline st
      else
        let c = We [v]; p = (\<not> breakAll \<and> \<not> isWordBreak v) in
        if (if lines st = [] then n + accumWidth st + c > t else accumWidth st + c > t) then wrapOverflow v c p st
        else
          let st1 = st\<lparr>accumWidth := accumWidth st + c\<rparr> in
          if p then st1\<lparr>currentWord := currentWord st1 @ [v], currentWordWidth := currentWordWidth st1 + c\<rparr>
          else (let st2 = flushWord st1 in st2\<lparr>line := line st2 @ [v]\<rparr>))"

definition wrapEnd :: "string \<Rightarrow> rat \<Rightarrow> wrapping \<Rightarrow> wrapping" where
  "wrapEnd r n st =
     (let st1 = (if lines st = [] \<and> line st = [] then st\<lparr>line := r, currentWord := [], currentWordWidth := 0\<rparr> else st);
          st2 = (if currentWord st1 = [] then st1 else st1\<lparr>line := line st1 @ currentWord st1\<rparr>);
          st3 = (if line st2 = [] then st2 else pushLine (line st2) (accumWidth st2) st2) in
      if length (lines st3) = 1 then st3\<lparr>accumWidth := accumWidth st3 + n\<rparr> else st3)"

definition wrapText :: "(string \<Rightarrow> rat) \<Rightarrow> string \<Rightarrow> rat \<Rightarrow> bool \<Rightarrow> rat \<Rightarrow> wrapping" where
  "wrapText We r t breakAll n = wrapEnd r n (fold (wrapChar We t breakAll n) r newWrapping)"

section \<open>A truncated line fits\<close>

lemma reserve_le: "0 \<le> w \<Longrightarrow> 0 \<le> s \<Longrightarrow> reserve k w s \<le> s \<and> 0 \<le> reserve k w s"
proof (induction k w s rule: reserve.induct)
  case (2 l w s)
  then show ?case by (auto split: if_splits)
qed simp

lemma shorten_prefix: "\<exists>k. shorten We e i r = take k r @ ellipsis e"
proof (induction We e i r rule: shorten.induct)
  case (1 We e k r)
  show ?case
  proof (cases "We r \<le> contentWidth e \<or> maxIterations e \<le> k")
    case True
    then show ?thesis by (subst shorten.simps) (auto intro!: exI[of _ "length r"])
  next
    case False
    let ?s = "if k = 0 then estimateLength r 0 (contentWidth e) (ascCharWidth e) (cnCharWidth e)
      else if We r > 0 then nat \<lfloor>of_nat (length r) * contentWidth e / We r\<rfloor> else 0"
    have "shorten We e k r = shorten We e (Suc k) (take ?s r)" using False by (subst shorten.simps) (simp add: Let_def)
    with 1[OF False refl] show ?thesis by (metis take_take)
  qed
qed

text \<open>A font in which every character of a text is as wide as every other one.\<close>

definition fixed_width :: "(string \<Rightarrow> rat) \<Rightarrow> rat \<Rightarrow> bool" where
  "fixed_width We a \<longleftrightarrow> 0 < a \<and> (\<forall>s. We s = of_nat (length s) * a)"

lemma shorten_fits:
  assumes fw: "fixed_width We a" and m: "maxIterations e = 2" and c: "0 \<le> contentWidth e"
  shows "\<exists>k. shorten We e 0 r = take k r @ ellipsis e \<and> We (take k r) \<le> contentWidth e"
proof -
  have W: "We s = of_nat (length s) * a" and a: "0 < a" for s using fw by (auto simp: fixed_width_def)
  show ?thesis
  proof (cases "We r \<le> contentWidth e")
    case True
    then show ?thesis by (subst shorten.simps) (auto intro!: exI[of _ "length r"])
  next
    case False
    define s where "s = estimateLength r 0 (contentWidth e) (ascCharWidth e) (cnCharWidth e)"
    have r1: "shorten We e 0 r = shorten We e 1 (take s r)" using False m by (subst shorten.simps) (simp add: Let_def s_def)
    show ?thesis
    proof (cases "We (take s r) \<le> contentWidth e")
      case True
      then show ?thesis unfolding r1 by (subst shorten.simps) auto
    next
      case F: False
      define t where "t = (if We (take s r) > 0 then nat \<lfloor>of_nat (length (take s r)) * contentWidth e / We (take s r)\<rfloor> else 0)"
      have "shorten We e 1 (take s r) = shorten We e 2 (take t (take s r))"
        using F m by (subst shorten.simps) (simp add: Let_def t_def numeral_2_eq_2)
      also have "\<dots> = take t (take s r) @ ellipsis e" using m by (subst shorten.simps) simp
      finally have e: "shorten We e 0 r = take (min t s) r @ ellipsis e" using r1 by (simp add: min.commute)
      have pos: "0 < We (take s r)" using F c by simp
      have ne: "length (take s r) \<noteq> 0"
      proof
        assume "length (take s r) = 0"
        then have "We (take s r) = 0" by (simp only: W of_nat_0 mult_zero_left)
        with pos show False by simp
      qed
      define l where "l = (of_nat (length (take s r)) :: rat)"
      have l: "l \<noteq> 0" "We (take s r) = l * a" using ne W[of "take s r"] unfolding l_def by (simp_all only: of_nat_eq_0_iff not_False_eq_True)
      have "t = nat \<lfloor>l * contentWidth e / We (take s r)\<rfloor>" unfolding t_def l_def using pos by (simp only: if_True)
      also have "\<dots> = nat \<lfloor>contentWidth e / a\<rfloor>" using l by simp
      finally have "t = nat \<lfloor>contentWidth e / a\<rfloor>" .
      then have "of_nat t \<le> contentWidth e / a" using c a by (simp add: of_nat_nat)
      then have t: "of_nat t * a \<le> contentWidth e" using a by (simp add: field_simps)
      have "of_nat (length (take (min t s) r)) \<le> (of_nat t :: rat)" by simp
      then have "We (take (min t s) r) \<le> of_nat t * a" using a by (simp add: W mult_right_mono)
      with t e show ?thesis by (intro exI[of _ "min t s"]) simp
    qed
  qed
qed

lemma prepareTruncate_facts:
  assumes "fixed_width We a"
  shows "maxIterations (prepareTruncate We cn w ell m mc p) = m" "0 \<le> contentWidth (prepareTruncate We cn w ell m mc p)"
    "contentWidth (prepareTruncate We cn w ell m mc p) + We (ellipsis (prepareTruncate We cn w ell m mc p)) = containerWidth (prepareTruncate We cn w ell m mc p)"
    "containerWidth (prepareTruncate We cn w ell m mc p) = max 0 (w - 1)" "placeholder (prepareTruncate We cn w ell m mc p) = p"
proof -
  have "0 \<le> We ''a''" "We [] = 0" using assms by (auto simp: fixed_width_def)
  moreover have "reserve mc (We ''a'') (max 0 (w - 1)) \<le> max 0 (w - 1)" using reserve_le[of "We ''a''" "max 0 (w - 1)"] calculation by simp
  ultimately show "maxIterations (prepareTruncate We cn w ell m mc p) = m" "0 \<le> contentWidth (prepareTruncate We cn w ell m mc p)"
    "contentWidth (prepareTruncate We cn w ell m mc p) + We (ellipsis (prepareTruncate We cn w ell m mc p)) = containerWidth (prepareTruncate We cn w ell m mc p)"
    "containerWidth (prepareTruncate We cn w ell m mc p) = max 0 (w - 1)" "placeholder (prepareTruncate We cn w ell m mc p) = p"
    by (simp_all add: prepareTruncate_def Let_def)
qed

lemma truncated_line_fits:
  assumes "fixed_width We a" and "e = prepareTruncate We cn w ell 2 mc []"
  shows "We (truncateSingleLine We e r) \<le> max 0 (w - 1)"
proof -
  note f = prepareTruncate_facts[OF assms(1), of cn w ell 2 mc "[]", folded assms(2)]
  have W: "We (x @ y) = We x + We y" "We [] = 0" for x y using assms(1) by (auto simp: fixed_width_def algebra_simps)
  obtain k where k: "shorten We e 0 r = take k r @ ellipsis e" "We (take k r) \<le> contentWidth e"
    using shorten_fits[OF assms(1) f(1,2)] by blast
  then have "We (shorten We e 0 r) \<le> containerWidth e" using f(3) by (simp add: W)
  then show ?thesis by (auto simp: truncateSingleLine_def Let_def f(4,5) W split: if_splits)
qed

text \<open>with the default of two rounds, every line of a truncated text fits into the given width less the one pixel the
  code keeps free, in a font of fixed width; a line that already fits is kept, and any other one becomes a beginning of itself
  followed by the ellipsis (or by nothing, when the ellipsis itself does not fit).\<close>

theorem truncated_text_fits:
  assumes "fixed_width We a" and "w \<noteq> 0"
  shows "\<exists>ls. truncateText We cn text w ell 2 mc [] = js_join [CHR 0x0A] ls \<and> length ls = length (pieces (CHR 0x0A) text) \<and>
    (\<forall>i < length ls. We (ls ! i) \<le> max 0 (w - 1) \<and>
      (ls ! i = pieces (CHR 0x0A) text ! i \<or> ls ! i = [] \<or>
       (\<exists>k. ls ! i = take k (pieces (CHR 0x0A) text ! i) @ ellipsis (prepareTruncate We cn w ell 2 mc []))))"
proof -
  let ?e = "prepareTruncate We cn w ell 2 mc []" and ?ps = "pieces (CHR 0x0A) text"
  have shape: "truncateSingleLine We ?e r = r \<or> truncateSingleLine We ?e r = [] \<or> (\<exists>k. truncateSingleLine We ?e r = take k r @ ellipsis ?e)" for r
    using shorten_prefix[of We ?e 0 r] prepareTruncate_facts(5)[OF assms(1)] by (auto simp: truncateSingleLine_def Let_def)
  show ?thesis
    using assms(2) truncated_line_fits[OF assms(1) refl] shape
    by (intro exI[of _ "map (truncateSingleLine We ?e) ?ps"]) (simp add: truncateText_def Let_def)
qed

definition eight_pixels :: "string \<Rightarrow> rat" where
  "eight_pixels s = of_nat (length s) * 8"

theorem truncated_text_fits_witness:
  "fixed_width eight_pixels 8 \<and>
   (\<exists>ls. truncateText eight_pixels ''x'' ''session'' 50 None 2 0 [] = js_join [CHR 0x0A] ls \<and> length ls = 1 \<and> eight_pixels (ls ! 0) \<le> 49)"
proof -
  have fw: "fixed_width eight_pixels 8" by (simp add: fixed_width_def eight_pixels_def)
  have "length (pieces (CHR 0x0A) ''session'') = 1" by simp
  then show ?thesis using truncated_text_fits[OF fw, of 50 "''x''" "''session''" None 0] fw by (auto 0 3)
qed

lemma slice_to_height:
  assumes "0 < lh" and "0 \<le> c"
  shows "of_nat (length (slice_to \<lfloor>c / lh\<rfloor> h)) * lh \<le> (c :: rat)"
proof -
  have f: "0 \<le> \<lfloor>c / lh\<rfloor>" using assms by simp
  then have "length (slice_to \<lfloor>c / lh\<rfloor> h) \<le> nat \<lfloor>c / lh\<rfloor>" by (simp add: slice_to_def)
  then have "(of_nat (length (slice_to \<lfloor>c / lh\<rfloor> h)) :: rat) \<le> of_nat (nat \<lfloor>c / lh\<rfloor>)" by (rule of_nat_mono)
  also have "\<dots> = of_int \<lfloor>c / lh\<rfloor>" using f by (rule of_nat_nat)
  also have "\<dots> \<le> c / lh" by simp
  finally show ?thesis using assms(1) by (simp add: field_simps)
qed

text \<open>Cutting the lines of a plain text to a height leaves no more lines than fit into it: whatever is left is at
  most as high as the block, when a line has a positive height and the block a height that is not negative.\<close>

theorem plain_text_height:
  assumes "0 < lh" and "0 \<le> c"
  shows "of_nat (length (plainLines We cn text lh (Some c) width tr True ell mc p)) * lh \<le> c"
proof -
  define h where "h = (if text = [] then [] else pieces (CHR 0x0A) text)"
  have "of_nat (length (if of_nat (length h) * lh > c then slice_to \<lfloor>c / lh\<rfloor> h else h)) * lh \<le> c"
    using slice_to_height[OF assms, of h] by simp
  moreover have "length (plainLines We cn text lh (Some c) width tr True ell mc p) =
      length (if of_nat (length h) * lh > c then slice_to \<lfloor>c / lh\<rfloor> h else h)"
    by (simp add: plainLines_def Let_def h_def split: option.split)
  ultimately show ?thesis by simp
qed

theorem plain_text_height_witness:
  "of_nat (length (plainLines eight_pixels ''x'' [CHR ''a'', CHR 0x0A, CHR ''b'', CHR 0x0A, CHR ''c''] 12 (Some 30) None False True None 0 [])) * (12 :: rat) \<le> 30"
  by (rule plain_text_height) simp_all

section \<open>Wrapping keeps the text\<close>

lemmas wrap_defs = wrapChar_def wrapNewline_def wrapOverflow_def pushLine_def flushWord_def Let_def

text \<open>The characters in the state of the loop, and what the loop keeps: a width in use has
  characters behind it, and a line break has closed a line.\<close>

definition content :: "wrapping \<Rightarrow> string" where
  "content st = concat (lines st) @ line st @ currentWord st"

lemma wrapChar_content:
  assumes "accumWidth st \<noteq> 0 \<longrightarrow> line st \<noteq> [] \<or> currentWord st \<noteq> []"
  shows "mset (content (wrapChar We t b n v st)) = mset (content st) + (if v = CHR 0x0A then {#} else {#v#})"
    and "accumWidth (wrapChar We t b n v st) \<noteq> 0 \<longrightarrow> line (wrapChar We t b n v st) \<noteq> [] \<or> currentWord (wrapChar We t b n v st) \<noteq> []"
    and "v = CHR 0x0A \<or> lines st \<noteq> [] \<Longrightarrow> lines (wrapChar We t b n v st) \<noteq> []"
  using assms by (auto simp: wrap_defs content_def)

lemma wrap_loop_content:
  "mset (content (fold (wrapChar We t b n) r newWrapping)) = mset (filter (\<lambda>c. c \<noteq> CHR 0x0A) r) \<and>
   (accumWidth (fold (wrapChar We t b n) r newWrapping) \<noteq> 0 \<longrightarrow>
      line (fold (wrapChar We t b n) r newWrapping) \<noteq> [] \<or> currentWord (fold (wrapChar We t b n) r newWrapping) \<noteq> []) \<and>
   (CHR 0x0A \<in> set r \<longrightarrow> lines (fold (wrapChar We t b n) r newWrapping) \<noteq> [])"
proof (induction r rule: rev_induct)
  case (snoc v r)
  then show ?case
    using wrapChar_content[where st = "fold (wrapChar We t b n) r newWrapping" and We = We and t = t and b = b and n = n and v = v]
    by (auto split: if_splits)
qed (simp add: newWrapping_def content_def)

text \<open>wrapping loses no character and invents none: for every width, every way of breaking and every font, the
  lines together have exactly the characters of the text other than its line breaks.\<close>

theorem wrap_keeps_characters:
  "mset (concat (lines (wrapText We r t b n))) = mset (filter (\<lambda>c. c \<noteq> CHR 0x0A) r)"
proof -
  define st where "st = fold (wrapChar We t b n) r newWrapping"
  have m: "mset (content st) = mset (filter (\<lambda>c. c \<noteq> CHR 0x0A) r)" "CHR 0x0A \<in> set r \<longrightarrow> lines st \<noteq> []"
    using wrap_loop_content[of We t b n r] by (simp_all add: st_def)
  have w: "wrapText We r t b n = wrapEnd r n st" by (simp add: wrapText_def st_def)
  show ?thesis
  proof (cases "lines st = [] \<and> line st = []")
    case True
    then have "CHR 0x0A \<notin> set r" using m(2) by auto
    then have "filter (\<lambda>c. c \<noteq> CHR 0x0A) r = r" by (intro filter_True) auto
    then show ?thesis using True by (auto simp: w wrapEnd_def pushLine_def Let_def)
  next
    case False
    then have "concat (lines (wrapEnd r n st)) = content st"
      by (auto simp: wrapEnd_def pushLine_def Let_def content_def)
    then show ?thesis using m(1) w by simp
  qed
qed

text \<open>In a font of fixed width that fits a character into a line, the widths of the state are those of its texts, no
  line is too wide and the text is kept in its order.\<close>

definition wrap_inv :: "rat \<Rightarrow> rat \<Rightarrow> string \<Rightarrow> wrapping \<Rightarrow> bool" where
  "wrap_inv a t done st \<longleftrightarrow> content st = done \<and> accumWidth st = of_nat (length (line st) + length (currentWord st)) * a \<and>
     currentWordWidth st = of_nat (length (currentWord st)) * a \<and> accumWidth st \<le> t \<and> (\<forall>l \<in> set (lines st). of_nat (length l) * a \<le> t)"

lemma wrapOverflow_inv:
  assumes "0 < a" "a \<le> t" "wrap_inv a t d st" "accumWidth st + a > t"
  shows "wrap_inv a t (d @ [v]) (wrapOverflow v a p st)"
proof -
  let ?l = "length (line st)" and ?w = "length (currentWord st)"
  have acc: "accumWidth st = of_nat (?l + ?w) * a" "currentWordWidth st = of_nat ?w * a" "of_nat (?l + ?w) * a \<le> t"
    and c: "content st = d" "\<forall>l \<in> set (lines st). of_nat (length l) * a \<le> t"
    using assms(3) by (auto simp: wrap_inv_def)
  have nz: "accumWidth st \<noteq> 0" using assms(2,4) by auto
  then have ne: "\<not> (line st = [] \<and> currentWord st = [])" using acc(1) by auto
  have le: "of_nat k * a \<le> t" if "k \<le> ?l + ?w" for k
    using that assms(1) acc(3) by (meson mult_right_mono of_nat_mono order.trans less_imp_le)
  have one: "of_nat (Suc ?w) * a \<le> t" if "line st \<noteq> []" using le[of "Suc ?w"] that by (cases "line st") auto
  show ?thesis
  proof (cases p)
    case True
    then show ?thesis
      using nz ne c acc le[of ?w] le[of ?l] one assms(2)
      by (cases "line st = []") (auto simp: wrap_inv_def wrapOverflow_def pushLine_def Let_def content_def algebra_simps)
  next
    case False
    then show ?thesis
      using nz ne c acc le[of "?l + ?w"] assms(2)
      by (cases "currentWord st = []") (auto simp: wrap_inv_def wrapOverflow_def pushLine_def flushWord_def Let_def content_def algebra_simps)
  qed
qed

lemma wrapChar_inv:
  assumes "fixed_width We a" "a \<le> t" "wrap_inv a t d st"
  shows "wrap_inv a t (d @ (if v = CHR 0x0A then [] else [v])) (wrapChar We t b 0 v st)"
proof -
  have a: "0 < a" "We [v] = a" using assms(1) by (auto simp: fixed_width_def)
  have inv: "accumWidth st = of_nat (length (line st) + length (currentWord st)) * a" "currentWordWidth st = of_nat (length (currentWord st)) * a"
    "accumWidth st \<le> t" "\<forall>l \<in> set (lines st). of_nat (length l) * a \<le> t" "content st = d"
    using assms(3) by (auto simp: wrap_inv_def)
  consider "v = CHR 0x0A" | "v \<noteq> CHR 0x0A" "accumWidth st + a > t" | "v \<noteq> CHR 0x0A" "\<not> accumWidth st + a > t" by blast
  then show ?thesis
  proof cases
    case 1
    have "of_nat (length (line st) + length (currentWord st)) * a \<le> t" using inv(1,3) by simp
    then show ?thesis using 1 inv a assms(2) by (auto simp: wrap_inv_def wrapChar_def wrapNewline_def pushLine_def Let_def content_def)
  next
    case 2
    then have "wrapChar We t b 0 v st = wrapOverflow v a (\<not> b \<and> \<not> isWordBreak v) st" by (simp add: wrapChar_def Let_def a(2))
    then show ?thesis using 2 wrapOverflow_inv[OF a(1) assms(2,3)] by simp
  next
    case 3
    then show ?thesis using inv by (auto simp: wrap_inv_def wrapChar_def flushWord_def Let_def a(2) content_def algebra_simps)
  qed
qed

text \<open>C33: in a font of fixed width of which at least one character fits into a line, wrapping an own line of text keeps its
  characters in their order, and no line is wider than asked for.\<close>

theorem wrap_fits_and_keeps_order:
  assumes "fixed_width We a" and "a \<le> t"
  shows "concat (lines (wrapText We r t b 0)) = filter (\<lambda>c. c \<noteq> CHR 0x0A) r \<and>
    (\<forall>l \<in> set (lines (wrapText We r t b 0)). We l \<le> t)"
proof -
  define st where "st = fold (wrapChar We t b 0) r newWrapping"
  have a: "0 < a" "\<And>s. We s = of_nat (length s) * a" using assms(1) by (auto simp: fixed_width_def)
  have "wrap_inv a t (filter (\<lambda>c. c \<noteq> CHR 0x0A) r) st" unfolding st_def
  proof (induction r rule: rev_induct)
    case (snoc v r)
    from wrapChar_inv[OF assms snoc, of v b] show ?case by (auto split: if_splits)
  qed (use a assms(2) in \<open>simp add: wrap_inv_def newWrapping_def content_def\<close>)
  then have inv: "content st = filter (\<lambda>c. c \<noteq> CHR 0x0A) r" "of_nat (length (line st) + length (currentWord st)) * a \<le> t"
    "\<forall>l \<in> set (lines st). of_nat (length l) * a \<le> t" by (auto simp: wrap_inv_def)
  have nl: "CHR 0x0A \<in> set r \<longrightarrow> lines st \<noteq> []" using wrap_loop_content[of We t b 0 r] by (simp add: st_def)
  have w: "wrapText We r t b 0 = wrapEnd r 0 st" by (simp add: wrapText_def st_def)
  show ?thesis
  proof (cases "lines st = [] \<and> line st = []")
    case True
    then have "filter (\<lambda>c. c \<noteq> CHR 0x0A) r = r" using nl by (intro filter_True) auto
    then show ?thesis using True inv a by (auto simp: w wrapEnd_def pushLine_def Let_def content_def)
  next
    case False
    then show ?thesis using inv a by (auto simp: w wrapEnd_def pushLine_def Let_def content_def algebra_simps)
  qed
qed

theorem wrap_fits_and_keeps_order_witness:
  "fixed_width eight_pixels 8 \<and> concat (lines (wrapText eight_pixels ''active session'' 40 False 0)) = ''active session''"
proof -
  have fw: "fixed_width eight_pixels 8" by (simp add: fixed_width_def eight_pixels_def)
  have "filter (\<lambda>c. c \<noteq> CHR 0x0A) ''active session'' = ''active session''" by simp
  then show ?thesis using wrap_fits_and_keeps_order[OF fw, of 40 "''active session''" False] fw by simp
qed

end
