(* ===== verification/Chart_Markup.thy ===== *)
theory Chart_Markup
  imports Js_Library "HOL-Library.AList"
begin

text \<open>
  The markup that charts produce (\<open>home-296339b0.js\<close>): the tooltip as HTML or as rich text, and the
  tree of an SVG picture as text.  Names and values of a tooltip are texts (the value type
  \<open>ordinal\<close>) without a formatter of the page's own.
\<close>

section \<open>Escaping\<close>

definition escape_char :: "char \<Rightarrow> string" where
  "escape_char c = (if c = CHR ''&'' then ''&amp;'' else if c = CHR ''<'' then ''&lt;'' else if c = CHR ''>'' then ''&gt;''
     else if c = CHR 0x22 then ''&quot;'' else if c = CHR 0x27 then ''&#39;'' else [c])"

definition encodeHTML :: "string \<Rightarrow> string" where
  "encodeHTML s = concat (map escape_char s)"

section \<open>Tooltips\<close>

text \<open>A fragment of a tooltip: a section with its blocks, or a line with a marker, a name and values.
  The number that orders the blocks is None for \<open>NaN\<close>; texts that are no numbers do not occur.\<close>

datatype fragment =
    Section (sec_header: string) (sec_noHeader: bool) (sec_sortBlocks: bool) (sec_sortParam: "int option") (sec_blocks: "fragment list")
  | NameValue (nv_marker: "string option") (nv_color: string) (nv_name: string) (nv_noName: bool) (nv_noValue: bool)
      (nv_value: "string list") (nv_sortParam: "int option")

type_synonym style = "(string \<times> string) list"

text \<open>The creator of styles for rich text: the number of the next style and the styles so far.\<close>

record creator =
  nextStyleNameId :: nat
  richTextStyles :: "(string \<times> style) list"

record textStyle =
  ts_color :: string
  ts_fontSize :: string
  ts_fontWeight :: string

record tooltip =
  richText :: bool
  orderMode :: string
  tip_style :: textStyle

definition gap_html :: "nat list" where
  "gap_html = [0, 10, 20, 30]"

definition gap_rich :: "string list" where
  "gap_rich = [[], [CHR 0x0A], [CHR 0x0A, CHR 0x0A], [CHR 0x0A, CHR 0x0A, CHR 0x0A]]"

text \<open>An index past the end reads as \<open>undefined\<close>, which the text of a margin then spells out, and which
  joins with a comma.\<close>

definition html_gap :: "nat \<Rightarrow> string" where
  "html_gap k = (if k < length gap_html then string_of_nat (gap_html ! k) else ''undefined'')"

definition rich_gap :: "nat \<Rightarrow> string" where
  "rich_gap k = (if k < length gap_rich then gap_rich ! k else '','')"

text \<open>After the header a missing gap is added as a text.\<close>

definition rich_gap_text :: "nat \<Rightarrow> string" where
  "rich_gap_text k = (if k < length gap_rich then gap_rich ! k else ''undefined'')"

fun shownHeader :: "fragment \<Rightarrow> bool" where
  "shownHeader (Section _ nh _ _ _) = (\<not> nh)"
| "shownHeader _ = False"

definition level_step :: "bool \<Rightarrow> bool \<Rightarrow> nat \<Rightarrow> nat \<Rightarrow> nat" where
  "level_step a shown i e = (if e \<le> i then i + (if a \<and> (i = 0 \<or> shown) then 1 else 0) else e)"

fun gapLevel :: "fragment \<Rightarrow> nat" where
  "gapLevel (Section h nh sb sp bs) =
     (let t = length bs; a = (t > 1 \<or> t > 0 \<and> \<not> nh) in
      fold (\<lambda>(shown, i) e. level_step a shown i e) (map (\<lambda>b. (shownHeader b, gapLevel b)) bs) 0)"
| "gapLevel (NameValue _ _ _ _ _ _ _) = 0"

fun sortParam :: "fragment \<Rightarrow> int option" where
  "sortParam (Section _ _ _ p _) = p"
| "sortParam (NameValue _ _ _ _ _ _ p) = p"

text \<open>The order of the blocks: by their number with the texts that are none at the end, or reversed.\<close>

definition order_blocks :: "bool \<Rightarrow> string \<Rightarrow> (int option \<times> 'a) list \<Rightarrow> (int option \<times> 'a) list" where
  "order_blocks sb mode bs =
     (if \<not> sb \<or> mode = [] then bs
      else if mode = ''valueAsc'' then sort_key (\<lambda>b. the (fst b)) (filter (\<lambda>b. fst b \<noteq> None) bs) @ filter (\<lambda>b. fst b = None) bs
      else if mode = ''valueDesc'' then sort_key (\<lambda>b. - the (fst b)) (filter (\<lambda>b. fst b \<noteq> None) bs) @ filter (\<lambda>b. fst b = None) bs
      else if mode = ''seriesDesc'' then rev bs else bs)"

definition orDefault :: "string \<Rightarrow> string \<Rightarrow> string" where
  "orDefault s d = (if s = [] then d else s)"

definition html_style :: "string \<Rightarrow> string \<Rightarrow> string \<Rightarrow> string" where
  "html_style sz color weight =
     ''font-size:'' @ encodeHTML sz @ ''px;color:'' @ encodeHTML color @ '';font-weight:'' @ encodeHTML weight"

definition nameStyle :: "textStyle \<Rightarrow> string" where
  "nameStyle r = html_style (orDefault (ts_fontSize r) ''12'') (orDefault (ts_color r) ''#6e7079'') (orDefault (ts_fontWeight r) ''400'')"

definition valueStyle :: "textStyle \<Rightarrow> string" where
  "valueStyle r = html_style (orDefault (ts_fontSize r) ''14'') (orDefault (ts_color r) ''#464646'') (orDefault (ts_fontWeight r) ''900'')"

definition nameStyle_rich :: "textStyle \<Rightarrow> style" where
  "nameStyle_rich r = [(''fontSize'', orDefault (ts_fontSize r) ''12''), (''fill'', orDefault (ts_color r) ''#6e7079''),
     (''fontWeight'', orDefault (ts_fontWeight r) ''400'')]"

definition valueStyle_rich :: "textStyle \<Rightarrow> style" where
  "valueStyle_rich r = [(''fontSize'', orDefault (ts_fontSize r) ''14''), (''fill'', orDefault (ts_color r) ''#464646''),
     (''fontWeight'', orDefault (ts_fontWeight r) ''900'')]"

text \<open>A text as it is shown: one of white space only is a dash.\<close>

definition readable_text :: "string \<Rightarrow> string" where
  "readable_text s = (if js_trim s = [] then ''-'' else s)"

definition quoted :: "string \<Rightarrow> string" where
  "quoted s = [CHR 0x22] @ s @ [CHR 0x22]"

definition wrapBlock :: "string \<Rightarrow> string \<Rightarrow> string" where
  "wrapBlock r gap = ''<div style='' @ quoted (''margin: '' @ gap @ ''px 0 0'' @ '';'' @ ''line-height:1'' @ '';'') @ ''>'' @ r @
     ''<div style='' @ quoted ''clear:both'' @ ''></div>'' @ ''</div>''"

definition nameHTML :: "string \<Rightarrow> bool \<Rightarrow> string \<Rightarrow> string" where
  "nameHTML r leftMargin st = ''<span style='' @ quoted (st @ '';'' @ (if leftMargin then ''margin-left:2px'' else [])) @ ''>'' @ encodeHTML r @ ''</span>''"

definition valueHTML :: "string list \<Rightarrow> bool \<Rightarrow> bool \<Rightarrow> string \<Rightarrow> string" where
  "valueHTML vs alignRight close st =
     ''<span style='' @ quoted ((if alignRight then ''float:right;margin-left:'' @ (if close then ''10px'' else ''20px'') else []) @ '';'' @ st) @ ''>'' @
     js_join ''&nbsp;&nbsp;'' (map encodeHTML vs) @ ''</span>''"

definition markerHTML :: "string \<Rightarrow> string \<Rightarrow> string" where
  "markerHTML ty color =
     (if ty = ''subItem'' then ''<span style='' @ quoted (''display:inline-block;vertical-align:middle;margin-right:8px;margin-left:3px;border-radius:4px;width:4px;height:4px;background-color:'' @
        encodeHTML color @ '';'') @ ''></span>''
      else ''<span style='' @ quoted (''display:inline-block;margin-right:4px;border-radius:10px;width:10px;height:10px;background-color:'' @
        encodeHTML color @ '';'') @ ''></span>'')"

section \<open>Styles of rich text\<close>

definition styleName :: "creator \<Rightarrow> string" where
  "styleName c = ''__EC_aUTo_'' @ string_of_nat (nextStyleNameId c)"

definition add_style :: "style \<Rightarrow> creator \<Rightarrow> creator" where
  "add_style s c = \<lparr>nextStyleNameId = Suc (nextStyleNameId c), richTextStyles = AList.update (styleName c) s (richTextStyles c)\<rparr>"

definition wrapRichTextStyle :: "string \<Rightarrow> style list \<Rightarrow> creator \<Rightarrow> string \<times> creator" where
  "wrapRichTextStyle e ss c = (''{'' @ styleName c @ ''|'' @ e @ ''}'', add_style (fold (\<lambda>s acc. fold (\<lambda>(k, v). AList.update k v) s acc) ss []) c)"

definition markerRich :: "string \<Rightarrow> string \<Rightarrow> creator \<Rightarrow> string \<times> creator" where
  "markerRich ty color c = (''{'' @ styleName c @ ''|}  '',
     add_style (if ty = ''subItem'' then [(''width'', ''4''), (''height'', ''4''), (''borderRadius'', ''2''), (''backgroundColor'', color)]
       else [(''width'', ''10''), (''height'', ''10''), (''borderRadius'', ''5''), (''backgroundColor'', color)]) c)"

section \<open>Rendering a tooltip\<close>

definition render_line :: "tooltip \<Rightarrow> string option \<Rightarrow> string \<Rightarrow> string \<Rightarrow> bool \<Rightarrow> bool \<Rightarrow> string list \<Rightarrow> string \<Rightarrow> creator \<Rightarrow>
    string option \<times> creator" where
  "render_line r marker color name noName noValue vs gap c =
     (if noName \<and> noValue then (None, c)
      else
        let alignRight = (marker \<noteq> None \<or> \<not> noName); close = (marker \<noteq> None \<and> noName);
            v = readable_text name; p = map readable_text vs; col = orDefault color ''#333'' in
        if richText r then
          (let (m, c1) = (case marker of None \<Rightarrow> ([], c) | Some ty \<Rightarrow> markerRich ty col c);
               (n, c2) = (if noName then ([], c1) else wrapRichTextStyle v [nameStyle_rich (tip_style r)] c1);
               (x, c3) = (if noValue then ([], c2) else wrapRichTextStyle (js_join ''  '' p)
                  ([valueStyle_rich (tip_style r)] @ (if alignRight then [[(''padding'', if close then ''0,0,0,10'' else ''0,0,0,20''), (''align'', ''right'')]] else [])) c2)
           in (Some (m @ n @ x), c3))
        else (Some (wrapBlock ((case marker of None \<Rightarrow> [] | Some ty \<Rightarrow> markerHTML ty col) @
             (if noName then [] else nameHTML v (marker \<noteq> None) (nameStyle (tip_style r))) @
             (if noValue then [] else valueHTML p alignRight close (valueStyle (tip_style r)))) gap), c))"

text \<open>The blocks of a section one after the other; the first has no gap above it.\<close>

fun render_blocks :: "(string \<Rightarrow> creator \<Rightarrow> string option \<times> creator) list \<Rightarrow> string \<Rightarrow> string \<Rightarrow> creator \<Rightarrow> string list \<times> creator" where
  "render_blocks [] first rest c = ([], c)"
| "render_blocks (f # fs) first rest c =
     (case f first c of (y, c1) \<Rightarrow> case render_blocks fs rest rest c1 of (ys, c2) \<Rightarrow>
        ((case y of None \<Rightarrow> ys | Some s \<Rightarrow> s # ys), c2))"

definition render_section :: "tooltip \<Rightarrow> string \<Rightarrow> bool \<Rightarrow> nat \<Rightarrow> (string \<Rightarrow> creator \<Rightarrow> string option \<times> creator) list \<Rightarrow> string \<Rightarrow>
    creator \<Rightarrow> string option \<times> creator" where
  "render_section r header noHeader level fs gap c =
     (case render_blocks fs ''0'' (html_gap level) c of (os, c1) \<Rightarrow>
        if richText r then
          (let h = js_join (rich_gap level) os in
           if noHeader then (Some h, c1)
           else (case wrapRichTextStyle (readable_text header) [nameStyle_rich (tip_style r)] c1 of
                   (t, c2) \<Rightarrow> (Some (t @ rich_gap_text level @ h), c2)))
        else
          (let h = wrapBlock (concat os) (if noHeader then gap else html_gap level) in
           if noHeader then (Some h, c1)
           else (Some (wrapBlock (''<div style='' @ quoted (nameStyle (tip_style r) @ '';'' @ ''line-height:1'' @ '';'') @ ''>'' @
             encodeHTML (readable_text header) @ ''</div>'' @ h) gap), c1)))"

fun render :: "tooltip \<Rightarrow> fragment \<Rightarrow> string \<Rightarrow> creator \<Rightarrow> string option \<times> creator" where
  "render r (Section header noHeader sb sp bs) =
     render_section r header noHeader (gapLevel (Section header noHeader sb sp bs))
       (map snd (order_blocks sb (orderMode r) (map (\<lambda>b. (sortParam b, render r b)) bs)))"
| "render r (NameValue marker color name noName noValue vs sp) = render_line r marker color name noName noValue vs"

definition buildTooltipMarkup :: "tooltip \<Rightarrow> fragment option \<Rightarrow> creator \<Rightarrow> string option \<times> creator" where
  "buildTooltipMarkup r f c = (case f of None \<Rightarrow> (None, c) | Some b \<Rightarrow> render r b ''0'' c)"

section \<open>SVG pictures\<close>

datatype attr = AFalse | ATrue | ANull | AText string

datatype vnode = VNode (v_tag: string) (v_attrs: "(string \<times> attr) list") (v_children: "vnode list option") (v_text: "string option")

definition attr_text :: "string \<times> attr \<Rightarrow> string list" where
  "attr_text = (\<lambda>(a, n). case n of AFalse \<Rightarrow> [] | ATrue \<Rightarrow> [a] | ANull \<Rightarrow> [a] | AText s \<Rightarrow> [a @ ''='' @ quoted s])"

definition createElementOpen :: "string \<Rightarrow> (string \<times> attr) list \<Rightarrow> string" where
  "createElementOpen r e = ''<'' @ r @ '' '' @ js_join '' '' (concat (map attr_text e)) @ ''>''"

definition createElementClose :: "string \<Rightarrow> string" where
  "createElementClose r = ''</'' @ r @ ''>''"

fun vNodeToString :: "bool \<Rightarrow> vnode \<Rightarrow> string" where
  "vNodeToString newline (VNode tag attrs children txt) =
     (let t = (if newline then [CHR 0x0A] else []) in
      createElementOpen tag attrs @
      (if tag \<noteq> ''style'' then encodeHTML (case txt of None \<Rightarrow> [] | Some s \<Rightarrow> s) else (case txt of None \<Rightarrow> [] | Some s \<Rightarrow> s)) @
      (case children of None \<Rightarrow> [] | Some cs \<Rightarrow> t @ js_join t (map (vNodeToString newline) cs) @ t) @
      createElementClose tag)"

text \<open>The style sheet of a picture: rules by selector, then animations by name and position.\<close>

definition css_block :: "string \<Rightarrow> string \<Rightarrow> string list \<Rightarrow> string" where
  "css_block nl name body = name @ '' {'' @ nl @ js_join nl body @ nl @ ''}''"

definition frame_line :: "string \<times> string \<Rightarrow> string" where
  "frame_line = (\<lambda>(f, h). f @ '':'' @ (if f = ''d'' then ''path('' @ quoted h @ '')'' else h) @ '';'')"

definition getCssString :: "(string \<times> (string \<times> string) list) list \<Rightarrow> (string \<times> (string \<times> (string \<times> string) list) list) list \<Rightarrow> bool \<Rightarrow> string" where
  "getCssString nodes anims newline =
     (let a = (if newline then [CHR 0x0A] else []);
          o' = js_join a (map (\<lambda>(l, ps). css_block a l (map (\<lambda>(u, v). u @ '':'' @ v @ '';'') ps)) nodes);
          s = js_join a (map (\<lambda>(l, fs). css_block a (''@keyframes '' @ l) (map (\<lambda>(u, ps). css_block a u (map frame_line ps)) fs)) anims) in
      if o' = [] \<and> s = [] then [] else js_join a [''<![CDATA['', o', s, '']]>''])"

section \<open>Nesting of tags\<close>

text \<open>A reader of markup that keeps the open tags on a stack: an opening tag is pushed, a closing tag
  has to name the tag on top.\<close>

function nest :: "string list \<Rightarrow> string \<Rightarrow> string list option" where
  "nest st [] = Some st"
| "nest st (c # cs) =
     (if c \<noteq> CHR ''<'' then nest st cs
      else if cs \<noteq> [] \<and> hd cs = CHR ''/'' then
        (if st \<noteq> [] \<and> hd st = takeWhile (\<lambda>x. x \<noteq> CHR ''>'') (tl cs) then nest (tl st) (tl (dropWhile (\<lambda>x. x \<noteq> CHR ''>'') cs)) else None)
      else nest (takeWhile (\<lambda>x. x \<noteq> CHR '' '' \<and> x \<noteq> CHR ''>'') cs # st) (tl (dropWhile (\<lambda>x. x \<noteq> CHR ''>'') cs)))"
  by pat_completeness auto
termination
  by (relation "measure (\<lambda>(st, s). length s)") (auto simp: less_Suc_eq_le intro: le_trans[OF diff_le_self length_dropWhile_le])

definition balanced :: "string \<Rightarrow> bool" where
  "balanced s \<longleftrightarrow> (\<forall>st r. nest st (s @ r) = nest st r)"

lemma nest_text: "CHR ''<'' \<notin> set s \<Longrightarrow> nest st (s @ r) = nest st r"
  by (induction s) auto

lemma balanced_text: "CHR ''<'' \<notin> set s \<Longrightarrow> balanced s"
  by (simp add: balanced_def nest_text)

lemma balanced_Nil [simp]: "balanced []"
  by (simp add: balanced_def)

lemma balanced_append [intro]: "balanced s \<Longrightarrow> balanced t \<Longrightarrow> balanced (s @ t)"
  by (simp add: balanced_def)

lemma balanced_concat: "\<forall>s \<in> set ss. balanced s \<Longrightarrow> balanced (concat ss)"
  by (induction ss) auto

lemma balanced_join: "balanced sep \<Longrightarrow> \<forall>s \<in> set ss. balanced s \<Longrightarrow> balanced (js_join sep ss)"
  by (induction sep ss rule: js_join.induct) (auto intro!: balanced_append)

lemma balanced_reads: "balanced s \<Longrightarrow> nest [] s = Some []"
  by (metis append_Nil2 balanced_def nest.simps(1))

text \<open>The name of a tag, and an element with its attributes and its body.\<close>

definition tag_name :: "string \<Rightarrow> bool" where
  "tag_name t \<longleftrightarrow> t \<noteq> [] \<and> hd t \<noteq> CHR ''/'' \<and> CHR '' '' \<notin> set t \<and> CHR ''>'' \<notin> set t"

lemma span_stop: "\<forall>x \<in> set p. P x \<Longrightarrow> \<not> P y \<Longrightarrow> takeWhile P (p @ y # s) = p \<and> dropWhile P (p @ y # s) = y # s"
  by (induction p) auto

definition element :: "string \<Rightarrow> string \<Rightarrow> string \<Rightarrow> string" where
  "element t i b = ''<'' @ t @ '' '' @ i @ ''>'' @ b @ ''</'' @ t @ ''>''"

lemma nest_open:
  assumes "tag_name t" and "CHR ''>'' \<notin> set i"
  shows "nest st (CHR ''<'' # t @ CHR '' '' # i @ CHR ''>'' # r) = nest (t # st) r"
proof -
  have t: "t \<noteq> []" "hd (t @ x) \<noteq> CHR ''/''" for x using assms(1) by (auto simp: tag_name_def)
  have "\<forall>x \<in> set (t @ CHR '' '' # i). x \<noteq> CHR ''>''" using assms by (auto simp: tag_name_def)
  from span_stop[OF this, of "CHR ''>''" r] have d: "dropWhile (\<lambda>x. x \<noteq> CHR ''>'') (t @ CHR '' '' # i @ CHR ''>'' # r) = CHR ''>'' # r" by simp
  have "\<forall>x \<in> set t. x \<noteq> CHR '' '' \<and> x \<noteq> CHR ''>''" using assms(1) by (auto simp: tag_name_def)
  from span_stop[OF this, of "CHR '' ''" "i @ CHR ''>'' # r"]
  have n: "takeWhile (\<lambda>x. x \<noteq> CHR '' '' \<and> x \<noteq> CHR ''>'') (t @ CHR '' '' # i @ CHR ''>'' # r) = t" by simp
  show ?thesis unfolding nest.simps d n using t by simp
qed

lemma nest_close:
  assumes "tag_name t"
  shows "nest (t # st) (CHR ''<'' # CHR ''/'' # t @ CHR ''>'' # r) = nest st r"
proof -
  have "\<forall>x \<in> set t. x \<noteq> CHR ''>''" using assms by (auto simp: tag_name_def)
  from span_stop[OF this, of "CHR ''>''" r] show ?thesis by simp
qed

lemma balanced_element:
  assumes "tag_name t" and "CHR ''>'' \<notin> set i" and "balanced b"
  shows "balanced (element t i b)"
  unfolding balanced_def
proof (intro allI)
  fix st r
  have "element t i b @ r = CHR ''<'' # t @ CHR '' '' # i @ CHR ''>'' # b @ CHR ''<'' # CHR ''/'' # t @ CHR ''>'' # r" by (simp add: element_def)
  then have "nest st (element t i b @ r) = nest (t # st) (b @ CHR ''<'' # CHR ''/'' # t @ CHR ''>'' # r)"
    using nest_open[OF assms(1,2)] by simp
  also have "\<dots> = nest (t # st) (CHR ''<'' # CHR ''/'' # t @ CHR ''>'' # r)" using assms(3) by (simp only: balanced_def)
  also have "\<dots> = nest st r" by (rule nest_close[OF assms(1)])
  finally show "nest st (element t i b @ r) = nest st r" .
qed

section \<open>Markup of tooltips is well nested\<close>

lemma encodeHTML_clean [simp]: "CHR ''<'' \<notin> set (encodeHTML s)" "CHR ''>'' \<notin> set (encodeHTML s)"
  by (auto simp: encodeHTML_def escape_char_def)

lemma string_of_nat_clean [simp]: "CHR ''>'' \<notin> set (string_of_nat n)"
  by (rule string_of_nat_not_sign) simp

lemma html_style_clean [simp]: "CHR ''>'' \<notin> set (html_style a b c)"
  by (simp add: html_style_def)

lemma styles_clean [simp]: "CHR ''>'' \<notin> set (nameStyle r)" "CHR ''>'' \<notin> set (valueStyle r)"
  by (simp_all add: nameStyle_def valueStyle_def)

lemma html_gap_clean [simp]: "CHR ''>'' \<notin> set (html_gap k)"
  by (simp add: html_gap_def)

lemma tag_names: "tag_name ''div''" "tag_name ''span''"
  by (simp_all add: tag_name_def)

definition styled :: "string \<Rightarrow> string \<Rightarrow> string \<Rightarrow> string" where
  "styled t s b = element t (''style='' @ quoted s) b"

lemma balanced_styled: "tag_name t \<Longrightarrow> CHR ''>'' \<notin> set s \<Longrightarrow> balanced b \<Longrightarrow> balanced (styled t s b)"
  unfolding styled_def by (rule balanced_element) (simp_all add: quoted_def)

text \<open>The pieces of a tooltip are such elements.\<close>

lemma wrapBlock_styled:
  "wrapBlock r gap = styled ''div'' (''margin: '' @ gap @ ''px 0 0;line-height:1;'') (r @ styled ''div'' ''clear:both'' [])"
  by (simp add: wrapBlock_def styled_def element_def)

lemma nameHTML_styled: "nameHTML r m st = styled ''span'' (st @ '';'' @ (if m then ''margin-left:2px'' else [])) (encodeHTML r)"
  by (simp add: nameHTML_def styled_def element_def)

lemma valueHTML_styled:
  "valueHTML vs a k st = styled ''span'' ((if a then ''float:right;margin-left:'' @ (if k then ''10px'' else ''20px'') else []) @ '';'' @ st)
     (js_join ''&nbsp;&nbsp;'' (map encodeHTML vs))"
  by (simp add: valueHTML_def styled_def element_def)

lemma markerHTML_styled:
  "markerHTML ty color = styled ''span'' ((if ty = ''subItem'' then ''display:inline-block;vertical-align:middle;margin-right:8px;margin-left:3px;border-radius:4px;width:4px;height:4px;background-color:''
     else ''display:inline-block;margin-right:4px;border-radius:10px;width:10px;height:10px;background-color:'') @ encodeHTML color @ '';'') []"
  by (simp add: markerHTML_def styled_def element_def)

lemma balanced_wrapBlock: "CHR ''>'' \<notin> set gap \<Longrightarrow> balanced r \<Longrightarrow> balanced (wrapBlock r gap)"
  unfolding wrapBlock_styled by (intro balanced_styled balanced_append tag_names) simp_all

lemma balanced_markerHTML: "balanced (markerHTML ty color)"
  unfolding markerHTML_styled by (intro balanced_styled tag_names) simp_all

lemma balanced_nameHTML: "CHR ''>'' \<notin> set st \<Longrightarrow> balanced (nameHTML r m st)"
  unfolding nameHTML_styled by (intro balanced_styled tag_names balanced_text) simp_all

lemma balanced_valueHTML: "CHR ''>'' \<notin> set st \<Longrightarrow> balanced (valueHTML vs a k st)"
proof -
  assume "CHR ''>'' \<notin> set st"
  moreover have "balanced (js_join ''&nbsp;&nbsp;'' (map encodeHTML vs))"
    by (rule balanced_join) (auto intro: balanced_text)
  ultimately show ?thesis unfolding valueHTML_styled by (intro balanced_styled tag_names) simp_all
qed

lemmas balanced_parts = balanced_wrapBlock balanced_markerHTML balanced_nameHTML balanced_valueHTML balanced_append balanced_text

lemma balanced_render_line:
  assumes "\<not> richText r" and "CHR ''>'' \<notin> set gap"
  shows "pred_option balanced (fst (render_line r marker color name noName noValue vs gap c))"
proof (cases "noName \<and> noValue")
  case False
  have "balanced (wrapBlock ((case marker of None \<Rightarrow> [] | Some ty \<Rightarrow> markerHTML ty (orDefault color ''#333'')) @
      (if noName then [] else nameHTML (readable_text name) (marker \<noteq> None) (nameStyle (tip_style r))) @
      (if noValue then [] else valueHTML (map readable_text vs) (marker \<noteq> None \<or> \<not> noName) (marker \<noteq> None \<and> noName) (valueStyle (tip_style r)))) gap)"
    using assms(2) by (intro balanced_wrapBlock balanced_append)
      (simp_all add: balanced_markerHTML balanced_nameHTML balanced_valueHTML split: option.split)
  then show ?thesis
    unfolding render_line_def Let_def if_not_P[OF False] if_not_P[OF assms(1)] by (simp only: fst_conv option.pred_inject)
qed (simp add: render_line_def)

lemma balanced_render_blocks:
  assumes "\<forall>f \<in> set fs. \<forall>g c. CHR ''>'' \<notin> set g \<longrightarrow> pred_option balanced (fst (f g c))"
    and "CHR ''>'' \<notin> set first" and "CHR ''>'' \<notin> set rest"
  shows "\<forall>s \<in> set (fst (render_blocks fs first rest c)). balanced s"
  using assms
proof (induction fs arbitrary: first c)
  case (Cons f fs)
  obtain y c1 where y: "f first c = (y, c1)" by force
  obtain ys c2 where ys: "render_blocks fs rest rest c1 = (ys, c2)" by force
  have "pred_option balanced (fst (f first c))" using Cons.prems by simp
  then have "pred_option balanced y" by (simp add: y)
  moreover have "\<forall>s \<in> set ys. balanced s" using Cons.IH[of rest c1] Cons.prems ys by simp
  ultimately show ?case by (cases y) (simp_all add: y ys)
qed simp

lemma set_order_blocks: "set (order_blocks sb m bs) = set bs"
  by (auto simp: order_blocks_def)

lemma balanced_render:
  assumes "\<not> richText r"
  shows "CHR ''>'' \<notin> set gap \<Longrightarrow> pred_option balanced (fst (render r f gap c))"
proof (induction f arbitrary: gap c)
  case (Section header noHeader sb sp bs)
  let ?fs = "map snd (order_blocks sb (orderMode r) (map (\<lambda>b. (sortParam b, render r b)) bs))"
  have "\<forall>f \<in> set ?fs. \<forall>g c. CHR ''>'' \<notin> set g \<longrightarrow> pred_option balanced (fst (f g c))"
    using Section.IH by (auto simp: set_order_blocks)
  then have b: "\<forall>s \<in> set (fst (render_blocks ?fs ''0'' (html_gap k) c)). balanced s" for k c by (rule balanced_render_blocks) simp_all
  have hd: "balanced (styled ''div'' (nameStyle (tip_style r) @ '';line-height:1;'') (encodeHTML t))" for t
    by (intro balanced_styled tag_names balanced_text) simp_all
  define k where "k = gapLevel (Section header noHeader sb sp bs)"
  obtain os c1 where os: "render_blocks ?fs ''0'' (html_gap k) c = (os, c1)" by force
  then have h: "CHR ''>'' \<notin> set g \<Longrightarrow> balanced (wrapBlock (concat os) g)" for g
    using b[of k c] balanced_concat balanced_wrapBlock by simp
  have r: "fst (render r (Section header noHeader sb sp bs) gap c) =
      Some (if noHeader then wrapBlock (concat os) gap
            else wrapBlock (styled ''div'' (nameStyle (tip_style r) @ '';line-height:1;'') (encodeHTML (readable_text header)) @
              wrapBlock (concat os) (html_gap k)) gap)"
    using assms os by (simp add: render_section_def k_def[symmetric] Let_def styled_def element_def del: gapLevel.simps)
  show ?case unfolding r option.pred_inject if_distrib
    using Section.prems h balanced_wrapBlock[OF _ balanced_append[OF hd h]] by simp
qed (use assms balanced_render_line in simp)

text \<open>C34: the HTML of a tooltip is well nested whatever the names, values, colours and styles in it: no text of the data
  opens or closes a tag, because every one of them is escaped.\<close>

theorem tooltip_well_nested:
  assumes "\<not> richText r"
  shows "case fst (buildTooltipMarkup r f c) of None \<Rightarrow> True | Some s \<Rightarrow> nest [] s = Some []"
proof (cases f)
  case (Some b)
  then show ?thesis
    using balanced_render[OF assms, of "''0''" b c] balanced_reads by (auto simp: buildTooltipMarkup_def split: option.split)
qed (simp add: buildTooltipMarkup_def)

definition sample_tip :: fragment where
  "sample_tip = Section ''9:00'' False True None [NameValue (Some ''item'') ''#5470c6'' ''<b>node'' False False [''1 > 0''] (Some 2)]"

theorem tooltip_well_nested_witness:
  "case fst (buildTooltipMarkup \<lparr>richText = False, orderMode = ''valueAsc'', tip_style = \<lparr>ts_color = [], ts_fontSize = [], ts_fontWeight = []\<rparr>\<rparr>
      (Some sample_tip) \<lparr>nextStyleNameId = 0, richTextStyles = []\<rparr>) of None \<Rightarrow> True | Some s \<Rightarrow> nest [] s = Some []"
  by (rule tooltip_well_nested) simp

section \<open>The gap level\<close>

fun depth :: "fragment \<Rightarrow> nat" where
  "depth (Section h nh sb sp bs) = Suc (fold max (map depth bs) 0)"
| "depth (NameValue _ _ _ _ _ _ _) = 0"

lemma fold_max_bound: "e \<le> fold max xs e" "x \<in> set xs \<Longrightarrow> x \<le> fold max xs (e :: nat)"
proof (induction xs arbitrary: e)
  case (Cons y ys)
  { case 1 show ?case using Cons(1)[of "max y e"] by simp }
  { case 2 then show ?case using Cons(1)[of "max y e"] Cons(2)[of "max y e"] by auto }
qed auto

lemma level_fold: "\<forall>(s, i) \<in> set xs. i \<le> m \<Longrightarrow> e \<le> Suc m \<Longrightarrow> fold (\<lambda>(s, i) e. level_step a s i e) xs e \<le> Suc m"
  by (induction xs arbitrary: e) (auto simp: level_step_def)

text \<open>The level that chooses the gap between the blocks of a tooltip never exceeds the depth of its sections; so for
  sections nested at most three deep, the gap is one of the four that the tables list, in HTML and in rich text.\<close>

theorem gap_level_in_tables:
  "gapLevel f \<le> depth f \<and>
   (if depth f \<le> 3 then html_gap (gapLevel f) = string_of_nat (10 * gapLevel f) \<and> rich_gap (gapLevel f) = replicate (gapLevel f) (CHR 0x0A)
    else True)"
proof -
  have le: "gapLevel f \<le> depth f"
  proof (induction f)
    case (Section h nh sb sp bs)
    let ?m = "fold max (map depth bs) 0"
    have "\<forall>(s, i) \<in> set (map (\<lambda>b. (shownHeader b, gapLevel b)) bs). i \<le> ?m"
      using Section fold_max_bound(2)[of _ "map depth bs" 0] by (auto intro: le_trans)
    then show ?case using level_fold[of "map (\<lambda>b. (shownHeader b, gapLevel b)) bs" ?m 0] by (simp add: Let_def)
  qed simp
  moreover have "html_gap k = string_of_nat (10 * k) \<and> rich_gap k = replicate k (CHR 0x0A)" if "k \<le> 3" for k
  proof -
    have "k = 0 \<or> k = 1 \<or> k = 2 \<or> k = 3" using that by arith
    then show ?thesis by (auto simp: html_gap_def gap_html_def rich_gap_def gap_rich_def numeral_eq_Suc)
  qed
  ultimately show ?thesis by simp
qed

section \<open>Pictures are well nested\<close>

text \<open>Attributes are written as they are, so their texts must not end the tag; a style sheet is written
  as it is too.\<close>

definition attr_clean :: "string \<times> attr \<Rightarrow> bool" where
  "attr_clean = (\<lambda>(a, n). CHR ''>'' \<notin> set a \<and> (case n of AText s \<Rightarrow> CHR ''>'' \<notin> set s | _ \<Rightarrow> True))"

fun svg_clean :: "vnode \<Rightarrow> bool" where
  "svg_clean (VNode tag attrs children txt) \<longleftrightarrow> tag_name tag \<and> (\<forall>a \<in> set attrs. attr_clean a) \<and>
     (tag = ''style'' \<longrightarrow> CHR ''<'' \<notin> set (case txt of None \<Rightarrow> [] | Some s \<Rightarrow> s)) \<and>
     (case children of None \<Rightarrow> True | Some cs \<Rightarrow> \<forall>c \<in> set cs. svg_clean c)"

lemma attr_text_clean: "attr_clean a \<Longrightarrow> x \<in> set (attr_text a) \<Longrightarrow> CHR ''>'' \<notin> set x"
  by (auto simp: attr_clean_def attr_text_def quoted_def split: attr.splits)

lemma js_join_notin: "c \<notin> set sep \<Longrightarrow> \<forall>x \<in> set xs. c \<notin> set x \<Longrightarrow> c \<notin> set (js_join sep xs)"
  by (induction sep xs rule: js_join.induct) auto

lemma svg_balanced: "svg_clean n \<Longrightarrow> balanced (vNodeToString nl n)"
proof (induction n)
  case (VNode tag attrs children w)
  let ?t = "if nl then [CHR 0x0A] else []"
  let ?words = "case w of None \<Rightarrow> [] | Some s \<Rightarrow> s"
  let ?i = "js_join '' '' (concat (map attr_text attrs))"
  let ?b = "(if tag \<noteq> ''style'' then encodeHTML ?words else ?words) @
      (case children of None \<Rightarrow> [] | Some cs \<Rightarrow> ?t @ js_join ?t (map (vNodeToString nl) cs) @ ?t)"
  have "\<forall>x \<in> set (concat (map attr_text attrs)). CHR ''>'' \<notin> set x" using VNode.prems attr_text_clean by auto
  then have i: "CHR ''>'' \<notin> set ?i" by (intro js_join_notin) simp_all
  have shown: "balanced (if tag \<noteq> ''style'' then encodeHTML ?words else ?words)" using VNode.prems by (cases w) (auto intro: balanced_text)
  have sep: "balanced ?t" by (auto intro: balanced_text)
  have "\<forall>s \<in> set (map (vNodeToString nl) cs). balanced s" if "children = Some cs" for cs
    using VNode that by auto
  then have kids: "children = Some cs \<Longrightarrow> balanced (?t @ js_join ?t (map (vNodeToString nl) cs) @ ?t)" for cs
    by (intro balanced_append sep balanced_join) simp_all
  have "balanced (case children of None \<Rightarrow> [] | Some cs \<Rightarrow> ?t @ js_join ?t (map (vNodeToString nl) cs) @ ?t)"
    using kids by (cases children) (simp_all only: option.case balanced_Nil)
  with shown have "balanced ?b" by (rule balanced_append)
  moreover have "vNodeToString nl (VNode tag attrs children w) = element tag ?i ?b"
    by (simp only: vNodeToString.simps Let_def element_def createElementOpen_def createElementClose_def append_assoc)
  ultimately show ?case using balanced_element[OF _ i] VNode.prems by simp
qed

text \<open>the text of an SVG picture is well nested, whatever texts its nodes show, as long as no tag name, attribute or
  style sheet holds a character that ends a tag.\<close>

theorem svg_well_nested:
  assumes "svg_clean n"
  shows "nest [] (vNodeToString nl n) = Some []"
  by (rule balanced_reads[OF svg_balanced[OF assms]])

theorem svg_well_nested_witness:
  "nest [] (vNodeToString True (VNode ''svg'' [(''width'', AText ''100''), (''hidden'', ATrue)]
     (Some [VNode ''text'' [] None (Some ''a </g> b''), VNode ''g'' [(''clip-path'', AFalse)] (Some []) None]) None)) = Some []"
  by (rule svg_well_nested) (simp add: tag_name_def attr_clean_def)

end
