(* ===== verification/Lru_Cache.thy ===== *)
theory Lru_Cache
  imports Prelude
begin

text \<open>
  The cache of recently used values of the charts (\<open>home-296339b0.js\<close>, line 14), which holds
  measured texts, colours and pictures.  Its entries form a doubly linked list, the oldest
  first, and a map leads from a key to its entry; an entry that was dropped is used again for
  the next value.  Entries are objects shared between the list, the map and the cache, so
  the model has a store of them and addresses.

  The map is a plain object of the language; keys that are names of its inherited properties
  (such as \<open>constructor\<close>) are outside the model.
\<close>

section \<open>The linked list\<close>

record 'v entry =
  e_key :: string
  e_value :: 'v
  e_prev :: "nat option"
  e_next :: "nat option"

record 'v lru =
  store :: "nat \<Rightarrow> 'v entry"
  fresh :: nat
  lhead :: "nat option"
  ltail :: "nat option"
  llen :: int
  lmap :: "string \<Rightarrow> nat option"
  lastRemoved :: "nat option"
  maxSize :: int

definition set_next :: "nat \<Rightarrow> nat option \<Rightarrow> 'v lru \<Rightarrow> 'v lru" where
  "set_next a n s = s\<lparr>store := (store s)(a := (store s a)\<lparr>e_next := n\<rparr>)\<rparr>"

definition set_prev :: "nat \<Rightarrow> nat option \<Rightarrow> 'v lru \<Rightarrow> 'v lru" where
  "set_prev a p s = s\<lparr>store := (store s)(a := (store s a)\<lparr>e_prev := p\<rparr>)\<rparr>"

text \<open>\<open>insertEntry\<close>.  A list with a head has a tail; the case of none is never reached.\<close>

definition insertEntry :: "nat \<Rightarrow> 'v lru \<Rightarrow> 'v lru" where
  "insertEntry e s =
     (let s1 = (case (lhead s, ltail s) of
          (Some _, Some t) \<Rightarrow> (set_next e None (set_prev e (Some t) (set_next t (Some e) s)))\<lparr>ltail := Some e\<rparr>
        | _ \<Rightarrow> s\<lparr>lhead := Some e, ltail := Some e\<rparr>)
      in s1\<lparr>llen := llen s1 + 1\<rparr>)"

definition removeEntry :: "nat \<Rightarrow> 'v lru \<Rightarrow> 'v lru" where
  "removeEntry e s =
     (let t = e_prev (store s e); a = e_next (store s e);
          s1 = (case t of Some x \<Rightarrow> set_next x a s | None \<Rightarrow> s\<lparr>lhead := a\<rparr>);
          s2 = (case a of Some y \<Rightarrow> set_prev y t s1 | None \<Rightarrow> s1\<lparr>ltail := t\<rparr>);
          s3 = set_prev e None (set_next e None s2)
      in s3\<lparr>llen := llen s3 - 1\<rparr>)"

definition list_clear :: "'v lru \<Rightarrow> 'v lru" where
  "list_clear s = s\<lparr>lhead := None, ltail := None, llen := 0\<rparr>"

section \<open>The cache\<close>

definition new_lru :: "int \<Rightarrow> 'v lru" where
  "new_lru n = \<lparr>store = (\<lambda>_. undefined), fresh = 0, lhead = None, ltail = None, llen = 0, lmap = (\<lambda>_. None), lastRemoved = None, maxSize = n\<rparr>"

text \<open>Dropping the oldest entry when the cache is full; the result is the dropped value.\<close>

definition evict :: "'v lru \<Rightarrow> 'v option \<times> 'v lru" where
  "evict s =
     (case lhead s of
        Some l \<Rightarrow> if llen s \<ge> maxSize s \<and> llen s > 0
          then (Some (e_value (store s l)), (removeEntry l s)\<lparr>lmap := (lmap s)(e_key (store s l) := None), lastRemoved := Some l\<rparr>)
          else (None, s)
      | None \<Rightarrow> (None, s))"

text \<open>The entry dropped before this call is used again, or there is a new one.\<close>

definition place :: "nat option \<Rightarrow> string \<Rightarrow> 'v \<Rightarrow> 'v lru \<Rightarrow> 'v lru" where
  "place old k v s =
     (case old of
        Some a \<Rightarrow>
          (insertEntry a (s\<lparr>store := (store s)(a := (store s a)\<lparr>e_value := v, e_key := k\<rparr>)\<rparr>))\<lparr>lmap := (lmap s)(k := Some a)\<rparr>
      | None \<Rightarrow>
          (insertEntry (fresh s) (s\<lparr>store := (store s)(fresh s := \<lparr>e_key = k, e_value = v, e_prev = None, e_next = None\<rparr>), fresh := Suc (fresh s)\<rparr>))
            \<lparr>lmap := (lmap s)(k := Some (fresh s))\<rparr>)"

definition lru_put :: "string \<Rightarrow> 'v \<Rightarrow> 'v lru \<Rightarrow> 'v option \<times> 'v lru" where
  "lru_put k v s =
     (if lmap s k \<noteq> None then (None, s)
      else case evict s of (i, s1) \<Rightarrow> (i, place (lastRemoved s) k v s1))"

definition lru_get :: "string \<Rightarrow> 'v lru \<Rightarrow> 'v option \<times> 'v lru" where
  "lru_get k s =
     (case lmap s k of
        None \<Rightarrow> (None, s)
      | Some t \<Rightarrow> let s1 = (if Some t \<noteq> ltail s then insertEntry t (removeEntry t s) else s) in (Some (e_value (store s1 t)), s1))"

definition lru_clear :: "'v lru \<Rightarrow> 'v lru" where
  "lru_clear s = (list_clear s)\<lparr>lmap := (\<lambda>_. None)\<rparr>"

definition lru_len :: "'v lru \<Rightarrow> int" where
  "lru_len s = llen s"

section \<open>Segments of the list\<close>

definition first_or :: "nat list \<Rightarrow> nat option \<Rightarrow> nat option" where
  "first_or xs n = (case xs of [] \<Rightarrow> n | x # _ \<Rightarrow> Some x)"

definition last_or :: "nat list \<Rightarrow> nat option \<Rightarrow> nat option" where
  "last_or xs p = (if xs = [] then p else Some (last xs))"

lemma first_or_simps [simp]: "first_or [] n = n" "first_or (x # xs) n = Some x"
  by (simp_all add: first_or_def)

lemma last_or_simps [simp]: "last_or [] p = p" "last_or (xs @ [x]) p = Some x" "last_or (x # xs) p = last_or xs (Some x)"
  by (simp_all add: last_or_def)

lemma first_or_append [simp]: "first_or (xs @ ys) n = first_or xs (first_or ys n)"
  by (cases xs) simp_all

lemma last_or_append [simp]: "last_or (xs @ ys) p = last_or ys (last_or xs p)"
  by (simp add: last_or_def)

text \<open>The entries at the addresses follow each other, after the entry \<open>p\<close> and before the entry \<open>n\<close>.\<close>

fun seg :: "(nat \<Rightarrow> 'v entry) \<Rightarrow> nat option \<Rightarrow> nat list \<Rightarrow> nat option \<Rightarrow> bool" where
  "seg h p [] n = True"
| "seg h p (a # as) n \<longleftrightarrow> e_prev (h a) = p \<and> e_next (h a) = first_or as n \<and> seg h (Some a) as n"

lemma seg_append: "seg h p (xs @ ys) n \<longleftrightarrow> seg h p xs (first_or ys n) \<and> seg h (last_or xs p) ys n"
  by (induction xs arbitrary: p) auto

lemma seg_other:
  assumes "\<And>a. a \<in> set as \<Longrightarrow> e_prev (h' a) = e_prev (h a) \<and> e_next (h' a) = e_next (h a)"
  shows "seg h' p as n = seg h p as n"
  using assms by (induction as arbitrary: p) auto

lemma seg_upd [simp]: "a \<notin> set as \<Longrightarrow> seg (h(a := x)) p as n = seg h p as n"
  by (rule seg_other) auto

lemma seg_set_last:
  assumes "distinct (xs @ [t])" and "seg h p (xs @ [t]) n"
  shows "seg (h(t := (h t)\<lparr>e_next := n'\<rparr>)) p (xs @ [t]) n'"
  using assms by (simp add: seg_append)

lemma seg_set_first:
  assumes "distinct (a # as)" and "seg h p (a # as) n"
  shows "seg (h(a := (h a)\<lparr>e_prev := p'\<rparr>)) p' (a # as) n"
  using assms by simp

definition linked :: "'v lru \<Rightarrow> nat list \<Rightarrow> bool" where
  "linked s as \<longleftrightarrow> seg (store s) None as None \<and> distinct as \<and> lhead s = first_or as None \<and> ltail s = last_or as None \<and> llen s = int (length as)"

text \<open>What the operations on the list leave alone: keys, values and everything beside the list.\<close>

definition same_data :: "'v lru \<Rightarrow> 'v lru \<Rightarrow> bool" where
  "same_data s s' \<longleftrightarrow> (\<forall>a. e_key (store s' a) = e_key (store s a) \<and> e_value (store s' a) = e_value (store s a)) \<and>
     fresh s' = fresh s \<and> lmap s' = lmap s \<and> lastRemoved s' = lastRemoved s \<and> maxSize s' = maxSize s"

definition unlinked :: "'v lru \<Rightarrow> nat \<Rightarrow> bool" where
  "unlinked s a \<longleftrightarrow> e_prev (store s a) = None \<and> e_next (store s a) = None"

lemma insert_linked:
  assumes "linked s as" and "e \<notin> set as" and "unlinked s e"
  shows "linked (insertEntry e s) (as @ [e])" "same_data s (insertEntry e s)"
    "a \<notin> set (as @ [e]) \<Longrightarrow> unlinked (insertEntry e s) a = unlinked s a"
proof -
  show "linked (insertEntry e s) (as @ [e])"
  proof (cases as rule: rev_cases)
    case Nil
    then show ?thesis using assms by (simp add: linked_def insertEntry_def unlinked_def)
  next
    case (snoc xs t)
    have f: "lhead s \<noteq> None" "ltail s = Some t" using assms(1) snoc by (cases xs; simp add: linked_def)+
    have sg: "seg ((store s)(t := (store s t)\<lparr>e_next := Some e\<rparr>)) None (xs @ [t]) (Some e)"
      using assms(1) snoc by (intro seg_set_last[where n = None]) (simp_all add: linked_def)
    have "e \<noteq> t" "e \<notin> set xs" "t \<notin> set xs" using assms(1,2) snoc by (auto simp: linked_def)
    then show ?thesis
      using assms(1) f sg snoc
      by (cases xs) (auto simp: linked_def insertEntry_def set_next_def set_prev_def seg_append)
  qed
  show "same_data s (insertEntry e s)" "a \<notin> set (as @ [e]) \<Longrightarrow> unlinked (insertEntry e s) a = unlinked s a"
    using assms(1)
    by (auto simp: insertEntry_def same_data_def set_next_def set_prev_def unlinked_def linked_def last_or_def split: option.splits if_splits)
qed

lemma remove_linked:
  assumes "linked s (xs @ e # ys)"
  shows "linked (removeEntry e s) (xs @ ys)" "same_data s (removeEntry e s)" "unlinked (removeEntry e s) e"
    "a \<notin> set (xs @ ys) \<Longrightarrow> a \<noteq> e \<Longrightarrow> unlinked (removeEntry e s) a = unlinked s a"
proof -
  have sg: "seg (store s) None xs (Some e)" "seg (store s) (Some e) ys None" and
    pn: "e_prev (store s e) = last_or xs None" "e_next (store s e) = first_or ys None" and
    d: "distinct xs" "distinct ys" "e \<notin> set xs" "e \<notin> set ys" "set xs \<inter> set ys = {}" and
    o1: "lhead s = first_or (xs @ e # ys) None" "ltail s = last_or (xs @ e # ys) None" "llen s = int (length (xs @ e # ys))"
    using assms by (auto simp: linked_def seg_append)
  show "linked (removeEntry e s) (xs @ ys)"
  proof (cases xs rule: rev_cases)
    case xs: Nil
    then show ?thesis using sg pn d o1 by (cases ys) (auto simp: linked_def removeEntry_def set_next_def set_prev_def Let_def last_or_def)
  next
    case xs: (snoc us t)
    have t: "seg (store s) None us (Some t)" "e_prev (store s t) = last_or us None" using sg(1) xs by (auto simp: seg_append)
    show ?thesis
    proof (cases ys)
      case Nil
      then show ?thesis using sg pn d o1 xs t
        by (cases us) (auto simp: linked_def removeEntry_def set_next_def set_prev_def Let_def seg_append)
    next
      case (Cons y vs)
      have "y \<noteq> t" "y \<notin> set us" "t \<notin> set vs" "y \<notin> set vs" "t \<notin> set us" "e \<noteq> y" "e \<noteq> t" "e \<notin> set vs" "e \<notin> set us"
        using d xs Cons by auto
      then show ?thesis using sg pn d o1 xs t Cons
        by (cases us) (auto simp: linked_def removeEntry_def set_next_def set_prev_def Let_def seg_append last_or_def)
    qed
  qed
  show "same_data s (removeEntry e s)" "unlinked (removeEntry e s) e"
    by (auto simp: removeEntry_def same_data_def set_next_def set_prev_def unlinked_def Let_def split: option.splits)
  show "a \<notin> set (xs @ ys) \<Longrightarrow> a \<noteq> e \<Longrightarrow> unlinked (removeEntry e s) a = unlinked s a"
    using pn by (cases xs rule: rev_cases; cases ys)
      (auto simp: removeEntry_def set_next_def set_prev_def unlinked_def Let_def last_or_def)
qed

section \<open>The cache of the last uses, abstractly\<close>

text \<open>The specification: the keys with their values in the order of their last use.  A value is never
  replaced while its key is there; a full cache drops what was used longest ago.\<close>

definition spec_put :: "int \<Rightarrow> string \<Rightarrow> 'v \<Rightarrow> (string \<times> 'v) list \<Rightarrow> 'v option \<times> (string \<times> 'v) list" where
  "spec_put n k v xs =
     (if k \<in> fst ` set xs then (None, xs)
      else if int (length xs) \<ge> n \<and> xs \<noteq> [] then (Some (snd (hd xs)), tl xs @ [(k, v)])
      else (None, xs @ [(k, v)]))"

definition spec_get :: "string \<Rightarrow> (string \<times> 'v) list \<Rightarrow> 'v option \<times> (string \<times> 'v) list" where
  "spec_get k xs =
     (case map_of xs k of None \<Rightarrow> (None, xs) | Some v \<Rightarrow> (Some v, filter (\<lambda>x. fst x \<noteq> k) xs @ [(k, v)]))"

definition entries :: "'v lru \<Rightarrow> nat list \<Rightarrow> (string \<times> 'v) list" where
  "entries s as = map (\<lambda>a. (e_key (store s a), e_value (store s a))) as"

text \<open>The relation between a cache and a list of uses.  A dropped entry waits for its next use only
  while the cache is full: this is why using it again is safe.\<close>

definition represents :: "'v lru \<Rightarrow> nat list \<Rightarrow> bool" where
  "represents s as \<longleftrightarrow> linked s as \<and> distinct (map fst (entries s as)) \<and> (\<forall>a \<in> set as. a < fresh s) \<and>
     (\<forall>k a. lmap s k = Some a \<longleftrightarrow> a \<in> set as \<and> e_key (store s a) = k) \<and>
     (case lastRemoved s of None \<Rightarrow> True | Some a \<Rightarrow> a \<notin> set as \<and> a < fresh s \<and> unlinked s a \<and> maxSize s \<le> llen s \<and> as \<noteq> [])"

lemma entries_same: "same_data s s' \<Longrightarrow> entries s' as = entries s as"
  by (simp add: entries_def same_data_def)

lemma represents_keys:
  assumes "represents s as"
  shows "lmap s k \<noteq> None \<longleftrightarrow> k \<in> fst ` set (entries s as)"
    and "lmap s k = Some a \<Longrightarrow> map_of (entries s as) k = Some (e_value (store s a))"
proof -
  show "lmap s k \<noteq> None \<longleftrightarrow> k \<in> fst ` set (entries s as)"
    using assms by (auto simp: represents_def entries_def image_iff)
  assume "lmap s k = Some a"
  then have "(k, e_value (store s a)) \<in> set (entries s as)" using assms by (auto simp: represents_def entries_def)
  then show "map_of (entries s as) k = Some (e_value (store s a))" using assms by (simp add: represents_def)
qed

lemma get_refines:
  assumes "represents s as" and "lru_get k s = (r, s')"
  shows "\<exists>bs. represents s' bs \<and> spec_get k (entries s as) = (r, entries s' bs) \<and> maxSize s' = maxSize s"
proof (cases "lmap s k")
  case None
  then have "k \<notin> fst ` set (entries s as)" using represents_keys(1)[OF assms(1)] by blast
  then have "map_of (entries s as) k = None" by (simp add: map_of_eq_None_iff)
  then show ?thesis using assms None by (auto simp: lru_get_def spec_get_def)
next
  case (Some t)
  have tm: "t \<in> set as" "e_key (store s t) = k" using assms(1) Some by (auto simp: represents_def)
  have v: "map_of (entries s as) k = Some (e_value (store s t))" by (rule represents_keys(2)[OF assms(1) Some])
  have L: "linked s as" "distinct (map fst (entries s as))" using assms(1) by (auto simp: represents_def)
  obtain xs ys where as: "as = xs @ t # ys" using split_list[OF tm(1)] by blast
  have ks: "\<forall>a \<in> set (xs @ ys). e_key (store s a) \<noteq> k" using L(2) tm(2) as by (auto simp: entries_def image_iff)
  then have fl: "filter (\<lambda>x. fst x \<noteq> k) (entries s as) @ [(k, e_value (store s t))] = entries s (xs @ ys @ [t])"
    using tm(2) as by (auto simp: entries_def filter_map o_def intro!: filter_True)
  show ?thesis
  proof (cases "ys = []")
    case True
    then have "ltail s = Some t" using L(1) as by (simp add: linked_def)
    then show ?thesis using assms Some v fl True as by (auto simp: lru_get_def spec_get_def intro!: exI[of _ as])
  next
    case False
    then have "ltail s \<noteq> Some t" using L(1) as by (auto simp: linked_def last_or_def)
    then have s': "s' = insertEntry t (removeEntry t s)" "r = Some (e_value (store s' t))" using assms(2) Some by (auto simp: lru_get_def Let_def)
    note rm = remove_linked[of s xs t ys, folded as, OF L(1)]
    have tn: "t \<notin> set (xs @ ys)" using L(1) as by (auto simp: linked_def)
    note ins = insert_linked[OF rm(1) tn rm(3), folded s'(1)]
    have sd: "same_data s s'" using rm(2) ins(2) by (simp add: same_data_def)
    have "represents s' (xs @ ys @ [t])"
      using assms(1) ins(1,3) rm(4) sd as L(2)
      by (auto simp: represents_def entries_same[OF sd] same_data_def entries_def linked_def split: option.splits)
    then show ?thesis using v fl s'(2) sd by (auto simp: spec_get_def entries_same[OF sd] same_data_def)
  qed
qed

text \<open>The cache after a full one has dropped its oldest entry, and the entry that the new value gets.\<close>

lemma evict_linked:
  assumes "represents s as"
  shows "\<exists>bs. linked (snd (evict s)) bs \<and> same_data (s\<lparr>lmap := lmap (snd (evict s)), lastRemoved := lastRemoved (snd (evict s))\<rparr>) (snd (evict s)) \<and>
    (if llen s \<ge> maxSize s \<and> as \<noteq> []
     then bs = tl as \<and> fst (evict s) = Some (e_value (store s (hd as))) \<and> lastRemoved (snd (evict s)) = Some (hd as) \<and>
       lmap (snd (evict s)) = (lmap s)(e_key (store s (hd as)) := None) \<and> unlinked (snd (evict s)) (hd as) \<and>
       (\<forall>a. a \<notin> set as \<longrightarrow> unlinked (snd (evict s)) a = unlinked s a)
     else bs = as \<and> fst (evict s) = None \<and> snd (evict s) = s)"
proof (cases "llen s \<ge> maxSize s \<and> as \<noteq> []")
  case True
  then obtain l rest where as: "as = l # rest" by (cases as) auto
  have L: "linked s ([] @ l # rest)" using assms as by (simp add: represents_def)
  note rm = remove_linked[OF L]
  have "evict s = (Some (e_value (store s l)), (removeEntry l s)\<lparr>lmap := (lmap s)(e_key (store s l) := None), lastRemoved := Some l\<rparr>)"
    using L True by (auto simp: evict_def linked_def)
  then show ?thesis
    using True as rm by (intro exI[of _ rest]) (auto simp: linked_def same_data_def unlinked_def)
next
  case False
  have "linked s as" using assms by (simp add: represents_def)
  moreover have "evict s = (None, s)"
    using False \<open>linked s as\<close> by (cases as) (auto simp: evict_def linked_def)
  ultimately show ?thesis using False by (intro exI[of _ as]) (auto simp: same_data_def)
qed

text \<open>Placing a value in an entry that is not in the list.\<close>

lemma place_linked:
  assumes "linked s as" and "e = (case old of Some a \<Rightarrow> a | None \<Rightarrow> fresh s)"
    and "e \<notin> set as" and "\<forall>a. old = Some a \<longrightarrow> unlinked s a" and "\<forall>a \<in> set as. a < fresh s"
  shows "linked (place old k v s) (as @ [e])" "entries (place old k v s) (as @ [e]) = entries s as @ [(k, v)]"
    "lmap (place old k v s) = (lmap s)(k := Some e)" "lastRemoved (place old k v s) = lastRemoved s" "maxSize (place old k v s) = maxSize s"
    "fresh (place old k v s) = (if old = None then Suc (fresh s) else fresh s)"
    "\<And>a. a \<notin> set (as @ [e]) \<Longrightarrow> unlinked (place old k v s) a = unlinked s a"
    "\<And>a. a \<noteq> e \<Longrightarrow> e_key (store (place old k v s) a) = e_key (store s a)" "e_key (store (place old k v s) e) = k"
proof -
  define s1 where "s1 = (case old of
      Some a \<Rightarrow> s\<lparr>store := (store s)(a := (store s a)\<lparr>e_value := v, e_key := k\<rparr>)\<rparr>
    | None \<Rightarrow> s\<lparr>store := (store s)(fresh s := \<lparr>e_key = k, e_value = v, e_prev = None, e_next = None\<rparr>), fresh := Suc (fresh s)\<rparr>)"
  have p: "place old k v s = (insertEntry e s1)\<lparr>lmap := (lmap s)(k := Some e)\<rparr>"
    using assms(2) by (simp add: place_def s1_def split: option.splits)
  have l1: "linked s1 as" using assms(1-3) by (auto simp: s1_def linked_def split: option.splits)
  have u1: "unlinked s1 e" using assms(2,4) by (auto simp: s1_def unlinked_def split: option.splits)
  note ins = insert_linked[OF l1 assms(3) u1]
  have st: "a \<noteq> e \<Longrightarrow> store s1 a = store s a" "e_key (store s1 e) = k" "e_value (store s1 e) = v" for a
    using assms(2) by (auto simp: s1_def split: option.splits)
  have mem: "x \<in> set as \<Longrightarrow> store s1 x = store s x" for x using st(1) assms(3) by metis
  show "linked (place old k v s) (as @ [e])" using ins(1) by (simp add: p linked_def)
  have "e_key (store (insertEntry e s1) a) = e_key (store s1 a)" "e_value (store (insertEntry e s1) a) = e_value (store s1 a)" for a
    using ins(2) by (simp_all add: same_data_def)
  then show "entries (place old k v s) (as @ [e]) = entries s as @ [(k, v)]"
    "\<And>a. a \<noteq> e \<Longrightarrow> e_key (store (place old k v s) a) = e_key (store s a)" "e_key (store (place old k v s) e) = k"
    using st mem by (auto simp: entries_def p intro!: map_cong)
  show "lmap (place old k v s) = (lmap s)(k := Some e)" by (simp add: p)
  have "fresh s1 = (if old = None then Suc (fresh s) else fresh s)" "lastRemoved s1 = lastRemoved s" "maxSize s1 = maxSize s"
    by (auto simp: s1_def split: option.splits)
  then show "lastRemoved (place old k v s) = lastRemoved s" "maxSize (place old k v s) = maxSize s"
    "fresh (place old k v s) = (if old = None then Suc (fresh s) else fresh s)"
    using ins(2) by (simp_all add: p same_data_def)
  show "unlinked (place old k v s) a = unlinked s a" if "a \<notin> set (as @ [e])" for a
    using ins(3)[OF that] st(1)[of a] that by (simp add: p unlinked_def)
qed

lemma put_refines:
  assumes R: "represents s as" and put: "lru_put k v s = (r, s')"
  shows "\<exists>bs. represents s' bs \<and> spec_put (maxSize s) k v (entries s as) = (r, entries s' bs) \<and> maxSize s' = maxSize s"
proof (cases "lmap s k = None")
  case False
  then show ?thesis using assms represents_keys(1)[OF R] by (auto simp: lru_put_def spec_put_def intro!: exI[of _ as])
next
  case None: True
  then have new: "k \<notin> fst ` set (entries s as)" using represents_keys(1)[OF R] by blast
  define s1 where "s1 = snd (evict s)"
  define e where "e = (case lastRemoved s of Some a \<Rightarrow> a | None \<Rightarrow> fresh s1)"
  have s': "s' = place (lastRemoved s) k v s1" "r = fst (evict s)" using put None by (auto simp: lru_put_def s1_def split: prod.splits)
  have L: "linked s as" "\<forall>a \<in> set as. a < fresh s" "llen s = int (length as)" "distinct as" "distinct (map fst (entries s as))"
    and M: "\<forall>k a. lmap s k = Some a \<longleftrightarrow> a \<in> set as \<and> e_key (store s a) = k"
    and lr: "\<And>a. lastRemoved s = Some a \<Longrightarrow> a \<notin> set as \<and> a < fresh s \<and> unlinked s a \<and> maxSize s \<le> llen s \<and> as \<noteq> []"
    using R by (auto simp: represents_def linked_def)
  obtain bs where ev: "linked s1 bs" "same_data (s\<lparr>lmap := lmap s1, lastRemoved := lastRemoved s1\<rparr>) s1"
    "if llen s \<ge> maxSize s \<and> as \<noteq> []
     then bs = tl as \<and> r = Some (e_value (store s (hd as))) \<and> lastRemoved s1 = Some (hd as) \<and>
       lmap s1 = (lmap s)(e_key (store s (hd as)) := None) \<and> unlinked s1 (hd as) \<and> (\<forall>a. a \<notin> set as \<longrightarrow> unlinked s1 a = unlinked s a)
     else bs = as \<and> r = None \<and> s1 = s"
    using evict_linked[OF R] unfolding s1_def s'(2) by blast
  have sd: "\<And>a. e_key (store s1 a) = e_key (store s a) \<and> e_value (store s1 a) = e_value (store s a)" "fresh s1 = fresh s" "maxSize s1 = maxSize s"
    using ev(2) by (auto simp: same_data_def)
  have en: "entries s1 bs = entries s bs" by (simp add: entries_def sd(1))
  have sub: "set bs \<subseteq> set as" using ev(3) by (cases as) (auto split: if_splits)
  have e: "e \<notin> set as" "e < Suc (fresh s)" using lr L(2) sd(2) by (auto simp: e_def split: option.splits)
  have un: "\<forall>a. lastRemoved s = Some a \<longrightarrow> unlinked s1 a" using ev(3) lr by (auto split: if_splits)
  have eb: "e \<notin> set bs" "\<forall>a \<in> set bs. a < fresh s1" using e(1) sub L(2) sd(2) by auto
  note P = place_linked[OF ev(1) e_def eb(1) un eb(2), where k = k and v = v, folded s'(1)]
  have keys: "e_key (store s' a) = (if a = e then k else e_key (store s a))" for a using P(8)[of a] P(9) sd(1)[of a] by simp
  have "distinct (map fst (entries s bs))" using L(5) ev(3) by (cases as) (auto simp: entries_def split: if_splits)
  moreover have "k \<notin> fst ` set (entries s bs)" using new sub by (auto simp: entries_def image_iff)
  ultimately have dk: "distinct (map fst (entries s bs @ [(k, v)]))" by simp
  have fr: "\<forall>a \<in> set (bs @ [e]). a < fresh s'" using eb(2) P(6) lr sd(2) by (auto simp: e_def split: option.splits)
  have lm: "lmap s' k' = Some a \<longleftrightarrow> a \<in> set (bs @ [e]) \<and> e_key (store s' a) = k'" for k' a
  proof (cases "llen s \<ge> maxSize s \<and> as \<noteq> []")
    case True
    then obtain l where as: "as = l # bs" "lmap s1 = (lmap s)(e_key (store s l) := None)" using ev(3) by (cases as) auto
    have "e_key (store s l) \<notin> e_key ` store s ` set bs" using L(5) as(1) by (auto simp: entries_def image_iff)
    then show ?thesis using P(3) M new eb(1) e(1) as by (auto simp: keys entries_def image_iff)
  next
    case False
    then show ?thesis using P(3) M new ev(3) e(1) by (auto simp: keys entries_def image_iff)
  qed
  have "case lastRemoved s' of None \<Rightarrow> True | Some a \<Rightarrow> a \<notin> set (bs @ [e]) \<and> a < fresh s' \<and> unlinked s' a \<and> maxSize s' \<le> llen s' \<and> bs @ [e] \<noteq> []"
  proof (cases "llen s \<ge> maxSize s \<and> as \<noteq> []")
    case True
    then obtain l where as: "as = l # bs" "lastRemoved s1 = Some l" "unlinked s1 l" using ev(3) by (cases as) auto
    have "l \<notin> set (bs @ [e])" using L(4) as(1) e(1) by auto
    moreover have "l < fresh s'" using L(2) as(1) P(6) sd(2) by auto
    moreover have "llen s' = llen s" using P(1) L(3) as(1) by (simp add: linked_def)
    ultimately show ?thesis using P(4,5,7) as True sd(3) by simp
  next
    case False
    then have "lastRemoved s = None" using lr by (cases "lastRemoved s") auto
    then show ?thesis using P(4) ev(3) False by auto
  qed
  then have "represents s' (bs @ [e])" using P(1,2) dk fr lm en by (simp add: represents_def)
  moreover have "spec_put (maxSize s) k v (entries s as) = (r, entries s' (bs @ [e]))"
    using P(2) en new ev(3) L(3) by (cases as) (auto simp: spec_put_def entries_def split: if_splits)
  ultimately show ?thesis using P(5) sd(3) by auto
qed

section \<open>The cache implements its specification\<close>

datatype 'v lru_op = Put string 'v | Get string

fun lru_run :: "'v lru_op list \<Rightarrow> 'v lru \<Rightarrow> 'v option list \<times> 'v lru" where
  "lru_run [] s = ([], s)"
| "lru_run (x # xs) s = (case (case x of Put k v \<Rightarrow> lru_put k v s | Get k \<Rightarrow> lru_get k s) of (r, s1) \<Rightarrow>
     case lru_run xs s1 of (rs, s2) \<Rightarrow> (r # rs, s2))"

fun spec_run :: "int \<Rightarrow> 'v lru_op list \<Rightarrow> (string \<times> 'v) list \<Rightarrow> 'v option list \<times> (string \<times> 'v) list" where
  "spec_run n [] t = ([], t)"
| "spec_run n (x # xs) t = (case (case x of Put k v \<Rightarrow> spec_put n k v t | Get k \<Rightarrow> spec_get k t) of (r, t1) \<Rightarrow>
     case spec_run n xs t1 of (rs, t2) \<Rightarrow> (r # rs, t2))"

lemma run_refines:
  assumes "represents s as"
  shows "\<exists>bs. represents (snd (lru_run xs s)) bs \<and> spec_run (maxSize s) xs (entries s as) = (fst (lru_run xs s), entries (snd (lru_run xs s)) bs)"
  using assms
proof (induction xs arbitrary: s as)
  case (Cons x xs)
  obtain r s1 where x: "(case x of Put k v \<Rightarrow> lru_put k v s | Get k \<Rightarrow> lru_get k s) = (r, s1)" by force
  then obtain bs where bs: "represents s1 bs" "maxSize s1 = maxSize s"
    "(case x of Put k v \<Rightarrow> spec_put (maxSize s) k v (entries s as) | Get k \<Rightarrow> spec_get k (entries s as)) = (r, entries s1 bs)"
    using put_refines[OF Cons.prems] get_refines[OF Cons.prems] by (cases x) fastforce+
  obtain rs s2 where rs: "lru_run xs s1 = (rs, s2)" by force
  show ?case using Cons.IH[OF bs(1)] by (auto simp: x bs(2,3) rs)
qed auto

lemma spec_bounded: "int (length t) \<le> max 1 n \<Longrightarrow> int (length (snd (spec_run n xs t))) \<le> max 1 n"
proof (induction xs arbitrary: t)
  case (Cons x xs)
  have "int (length (snd (case x of Put k v \<Rightarrow> spec_put n k v t | Get k \<Rightarrow> spec_get k t))) \<le> max 1 n"
  proof (cases x)
    case (Put k v)
    then show ?thesis using Cons.prems by (cases t) (auto simp: spec_put_def)
  next
    case (Get k)
    have "length (filter (\<lambda>x. fst x \<noteq> k) t) < length t" if "map_of t k = Some v" for v
      using that map_of_SomeD[OF that] by (intro length_filter_less[of "(k, v)"]) auto
    then show ?thesis using Get Cons.prems by (fastforce simp: spec_get_def split: option.split)
  qed
  then show ?case using Cons.IH by (simp split: prod.splits) (metis fst_conv snd_conv)
qed simp

text \<open>C7: the cache with its linked list, its map and its entries used again behaves like the list of keys in the order of
  their last use: any sequence of puts and gets on a new cache gives the same results, and the cache never holds more
  entries than its size (one, for a size below one).\<close>

theorem lru_refines_spec:
  "fst (lru_run xs (new_lru n)) = fst (spec_run n xs []) \<and> lru_len (snd (lru_run xs (new_lru n))) \<le> max 1 n"
proof -
  have "represents (new_lru n) []" by (simp add: represents_def linked_def new_lru_def entries_def)
  from run_refines[OF this, of xs] obtain bs where bs: "represents (snd (lru_run xs (new_lru n))) bs"
    "spec_run n xs [] = (fst (lru_run xs (new_lru n)), entries (snd (lru_run xs (new_lru n))) bs)"
    by (auto simp: new_lru_def entries_def)
  have "int (length bs) \<le> max 1 n" using spec_bounded[of "[]" n xs] bs(2) by (simp add: entries_def)
  then show ?thesis using bs by (simp add: lru_len_def represents_def linked_def)
qed

text \<open>clearing the cache keeps the entry that was dropped last, and nothing takes it away again while the cache is not
  full: the first two values put into a cleared cache share that entry, and the first key then answers with the second value.\<close>

theorem lru_clear_shares_entry:
  assumes "lastRemoved s = Some a" and "2 \<le> maxSize s" and "k \<noteq> l"
  shows "fst (lru_get k (snd (lru_put l w (snd (lru_put k v (lru_clear s)))))) = Some w"
  using assms
  by (simp add: lru_clear_def list_clear_def lru_put_def evict_def place_def insertEntry_def set_next_def set_prev_def lru_get_def
      removeEntry_def Let_def split: option.split)

theorem lru_clear_shares_entry_witness:
  "fst (lru_get ''d'' (snd (lru_put ''e'' (5 :: int) (snd (lru_put ''d'' 4
     (lru_clear (snd (lru_run [Put ''a'' 1, Put ''b'' 2, Put ''c'' 3] (new_lru 2))))))))) = Some 5"
  by (rule lru_clear_shares_entry[where a = 0])
     (simp_all add: new_lru_def lru_put_def evict_def place_def insertEntry_def removeEntry_def set_next_def set_prev_def Let_def)

end
