(* ===== verification/Http_Headers.thy ===== *)
theory Http_Headers
  imports Js_Library "HOL-Library.AList"
begin

text \<open>
  The headers of the HTTP client of the dashboard (\<open>index-e87360db.js\<close>, lines 58 to 60): reading the
  block of headers of a reply, and the collection of headers of a request, whose names are
  compared without regard to case.  A collection is an object: its entries are listed as objects list their own
  properties, the names that are array indices first.  Names that objects inherit are the branches they are in the code.
\<close>

section \<open>Objects\<close>

text \<open>A property whose name is an array index comes before the others and in the order of the indices; the others
  stand in the order of their insertion.\<close>

definition index_name :: "string \<Rightarrow> nat option" where
  "index_name k = (case parse_nat k of Some n \<Rightarrow> if string_of_nat n = k \<and> n < 2 ^ 32 - 1 then Some n else None | None \<Rightarrow> None)"

definition comes_before :: "string \<Rightarrow> string \<Rightarrow> bool" where
  "comes_before l k \<longleftrightarrow> (case index_name k of None \<Rightarrow> True | Some n \<Rightarrow> (case index_name l of None \<Rightarrow> False | Some m \<Rightarrow> m < n))"

definition own_put :: "string \<Rightarrow> 'a \<Rightarrow> (string \<times> 'a) list \<Rightarrow> (string \<times> 'a) list" where
  "own_put k v h =
     (if k \<in> fst ` set h then AList.update k v h
      else takeWhile (\<lambda>e. comes_before (fst e) k) h @ (k, v) # dropWhile (\<lambda>e. comes_before (fst e) k) h)"

text \<open>The names that every object inherits and that have no capitals.\<close>

definition inherited_name :: "string \<Rightarrow> bool" where
  "inherited_name k \<longleftrightarrow> k = ''constructor'' \<or> k = ''__proto__''"

lemma own_put_keys: "fst ` set (own_put k v h) = insert k (fst ` set h)"
proof (cases "k \<in> fst ` set h")
  case True
  then show ?thesis unfolding own_put_def by (simp add: set_map[symmetric] AList.update_keys del: set_map) auto
next
  case False
  have "set h = set (takeWhile (\<lambda>e. comes_before (fst e) k) h) \<union> set (dropWhile (\<lambda>e. comes_before (fst e) k) h)"
    by (metis set_append takeWhile_dropWhile_id)
  then show ?thesis using False unfolding own_put_def by auto
qed

lemma own_put_map: "map_of (own_put k v h) = (map_of h)(k \<mapsto> v)"
proof (cases "k \<in> fst ` set h")
  case False
  let ?A = "takeWhile (\<lambda>e. comes_before (fst e) k) h" and ?B = "dropWhile (\<lambda>e. comes_before (fst e) k) h"
  have "k \<notin> fst ` set ?A" using False set_takeWhileD by fastforce
  then have "k \<notin> dom (map_of ?A)" by (simp add: dom_map_of_conv_image_fst)
  then have "map_of (?A @ (k, v) # ?B) = (map_of (?A @ ?B))(k \<mapsto> v)" unfolding map_of_append by (simp add: map_add_upd_left del: takeWhile_dropWhile_id)
  then show ?thesis using False by (simp add: own_put_def)
qed (simp add: own_put_def update_conv')

lemma own_put_distinct:
  assumes "distinct (map (g \<circ> fst) h)" "k \<in> fst ` set h \<or> g k \<notin> (g \<circ> fst) ` set h"
  shows "distinct (map (g \<circ> fst) (own_put k v h))"
proof (cases "k \<in> fst ` set h")
  case True
  then have "map fst (AList.update k v h) = map fst h" by (simp add: AList.update_keys)
  then show ?thesis using True assms(1) unfolding own_put_def map_map[symmetric] by simp
next
  case False
  let ?A = "takeWhile (\<lambda>e. comes_before (fst e) k) h" and ?B = "dropWhile (\<lambda>e. comes_before (fst e) k) h"
  have "distinct (map (g \<circ> fst) (?A @ ?B))" "g k \<notin> (g \<circ> fst) ` set (?A @ ?B)" using assms False by simp_all
  then have "distinct (map (g \<circ> fst) (?A @ (k, v) # ?B))" unfolding map_append set_append by (auto simp: image_Un)
  then show ?thesis using False by (simp add: own_put_def)
qed

text \<open>The order in which an object lists its properties; a property that belongs at the end is put there.\<close>

definition own_ordered :: "(string \<times> 'a) list \<Rightarrow> bool" where
  "own_ordered h \<longleftrightarrow> sorted_wrt (\<lambda>a b. comes_before (fst a) (fst b)) h"

lemma own_put_end: "k \<notin> fst ` set h \<Longrightarrow> own_ordered (h @ [(k, v)]) \<Longrightarrow> own_put k w h = h @ [(k, w)]"
  by (auto simp: own_put_def own_ordered_def sorted_wrt_append takeWhile_eq_all_conv dropWhile_eq_Nil_conv)

section \<open>Reading a block of headers\<close>

datatype hval = HUndef | HFalse | HText string | HList "string list"

type_synonym headers = "(string \<times> hval) list"

definition lowercase :: "string \<Rightarrow> string" where
  "lowercase s = map lower s"

text \<open>The headers of which only the first one counts.\<close>

definition ignoreDuplicateOf :: "string list" where
  "ignoreDuplicateOf = [''age'', ''authorization'', ''content-length'', ''content-type'', ''etag'', ''expires'', ''from'', ''host'',
     ''if-modified-since'', ''if-unmodified-since'', ''last-modified'', ''location'', ''max-forwards'', ''proxy-authorization'',
     ''referer'', ''retry-after'', ''user-agent'']"

fun truthy :: "hval option \<Rightarrow> bool" where
  "truthy (Some (HText s)) = (s \<noteq> [])"
| "truthy (Some (HList _)) = True"
| "truthy _ = False"

definition parseHeaderLine :: "string \<Rightarrow> headers \<Rightarrow> headers" where
  "parseHeaderLine s t =
     (case indexOf '':'' s of
        None \<Rightarrow> t
      | Some r \<Rightarrow>
          let n = lowercase (js_trim (take r s)); o' = js_trim (drop (Suc r) s) in
          if n = [] \<or> (inherited_name n \<or> truthy (map_of t n)) \<and> (inherited_name n \<or> n \<in> set ignoreDuplicateOf) then t
          else if n = ''set-cookie'' then
            own_put n (case map_of t n of Some (HList xs) \<Rightarrow> HList (xs @ [o']) | _ \<Rightarrow> HList [o']) t
          else own_put n (case map_of t n of Some (HText v) \<Rightarrow> HText (if v = [] then o' else v @ '', '' @ o') | _ \<Rightarrow> HText o') t)"

definition parseHeaders :: "string \<Rightarrow> headers" where
  "parseHeaders e = (if e = [] then [] else fold parseHeaderLine (pieces (CHR 0x0A) e) [])"

section \<open>The collection of headers\<close>

definition normalizeHeader :: "string \<Rightarrow> string" where
  "normalizeHeader e = lowercase (js_trim e)"

text \<open>The key that is equal but for case, looked for from the end.\<close>

definition findKey :: "headers \<Rightarrow> string \<Rightarrow> string option" where
  "findKey e t = find (\<lambda>r. lowercase t = lowercase r) (rev (map fst e))"

datatype header_error = EmptyName

definition value_at :: "headers \<Rightarrow> string \<Rightarrow> hval" where
  "value_at h k = (case map_of h k of Some v \<Rightarrow> v | None \<Rightarrow> HUndef)"

definition upper :: "char \<Rightarrow> char" where
  "upper c = (if 97 \<le> (of_char c :: nat) \<and> (of_char c :: nat) \<le> 122 then char_of ((of_char c :: nat) - 32) else c)"

text \<open>The members of the class: a property with the name of one of them is written under the name with a capital.  A text that is
  written as \<open>__proto__\<close> is ignored.\<close>

definition member_names :: "string list" where
  "member_names = [''constructor'', ''set'', ''get'', ''has'', ''delete'', ''clear'', ''normalize'', ''concat'', ''toJSON'', ''toString'']
     @ concat (map (\<lambda>h. [''get'' @ h, ''set'' @ h, ''has'' @ h]) [''ContentType'', ''ContentLength'', ''Accept'', ''AcceptEncoding'', ''UserAgent'', ''Authorization''])"

definition write_new :: "string \<Rightarrow> hval \<Rightarrow> headers \<Rightarrow> headers" where
  "write_new u a r = (if u = ''__proto__'' then r else own_put (if u \<in> set member_names then upper (hd u) # tl u else u) a r)"

text \<open>One header: an existing one is replaced when there is no value yet, when it is to be rewritten, or
  when nothing is said about it and it is not switched off.\<close>

definition setHeader :: "hval \<Rightarrow> string \<Rightarrow> bool option \<Rightarrow> headers \<Rightarrow> header_error + headers" where
  "setHeader a u c r =
     (if normalizeHeader u = [] then Inl EmptyName
      else Inr (case findKey r (normalizeHeader u) of
          None \<Rightarrow> write_new u a r
        | Some f \<Rightarrow> if value_at r f = HUndef \<or> c = Some True \<or> c = None \<and> value_at r f \<noteq> HFalse then own_put f a r else r))"

fun setHeaders :: "headers \<Rightarrow> bool option \<Rightarrow> headers \<Rightarrow> header_error + headers" where
  "setHeaders [] c r = Inr r"
| "setHeaders ((d, a) # xs) c r = (case setHeader a d c r of Inl e \<Rightarrow> Inl e | Inr r' \<Rightarrow> setHeaders xs c r')"

definition getHeader :: "string \<Rightarrow> headers \<Rightarrow> hval" where
  "getHeader t h = (if normalizeHeader t = [] then HUndef
     else case findKey h (normalizeHeader t) of None \<Rightarrow> HUndef | Some f \<Rightarrow> value_at h f)"

definition hasHeader :: "string \<Rightarrow> headers \<Rightarrow> bool" where
  "hasHeader t h \<longleftrightarrow> getHeader t h \<noteq> HUndef"

definition deleteHeader :: "string \<Rightarrow> headers \<Rightarrow> bool \<times> headers" where
  "deleteHeader t h = (if normalizeHeader t = [] then (False, h)
     else case findKey h (normalizeHeader t) of None \<Rightarrow> (False, h) | Some f \<Rightarrow> (True, AList.delete f h))"

text \<open>\<open>concat\<close>: a new collection with the headers of all arguments set one after the other.\<close>

fun concatHeaders :: "headers list \<Rightarrow> headers \<Rightarrow> header_error + headers" where
  "concatHeaders [] r = Inr r"
| "concatHeaders (h # hs) r = (case setHeaders h None r of Inl e \<Rightarrow> Inl e | Inr r' \<Rightarrow> concatHeaders hs r')"

definition toJSON :: "headers \<Rightarrow> headers" where
  "toJSON h = filter (\<lambda>(k, v). v \<noteq> HUndef \<and> v \<noteq> HFalse) h"

fun hval_text :: "hval \<Rightarrow> string" where
  "hval_text (HText s) = s"
| "hval_text (HList xs) = js_join '','' xs"
| "hval_text HUndef = ''undefined''"
| "hval_text HFalse = ''false''"

definition headers_toString :: "headers \<Rightarrow> string" where
  "headers_toString h = js_join [CHR 0x0A] (map (\<lambda>(t, n). t @ '': '' @ hval_text n) (toJSON h))"

section \<open>Names without case\<close>

text \<open>A collection in which no two names are equal but for case.\<close>

definition caseless :: "headers \<Rightarrow> bool" where
  "caseless h \<longleftrightarrow> distinct (map (lowercase \<circ> fst) h)"

lemma lower_lower [simp]: "lower (lower c) = lower c"
  by (simp add: lower_def)

lemma lowercase_idem [simp]: "lowercase (lowercase s) = lowercase s"
  by (simp add: lowercase_def)

lemma lowercase_Nil [simp]: "lowercase s = [] \<longleftrightarrow> s = []"
  by (simp add: lowercase_def)

lemma findKey_Some: "findKey h t = Some f \<Longrightarrow> f \<in> fst ` set h \<and> lowercase f = lowercase t"
  by (auto simp: findKey_def find_Some_iff) (metis in_set_conv_nth length_map length_rev list.set_map set_rev)

lemma findKey_None: "findKey h t = None \<longleftrightarrow> (\<forall>k \<in> fst ` set h. lowercase k \<noteq> lowercase t)"
  by (auto simp: findKey_def find_None_iff)

lemma caseless_keys: "caseless h \<Longrightarrow> k \<in> fst ` set h \<Longrightarrow> l \<in> fst ` set h \<Longrightarrow> lowercase k = lowercase l \<Longrightarrow> k = l"
  unfolding caseless_def by (auto simp: distinct_map inj_on_def)

lemma findKey_eq: "caseless h \<Longrightarrow> k \<in> fst ` set h \<Longrightarrow> lowercase k = lowercase t \<Longrightarrow> findKey h t = Some k"
  by (metis caseless_keys findKey_None findKey_Some not_None_eq)

lemma caseless_distinct: "caseless h \<Longrightarrow> distinct (map fst h)"
  unfolding caseless_def by (metis distinct_map map_map)

lemma caseless_update: "caseless h \<Longrightarrow> k \<in> fst ` set h \<or> (\<forall>l \<in> fst ` set h. lowercase l \<noteq> lowercase k) \<Longrightarrow> caseless (own_put k v h)"
  unfolding caseless_def by (rule own_put_distinct) (auto simp: image_iff)

definition header_name :: "string \<Rightarrow> bool" where
  "header_name u \<longleftrightarrow> u \<noteq> [] \<and> js_trim u = u \<and> u \<noteq> ''__proto__''"

text \<open>The name under which a new header is written is equal to its own but for case.\<close>

definition written_name :: "string \<Rightarrow> string" where
  "written_name u = (if u \<in> set member_names then upper (hd u) # tl u else u)"

lemma lower_upper: "lower (upper c) = lower c"
  by (auto simp: lower_def upper_def)

lemma written_name_case: "lowercase (written_name u) = lowercase u"
  by (cases u) (auto simp: written_name_def lowercase_def lower_upper member_names_def)

lemma write_new_at: "header_name u \<Longrightarrow> write_new u a r = own_put (written_name u) a r"
  by (simp add: write_new_def written_name_def header_name_def)

text \<open>A header as it is set without saying whether to rewrite; a name of white space only throws.\<close>

definition put_header :: "string \<Rightarrow> hval \<Rightarrow> headers \<Rightarrow> headers" where
  "put_header u a h = (case setHeader a u None h of Inl _ \<Rightarrow> h | Inr r \<Rightarrow> r)"

lemma getHeader_at:
  "normalizeHeader t \<noteq> [] \<Longrightarrow> caseless h \<Longrightarrow> k \<in> fst ` set h \<Longrightarrow> lowercase k = normalizeHeader t \<Longrightarrow> getHeader t h = value_at h k"
  using findKey_eq[of h k "normalizeHeader t"] by (simp add: getHeader_def normalizeHeader_def)

lemma getHeader_missing: "\<forall>k \<in> fst ` set h. lowercase k \<noteq> normalizeHeader t \<Longrightarrow> getHeader t h = HUndef"
  by (auto simp: getHeader_def findKey_None normalizeHeader_def split: option.split dest!: findKey_Some)

lemma value_at_update: "value_at (own_put k v h) l = (if l = k then v else value_at h l)"
  by (simp add: value_at_def own_put_map)

text \<open>Writing at a key of the collection, or at one whose name is new, changes what is read under that name only.\<close>

lemma getHeader_update:
  assumes "caseless h" and "k \<in> fst ` set h \<or> (\<forall>l \<in> fst ` set h. lowercase l \<noteq> lowercase k)" and "k \<noteq> []"
  shows "getHeader t (own_put k v h) = (if normalizeHeader t = lowercase k then v else getHeader t h)"
proof -
  let ?h = "own_put k v h"
  have c: "caseless ?h" by (rule caseless_update[OF assms(1,2)])
  show ?thesis
  proof (cases "normalizeHeader t = lowercase k")
    case True
    then have "getHeader t ?h = value_at ?h k" using assms(3) by (intro getHeader_at[OF _ c]) (auto simp: own_put_keys)
    then show ?thesis using True by (simp add: value_at_update)
  next
    case False
    show ?thesis
    proof (cases "\<exists>l \<in> fst ` set h. lowercase l = normalizeHeader t \<and> normalizeHeader t \<noteq> []")
      case True
      then obtain l where l: "l \<in> fst ` set h" "lowercase l = normalizeHeader t" "normalizeHeader t \<noteq> []" by blast
      have "getHeader t ?h = value_at ?h l" "getHeader t h = value_at h l"
        by (rule getHeader_at[OF l(3) c _ l(2)], simp add: own_put_keys l(1)) (rule getHeader_at[OF l(3) assms(1) l(1,2)])
      moreover have "l \<noteq> k" using False l(2) by auto
      ultimately show ?thesis using False by (simp add: value_at_update)
    next
      case no: False
      have "getHeader t h = HUndef \<and> getHeader t ?h = HUndef"
      proof (cases "normalizeHeader t = []")
        case True
        then show ?thesis by (simp add: getHeader_def)
      next
        case ne: False
        then have n: "\<forall>l \<in> fst ` set h. lowercase l \<noteq> normalizeHeader t" using no by blast
        then have "\<forall>l \<in> fst ` set ?h. lowercase l \<noteq> normalizeHeader t" using False unfolding own_put_keys by auto
        with n show ?thesis using getHeader_missing by blast
      qed
      then show ?thesis using False by simp
    qed
  qed
qed

lemma put_header_laws:
  assumes "caseless h" and "header_name u"
  shows "caseless (put_header u a h)"
    and "getHeader t (put_header u a h) = (if normalizeHeader t = normalizeHeader u \<and> getHeader u h \<noteq> HFalse then a else getHeader t h)"
    and "setHeader a u None h = Inr (put_header u a h)"
proof -
  have u: "normalizeHeader u = lowercase u" "u \<noteq> []" using assms(2) by (auto simp: header_name_def normalizeHeader_def)
  show "setHeader a u None h = Inr (put_header u a h)" using u by (simp add: put_header_def setHeader_def)
  have "caseless (put_header u a h) \<and>
    getHeader t (put_header u a h) = (if normalizeHeader t = normalizeHeader u \<and> getHeader u h \<noteq> HFalse then a else getHeader t h)"
  proof (cases "findKey h (lowercase u)")
    case None
    then have n: "\<forall>l \<in> fst ` set h. lowercase l \<noteq> lowercase u" by (simp add: findKey_None)
    then have w: "\<forall>l \<in> fst ` set h. lowercase l \<noteq> lowercase (written_name u)" and "getHeader u h = HUndef"
      using u by (simp_all add: written_name_case getHeader_missing)
    moreover have "written_name u \<noteq> []" using u(2) written_name_case lowercase_Nil by metis
    ultimately show ?thesis
      using u None write_new_at[OF assms(2)] caseless_update[OF assms(1) disjI2[OF w]] getHeader_update[OF assms(1) disjI2[OF w]]
      by (simp add: put_header_def setHeader_def written_name_case)
  next
    case (Some f)
    then have f: "f \<in> fst ` set h" "lowercase f = lowercase u" using findKey_Some[OF Some] by auto
    have fe: "f \<noteq> []" using f(2) u(2) lowercase_Nil by metis
    have g: "getHeader u h = value_at h f" using u by (intro getHeader_at[OF _ assms(1) f(1)]) (simp_all add: f(2))
    show ?thesis
      using u Some f g caseless_update[OF assms(1) disjI1[OF f(1)]] getHeader_update[OF assms(1) disjI1[OF f(1)] fe] assms(1)
      by (auto simp: put_header_def setHeader_def)
  qed
  then show "caseless (put_header u a h)"
    "getHeader t (put_header u a h) = (if normalizeHeader t = normalizeHeader u \<and> getHeader u h \<noteq> HFalse then a else getHeader t h)" by auto
qed

section \<open>Settings one after the other\<close>

text \<open>The contract between a collection with names that are compared after \<open>norm\<close> and the code that sets
  many of them: a value \<open>z\<close> is never replaced, any other one is, and nothing else changes.\<close>

locale settings =
  fixes put :: "string \<Rightarrow> 'v \<Rightarrow> 'h \<Rightarrow> 'h" and look :: "string \<Rightarrow> 'h \<Rightarrow> 'v" and ok :: "'h \<Rightarrow> bool" and nam :: "string \<Rightarrow> bool"
    and norm :: "string \<Rightarrow> string" and z :: 'v
  assumes put_ok: "ok h \<Longrightarrow> nam u \<Longrightarrow> ok (put u a h)"
    and look_put: "ok h \<Longrightarrow> nam u \<Longrightarrow> look t (put u a h) = (if norm t = norm u \<and> look u h \<noteq> z then a else look t h)"
    and look_norm: "norm t = norm u \<Longrightarrow> look t h = look u h"
begin

lemma last_wins:
  assumes "ok h" and "\<forall>(u, a) \<in> set xs. nam u \<and> a \<noteq> z" and "look t h \<noteq> z"
  shows "ok (fold (\<lambda>(u, a). put u a) xs h)"
    and "look t (fold (\<lambda>(u, a). put u a) xs h) = (case find (\<lambda>(u, a). norm u = norm t) (rev xs) of Some (u, a) \<Rightarrow> a | None \<Rightarrow> look t h)"
proof -
  have "ok (fold (\<lambda>(u, a). put u a) xs h) \<and> look t (fold (\<lambda>(u, a). put u a) xs h) \<noteq> z \<and>
    look t (fold (\<lambda>(u, a). put u a) xs h) = (case find (\<lambda>(u, a). norm u = norm t) (rev xs) of Some (u, a) \<Rightarrow> a | None \<Rightarrow> look t h)"
    using assms(2)
  proof (induction xs rule: rev_induct)
    case (snoc x xs)
    obtain u a where x: "x = (u, a)" by force
    let ?f = "fold (\<lambda>(u, a). put u a) xs h"
    have f: "ok ?f" "look t ?f \<noteq> z" and u: "nam u" "a \<noteq> z" using snoc x by auto
    show ?case
    proof (cases "norm t = norm u")
      case True
      then have "look t (put u a ?f) = a" using f look_put[OF f(1) u(1), of t a] look_norm[OF True, of ?f] by simp
      then show ?thesis using True put_ok[OF f(1) u(1)] u(2) x by simp
    next
      case False
      then show ?thesis using snoc x by (auto simp: put_ok look_put)
    qed
  qed (use assms(1,3) in simp)
  then show "ok (fold (\<lambda>(u, a). put u a) xs h)"
    "look t (fold (\<lambda>(u, a). put u a) xs h) = (case find (\<lambda>(u, a). norm u = norm t) (rev xs) of Some (u, a) \<Rightarrow> a | None \<Rightarrow> look t h)" by auto
qed

end

interpretation header_settings: settings put_header getHeader caseless header_name normalizeHeader HFalse
proof unfold_locales
  show "getHeader t h = getHeader u h" if "normalizeHeader t = normalizeHeader u" for t u h using that by (simp add: getHeader_def)
qed (use put_header_laws in auto)

lemma setHeaders_fold:
  assumes "caseless h" and "\<forall>(u, a) \<in> set xs. header_name u"
  shows "setHeaders xs None h = Inr (fold (\<lambda>(u, a). put_header u a) xs h) \<and> caseless (fold (\<lambda>(u, a). put_header u a) xs h)"
  using assms
proof (induction xs arbitrary: h)
  case (Cons x xs)
  obtain u a where x: "x = (u, a)" by force
  have n: "header_name u" using Cons.prems x by simp
  show ?case using Cons.IH[OF put_header_laws(1)[OF Cons.prems(1) n]] Cons.prems x put_header_laws(3)[OF Cons.prems(1) n] by simp
qed simp

lemma concatHeaders_fold:
  assumes "caseless h" and "\<forall>(u, a) \<in> set (concat hs). header_name u"
  shows "concatHeaders hs h = Inr (fold (\<lambda>(u, a). put_header u a) (concat hs) h)"
  using assms
proof (induction hs arbitrary: h)
  case (Cons x xs)
  have "\<forall>(u, a) \<in> set x. header_name u" using Cons.prems(2) by auto
  from setHeaders_fold[OF Cons.prems(1) this] show ?case using Cons.IH Cons.prems(2) by simp
qed simp

text \<open>joining collections of headers gives every name, whatever its case, the value that was set last, keeps the others and
  never leaves two names that are equal but for case; it holds for proper names and as long as no header is switched off.\<close>

theorem headers_last_wins:
  assumes "caseless h" and "\<forall>(u, a) \<in> set (concat hs). header_name u \<and> a \<noteq> HFalse" and "getHeader t h \<noteq> HFalse"
  shows "\<exists>r. concatHeaders hs h = Inr r \<and> caseless r \<and>
    getHeader t r = (case find (\<lambda>(u, a). normalizeHeader u = normalizeHeader t) (rev (concat hs)) of Some (u, a) \<Rightarrow> a | None \<Rightarrow> getHeader t h)"
proof -
  have "\<forall>(u, a) \<in> set (concat hs). header_name u" using assms(2) by auto
  from concatHeaders_fold[OF assms(1) this] header_settings.last_wins[OF assms] show ?thesis by auto
qed

theorem headers_last_wins_witness:
  "\<exists>r. concatHeaders [[(''Accept'', HText ''*'')], [(''accept'', HText ''text/plain'')]] [(''X-A'', HText ''1'')] = Inr r \<and>
    getHeader ''ACCEPT'' r = HText ''text/plain''"
proof -
  let ?h = "[(''X-A'', HText ''1'')]" and ?hs = "[[(''Accept'', HText ''*'')], [(''accept'', HText ''text/plain'')]]"
  have "caseless ?h" by (simp add: caseless_def)
  moreover have "\<forall>(u, a) \<in> set (concat ?hs). header_name u \<and> a \<noteq> HFalse" by (simp add: header_name_def js_trim_def js_space_def)
  moreover have "getHeader ''ACCEPT'' ?h \<noteq> HFalse" by code_simp
  moreover have "normalizeHeader ''accept'' = normalizeHeader ''ACCEPT''" by code_simp
  ultimately show ?thesis using headers_last_wins[of ?h ?hs "''ACCEPT''"] by auto
qed

section \<open>Printing and reading headers\<close>

definition header_entry :: "string \<times> string \<Rightarrow> bool" where
  "header_entry = (\<lambda>(k, v). header_name k \<and> lowercase k \<noteq> ''set-cookie'' \<and> \<not> inherited_name (lowercase k) \<and> CHR '':'' \<notin> set k \<and> CHR 0x0A \<notin> set k \<and>
     js_trim v = v \<and> CHR 0x0A \<notin> set v)"

lemma parse_entry:
  assumes "header_entry (k, v)" and "lowercase k \<notin> fst ` set t" and "own_ordered (t @ [(lowercase k, HText v)])"
  shows "parseHeaderLine (k @ '': '' @ v) t = t @ [(lowercase k, HText v)]"
proof -
  have k: "CHR '':'' \<notin> set k" "js_trim k = k" "k \<noteq> []" "lowercase k \<noteq> ''set-cookie''" "js_trim v = v" "\<not> inherited_name (lowercase k)"
    using assms(1) by (auto simp: header_entry_def header_name_def)
  have i: "indexOf '':'' (k @ '': '' @ v) = Some (length k)" using indexOf_char[OF k(1), of "'' '' @ v"] by simp
  have sp: "js_trim ('' '' @ v) = v" using k(5) by (simp add: js_trim_def js_space_def)
  have m: "map_of t (lowercase k) = None" using assms(2) by (simp add: map_of_eq_None_iff)
  show ?thesis unfolding parseHeaderLine_def i using k sp m own_put_end[OF assms(2,3)] by simp
qed

lemma digits_have_no_case: "digits_value a k = Some n \<Longrightarrow> lowercase k = k"
proof (induction k arbitrary: a)
  case (Cons c k)
  then have "\<exists>d. char_digit c = Some d" by (auto split: option.splits)
  then have "lower c = c" by (auto simp: char_digit_def lower_def Let_def split: if_splits)
  then show ?case using Cons by (auto simp: lowercase_def split: option.splits)
qed (simp add: lowercase_def)

lemma digits_lowercase: "digits_value a (lowercase k) = Some n \<Longrightarrow> lowercase k = k"
proof (induction k arbitrary: a)
  case (Cons c k)
  then have "\<exists>d. char_digit (lower c) = Some d" by (auto simp: lowercase_def split: option.splits)
  then have "lower c = c" by (auto simp: char_digit_def lower_def Let_def split: if_splits)
  then show ?case using Cons by (auto simp: lowercase_def split: option.splits)
qed (simp add: lowercase_def)

lemma index_name_lowercase: "index_name (lowercase k) = index_name k"
proof (cases "lowercase k = k")
  case False
  then have "digits_value 0 k = None" "digits_value 0 (lowercase k) = None"
    using digits_have_no_case[of 0 k] digits_lowercase[of 0 k] by (auto intro: ccontr)
  then show ?thesis by (simp add: index_name_def parse_nat_def)
qed simp

lemma comes_before_lowercase: "comes_before (lowercase l) (lowercase k) = comes_before l k"
  by (simp add: comes_before_def index_name_lowercase split: option.split)

lemma own_ordered_lowercase: "own_ordered (map (\<lambda>(k, v). (lowercase k, f v)) hs) \<longleftrightarrow> own_ordered hs"
  by (simp add: own_ordered_def sorted_wrt_map case_prod_unfold comes_before_lowercase)

lemma parse_entries:
  assumes "\<forall>e \<in> set hs. header_entry e" and "distinct (map (lowercase \<circ> fst) hs)" and "(lowercase \<circ> fst) ` set hs \<inter> fst ` set t = {}"
    and "own_ordered (t @ map (\<lambda>(k, v). (lowercase k, HText v)) hs)"
  shows "fold parseHeaderLine (map (\<lambda>(k, v). k @ '': '' @ v) hs) t = t @ map (\<lambda>(k, v). (lowercase k, HText v)) hs"
  using assms
proof (induction hs arbitrary: t)
  case (Cons e hs)
  obtain k v where e: "e = (k, v)" by force
  have "own_ordered (t @ [(lowercase k, HText v)])" using Cons.prems(4) e by (simp add: own_ordered_def sorted_wrt_append)
  then have "parseHeaderLine (k @ '': '' @ v) t = t @ [(lowercase k, HText v)]" using Cons.prems(1-3) e by (intro parse_entry) auto
  moreover have "fold parseHeaderLine (map (\<lambda>(k, v). k @ '': '' @ v) hs) (t @ [(lowercase k, HText v)]) =
      (t @ [(lowercase k, HText v)]) @ map (\<lambda>(k, v). (lowercase k, HText v)) hs"
    using Cons.prems e by (intro Cons.IH) (auto simp: image_iff)
  ultimately show ?case by (simp add: e)
qed simp

text \<open>C35: The text of a collection of headers is read back as the same headers in the same order, with their names in lower case and their
  values.  The headers are those that have a line of their own in the text: their names are not empty, have no white space
  around them and neither a colon nor a line break in them, and are, in lower case, neither \<open>set-cookie\<close>, whose values are collected, nor
  one of the inherited names \<open>constructor\<close> and \<open>__proto__\<close>, whose lines are dropped; their values are single texts without a
  line break or white space around them; no two names are equal but for case, and the entries stand in the order in which an object
  lists them, array indices first.\<close>

theorem headers_round_trip:
  assumes "\<forall>e \<in> set hs. header_entry e" and "distinct (map (lowercase \<circ> fst) hs)" and "own_ordered hs"
  shows "parseHeaders (headers_toString (map (\<lambda>(k, v). (k, HText v)) hs)) = map (\<lambda>(k, v). (lowercase k, HText v)) hs"
proof (cases hs)
  case (Cons e es)
  let ?ls = "map (\<lambda>(k, v). k @ '': '' @ v) hs"
  have j: "toJSON (map (\<lambda>(k, v). (k, HText v)) hs) = map (\<lambda>(k, v). (k, HText v)) hs" by (auto simp: toJSON_def intro!: filter_True)
  have s: "headers_toString (map (\<lambda>(k, v). (k, HText v)) hs) = java_join (CHR 0x0A) ?ls"
    unfolding headers_toString_def j js_join_char by (simp add: o_def case_prod_unfold)
  have nl: "\<forall>l \<in> set ?ls. CHR 0x0A \<notin> set l" using assms(1) by (auto simp: header_entry_def)
  have ne: "java_join (CHR 0x0A) ?ls \<noteq> []"
  proof -
    obtain k v where "e = (k, v)" by force
    then show ?thesis using Cons by (cases es) auto
  qed
  have "pieces (CHR 0x0A) (java_join (CHR 0x0A) ?ls) = ?ls" using nl Cons by (intro pieces_join) auto
  then show ?thesis unfolding parseHeaders_def s using ne parse_entries[OF assms(1,2), of "[]"] assms(3) by (simp add: own_ordered_lowercase)
qed (simp add: parseHeaders_def headers_toString_def toJSON_def)

theorem headers_round_trip_witness:
  "parseHeaders (headers_toString [(''Accept'', HText ''*''), (''X-Id'', HText ''a: b'')]) = [(''accept'', HText ''*''), (''x-id'', HText ''a: b'')]"
proof -
  let ?hs = "[(''Accept'', ''*''), (''X-Id'', ''a: b'')]"
  have "\<forall>e \<in> set ?hs. header_entry e" by code_simp
  moreover have "distinct (map (lowercase \<circ> fst) ?hs)" by code_simp
  moreover have "own_ordered ?hs" by code_simp
  moreover have "map (\<lambda>(k, v). (lowercase k, HText v)) ?hs = [(''accept'', HText ''*''), (''x-id'', HText ''a: b'')]" by code_simp
  ultimately show ?thesis using headers_round_trip[of ?hs] by simp
qed

text \<open>A header of an inherited name is lost from a reply.\<close>

theorem constructor_header_lost:
  assumes "inherited_name (lowercase (js_trim k))" "CHR '':'' \<notin> set k"
  shows "parseHeaderLine (k @ CHR '':'' # v) t = t"
  using assms indexOf_char[OF assms(2), of v] by (simp add: parseHeaderLine_def Let_def)

end
