(* ===== verification/Url_Pattern.thy ===== *)
theory Url_Pattern
  imports Js_Library
begin

text \<open>
  The patterns with which the form validation recognises texts (\<open>index-e87360db.js\<close>): addresses of
  the internet protocol, URLs, mail addresses and colours.  Regular expressions are data, matched by derivatives; the
  matcher agrees with the language of an expression.  The lemmas give the address patterns
  their meaning: a dotted decimal text of four bytes, and the eight groups of an address of version six with one gap.
\<close>

section \<open>Regular expressions\<close>

datatype rx = Nul | Eps | Cls "char \<Rightarrow> bool" | Seq rx rx | Alt rx rx | Rep nat "nat option" rx

text \<open>The texts that an expression between \<open>^\<close> and \<open>$\<close> matches.\<close>

definition within :: "nat \<Rightarrow> nat option \<Rightarrow> nat \<Rightarrow> bool" where
  "within lo hi n \<longleftrightarrow> lo \<le> n \<and> (case hi of None \<Rightarrow> True | Some h \<Rightarrow> n \<le> h)"

fun lang :: "rx \<Rightarrow> string set" where
  "lang Nul = {}"
| "lang Eps = {[]}"
| "lang (Cls p) = {[c] | c. p c}"
| "lang (Seq r s) = {u @ v | u v. u \<in> lang r \<and> v \<in> lang s}"
| "lang (Alt r s) = lang r \<union> lang s"
| "lang (Rep lo hi r) = {concat us | us. set us \<subseteq> lang r \<and> within lo hi (length us)}"

text \<open>The matcher.\<close>

fun nullable :: "rx \<Rightarrow> bool" where
  "nullable Nul = False"
| "nullable Eps = True"
| "nullable (Cls p) = False"
| "nullable (Seq r s) = (nullable r \<and> nullable s)"
| "nullable (Alt r s) = (nullable r \<or> nullable s)"
| "nullable (Rep lo hi r) = ((lo = 0 \<or> nullable r) \<and> (case hi of None \<Rightarrow> True | Some h \<Rightarrow> lo \<le> h))"

fun alt :: "rx \<Rightarrow> rx \<Rightarrow> rx" where
  "alt Nul s = s"
| "alt r Nul = r"
| "alt r s = Alt r s"

fun seq :: "rx \<Rightarrow> rx \<Rightarrow> rx" where
  "seq Nul s = Nul"
| "seq Eps s = s"
| "seq r s = Seq r s"

fun deriv :: "char \<Rightarrow> rx \<Rightarrow> rx" where
  "deriv c Nul = Nul"
| "deriv c Eps = Nul"
| "deriv c (Cls p) = (if p c then Eps else Nul)"
| "deriv c (Seq r s) = (if nullable r then alt (seq (deriv c r) s) (deriv c s) else seq (deriv c r) s)"
| "deriv c (Alt r s) = alt (deriv c r) (deriv c s)"
| "deriv c (Rep lo hi r) = (case hi of
     None \<Rightarrow> seq (deriv c r) (Rep (lo - 1) None r)
   | Some h \<Rightarrow> if h = 0 then Nul else seq (deriv c r) (Rep (lo - 1) (Some (h - 1)) r))"

definition accepts :: "rx \<Rightarrow> string \<Rightarrow> bool" where
  "accepts r s = nullable (fold deriv s r)"

definition seqs :: "rx list \<Rightarrow> rx" where
  "seqs rs = foldr Seq rs Eps"

fun alts :: "rx list \<Rightarrow> rx" where
  "alts [] = Nul"
| "alts [r] = r"
| "alts (r # s # rs) = Alt r (alts (s # rs))"

definition lit :: "string \<Rightarrow> rx" where
  "lit s = seqs (map (\<lambda>c. Cls (\<lambda>x. x = c)) s)"

definition times :: "nat \<Rightarrow> rx \<Rightarrow> rx" where
  "times n r = Rep n (Some n) r"

definition opt :: "rx \<Rightarrow> rx" where
  "opt r = Rep 0 (Some 1) r"

section \<open>Addresses\<close>

definition in_range :: "char \<Rightarrow> char \<Rightarrow> char \<Rightarrow> bool" where
  "in_range a b c \<longleftrightarrow> (of_char a :: nat) \<le> of_char c \<and> (of_char c :: nat) \<le> of_char b"

definition digit :: rx where
  "digit = Cls (in_range (CHR ''0'') (CHR ''9''))"

text \<open>\<open>n\<close>: four numbers below 256.\<close>

definition octet :: rx where
  "octet = alts [seqs [lit ''25'', Cls (in_range (CHR ''0'') (CHR ''5''))], seqs [lit ''2'', Cls (in_range (CHR ''0'') (CHR ''4'')), digit],
     seqs [lit ''1'', digit, digit], seqs [Cls (in_range (CHR ''1'') (CHR ''9'')), digit], digit]"

definition v4 :: rx where
  "v4 = seqs [octet, times 3 (seqs [lit ''.'', octet])]"

text \<open>\<open>o\<close>: up to four hexadecimal digits; a group with a colon after it, and with a colon before it.\<close>

definition group :: rx where
  "group = Rep 1 (Some 4) (Cls (\<lambda>c. in_range (CHR ''a'') (CHR ''f'') c \<or> in_range (CHR ''A'') (CHR ''F'') c \<or> in_range (CHR ''0'') (CHR ''9'') c))"

definition before_colon :: rx where
  "before_colon = seqs [group, lit '':'']"

definition after_colon :: rx where
  "after_colon = seqs [lit '':'', group]"

definition ip6_7 :: rx where
  "ip6_7 = seqs [times 7 before_colon, alts [group, lit '':'']]"

definition ip6_6 :: rx where
  "ip6_6 = seqs [times 6 before_colon, alts [v4, after_colon, lit '':'']]"

definition ip6_5 :: rx where
  "ip6_5 = seqs [times 5 before_colon, alts [seqs [lit '':'', v4], Rep 1 (Some 2) after_colon, lit '':'']]"

definition ip6_4 :: rx where
  "ip6_4 = seqs [times 4 before_colon, alts [seqs [Rep 0 (Some 1) after_colon, lit '':'', v4], Rep 1 (Some 3) after_colon, lit '':'']]"

definition ip6_3 :: rx where
  "ip6_3 = seqs [times 3 before_colon, alts [seqs [Rep 0 (Some 2) after_colon, lit '':'', v4], Rep 1 (Some 4) after_colon, lit '':'']]"

definition ip6_2 :: rx where
  "ip6_2 = seqs [times 2 before_colon, alts [seqs [Rep 0 (Some 3) after_colon, lit '':'', v4], Rep 1 (Some 5) after_colon, lit '':'']]"

definition ip6_1 :: rx where
  "ip6_1 = seqs [times 1 before_colon, alts [seqs [Rep 0 (Some 4) after_colon, lit '':'', v4], Rep 1 (Some 6) after_colon, lit '':'']]"

definition ip6_0 :: rx where
  "ip6_0 = seqs [lit '':'', alts [seqs [Rep 0 (Some 5) after_colon, lit '':'', v4], Rep 1 (Some 7) after_colon, lit '':'']]"

definition zone :: rx where
  "zone = opt (seqs [lit ''%'', Rep 1 None (Cls (\<lambda>c. in_range (CHR ''0'') (CHR ''9'') c \<or> in_range (CHR ''a'') (CHR ''z'') c \<or> in_range (CHR ''A'') (CHR ''Z'') c))])"

definition ip6 :: rx where
  "ip6 = alts [ip6_7, ip6_6, ip6_5, ip6_4, ip6_3, ip6_2, ip6_1, ip6_0]"

definition v6 :: rx where
  "v6 = seqs [ip6, zone]"

section \<open>URLs, mail addresses and colours\<close>

text \<open>The flag \<open>i\<close> makes the letters of a class and of a word stand for both cases; code units from 161 on count as letters.\<close>

definition letter :: "char \<Rightarrow> bool" where
  "letter c \<longleftrightarrow> in_range (CHR ''a'') (CHR ''z'') (lower c)"

definition wide_letter :: "char \<Rightarrow> bool" where
  "wide_letter c \<longleftrightarrow> letter c \<or> 161 \<le> (of_char c :: nat)"

definition host_char :: "char \<Rightarrow> bool" where
  "host_char c \<longleftrightarrow> wide_letter c \<or> in_range (CHR ''0'') (CHR ''9'') c"

definition lit_i :: "string \<Rightarrow> rx" where
  "lit_i s = seqs (map (\<lambda>c. Cls (\<lambda>x. lower x = c)) s)"

definition protocol :: rx where
  "protocol = seqs [opt (seqs [Rep 1 None (Cls letter), lit '':'']), lit ''//'']"

definition auth :: rx where
  "auth = opt (seqs [Rep 1 None (Cls (\<lambda>c. \<not> js_space c)), opt (seqs [lit '':'', Rep 0 None (Cls (\<lambda>c. \<not> js_space c))]), lit ''@''])"

definition host :: rx where
  "host = seqs [Rep 0 None (seqs [Cls host_char, Rep 0 None (Cls (\<lambda>c. c = CHR ''-'' \<or> c = CHR ''_''))]), Rep 1 None (Cls host_char)]"

definition domain :: rx where
  "domain = Rep 0 None (seqs [lit ''.'', Rep 0 None (seqs [Cls host_char, Rep 0 None (lit ''-'')]), Rep 1 None (Cls host_char)])"

definition tld :: rx where
  "tld = seqs [lit ''.'', Rep 2 None (Cls wide_letter)]"

definition port :: rx where
  "port = opt (seqs [lit '':'', Rep 2 (Some 5) digit])"

definition path :: rx where
  "path = opt (seqs [Cls (\<lambda>c. c \<in> set ''/?#''), Rep 0 None (Cls (\<lambda>c. \<not> js_space c \<and> c \<noteq> CHR 0x22))])"

definition url_rx :: rx where
  "url_rx = seqs [alts [protocol, lit_i ''www.''], auth, alts [lit_i ''localhost'', v4, v6, seqs [host, domain, tld]], port, path]"

definition is_url :: "string \<Rightarrow> bool" where
  "is_url t \<longleftrightarrow> length t \<le> 2048 \<and> accepts url_rx t"

definition hex_rx :: rx where
  "hex_rx = (let h = Cls (\<lambda>c. in_range (CHR ''a'') (CHR ''f'') (lower c) \<or> in_range (CHR ''0'') (CHR ''9'') c) in
     seqs [opt (lit ''#''), alts [times 6 h, times 3 h]])"

definition is_hex :: "string \<Rightarrow> bool" where
  "is_hex t \<longleftrightarrow> accepts hex_rx t"

text \<open>\<open>email\<close>: the dot of \<open>.+\<close> is no line break; the upper ranges of the domain leave out nothing from 160 to 255.\<close>

definition mail_char :: "char \<Rightarrow> bool" where
  "mail_char c \<longleftrightarrow> c \<notin> set ''<>()[].,;:@'' \<and> c \<noteq> CHR 0x5C \<and> c \<noteq> CHR 0x22 \<and> \<not> js_space c"

definition email_rx :: rx where
  "email_rx = (let name = Rep 1 None (Cls mail_char); number = Rep 1 (Some 3) digit;
       wide = (\<lambda>c. letter c \<or> 160 \<le> (of_char c :: nat)); part = (\<lambda>c. wide c \<or> c = CHR ''-'' \<or> in_range (CHR ''0'') (CHR ''9'') c) in
     seqs [alts [seqs [name, Rep 0 None (seqs [lit ''.'', name])],
                 seqs [lit [CHR 0x22], Rep 1 None (Cls (\<lambda>c. c \<noteq> CHR 0x0A \<and> c \<noteq> CHR 0x0D)), lit [CHR 0x22]]],
           lit ''@'',
           alts [seqs [lit ''['', number, lit ''.'', number, lit ''.'', number, lit ''.'', number, lit '']''],
                 seqs [Rep 1 None (seqs [Rep 1 None (Cls part), lit ''.'']), Rep 2 None (Cls wide)]]])"

definition is_email :: "string \<Rightarrow> bool" where
  "is_email t \<longleftrightarrow> length t \<le> 320 \<and> accepts email_rx t"

section \<open>The matcher and the language\<close>

lemma nullable_lang: "nullable r \<longleftrightarrow> [] \<in> lang r"
proof (induction r)
  case (Rep lo hi r)
  show ?case
  proof
    assume n: "nullable (Rep lo hi r)"
    have "concat (replicate lo []) = ([] :: string)" by (induction lo) auto
    moreover have "set (replicate lo []) \<subseteq> lang r" using n Rep by (auto simp: set_replicate_conv_if)
    moreover have "within lo hi (length (replicate lo ([] :: string)))" using n by (auto simp: within_def split: option.splits)
    ultimately show "[] \<in> lang (Rep lo hi r)" by (force simp del: replicate.simps)
  next
    assume "[] \<in> lang (Rep lo hi r)"
    then obtain us where us: "concat us = []" "set us \<subseteq> lang r" "within lo hi (length us)" by auto
    have "lo = 0 \<or> [] \<in> lang r" using us by (cases us) (auto simp: within_def)
    then show "nullable (Rep lo hi r)" using Rep us(3) by (auto simp: within_def split: option.splits)
  qed
qed auto

lemma concat_first:
  assumes "concat us = c # s"
  shows "\<exists>k t us'. us = replicate k [] @ (c # t) # us' \<and> s = t @ concat us'"
  using assms
proof (induction us)
  case (Cons u us)
  show ?case
  proof (cases u)
    case Nil
    then obtain k t us' where "us = replicate k [] @ (c # t) # us'" "s = t @ concat us'" using Cons by auto
    then show ?thesis using Nil by (intro exI[of _ "Suc k"]) auto
  next
    case (Cons x t)
    then show ?thesis using Cons.prems by (intro exI[of _ 0]) auto
  qed
qed simp

lemma concat_empties: "concat (us @ replicate k []) = concat us"
  by (induction k arbitrary: us) auto

lemma within_Suc: "within lo None (Suc n) \<longleftrightarrow> within (lo - 1) None n" "within lo (Some h) (Suc n) \<longleftrightarrow> h \<noteq> 0 \<and> within (lo - 1) (Some (h - 1)) n"
  by (auto simp: within_def)

lemma lang_alt: "lang (alt r s) = lang (Alt r s)"
  by (cases "(r, s)" rule: alt.cases) auto

lemma lang_seq: "lang (seq r s) = lang (Seq r s)"
  by (cases "(r, s)" rule: seq.cases) auto

lemma deriv_lang: "s \<in> lang (deriv c r) \<longleftrightarrow> c # s \<in> lang r"
proof (induction r arbitrary: s)
  case (Seq r1 r2)
  have "c # s \<in> lang (Seq r1 r2) \<longleftrightarrow> (\<exists>u v. s = u @ v \<and> c # u \<in> lang r1 \<and> v \<in> lang r2) \<or> [] \<in> lang r1 \<and> c # s \<in> lang r2"
    by (auto simp: Cons_eq_append_conv)
  then show ?case using Seq by (auto simp: nullable_lang lang_alt lang_seq)
next
  case (Rep lo hi r)
  have "c # s \<in> lang (Rep lo hi r) \<longleftrightarrow> (\<exists>t us. s = t @ concat us \<and> c # t \<in> lang r \<and> set us \<subseteq> lang r \<and> within lo hi (Suc (length us)))" (is "_ \<longleftrightarrow> ?R")
  proof
    assume "c # s \<in> lang (Rep lo hi r)"
    then obtain us where us: "concat us = c # s" "set us \<subseteq> lang r" "within lo hi (length us)" by auto
    then obtain k t us' where k: "us = replicate k [] @ (c # t) # us'" "s = t @ concat us'" using concat_first by metis
    have "s = t @ concat (us' @ replicate k [])" using k(2) by (simp only: concat_empties)
    then show ?R using us k(1) by (intro exI[of _ t] exI[of _ "us' @ replicate k []"]) (auto simp: add.commute)
  next
    assume ?R
    then obtain t us where t: "s = t @ concat us" "c # t \<in> lang r" "set us \<subseteq> lang r" "within lo hi (Suc (length us))" by blast
    then have "c # s = concat ((c # t) # us)" "set ((c # t) # us) \<subseteq> lang r" "within lo hi (length ((c # t) # us))" by auto
    then show "c # s \<in> lang (Rep lo hi r)" unfolding lang.simps mem_Collect_eq by (intro exI[of _ "(c # t) # us"]) simp
  qed
  moreover have "s \<in> lang (deriv c (Rep lo hi r)) \<longleftrightarrow> ?R" using Rep by (cases hi) (simp add: within_Suc lang_seq, blast)+
  ultimately show ?case by blast
qed (auto simp: lang_alt)

lemma accepts_lang: "accepts r s \<longleftrightarrow> s \<in> lang r"
  by (induction s arbitrary: r) (auto simp: accepts_def nullable_lang deriv_lang)

section \<open>What the address patterns mean\<close>

lemma lang_seqs: "lang (seqs []) = {[]}" "u \<in> lang (seqs (r # rs)) \<longleftrightarrow> (\<exists>v w. u = v @ w \<and> v \<in> lang r \<and> w \<in> lang (seqs rs))"
  by (auto simp: seqs_def)

lemma seqs_intro: "[] \<in> lang (seqs [])" "v \<in> lang r \<Longrightarrow> w \<in> lang (seqs rs) \<Longrightarrow> v @ w \<in> lang (seqs (r # rs))"
  by (auto simp: lang_seqs)

lemma lang_alts: "rs \<noteq> [] \<Longrightarrow> u \<in> lang (alts rs) \<longleftrightarrow> (\<exists>r \<in> set rs. u \<in> lang r)"
  by (induction rs rule: alts.induct) auto

lemma lang_lit: "u \<in> lang (lit s) \<longleftrightarrow> u = s"
  by (induction s arbitrary: u) (auto simp: lit_def lang_seqs)

lemma lang_rep: "u \<in> lang (Rep lo hi r) \<longleftrightarrow> (\<exists>us. u = concat us \<and> set us \<subseteq> lang r \<and> within lo hi (length us))"
  by auto

lemma lang_seqs_lit: "u \<in> lang (seqs (lit s # rs)) \<longleftrightarrow> (\<exists>w. u = s @ w \<and> w \<in> lang (seqs rs))"
  by (auto simp: lang_seqs lang_lit)

lemma lang_seqs_cls: "u \<in> lang (seqs (Cls p # rs)) \<longleftrightarrow> (\<exists>c w. u = c # w \<and> p c \<and> w \<in> lang (seqs rs))"
  by (auto simp: lang_seqs) (metis append_Cons append_Nil)

lemma lang_seqs_one: "u \<in> lang (seqs [r]) \<longleftrightarrow> u \<in> lang r"
  by (simp add: lang_seqs)

declare lang.simps(6) [simp del]

lemmas lang_pattern = lang_seqs lang_alts lang_lit

text \<open>The numbers of a dotted address.\<close>

lemma in_range_digits:
  assumes "of_char a = (48 + lo :: nat)" "of_char b = (48 + hi :: nat)" "hi < 10"
  shows "in_range a b c \<longleftrightarrow> (\<exists>d \<le> hi. lo \<le> d \<and> c = digit_char d)"
proof
  assume r: "in_range a b c"
  define d where "d = of_char c - (48 :: nat)"
  have "of_char c = 48 + d" "lo \<le> d" "d \<le> hi" using r assms by (auto simp: in_range_def d_def)
  then show "\<exists>d \<le> hi. lo \<le> d \<and> c = digit_char d" by (metis char_of_char digit_char_def)
qed (use assms in \<open>auto simp: in_range_def of_char_digit_char\<close>)

lemma string_of_nat_snoc: "0 < m \<Longrightarrow> c < 10 \<Longrightarrow> string_of_nat (10 * m + c) = string_of_nat m @ [digit_char c]"
  by (simp add: string_of_nat.simps[of "10 * m + c"])

lemma string_of_nat_one: "d < 10 \<Longrightarrow> string_of_nat d = [digit_char d]"
  by (simp add: string_of_nat.simps)

lemma digit_ranges:
  "in_range (CHR ''0'') (CHR ''5'') c \<longleftrightarrow> (\<exists>d \<le> 5. c = digit_char d)" "in_range (CHR ''0'') (CHR ''4'') c \<longleftrightarrow> (\<exists>d \<le> 4. c = digit_char d)"
  "in_range (CHR ''0'') (CHR ''9'') c \<longleftrightarrow> (\<exists>d \<le> 9. c = digit_char d)" "in_range (CHR ''1'') (CHR ''9'') c \<longleftrightarrow> (\<exists>d \<le> 9. 1 \<le> d \<and> c = digit_char d)"
  using in_range_digits[of "CHR ''0''" 0 "CHR ''5''" 5 c] in_range_digits[of "CHR ''0''" 0 "CHR ''4''" 4 c]
    in_range_digits[of "CHR ''0''" 0 "CHR ''9''" 9 c] in_range_digits[of "CHR ''1''" 1 "CHR ''9''" 9 c] by simp_all

lemma octet_forms:
  "u \<in> lang octet \<longleftrightarrow> (\<exists>c. in_range (CHR ''0'') (CHR ''5'') c \<and> u = ''25'' @ [c])
     \<or> (\<exists>b c. in_range (CHR ''0'') (CHR ''4'') b \<and> in_range (CHR ''0'') (CHR ''9'') c \<and> u = ''2'' @ [b, c])
     \<or> (\<exists>b c. in_range (CHR ''0'') (CHR ''9'') b \<and> in_range (CHR ''0'') (CHR ''9'') c \<and> u = ''1'' @ [b, c])
     \<or> (\<exists>b c. in_range (CHR ''1'') (CHR ''9'') b \<and> in_range (CHR ''0'') (CHR ''9'') c \<and> u = [b, c])
     \<or> (\<exists>c. in_range (CHR ''0'') (CHR ''9'') c \<and> u = [c])"
proof -
  have 1: "u \<in> lang (seqs [lit ''25'', Cls p]) \<longleftrightarrow> (\<exists>c. p c \<and> u = ''25'' @ [c])" for p
    by (auto simp: lang_seqs_lit lang_seqs_cls lang_seqs(1))
  have 2: "u \<in> lang (seqs [lit s, Cls p, Cls q]) \<longleftrightarrow> (\<exists>b c. p b \<and> q c \<and> u = s @ [b, c])" for s p q
    by (auto simp: lang_seqs_lit lang_seqs_cls lang_seqs(1))
  have 3: "u \<in> lang (seqs [Cls p, Cls q]) \<longleftrightarrow> (\<exists>b c. p b \<and> q c \<and> u = [b, c])" for p q
    by (auto simp: lang_seqs_cls lang_seqs(1))
  have 4: "u \<in> lang (Cls p) \<longleftrightarrow> (\<exists>c. p c \<and> u = [c])" for p by auto
  have 5: "octet = Alt (seqs [lit ''25'', Cls (in_range (CHR ''0'') (CHR ''5''))]) (Alt (seqs [lit ''2'', Cls (in_range (CHR ''0'') (CHR ''4'')), digit])
     (Alt (seqs [lit ''1'', digit, digit]) (Alt (seqs [Cls (in_range (CHR ''1'') (CHR ''9'')), digit]) digit)))" by (simp add: octet_def)
  show ?thesis unfolding 5 lang.simps(5) Un_iff digit_def 1 2 3 4 ..
qed

lemma digit_texts: "string_of_nat 25 = ''25''" "string_of_nat 2 = ''2''" "string_of_nat 1 = ''1''" "string_of_nat (Suc 0) = ''1''"
  by code_simp+

lemma octet_value:
  assumes "u \<in> lang octet"
  shows "\<exists>n < 256. u = string_of_nat n"
proof -
  from assms consider (1) d where "d \<le> 5" "u = ''25'' @ [digit_char d]" | (2) a d where "a \<le> 4" "d \<le> 9" "u = ''2'' @ [digit_char a, digit_char d]"
    | (3) a d where "a \<le> 9" "d \<le> 9" "u = ''1'' @ [digit_char a, digit_char d]" | (4) a d where "1 \<le> a" "a \<le> 9" "d \<le> 9" "u = [digit_char a, digit_char d]"
    | (5) d where "d \<le> 9" "u = [digit_char d]"
    unfolding octet_forms digit_ranges by blast
  then show "\<exists>n < 256. u = string_of_nat n"
  proof cases
    case (1 d)
    then show ?thesis using string_of_nat_snoc[of 25 d] by (intro exI[of _ "10 * 25 + d"]) (simp add: digit_texts)
  next
    case (2 a d)
    then show ?thesis using string_of_nat_snoc[of 2 a] string_of_nat_snoc[of "10 * 2 + a" d] by (intro exI[of _ "10 * (10 * 2 + a) + d"]) (simp add: digit_texts)
  next
    case (3 a d)
    then show ?thesis using string_of_nat_snoc[of 1 a] string_of_nat_snoc[of "10 * 1 + a" d] by (intro exI[of _ "10 * (10 * 1 + a) + d"]) (simp add: digit_texts)
  next
    case (4 a d)
    then show ?thesis using string_of_nat_snoc[of a d] by (intro exI[of _ "10 * a + d"]) (simp add: string_of_nat_one)
  next
    case (5 d)
    then show ?thesis by (intro exI[of _ d]) (simp add: string_of_nat_one)
  qed
qed

lemma two_digit_text: "10 \<le> m \<Longrightarrow> m < 100 \<Longrightarrow> string_of_nat m = [digit_char (m div 10), digit_char (m mod 10)]"
  using string_of_nat_snoc[of "m div 10" "m mod 10"] by (simp add: string_of_nat_one)

lemma three_digit_text:
  assumes "100 \<le> n"
  shows "string_of_nat n = string_of_nat (n div 100) @ [digit_char (n div 10 mod 10), digit_char (n mod 10)]"
proof -
  have "n div 100 = n div 10 div 10" by (simp add: div_mult2_eq[symmetric])
  then have "10 * (n div 100) + n div 10 mod 10 = n div 10" "0 < n div 100" "0 < n div 10" using assms by (simp_all add: div_greater_zero_iff)
  then show ?thesis using string_of_nat_snoc[of "n div 10" "n mod 10"] string_of_nat_snoc[of "n div 100" "n div 10 mod 10"] by simp
qed

lemma octet_text:
  assumes n: "n < 256" "u = string_of_nat n"
  shows "u \<in> lang octet"
proof -
  consider "n < 10" | "10 \<le> n" "n < 100" | "100 \<le> n" "n < 200" | "200 \<le> n" "n < 250" | "250 \<le> n" by linarith
  then show "u \<in> lang octet"
  proof cases
    case 1
    then have "n \<le> 9" "u = [digit_char n]" using n(2) by (simp_all add: string_of_nat_one)
    then show ?thesis unfolding octet_forms digit_ranges by blast
  next
    case 2
    then have "1 \<le> n div 10" "n div 10 \<le> 9" "n mod 10 \<le> 9" by linarith+
    then show ?thesis using two_digit_text[OF 2] unfolding octet_forms digit_ranges n(2) by blast
  next
    case 3
    then have "n div 100 = 1" "n div 10 mod 10 \<le> 9" "n mod 10 \<le> 9" by linarith+
    then show ?thesis using three_digit_text[OF 3(1)] unfolding octet_forms digit_ranges n(2) by (simp only: digit_texts) blast
  next
    case 4
    then have "n div 10 = 20 \<or> n div 10 = 21 \<or> n div 10 = 22 \<or> n div 10 = 23 \<or> n div 10 = 24" by linarith
    then have "n div 10 mod 10 \<le> 4" by (elim disjE) simp_all
    moreover have "n div 100 = 2" "n mod 10 \<le> 9" using 4 by linarith+
    moreover have "string_of_nat n = string_of_nat (n div 100) @ [digit_char (n div 10 mod 10), digit_char (n mod 10)]" using three_digit_text[of n] 4 by simp
    ultimately show ?thesis unfolding octet_forms digit_ranges n(2) using 4 by (simp only: digit_texts) fastforce
  next
    case 5
    then have "n div 10 = 25" using n(1) by linarith
    then have "n = 10 * 25 + n mod 10" by (metis mult_div_mod_eq)
    then have "n mod 10 \<le> 5" "string_of_nat n = ''25'' @ [digit_char (n mod 10)]"
      using n(1) string_of_nat_snoc[of 25 "n mod 10"] digit_texts(1) by (linarith, simp)
    then show ?thesis unfolding octet_forms digit_ranges n(2) by blast
  qed
qed

lemma octet_iff: "u \<in> lang octet \<longleftrightarrow> (\<exists>n < 256. u = string_of_nat n)"
  using octet_value octet_text by blast

text \<open>Repetitions of a part with a separator before or after it.\<close>

lemma parts_mapped:
  assumes "\<And>u. u \<in> lang s \<longleftrightarrow> (\<exists>x. u = f x \<and> x \<in> lang r)"
  shows "set us \<subseteq> lang s \<longleftrightarrow> (\<exists>xs. us = map f xs \<and> set xs \<subseteq> lang r)"
proof
  show "set us \<subseteq> lang s \<Longrightarrow> \<exists>xs. us = map f xs \<and> set xs \<subseteq> lang r"
  proof (induction us)
    case (Cons u us)
    then obtain x xs where "u = f x" "x \<in> lang r" "us = map f xs" "set xs \<subseteq> lang r" using assms by auto
    then show ?case by (intro exI[of _ "x # xs"]) simp
  qed simp
qed (use assms in fastforce)

lemma parts_prefixed: "set us \<subseteq> lang (seqs [lit [c], r]) \<longleftrightarrow> (\<exists>xs. us = map (\<lambda>x. c # x) xs \<and> set xs \<subseteq> lang r)"
  by (rule parts_mapped) (simp add: lang_seqs_lit lang_seqs_one)

lemma parts_suffixed: "set us \<subseteq> lang (seqs [r, lit [c]]) \<longleftrightarrow> (\<exists>xs. us = map (\<lambda>x. x @ [c]) xs \<and> set xs \<subseteq> lang r)"
  by (rule parts_mapped) (simp add: lang_pattern)

lemma rep_prefixed:
  "u \<in> lang (Rep lo hi (seqs [lit [c], r])) \<longleftrightarrow> (\<exists>xs. u = concat (map (\<lambda>x. c # x) xs) \<and> set xs \<subseteq> lang r \<and> within lo hi (length xs))"
  unfolding lang_rep parts_prefixed by (metis length_map)

lemma rep_suffixed:
  "u \<in> lang (Rep lo hi (seqs [r, lit [c]])) \<longleftrightarrow> (\<exists>xs. u = concat (map (\<lambda>x. x @ [c]) xs) \<and> set xs \<subseteq> lang r \<and> within lo hi (length xs))"
  unfolding lang_rep parts_suffixed by (metis length_map)

lemma within_exactly: "within n (Some n) m \<longleftrightarrow> m = n"
  by (auto simp: within_def)

lemma join_prefixed: "js_join [c] (x # xs) = x @ concat (map (\<lambda>x. c # x) xs)"
  by (induction xs arbitrary: x) auto

lemma join_prefixed': "xs \<noteq> [] \<Longrightarrow> concat (map (\<lambda>x. c # x) xs) = c # js_join [c] xs"
  by (cases xs) (auto simp: join_prefixed)

lemma join_suffixed: "xs \<noteq> [] \<Longrightarrow> concat (map (\<lambda>x. x @ [c]) xs) = js_join [c] xs @ [c]"
  by (induction xs rule: induct_list012) auto

lemma join_append: "xs \<noteq> [] \<Longrightarrow> ys \<noteq> [] \<Longrightarrow> js_join s (xs @ ys) = js_join s xs @ s @ js_join s ys"
  by (induction xs rule: induct_list012) (auto simp: js_join_Cons)

definition dotted :: "string \<Rightarrow> bool" where
  "dotted u \<longleftrightarrow> (\<exists>ns. length ns = 4 \<and> (\<forall>n \<in> set ns. n < 256) \<and> u = js_join ''.'' (map string_of_nat ns))"

lemma octets_iff: "set xs \<subseteq> lang octet \<longleftrightarrow> (\<exists>ns. xs = map string_of_nat ns \<and> (\<forall>n \<in> set ns. n < 256))"
proof
  show "set xs \<subseteq> lang octet \<Longrightarrow> \<exists>ns. xs = map string_of_nat ns \<and> (\<forall>n \<in> set ns. n < 256)"
  proof (induction xs)
    case (Cons x xs)
    then obtain n ns where "x = string_of_nat n" "n < 256" "xs = map string_of_nat ns" "\<forall>n \<in> set ns. n < 256" by (auto simp: octet_iff)
    then show ?case by (intro exI[of _ "n # ns"]) simp
  qed simp
qed (auto simp: octet_iff)

lemma v4_iff: "u \<in> lang v4 \<longleftrightarrow> dotted u"
proof -
  have "u \<in> lang v4 \<longleftrightarrow> (\<exists>x xs. u = js_join ''.'' (x # xs) \<and> set (x # xs) \<subseteq> lang octet \<and> length (x # xs) = 4)"
    unfolding v4_def times_def lang_seqs(2)[of _ octet] lang_seqs_one rep_prefixed within_exactly join_prefixed by fastforce
  also have "\<dots> \<longleftrightarrow> (\<exists>xs. u = js_join ''.'' xs \<and> set xs \<subseteq> lang octet \<and> length xs = 4)"
    by (metis length_0_conv list.exhaust zero_neq_numeral)
  also have "\<dots> \<longleftrightarrow> dotted u" unfolding octets_iff dotted_def by (metis length_map)
  finally show ?thesis .
qed

text \<open>Groups of an address, the last two of which may be a dotted text, and the address with at most one gap.\<close>

definition group_text :: "string \<Rightarrow> bool" where
  "group_text g \<longleftrightarrow> 1 \<le> length g \<and> length g \<le> 4 \<and> (\<forall>c \<in> set g. hexval c \<noteq> None)"

definition address_parts :: "nat \<Rightarrow> string list \<Rightarrow> bool" where
  "address_parts w xs \<longleftrightarrow> (\<forall>x \<in> set xs. group_text x) \<and> length xs = w
     \<or> (\<exists>hs v. xs = hs @ [v] \<and> (\<forall>h \<in> set hs. group_text h) \<and> dotted v \<and> w = length hs + 2)"

definition full_address :: "string \<Rightarrow> bool" where
  "full_address u \<longleftrightarrow> (\<exists>xs. address_parts 8 xs \<and> u = js_join '':'' xs)"

definition short_address :: "string list \<Rightarrow> nat \<Rightarrow> string \<Rightarrow> bool" where
  "short_address gs n u \<longleftrightarrow> (\<forall>g \<in> set gs. group_text g) \<and> (\<exists>w \<le> n. \<exists>xs. address_parts w xs \<and> u = js_join '':'' gs @ ''::'' @ js_join '':'' xs)"

definition address6 :: "string \<Rightarrow> bool" where
  "address6 u \<longleftrightarrow> full_address u \<or> (\<exists>gs. length gs \<le> 7 \<and> short_address gs (7 - length gs) u)"

lemma rep_class: "u \<in> lang (Rep lo hi (Cls p)) \<longleftrightarrow> (\<forall>c \<in> set u. p c) \<and> within lo hi (length u)"
proof
  assume "u \<in> lang (Rep lo hi (Cls p))"
  then obtain us where us: "u = concat us" "set us \<subseteq> lang (Cls p)" "within lo hi (length us)" unfolding lang_rep by blast
  have "set us \<subseteq> lang (Cls p) \<Longrightarrow> length (concat us) = length us \<and> (\<forall>c \<in> set (concat us). p c)" by (induction us) auto
  then show "(\<forall>c \<in> set u. p c) \<and> within lo hi (length u)" using us by auto
next
  assume "(\<forall>c \<in> set u. p c) \<and> within lo hi (length u)"
  then have "u = concat (map (\<lambda>c. [c]) u)" "set (map (\<lambda>c. [c]) u) \<subseteq> lang (Cls p)" "within lo hi (length (map (\<lambda>c. [c]) u))" by auto
  then show "u \<in> lang (Rep lo hi (Cls p))" unfolding lang_rep by blast
qed

lemma hexval_class: "in_range (CHR ''a'') (CHR ''f'') c \<or> in_range (CHR ''A'') (CHR ''F'') c \<or> in_range (CHR ''0'') (CHR ''9'') c \<longleftrightarrow> hexval c \<noteq> None"
  by (auto simp: in_range_def hexval_def Let_def split: if_splits)

lemma group_iff: "u \<in> lang group \<longleftrightarrow> group_text u"
  unfolding group_def rep_class group_text_def hexval_class by (auto simp: within_def)

lemma groups_iff: "set xs \<subseteq> lang group \<longleftrightarrow> (\<forall>x \<in> set xs. group_text x)"
  by (auto simp: group_iff)

text \<open>What may follow the groups before a gap.\<close>

definition gap_tail :: "nat \<Rightarrow> nat \<Rightarrow> rx" where
  "gap_tail a b = alts [seqs [Rep 0 (Some a) after_colon, lit '':'', v4], Rep 1 (Some b) after_colon, lit '':'']"

lemma after_colons: "t \<in> lang (Rep lo (Some n) after_colon) \<longleftrightarrow> (\<exists>hs. t = concat (map (\<lambda>h. CHR '':'' # h) hs) \<and> (\<forall>h \<in> set hs. group_text h) \<and> lo \<le> length hs \<and> length hs \<le> n)"
  unfolding after_colon_def rep_prefixed groups_iff within_def by simp

lemma prefixed_snoc: "concat (map (\<lambda>h. c # h) hs) @ c # v = c # js_join [c] (hs @ [v])"
  using join_prefixed'[of "hs @ [v]" c] by simp

lemma bounded_parts:
  "(\<exists>w \<le> n. \<exists>xs. address_parts w xs \<and> P xs) \<longleftrightarrow> (\<exists>hs v. (\<forall>h \<in> set hs. group_text h) \<and> dotted v \<and> length hs + 2 \<le> n \<and> P (hs @ [v]))
     \<or> (\<exists>hs. (\<forall>h \<in> set hs. group_text h) \<and> length hs \<le> n \<and> P hs)"
  unfolding address_parts_def by blast

lemma gap_tail_iff: "t \<in> lang (gap_tail a (a + 2)) \<longleftrightarrow> (\<exists>w \<le> a + 2. \<exists>xs. address_parts w xs \<and> t = '':'' @ js_join '':'' xs)"
proof -
  have "t \<in> lang (gap_tail a (a + 2)) \<longleftrightarrow> t \<in> lang (seqs [Rep 0 (Some a) after_colon, lit '':'', v4]) \<or> t \<in> lang (Rep 1 (Some (a + 2)) after_colon) \<or> t = '':''"
    by (simp add: gap_tail_def lang_lit)
  also have "t \<in> lang (seqs [Rep 0 (Some a) after_colon, lit '':'', v4]) \<longleftrightarrow>
      (\<exists>hs v. (\<forall>h \<in> set hs. group_text h) \<and> dotted v \<and> length hs \<le> a \<and> t = '':'' @ js_join '':'' (hs @ [v]))"
    unfolding lang_seqs(2)[of _ "Rep 0 (Some a) after_colon"] lang_seqs_lit lang_seqs_one after_colons v4_iff append_Cons append_Nil prefixed_snoc[symmetric]
    by fastforce
  also have "t \<in> lang (Rep 1 (Some (a + 2)) after_colon) \<or> t = '':'' \<longleftrightarrow> (\<exists>hs. (\<forall>h \<in> set hs. group_text h) \<and> length hs \<le> a + 2 \<and> t = '':'' @ js_join '':'' hs)" (is "_ \<longleftrightarrow> ?R")
  proof
    assume "t \<in> lang (Rep 1 (Some (a + 2)) after_colon) \<or> t = '':''"
    then show ?R
    proof
      assume "t \<in> lang (Rep 1 (Some (a + 2)) after_colon)"
      then obtain hs where "t = concat (map (\<lambda>h. CHR '':'' # h) hs)" "\<forall>h \<in> set hs. group_text h" "hs \<noteq> []" "length hs \<le> a + 2"
        unfolding after_colons by (metis One_nat_def Suc_le_eq length_greater_0_conv)
      then show ?R using join_prefixed'[of hs] by auto
    qed (auto intro: exI[of _ "[]"])
  next
    assume ?R
    then obtain hs where hs: "\<forall>h \<in> set hs. group_text h" "length hs \<le> a + 2" "t = '':'' @ js_join '':'' hs" by blast
    then show "t \<in> lang (Rep 1 (Some (a + 2)) after_colon) \<or> t = '':''"
      using join_prefixed'[of hs "CHR '':''"] unfolding after_colons by (cases "hs = []") (auto intro!: exI[of _ hs] simp: Suc_le_eq)
  qed
  also have "(\<exists>hs v. (\<forall>h \<in> set hs. group_text h) \<and> dotted v \<and> length hs \<le> a \<and> t = '':'' @ js_join '':'' (hs @ [v]))
      \<or> (\<exists>hs. (\<forall>h \<in> set hs. group_text h) \<and> length hs \<le> a + 2 \<and> t = '':'' @ js_join '':'' hs)
      \<longleftrightarrow> (\<exists>w \<le> a + 2. \<exists>xs. address_parts w xs \<and> t = '':'' @ js_join '':'' xs)"
    unfolding bounded_parts[of "a + 2" "\<lambda>xs. t = '':'' @ js_join '':'' xs"] add_le_cancel_right ..
  finally show ?thesis .
qed

lemma join_snoc: "gs \<noteq> [] \<Longrightarrow> js_join [c] (gs @ [g]) = js_join [c] gs @ c # g"
  using join_append[of gs "[g]"] by simp

text \<open>The eight lines of the pattern, by the number of groups before the gap.\<close>

lemma before_colons: "t \<in> lang (times n before_colon) \<longleftrightarrow> (\<exists>gs. t = concat (map (\<lambda>g. g @ '':'') gs) \<and> (\<forall>g \<in> set gs. group_text g) \<and> length gs = n)"
  unfolding before_colon_def times_def rep_suffixed groups_iff within_exactly by simp

lemma after_groups:
  assumes "0 < n"
  shows "u \<in> lang (seqs [times n before_colon, r]) \<longleftrightarrow> (\<exists>gs t. u = js_join '':'' gs @ '':'' @ t \<and> (\<forall>g \<in> set gs. group_text g) \<and> length gs = n \<and> t \<in> lang r)"
proof -
  have "u \<in> lang (seqs [times n before_colon, r]) \<longleftrightarrow> (\<exists>gs t. u = concat (map (\<lambda>g. g @ '':'') gs) @ t \<and> (\<forall>g \<in> set gs. group_text g) \<and> length gs = n \<and> t \<in> lang r)"
    unfolding lang_seqs(2)[of _ "times n before_colon"] before_colons lang_seqs_one by blast
  also have "\<dots> \<longleftrightarrow> (\<exists>gs t. u = js_join '':'' gs @ '':'' @ t \<and> (\<forall>g \<in> set gs. group_text g) \<and> length gs = n \<and> t \<in> lang r)"
    using join_suffixed[of _ "CHR '':''"] assms by (metis append_assoc length_0_conv less_numeral_extra(3))
  finally show ?thesis .
qed

lemma gap_line:
  assumes "0 < k"
  shows "u \<in> lang (seqs [times k before_colon, gap_tail a (a + 2)]) \<longleftrightarrow> (\<exists>gs. length gs = k \<and> short_address gs (a + 2) u)"
  unfolding after_groups[OF assms] gap_tail_iff short_address_def by auto

lemma opt_none: "lang (seqs (Rep 0 (Some 0) r # rs)) = lang (seqs rs)"
  by (auto simp: lang_seqs lang_rep within_def)

lemma gap_lines:
  "u \<in> lang ip6_5 \<longleftrightarrow> (\<exists>gs. length gs = 5 \<and> short_address gs 2 u)"
  "u \<in> lang ip6_4 \<longleftrightarrow> (\<exists>gs. length gs = 4 \<and> short_address gs 3 u)"
  "u \<in> lang ip6_3 \<longleftrightarrow> (\<exists>gs. length gs = 3 \<and> short_address gs 4 u)"
  "u \<in> lang ip6_2 \<longleftrightarrow> (\<exists>gs. length gs = 2 \<and> short_address gs 5 u)"
  "u \<in> lang ip6_1 \<longleftrightarrow> (\<exists>gs. length gs = 1 \<and> short_address gs 6 u)"
  "u \<in> lang ip6_0 \<longleftrightarrow> (\<exists>gs. length gs = 0 \<and> short_address gs 7 u)"
proof -
  have "lang (gap_tail 0 2) = lang (alts [seqs [lit '':'', v4], Rep 1 (Some 2) after_colon, lit '':''])" by (simp add: gap_tail_def opt_none)
  then show "u \<in> lang ip6_5 \<longleftrightarrow> (\<exists>gs. length gs = 5 \<and> short_address gs 2 u)"
    using gap_line[of 5 u 0, unfolded add_0] unfolding ip6_5_def lang_seqs(2)[of _ "times 5 before_colon"] lang_seqs_one by simp
  show "u \<in> lang ip6_4 \<longleftrightarrow> (\<exists>gs. length gs = 4 \<and> short_address gs 3 u)" using gap_line[of 4 u 1] by (simp add: ip6_4_def gap_tail_def numeral_eq_Suc)
  show "u \<in> lang ip6_3 \<longleftrightarrow> (\<exists>gs. length gs = 3 \<and> short_address gs 4 u)" using gap_line[of 3 u 2] by (simp add: ip6_3_def gap_tail_def)
  show "u \<in> lang ip6_2 \<longleftrightarrow> (\<exists>gs. length gs = 2 \<and> short_address gs 5 u)" using gap_line[of 2 u 3] by (simp add: ip6_2_def gap_tail_def)
  show "u \<in> lang ip6_1 \<longleftrightarrow> (\<exists>gs. length gs = 1 \<and> short_address gs 6 u)" using gap_line[of 1 u 4] by (simp add: ip6_1_def gap_tail_def)
  have "u \<in> lang ip6_0 \<longleftrightarrow> (\<exists>t. u = '':'' @ t \<and> t \<in> lang (gap_tail 5 (5 + 2)))" unfolding ip6_0_def lang_seqs_lit lang_seqs_one gap_tail_def by simp
  then show "u \<in> lang ip6_0 \<longleftrightarrow> (\<exists>gs. length gs = 0 \<and> short_address gs 7 u)" unfolding gap_tail_iff short_address_def by auto
qed

lemma address_parts_small: "address_parts 0 xs \<longleftrightarrow> xs = []" "address_parts 1 xs \<longleftrightarrow> (\<exists>g. xs = [g] \<and> group_text g)"
  by (auto simp: address_parts_def length_Suc_conv)

lemma short_address_0: "short_address gs 0 u \<longleftrightarrow> (\<forall>g \<in> set gs. group_text g) \<and> u = js_join '':'' gs @ ''::''"
  by (simp add: short_address_def address_parts_small)

lemma short_address_1: "short_address gs 1 u \<longleftrightarrow> (\<forall>g \<in> set gs. group_text g) \<and> (u = js_join '':'' gs @ ''::'' \<or> (\<exists>g. group_text g \<and> u = js_join '':'' gs @ ''::'' @ g))"
proof -
  have "(\<exists>w \<le> 1. P w) \<longleftrightarrow> P 0 \<or> P 1" for P :: "nat \<Rightarrow> bool" by (metis le0 le_Suc_eq le_zero_eq One_nat_def)
  moreover have "(\<exists>xs. address_parts 0 xs \<and> P xs) \<longleftrightarrow> P []" "(\<exists>xs. address_parts 1 xs \<and> P xs) \<longleftrightarrow> (\<exists>g. group_text g \<and> P [g])" for P
    unfolding address_parts_small by blast+
  ultimately show ?thesis unfolding short_address_def by (simp only: js_join.simps append_Nil2)
qed

lemma gap_colons: "''::'' = '':'' @ '':''" "('':'' @ '':'') @ g = '':'' @ '':'' @ g"
  by simp_all

lemma snoc_form: "0 < n \<Longrightarrow> length gs = n \<and> Q \<and> u = js_join [c] (gs @ [g]) \<longleftrightarrow> length gs = n \<and> Q \<and> u = js_join [c] gs @ [c] @ g"
  by (cases "gs = []") (auto simp: join_snoc)

definition eight_groups :: "string \<Rightarrow> bool" where
  "eight_groups u \<longleftrightarrow> (\<exists>gs g. length gs = 7 \<and> ((\<forall>g \<in> set gs. group_text g) \<and> group_text g) \<and> u = js_join '':'' (gs @ [g]))"

definition six_groups :: "string \<Rightarrow> bool" where
  "six_groups u \<longleftrightarrow> (\<exists>gs v. length gs = 6 \<and> ((\<forall>g \<in> set gs. group_text g) \<and> dotted v) \<and> u = js_join '':'' (gs @ [v]))"

lemma line7: "u \<in> lang ip6_7 \<longleftrightarrow> eight_groups u \<or> (\<exists>gs. length gs = 7 \<and> short_address gs 0 u)"
proof -
  have tail: "t \<in> lang (alts [group, lit '':'']) \<longleftrightarrow> group_text t \<or> t = '':''" for t by (simp add: group_iff lang_lit)
  show ?thesis unfolding ip6_7_def after_groups[of 7, OF zero_less_numeral] eight_groups_def snoc_form[of 7, OF zero_less_numeral] short_address_0 gap_colons tail by blast
qed

lemma line6: "u \<in> lang ip6_6 \<longleftrightarrow> six_groups u \<or> (\<exists>gs. length gs = 6 \<and> short_address gs 1 u)"
proof -
  have tail: "t \<in> lang (alts [v4, after_colon, lit '':'']) \<longleftrightarrow> dotted t \<or> (\<exists>g. t = '':'' @ g \<and> group_text g) \<or> t = '':''" for t
    by (simp add: after_colon_def v4_iff lang_seqs_lit lang_seqs_one group_iff lang_lit)
  show ?thesis unfolding ip6_6_def after_groups[of 6, OF zero_less_numeral] six_groups_def snoc_form[of 6, OF zero_less_numeral] short_address_1 gap_colons tail by blast
qed

lemma full_address_forms: "full_address u \<longleftrightarrow> eight_groups u \<or> six_groups u"
proof -
  have eight: "(\<exists>xs. length xs = 8 \<and> P xs) \<longleftrightarrow> (\<exists>gs g. length gs = 7 \<and> P (gs @ [g]))" for P :: "string list \<Rightarrow> bool"
  proof
    assume "\<exists>xs. length xs = 8 \<and> P xs"
    then obtain xs where "length xs = 8" "P xs" by blast
    moreover from this have "xs = butlast xs @ [last xs]" by (intro append_butlast_last_id[symmetric]) auto
    ultimately show "\<exists>gs g. length gs = 7 \<and> P (gs @ [g])" by (intro exI[of _ "butlast xs"] exI[of _ "last xs"]) simp
  next
    assume "\<exists>gs g. length gs = 7 \<and> P (gs @ [g])"
    then obtain gs g where "length gs = 7" "P (gs @ [g])" by blast
    then show "\<exists>xs. length xs = 8 \<and> P xs" by (intro exI[of _ "gs @ [g]"]) simp
  qed
  have "full_address u \<longleftrightarrow> (\<exists>xs. length xs = 8 \<and> (\<forall>x \<in> set xs. group_text x) \<and> u = js_join '':'' xs) \<or> six_groups u"
    unfolding full_address_def address_parts_def six_groups_def by auto
  then show ?thesis unfolding eight eight_groups_def by auto
qed

lemma bounded_lengths:
  "(\<exists>gs. length gs \<le> Suc n \<and> P gs) \<longleftrightarrow> (\<exists>gs. length gs = Suc n \<and> P gs) \<or> (\<exists>gs. length gs \<le> n \<and> P gs)"
  by (auto simp: le_Suc_eq)

lemma ip6_iff: "u \<in> lang ip6 \<longleftrightarrow> address6 u"
proof -
  have up: "7 = Suc 6" "6 = Suc 5" "5 = Suc 4" "4 = Suc 3" "3 = Suc 2" "2 = Suc 1" "1 = Suc 0" by simp_all
  have at: "(\<exists>gs. length gs = k \<and> short_address gs (7 - length gs) u) \<longleftrightarrow> (\<exists>gs. length gs = k \<and> short_address gs (7 - k) u)" for k by auto
  have upto: "(\<exists>gs. length gs \<le> 7 \<and> P gs) \<longleftrightarrow> (\<exists>gs. length gs = 7 \<and> P gs) \<or> (\<exists>gs. length gs = 6 \<and> P gs) \<or> (\<exists>gs. length gs = 5 \<and> P gs)
      \<or> (\<exists>gs. length gs = 4 \<and> P gs) \<or> (\<exists>gs. length gs = 3 \<and> P gs) \<or> (\<exists>gs. length gs = 2 \<and> P gs) \<or> (\<exists>gs. length gs = 1 \<and> P gs) \<or> (\<exists>gs. length gs = 0 \<and> P gs)"
    for P :: "string list \<Rightarrow> bool"
    using bounded_lengths[of 6 P] bounded_lengths[of 5 P] bounded_lengths[of 4 P] bounded_lengths[of 3 P] bounded_lengths[of 2 P] bounded_lengths[of 1 P] bounded_lengths[of 0 P]
    unfolding up[symmetric] le_zero_eq by argo
  have "address6 u \<longleftrightarrow> (eight_groups u \<or> six_groups u) \<or> (\<exists>gs. length gs = 7 \<and> short_address gs 0 u) \<or> (\<exists>gs. length gs = 6 \<and> short_address gs 1 u) \<or> u \<in> lang ip6_5
      \<or> u \<in> lang ip6_4 \<or> u \<in> lang ip6_3 \<or> u \<in> lang ip6_2 \<or> u \<in> lang ip6_1 \<or> u \<in> lang ip6_0"
    unfolding address6_def full_address_forms upto at gap_lines by simp
  then show ?thesis unfolding ip6_def alts.simps lang.simps(5) Un_iff line7 line6 by blast
qed

lemma rep_opt: "u \<in> lang (opt r) \<longleftrightarrow> u = [] \<or> u \<in> lang r"
proof -
  have "within 0 (Some 1) n \<longleftrightarrow> n = 0 \<or> n = 1" for n by (auto simp: within_def)
  moreover have "(\<exists>us. u = concat us \<and> set us \<subseteq> lang r \<and> length us = 1) \<longleftrightarrow> u \<in> lang r"
    by (auto simp: length_Suc_conv intro: exI[of _ "[u]"])
  moreover have "(\<exists>us. u = concat us \<and> set us \<subseteq> lang r \<and> length us = 0) \<longleftrightarrow> u = []" by auto
  ultimately show ?thesis unfolding opt_def lang_rep by metis
qed

definition zone_name :: "string \<Rightarrow> bool" where
  "zone_name z \<longleftrightarrow> z \<noteq> [] \<and> (\<forall>c \<in> set z. in_range (CHR ''0'') (CHR ''9'') c \<or> in_range (CHR ''a'') (CHR ''z'') c \<or> in_range (CHR ''A'') (CHR ''Z'') c)"

lemma zone_iff: "u \<in> lang zone \<longleftrightarrow> u = [] \<or> (\<exists>z. u = ''%'' @ z \<and> zone_name z)"
  unfolding zone_def rep_opt lang_seqs_lit lang_seqs_one rep_class zone_name_def by (auto simp: within_def Suc_le_eq)

lemma v6_iff: "u \<in> lang v6 \<longleftrightarrow> (\<exists>t. (u = t \<or> (\<exists>z. u = t @ ''%'' @ z \<and> zone_name z)) \<and> address6 t)"
  unfolding v6_def lang_seqs(2)[of _ ip6] lang_seqs_one ip6_iff zone_iff by auto

lemma hex_class: "in_range (CHR ''a'') (CHR ''f'') (lower c) \<or> in_range (CHR ''0'') (CHR ''9'') c \<longleftrightarrow> hexval c \<noteq> None"
  by (auto simp: in_range_def hexval_def lower_def Let_def of_char_of take_bit_eq_mod split: if_splits)

text \<open>A colour has three or six hexadecimal digits, perhaps after a hash.\<close>

theorem hex_pattern:
  "is_hex t \<longleftrightarrow> (\<exists>d. (t = d \<or> t = CHR ''#'' # d) \<and> (length d = 3 \<or> length d = 6) \<and> list_all (\<lambda>c. hexval c \<noteq> None) d)"
proof -
  have h: "d \<in> lang (alts [times 6 (Cls p), times 3 (Cls p)]) \<longleftrightarrow> (\<forall>c \<in> set d. p c) \<and> (length d = 6 \<or> length d = 3)" for d p
    unfolding times_def by (auto simp: rep_class within_exactly)
  have o: "t \<in> lang (seqs [opt (lit ''#''), r]) \<longleftrightarrow> (\<exists>d. (t = d \<or> t = CHR ''#'' # d) \<and> d \<in> lang r)" for r
    unfolding lang_seqs(2)[of _ "opt _"] rep_opt lang_lit lang_seqs_one by (metis append_Cons append_Nil)
  show ?thesis unfolding is_hex_def hex_rx_def Let_def accepts_lang o h hex_class list_all_iff by blast
qed

lemma short_addresses:
  "(\<exists>gs. length gs \<le> 7 \<and> short_address gs (7 - length gs) t) \<longleftrightarrow>
   (\<exists>gs w xs. list_all group_text gs \<and> address_parts w xs \<and> length gs + w \<le> 7 \<and> t = js_join '':'' gs @ ''::'' @ js_join '':'' xs)" (is "?L \<longleftrightarrow> ?R")
proof
  assume ?L
  then obtain gs w xs where "length gs \<le> 7" "w \<le> 7 - length gs" "\<forall>g \<in> set gs. group_text g" "address_parts w xs" "t = js_join '':'' gs @ ''::'' @ js_join '':'' xs"
    unfolding short_address_def by blast
  then show ?R by (intro exI[of _ gs] exI[of _ w] exI[of _ xs]) (simp add: list_all_iff)
next
  assume ?R
  then obtain gs w xs where "list_all group_text gs" "address_parts w xs" "length gs + w \<le> 7" and t: "t = js_join '':'' gs @ ''::'' @ js_join '':'' xs" by blast
  then have "length gs \<le> 7" "w \<le> 7 - length gs" "\<forall>g \<in> set gs. group_text g" "address_parts w xs" by (simp_all add: list_all_iff)
  then show ?L unfolding short_address_def using t by blast
qed

section \<open>The theorems\<close>

text \<open>
  The pattern for an address of version four matches a text exactly when it is four numbers below 256, in decimal
  without leading zeros, with dots between them.\<close>

theorem ip4_pattern: "accepts v4 u \<longleftrightarrow> (\<exists>ns. length ns = 4 \<and> list_all (\<lambda>n. n < 256) ns \<and> u = js_join ''.'' (map string_of_nat ns))"
  unfolding accepts_lang v4_iff dotted_def list_all_iff ..

text \<open>C23: The eight lines of the pattern for an address of version six together match a text exactly when it is one of two
  forms, perhaps with the name of a zone after a percent sign.  Either it has parts of weight eight between colons, or it
  has some groups, two colons and some parts, of at most seven in all.  A part is a group of one to four hexadecimal digits; the
  last part may be an address of version four, which weighs two.\<close>

theorem ip6_pattern:
  "accepts v6 u \<longleftrightarrow> (\<exists>t. (u = t \<or> (\<exists>z. u = t @ ''%'' @ z \<and> zone_name z)) \<and>
     ((\<exists>xs. address_parts 8 xs \<and> t = js_join '':'' xs) \<or>
      (\<exists>gs w xs. list_all group_text gs \<and> address_parts w xs \<and> length gs + w \<le> 7 \<and> t = js_join '':'' gs @ ''::'' @ js_join '':'' xs)))"
proof -
  have h: "address6 t \<longleftrightarrow> (\<exists>xs. address_parts 8 xs \<and> t = js_join '':'' xs) \<or>
      (\<exists>gs w xs. list_all group_text gs \<and> address_parts w xs \<and> length gs + w \<le> 7 \<and> t = js_join '':'' gs @ ''::'' @ js_join '':'' xs)" for t
    unfolding address6_def full_address_def short_addresses ..
  show ?thesis unfolding accepts_lang v6_iff h ..
qed

text \<open>
  A text of at most 2048 characters that is a protocol of letters or nothing, two slashes and
  an address of version four or six counts as a URL, also with a port of two to five digits after it.\<close>

theorem address_urls:
  assumes "list_all letter p" and "accepts v4 h \<or> accepts v6 h" and "q = [] \<or> (\<exists>d. q = CHR '':'' # d \<and> 2 \<le> length d \<and> length d \<le> 5 \<and> list_all (in_range (CHR ''0'') (CHR ''9'')) d)"
  assumes "u = (if p = [] then [] else p @ '':'') @ ''//'' @ h @ q" and "length u \<le> 2048"
  shows "is_url u"
proof -
  have "(if p = [] then [] else p @ '':'') \<in> lang (opt (seqs [Rep 1 None (Cls letter), lit '':'']))"
    using assms(1) unfolding rep_opt lang_seqs(2)[of _ "Rep 1 None (Cls letter)"] lang_seqs_one lang_lit rep_class within_def
    by (auto simp: Suc_le_eq list_all_iff)
  then have "(if p = [] then [] else p @ '':'') @ ''//'' \<in> lang protocol" unfolding protocol_def lang_seqs(2)[of _ "opt _"] lang_seqs_one lang_lit by blast
  then have first: "(if p = [] then [] else p @ '':'') @ ''//'' \<in> lang (alts [protocol, lit_i ''www.''])" by simp
  have host: "h \<in> lang (alts [lit_i ''localhost'', v4, v6, seqs [host, domain, tld]])" using assms(2) by (auto simp: accepts_lang)
  have port: "q \<in> lang port" using assms(3) unfolding port_def rep_opt digit_def lang_seqs_lit lang_seqs_one rep_class
    by (auto simp: within_def list_all_iff)
  have "[] \<in> lang auth" "[] \<in> lang path" by (simp_all add: auth_def path_def rep_opt)
  then have "((if p = [] then [] else p @ '':'') @ ''//'') @ [] @ h @ q @ [] @ [] \<in> lang url_rx"
    unfolding url_rx_def by (intro seqs_intro first host port)
  then show ?thesis using assms(4,5) by (simp add: is_url_def accepts_lang)
qed

theorem address_urls_witness: "is_url ''http://127.0.0.1:8083''"
  by (rule address_urls[of "''http''" "''127.0.0.1''" "'':8083''"]) (code_simp, code_simp, simp add: in_range_def, simp, simp)

text \<open>The comments beside the lines give examples; three of them are no addresses for the pattern.\<close>

theorem comment_examples_refused:
  "\<not> accepts v6 ''1:2:3:4:5:6::1.2.3.4'' \<and> \<not> accepts v6 ''1:2:3:4:5::7:1.2.3.4'' \<and> \<not> accepts v6 ''1:2:3:4::6:7:1.2.3.4''"
  by code_simp

end
