(* ===== verification/Form_Validation.thy ===== *)
theory Form_Validation
  imports Dashboard Url_Pattern
begin

text \<open>
  Validation of forms (\<open>index-e87360db.js\<close>): the rules of a field, their messages, the validators of each type, the
  order in which rules run, the items of a form and the form itself; and the form of the login page with its submit
  handler.  Numbers are integers and NaN; rules have no nested fields, transformations or validators of their own,
  none of which the dashboard uses.
\<close>

section \<open>Values and messages\<close>

datatype fval = Undefined | Null | Str string | Num int | NaN | Boolean bool | Arr "fval list" | Obj | Func string

definition typeof :: "fval \<Rightarrow> string" where
  "typeof v = (case v of Undefined \<Rightarrow> ''undefined'' | Str _ \<Rightarrow> ''string'' | Num _ \<Rightarrow> ''number'' | NaN \<Rightarrow> ''number''
     | Boolean _ \<Rightarrow> ''boolean'' | Func _ \<Rightarrow> ''function'' | _ \<Rightarrow> ''object'')"

definition text_of_int :: "int \<Rightarrow> string" where
  "text_of_int i = (if i < 0 then CHR ''-'' # string_of_nat (nat (- i)) else string_of_nat (nat i))"

text \<open>\<open>String(v)\<close>; an array joins the texts of its elements, and leaves a missing one empty.  Numbers are below \<open>10 ^ 21\<close>.\<close>

fun js_String :: "fval \<Rightarrow> string" and js_element :: "fval \<Rightarrow> string" where
  "js_String Undefined = ''undefined''"
| "js_String Null = ''null''"
| "js_String (Str s) = s"
| "js_String (Num i) = text_of_int i"
| "js_String NaN = ''NaN''"
| "js_String (Boolean b) = (if b then ''true'' else ''false'')"
| "js_String (Arr vs) = js_join '','' (map js_element vs)"
| "js_String Obj = ''[object Object]''"
| "js_String (Func t) = t"
| "js_element v = (if v = Undefined \<or> v = Null then [] else js_String v)"

text \<open>\<open>Wn\<close>: the arguments in the places of a message.  No message asks for a number or for JSON.\<close>

fun format_text :: "string \<Rightarrow> string list \<Rightarrow> string" where
  "format_text [] args = []"
| "format_text [c] args = [c]"
| "format_text (c # d # s) args = (if c \<noteq> CHR ''%'' then c # format_text (d # s) args
     else if d = CHR ''%'' then CHR ''%'' # format_text s args
     else if d = CHR ''s'' then (case args of [] \<Rightarrow> c # d # format_text s [] | a # as \<Rightarrow> a @ format_text s as)
     else c # format_text (d # s) args)"

text \<open>\<open>ef\<close>: the messages, without those for dates, which no rule uses.\<close>

definition required_message :: string where
  "required_message = ''%s is required''"

definition enum_message :: string where
  "enum_message = ''%s must be one of %s''"

definition whitespace_message :: string where
  "whitespace_message = ''%s cannot be empty''"

definition mismatch_message :: string where
  "mismatch_message = ''%s value %s does not match pattern %s''"

definition types_messages :: "(string \<times> string) list" where
  "types_messages = [(''string'', ''%s is not a %s''), (''method'', ''%s is not a %s (function)''), (''array'', ''%s is not an %s''),
     (''object'', ''%s is not an %s''), (''number'', ''%s is not a %s''), (''date'', ''%s is not a %s''), (''boolean'', ''%s is not a %s''),
     (''integer'', ''%s is not an %s''), (''float'', ''%s is not a %s''), (''regexp'', ''%s is not a valid %s''), (''email'', ''%s is not a valid %s''),
     (''url'', ''%s is not a valid %s''), (''hex'', ''%s is not a valid %s'')]"

record bound_messages =
  m_len :: string
  m_min :: string
  m_max :: string
  m_range :: string

definition string_messages :: bound_messages where
  "string_messages = \<lparr>m_len = ''%s must be exactly %s characters'', m_min = ''%s must be at least %s characters'',
     m_max = ''%s cannot be longer than %s characters'', m_range = ''%s must be between %s and %s characters''\<rparr>"

definition number_messages :: bound_messages where
  "number_messages = \<lparr>m_len = ''%s must equal %s'', m_min = ''%s cannot be less than %s'',
     m_max = ''%s cannot be greater than %s'', m_range = ''%s must be between %s and %s''\<rparr>"

definition array_messages :: bound_messages where
  "array_messages = \<lparr>m_len = ''%s must be exactly %s in length'', m_min = ''%s cannot be less than %s in length'',
     m_max = ''%s cannot be greater than %s in length'', m_range = ''%s must be between %s and %s in length''\<rparr>"

section \<open>Rules\<close>

text \<open>A rule as a page writes it; None is a key that is absent.  A pattern is its test and its text.\<close>

record frule =
  r_type :: "string option"
  r_required :: "bool option"
  r_message :: "string option"
  r_len :: "int option"
  r_min :: "int option"
  r_max :: "int option"
  r_enum :: "fval list option"
  r_pattern :: "((string \<Rightarrow> bool) \<times> string) option"
  r_whitespace :: "bool option"
  r_trigger :: "string list option"

definition no_rule :: frule where
  "no_rule = \<lparr>r_type = None, r_required = None, r_message = None, r_len = None, r_min = None, r_max = None, r_enum = None,
     r_pattern = None, r_whitespace = None, r_trigger = None\<rparr>"

text \<open>A rule that is prepared has its field and its type.\<close>

record prule = p_rule :: frule
  p_field :: string
  p_type :: string

definition is_required :: "prule \<Rightarrow> bool" where
  "is_required t \<longleftrightarrow> r_required (p_rule t) = Some True"

text \<open>What the language knows of regular expressions and of dates: whether a value is the text of an expression, and the
  time of a value made into a date.\<close>

record language =
  regexp_ok :: "fval \<Rightarrow> bool"
  date_time :: "fval \<Rightarrow> fval"

type_synonym source = "(string \<times> fval) list"

text \<open>A message, or None for undefined.\<close>

type_synonym message = "string option"

text \<open>\<open>BL\<close> and \<open>ln\<close>: which values count as empty.\<close>

definition native_string_type :: "string \<Rightarrow> bool" where
  "native_string_type t \<longleftrightarrow> t \<in> set [''string'', ''url'', ''hex'', ''email'', ''date'', ''pattern'']"

definition is_empty_value :: "fval \<Rightarrow> string option \<Rightarrow> bool" where
  "is_empty_value e t \<longleftrightarrow> e = Undefined \<or> e = Null \<or> t = Some ''array'' \<and> e = Arr []
     \<or> (case t of Some ty \<Rightarrow> native_string_type ty | None \<Rightarrow> False) \<and> e = Str []"

text \<open>\<open>fw\<close>, \<open>jL\<close>.\<close>

definition required_rule :: "prule \<Rightarrow> fval \<Rightarrow> source \<Rightarrow> string option \<Rightarrow> message list" where
  "required_rule t n src s =
     (if is_required t \<and> (map_of src (p_field t) = None \<or> is_empty_value n (case s of None \<Rightarrow> Some (p_type t) | Some a \<Rightarrow> Some a))
      then [Some (format_text required_message [p_field t])] else [])"

definition whitespace_rule :: "prule \<Rightarrow> fval \<Rightarrow> message list" where
  "whitespace_rule t n = (if js_String n \<noteq> [] \<and> list_all js_space (js_String n) \<or> n = Str [] then [Some (format_text whitespace_message [p_field t])] else [])"

text \<open>\<open>js\<close>: the tests of the types.\<close>

definition is_number :: "fval \<Rightarrow> bool" where
  "is_number v \<longleftrightarrow> (case v of Num _ \<Rightarrow> True | _ \<Rightarrow> False)"

definition is_integer :: "fval \<Rightarrow> bool" where
  "is_integer v \<longleftrightarrow> (case v of Num i \<Rightarrow> \<bar>i\<bar> < 10 ^ 21 | _ \<Rightarrow> False)"

definition type_test :: "language \<Rightarrow> string \<Rightarrow> (fval \<Rightarrow> bool) option" where
  "type_test lng a = map_of [
     (''integer'', is_integer), (''float'', \<lambda>v. is_number v \<and> \<not> is_integer v),
     (''array'', \<lambda>v. case v of Arr _ \<Rightarrow> True | _ \<Rightarrow> False), (''regexp'', regexp_ok lng),
     (''object'', \<lambda>v. v = Null \<or> v = Obj), (''method'', \<lambda>v. case v of Func _ \<Rightarrow> True | _ \<Rightarrow> False),
     (''email'', \<lambda>v. case v of Str s \<Rightarrow> is_email s | _ \<Rightarrow> False), (''number'', is_number), (''date'', \<lambda>v. date_time lng v \<noteq> NaN),
     (''url'', \<lambda>v. case v of Str s \<Rightarrow> is_url s | _ \<Rightarrow> False), (''hex'', \<lambda>v. case v of Str s \<Rightarrow> is_hex s | _ \<Rightarrow> False)] a"

text \<open>\<open>UL\<close>.\<close>

definition type_error :: "prule \<Rightarrow> message" where
  "type_error t = map_option (\<lambda>m. format_text m [p_field t, p_type t]) (map_of types_messages (p_type t))"

definition type_rule :: "language \<Rightarrow> prule \<Rightarrow> fval \<Rightarrow> source \<Rightarrow> message list" where
  "type_rule lng t n src =
     (if is_required t \<and> n = Undefined then required_rule t n src None
      else case type_test lng (p_type t) of
        Some ok \<Rightarrow> if ok n then [] else [type_error t]
      | None \<Rightarrow> if p_type t \<noteq> [] \<and> typeof n \<noteq> p_type t then [type_error t] else [])"

text \<open>\<open>qL\<close>: the length of a text or an array, or the number itself; None is NaN, which no comparison but the unequal one accepts.\<close>

definition range_rule :: "prule \<Rightarrow> fval \<Rightarrow> message list" where
  "range_rule t n = (
     let check = (\<lambda>ms d. let r = p_rule t; below = (\<lambda>m. case d of Some x \<Rightarrow> x < m | None \<Rightarrow> False);
         above = (\<lambda>m. case d of Some x \<Rightarrow> m < x | None \<Rightarrow> False); say = (\<lambda>m as. [Some (format_text m (p_field t # map text_of_int as))]) in
       case (r_len r, r_min r, r_max r) of
         (Some l, _, _) \<Rightarrow> if d \<noteq> Some l then say (m_len ms) [l] else []
       | (None, Some lo, None) \<Rightarrow> if below lo then say (m_min ms) [lo] else []
       | (None, None, Some hi) \<Rightarrow> if above hi then say (m_max ms) [hi] else []
       | (None, Some lo, Some hi) \<Rightarrow> if below lo \<or> above hi then say (m_range ms) [lo, hi] else []
       | (None, None, None) \<Rightarrow> []) in
     case n of Num i \<Rightarrow> check number_messages (Some i) | NaN \<Rightarrow> check number_messages None
       | Str s \<Rightarrow> check string_messages (Some (int (length s))) | Arr vs \<Rightarrow> check array_messages (Some (int (length vs))) | _ \<Rightarrow> [])"

text \<open>\<open>YL\<close>: equal are values that are the same text, number, truth value, null or undefined; an object of a rule is never the value of a field.\<close>

definition strictly_equal :: "fval \<Rightarrow> fval \<Rightarrow> bool" where
  "strictly_equal a b \<longleftrightarrow> a = b \<and> (case a of NaN \<Rightarrow> False | Arr _ \<Rightarrow> False | Obj \<Rightarrow> False | Func _ \<Rightarrow> False | _ \<Rightarrow> True)"

definition enum_rule :: "prule \<Rightarrow> fval \<Rightarrow> message list" where
  "enum_rule t n = (let vs = (case r_enum (p_rule t) of Some vs \<Rightarrow> vs | None \<Rightarrow> []) in
     if list_ex (strictly_equal n) vs then [] else [Some (format_text enum_message [p_field t, js_join '', '' (map js_element vs)])])"

text \<open>\<open>GL\<close>.\<close>

definition pattern_rule :: "prule \<Rightarrow> fval \<Rightarrow> message list" where
  "pattern_rule t n = (case r_pattern (p_rule t) of None \<Rightarrow> []
     | Some (test, txt) \<Rightarrow> if test (js_String n) then [] else [Some (format_text mismatch_message [p_field t, js_String n, txt])])"

section \<open>Validators\<close>

text \<open>A rule is skipped when it is optional and its field is missing or empty.\<close>

definition guarded :: "prule \<Rightarrow> source \<Rightarrow> bool \<Rightarrow> message list \<Rightarrow> message list" where
  "guarded t src blank errors =
     (if is_required t \<or> map_of src (p_field t) \<noteq> None then (if blank \<and> \<not> is_required t then [] else errors) else [])"

definition string_validator :: "language \<Rightarrow> prule \<Rightarrow> fval \<Rightarrow> source \<Rightarrow> message list" where
  "string_validator lng t n src = (let e = is_empty_value n (Some ''string'') in
     guarded t src e (required_rule t n src (Some ''string'') @
       (if e then [] else type_rule lng t n src @ range_rule t n @ pattern_rule t n @ (if r_whitespace (p_rule t) = Some True then whitespace_rule t n else []))))"

definition plain_validator :: "language \<Rightarrow> prule \<Rightarrow> fval \<Rightarrow> source \<Rightarrow> message list" where
  "plain_validator lng t n src = guarded t src (is_empty_value n None)
     (required_rule t n src None @ (if n \<noteq> Undefined then type_rule lng t n src else []))"

definition integer_validator :: "language \<Rightarrow> prule \<Rightarrow> fval \<Rightarrow> source \<Rightarrow> message list" where
  "integer_validator lng t n src = guarded t src (is_empty_value n None)
     (required_rule t n src None @ (if n \<noteq> Undefined then type_rule lng t n src @ range_rule t n else []))"

definition number_validator :: "language \<Rightarrow> prule \<Rightarrow> fval \<Rightarrow> source \<Rightarrow> message list" where
  "number_validator lng t n src = integer_validator lng t (if n = Str [] then Undefined else n) src"

definition regexp_validator :: "language \<Rightarrow> prule \<Rightarrow> fval \<Rightarrow> source \<Rightarrow> message list" where
  "regexp_validator lng t n src = guarded t src (is_empty_value n None)
     (required_rule t n src None @ (if is_empty_value n None then [] else type_rule lng t n src))"

definition array_validator :: "language \<Rightarrow> prule \<Rightarrow> fval \<Rightarrow> source \<Rightarrow> message list" where
  "array_validator lng t n src = guarded t src (n = Undefined \<or> n = Null)
     (required_rule t n src (Some ''array'') @ (if n = Undefined \<or> n = Null then [] else type_rule lng t n src @ range_rule t n))"

definition enum_validator :: "prule \<Rightarrow> fval \<Rightarrow> source \<Rightarrow> message list" where
  "enum_validator t n src = guarded t src (is_empty_value n None) (required_rule t n src None @ (if n \<noteq> Undefined then enum_rule t n else []))"

definition pattern_validator :: "prule \<Rightarrow> fval \<Rightarrow> source \<Rightarrow> message list" where
  "pattern_validator t n src = (let e = is_empty_value n (Some ''string'') in
     guarded t src e (required_rule t n src None @ (if e then [] else pattern_rule t n)))"

definition date_validator :: "language \<Rightarrow> prule \<Rightarrow> fval \<Rightarrow> source \<Rightarrow> message list" where
  "date_validator lng t n src = (let e = is_empty_value n (Some ''date'') in
     guarded t src e (required_rule t n src None @ (if e then [] else type_rule lng t n src @ range_rule t (date_time lng n))))"

definition required_validator :: "prule \<Rightarrow> fval \<Rightarrow> source \<Rightarrow> message list" where
  "required_validator t n src = required_rule t n src (Some (case n of Arr _ \<Rightarrow> ''array'' | _ \<Rightarrow> typeof n))"

definition format_validator :: "language \<Rightarrow> prule \<Rightarrow> fval \<Rightarrow> source \<Rightarrow> message list" where
  "format_validator lng t n src = (let e = is_empty_value n (Some (p_type t)) in
     guarded t src e (required_rule t n src (Some (p_type t)) @ (if e then [] else type_rule lng t n src)))"

definition any_validator :: "prule \<Rightarrow> fval \<Rightarrow> source \<Rightarrow> message list" where
  "any_validator t n src = guarded t src (is_empty_value n None) (required_rule t n src None)"

text \<open>\<open>oa\<close>.\<close>

definition validators :: "language \<Rightarrow> (string \<times> (prule \<Rightarrow> fval \<Rightarrow> source \<Rightarrow> message list)) list" where
  "validators lng = [(''string'', string_validator lng), (''method'', plain_validator lng), (''number'', number_validator lng), (''boolean'', plain_validator lng),
     (''regexp'', regexp_validator lng), (''integer'', integer_validator lng), (''float'', integer_validator lng), (''array'', array_validator lng),
     (''object'', plain_validator lng), (''enum'', enum_validator), (''pattern'', pattern_validator), (''date'', date_validator lng),
     (''url'', format_validator lng), (''hex'', format_validator lng), (''email'', format_validator lng), (''required'', required_validator), (''any'', any_validator)]"

definition validator_names :: "string list" where
  "validator_names = [''string'', ''method'', ''number'', ''boolean'', ''regexp'', ''integer'', ''float'', ''array'', ''object'', ''enum'', ''pattern'', ''date'',
     ''url'', ''hex'', ''email'', ''required'', ''any'']"

section \<open>The validation of a source\<close>

text \<open>\<open>getType\<close>, \<open>getValidationMethod\<close>: a rule that only says required has a validator of its own.\<close>

definition unknown_type :: "string \<Rightarrow> string" where
  "unknown_type ty = format_text ''Unknown rule type %s'' [ty]"

definition getType :: "frule \<Rightarrow> string + string" where
  "getType r = (case (if r_type r = None \<and> r_pattern r \<noteq> None then Some ''pattern'' else r_type r) of
     None \<Rightarrow> Inr ''string''
   | Some ty \<Rightarrow> if ty = [] then Inr ''string''
       else if ty \<notin> set validator_names then Inl (unknown_type ty) else Inr ty)"

definition only_required :: "frule \<Rightarrow> bool" where
  "only_required r \<longleftrightarrow> r_required r \<noteq> None \<and> r_type r = None \<and> r_len r = None \<and> r_min r = None \<and> r_max r = None \<and> r_enum r = None
     \<and> (case r_pattern r of None \<Rightarrow> True | Some _ \<Rightarrow> False) \<and> r_whitespace r = None \<and> r_trigger r = None"

definition getValidationMethod :: "frule \<Rightarrow> string + string" where
  "getValidationMethod r = (if only_required r then Inr ''required'' else getType r)"

text \<open>A task of \<open>validate\<close>: the name of the validator and the prepared rule.\<close>

definition prepare :: "string \<Rightarrow> frule \<Rightarrow> string + string \<times> prule" where
  "prepare h r = (case getValidationMethod r of Inl e \<Rightarrow> Inl e
     | Inr v \<Rightarrow> (case getType r of Inl e \<Rightarrow> Inl e | Inr ty \<Rightarrow> Inr (v, \<lparr>p_rule = r, p_field = h, p_type = ty\<rparr>)))"

fun sequence :: "('e + 'a) list \<Rightarrow> 'e + 'a list" where
  "sequence [] = Inr []"
| "sequence (x # xs) = (case x of Inl e \<Rightarrow> Inl e | Inr a \<Rightarrow> (case sequence xs of Inl e \<Rightarrow> Inl e | Inr as \<Rightarrow> Inr (a # as)))"

text \<open>What is reported: the message of the rule, if it has one, stands for all messages of the validator.\<close>

record ferror =
  fe_message :: message
  fe_field :: string
  fe_value :: fval

definition value_at :: "source \<Rightarrow> string \<Rightarrow> fval" where
  "value_at src h = (case map_of src h of Some v \<Rightarrow> v | None \<Rightarrow> Undefined)"

definition report :: "prule \<Rightarrow> source \<Rightarrow> message list \<Rightarrow> ferror list" where
  "report t src es = (let ns = (if es \<noteq> [] \<and> r_message (p_rule t) \<noteq> None then [r_message (p_rule t)] else es) in
     map (\<lambda>m. \<lparr>fe_message = m, fe_field = p_field t, fe_value = value_at src (p_field t)\<rparr>) ns)"

definition run_task :: "language \<Rightarrow> source \<Rightarrow> string \<times> prule \<Rightarrow> ferror list" where
  "run_task lng src = (\<lambda>(v, t). report t src (case map_of (validators lng) v of Some f \<Rightarrow> f t (value_at src (p_field t)) src | None \<Rightarrow> []))"

text \<open>\<open>Sg\<close> stops at the first task that fails, \<open>FL\<close> runs all; \<open>zL\<close> chooses between them for each field.\<close>

fun asyncSerialArray :: "('t \<Rightarrow> 'e list) \<Rightarrow> 't list \<Rightarrow> 'e list" where
  "asyncSerialArray run [] = []"
| "asyncSerialArray run (t # ts) = (if run t \<noteq> [] then run t else asyncSerialArray run ts)"

definition asyncParallelArray :: "('t \<Rightarrow> 'e list) \<Rightarrow> 't list \<Rightarrow> 'e list" where
  "asyncParallelArray run ts = concat (map run ts)"

datatype first_fields = All_Fields | Fields "string list"

record voptions =
  v_first :: bool
  v_firstFields :: first_fields

definition asyncMap :: "voptions \<Rightarrow> ('t \<Rightarrow> 'e list) \<Rightarrow> (string \<times> 't list) list \<Rightarrow> 'e list" where
  "asyncMap u run p =
     (if v_first u then asyncSerialArray run (concat (map snd p))
      else concat (map (\<lambda>(h, ts). if (case v_firstFields u of All_Fields \<Rightarrow> True | Fields hs \<Rightarrow> h \<in> set hs)
                                  then asyncSerialArray run ts else asyncParallelArray run ts) p))"

definition validate :: "language \<Rightarrow> (string \<times> frule list) list \<Rightarrow> source \<Rightarrow> voptions \<Rightarrow> string + ferror list" where
  "validate lng rules src u =
     (case sequence (map (\<lambda>(h, rs). case sequence (map (prepare h) rs) of Inl e \<Rightarrow> Inl e | Inr ts \<Rightarrow> Inr (h, ts)) rules) of
        Inl e \<Rightarrow> Inl e
      | Inr p \<Rightarrow> Inr (asyncMap u (run_task lng src) (filter (\<lambda>(h, ts). ts \<noteq> []) p)))"

text \<open>\<open>Qd\<close>: the errors by their fields.\<close>

definition convertFieldsError :: "ferror list \<Rightarrow> (string \<times> ferror list) list" where
  "convertFieldsError es = fold (\<lambda>n t. AList.update (fe_field n) ((case map_of t (fe_field n) of Some l \<Rightarrow> l | None \<Rightarrow> []) @ [n]) t) es []"

section \<open>Items and forms\<close>

record item =
  i_prop :: "string option"
  i_rules :: "frule list"
  i_required :: "bool option"
  i_state :: string
  i_message :: string
  i_resetting :: bool

record form =
  f_model :: "source option"
  f_rules :: "(string \<times> frule list) list"
  f_items :: "item list"

text \<open>\<open>I\<close>: the rules of the item, then those of the form for it; the property \<open>required\<close> overrides the rules that speak of it.\<close>

definition normalizedRules :: "(string \<times> frule list) list \<Rightarrow> item \<Rightarrow> frule list" where
  "normalizedRules rules it =
     (let z = i_rules it @ (case i_prop it of Some h \<Rightarrow> (case map_of rules h of Some rs \<Rightarrow> rs | None \<Rightarrow> []) | None \<Rightarrow> []) in
      case i_required it of
        None \<Rightarrow> z
      | Some g \<Rightarrow> if list_ex (\<lambda>r. r_required r \<noteq> None) z
                  then map (\<lambda>r. if r_required r \<noteq> None then r\<lparr>r_required := Some g\<rparr> else r) z
                  else z @ [no_rule\<lparr>r_required := Some g\<rparr>])"

text \<open>\<open>L\<close>: the rules for a trigger; the empty one asks for all.\<close>

definition getFilteredRule :: "string \<Rightarrow> frule list \<Rightarrow> frule list" where
  "getFilteredRule g rs =
     map (\<lambda>r. r\<lparr>r_trigger := None\<rparr>) (filter (\<lambda>r. case r_trigger r of None \<Rightarrow> True | Some tr \<Rightarrow> g = [] \<or> g \<in> set tr) rs)"

text \<open>\<open>j\<close>, \<open>B\<close>, \<open>D\<close>, \<open>E\<close>: an item settles with a truth value or refuses with the fields that failed; None is the missing
  \<open>fields\<close> of an exception.\<close>

datatype verdict = Settled bool | Refused "(string \<times> ferror list) list option"

definition shown_message :: "string \<Rightarrow> ferror list \<Rightarrow> string" where
  "shown_message h es = (case es of e # _ \<Rightarrow> (case fe_message e of Some m \<Rightarrow> m | None \<Rightarrow> h @ '' is required'') | [] \<Rightarrow> h @ '' is required'')"

definition item_validate :: "language \<Rightarrow> source \<Rightarrow> (string \<times> frule list) list \<Rightarrow> string \<Rightarrow> item \<Rightarrow> verdict \<times> item" where
  "item_validate lng model rules g it = (case i_prop it of
     None \<Rightarrow> (Settled False, it)
   | Some h \<Rightarrow>
       if i_resetting it \<or> h = [] then (Settled False, it)
       else let z = normalizedRules rules it; ge = getFilteredRule g z in
         if z = [] then (Settled False, it)
         else if ge = [] then (Settled True, it)
         else (case validate lng [(h, ge)] [(h, value_at model h)] \<lparr>v_first = False, v_firstFields = All_Fields\<rparr> of
             Inl _ \<Rightarrow> (Refused None, it\<lparr>i_state := ''validating''\<rparr>)
           | Inr [] \<Rightarrow> (Settled True, it\<lparr>i_state := ''success''\<rparr>)
           | Inr es \<Rightarrow> (Refused (Some (convertFieldsError es)), it\<lparr>i_state := ''error'', i_message := shown_message h es\<rparr>)))"

text \<open>\<open>h\<close> and \<open>y\<close> of the form: every item is validated, and the fields that fail are collected.  The callback hears
  whether the form is valid; without a model it hears nothing.\<close>

datatype outcome = Valid | Invalid "(string \<times> ferror list) list" | Unheard

definition failed_fields :: "verdict \<Rightarrow> (string \<times> ferror list) list" where
  "failed_fields v = (case v of Refused (Some fs) \<Rightarrow> fs | _ \<Rightarrow> [])"

definition form_validate :: "language \<Rightarrow> form \<Rightarrow> outcome \<times> form" where
  "form_validate lng f = (case f_model f of
     None \<Rightarrow> (Unheard, f)
   | Some model \<Rightarrow>
       let rs = map (item_validate lng model (f_rules f) []) (f_items f);
           w = fold (\<lambda>v w. AList.updates (map fst (failed_fields v)) (map snd (failed_fields v)) w) (map fst rs) [] in
       (if w = [] then Valid else Invalid w, f\<lparr>f_items := map snd rs\<rparr>))"

section \<open>The login form\<close>

definition login_item :: "string \<Rightarrow> item" where
  "login_item h = \<lparr>i_prop = Some h, i_rules = [], i_required = None, i_state = [], i_message = [], i_resetting = False\<rparr>"

definition login_rule :: "string \<Rightarrow> frule" where
  "login_rule m = no_rule\<lparr>r_required := Some True, r_trigger := Some [''blur''], r_message := Some m\<rparr>"

text \<open>The two messages of the page are Chinese texts and so arguments.\<close>

definition login_form :: "string \<Rightarrow> string \<Rightarrow> string \<Rightarrow> string \<Rightarrow> form" where
  "login_form no_user no_pass name pass =
     \<lparr>f_model = Some [(''username'', Str name), (''password'', Str pass)],
      f_rules = [(''username'', [login_rule no_user]), (''password'', [login_rule no_pass])],
      f_items = [login_item ''username'', login_item ''password'']\<rparr>"

definition login_click :: "language \<Rightarrow> (string \<Rightarrow> string \<Rightarrow> string) \<Rightarrow> string option exchange \<Rightarrow> (string \<Rightarrow> string \<Rightarrow> bool exchange) \<Rightarrow>
    string \<Rightarrow> string \<Rightarrow> form \<Rightarrow> browser \<Rightarrow> browser option \<times> form" where
  "login_click lng encrypt key answer name pass f b = (case form_validate lng f of
     (Valid, f') \<Rightarrow> (login encrypt name pass key answer b, f')
   | (_, f') \<Rightarrow> (Some b, f'))"

section \<open>Every task has a validator, every error a message\<close>

lemma validators_names: "map fst (validators lng) = validator_names"
  by (simp add: validators_def validator_names_def)

lemma getType_known: "getType r = Inr ty \<Longrightarrow> ty \<in> set validator_names"
  by (auto simp: getType_def validator_names_def split: option.splits if_splits)

lemma prepare_known:
  assumes "prepare h r = Inr (v, t)"
  shows "v \<in> set validator_names" "p_field t = h" "p_rule t = r" "v = ''required'' \<or> p_type t = v"
  using assms getType_known[of r] by (auto simp: prepare_def getValidationMethod_def validator_names_def split: sum.splits if_splits)

lemma validator_found: "v \<in> set validator_names \<Longrightarrow> \<exists>f. map_of (validators lng) v = Some f"
  by (metis validators_names map_of_eq_None_iff not_None_eq set_map)

lemma rules_speak:
  "None \<notin> set (required_rule t n src s)" "None \<notin> set (whitespace_rule t n)" "None \<notin> set (range_rule t n)" "None \<notin> set (enum_rule t n)" "None \<notin> set (pattern_rule t n)"
  by (simp_all add: required_rule_def whitespace_rule_def range_rule_def enum_rule_def pattern_rule_def Let_def split: fval.splits option.splits)

lemma type_rule_speaks: "p_type t \<in> set (map fst types_messages) \<Longrightarrow> None \<notin> set (type_rule lng t n src)"
proof -
  assume "p_type t \<in> set (map fst types_messages)"
  then have "type_error t \<noteq> None" by (metis (no_types, lifting) type_error_def map_of_eq_None_iff option.map_disc_iff set_map)
  then show ?thesis using rules_speak(1)[of t n src None] by (auto simp: type_rule_def split: option.splits)
qed

lemma guarded_subset: "set (guarded t src e es) \<subseteq> set es"
  by (auto simp: guarded_def)

lemma validators_speak:
  assumes "map_of (validators lng) v = Some f" "v = ''required'' \<or> p_type t = v"
  shows "None \<notin> set (f t n src)"
proof -
  let ?typed = "[''string'', ''method'', ''number'', ''boolean'', ''regexp'', ''integer'', ''float'', ''array'', ''object'', ''date'', ''url'', ''hex'', ''email'']"
  have typed: "None \<notin> set (type_rule lng t n src)" if "p_type t \<in> set ?typed" for n
    by (rule type_rule_speaks) (use that in \<open>auto simp: types_messages_def\<close>)
  have v: "(v, f) \<in> set (validators lng)" using assms(1) by (rule map_of_SomeD)
  note d = string_validator_def plain_validator_def integer_validator_def number_validator_def regexp_validator_def array_validator_def enum_validator_def
    pattern_validator_def date_validator_def required_validator_def format_validator_def any_validator_def Let_def guarded_def
  show ?thesis
  proof (cases "v \<in> set ?typed")
    case True
    then have "p_type t \<in> set ?typed" using assms(2) by auto
    note ty = typed[OF this]
    have f: "f \<in> {string_validator lng, plain_validator lng, number_validator lng, regexp_validator lng, integer_validator lng, array_validator lng, date_validator lng, format_validator lng}"
      using v True by (auto simp: validators_def)
    show ?thesis using f ty rules_speak by (auto simp: d split: if_splits)
  next
    case False
    then have f: "f \<in> {enum_validator, pattern_validator, required_validator, any_validator}" using v by (auto simp: validators_def)
    show ?thesis using f rules_speak by (auto simp: d split: if_splits)
  qed
qed

text \<open>C27: Whatever rule a page writes, the validator that is chosen for it exists, and every error it reports has a message and
  names the field of the rule.\<close>

theorem reports_have_messages:
  assumes "prepare h r = Inr (v, t)" and "e \<in> set (run_task lng src (v, t))"
  shows "v \<in> set (map fst (validators lng)) \<and> fe_message e \<noteq> None \<and> fe_field e = h"
proof -
  obtain f where f: "map_of (validators lng) v = Some f" using validator_found prepare_known(1)[OF assms(1)] by blast
  have "x \<noteq> None" if "x \<in> set (f t (value_at src (p_field t)) src)" for x
    using that validators_speak[OF f prepare_known(4)[OF assms(1)], of "value_at src (p_field t)" src] by metis
  then have "fe_message e \<noteq> None \<and> fe_field e = h"
    using assms(2) prepare_known(2)[OF assms(1)] by (auto simp: run_task_def report_def Let_def f split: if_splits)
  then show ?thesis unfolding validators_names using prepare_known(1)[OF assms(1)] by blast
qed

theorem reports_have_messages_witness:
  "''hex'' \<in> set (map fst (validators \<lparr>regexp_ok = \<lambda>_. True, date_time = \<lambda>_. NaN\<rparr>))"
proof -
  let ?r = "no_rule\<lparr>r_type := Some ''hex'', r_required := Some True\<rparr>"
  let ?t = "\<lparr>p_rule = ?r, p_field = ''colour'', p_type = ''hex''\<rparr>"
  let ?l = "\<lparr>regexp_ok = \<lambda>_. True, date_time = \<lambda>_. NaN\<rparr>"
  have p: "prepare ''colour'' ?r = Inr (''hex'', ?t)"
    by (simp add: prepare_def getValidationMethod_def only_required_def getType_def no_rule_def validator_names_def)
  have "run_task ?l [(''colour'', Str [])] (''hex'', ?t) \<noteq> []"
    by (simp add: run_task_def report_def validators_def format_validator_def guarded_def is_required_def required_rule_def is_empty_value_def native_string_type_def value_at_def no_rule_def Let_def)
  then obtain e where "e \<in> set (run_task ?l [(''colour'', Str [])] (''hex'', ?t))" by (cases "run_task ?l [(''colour'', Str [])] (''hex'', ?t)") auto
  from reports_have_messages[OF p this] show ?thesis by blast
qed

lemma sequence_fails: "Inl e \<in> set xs \<Longrightarrow> \<exists>e. sequence xs = Inl e"
  by (induction xs) (auto split: sum.splits)

section \<open>Accepting does not depend on the order\<close>

lemma serial_Nil: "asyncSerialArray run ts = [] \<longleftrightarrow> (\<forall>t \<in> set ts. run t = [])"
  by (induction ts) auto

lemma parallel_Nil: "asyncParallelArray run ts = [] \<longleftrightarrow> (\<forall>t \<in> set ts. run t = [])"
  by (auto simp: asyncParallelArray_def)

lemma serial_prefix: "prefix (asyncSerialArray run ts) (asyncParallelArray run ts)"
  by (induction ts) (auto simp: asyncParallelArray_def)

lemma asyncMap_Nil: "asyncMap u run p = [] \<longleftrightarrow> (\<forall>(h, ts) \<in> set p. \<forall>t \<in> set ts. run t = [])"
  by (auto simp: asyncMap_def serial_Nil parallel_Nil split: if_splits first_fields.splits)

text \<open>C26: Whether a source is accepted does not depend on the options that choose between stopping at the first failure and reporting
  all; and where a field stops at its first failure, what it reports is the beginning of what it would report
  in full.\<close>

theorem options_accept_the_same:
  "(validate lng rules src u = Inr [] \<longleftrightarrow> validate lng rules src u' = Inr []) \<and>
   prefix (asyncSerialArray run ts) (asyncParallelArray run ts) \<and>
   (asyncSerialArray run ts = [] \<longleftrightarrow> asyncParallelArray run ts = [])"
  by (auto simp: validate_def asyncMap_Nil serial_Nil parallel_Nil serial_prefix split: sum.splits)

section \<open>The login form\<close>

definition checked_item :: "string \<Rightarrow> string \<Rightarrow> string \<Rightarrow> item" where
  "checked_item h m v = (login_item h)\<lparr>i_state := if v = [] then ''error'' else ''success'', i_message := if v = [] then m else []\<rparr>"

lemma login_rule_result:
  "validate lng [(h, [(login_rule m)\<lparr>r_trigger := None\<rparr>])] [(h, Str v)] u =
     Inr (if v = [] then [\<lparr>fe_message = Some m, fe_field = h, fe_value = Str []\<rparr>] else [])"
proof -
  have p: "prepare h ((login_rule m)\<lparr>r_trigger := None\<rparr>) = Inr (''required'', \<lparr>p_rule = (login_rule m)\<lparr>r_trigger := None\<rparr>, p_field = h, p_type = ''string''\<rparr>)"
    by (simp add: prepare_def getValidationMethod_def getType_def only_required_def login_rule_def no_rule_def)
  have "map_of (validators lng) ''required'' = Some required_validator" by (simp add: validators_def)
  then have r: "run_task lng [(h, Str v)] (''required'', \<lparr>p_rule = (login_rule m)\<lparr>r_trigger := None\<rparr>, p_field = h, p_type = ''string''\<rparr>)
      = (if v = [] then [\<lparr>fe_message = Some m, fe_field = h, fe_value = Str []\<rparr>] else [])" for v
    by (simp add: run_task_def report_def value_at_def required_validator_def required_rule_def is_required_def typeof_def is_empty_value_def native_string_type_def login_rule_def no_rule_def)
  show ?thesis by (simp add: validate_def p asyncMap_def asyncParallelArray_def r split: first_fields.splits)
qed

lemma login_rule_check:
  assumes "h \<noteq> []" "map_of rules h = Some [login_rule m]" "map_of model h = Some (Str v)" "g = [] \<or> g = ''blur''"
  shows "item_validate lng model rules g ((login_item h)\<lparr>i_state := st, i_message := ms\<rparr>) =
    (if v = [] then Refused (Some [(h, [\<lparr>fe_message = Some m, fe_field = h, fe_value = Str []\<rparr>])]) else Settled True,
     (login_item h)\<lparr>i_state := if v = [] then ''error'' else ''success'', i_message := if v = [] then m else ms\<rparr>)"
proof -
  let ?it = "(login_item h)\<lparr>i_state := st, i_message := ms\<rparr>"
  have "normalizedRules rules ?it = [login_rule m]" using assms(2) by (simp add: normalizedRules_def login_item_def)
  moreover have "getFilteredRule g [login_rule m] = [(login_rule m)\<lparr>r_trigger := None\<rparr>]" using assms(4) by (auto simp: getFilteredRule_def login_rule_def)
  moreover have "value_at model h = Str v" using assms(3) by (simp add: value_at_def)
  moreover have "i_prop ?it = Some h" "\<not> i_resetting ?it" by (simp_all add: login_item_def)
  ultimately show ?thesis using assms(1) by (simp add: item_validate_def login_rule_result convertFieldsError_def shown_message_def Let_def)
qed

lemma fresh_login_item: "(login_item h)\<lparr>i_state := [], i_message := []\<rparr> = login_item h"
  by (simp add: login_item_def)

text \<open>C22: A click on the login button logs in exactly when both fields hold a text.  Otherwise no request is sent, the tab stays
  as it is, and under each empty field the message of its rule appears; a field that is filled is marked as right.\<close>

theorem login_click_effect:
  "login_click lng encrypt key answer name pass (login_form no_user no_pass name pass) b =
     (if name = [] \<or> pass = [] then Some b else login encrypt name pass key answer b,
      (login_form no_user no_pass name pass)\<lparr>f_items := [checked_item ''username'' no_user name, checked_item ''password'' no_pass pass]\<rparr>)"
proof -
  note c = login_rule_check[where rules = "f_rules (login_form no_user no_pass name pass)" and model = "[(''username'', Str name), (''password'', Str pass)]" and g = "[]" and st = "[]" and ms = "[]" and lng = lng,
      unfolded fresh_login_item]
  show ?thesis using c[of "''username''" no_user name] c[of "''password''" no_pass pass]
    by (simp add: login_click_def form_validate_def login_form_def failed_fields_def checked_item_def Let_def)
qed

text \<open>C25: A rule of a type that does not exist never refuses anything: the validation of its item ends in an exception, the item
  keeps waiting for a result, and the form is judged, and its other items are marked, as if the item were not in it; a form
  with no other item counts as valid.\<close>

theorem unknown_type_is_valid:
  assumes "f_items f = xs @ it # ys" "f_model f = Some model" "i_prop it = Some h" "h \<noteq> []" "\<not> i_resetting it"
  assumes "r \<in> set (normalizedRules (f_rules f) it)" "r_type r = Some ty" "ty \<noteq> []" "ty \<notin> set validator_names"
  assumes "form_validate lng (f\<lparr>f_items := xs @ ys\<rparr>) = (judged, f')"
  shows "form_validate lng f =
      (judged, f\<lparr>f_items := take (length xs) (f_items f') @ it\<lparr>i_state := ''validating''\<rparr> # drop (length xs) (f_items f')\<rparr>) \<and>
    length (f_items f') = length xs + length ys \<and> (xs @ ys = [] \<longrightarrow> judged = Valid)"
proof -
  let ?z = "normalizedRules (f_rules f) it"
  have bad: "\<exists>e. prepare h (r\<lparr>r_trigger := None\<rparr>) = Inl e" using assms(7-9) by (auto simp: prepare_def getValidationMethod_def only_required_def getType_def)
  have "getFilteredRule [] ?z = map (\<lambda>r. r\<lparr>r_trigger := None\<rparr>) ?z" by (auto simp: getFilteredRule_def filter_id_conv split: option.splits)
  moreover from this obtain e where "Inl e \<in> set (map (prepare h) (getFilteredRule [] ?z))" using bad assms(6) by (metis (no_types, lifting) image_eqI list.set_map)
  then have "\<exists>e. sequence (map (prepare h) (getFilteredRule [] ?z)) = Inl e" by (rule sequence_fails)
  moreover have "?z \<noteq> []" using assms(6) by auto
  ultimately have "item_validate lng model (f_rules f) [] it = (Refused None, it\<lparr>i_state := ''validating''\<rparr>)"
    using assms(3-5) by (auto simp: item_validate_def validate_def Let_def)
  then show ?thesis using assms(1,2,10) by (auto simp: form_validate_def failed_fields_def Let_def)
qed

theorem unknown_type_is_valid_witness:
  "fst (form_validate \<lparr>regexp_ok = \<lambda>_. True, date_time = \<lambda>_. NaN\<rparr>
     \<lparr>f_model = Some [(''age'', Str ''many'')], f_rules = [(''age'', [no_rule\<lparr>r_type := Some ''numbr''\<rparr>])], f_items = [login_item ''age'']\<rparr>) = Valid"
proof -
  let ?lng = "\<lparr>regexp_ok = \<lambda>_. True, date_time = \<lambda>_. NaN\<rparr>"
  let ?f = "\<lparr>f_model = Some [(''age'', Str ''many'')], f_rules = [(''age'', [no_rule\<lparr>r_type := Some ''numbr''\<rparr>])], f_items = [login_item ''age'']\<rparr>"
  obtain o' f' where e: "form_validate ?lng (?f\<lparr>f_items := [] @ []\<rparr>) = (o', f')" by fastforce
  show ?thesis
    using unknown_type_is_valid[where f = ?f and xs = "[]" and ys = "[]" and it = "login_item ''age''" and model = "[(''age'', Str ''many'')]" and h = "''age''" and r = "no_rule\<lparr>r_type := Some ''numbr''\<rparr>" and ty = "''numbr''",
        OF _ _ _ _ _ _ _ _ _ e]
    by (simp add: login_item_def normalizedRules_def validator_names_def no_rule_def)
qed

text \<open>
  A field with a required rule of type url, hex or email accepts exactly the texts that are not empty and match
  the pattern of the type; no number, array or object passes.\<close>

theorem format_field_accepts:
  assumes "(ty, test) \<in> set [(''url'', is_url), (''hex'', is_hex), (''email'', is_email)]"
  shows "validate lng [(h, [no_rule\<lparr>r_type := Some ty, r_required := Some True\<rparr>])] [(h, v)] u = Inr [] \<longleftrightarrow> (\<exists>s. v = Str s \<and> s \<noteq> [] \<and> test s)"
proof -
  let ?r = "no_rule\<lparr>r_type := Some ty, r_required := Some True\<rparr>"
  let ?t = "\<lparr>p_rule = ?r, p_field = h, p_type = ty\<rparr>"
  have p: "prepare h ?r = Inr (ty, ?t)" using assms by (auto simp: prepare_def getValidationMethod_def only_required_def getType_def no_rule_def validator_names_def)
  have f: "map_of (validators lng) ty = Some (format_validator lng)" using assms by (auto simp: validators_def)
  have test: "type_test lng ty = Some (\<lambda>v. case v of Str s \<Rightarrow> test s | _ \<Rightarrow> False)" using assms by (auto simp: type_test_def)
  have "format_validator lng ?t v [(h, v)] = [] \<longleftrightarrow> (\<exists>s. v = Str s \<and> s \<noteq> [] \<and> test s)"
    using assms by (cases v) (auto simp: format_validator_def guarded_def is_required_def no_rule_def required_rule_def is_empty_value_def native_string_type_def type_rule_def test Let_def)
  moreover have "r_message ?r = None" by (simp add: no_rule_def)
  ultimately show ?thesis by (simp add: validate_def p asyncMap_Nil run_task_def f report_def value_at_def Let_def)
qed

theorem format_field_accepts_witness:
  "validate \<lparr>regexp_ok = \<lambda>_. True, date_time = \<lambda>_. NaN\<rparr> [(''colour'', [no_rule\<lparr>r_type := Some ''hex'', r_required := Some True\<rparr>])] [(''colour'', Str ''#ff4949'')]
     \<lparr>v_first = False, v_firstFields = All_Fields\<rparr> = Inr []"
proof -
  have "is_hex ''#ff4949''" unfolding hex_pattern by (intro exI[of _ "''ff4949''"]) (simp add: hexval_def)
  then show ?thesis by (intro iffD2[OF format_field_accepts[where test = is_hex]]) simp_all
qed

end
