(* ===== verification/Input_Field.thy ===== *)
theory Input_Field
  imports Form_Validation Complex_Main
begin

text \<open>
  The text input of a form (\<open>index-e87360db.js\<close>): typing, composition with an input method, the cursor, clearing, the eye
  of a password, focus and the calls of the validation; and the height of a text area that grows
  with its text.  A text is a list of code units.  Every run of events that a browser can send keeps the shown text and
  the model in step.
\<close>

section \<open>State\<close>

type_synonym units = "nat list"

datatype input_event = Update units | Input units | Change units | Clear | Focus | Blur | Compose_Start | Compose_Update | Compose_End
  | Mouse_Enter | Mouse_Leave | Validate string

record input_props =
  in_formatter :: "(units \<Rightarrow> units) option"
  in_parser :: "(units \<Rightarrow> units) option"
  in_type :: string
  in_clearable :: bool
  in_disabled :: bool
  in_readonly :: bool
  in_showPassword :: bool
  in_showWordLimit :: bool
  in_maxlength :: "nat option"
  in_validateEvent :: bool

text \<open>The element has a text and a selection; the component remembers the model, whether a composition runs, hovering, focus, whether a
  password is visible, and what the cursor was.\<close>

record cursor =
  cu_start :: nat
  cu_before :: units
  cu_after :: units

record input =
  n_native :: units
  n_selection :: "(nat \<times> nat) option"
  n_model :: units
  n_composing :: bool
  n_hovering :: bool
  n_focused :: bool
  n_visible :: bool
  n_cursor :: "cursor option"
  n_log :: "input_event list"

definition emit :: "input_event list \<Rightarrow> input \<Rightarrow> input" where
  "emit es s = s\<lparr>n_log := n_log s @ es\<rparr>"

section \<open>The cursor\<close>

text \<open>\<open>Z6\<close>: the cursor before a change is remembered with the texts around the selection, and put back behind the text
  before it or in front of the text after it.\<close>

definition recordCursor :: "input \<Rightarrow> input" where
  "recordCursor s = (case n_selection s of None \<Rightarrow> s
     | Some (r, l) \<Rightarrow> s\<lparr>n_cursor := Some \<lparr>cu_start = r, cu_before = take r (n_native s), cu_after = drop l (n_native s)\<rparr>\<rparr>)"

text \<open>\<open>xs.indexOf(c, i)\<close>.\<close>

definition index_from :: "nat \<Rightarrow> nat \<Rightarrow> units \<Rightarrow> nat option" where
  "index_from c i xs = (if c \<in> set (drop i xs) then Some (i + length (takeWhile (\<lambda>x. x \<noteq> c) (drop i xs))) else None)"

text \<open>A selection lies within the text, so there is a character before its start unless nothing is; and nothing is a prefix.\<close>

definition cursor_place :: "cursor \<Rightarrow> units \<Rightarrow> nat" where
  "cursor_place c r =
     (if suffix (cu_after c) r then length r - length (cu_after c)
      else if prefix (cu_before c) r then length (cu_before c)
      else (case index_from (cu_before c ! (cu_start c - 1)) (cu_start c - 1) r of Some d \<Rightarrow> d + 1 | None \<Rightarrow> length r))"

definition setCursor :: "input \<Rightarrow> input" where
  "setCursor s = (case n_cursor s of None \<Rightarrow> s | Some c \<Rightarrow> s\<lparr>n_selection := Some (cursor_place c (n_native s), cursor_place c (n_native s))\<rparr>)"

section \<open>Handlers\<close>

text \<open>\<open>E\<close>, \<open>Ce\<close>: the element shows the model as the formatter writes it.\<close>

definition shown :: "input_props \<Rightarrow> units \<Rightarrow> units" where
  "shown p m = (case in_formatter p of Some f \<Rightarrow> f m | None \<Rightarrow> m)"

definition setNativeInputValue :: "input_props \<Rightarrow> input \<Rightarrow> input" where
  "setNativeInputValue p s = s\<lparr>n_native := shown p (n_model s)\<rparr>"

text \<open>The page answers an update with a new model; a model that changes is validated and shown.\<close>

definition model_changed :: "input_props \<Rightarrow> units \<Rightarrow> input \<Rightarrow> input" where
  "model_changed p m s =
     (if m = n_model s then s
      else setNativeInputValue p (emit (if in_validateEvent p then [Validate ''change''] else []) (s\<lparr>n_model := m\<rparr>)))"

text \<open>\<open>z\<close>.  The argument \<open>parent\<close> is what the page makes of the model when it is told a new text.\<close>

definition handleInput :: "input_props \<Rightarrow> (units \<Rightarrow> units \<Rightarrow> units) \<Rightarrow> input \<Rightarrow> input" where
  "handleInput p parent s0 =
     (let s = recordCursor s0;
          v = (if in_formatter p \<noteq> None then (case in_parser p of Some g \<Rightarrow> g (n_native s) | None \<Rightarrow> n_native s) else n_native s) in
      if n_composing s then s
      else if v = n_model s then setNativeInputValue p s
      else setCursor (setNativeInputValue p (model_changed p (parent (n_model s) v) (emit [Update v, Input v] s))))"

definition handleChange :: "input \<Rightarrow> input" where
  "handleChange s = emit [Change (n_native s)] s"

text \<open>\<open>re\<close>, \<open>ve\<close>, \<open>_e\<close>: a composition holds the input back, unless its text ends with a Korean character.\<close>

definition isKorean :: "nat \<Rightarrow> bool" where
  "isKorean c \<longleftrightarrow> 0xAC00 \<le> c \<and> c \<le> 0xD7AF \<or> 0x3130 \<le> c \<and> c \<le> 0x318F"

definition handleCompositionStart :: "input \<Rightarrow> input" where
  "handleCompositionStart s = (emit [Compose_Start] s)\<lparr>n_composing := True\<rparr>"

definition handleCompositionUpdate :: "input \<Rightarrow> input" where
  "handleCompositionUpdate s = (emit [Compose_Update] s)\<lparr>n_composing := \<not> (n_native s \<noteq> [] \<and> isKorean (last (n_native s)))\<rparr>"

definition handleCompositionEnd :: "input_props \<Rightarrow> (units \<Rightarrow> units \<Rightarrow> units) \<Rightarrow> input \<Rightarrow> input" where
  "handleCompositionEnd p parent s =
     (let t = emit [Compose_End] s in if n_composing t then handleInput p parent (t\<lparr>n_composing := False\<rparr>) else t)"

text \<open>\<open>Ve\<close>, \<open>ce\<close>, \<open>Ee\<close>, \<open>me\<close>, and the focus of \<open>tL\<close>; \<open>inside\<close> says that the focus moves within the component.\<close>

definition clear_input :: "input_props \<Rightarrow> (units \<Rightarrow> units \<Rightarrow> units) \<Rightarrow> input \<Rightarrow> input" where
  "clear_input p parent s = model_changed p (parent (n_model s) []) (emit [Update [], Change [], Clear, Input []] s)"

definition handlePasswordVisible :: "input \<Rightarrow> input" where
  "handlePasswordVisible s = s\<lparr>n_visible := \<not> n_visible s\<rparr>"

definition handleMouseEnter :: "input \<Rightarrow> input" where
  "handleMouseEnter s = emit [Mouse_Enter] (s\<lparr>n_hovering := True\<rparr>)"

definition handleMouseLeave :: "input \<Rightarrow> input" where
  "handleMouseLeave s = emit [Mouse_Leave] (s\<lparr>n_hovering := False\<rparr>)"

definition handleFocus :: "input \<Rightarrow> input" where
  "handleFocus s = (if n_focused s then s else emit [Focus] (s\<lparr>n_focused := True\<rparr>))"

definition handleBlur :: "input_props \<Rightarrow> bool \<Rightarrow> input \<Rightarrow> input" where
  "handleBlur p inside s = (if inside then s
     else emit (Blur # (if in_validateEvent p then [Validate ''blur''] else [])) (s\<lparr>n_focused := False\<rparr>))"

text \<open>\<open>B\<close>, \<open>j\<close>, \<open>X\<close>, \<open>fe\<close> and the type of the element.\<close>

definition showClear :: "input_props \<Rightarrow> input \<Rightarrow> bool" where
  "showClear p s \<longleftrightarrow> in_clearable p \<and> \<not> in_disabled p \<and> \<not> in_readonly p \<and> n_model s \<noteq> [] \<and> (n_focused s \<or> n_hovering s)"

definition showPwdVisible :: "input_props \<Rightarrow> input \<Rightarrow> bool" where
  "showPwdVisible p s \<longleftrightarrow> in_showPassword p \<and> \<not> in_disabled p \<and> \<not> in_readonly p \<and> n_model s \<noteq> [] \<and> (n_model s \<noteq> [] \<or> n_focused s)"

definition isWordLimitVisible :: "input_props \<Rightarrow> bool" where
  "isWordLimitVisible p \<longleftrightarrow> in_showWordLimit p \<and> (case in_maxlength p of None \<Rightarrow> False | Some m \<Rightarrow> m \<noteq> 0) \<and> (in_type p = ''text'' \<or> in_type p = ''textarea'')
     \<and> \<not> in_disabled p \<and> \<not> in_readonly p \<and> \<not> in_showPassword p"

definition inputExceed :: "input_props \<Rightarrow> input \<Rightarrow> bool" where
  "inputExceed p s \<longleftrightarrow> isWordLimitVisible p \<and> (case in_maxlength p of None \<Rightarrow> False | Some m \<Rightarrow> m < length (n_model s))"

definition element_type :: "input_props \<Rightarrow> input \<Rightarrow> string" where
  "element_type p s = (if in_showPassword p then (if n_visible s then ''text'' else ''password'') else in_type p)"

section \<open>The height of a text area\<close>

text \<open>\<open>bD\<close>: the style of the hidden text area that measures a text.\<close>

definition hidden_style :: "bool \<Rightarrow> string" where
  "hidden_style firefox = [CHR 0x0A] @ ''  height:0 !important;'' @ [CHR 0x0A] @ ''  visibility:hidden !important;'' @ [CHR 0x0A]
     @ ''  '' @ (if firefox then [] else ''overflow:hidden !important;'') @ [CHR 0x0A] @ ''  position:absolute !important;'' @ [CHR 0x0A]
     @ ''  z-index:-1000 !important;'' @ [CHR 0x0A] @ ''  top:0 !important;'' @ [CHR 0x0A] @ ''  right:0 !important;'' @ [CHR 0x0A]"

text \<open>\<open>wD\<close>, \<open>CD\<close>: what is read of the computed style of the element; the numbers are those that start the texts of the properties.\<close>

definition context_properties :: "string list" where
  "context_properties = [''letter-spacing'', ''line-height'', ''padding-top'', ''padding-bottom'', ''font-family'', ''font-weight'', ''font-size'',
     ''text-rendering'', ''text-transform'', ''width'', ''text-indent'', ''padding-left'', ''padding-right'', ''border-width'', ''box-sizing'']"

record computed_style =
  property_text :: "string \<Rightarrow> string"
  property_number :: "string \<Rightarrow> rat"

record node_styling =
  contextStyle :: string
  paddingSize :: rat
  borderSize :: rat
  boxSizing :: string

definition calculateNodeStyling :: "computed_style \<Rightarrow> node_styling" where
  "calculateNodeStyling t =
     \<lparr>contextStyle = js_join '';'' (map (\<lambda>s. s @ '':'' @ property_text t s) context_properties),
      paddingSize = property_number t ''padding-bottom'' + property_number t ''padding-top'',
      borderSize = property_number t ''border-bottom-width'' + property_number t ''border-top-width'',
      boxSizing = property_text t ''box-sizing''\<rparr>"

text \<open>\<open>Og\<close>.  The browser measures: \<open>scrollHeight\<close> gives the height of a text in a style.  The rows are None when they are no number; a call without
  them asks for one row at least.\<close>

record area_style =
  a_minHeight :: "rat option"
  a_height :: rat

definition calcTextareaHeight :: "bool \<Rightarrow> (string \<Rightarrow> units \<Rightarrow> rat) \<Rightarrow> computed_style \<Rightarrow> units \<Rightarrow> units \<Rightarrow> rat option \<Rightarrow> rat option \<Rightarrow> area_style" where
  "calcTextareaHeight firefox scrollHeight t content placeholder minRows maxRows =
     (let st = calculateNodeStyling t; css = contextStyle st @ '';'' @ hidden_style firefox;
          u = scrollHeight css (if content \<noteq> [] then content else placeholder);
          u1 = (if boxSizing st = ''border-box'' then u + borderSize st else if boxSizing st = ''content-box'' then u - paddingSize st else u);
          d = scrollHeight css [] - paddingSize st;
          rows = (\<lambda>n. d * n + (if boxSizing st = ''border-box'' then paddingSize st + borderSize st else 0));
          u2 = (case minRows of Some n \<Rightarrow> max (rows n) u1 | None \<Rightarrow> u1);
          u3 = (case maxRows of Some n \<Rightarrow> min (rows n) u2 | None \<Rightarrow> u2) in
      \<lparr>a_minHeight = map_option rows minRows, a_height = u3\<rparr>)"

text \<open>The style that a row count asks for, and \<open>Z\<close>: without autosize only the least height is kept.\<close>

datatype autosize = No_Autosize | Autosize "rat option option" "rat option"

definition resizeTextarea :: "bool \<Rightarrow> (string \<Rightarrow> units \<Rightarrow> rat) \<Rightarrow> computed_style \<Rightarrow> units \<Rightarrow> units \<Rightarrow> autosize \<Rightarrow> rat option \<times> rat option" where
  "resizeTextarea firefox scrollHeight t content placeholder a = (case a of
     No_Autosize \<Rightarrow> (a_minHeight (calcTextareaHeight firefox scrollHeight t content placeholder (Some 1) None), None)
   | Autosize lo hi \<Rightarrow>
       (let r = calcTextareaHeight firefox scrollHeight t content placeholder (case lo of None \<Rightarrow> Some 1 | Some n \<Rightarrow> n) hi in (a_minHeight r, Some (a_height r))))"

section \<open>What a browser sends\<close>

text \<open>
  A step of the browser.  Typing changes the text and sends an input event.  A composition begins, goes on in steps of an update
  before the text changes and an input event after it, and ends; the flag says whether one runs.  The other events come
  at any time, and so does a new model from the page.
\<close>

type_synonym typed = "units \<times> (nat \<times> nat) option"

definition type_text :: "typed \<Rightarrow> input \<Rightarrow> input" where
  "type_text t s = s\<lparr>n_native := fst t, n_selection := snd t\<rparr>"

inductive browser_step :: "input_props \<Rightarrow> (units \<Rightarrow> units \<Rightarrow> units) \<Rightarrow> bool \<times> input \<Rightarrow> bool \<times> input \<Rightarrow> bool" for p parent where
  typing: "browser_step p parent (False, s) (False, handleInput p parent (type_text t s))"
| compose_begin: "browser_step p parent (False, s) (True, handleCompositionStart s)"
| compose_more: "browser_step p parent (True, s) (True, handleInput p parent (type_text t (handleCompositionUpdate s)))"
| compose_done: "browser_step p parent (True, s) (False, handleCompositionEnd p parent s)"
| changing: "browser_step p parent (c, s) (c, handleChange s)"
| clearing: "browser_step p parent (False, s) (False, clear_input p parent s)"
| eye: "browser_step p parent (c, s) (c, handlePasswordVisible s)"
| mouse_in: "browser_step p parent (c, s) (c, handleMouseEnter s)"
| mouse_out: "browser_step p parent (c, s) (c, handleMouseLeave s)"
| focusing: "browser_step p parent (c, s) (c, handleFocus s)"
| leaving: "browser_step p parent (c, s) (c, handleBlur p inside s)"
| new_model: "browser_step p parent (False, s) (False, model_changed p m s)"

inductive_cases browser_stepE: "browser_step p parent cs cs'"

text \<open>A mounted input shows its model.\<close>

definition mounted :: "input_props \<Rightarrow> units \<Rightarrow> input" where
  "mounted p m = \<lparr>n_native = shown p m, n_selection = None, n_model = m, n_composing = False, n_hovering = False, n_focused = False, n_visible = False, n_cursor = None, n_log = []\<rparr>"

inductive reached :: "input_props \<Rightarrow> (units \<Rightarrow> units \<Rightarrow> units) \<Rightarrow> bool \<times> input \<Rightarrow> bool" for p parent where
  reached_mount: "reached p parent (False, mounted p m)"
| reached_step: "reached p parent cs \<Longrightarrow> browser_step p parent cs cs' \<Longrightarrow> reached p parent cs'"

definition in_step :: "input_props \<Rightarrow> bool \<times> input \<Rightarrow> bool" where
  "in_step p cs \<longleftrightarrow> (if fst cs then n_composing (snd cs) \<or> n_native (snd cs) = shown p (n_model (snd cs))
     else \<not> n_composing (snd cs) \<and> n_native (snd cs) = shown p (n_model (snd cs)))"

lemmas input_defs = emit_def setNativeInputValue_def model_changed_def recordCursor_def setCursor_def type_text_def handleChange_def handleCompositionStart_def
  handleCompositionUpdate_def clear_input_def handlePasswordVisible_def handleMouseEnter_def handleMouseLeave_def handleFocus_def handleBlur_def Let_def

lemma handleInput_shows:
  "\<not> n_composing s \<Longrightarrow> n_native (handleInput p parent s) = shown p (n_model (handleInput p parent s))"
  "n_composing (handleInput p parent s) = n_composing s"
  by (simp_all add: handleInput_def input_defs split: option.splits)

lemma handleInput_composing: "n_composing s \<Longrightarrow> handleInput p parent s = recordCursor s"
  by (simp add: handleInput_def input_defs split: option.splits)

lemma handleInput_waits_or_shows: "n_composing (handleInput p parent s) \<or> n_native (handleInput p parent s) = shown p (n_model (handleInput p parent s))"
  using handleInput_shows by blast

lemma step_in_step:
  assumes "browser_step p parent cs cs'" "in_step p cs"
  shows "in_step p cs'"
  using assms(1)
proof cases
  case (compose_more s t)
  then show ?thesis using handleInput_waits_or_shows by (simp add: in_step_def)
next
  case (compose_done s)
  then show ?thesis using assms(2) handleInput_shows[where s = "(emit [Compose_End] s)\<lparr>n_composing := False\<rparr>"] by (auto simp: in_step_def handleCompositionEnd_def emit_def Let_def)
qed (use assms(2) in \<open>auto simp: in_step_def handleInput_shows input_defs split: if_splits\<close>)

text \<open>A text of the element is handed on: the page is told it, as the parser reads it, unless it is the model already, and the model
  is what the page answers.\<close>

definition reads :: "input_props \<Rightarrow> units \<Rightarrow> units" where
  "reads p x = (if in_formatter p \<noteq> None then (case in_parser p of Some g \<Rightarrow> g x | None \<Rightarrow> x) else x)"

definition handed_on :: "input_props \<Rightarrow> (units \<Rightarrow> units \<Rightarrow> units) \<Rightarrow> units \<Rightarrow> input \<Rightarrow> input \<Rightarrow> bool" where
  "handed_on p parent x s s' \<longleftrightarrow> (let v = reads p x in
     if v = n_model s then n_model s' = n_model s
     else n_model s' = parent (n_model s) v \<and> {Update v, Input v} \<subseteq> set (drop (length (n_log s)) (n_log s')))"

lemma recordCursor_keeps [simp]: "n_native (recordCursor s) = n_native s" "n_model (recordCursor s) = n_model s" "n_log (recordCursor s) = n_log s"
    "n_composing (recordCursor s) = n_composing s"
  by (simp_all add: recordCursor_def split: option.splits)

lemma setCursor_keeps [simp]: "n_model (setCursor s) = n_model s" "n_log (setCursor s) = n_log s"
  by (simp_all add: setCursor_def split: option.splits)

lemma model_changed_sets: "n_model (model_changed p m s) = m" "\<exists>es. n_log (model_changed p m s) = n_log s @ es"
  by (auto simp: model_changed_def setNativeInputValue_def emit_def)

lemma handleInput_hands_on:
  assumes "\<not> n_composing s"
  shows "handed_on p parent (n_native s) s (handleInput p parent s)"
proof -
  define v where "v = reads p (n_native s)"
  have h: "handleInput p parent s = (if v = n_model s then setNativeInputValue p (recordCursor s)
      else setCursor (setNativeInputValue p (model_changed p (parent (n_model s) v) (emit [Update v, Input v] (recordCursor s)))))"
    using assms by (cases "in_parser p") (simp_all add: handleInput_def v_def reads_def Let_def)
  obtain es where "n_log (model_changed p (parent (n_model s) v) (emit [Update v, Input v] (recordCursor s))) = n_log s @ [Update v, Input v] @ es"
    using model_changed_sets(2)[of p "parent (n_model s) v" "emit [Update v, Input v] (recordCursor s)"] by (auto simp: emit_def)
  then show ?thesis unfolding handed_on_def Let_def v_def[symmetric] h by (simp add: setNativeInputValue_def model_changed_sets(1))
qed

lemma handed_on_log:
  assumes "handed_on p parent x s1 s'" "n_model s1 = n_model s" "n_log s1 = n_log s @ es"
  shows "handed_on p parent x s s'"
  using assms set_drop_subset_set_drop[of "length (n_log s)" "length (n_log s) + length es" "n_log s'"] by (auto simp: handed_on_def Let_def split: if_splits)

text \<open>C21: After any events that a browser sends, an input that is not in the middle of a composition shows exactly what
  the formatter makes of the model, and within a composition it does so as soon as the component does not wait for its
  end.  No typed or composed text is lost between the element and the model: a text typed then outside a composition, and the
  text of the element at the end of a composition that was waited for, is handed to the page as the parser reads it, unless
  it is the model already, and the model becomes what the page answers.\<close>

theorem input_in_step:
  assumes "reached p parent (c, s)"
  shows "(\<not> c \<longrightarrow> \<not> n_composing s) \<and> (n_composing s \<or> n_native s = shown p (n_model s)) \<and>
    (\<not> c \<longrightarrow> handed_on p parent (fst t) s (handleInput p parent (type_text t s))) \<and>
    (n_composing s \<longrightarrow> handed_on p parent (n_native s) s (handleCompositionEnd p parent s))"
proof -
  have "in_step p cs" if "reached p parent cs" for cs using that
  proof (induction rule: reached.induct)
    case (reached_mount m)
    show ?case by (simp add: in_step_def mounted_def)
  qed (rule step_in_step)
  from this[OF assms] have i: "(\<not> c \<longrightarrow> \<not> n_composing s) \<and> (n_composing s \<or> n_native s = shown p (n_model s))"
    by (auto simp: in_step_def split: if_splits)
  have "handed_on p parent (fst t) s (handleInput p parent (type_text t s))" if "\<not> c"
    using handed_on_log[OF handleInput_hands_on[of "type_text t s" p parent], of s "[]"] i that by (simp add: type_text_def)
  moreover have "handed_on p parent (n_native s) s (handleCompositionEnd p parent s)" if "n_composing s"
    using handed_on_log[OF handleInput_hands_on[of "(emit [Compose_End] s)\<lparr>n_composing := False\<rparr>" p parent], of s "[Compose_End]"] that
    by (simp add: handleCompositionEnd_def emit_def Let_def)
  ultimately show ?thesis using i by blast
qed

theorem input_in_step_witness:
  "n_native (handleInput \<lparr>in_formatter = None, in_parser = None, in_type = ''text'', in_clearable = False, in_disabled = False, in_readonly = False,
       in_showPassword = False, in_showWordLimit = False, in_maxlength = None, in_validateEvent = True\<rparr> (\<lambda>_ v. v)
     (type_text ([104, 105], None) (mounted \<lparr>in_formatter = None, in_parser = None, in_type = ''text'', in_clearable = False, in_disabled = False, in_readonly = False,
       in_showPassword = False, in_showWordLimit = False, in_maxlength = None, in_validateEvent = True\<rparr> []))) = [104, 105]"
proof -
  define p :: input_props where "p = \<lparr>in_formatter = None, in_parser = None, in_type = ''text'', in_clearable = False, in_disabled = False, in_readonly = False,
       in_showPassword = False, in_showWordLimit = False, in_maxlength = None, in_validateEvent = True\<rparr>"
  let ?s = "handleInput p (\<lambda>_ v. v) (type_text ([104, 105], None) (mounted p []))"
  have "reached p (\<lambda>_ v. v) (False, ?s)" by (rule reached_step[OF reached_mount typing])
  from input_in_step[OF this] have "n_native ?s = shown p (n_model ?s)" by blast
  moreover have "n_model ?s = [104, 105]" by (simp add: p_def handleInput_def input_defs mounted_def shown_def)
  ultimately show ?thesis by (simp add: p_def shown_def)
qed

text \<open>
  Typing leaves the cursor where it is: without a formatter, and with a page that takes over what is typed, the selection after an input
  event collapses to where the selection of the element ended, and the text of the element is what was typed.\<close>

theorem typing_keeps_cursor:
  assumes "in_formatter p = None" "\<not> n_composing s" "n_selection s = Some (r, l)" "l \<le> length (n_native s)" "n_native s \<noteq> n_model s"
    and "s' = handleInput p (\<lambda>_ v. v) s"
  shows "n_native s' = n_native s \<and> n_model s' = n_native s \<and> n_selection s' = Some (l, l)"
proof -
  have "suffix (drop l (n_native s)) (n_native s)" by (rule suffix_drop)
  then have "cursor_place \<lparr>cu_start = r, cu_before = take r (n_native s), cu_after = drop l (n_native s)\<rparr> (n_native s) = l"
    using assms(4) by (simp add: cursor_place_def)
  then show ?thesis using assms(1-3,5) by (simp add: assms(6) handleInput_def input_defs shown_def)
qed

theorem typing_keeps_cursor_witness:
  "n_selection (handleInput \<lparr>in_formatter = None, in_parser = None, in_type = ''text'', in_clearable = False, in_disabled = False, in_readonly = False,
       in_showPassword = False, in_showWordLimit = False, in_maxlength = None, in_validateEvent = True\<rparr> (\<lambda>_ v. v)
     \<lparr>n_native = [97, 98, 99], n_selection = Some (2, 2), n_model = [97, 99], n_composing = False, n_hovering = False, n_focused = True, n_visible = False, n_cursor = None, n_log = []\<rparr>)
   = Some (2, 2)"
  by (rule conjunct2[OF conjunct2[OF typing_keeps_cursor[where r = 2, OF _ _ _ _ _ refl]]]) simp_all

text \<open>Whatever the formatter makes of the text, the cursor stays within it.\<close>

lemma index_from_bound: "index_from c i xs = Some d \<Longrightarrow> d < length xs"
proof -
  assume "index_from c i xs = Some d"
  then have c: "c \<in> set (drop i xs)" "d = i + length (takeWhile (\<lambda>x. x \<noteq> c) (drop i xs))" by (auto simp: index_from_def split: if_splits)
  then have "0 < length (dropWhile (\<lambda>x. x \<noteq> c) (drop i xs))" by (auto simp: dropWhile_eq_Nil_conv)
  then have "length (takeWhile (\<lambda>x. x \<noteq> c) (drop i xs)) < length (drop i xs)"
    using arg_cong[OF takeWhile_dropWhile_id, of length "\<lambda>x. x \<noteq> c" "drop i xs"] unfolding length_append by linarith
  then show "d < length xs" using c(2) by simp
qed

theorem cursor_in_text: "cursor_place c r \<le> length r"
  using index_from_bound by (fastforce simp: cursor_place_def prefix_def suffix_def split: option.splits)

text \<open>The height that a number of rows needs.\<close>

definition row_height :: "bool \<Rightarrow> (string \<Rightarrow> units \<Rightarrow> rat) \<Rightarrow> computed_style \<Rightarrow> rat \<Rightarrow> rat" where
  "row_height firefox scrollHeight t n =
     (let st = calculateNodeStyling t in (scrollHeight (contextStyle st @ '';'' @ hidden_style firefox) [] - paddingSize st) * n
        + (if boxSizing st = ''border-box'' then paddingSize st + borderSize st else 0))"

text \<open>C29: A text area that grows with its text is never lower than its least number of rows nor higher than its greatest, as long as an empty row has a height;
  it states the height of the least rows as its least height; and of two texts the one that is measured higher gets
  an area at least as high.\<close>

theorem textarea_between_rows:
  assumes "lo \<le> hi" "paddingSize (calculateNodeStyling t) \<le> scrollHeight (contextStyle (calculateNodeStyling t) @ '';'' @ hidden_style firefox) []"
    and "area = (\<lambda>c. calcTextareaHeight firefox scrollHeight t c placeholder (Some lo) (Some hi))"
  shows "a_minHeight (area c) = Some (row_height firefox scrollHeight t lo) \<and>
    row_height firefox scrollHeight t lo \<le> a_height (area c) \<and> a_height (area c) \<le> row_height firefox scrollHeight t hi \<and>
    (c \<noteq> [] \<and> c' \<noteq> [] \<and> scrollHeight (contextStyle (calculateNodeStyling t) @ '';'' @ hidden_style firefox) c \<le>
       scrollHeight (contextStyle (calculateNodeStyling t) @ '';'' @ hidden_style firefox) c' \<longrightarrow> a_height (area c) \<le> a_height (area c'))"
proof -
  have m: "row_height firefox scrollHeight t lo \<le> row_height firefox scrollHeight t hi"
    unfolding row_height_def Let_def using assms(1,2) by (intro add_right_mono mult_left_mono) simp_all
  define nat where "nat = (\<lambda>c. let st = calculateNodeStyling t; u = scrollHeight (contextStyle st @ '';'' @ hidden_style firefox) (if c \<noteq> [] then c else placeholder) in
     if boxSizing st = ''border-box'' then u + borderSize st else if boxSizing st = ''content-box'' then u - paddingSize st else u)"
  have h: "a_height (area c) = min (row_height firefox scrollHeight t hi) (max (row_height firefox scrollHeight t lo) (nat c))" for c
    by (simp add: assms(3) calcTextareaHeight_def row_height_def nat_def Let_def)
  have l: "a_minHeight (area c) = Some (row_height firefox scrollHeight t lo)" by (simp add: assms(3) calcTextareaHeight_def row_height_def Let_def)
  have "nat c \<le> nat c'" if "c \<noteq> []" "c' \<noteq> []" "scrollHeight (contextStyle (calculateNodeStyling t) @ '';'' @ hidden_style firefox) c \<le>
       scrollHeight (contextStyle (calculateNodeStyling t) @ '';'' @ hidden_style firefox) c'"
    using that by (simp add: nat_def Let_def)
  then show ?thesis unfolding h l using m by (auto simp: min_def max_def)
qed

theorem textarea_between_rows_witness:
  "a_height (calcTextareaHeight False (\<lambda>_ c. 20 + 8 * of_nat (length c)) \<lparr>property_text = \<lambda>_. ''border-box'', property_number = \<lambda>_. 1\<rparr> [65, 66, 67] [] (Some 1) (Some 2)) \<le> 40"
proof -
  let ?t = "\<lparr>property_text = \<lambda>_. ''border-box'', property_number = \<lambda>_. 1\<rparr>"
  have "paddingSize (calculateNodeStyling ?t) \<le> 20 + 8 * of_nat (length [])" by (simp add: calculateNodeStyling_def)
  then have "a_height (calcTextareaHeight False (\<lambda>_ c. 20 + 8 * of_nat (length c)) ?t [65, 66, 67] [] (Some 1) (Some 2)) \<le> row_height False (\<lambda>_ c. 20 + 8 * of_nat (length c)) ?t 2"
    using textarea_between_rows[where lo = 1 and hi = 2 and t = ?t and scrollHeight = "\<lambda>_ c. 20 + 8 * of_nat (length c)" and firefox = False and placeholder = "[]" and c = "[65, 66, 67]", OF _ _ refl] by simp
  also have "row_height False (\<lambda>_ c. 20 + 8 * of_nat (length c)) ?t 2 = 40" by (simp add: row_height_def calculateNodeStyling_def)
  finally show ?thesis .
qed

section \<open>The rules of the login and the events of its inputs\<close>

text \<open>The rules of the login form listen to the loss of focus only.  Typing, which validates with the event change, leaves the mark and the message of
  a field as they are, so the message under a field that was empty stays until the field is left; leaving the field checks it anew.\<close>

theorem login_message_until_blur:
  assumes "h \<noteq> []" "map_of rules h = Some [login_rule m]" "map_of model h = Some (Str v)" "it = (login_item h)\<lparr>i_state := st, i_message := ms\<rparr>"
  shows "item_validate lng model rules ''change'' it = (Settled True, it) \<and>
    snd (item_validate lng model rules ''blur'' it) = it\<lparr>i_state := if v = [] then ''error'' else ''success'', i_message := if v = [] then m else ms\<rparr>"
proof -
  have "normalizedRules rules it = [login_rule m]" using assms(2,4) by (simp add: normalizedRules_def login_item_def)
  moreover have "i_prop it = Some h" "\<not> i_resetting it" using assms(4) by (simp_all add: login_item_def)
  moreover have "getFilteredRule ''change'' [login_rule m] = []" by (simp add: getFilteredRule_def login_rule_def)
  ultimately have "item_validate lng model rules ''change'' it = (Settled True, it)" using assms(1) by (simp add: item_validate_def)
  then show ?thesis unfolding assms(4) using login_rule_check[OF assms(1-3), of "''blur''"] by simp
qed

theorem login_message_until_blur_witness:
  "item_validate \<lparr>regexp_ok = \<lambda>_. True, date_time = \<lambda>_. NaN\<rparr> [(''password'', Str ''x'')] [(''password'', [login_rule ''missing''])] ''change''
     ((login_item ''password'')\<lparr>i_state := ''error'', i_message := ''missing''\<rparr>)
   = (Settled True, (login_item ''password'')\<lparr>i_state := ''error'', i_message := ''missing''\<rparr>)"
  by (rule conjunct1[OF login_message_until_blur[where h = "''password''" and m = "''missing''" and v = "''x''"]]) simp_all

end
