(* ===== verification/Ui_Widgets.thy ===== *)
theory Ui_Widgets
  imports Form_Validation Complex_Main
begin

text \<open>
  Two widgets of the component library (\<open>index-e87360db.js\<close>): the ring and the colours of a progress indicator, and the hover zone of a
  cascading menu with its timer.  Percentages and lengths are rational numbers, pixels are integers.
\<close>

section \<open>The ring of a progress indicator\<close>

record progress =
  pg_type :: string
  pg_percentage :: rat
  pg_strokeWidth :: rat
  pg_width :: rat

text \<open>\<open>x.toFixed(1)\<close>, read back as a number.\<close>

definition toFixed1 :: "rat \<Rightarrow> rat" where
  "toFixed1 x = (if x < 0 then - of_int \<lfloor>- x * 10 + 1 / 2\<rfloor> / 10 else of_int \<lfloor>x * 10 + 1 / 2\<rfloor> / 10)"

definition relativeStrokeWidth :: "progress \<Rightarrow> rat" where
  "relativeStrokeWidth t = toFixed1 (pg_strokeWidth t / pg_width t * 100)"

text \<open>\<open>parseInt\<close> of the text of a number drops what is behind the point.\<close>

definition parseInt_rat :: "rat \<Rightarrow> int" where
  "parseInt_rat x = (if x < 0 then \<lceil>x\<rceil> else \<lfloor>x\<rfloor>)"

definition radius :: "progress \<Rightarrow> int" where
  "radius t = (if pg_type t = ''circle'' \<or> pg_type t = ''dashboard'' then parseInt_rat (50 - relativeStrokeWidth t / 2) else 0)"

text \<open>\<open>a\<close>: the path of the ring, two half circles around the middle; a dashboard starts at the bottom.\<close>

definition trackPath :: "progress \<Rightarrow> string" where
  "trackPath t =
     (let c = text_of_int (radius t); c2 = text_of_int (radius t * 2); w = (pg_type t = ''dashboard'');
          nl = [CHR 0x0A] @ ''          '' in
      nl @ ''M 50 50'' @
      nl @ ''m 0 '' @ (if w then [] else ''-'') @ c @
      nl @ ''a '' @ c @ '' '' @ c @ '' 0 1 1 0 '' @ (if w then ''-'' else []) @ c2 @
      nl @ ''a '' @ c @ '' '' @ c @ '' 0 1 1 0 '' @ (if w then [] else ''-'') @ c2 @
      nl)"

text \<open>\<open>u\<close>, \<open>c\<close>, \<open>d\<close>, \<open>f\<close>, \<open>p\<close>: the perimeter, the part of it that is used, and the dashes of the trail and of the bar.\<close>

definition Math_PI :: rat where
  "Math_PI = 884279719003555 / 281474976710656"

definition perimeter :: "progress \<Rightarrow> rat" where
  "perimeter t = 2 * Math_PI * of_int (radius t)"

definition rate :: "progress \<Rightarrow> rat" where
  "rate t = (if pg_type t = ''dashboard'' then 3 / 4 else 1)"

record dashes =
  d_on :: rat
  d_off :: rat
  d_offset :: rat

definition strokeDashoffset :: "progress \<Rightarrow> rat" where
  "strokeDashoffset t = -1 * perimeter t * (1 - rate t) / 2"

definition trailPathStyle :: "progress \<Rightarrow> dashes" where
  "trailPathStyle t = \<lparr>d_on = perimeter t * rate t, d_off = perimeter t, d_offset = strokeDashoffset t\<rparr>"

definition circlePathStyle :: "progress \<Rightarrow> dashes" where
  "circlePathStyle t = \<lparr>d_on = perimeter t * rate t * (pg_percentage t / 100), d_off = perimeter t, d_offset = strokeDashoffset t\<rparr>"

definition progressTextSize :: "progress \<Rightarrow> rat" where
  "progressTextSize t = (if pg_type t = ''line'' then 12 + pg_strokeWidth t * (4 / 10) else pg_width t * (111111 / 1000000) + 2)"

section \<open>Its colours\<close>

text \<open>\<open>g\<close>: colours without a percentage share the range evenly; the levels are sorted.\<close>

datatype colour = Plain string | Level string rat

definition getLevelColors :: "colour list \<Rightarrow> (string \<times> rat) list" where
  "getLevelColors cs =
     (let span = 100 / of_nat (length cs) in
      sort_key snd (map (\<lambda>(i, c). case c of Plain s \<Rightarrow> (s, of_nat (i + 1) * span) | Level s q \<Rightarrow> (s, q)) (enumerate 0 cs)))"

text \<open>\<open>b\<close>: the first level above the percentage, or else the last; None for an empty list of colours.\<close>

datatype colours = By_Function "rat \<Rightarrow> string" | One_Colour string | Colours "colour list"

fun first_above :: "rat \<Rightarrow> (string \<times> rat) list \<Rightarrow> string option" where
  "first_above p [] = None"
| "first_above p (l # ls) = (if p < snd l then Some (fst l) else first_above p ls)"

definition getCurrentColor :: "colours \<Rightarrow> rat \<Rightarrow> string option" where
  "getCurrentColor k p = (case k of By_Function f \<Rightarrow> Some (f p) | One_Colour s \<Rightarrow> Some s
     | Colours cs \<Rightarrow> (let ls = getLevelColors cs in
         case first_above p ls of Some s \<Rightarrow> Some s | None \<Rightarrow> if ls = [] then None else Some (fst (last ls))))"

section \<open>The hover zone of a cascading menu\<close>

text \<open>\<open>ElCascaderMenu\<close>: the entry that is open, the timer and the text of the zone; \<open>hz_pending\<close> are the timers of the window and
  \<open>hz_mounted\<close> says that the element of the zone exists.\<close>

record entry =
  e_id :: nat
  e_top :: int
  e_height :: int

record hover_zone =
  hz_active :: "entry option"
  hz_timer :: "nat option"
  hz_html :: string
  hz_mounted :: bool
  hz_pending :: "nat list"
  hz_next :: nat

text \<open>The zone: two triangles from the pointer to the upper and the lower corner of the menu.\<close>

definition zone_html :: "int \<Rightarrow> int \<Rightarrow> int \<Rightarrow> int \<Rightarrow> int \<Rightarrow> string" where
  "zone_html x y1 y2 width height =
     (let n = text_of_int; q = [CHR 0x22] :: string;
          line = (\<lambda>d. ''          <path style='' @ q @ ''pointer-events: auto;'' @ q @ '' fill='' @ q @ ''transparent'' @ q @ '' d='' @ q @ d @ q @ '' />'' @ [CHR 0x0A]) in
      [CHR 0x0A] @ line (''M'' @ n x @ '' '' @ n y1 @ '' L'' @ n width @ '' 0 V'' @ n y1 @ '' Z'')
        @ line (''M'' @ n x @ '' '' @ n y2 @ '' L'' @ n width @ '' '' @ n height @ '' V'' @ n y2 @ '' Z'') @ ''        '')"

definition clearHoverTimer :: "hover_zone \<Rightarrow> hover_zone" where
  "clearHoverTimer s = (case hz_timer s of None \<Rightarrow> s
     | Some i \<Rightarrow> s\<lparr>hz_pending := filter (\<lambda>j. j \<noteq> i) (hz_pending s), hz_timer := None\<rparr>)"

definition clearHoverZone :: "hover_zone \<Rightarrow> hover_zone" where
  "clearHoverZone s = (if hz_mounted s then clearHoverTimer (s\<lparr>hz_html := []\<rparr>) else s)"

definition handleExpand :: "entry \<Rightarrow> hover_zone \<Rightarrow> hover_zone" where
  "handleExpand e s = s\<lparr>hz_active := Some e\<rparr>"

text \<open>\<open>v\<close>: \<open>hover\<close> says that the panel opens menus on hovering, \<open>within\<close> that the pointer is in the entry; the pointer and the box of the menu follow.\<close>

definition handleMouseMove :: "bool \<Rightarrow> (entry \<Rightarrow> bool) \<Rightarrow> int \<Rightarrow> int \<Rightarrow> int \<Rightarrow> int \<Rightarrow> hover_zone \<Rightarrow> hover_zone" where
  "handleMouseMove hover inside clientX left width height s = (case hz_active s of
     None \<Rightarrow> s
   | Some e \<Rightarrow>
       if \<not> hover \<or> \<not> hz_mounted s then s
       else if inside e
       then (clearHoverTimer s)\<lparr>hz_html := zone_html (clientX - left) (e_top e) (e_top e + e_height e) width height\<rparr>
       else if hz_timer s = None then s\<lparr>hz_timer := Some (hz_next s), hz_pending := hz_next s # hz_pending s, hz_next := hz_next s + 1\<rparr>
       else s)"

text \<open>A pending timer of the window comes due.\<close>

definition timer_due :: "nat \<Rightarrow> hover_zone \<Rightarrow> hover_zone" where
  "timer_due i s = clearHoverZone (s\<lparr>hz_pending := filter (\<lambda>j. j \<noteq> i) (hz_pending s)\<rparr>)"

text \<open>The element of the zone belongs to a condition of the menu: it goes when the menu loads, has no entries or no longer opens on
  hovering, and comes again, empty, afterwards; timers of the window come due meanwhile as well.\<close>

inductive hover_step :: "hover_zone \<Rightarrow> hover_zone \<Rightarrow> bool" where
  hover_expand: "hover_step s (handleExpand e s)"
| hover_move: "hover_step s (handleMouseMove hover inside x l w h s)"
| hover_leave: "hover_step s (clearHoverZone s)"
| hover_due: "i \<in> set (hz_pending s) \<Longrightarrow> hover_step s (timer_due i s)"
| hover_unmount: "hover_step s (s\<lparr>hz_mounted := False\<rparr>)"
| hover_mount: "\<not> hz_mounted s \<Longrightarrow> hover_step s (s\<lparr>hz_mounted := True, hz_html := []\<rparr>)"

inductive_cases hover_stepE: "hover_step s s'"

definition new_zone :: hover_zone where
  "new_zone = \<lparr>hz_active = None, hz_timer = None, hz_html = [], hz_mounted = True, hz_pending = [], hz_next = 0\<rparr>"

inductive zone_reached :: "hover_zone \<Rightarrow> bool" where
  zone_new: "zone_reached new_zone"
| zone_step: "zone_reached s \<Longrightarrow> hover_step s s' \<Longrightarrow> zone_reached s'"

section \<open>The ring fits\<close>

lemma toFixed1_nonneg: "0 \<le> x \<Longrightarrow> 0 \<le> toFixed1 x"
  by (simp add: toFixed1_def)

lemma toFixed1_le: "x \<le> 100 \<Longrightarrow> 0 \<le> x \<Longrightarrow> toFixed1 x \<le> 100"
proof -
  assume x: "x \<le> 100" "0 \<le> x"
  have "\<lfloor>x * 10 + 1 / 2\<rfloor> \<le> \<lfloor>(1000 + 1 / 2 :: rat)\<rfloor>" using x(1) by (intro floor_mono) simp
  also have "\<lfloor>(1000 + 1 / 2 :: rat)\<rfloor> = 1000" by (rule floor_unique) simp_all
  finally have "(of_int \<lfloor>x * 10 + 1 / 2\<rfloor> :: rat) \<le> 1000" by linarith
  then show "toFixed1 x \<le> 100" using x(2) by (simp add: toFixed1_def)
qed

text \<open>A ring whose stroke is no wider than the ring itself lies within its picture of a hundred units: its radius is not negative, and the radius with half of
  the stroke is at most fifty.  Its bar is never longer than its trail, the trail never longer than the perimeter, and what is left
  of the perimeter is split evenly before and after the trail.\<close>

theorem ring_fits:
  assumes "pg_type t = ''circle'' \<or> pg_type t = ''dashboard''" "0 \<le> pg_strokeWidth t" "pg_strokeWidth t \<le> pg_width t" "0 < pg_width t" "0 \<le> pg_percentage t" "pg_percentage t \<le> 100"
  shows "0 \<le> radius t \<and> of_int (radius t) + relativeStrokeWidth t / 2 \<le> 50 \<and>
    0 \<le> d_on (circlePathStyle t) \<and> d_on (circlePathStyle t) \<le> d_on (trailPathStyle t) \<and> d_on (trailPathStyle t) \<le> perimeter t \<and>
    d_on (trailPathStyle t) - 2 * d_offset (trailPathStyle t) = perimeter t"
proof -
  have w: "0 \<le> relativeStrokeWidth t" "relativeStrokeWidth t \<le> 100"
    unfolding relativeStrokeWidth_def using assms(2-4) by (auto intro!: toFixed1_nonneg toFixed1_le simp: divide_le_eq)
  have r: "radius t = \<lfloor>50 - relativeStrokeWidth t / 2\<rfloor>" using assms(1) w by (auto simp: radius_def parseInt_rat_def)
  have r0: "0 \<le> radius t" unfolding r using w by (simp add: le_floor_iff)
  have r1: "of_int (radius t) + relativeStrokeWidth t / 2 \<le> 50" unfolding r using of_int_floor_le[of "50 - relativeStrokeWidth t / 2"] by linarith
  have p: "0 \<le> perimeter t" using r0 by (simp add: perimeter_def Math_PI_def)
  have k: "0 \<le> rate t" "rate t \<le> 1" by (simp_all add: rate_def)
  have q: "0 \<le> perimeter t * rate t" using p k by simp
  have "perimeter t * rate t * (pg_percentage t / 100) \<le> perimeter t * rate t * 1" by (rule mult_left_mono) (use assms(6) q in simp_all)
  moreover have "perimeter t * rate t \<le> perimeter t" using mult_left_mono[OF k(2) p] by simp
  moreover have "0 \<le> perimeter t * rate t * (pg_percentage t / 100)" using q assms(5) by simp
  moreover have "perimeter t * rate t - 2 * strokeDashoffset t = perimeter t" by (simp add: strokeDashoffset_def field_simps)
  ultimately show ?thesis using r0 r1 by (simp add: circlePathStyle_def trailPathStyle_def)
qed

theorem ring_fits_witness: "0 \<le> radius \<lparr>pg_type = ''dashboard'', pg_percentage = 40, pg_strokeWidth = 6, pg_width = 126\<rparr>"
  by (rule conjunct1[OF ring_fits]) simp_all

text \<open>The ring of the standard size: a stroke of 6 on a width of 126 is 4.8 units wide, and the radius is 47.\<close>

lemma standard_ring: "relativeStrokeWidth \<lparr>pg_type = ''circle'', pg_percentage = p, pg_strokeWidth = 6, pg_width = 126\<rparr> = 24 / 5"
  "radius \<lparr>pg_type = ''circle'', pg_percentage = p, pg_strokeWidth = 6, pg_width = 126\<rparr> = 47"
proof -
  have "\<lfloor>(2021 / 42 :: rat)\<rfloor> = 48" by (rule floor_unique) simp_all
  then show w: "relativeStrokeWidth \<lparr>pg_type = ''circle'', pg_percentage = p, pg_strokeWidth = 6, pg_width = 126\<rparr> = 24 / 5"
    by (simp add: relativeStrokeWidth_def toFixed1_def)
  have "\<lfloor>(238 / 5 :: rat)\<rfloor> = 47" by (rule floor_unique) simp_all
  then show "radius \<lparr>pg_type = ''circle'', pg_percentage = p, pg_strokeWidth = 6, pg_width = 126\<rparr> = 47" by (simp add: radius_def w parseInt_rat_def)
qed

section \<open>The colours share the range\<close>

lemma first_above_sorted:
  assumes "k < length ls" "\<And>j. j < k \<Longrightarrow> \<not> p < snd (ls ! j)" "p < snd (ls ! k)"
  shows "first_above p ls = Some (fst (ls ! k))"
  using assms
proof (induction ls arbitrary: k)
  case (Cons l ls)
  show ?case
  proof (cases k)
    case 0
    then show ?thesis using Cons.prems by simp
  next
    case (Suc m)
    have "\<not> p < snd l" using Cons.prems(2)[of 0] Suc by simp
    moreover have "first_above p ls = Some (fst (ls ! m))" using Cons.IH[of m] Cons.prems Suc Cons.prems(2)[of "Suc _"] by simp
    ultimately show ?thesis using Suc by simp
  qed
qed simp

lemma first_above_none: "(\<forall>l \<in> set ls. snd l \<le> p) \<Longrightarrow> first_above p ls = None"
  by (induction ls) auto

definition even_levels :: "string list \<Rightarrow> (string \<times> rat) list" where
  "even_levels cs = map (\<lambda>(i, s). (s, of_nat (i + 1) * (100 / of_nat (length cs)))) (enumerate 0 cs)"

lemma even_levels_nth: "i < length cs \<Longrightarrow> even_levels cs ! i = (cs ! i, of_nat (i + 1) * (100 / of_nat (length cs)))" "length (even_levels cs) = length cs"
  by (simp_all add: even_levels_def nth_enumerate_eq)

lemma getLevelColors_plain: "getLevelColors (map Plain cs) = even_levels cs"
proof -
  have "map (\<lambda>(i, c). case c of Plain s \<Rightarrow> (s, of_nat (i + 1) * (100 / of_nat (length cs) :: rat)) | Level s q \<Rightarrow> (s, q)) (enumerate 0 (map Plain cs)) = even_levels cs"
    by (rule nth_equalityI) (simp_all add: nth_enumerate_eq even_levels_nth)
  moreover have "sorted (map snd (even_levels cs))"
    by (auto simp: sorted_iff_nth_mono even_levels_nth intro!: divide_right_mono)
  ultimately show ?thesis unfolding getLevelColors_def Let_def length_map by (simp only: sort_key_id_if_sorted)
qed

lemma colour_below:
  assumes "0 \<le> p" "p < 100" "cs \<noteq> []"
  shows "first_above p (even_levels cs) = Some (cs ! nat \<lfloor>p * of_nat (length cs) / 100\<rfloor>)"
proof -
  let ?n = "of_nat (length cs) :: rat" let ?k = "nat \<lfloor>p * ?n / 100\<rfloor>"
  have n: "0 < ?n" using assms(3) by simp
  have k0: "0 \<le> p * ?n / 100" using assms(1) n by simp
  have "p * ?n / 100 < ?n" using assms(2) n by (simp add: divide_less_eq)
  then have "\<lfloor>p * ?n / 100\<rfloor> < int (length cs)" by (simp add: floor_less_iff)
  then have k: "?k < length cs" using k0 by (simp add: nat_less_iff)
  have kf: "(of_nat ?k :: rat) = of_int \<lfloor>p * ?n / 100\<rfloor>" using k0 by simp
  have "p * ?n / 100 < of_nat ?k + 1" unfolding kf by linarith
  then have "p < (of_nat ?k + 1) * (100 / ?n)" using n by (simp add: field_simps)
  then have above: "p < snd (even_levels cs ! ?k)" using k by (simp add: even_levels_nth add.commute)
  have "\<not> p < snd (even_levels cs ! j)" if "j < ?k" for j
  proof -
    have "of_nat (j + 1) \<le> (of_nat ?k :: rat)" using that by (simp only: of_nat_le_iff)
    also have "\<dots> \<le> p * ?n / 100" unfolding kf by linarith
    finally have "of_nat (j + 1) * (100 / ?n) \<le> p" using n by (simp add: field_simps)
    then show ?thesis using that k by (simp add: even_levels_nth)
  qed
  then have "first_above p (even_levels cs) = Some (fst (even_levels cs ! ?k))" using above k by (intro first_above_sorted) (auto simp: even_levels_nth(2))
  then show ?thesis using k by (simp add: even_levels_nth)
qed

lemma colour_from_100: "100 \<le> p \<Longrightarrow> first_above p (even_levels cs) = None"
proof (rule first_above_none, rule ballI)
  fix l assume p: "100 \<le> p" and "l \<in> set (even_levels cs)"
  then obtain i where i: "i < length cs" "l = even_levels cs ! i" by (metis even_levels_nth(2) in_set_conv_nth)
  then have "of_nat (i + 1) \<le> (of_nat (length cs) :: rat)" by (simp only: of_nat_le_iff)
  then have "of_nat (i + 1) * (100 / of_nat (length cs)) \<le> of_nat (length cs) * (100 / of_nat (length cs) :: rat)" by (intro mult_right_mono) simp_all
  then show "snd l \<le> p" using i p by (auto simp: even_levels_nth split: if_splits)
qed

lemma even_levels_last: "cs \<noteq> [] \<Longrightarrow> fst (last (even_levels cs)) = last cs" "even_levels cs = [] \<longleftrightarrow> cs = []"
proof -
  show e: "even_levels cs = [] \<longleftrightarrow> cs = []" by (metis even_levels_nth(2) length_0_conv)
  show "cs \<noteq> [] \<Longrightarrow> fst (last (even_levels cs)) = last cs" using e by (simp add: last_conv_nth even_levels_nth)
qed

text \<open>
  Colours that name no percentage share the range from 0 to 100 in equal parts: a percentage below 100 gets the colour of the part it lies in, where
  the lower end of a part belongs to it, and 100 gets the last colour.\<close>

theorem colours_share_range:
  assumes "cs \<noteq> []" "0 \<le> p"
  shows "getCurrentColor (Colours (map Plain cs)) p = Some (if p < 100 then cs ! nat \<lfloor>p * of_nat (length cs) / 100\<rfloor> else last cs)"
  using assms by (simp add: getCurrentColor_def getLevelColors_plain colour_below colour_from_100 even_levels_last Let_def)

theorem colours_share_range_witness: "getCurrentColor (Colours (map Plain [''red'', ''blue''])) 50 = Some ''blue''"
  using colours_share_range[of "[''red'', ''blue'']" 50] by simp

section \<open>One timer\<close>

definition one_timer :: "hover_zone \<Rightarrow> bool" where
  "one_timer s \<longleftrightarrow> hz_pending s = [] \<or> (\<exists>i. hz_timer s = Some i \<and> hz_pending s = [i])"

text \<open>What is remembered is what is pending.\<close>

definition timer_alive :: "hover_zone \<Rightarrow> bool" where
  "timer_alive s \<longleftrightarrow> hz_pending s = (case hz_timer s of None \<Rightarrow> [] | Some i \<Rightarrow> [i])"

lemmas hover_defs = handleExpand_def handleMouseMove_def clearHoverZone_def clearHoverTimer_def timer_due_def

lemma one_timer_step: "hover_step s s' \<Longrightarrow> one_timer s \<Longrightarrow> one_timer s'"
  by (erule hover_stepE) (auto simp: one_timer_def hover_defs split: option.splits)

lemma timer_alive_step: "hover_step s s' \<Longrightarrow> timer_alive s \<Longrightarrow> hz_mounted s \<Longrightarrow> timer_alive s'"
  by (erule hover_stepE) (auto simp: timer_alive_def hover_defs split: option.splits)

lemma reached_one_timer: "zone_reached s \<Longrightarrow> one_timer s"
  by (induction rule: zone_reached.induct) (simp add: one_timer_def new_zone_def, rule one_timer_step)

text \<open>However the pointer moves, entries open, timers come due and the zone of the menu disappears and comes again, a cascading menu
  never has more than one timer in the window, and a timer that is pending is the one it remembers.  As long as the zone
  exists, every step keeps it true that the remembered timer is pending.  Leaving a menu with a zone empties the zone and
  leaves no timer behind, and so does coming back to the open entry for the timer.\<close>

theorem hover_single_timer:
  assumes "zone_reached s"
  shows "(hz_pending s = [] \<or> hz_timer s = Some (hd (hz_pending s)) \<and> tl (hz_pending s) = []) \<and>
     (hz_mounted s \<and> timer_alive s \<and> hover_step s s' \<longrightarrow> timer_alive s') \<and>
     (hz_mounted s \<longrightarrow> hz_pending (clearHoverZone s) = [] \<and> hz_timer (clearHoverZone s) = None \<and> hz_html (clearHoverZone s) = []) \<and>
     (hz_mounted s \<and> hz_active s = Some e \<and> inside e \<longrightarrow> hz_pending (handleMouseMove True inside x l w h s) = [] \<and> hz_timer (handleMouseMove True inside x l w h s) = None)"
proof -
  have "one_timer s" using assms by (rule reached_one_timer)
  then show ?thesis using timer_alive_step by (auto simp: one_timer_def handleMouseMove_def clearHoverZone_def clearHoverTimer_def split: option.splits)
qed

theorem hover_single_timer_witness:
  "tl (hz_pending (handleMouseMove True (\<lambda>_. False) 5 0 100 50 (handleExpand \<lparr>e_id = 1, e_top = 0, e_height = 20\<rparr> new_zone))) = []"
proof -
  let ?s = "handleMouseMove True (\<lambda>_. False) 5 0 100 50 (handleExpand \<lparr>e_id = 1, e_top = 0, e_height = 20\<rparr> new_zone)"
  have "zone_reached ?s" by (rule zone_step[OF zone_step[OF zone_new hover_expand] hover_move])
  from hover_single_timer[OF this] have "hz_pending ?s = [] \<or> tl (hz_pending ?s) = []" by blast
  then show ?thesis by auto
qed

text \<open>A timer that comes due while the zone is away is never forgotten: after the zone has come again, leaving the open entry
  starts no timer, and the triangles stay until the pointer leaves the menu or comes back to the entry.\<close>

theorem dead_timer_blocks:
  assumes "zone_reached s" "hz_mounted s" "hz_pending s = [i]"
  defines "s' \<equiv> (timer_due i (s\<lparr>hz_mounted := False\<rparr>))\<lparr>hz_mounted := True, hz_html := []\<rparr>"
  shows "zone_reached s' \<and> hz_timer s' = hz_timer s \<and> hz_pending s' = [] \<and> (\<not> inside e \<and> hz_active s' = Some e \<longrightarrow> handleMouseMove True inside x l w h s' = s')"
proof -
  have "hz_timer s = Some i" using reached_one_timer[OF assms(1)] assms(3) by (simp add: one_timer_def)
  have u: "zone_reached (s\<lparr>hz_mounted := False\<rparr>)" by (rule zone_step[OF assms(1) hover_unmount])
  have "i \<in> set (hz_pending (s\<lparr>hz_mounted := False\<rparr>))" using assms(3) by simp
  from zone_step[OF u hover_due[OF this]] have d: "zone_reached (timer_due i (s\<lparr>hz_mounted := False\<rparr>))" .
  have "\<not> hz_mounted (timer_due i (s\<lparr>hz_mounted := False\<rparr>))" by (simp add: timer_due_def clearHoverZone_def)
  from zone_step[OF d hover_mount[OF this]] have "zone_reached s'" unfolding s'_def .
  then show ?thesis using assms(3) \<open>hz_timer s = Some i\<close> by (simp add: s'_def timer_due_def clearHoverZone_def handleMouseMove_def)
qed

end
