(* ===== verification/Time_Picker.thy ===== *)
theory Time_Picker
  imports Js_Library
begin

text \<open>
  The time picker of the component library (\<open>index-e87360db.js\<close>): the values that are disabled and available, the adjustment of a time to what is available,
  and the spinner with its scrolling, its clicks and its keys.  A time is its hours, minutes and seconds; the date around
  it does not change.
\<close>

section \<open>Disabled and available values\<close>

record clock_time =
  t_hour :: nat
  t_minute :: nat
  t_second :: nat

text \<open>What a page says of disabled values: for a role and perhaps a time to compare with.\<close>

record disabled =
  disabledHours :: "(string \<Rightarrow> clock_time option \<Rightarrow> nat list) option"
  disabledMinutes :: "(nat \<Rightarrow> string \<Rightarrow> clock_time option \<Rightarrow> nat list) option"
  disabledSeconds :: "(nat \<Rightarrow> nat \<Rightarrow> string \<Rightarrow> clock_time option \<Rightarrow> nat list) option"

text \<open>\<open>ad\<close>: which of the values below \<open>e\<close> are disabled.\<close>

definition makeList :: "nat \<Rightarrow> nat list option \<Rightarrow> bool list" where
  "makeList e r = map (\<lambda>l. case r of None \<Rightarrow> False | Some ls \<Rightarrow> l \<in> set ls) [0..<e]"

text \<open>\<open>Kw\<close>.\<close>

definition getHoursList :: "disabled \<Rightarrow> string \<Rightarrow> clock_time option \<Rightarrow> bool list" where
  "getHoursList d role c = makeList 24 (map_option (\<lambda>f. f role c) (disabledHours d))"

definition getMinutesList :: "disabled \<Rightarrow> nat \<Rightarrow> string \<Rightarrow> clock_time option \<Rightarrow> bool list" where
  "getMinutesList d h role c = makeList 60 (map_option (\<lambda>f. f h role c) (disabledMinutes d))"

definition getSecondsList :: "disabled \<Rightarrow> nat \<Rightarrow> nat \<Rightarrow> string \<Rightarrow> clock_time option \<Rightarrow> bool list" where
  "getSecondsList d h m role c = makeList 60 (map_option (\<lambda>f. f h m role c) (disabledSeconds d))"

text \<open>\<open>id\<close>: the values that are not disabled.\<close>

definition getAvailableArrs :: "bool list \<Rightarrow> nat list" where
  "getAvailableArrs e = map fst (filter (\<lambda>(r, o'). \<not> o') (enumerate 0 e))"

section \<open>Adjusting a time\<close>

text \<open>\<open>o\<close> of \<open>Hw\<close>: each unit that is not available becomes the first or the last available value; later units depend on the earlier ones.\<close>

definition adjust :: "nat list \<Rightarrow> bool \<Rightarrow> nat \<Rightarrow> nat" where
  "adjust v first x = (if v \<noteq> [] \<and> x \<notin> set v then (if first then v ! 0 else v ! (length v - 1)) else x)"

definition getAvailableTime :: "disabled \<Rightarrow> string \<Rightarrow> bool \<Rightarrow> clock_time option \<Rightarrow> clock_time \<Rightarrow> clock_time" where
  "getAvailableTime d role first c s =
     (let f1 = s\<lparr>t_hour := adjust (getAvailableArrs (getHoursList d role c)) first (t_hour s)\<rparr>;
          f2 = f1\<lparr>t_minute := adjust (getAvailableArrs (getMinutesList d (t_hour f1) role c)) first (t_minute f1)\<rparr> in
      f2\<lparr>t_second := adjust (getAvailableArrs (getSecondsList d (t_hour f2) (t_minute f2) role c)) first (t_second f2)\<rparr>)"

section \<open>The spinner\<close>

datatype time_unit = Hours | Minutes | Seconds

definition unit_value :: "time_unit \<Rightarrow> clock_time \<Rightarrow> nat" where
  "unit_value u t = (case u of Hours \<Rightarrow> t_hour t | Minutes \<Rightarrow> t_minute t | Seconds \<Rightarrow> t_second t)"

definition set_unit :: "time_unit \<Rightarrow> nat \<Rightarrow> clock_time \<Rightarrow> clock_time" where
  "set_unit u v t = (case u of Hours \<Rightarrow> t\<lparr>t_hour := v\<rparr> | Minutes \<Rightarrow> t\<lparr>t_minute := v\<rparr> | Seconds \<Rightarrow> t\<lparr>t_second := v\<rparr>)"

definition unit_total :: "time_unit \<Rightarrow> nat" where
  "unit_total u = (if u = Hours then 24 else 60)"

text \<open>\<open>h\<close>: what is disabled around the time of the spinner.\<close>

definition timeList :: "disabled \<Rightarrow> string \<Rightarrow> clock_time \<Rightarrow> time_unit \<Rightarrow> bool list" where
  "timeList d role t u = (case u of Hours \<Rightarrow> getHoursList d role None | Minutes \<Rightarrow> getMinutesList d (t_hour t) role None
     | Seconds \<Rightarrow> getSecondsList d (t_hour t) (t_minute t) role None)"

text \<open>\<open>y\<close> and \<open>sd\<close>: the value with its neighbours.\<close>

definition buildTimeList :: "nat \<Rightarrow> nat \<Rightarrow> nat option list" where
  "buildTimeList v bound = [if 0 < v then Some (v - 1) else None, Some v, if v < bound then Some (v + 1) else None]"

definition arrowListMap :: "clock_time \<Rightarrow> time_unit \<Rightarrow> nat option list" where
  "arrowListMap t u = (case u of Hours \<Rightarrow> buildTimeList (t_hour t) 23 | Minutes \<Rightarrow> buildTimeList (t_minute t) 59 | Seconds \<Rightarrow> buildTimeList (t_second t) 59)"

text \<open>\<open>b\<close> and the text of an entry; the mode is none, small or capital letters.\<close>

datatype ampm = No_AmPm | Small_AmPm | Capital_AmPm

definition getAmPmFlag :: "ampm \<Rightarrow> nat \<Rightarrow> string" where
  "getAmPmFlag mode hour = (case mode of No_AmPm \<Rightarrow> []
     | Small_AmPm \<Rightarrow> if hour < 12 then '' am'' else '' pm''
     | Capital_AmPm \<Rightarrow> if hour < 12 then '' AM'' else '' PM'')"

definition two_digits :: "nat \<Rightarrow> string" where
  "two_digits n = (let t = CHR ''0'' # string_of_nat n in drop (length t - 2) t)"

definition entry_text :: "ampm \<Rightarrow> time_unit \<Rightarrow> nat \<Rightarrow> string" where
  "entry_text mode u n = (if u = Hours
     then two_digits (if mode = No_AmPm then n else if n mod 12 = 0 then 12 else n mod 12) @ getAmPmFlag mode n else two_digits n)"

text \<open>\<open>C\<close>: the characters of a unit in the text of a time.\<close>

definition select_range :: "time_unit \<Rightarrow> nat \<times> nat" where
  "select_range u = (case u of Hours \<Rightarrow> (0, 2) | Minutes \<Rightarrow> (3, 5) | Seconds \<Rightarrow> (6, 8))"

text \<open>\<open>P\<close>: the next value in a direction that is not disabled, or the value itself when the search comes round to it.  The code passes the
  steps 1 and -1 only; from a value of the unit, a step that is not below minus the number of values leaves nothing negative to take the
  remainder of, and the remainder of the language is \<open>mod\<close>.\<close>

partial_function (option) skip_disabled :: "bool list \<Rightarrow> int \<Rightarrow> int \<Rightarrow> int \<Rightarrow> int \<Rightarrow> int option" where
  "skip_disabled fe j X B ee = (if fe ! nat ee \<and> ee \<noteq> B then skip_disabled fe j X B ((ee + j + X) mod X) else Some ee)"

definition findNextUnDisabled :: "bool list \<Rightarrow> int \<Rightarrow> int \<Rightarrow> int \<Rightarrow> int option" where
  "findNextUnDisabled fe B j X = skip_disabled fe j X B ((B + j + X) mod X)"

text \<open>The state: the unit that is selected, the time, the times that were emitted and the ranges that were selected.\<close>

record spinner =
  sp_current :: "time_unit option"
  sp_date :: clock_time
  sp_changes :: "clock_time list"
  sp_ranges :: "(nat \<times> nat) list"

definition emitSelectRange :: "time_unit \<Rightarrow> spinner \<Rightarrow> spinner" where
  "emitSelectRange u s = s\<lparr>sp_ranges := sp_ranges s @ [select_range u], sp_current := Some u\<rparr>"

text \<open>\<open>L\<close>: a disabled value is refused, another one is emitted as a new time.\<close>

definition modifyDateField :: "disabled \<Rightarrow> string \<Rightarrow> time_unit \<Rightarrow> nat \<Rightarrow> spinner \<Rightarrow> spinner" where
  "modifyDateField d role u v s = (if timeList d role (sp_date s) u ! v then s else s\<lparr>sp_changes := sp_changes s @ [set_unit u v (sp_date s)]\<rparr>)"

text \<open>\<open>I\<close> with the steps \<open>R\<close> and \<open>x\<close>; None is a search that does not end.\<close>

definition scrollDown :: "disabled \<Rightarrow> string \<Rightarrow> int \<Rightarrow> spinner \<Rightarrow> spinner option" where
  "scrollDown d role step s0 =
     (let s = (if sp_current s0 = None then emitSelectRange Hours s0 else s0) in
      case sp_current s of None \<Rightarrow> None
      | Some u \<Rightarrow> map_option (\<lambda>ee. emitSelectRange u (modifyDateField d role u (nat ee) s))
          (findNextUnDisabled (timeList d role (sp_date s) u) (int (unit_value u (sp_date s))) step (int (unit_total u))))"

text \<open>\<open>V\<close>.\<close>

definition handleClick :: "disabled \<Rightarrow> string \<Rightarrow> time_unit \<Rightarrow> nat \<Rightarrow> bool \<Rightarrow> spinner \<Rightarrow> spinner" where
  "handleClick d role u v dis s = (if dis then s else emitSelectRange u (modifyDateField d role u v s))"

text \<open>\<open>N\<close> of the panel: a time that the spinner emits is adjusted before it is picked.\<close>

definition panel_pick :: "disabled \<Rightarrow> string \<Rightarrow> clock_time \<Rightarrow> clock_time" where
  "panel_pick d role t = getAvailableTime d role True None t"

text \<open>\<open>R\<close> of the panel: the keys left and right go round the units.\<close>

definition changeSelectionRange :: "bool \<Rightarrow> nat \<times> nat \<Rightarrow> int \<Rightarrow> time_unit" where
  "changeSelectionRange seconds h step =
     (let e = [0, 3] @ (if seconds then [6] else []); b = [Hours, Minutes] @ (if seconds then [Seconds] else []);
          i = (if fst h \<in> set e then int (length (takeWhile (\<lambda>x. x \<noteq> fst h) e)) else - 1) in
      b ! nat ((i + step + int (length e)) mod int (length e)))"

section \<open>An adjusted time is available\<close>

lemma set_getAvailableArrs: "set (getAvailableArrs e) = {r. r < length e \<and> \<not> e ! r}"
  by (auto simp: getAvailableArrs_def in_set_enumerate_eq image_iff)

definition unit_ok :: "bool list \<Rightarrow> nat \<Rightarrow> bool" where
  "unit_ok e x \<longleftrightarrow> list_all id e \<or> x < length e \<and> \<not> e ! x"

definition time_ok :: "disabled \<Rightarrow> string \<Rightarrow> clock_time option \<Rightarrow> clock_time \<Rightarrow> bool" where
  "time_ok d role c t \<longleftrightarrow> unit_ok (getHoursList d role c) (t_hour t) \<and> unit_ok (getMinutesList d (t_hour t) role c) (t_minute t)
     \<and> unit_ok (getSecondsList d (t_hour t) (t_minute t) role c) (t_second t)"

lemma none_available: "getAvailableArrs e = [] \<longleftrightarrow> list_all id e"
proof -
  have "getAvailableArrs e = [] \<longleftrightarrow> set (getAvailableArrs e) = {}" by simp
  then show ?thesis unfolding set_getAvailableArrs by (auto simp: list_all_length)
qed

lemma adjust_ok: "unit_ok e (adjust (getAvailableArrs e) first x)"
proof (cases "getAvailableArrs e = []")
  case True
  then show ?thesis by (simp add: unit_ok_def none_available)
next
  case False
  then have "adjust (getAvailableArrs e) first x \<in> set (getAvailableArrs e)" by (auto simp: adjust_def)
  then show ?thesis by (simp add: unit_ok_def set_getAvailableArrs)
qed

lemma adjust_id: "unit_ok e x \<Longrightarrow> adjust (getAvailableArrs e) first x = x"
  by (auto simp: adjust_def unit_ok_def none_available[symmetric] set_getAvailableArrs)

text \<open>C28: The time that the picker makes of any time is one that the page allows: every unit has an available value, given the units before it, unless
  the page disables all values of the unit.  A time that is allowed already is not changed.\<close>

theorem adjusted_time_available:
  "time_ok d role c (getAvailableTime d role first c t) \<and> (time_ok d role c t \<longrightarrow> getAvailableTime d role first c t = t)"
  by (simp add: time_ok_def getAvailableTime_def Let_def adjust_ok adjust_id)

text \<open>A time that is allowed: the first hour is disabled, and the time is adjusted to the second.\<close>

theorem adjusted_time_available_witness:
  "t_hour (getAvailableTime \<lparr>disabledHours = Some (\<lambda>_ _. [0]), disabledMinutes = None, disabledSeconds = None\<rparr> [] True None \<lparr>t_hour = 1, t_minute = 5, t_second = 0\<rparr>) = 1"
proof -
  let ?d = "\<lparr>disabledHours = Some (\<lambda>_ _. [0]), disabledMinutes = None, disabledSeconds = None\<rparr>"
  have "time_ok ?d [] None \<lparr>t_hour = 1, t_minute = 5, t_second = 0\<rparr>"
    by (simp add: time_ok_def unit_ok_def getHoursList_def getMinutesList_def getSecondsList_def makeList_def)
  then show ?thesis using adjusted_time_available[of ?d "[]" None True "\<lparr>t_hour = 1, t_minute = 5, t_second = 0\<rparr>"] by simp
qed

section \<open>The search comes to an end\<close>

lemma skip_from:
  assumes "0 < X" "0 \<le> B" "B < X" "i \<le> n" "int n = X"
  shows "\<exists>k. i \<le> k \<and> k \<le> n \<and> skip_disabled fe j X B ((B + int i * j) mod X) = Some ((B + int k * j) mod X) \<and>
    (fe ! nat ((B + int k * j) mod X) \<longrightarrow> (B + int k * j) mod X = B) \<and> (\<forall>l. i \<le> l \<and> l < k \<longrightarrow> fe ! nat ((B + int l * j) mod X))"
  using assms(4)
proof (induction i rule: inc_induct)
  case base
  have "(B + int n * j) mod X = B" using assms by (simp add: mult.commute)
  then have "skip_disabled fe j X B ((B + int n * j) mod X) = Some ((B + int n * j) mod X)" by (simp add: skip_disabled.simps)
  then show ?case using \<open>(B + int n * j) mod X = B\<close> by (intro exI[of _ n]) auto
next
  case (step i)
  let ?e = "(B + int i * j) mod X"
  show ?case
  proof (cases "fe ! nat ?e \<and> ?e \<noteq> B")
    case True
    have "(?e + j + X) mod X = (B + int (Suc i) * j) mod X" by (simp add: mod_simps algebra_simps)
    then have "skip_disabled fe j X B ?e = skip_disabled fe j X B ((B + int (Suc i) * j) mod X)" using True by (subst skip_disabled.simps) simp
    then show ?thesis using step.IH True by (metis Suc_leD le_antisym not_less_eq_eq)
  next
    case False
    then have "skip_disabled fe j X B ?e = Some ?e" by (subst skip_disabled.simps) auto
    then show ?thesis using False step.hyps by (intro exI[of _ i]) auto
  qed
qed

lemma next_value_found:
  assumes "0 \<le> B" "B < X"
  shows "\<exists>k. 1 \<le> k \<and> int k \<le> X \<and> findNextUnDisabled fe B j X = Some ((B + int k * j) mod X) \<and>
    (fe ! nat ((B + int k * j) mod X) \<longrightarrow> (B + int k * j) mod X = B) \<and> (\<forall>l. 1 \<le> l \<and> l < k \<longrightarrow> fe ! nat ((B + int l * j) mod X))"
proof -
  have "(B + j + X) mod X = (B + int 1 * j) mod X" by simp
  then show ?thesis unfolding findNextUnDisabled_def using skip_from[of X B 1 "nat X" fe j] assms by auto
qed

text \<open>C24: A step of the arrows or of the keys always ends, within one round of the values.  It goes to the first value in its direction that is not disabled and emits the
  time with it; if all other values are disabled it stays where it is, and emits nothing if that value is disabled too.\<close>

theorem spinner_step_ends:
  assumes "sp_current s = Some u" "unit_value u (sp_date s) < unit_total u"
    and "at = (\<lambda>k. nat ((int (unit_value u (sp_date s)) + int k * step) mod int (unit_total u)))"
  shows "\<exists>k. 1 \<le> k \<and> k \<le> unit_total u \<and> (\<forall>l. 1 \<le> l \<and> l < k \<longrightarrow> timeList d role (sp_date s) u ! at l) \<and>
    (timeList d role (sp_date s) u ! at k \<longrightarrow> at k = unit_value u (sp_date s)) \<and>
    scrollDown d role step s = Some (emitSelectRange u
      (if timeList d role (sp_date s) u ! at k then s else s\<lparr>sp_changes := sp_changes s @ [set_unit u (at k) (sp_date s)]\<rparr>))"
  using next_value_found[of "int (unit_value u (sp_date s))" "int (unit_total u)" "timeList d role (sp_date s) u" step] assms
  by (auto simp: scrollDown_def modifyDateField_def)

theorem spinner_step_ends_witness:
  "\<exists>s'. scrollDown \<lparr>disabledHours = Some (\<lambda>_ _. [2, 3]), disabledMinutes = None, disabledSeconds = None\<rparr> ''start'' 1
     \<lparr>sp_current = Some Hours, sp_date = \<lparr>t_hour = 1, t_minute = 0, t_second = 0\<rparr>, sp_changes = [], sp_ranges = []\<rparr> = Some s'"
proof -
  define s :: spinner where "s = \<lparr>sp_current = Some Hours, sp_date = \<lparr>t_hour = 1, t_minute = 0, t_second = 0\<rparr>, sp_changes = [], sp_ranges = []\<rparr>"
  have "sp_current s = Some Hours" "unit_value Hours (sp_date s) < unit_total Hours" by (simp_all add: s_def unit_value_def unit_total_def)
  from spinner_step_ends[OF this refl] show ?thesis unfolding s_def by blast
qed

end
