(* ===== verification/Rich_Text.thy ===== *)
theory Rich_Text
  imports Text_Layout
begin

text \<open>
  Rich text of charts (\<open>home-296339b0.js\<close>, lines 14, 15, 23 and 26 to 28): a text with styled parts \<open>{name|text}\<close> is cut into segments and
  its segments into the tokens of its lines; and the boxes of texts and the places of labels.  The measuring of a
  text in a font is the argument \<open>We\<close>.
\<close>

section \<open>Segments\<close>

text \<open>\<open>hv\<close>: the pattern of a styled part, at the start of a text; the name, the text and what is left.\<close>

definition name_char :: "char \<Rightarrow> bool" where
  "name_char c \<longleftrightarrow> (let n = (of_char c :: nat) in 97 \<le> n \<and> n \<le> 122 \<or> 65 \<le> n \<and> n \<le> 90 \<or> 48 \<le> n \<and> n \<le> 57 \<or> n = 95)"

definition match_styled :: "string \<Rightarrow> (string \<times> string \<times> string) option" where
  "match_styled s = (case s of [] \<Rightarrow> None
     | c # r \<Rightarrow>
         let name = takeWhile name_char r; r1 = dropWhile name_char r in
         if c \<noteq> CHR ''{'' \<or> name = [] then None
         else (case r1 of [] \<Rightarrow> None
           | b # r2 \<Rightarrow>
               let body = takeWhile (\<lambda>x. x \<noteq> CHR 0x7D) r2; r3 = dropWhile (\<lambda>x. x \<noteq> CHR 0x7D) r2 in
               if b \<noteq> CHR 0x7C \<or> r3 = [] then None else Some (name, body, tl r3)))"

lemma name_char_bar: "\<not> name_char (CHR 0x7C)" "\<not> name_char (CHR 0x7D)"
  by (simp_all add: name_char_def)

lemma split_at_char: "c \<notin> set b \<Longrightarrow> takeWhile (\<lambda>x. x \<noteq> c) (b @ c # r) = b \<and> dropWhile (\<lambda>x. x \<noteq> c) (b @ c # r) = c # r"
  by (induction b) auto

lemma match_styled_printed:
  assumes "n \<noteq> []" "list_all name_char n" "CHR 0x7D \<notin> set b"
  shows "match_styled (CHR ''{'' # n @ CHR 0x7C # b @ CHR 0x7D # r) = Some (n, b, r)"
proof -
  have "takeWhile name_char (n @ CHR 0x7C # b @ CHR 0x7D # r) = n" "dropWhile name_char (n @ CHR 0x7C # b @ CHR 0x7D # r) = CHR 0x7C # b @ CHR 0x7D # r"
    using assms(2) by (simp_all add: takeWhile_append2 dropWhile_append2 list_all_iff name_char_bar)
  moreover have "takeWhile (\<lambda>x. x \<noteq> CHR 0x7D) (b @ CHR 0x7D # r) = b" "dropWhile (\<lambda>x. x \<noteq> CHR 0x7D) (b @ CHR 0x7D # r) = CHR 0x7D # r"
    using split_at_char[OF assms(3)] by blast+
  ultimately show ?thesis using assms(1) by (simp add: match_styled_def)
qed

lemma match_styled_form:
  assumes "match_styled s = Some (n, b, r)"
  shows "s = CHR ''{'' # n @ CHR 0x7C # b @ CHR 0x7D # r" "n \<noteq> []" "list_all name_char n" "CHR 0x7D \<notin> set b"
proof -
  obtain c r0 where s: "s = c # r0" using assms by (cases s) (auto simp: match_styled_def)
  have c: "c = CHR ''{''" "takeWhile name_char r0 \<noteq> []" using assms unfolding s match_styled_def by (auto simp: Let_def split: if_splits)
  obtain d r2 where d: "dropWhile name_char r0 = d # r2" using assms c unfolding s match_styled_def by (auto simp: Let_def split: list.splits)
  have e: "d = CHR 0x7C" "dropWhile (\<lambda>x. x \<noteq> CHR 0x7D) r2 \<noteq> []" and f: "n = takeWhile name_char r0" "b = takeWhile (\<lambda>x. x \<noteq> CHR 0x7D) r2" "r = tl (dropWhile (\<lambda>x. x \<noteq> CHR 0x7D) r2)"
    using assms c unfolding s match_styled_def by (auto simp: Let_def d split: if_splits)
  have "dropWhile (\<lambda>x. x \<noteq> CHR 0x7D) r2 = CHR 0x7D # r" using e(2) f(3) hd_dropWhile[OF e(2)] by (metis list.collapse)
  then have "r2 = b @ CHR 0x7D # r" using f(2) by (metis takeWhile_dropWhile_id)
  moreover have "r0 = n @ CHR 0x7C # r2" using d e(1) f(1) by (metis takeWhile_dropWhile_id)
  ultimately show "s = CHR ''{'' # n @ CHR 0x7C # b @ CHR 0x7D # r" using s c(1) by simp
  show "n \<noteq> []" "list_all name_char n" "CHR 0x7D \<notin> set b" using c(2) f(1,2) by (auto simp: list_all_iff dest: set_takeWhileD)
qed

lemma match_styled_shorter: "match_styled s = Some (n, b, r) \<Longrightarrow> length r < length s"
  by (drule match_styled_form(1)) simp

text \<open>The loop of \<open>dR\<close> over the matches: the text between two of them is a segment without a name.\<close>

function segments_from :: "string \<Rightarrow> string \<Rightarrow> (string option \<times> string) list" where
  "segments_from plain s = (case match_styled s of
     Some (n, b, r) \<Rightarrow> (if plain = [] then [] else [(None, plain)]) @ (Some n, b) # segments_from [] r
   | None \<Rightarrow> (case s of [] \<Rightarrow> if plain = [] then [] else [(None, plain)] | c # r \<Rightarrow> segments_from (plain @ [c]) r))"
  by pat_completeness auto
termination by (relation "measure (\<lambda>(p, s). length s)") (auto dest: match_styled_shorter)

declare segments_from.simps [simp del]

definition segments :: "string \<Rightarrow> (string option \<times> string) list" where
  "segments s = segments_from [] s"

section \<open>Tokens\<close>

datatype style_width = No_Width | Auto_Width | Number_Width rat | Percent_Width rat | Text_Width rat

record rich_style =
  rs_font :: "string option"
  rs_padding :: "(rat \<times> rat \<times> rat \<times> rat) option"
  rs_width :: style_width
  rs_height :: "rat option"
  rs_lineHeight :: "rat option"
  rs_align :: string
  rs_verticalAlign :: string
  rs_image :: "(rat \<times> rat) option"

text \<open>A missing alignment is the empty text; the image of the background is its width and height once it is loaded.\<close>

definition no_style :: rich_style where
  "no_style = \<lparr>rs_font = None, rs_padding = None, rs_width = No_Width, rs_height = None, rs_lineHeight = None, rs_align = [], rs_verticalAlign = [], rs_image = None\<rparr>"

record token =
  tk_style :: "string option"
  tk_text :: string
  tk_lineHolder :: bool
  tk_width :: rat

text \<open>\<open>o\<close> of \<open>dR\<close>: how a text is wrapped.\<close>

record wrap_info =
  wi_width :: rat
  wi_accumWidth :: rat
  wi_breakAll :: bool

text \<open>\<open>wr\<close>: a width in percent is one of the whole.\<close>

definition parsePercent :: "style_width \<Rightarrow> rat \<Rightarrow> rat" where
  "parsePercent w whole = (case w of Percent_Width p \<Rightarrow> p / 100 * whole | Number_Width x \<Rightarrow> x | Text_Width x \<Rightarrow> x | _ \<Rightarrow> 0)"

definition style_of :: "(string \<times> rich_style) list \<Rightarrow> string option \<Rightarrow> rich_style" where
  "style_of rich n = (case n of None \<Rightarrow> no_style | Some m \<Rightarrow> if m = [] then no_style else (case map_of rich m of Some s \<Rightarrow> s | None \<Rightarrow> no_style))"

definition padding_h :: "rich_style \<Rightarrow> rat" where
  "padding_h o' = (case rs_padding o' of None \<Rightarrow> 0 | Some (t, r, b, l) \<Rightarrow> r + l)"

text \<open>The pieces of a segment, whether they start a new line, their widths if they are known, and the wrapping after them.  Inl is the
  exception of pieces that were never assigned.\<close>

definition segment_pieces :: "(string \<Rightarrow> string \<Rightarrow> rat) \<Rightarrow> string \<Rightarrow> rich_style \<Rightarrow> bool \<Rightarrow> string \<Rightarrow> wrap_info option \<Rightarrow>
    unit + (string list \<times> bool \<times> rat list option \<times> wrap_info option)" where
  "segment_pieces We font o' first e a = (case a of
     None \<Rightarrow> Inr (pieces (CHR 0x0A) e, False, None, None)
   | Some w \<Rightarrow>
       if rs_width o' \<noteq> No_Width \<and> rs_width o' \<noteq> Auto_Width
       then (let p = parsePercent (rs_width o') (wi_width w) + padding_h o' in
             if \<not> first \<and> p + wi_accumWidth w > wi_width w then Inr (pieces (CHR 0x0A) e, True, None, Some (w\<lparr>wi_accumWidth := p\<rparr>)) else Inl ())
       else (let d = wrapText (We font) e (wi_width w) (wi_breakAll w) (wi_accumWidth w) in
             Inr (lines d, False, Some (linesWidths d), Some (w\<lparr>wi_accumWidth := accumWidth d + padding_h o'\<rparr>))))"

text \<open>The first piece joins the last line, unless it starts a new one; a place holder gives way to it, and an empty piece is left out of a line that has
  tokens.\<close>

definition join_piece :: "bool \<Rightarrow> token \<Rightarrow> token list list \<Rightarrow> token list list" where
  "join_piece blank m ls =
     (let ls' = (if ls = [] then [[]] else ls); ts = last ls' in
      butlast ls' @ [if length ts = 1 \<and> tk_lineHolder (ts ! 0) then [m] else if tk_text m \<noteq> [] \<or> ts = [] \<or> blank then ts @ [m] else ts])"

definition piece_token :: "(string \<Rightarrow> string \<Rightarrow> rat) \<Rightarrow> string \<Rightarrow> rich_style \<Rightarrow> string option \<Rightarrow> bool \<Rightarrow> rat list option \<Rightarrow> nat \<Rightarrow> string \<Rightarrow> token" where
  "piece_token We font o' n blank ws g y =
     \<lparr>tk_style = n, tk_text = y, tk_lineHolder = (y = [] \<and> \<not> blank),
      tk_width = (case rs_width o' of Number_Width x \<Rightarrow> x | _ \<Rightarrow> (case ws of Some h \<Rightarrow> h ! g | None \<Rightarrow> We font y))\<rparr>"

text \<open>\<open>vv\<close>.\<close>

definition pushTokens :: "(string \<Rightarrow> string \<Rightarrow> rat) \<Rightarrow> string \<Rightarrow> (string \<times> rich_style) list \<Rightarrow> string option \<times> string \<Rightarrow>
    token list list \<times> wrap_info option \<Rightarrow> unit + (token list list \<times> wrap_info option)" where
  "pushTokens We font rich seg state =
     (let (n, e) = seg; (ls, a) = state; blank = (e = []); o' = style_of rich n;
          l = (case rs_font o' of Some f \<Rightarrow> f | None \<Rightarrow> font) in
      case segment_pieces We l o' (ls = []) e a of
        Inl _ \<Rightarrow> Inl ()
      | Inr (f, u, ws, a') \<Rightarrow>
          Inr (fold (\<lambda>(g, y) acc. let m = piece_token We l o' n blank ws g y in
                 if g = 0 \<and> \<not> u then join_piece blank m acc else acc @ [[m]]) (enumerate 0 f) ls, a'))"

text \<open>The first part of \<open>dR\<close>: all segments, one after the other; \<open>overflow\<close> and \<open>width\<close> decide about wrapping.\<close>

datatype overflow = Overflow_None | Overflow_Break | Overflow_BreakAll | Overflow_Truncate

fun push_all :: "(string \<Rightarrow> string \<Rightarrow> rat) \<Rightarrow> string \<Rightarrow> (string \<times> rich_style) list \<Rightarrow> (string option \<times> string) list \<Rightarrow>
    token list list \<times> wrap_info option \<Rightarrow> unit + (token list list \<times> wrap_info option)" where
  "push_all We font rich [] st = Inr st"
| "push_all We font rich (s # ss) st = (case pushTokens We font rich s st of Inl e \<Rightarrow> Inl e | Inr st' \<Rightarrow> push_all We font rich ss st')"

definition wrap_of :: "overflow \<Rightarrow> rat option \<Rightarrow> wrap_info option" where
  "wrap_of ov width = (case width of None \<Rightarrow> None
     | Some w \<Rightarrow> if ov = Overflow_Break \<or> ov = Overflow_BreakAll then Some \<lparr>wi_width = w, wi_accumWidth = 0, wi_breakAll = (ov = Overflow_BreakAll)\<rparr> else None)"

text \<open>The options of a rich text: those of the whole and the styles of its parts.\<close>

record rich_options =
  ro_font :: string
  ro_rich :: "(string \<times> rich_style) list"
  ro_width :: "rat option"
  ro_height :: "rat option"
  ro_overflow :: overflow
  ro_lineTruncate :: bool
  ro_padding :: "(rat \<times> rat \<times> rat \<times> rat) option"
  ro_lineHeight :: "rat option"
  ro_align :: string
  ro_ellipsis :: "string option"
  ro_minChar :: nat

definition rich_tokens :: "(string \<Rightarrow> string \<Rightarrow> rat) \<Rightarrow> rich_options \<Rightarrow> string \<Rightarrow> unit + token list list" where
  "rich_tokens We e r = (case push_all We (ro_font e) (ro_rich e) (segments r) ([], wrap_of (ro_overflow e) (ro_width e)) of Inl x \<Rightarrow> Inl x | Inr (ls, _) \<Rightarrow> Inr ls)"

section \<open>Laying out the tokens\<close>

text \<open>The second part of \<open>dR\<close>: the sizes of the tokens, line by line.  The argument \<open>cn\<close> is the character whose width is the height of a line.\<close>

record laid = token +
  tk_padding :: "(rat \<times> rat \<times> rat \<times> rat) option"
  tk_font :: string
  tk_contentHeight :: rat
  tk_innerHeight :: rat
  tk_height :: rat
  tk_lineHeight :: rat
  tk_align :: string
  tk_verticalAlign :: string
  tk_contentWidth :: rat
  tk_percent :: "rat option"

definition token_font :: "rich_options \<Rightarrow> token \<Rightarrow> string" where
  "token_font e x = (case rs_font (style_of (ro_rich e) (tk_style x)) of Some f \<Rightarrow> f | None \<Rightarrow> ro_font e)"

definition token_inner :: "(string \<Rightarrow> string \<Rightarrow> rat) \<Rightarrow> string \<Rightarrow> rich_options \<Rightarrow> token \<Rightarrow> rat" where
  "token_inner We cn e x = (case rs_height (style_of (ro_rich e) (tk_style x)) of Some h \<Rightarrow> h | None \<Rightarrow> We (token_font e x) cn)"

definition token_outer :: "(string \<Rightarrow> string \<Rightarrow> rat) \<Rightarrow> string \<Rightarrow> rich_options \<Rightarrow> token \<Rightarrow> rat" where
  "token_outer We cn e x = token_inner We cn e x + (case rs_padding (style_of (ro_rich e) (tk_style x)) of None \<Rightarrow> 0 | Some (t, r, b, l) \<Rightarrow> t + b)"

definition token_line :: "(string \<Rightarrow> string \<Rightarrow> rat) \<Rightarrow> string \<Rightarrow> rich_options \<Rightarrow> token \<Rightarrow> rat" where
  "token_line We cn e x = (case rs_lineHeight (style_of (ro_rich e) (tk_style x)) of Some h \<Rightarrow> h
     | None \<Rightarrow> (case ro_lineHeight e of Some h \<Rightarrow> h | None \<Rightarrow> token_outer We cn e x))"

text \<open>The text and the two widths of a token that starts at \<open>S\<close> in its line, before the padding is added.\<close>

definition token_extent :: "(string \<Rightarrow> string \<Rightarrow> rat) \<Rightarrow> string \<Rightarrow> rich_options \<Rightarrow> rat \<Rightarrow> token \<Rightarrow> string \<times> rat \<times> rat" where
  "token_extent We cn e S x =
     (let b = style_of (ro_rich e) (tk_style x); A = padding_h b; C = token_font e x; D = token_outer We cn e x; own = We C (tk_text x);
          free = (rs_width b = No_Width \<or> rs_width b = Auto_Width);
          w = (case rs_image b of Some (iw, ih) \<Rightarrow> if free \<and> iw \<noteq> 0 \<and> ih \<noteq> 0 then max (tk_width x) (iw * D / ih) else tk_width x | None \<Rightarrow> tk_width x) in
      case rs_width b of Percent_Width p \<Rightarrow> (tk_text x, tk_width x, own)
      | _ \<Rightarrow> (case ro_width e of
          Some a \<Rightarrow>
            if ro_overflow e = Overflow_Truncate \<and> a - S < w
            then if \<not> free \<or> a - S < A then ([], 0, 0)
                 else (let y = truncateText (We C) cn (tk_text x) (a - S - A) (ro_ellipsis e) 2 (ro_minChar e) [] in (y, We C y, We C y))
            else (tk_text x, w, own)
        | None \<Rightarrow> (tk_text x, w, own)))"

definition lay_token :: "(string \<Rightarrow> string \<Rightarrow> rat) \<Rightarrow> string \<Rightarrow> rich_options \<Rightarrow> rat \<Rightarrow> token \<Rightarrow> laid" where
  "lay_token We cn e S x =
     (let b = style_of (ro_rich e) (tk_style x); (y, w, cw) = token_extent We cn e S x in
      \<lparr>tk_style = tk_style x, tk_text = y, tk_lineHolder = tk_lineHolder x, tk_width = w + padding_h b,
       tk_padding = rs_padding b, tk_font = token_font e x, tk_contentHeight = We (token_font e x) cn, tk_innerHeight = token_inner We cn e x,
       tk_height = token_outer We cn e x, tk_lineHeight = token_line We cn e x, tk_align = (if rs_align b = [] then ro_align e else rs_align b),
       tk_verticalAlign = (if rs_verticalAlign b = [] then ''middle'' else rs_verticalAlign b), tk_contentWidth = cw,
       tk_percent = (case rs_width b of Percent_Width p \<Rightarrow> Some p | _ \<Rightarrow> None)\<rparr>)"

text \<open>The tokens of a line, its width and height, and whether a token does not fit into the height of the text any more.\<close>

definition too_high :: "(string \<Rightarrow> string \<Rightarrow> rat) \<Rightarrow> string \<Rightarrow> rich_options \<Rightarrow> rat \<Rightarrow> token \<Rightarrow> bool" where
  "too_high We cn e h x \<longleftrightarrow> ro_lineTruncate e \<and> (case ro_height e of Some n \<Rightarrow> h + token_line We cn e x > n | None \<Rightarrow> False)"

fun lay_tokens :: "(string \<Rightarrow> string \<Rightarrow> rat) \<Rightarrow> string \<Rightarrow> rich_options \<Rightarrow> rat \<Rightarrow> rat \<Rightarrow> rat \<Rightarrow> token list \<Rightarrow> laid list \<times> rat \<times> rat \<times> bool" where
  "lay_tokens We cn e h S m [] = ([], S, m, False)"
| "lay_tokens We cn e h S m (x # xs) =
     (if too_high We cn e h x then ([], S, m, True)
      else let y = lay_token We cn e S x; (ys, S', m', c) = lay_tokens We cn e h (S + tk_width y) (max m (tk_lineHeight y)) xs in (y # ys, S', m', c))"

record rich_line =
  rl_tokens :: "laid list"
  rl_width :: rat
  rl_lineHeight :: rat

text \<open>\<open>h\<close> is the height and \<open>v\<close> the greatest width of the lines so far; the first token that is too high ends the text.\<close>

fun lay_lines :: "(string \<Rightarrow> string \<Rightarrow> rat) \<Rightarrow> string \<Rightarrow> rich_options \<Rightarrow> rat \<Rightarrow> rat \<Rightarrow> token list list \<Rightarrow> rich_line list \<times> rat \<times> rat" where
  "lay_lines We cn e h v [] = ([], h, v)"
| "lay_lines We cn e h v (ts # ls) =
     (let (ys, S, m, cut) = lay_tokens We cn e h 0 0 ts; l = \<lparr>rl_tokens = ys, rl_width = S, rl_lineHeight = m\<rparr> in
      if cut then (if ys = [] then ([], h, v) else ([l], h + m, max v S))
      else let (ls', h', v') = lay_lines We cn e (h + m) (max v S) ls in (l # ls', h', v'))"

record rich_content =
  rc_lines :: "rich_line list"
  rc_width :: rat
  rc_height :: rat
  rc_contentWidth :: rat
  rc_contentHeight :: rat
  rc_outerWidth :: rat
  rc_outerHeight :: rat

text \<open>A width in percent is read as a whole number and taken of the width of the text, once that is known.\<close>

definition percent_width :: "rat \<Rightarrow> laid \<Rightarrow> laid" where
  "percent_width w x = (case tk_percent x of None \<Rightarrow> x | Some p \<Rightarrow> x\<lparr>tk_width := of_int (if 0 \<le> p then \<lfloor>p\<rfloor> else \<lceil>p\<rceil>) / 100 * w\<rparr>)"

text \<open>\<open>dR\<close>; Inl is an exception.\<close>

definition parseRichText :: "(string \<Rightarrow> string \<Rightarrow> rat) \<Rightarrow> string \<Rightarrow> rich_options \<Rightarrow> string \<Rightarrow> unit + rich_content" where
  "parseRichText We cn e r =
     (if r = [] then Inr \<lparr>rc_lines = [], rc_width = 0, rc_height = 0, rc_contentWidth = 0, rc_contentHeight = 0, rc_outerWidth = 0, rc_outerHeight = 0\<rparr>
      else case rich_tokens We e r of
        Inl x \<Rightarrow> Inl x
      | Inr ts \<Rightarrow>
          (let (ls, h, v) = lay_lines We cn e 0 0 ts;
               w = (case ro_width e of Some a \<Rightarrow> a | None \<Rightarrow> v); k = (case ro_height e of Some n \<Rightarrow> n | None \<Rightarrow> h);
               (px, py) = (case ro_padding e of None \<Rightarrow> (0, 0) | Some (t, r, b, l) \<Rightarrow> (r + l, t + b)) in
           Inr \<lparr>rc_lines = map (\<lambda>l. l\<lparr>rl_tokens := map (percent_width w) (rl_tokens l)\<rparr>) ls, rc_width = w, rc_height = k,
             rc_contentWidth = v, rc_contentHeight = h, rc_outerWidth = w + px, rc_outerHeight = k + py\<rparr>))"

section \<open>Segments survive printing\<close>

fun print_segment :: "string option \<times> string \<Rightarrow> string" where
  "print_segment (None, t) = t"
| "print_segment (Some n, t) = CHR ''{'' # n @ CHR 0x7C # t @ [CHR 0x7D]"

text \<open>Plain segments hold a text without an opening brace, are not empty and do not follow one another.\<close>

fun printable :: "(string option \<times> string) list \<Rightarrow> bool" where
  "printable [] = True"
| "printable ((Some n, t) # ss) = (n \<noteq> [] \<and> list_all name_char n \<and> CHR 0x7D \<notin> set t \<and> printable ss)"
| "printable ((None, t) # ss) = (t \<noteq> [] \<and> CHR ''{'' \<notin> set t \<and> (case ss of (None, _) # _ \<Rightarrow> False | _ \<Rightarrow> True) \<and> printable ss)"

lemma match_styled_plain: "c \<noteq> CHR ''{'' \<Longrightarrow> match_styled (c # s) = None"
  by (simp add: match_styled_def Let_def)

lemma segments_from_plain: "CHR ''{'' \<notin> set t \<Longrightarrow> segments_from p (t @ s) = segments_from (p @ t) s"
proof (induction t arbitrary: p)
  case (Cons c t)
  then have "segments_from p ((c # t) @ s) = segments_from (p @ [c]) (t @ s)" by (subst segments_from.simps) (auto simp: match_styled_plain)
  then show ?case using Cons by simp
qed simp

lemma segments_from_styled:
  "n \<noteq> [] \<Longrightarrow> list_all name_char n \<Longrightarrow> CHR 0x7D \<notin> set t \<Longrightarrow>
   segments_from p (print_segment (Some n, t) @ s) = (if p = [] then [] else [(None, p)]) @ (Some n, t) # segments_from [] s"
  by (subst segments_from.simps) (simp add: match_styled_printed)

lemma segments_from_end: "segments_from p [] = (if p = [] then [] else [(None, p)])"
  by (subst segments_from.simps) (simp add: match_styled_def)

text \<open>A text that is written from plain segments and styled segments is cut into the same segments again.\<close>

theorem segments_round_trip:
  assumes "printable ss"
  shows "segments (concat (map print_segment ss)) = ss"
proof -
  have "segments_from [] (concat (map print_segment ss)) = ss" using assms
  proof (induction ss rule: printable.induct)
    case (2 n t ss)
    then show ?case using segments_from_styled[of n t "[]"] by simp
  next
    case (3 t ss)
    show ?case
    proof (cases ss)
      case Nil
      then show ?thesis using 3 segments_from_plain[of t "[]" "[]"] by (simp add: segments_from_end)
    next
      case (Cons a rest)
      then obtain n u where a: "a = (Some n, u)" using 3 by (cases a) (auto split: option.splits)
      have "segments_from [] (concat (map print_segment ss)) = (Some n, u) # segments_from [] (concat (map print_segment rest))"
        "segments_from t (concat (map print_segment ss)) = (None, t) # (Some n, u) # segments_from [] (concat (map print_segment rest))"
        using 3 Cons a segments_from_styled[of n u _ "concat (map print_segment rest)"] by simp_all
      then show ?thesis using 3 Cons a segments_from_plain[of t "[]" "concat (map print_segment ss)"] by simp
    qed
  qed (simp add: segments_from_end)
  then show ?thesis by (simp add: segments_def)
qed

theorem segments_round_trip_witness: "segments (concat (map print_segment [(None, ''a''), (Some ''b'', ''c'')])) = [(None, ''a''), (Some ''b'', ''c'')]"
  by (rule segments_round_trip) (simp add: name_char_def)

section \<open>Tokens keep the text\<close>

definition line_text :: "'a token_scheme list \<Rightarrow> string" where
  "line_text ts = concat (map tk_text ts)"

definition block_text :: "'a token_scheme list list \<Rightarrow> string" where
  "block_text ls = js_join [CHR 0x0A] (map line_text ls)"

text \<open>A line holder is empty.\<close>

definition holders_empty :: "token list list \<Rightarrow> bool" where
  "holders_empty ls \<longleftrightarrow> (\<forall>ts \<in> set ls. \<forall>t \<in> set ts. tk_lineHolder t \<longrightarrow> tk_text t = [])"

lemma block_text_snoc: "ls \<noteq> [] \<Longrightarrow> block_text (ls @ [ts]) = block_text ls @ CHR 0x0A # line_text ts"
  by (induction ls rule: induct_list012) (auto simp: block_text_def js_join_Cons)

lemma block_text_last: "block_text (ls @ [ts @ us]) = block_text (ls @ [ts]) @ line_text us"
proof (cases "ls = []")
  case False
  then show ?thesis by (simp add: block_text_snoc line_text_def)
qed (simp add: block_text_def line_text_def)

lemma join_piece_text:
  assumes "holders_empty ls" "tk_lineHolder m \<longrightarrow> tk_text m = []"
  shows "block_text (join_piece blank m ls) = block_text ls @ tk_text m \<and> join_piece blank m ls \<noteq> [] \<and> holders_empty (join_piece blank m ls)"
proof -
  define ls' where "ls' = (if ls = [] then [[]] else ls)"
  have ne: "ls' \<noteq> []" and h: "holders_empty ls'" and bt: "block_text ls' = block_text ls" using assms(1) by (auto simp: ls'_def holders_empty_def block_text_def line_text_def)
  obtain ks ts where ls: "ls' = ks @ [ts]" using ne by (metis append_butlast_last_id)
  define new where "new = (if length ts = 1 \<and> tk_lineHolder (ts ! 0) then [m] else if tk_text m \<noteq> [] \<or> ts = [] \<or> blank then ts @ [m] else ts)"
  have j: "join_piece blank m ls = ks @ [new]" unfolding join_piece_def Let_def ls'_def[symmetric] ls new_def by simp
  have "line_text new = line_text ts @ tk_text m"
    using h by (auto simp: new_def line_text_def ls holders_empty_def length_Suc_conv)
  then have "block_text (ks @ [new]) = block_text (ks @ [ts]) @ tk_text m"
    by (cases "ks = []") (simp_all add: block_text_snoc, simp add: block_text_def)
  moreover have "holders_empty (ks @ [new])" using h assms(2) by (auto simp: new_def ls holders_empty_def)
  ultimately show ?thesis using j bt ls by simp
qed

text \<open>A segment that is not wrapped is pushed piece by piece.\<close>

lemma push_rest_text:
  assumes "\<forall>g y. tk_text (tok g y) = y \<and> (tk_lineHolder (tok g y) \<longrightarrow> y = [])" "ls \<noteq> []" "holders_empty ls" "0 < i"
  shows "let r = fold (\<lambda>(g, y) acc. if g = 0 \<and> \<not> u then join_piece blank (tok g y) acc else acc @ [[tok g y]]) (enumerate i ys) ls in
    block_text r = block_text ls @ concat (map (\<lambda>y. CHR 0x0A # y) ys) \<and> r \<noteq> [] \<and> holders_empty r"
  using assms(2-4)
proof (induction ys arbitrary: i ls)
  case (Cons y ys)
  have "holders_empty (ls @ [[tok i y]])" using Cons.prems assms(1) by (auto simp: holders_empty_def)
  moreover have "block_text (ls @ [[tok i y]]) = block_text ls @ CHR 0x0A # y" using Cons.prems assms(1) by (simp add: block_text_snoc line_text_def)
  ultimately show ?case using Cons.IH[of "ls @ [[tok i y]]" "Suc i"] Cons.prems by (simp add: Let_def)
qed simp

lemma pieces_rejoin: "\<exists>y ys. pieces c s = y # ys \<and> s = y @ concat (map (\<lambda>y. c # y) ys)"
proof (induction s)
  case (Cons x s)
  then obtain y ys where "pieces c s = y # ys" "s = y @ concat (map (\<lambda>y. c # y) ys)" by blast
  then show ?case by (cases "x = c") auto
qed simp

lemma pushTokens_text:
  assumes "holders_empty ls"
  shows "\<exists>ls'. pushTokens We font rich (n, e) (ls, None) = Inr (ls', None) \<and> block_text ls' = block_text ls @ e \<and> holders_empty ls'"
proof -
  define o' where "o' = style_of rich n"
  define l where "l = (case rs_font o' of Some f \<Rightarrow> f | None \<Rightarrow> font)"
  define tok where "tok = piece_token We l o' n (e = []) None"
  have t: "\<forall>g y. tk_text (tok g y) = y \<and> (tk_lineHolder (tok g y) \<longrightarrow> y = [])" by (simp add: tok_def piece_token_def)
  obtain y ys where p: "pieces (CHR 0x0A) e = y # ys" "e = y @ concat (map (\<lambda>y. CHR 0x0A # y) ys)" using pieces_rejoin by blast
  define l1 where "l1 = join_piece (e = []) (tok 0 y) ls"
  have l1: "block_text l1 = block_text ls @ y \<and> l1 \<noteq> [] \<and> holders_empty l1" using join_piece_text[OF assms, of "tok 0 y"] t by (simp add: l1_def)
  let ?r = "fold (\<lambda>(g, y) acc. if g = 0 \<and> \<not> False then join_piece (e = []) (tok g y) acc else acc @ [[tok g y]]) (enumerate 1 ys) l1"
  have "pushTokens We font rich (n, e) (ls, None) = Inr (?r, None)"
    unfolding pushTokens_def Let_def o'_def l_def tok_def l1_def by (simp add: segment_pieces_def p(1))
  moreover have "block_text ?r = block_text ls @ e \<and> holders_empty ?r"
    using push_rest_text[OF t, of l1 1 False "e = []" ys] l1 p(2) by (simp add: Let_def)
  ultimately show ?thesis by blast
qed

lemma push_all_text:
  "holders_empty ls \<Longrightarrow> \<exists>ls'. push_all We font rich ss (ls, None) = Inr (ls', None) \<and> block_text ls' = block_text ls @ concat (map snd ss)"
proof (induction ss arbitrary: ls)
  case (Cons s ss)
  obtain n e where s: "s = (n, e)" by (cases s)
  obtain ls1 where ls1: "pushTokens We font rich s (ls, None) = Inr (ls1, None)" "block_text ls1 = block_text ls @ e" "holders_empty ls1"
    using pushTokens_text[OF Cons.prems] s by blast
  then show ?case using Cons.IH[of ls1] s by auto
qed simp

text \<open>Laying out keeps the texts of the tokens unless the width cuts them; the height cuts a tail off.\<close>

lemma lay_token_text:
  assumes "ro_overflow e \<noteq> Overflow_Truncate \<or> ro_width e = None"
  shows "tk_text (lay_token We cn e S x) = tk_text x"
  using assms by (auto simp: lay_token_def token_extent_def Let_def split: style_width.splits option.splits)

lemma lay_tokens_text:
  assumes "ro_overflow e \<noteq> Overflow_Truncate \<or> ro_width e = None" "lay_tokens We cn e h S m xs = (ys, S', m', c)"
  shows "\<exists>zs. xs = take (length ys) xs @ zs \<and> line_text ys = line_text (take (length ys) xs) \<and> (\<not> c \<longrightarrow> zs = [] \<and> length ys = length xs) \<and>
    (c \<longrightarrow> ro_lineTruncate e \<and> ro_height e \<noteq> None)"
  using assms(2)
proof (induction xs arbitrary: S m ys)
  case (Cons x xs)
  show ?case
  proof (cases "too_high We cn e h x")
    case True
    then show ?thesis using Cons.prems by (auto simp: too_high_def line_text_def split: option.splits)
  next
    case False
    then obtain us where us: "ys = lay_token We cn e S x # us"
      "lay_tokens We cn e h (S + tk_width (lay_token We cn e S x)) (max m (tk_lineHeight (lay_token We cn e S x))) xs = (us, S', m', c)"
      using Cons.prems by (auto simp: Let_def split: prod.splits)
    from Cons.IH[OF us(2)] show ?thesis using us(1) lay_token_text[OF assms(1)] by (auto simp: line_text_def)
  qed
qed (simp add: line_text_def)

lemma block_text_Cons: "block_text (l # ls) = line_text l @ (if ls = [] then [] else CHR 0x0A # block_text ls)"
  by (simp add: block_text_def js_join_Cons)

lemma block_text_Nil [simp]: "block_text [] = []"
  by (simp add: block_text_def)

lemma lay_lines_text:
  assumes "ro_overflow e \<noteq> Overflow_Truncate \<or> ro_width e = None" "lay_lines We cn e h v ls = (rs, h', v')"
  shows "prefix (block_text (map rl_tokens rs)) (block_text ls) \<and> (\<not> ro_lineTruncate e \<or> ro_height e = None \<longrightarrow> block_text (map rl_tokens rs) = block_text ls \<and> length rs = length ls)"
  using assms(2)
proof (induction ls arbitrary: h v rs)
  case (Cons ts ls)
  obtain ys S m cut where l: "lay_tokens We cn e h 0 0 ts = (ys, S, m, cut)" by (metis prod_cases4)
  obtain zs where zs: "ts = take (length ys) ts @ zs" "line_text ys = line_text (take (length ys) ts)" "\<not> cut \<Longrightarrow> zs = [] \<and> length ys = length ts"
      "cut \<Longrightarrow> ro_lineTruncate e \<and> ro_height e \<noteq> None"
    using lay_tokens_text[OF assms(1) l] by blast
  have t: "line_text ts = line_text ys @ line_text zs" using zs(1,2) by (metis concat_append line_text_def map_append)
  show ?case
  proof (cases cut)
    case True
    then show ?thesis using Cons.prems l t zs(4) by (auto simp: block_text_Cons Let_def split: if_splits)
  next
    case False
    then obtain us where us: "rs = \<lparr>rl_tokens = ys, rl_width = S, rl_lineHeight = m\<rparr> # us" "lay_lines We cn e (h + m) (max v S) ls = (us, h', v')"
      using Cons.prems l by (auto simp: Let_def split: prod.splits)
    have "line_text ts = line_text ys" using t zs(3) False by (simp add: line_text_def)
    then show ?thesis using Cons.IH[OF us(2)] us by (cases ls) (auto simp: block_text_Cons)
  qed
qed simp

lemma lay_tokens_fit:
  assumes "lay_tokens We cn e h S m xs = (ys, S', m', c)" "ro_lineTruncate e" "ro_height e = Some n" "h + m \<le> n"
  shows "h + m' \<le> n"
  using assms(1,4)
proof (induction xs arbitrary: S m ys)
  case (Cons x xs)
  have "tk_lineHeight (lay_token We cn e S x) = token_line We cn e x" by (simp add: lay_token_def Let_def split: prod.splits)
  then show ?case using Cons assms(2,3) by (fastforce simp: too_high_def Let_def max_def split: prod.splits if_splits)
qed simp

lemma lay_lines_fit:
  assumes "lay_lines We cn e h v ls = (rs, h', v')" "ro_lineTruncate e" "ro_height e = Some n" "h \<le> n"
  shows "h' \<le> n"
  using assms(1,4)
proof (induction ls arbitrary: h v rs)
  case (Cons ts ls)
  obtain ys S m cut where l: "lay_tokens We cn e h 0 0 ts = (ys, S, m, cut)" by (metis prod_cases4)
  have "h + m \<le> n" using lay_tokens_fit[OF l assms(2,3)] Cons.prems(2) by simp
  then show ?case using Cons.prems Cons.IH[of "h + m"] l by (auto simp: Let_def split: prod.splits if_splits)
qed simp

lemma percent_width_text: "line_text (map (percent_width w) ts) = line_text ts"
  by (auto simp: line_text_def percent_width_def intro!: arg_cong[where f = concat] split: option.splits)

text \<open>C30: Rich text that is not wrapped is laid out without an exception.  Unless tokens are cut to the width of the text
  (\<open>overflow: truncate\<close>), what its lines hold, with a line break between two of them, is the text of its segments from the start on: all of
  it, whatever empty parts and place holders the lines have, if lines are not cut off (\<open>lineOverflow: truncate\<close>), and
  otherwise a beginning of it.  Cut to a height that is not negative, the text is never higher than that.\<close>

theorem rich_text_kept:
  assumes "wrap_of (ro_overflow e) (ro_width e) = None"
  shows "\<exists>c. parseRichText We cn e r = Inr c \<and>
    (let text = js_join [CHR 0x0A] (map (\<lambda>l. concat (map tk_text (rl_tokens l))) (rc_lines c)) in
     (ro_overflow e \<noteq> Overflow_Truncate \<or> ro_width e = None \<longrightarrow> prefix text (concat (map snd (segments r)))) \<and>
     ((ro_overflow e \<noteq> Overflow_Truncate \<or> ro_width e = None) \<and> (\<not> ro_lineTruncate e \<or> ro_height e = None) \<longrightarrow> text = concat (map snd (segments r)))) \<and>
    (case ro_height e of Some n \<Rightarrow> ro_lineTruncate e \<and> 0 \<le> n \<longrightarrow> rc_contentHeight c \<le> n | None \<Rightarrow> True)"
proof (cases "r = []")
  case True
  then show ?thesis by (simp add: parseRichText_def segments_def segments_from_end split: option.splits)
next
  case False
  obtain ls where ls: "push_all We (ro_font e) (ro_rich e) (segments r) ([], None) = Inr (ls, None)" "block_text ls = block_text ([] :: token list list) @ concat (map snd (segments r))"
    using push_all_text[of "[]" We "ro_font e" "ro_rich e" "segments r"] by (auto simp: holders_empty_def)
  obtain rs h v where l: "lay_lines We cn e 0 0 ls = (rs, h, v)" by (metis prod_cases3)
  define w where "w = (case ro_width e of Some a \<Rightarrow> a | None \<Rightarrow> v)"
  define rs' where "rs' = map (\<lambda>l. l\<lparr>rl_tokens := map (percent_width w) (rl_tokens l)\<rparr>) rs"
  obtain c where c: "parseRichText We cn e r = Inr c" "rc_lines c = rs'" "rc_contentHeight c = h"
    using False ls(1) assms l by (cases "ro_padding e") (auto simp: parseRichText_def rich_tokens_def Let_def rs'_def w_def split: prod.splits)
  have t: "js_join [CHR 0x0A] (map (\<lambda>l. concat (map tk_text (rl_tokens l))) (rc_lines c)) = block_text (map rl_tokens rs)"
    unfolding c(2) rs'_def block_text_def using percent_width_text[of w, unfolded line_text_def] by (simp add: line_text_def[abs_def] comp_def)
  have "block_text ls = concat (map snd (segments r))" using ls(2) by (simp add: block_text_def)
  then show ?thesis using lay_lines_text[of e, OF _ l] lay_lines_fit[OF l] c(1,3) by (intro exI[of _ c], unfold Let_def t) (auto split: option.splits)
qed

definition plain_options :: rich_options where
  "plain_options = \<lparr>ro_font = ''sans'', ro_rich = [], ro_width = None, ro_height = None, ro_overflow = Overflow_None, ro_lineTruncate = False,
     ro_padding = None, ro_lineHeight = None, ro_align = [], ro_ellipsis = None, ro_minChar = 0\<rparr>"

theorem rich_text_kept_witness: "\<exists>c. parseRichText (\<lambda>_ s. of_nat (length s)) ''W'' plain_options ''{a|x}y'' = Inr c"
  using rich_text_kept[of plain_options "\<lambda>_ s. of_nat (length s)" "''W''" "''{a|x}y''"] by (auto simp: wrap_of_def plain_options_def)

text \<open>C32: A styled part whose style has a width of its own, at the start of a text that is wrapped, makes the layout throw: its pieces are
  only assigned when the part does not fit behind a line before it.\<close>

theorem fixed_width_part_throws:
  assumes "n \<noteq> []" "list_all name_char n" "CHR 0x7D \<notin> set t" "map_of (ro_rich e) n = Some o'" "rs_width o' \<noteq> No_Width" "rs_width o' \<noteq> Auto_Width"
    and "ro_overflow e = Overflow_Break \<or> ro_overflow e = Overflow_BreakAll" "ro_width e = Some w"
  shows "parseRichText We cn e (CHR ''{'' # n @ CHR 0x7C # t @ CHR 0x7D # r) = Inl ()"
proof -
  have "segments (CHR ''{'' # n @ CHR 0x7C # t @ CHR 0x7D # r) = (Some n, t) # segments_from [] r"
    using segments_from_styled[OF assms(1-3), of "[]" r] by (simp add: segments_def)
  moreover have "style_of (ro_rich e) (Some n) = o'" using assms(1,4) by (simp add: style_of_def)
  ultimately show ?thesis using assms(5-8) by (auto simp: parseRichText_def rich_tokens_def wrap_of_def pushTokens_def segment_pieces_def Let_def)
qed

theorem fixed_width_part_throws_witness:
  "parseRichText (\<lambda>_ s. of_nat (length s)) ''W'' (plain_options\<lparr>ro_rich := [(''a'', no_style\<lparr>rs_width := Number_Width 10\<rparr>)], ro_width := Some 100, ro_overflow := Overflow_Break\<rparr>) ''{a|x}'' = Inl ()"
  using fixed_width_part_throws[of "''a''" "''x''" "plain_options\<lparr>ro_rich := [(''a'', no_style\<lparr>rs_width := Number_Width 10\<rparr>)], ro_width := Some 100, ro_overflow := Overflow_Break\<rparr>"
      "no_style\<lparr>rs_width := Number_Width 10\<rparr>" 100 "\<lambda>_ s. of_nat (length s)" "''W''" "[]"] by (simp add: name_char_def no_style_def)

section \<open>Boxes of texts and places of labels\<close>

record box =
  bx :: rat
  by' :: rat
  bw :: rat
  bh :: rat

definition box_union :: "box \<Rightarrow> box \<Rightarrow> box" where
  "box_union s e = (let t = min (bx e) (bx s); a = min (by' e) (by' s) in
     \<lparr>bx = t, by' = a, bw = max (bx e + bw e) (bx s + bw s) - t, bh = max (by' e + bh e) (by' s + bh s) - a\<rparr>)"

text \<open>\<open>us\<close>, \<open>Ui\<close>, \<open>oh\<close>, \<open>Gm\<close>, \<open>hl\<close>; \<open>cn\<close> is the character whose width is the height of a line.\<close>

definition adjustTextX :: "rat \<Rightarrow> rat \<Rightarrow> string \<Rightarrow> rat" where
  "adjustTextX r e t = (if t = ''right'' then r - e else if t = ''center'' then r - e / 2 else r)"

definition adjustTextY :: "rat \<Rightarrow> rat \<Rightarrow> string \<Rightarrow> rat" where
  "adjustTextY r e t = (if t = ''middle'' then r - e / 2 else if t = ''bottom'' then r - e else r)"

definition innerGetBoundingRect :: "(string \<Rightarrow> rat) \<Rightarrow> string \<Rightarrow> string \<Rightarrow> string \<Rightarrow> string \<Rightarrow> box" where
  "innerGetBoundingRect We cn align baseline r =
     (let n = We r; i = We cn in \<lparr>bx = adjustTextX 0 n align, by' = adjustTextY 0 i baseline, bw = n, bh = i\<rparr>)"

definition getBoundingRect :: "(string \<Rightarrow> rat) \<Rightarrow> string \<Rightarrow> string \<Rightarrow> string \<Rightarrow> string \<Rightarrow> box" where
  "getBoundingRect We cn align baseline r =
     (let n = map (innerGetBoundingRect We cn align baseline) (pieces (CHR 0x0A) r) in fold (\<lambda>l o'. box_union o' l) (tl n) (hd n))"

text \<open>\<open>cf\<close>: the place of a label beside or inside a box, with its alignment.  A place of its own has no alignment.\<close>

datatype label_place = Named string | Own style_width style_width

record label =
  lb_x :: rat
  lb_y :: rat
  lb_align :: "string option"
  lb_verticalAlign :: "string option"

definition calculateTextPosition :: "label_place option \<Rightarrow> rat option \<Rightarrow> box \<Rightarrow> label" where
  "calculateTextPosition pos gap t =
     (let n = (case gap of Some d \<Rightarrow> d | None \<Rightarrow> 5); i = bh t; o' = bw t; s = i / 2; l = bx t; u = by' t;
          mk = (\<lambda>x y f h. \<lparr>lb_x = x, lb_y = y, lb_align = Some f, lb_verticalAlign = Some h\<rparr>) in
      case (case pos of None \<Rightarrow> Named ''inside'' | Some p \<Rightarrow> p) of
        Own a b \<Rightarrow> \<lparr>lb_x = l + parsePercent a o', lb_y = u + parsePercent b i, lb_align = None, lb_verticalAlign = None\<rparr>
      | Named a \<Rightarrow>
          if a = ''left'' then mk (l - n) (u + s) ''right'' ''middle''
          else if a = ''right'' then mk (l + (n + o')) (u + s) ''left'' ''middle''
          else if a = ''top'' then mk (l + o' / 2) (u - n) ''center'' ''bottom''
          else if a = ''bottom'' then mk (l + o' / 2) (u + (i + n)) ''center'' ''top''
          else if a = ''inside'' then mk (l + o' / 2) (u + s) ''center'' ''middle''
          else if a = ''insideLeft'' then mk (l + n) (u + s) ''left'' ''middle''
          else if a = ''insideRight'' then mk (l + (o' - n)) (u + s) ''right'' ''middle''
          else if a = ''insideTop'' then mk (l + o' / 2) (u + n) ''center'' ''top''
          else if a = ''insideBottom'' then mk (l + o' / 2) (u + (i - n)) ''center'' ''bottom''
          else if a = ''insideTopLeft'' then mk (l + n) (u + n) ''left'' ''top''
          else if a = ''insideTopRight'' then mk (l + (o' - n)) (u + n) ''right'' ''top''
          else if a = ''insideBottomLeft'' then mk (l + n) (u + (i - n)) ''left'' ''bottom''
          else if a = ''insideBottomRight'' then mk (l + (o' - n)) (u + (i - n)) ''right'' ''bottom''
          else mk l u ''left'' ''top'')"

text \<open>The box of a text: as wide as its widest line, but as high as one line.\<close>

lemma union_row:
  assumes "by' a = by' b" "bh a = bh b" "0 \<le> bw a" "0 \<le> bw b" "bx a = adjustTextX 0 (bw a) align" "bx b = adjustTextX 0 (bw b) align"
  shows "bw (box_union a b) = max (bw a) (bw b) \<and> bh (box_union a b) = bh a \<and> by' (box_union a b) = by' a \<and> bx (box_union a b) = adjustTextX 0 (max (bw a) (bw b)) align"
  using assms by (auto simp: box_union_def adjustTextX_def Let_def max_def min_def split: if_splits)

theorem block_box:
  assumes "\<forall>s. 0 \<le> We s"
  shows "bw (getBoundingRect We cn align baseline r) = Max (We ` set (pieces (CHR 0x0A) r)) \<and> bh (getBoundingRect We cn align baseline r) = We cn"
proof -
  let ?in = "innerGetBoundingRect We cn align baseline"
  have step: "bw (fold (\<lambda>l o'. box_union o' l) (map ?in ys) o') = Max (insert (bw o') (We ` set ys)) \<and> bh (fold (\<lambda>l o'. box_union o' l) (map ?in ys) o') = We cn"
    if "by' o' = adjustTextY 0 (We cn) baseline" "bh o' = We cn" "0 \<le> bw o'" "bx o' = adjustTextX 0 (bw o') align" for ys o'
    using that
  proof (induction ys arbitrary: o')
    case (Cons y ys)
    have "bw (box_union o' (?in y)) = max (bw o') (We y) \<and> bh (box_union o' (?in y)) = bh o' \<and> by' (box_union o' (?in y)) = by' o' \<and>
        bx (box_union o' (?in y)) = adjustTextX 0 (max (bw o') (We y)) align"
      using union_row[of o' "?in y" align] Cons.prems assms by (simp add: innerGetBoundingRect_def Let_def)
    then have "bw (fold (\<lambda>l o'. box_union o' l) (map ?in ys) (box_union o' (?in y))) = Max (insert (max (bw o') (We y)) (We ` set ys))
      \<and> bh (fold (\<lambda>l o'. box_union o' l) (map ?in ys) (box_union o' (?in y))) = We cn"
      using Cons.IH[of "box_union o' (?in y)"] Cons.prems by (simp add: max.coboundedI1)
    moreover have "Max (insert (max (bw o') (We y)) (We ` set ys)) = Max (insert (bw o') (We ` set (y # ys)))" by (cases "ys = []") (simp_all add: max.assoc)
    ultimately show ?case by simp
  qed simp
  obtain y ys where "pieces (CHR 0x0A) r = y # ys" using pieces_rejoin by blast
  then show ?thesis using step[of "?in y" ys] assms by (simp add: getBoundingRect_def innerGetBoundingRect_def Let_def)
qed

end
