(* ===== verification/Chart_Legend.thy ===== *)
theory Chart_Legend
  imports Js_Library "HOL-Library.AList"
begin

text \<open>
  The legend of a chart (\<open>home-296339b0.js\<close>, lines 58 to 60): which series it names, which of them are selected, the actions that
  select and deselect over all legends, the filter of the series, and the entries it draws.
\<close>

section \<open>The model of a legend\<close>

text \<open>The names of the entries, the names the chart knows, and the flags; a name without a flag counts as selected.\<close>

record legend =
  lg_single :: bool
  lg_data :: "string list"
  lg_available :: "string list"
  lg_selected :: "(string \<times> bool) list"

text \<open>\<open>_updateData\<close>: of equal names the first is kept.\<close>

fun first_names :: "string list \<Rightarrow> string list \<Rightarrow> string list" where
  "first_names seen [] = []"
| "first_names seen (n # ns) = (if n \<in> set seen then first_names seen ns else n # first_names (n # seen) ns)"

text \<open>A series names itself in the legend unless it offers names of its own; \<open>listed\<close> says that its name is not made up.\<close>

record series =
  sr_name :: string
  sr_provided :: "string list option"
  sr_filtered :: bool
  sr_listed :: bool

definition availableNames :: "series list \<Rightarrow> string list" where
  "availableNames ss = concat (map (\<lambda>l. sr_name l # (case sr_provided l of Some v \<Rightarrow> if sr_filtered l then [] else v | None \<Rightarrow> [])) ss)"

definition potentialNames :: "series list \<Rightarrow> string list" where
  "potentialNames ss = concat (map (\<lambda>l. (case sr_provided l of Some v \<Rightarrow> v | None \<Rightarrow> []) @
     (if (case sr_provided l of Some v \<Rightarrow> v = [] | None \<Rightarrow> True) \<and> sr_listed l then [sr_name l] else [])) ss)"

definition updateData :: "string list option \<Rightarrow> series list \<Rightarrow> legend \<Rightarrow> legend" where
  "updateData given ss l = l\<lparr>lg_available := availableNames ss, lg_data := first_names [] (case given of Some ns \<Rightarrow> ns | None \<Rightarrow> potentialNames ss)\<rparr>"

definition isSelected :: "legend \<Rightarrow> string \<Rightarrow> bool" where
  "isSelected l t \<longleftrightarrow> map_of (lg_selected l) t \<noteq> Some False \<and> t \<in> set (lg_available l)"

definition select_name :: "string \<Rightarrow> legend \<Rightarrow> legend" where
  "select_name t l = (let a = (if lg_single l then fold (\<lambda>n. AList.update n False) (lg_data l) (lg_selected l) else lg_selected l) in
     l\<lparr>lg_selected := AList.update t True a\<rparr>)"

definition unSelect :: "string \<Rightarrow> legend \<Rightarrow> legend" where
  "unSelect t l = (if lg_single l then l else l\<lparr>lg_selected := AList.update t False (lg_selected l)\<rparr>)"

definition toggleSelected :: "string \<Rightarrow> legend \<Rightarrow> legend" where
  "toggleSelected t l = (case map_of (lg_selected l) t of
     None \<Rightarrow> unSelect t (l\<lparr>lg_selected := AList.update t True (lg_selected l)\<rparr>)
   | Some True \<Rightarrow> unSelect t l
   | Some False \<Rightarrow> select_name t l)"

definition allSelect :: "legend \<Rightarrow> legend" where
  "allSelect l = l\<lparr>lg_selected := fold (\<lambda>n. AList.update n True) (lg_data l) (lg_selected l)\<rparr>"

definition inverse_flag :: "string \<Rightarrow> (string \<times> bool) list \<Rightarrow> (string \<times> bool) list" where
  "inverse_flag n a = AList.update n (map_of a n = Some False) a"

definition inverseSelect :: "legend \<Rightarrow> legend" where
  "inverseSelect l = l\<lparr>lg_selected := fold inverse_flag (lg_data l) (lg_selected l)\<rparr>"

text \<open>\<open>optionUpdated\<close>: a legend with a single choice selects the first entry that is selected, or else the first entry.\<close>

definition optionUpdated :: "string list option \<Rightarrow> series list \<Rightarrow> legend \<Rightarrow> legend" where
  "optionUpdated given ss l0 = (let l = updateData given ss l0 in
     if lg_data l \<noteq> [] \<and> lg_single l
     then (case filter (isSelected l) (lg_data l) of n # _ \<Rightarrow> select_name n l | [] \<Rightarrow> select_name (hd (lg_data l)) l)
     else l)"

section \<open>Actions\<close>

text \<open>\<open>ns\<close>: an action goes over all legends; when it toggles, the later legends follow the first.\<close>

datatype legend_action = Toggle string | Select string | UnSelect string | All | Inverse

fun act_all :: "legend_action \<Rightarrow> bool option \<Rightarrow> legend list \<Rightarrow> legend list" where
  "act_all r i [] = []"
| "act_all r i (l # ls) =
     (let (l', i') = (case r of
        Toggle n \<Rightarrow> (case i of Some b \<Rightarrow> (if b then select_name n l else unSelect n l, i) | None \<Rightarrow> (let l1 = toggleSelected n l in (l1, Some (isSelected l1 n))))
      | Select n \<Rightarrow> (select_name n l, Some (isSelected (select_name n l) n))
      | UnSelect n \<Rightarrow> (unSelect n l, Some (isSelected (unSelect n l) n))
      | All \<Rightarrow> (allSelect l, i)
      | Inverse \<Rightarrow> (inverseSelect l, i)) in
      l' # act_all r i' ls)"

definition legend_act :: "legend_action \<Rightarrow> legend list \<Rightarrow> legend list" where
  "legend_act r ls = act_all r None ls"

text \<open>The event that is sent: a name is selected when all legends that list it say so; line breaks are no names.\<close>

definition is_break :: "string \<Rightarrow> bool" where
  "is_break n \<longleftrightarrow> n = [] \<or> n = [CHR 0x0A]"

definition collect_flags :: "legend \<Rightarrow> (string \<times> bool) list \<Rightarrow> (string \<times> bool) list" where
  "collect_flags l a = fold (\<lambda>u a. if is_break u then a
     else AList.update u (case map_of a u of Some b \<Rightarrow> b \<and> isSelected l u | None \<Rightarrow> isSelected l u) a) (lg_data l) a"

definition event_selected :: "legend list \<Rightarrow> (string \<times> bool) list" where
  "event_selected ls = fold collect_flags ls []"

text \<open>\<open>h9\<close>: a series is drawn when every legend selects its name.\<close>

definition shown_series :: "legend list \<Rightarrow> series list \<Rightarrow> series list" where
  "shown_series ls ss = (if ls = [] then ss else filter (\<lambda>t. list_all (\<lambda>l. isSelected l (sr_name t)) ls) ss)"

section \<open>Entries\<close>

text \<open>\<open>renderInner\<close>: a line break, or an entry for a series or for a name that a series offers; other names are left out.\<close>

datatype legend_entry = Line_Break | Entry string

definition entry_for :: "bool \<Rightarrow> series list \<Rightarrow> string \<Rightarrow> legend_entry list" where
  "entry_for newlineDisabled ss d =
     (if \<not> newlineDisabled \<and> is_break d then [Line_Break]
      else if list_ex (\<lambda>s. sr_name s = d \<or> (case sr_provided s of Some v \<Rightarrow> d \<in> set v | None \<Rightarrow> False)) ss then [Entry d] else [])"

definition renderInner :: "bool \<Rightarrow> series list \<Rightarrow> legend \<Rightarrow> legend_entry list" where
  "renderInner newlineDisabled ss l = concat (map (entry_for newlineDisabled ss) (lg_data l))"

section \<open>Flags after an operation\<close>

lemma map_of_update: "map_of (AList.update k v a) x = (if x = k then Some v else map_of a x)"
  by (simp add: update_conv')

lemma map_of_fold_update: "map_of (fold (\<lambda>n. AList.update n b) ns a) x = (if x \<in> set ns then Some b else map_of a x)"
  by (induction ns arbitrary: a) (auto simp: map_of_update)

lemma map_of_fold_inverse:
  "distinct ns \<Longrightarrow> map_of (fold inverse_flag ns a) x = (if x \<in> set ns then Some (map_of a x = Some False) else map_of a x)"
  by (induction ns arbitrary: a) (auto simp: map_of_update inverse_flag_def)

lemma first_names_facts: "set (first_names seen ns) = set ns - set seen" "distinct (first_names seen ns)"
  by (induction seen ns rule: first_names.induct) auto

lemma flags_select: "map_of (lg_selected (select_name t l)) n = (if n = t then Some True else if lg_single l \<and> n \<in> set (lg_data l) then Some False else map_of (lg_selected l) n)"
  by (simp add: select_name_def Let_def map_of_update map_of_fold_update)

lemma flags_unSelect: "map_of (lg_selected (unSelect t l)) n = (if n = t \<and> \<not> lg_single l then Some False else map_of (lg_selected l) n)"
  by (simp add: unSelect_def map_of_update)

lemma legend_frame:
  "lg_data (select_name t l) = lg_data l" "lg_single (select_name t l) = lg_single l" "lg_available (select_name t l) = lg_available l"
  "lg_data (unSelect t l) = lg_data l" "lg_single (unSelect t l) = lg_single l" "lg_available (unSelect t l) = lg_available l"
  "lg_data (toggleSelected t l) = lg_data l" "lg_single (toggleSelected t l) = lg_single l" "lg_available (toggleSelected t l) = lg_available l"
  by (simp_all add: select_name_def unSelect_def toggleSelected_def Let_def split: option.splits bool.splits)

lemma flags_toggle:
  "\<not> lg_single l \<Longrightarrow> map_of (lg_selected (toggleSelected t l)) n = (if n = t then Some (map_of (lg_selected l) t = Some False) else map_of (lg_selected l) n)"
  by (auto simp: toggleSelected_def flags_select flags_unSelect map_of_update split: option.splits bool.splits)

section \<open>A single choice\<close>

text \<open>Exactly one entry is selected, and every entry has a flag.\<close>

definition one_choice :: "legend \<Rightarrow> bool" where
  "one_choice l \<longleftrightarrow> lg_single l \<and> (\<exists>n \<in> set (lg_data l). \<forall>m \<in> set (lg_data l). map_of (lg_selected l) m = Some (m = n))"

inductive choice_step :: "legend \<Rightarrow> legend \<Rightarrow> bool" where
  choose_select: "t \<in> set (lg_data l) \<Longrightarrow> choice_step l (select_name t l)"
| choose_unSelect: "choice_step l (unSelect t l)"
| choose_toggle: "t \<in> set (lg_data l) \<Longrightarrow> choice_step l (toggleSelected t l)"

inductive_cases choice_stepE: "choice_step l l'"

lemma select_one_choice: "lg_single l \<Longrightarrow> t \<in> set (lg_data l) \<Longrightarrow> one_choice (select_name t l)"
  unfolding one_choice_def legend_frame by (auto simp: flags_select intro!: bexI[of _ t])

lemma choose_one_choice: "choice_step l l' \<Longrightarrow> one_choice l \<Longrightarrow> one_choice l'"
proof (erule choice_stepE)
  fix t assume "one_choice l" "l' = toggleSelected t l" "t \<in> set (lg_data l)"
  then show "one_choice l'" using select_one_choice[of l t]
    by (auto simp: one_choice_def toggleSelected_def unSelect_def legend_frame split: option.splits bool.splits)
qed (auto simp: unSelect_def select_one_choice one_choice_def[of l])

lemma optionUpdated_choice:
  assumes "lg_single l" "lg_data (updateData given ss l) \<noteq> []"
  shows "one_choice (optionUpdated given ss l)"
proof -
  let ?u = "updateData given ss l"
  have s: "lg_single ?u" using assms(1) by (simp add: updateData_def)
  have "n \<in> set (lg_data ?u)" if "filter (isSelected ?u) (lg_data ?u) = n # ns" for n ns
    using that by (metis filter_is_subset list.set_intros(1) subsetD)
  then show ?thesis using s assms(2) by (auto simp: optionUpdated_def Let_def intro!: select_one_choice split: list.splits)
qed

text \<open>C31: A legend with a single choice has exactly one selected entry from its first update on, through any selecting, deselecting and toggling of its entries.\<close>

theorem single_choice_kept:
  assumes "lg_single l" "lg_data (updateData given ss l) \<noteq> []" "choice_step\<^sup>*\<^sup>* (optionUpdated given ss l) l'"
  shows "\<exists>n \<in> set (lg_data l'). \<forall>m \<in> set (lg_data l'). map_of (lg_selected l') m = Some (m = n)"
proof -
  have "one_choice l'" using assms(3) optionUpdated_choice[OF assms(1,2)] by (induction rule: rtranclp_induct) (auto intro: choose_one_choice)
  then show ?thesis by (simp add: one_choice_def)
qed

theorem single_choice_kept_witness:
  "\<exists>n. map (map_of (lg_selected (select_name ''b'' (optionUpdated (Some [''a'', ''b'']) []
     \<lparr>lg_single = True, lg_data = [], lg_available = [], lg_selected = []\<rparr>)))) [''a'', ''b''] = [Some (''a'' = n), Some (''b'' = n)]"
proof -
  define l where "l = \<lparr>lg_single = True, lg_data = [], lg_available = [], lg_selected = []\<rparr>"
  have d: "lg_data (updateData (Some [''a'', ''b'']) [] l) = [''a'', ''b'']" by (simp add: updateData_def)
  then have o: "lg_data (optionUpdated (Some [''a'', ''b'']) [] l) = [''a'', ''b'']" by (simp add: optionUpdated_def Let_def legend_frame split: list.splits)
  have "choice_step\<^sup>*\<^sup>* (optionUpdated (Some [''a'', ''b'']) [] l) (select_name ''b'' (optionUpdated (Some [''a'', ''b'']) [] l))"
    by (intro r_into_rtranclp choose_select) (simp add: o)
  from single_choice_kept[OF _ _ this] have "\<exists>n. \<forall>m \<in> set [''a'', ''b'']. map_of (lg_selected (select_name ''b'' (optionUpdated (Some [''a'', ''b'']) [] l))) m = Some (m = n)"
    unfolding legend_frame o d by (auto simp: l_def)
  then show ?thesis unfolding l_def[symmetric] by auto
qed

text \<open>Selecting all entries does not look at the kind of choice: afterwards every entry of such a legend is selected.\<close>

theorem all_ignores_single_choice:
  assumes "n \<in> set (lg_data l)" "n \<in> set (lg_available l)"
  shows "isSelected (allSelect l) n"
  using assms by (simp add: isSelected_def allSelect_def map_of_fold_update)

section \<open>Legends act together\<close>

lemma act_all_follow:
  "\<forall>l \<in> set ls. \<not> lg_single l \<Longrightarrow> \<forall>l' \<in> set (act_all (Toggle n) (Some b) ls). map_of (lg_selected l') n = Some b"
  by (induction ls) (auto simp: flags_select flags_unSelect Let_def)

text \<open>Toggling a name that the first legend knows turns its flag in the first legend and gives it the same value in all others, so that legends which disagreed
  agree afterwards; the event says of the name what they all say.\<close>

theorem toggle_brings_together:
  assumes "\<forall>k \<in> set (l # ls). \<not> lg_single k" "n \<in> set (lg_available l)"
  shows "\<forall>l' \<in> set (legend_act (Toggle n) (l # ls)). map_of (lg_selected l') n = Some (map_of (lg_selected l) n = Some False)"
proof -
  let ?b = "map_of (lg_selected l) n = Some False"
  have t: "map_of (lg_selected (toggleSelected n l)) n = Some ?b" using assms(1) by (simp add: flags_toggle)
  then have "isSelected (toggleSelected n l) n = ?b" using assms(2) by (auto simp: isSelected_def legend_frame)
  then show ?thesis using t act_all_follow[of ls n ?b] assms(1) by (simp add: legend_act_def Let_def)
qed

theorem toggle_brings_together_witness:
  "map (\<lambda>l. map_of (lg_selected l) ''a'') (legend_act (Toggle ''a'') [\<lparr>lg_single = False, lg_data = [''a''], lg_available = [''a''], lg_selected = [(''a'', False)]\<rparr>,
      \<lparr>lg_single = False, lg_data = [''a''], lg_available = [''a''], lg_selected = []\<rparr>]) = [Some True, Some True]"
proof -
  define k where "k = \<lparr>lg_single = False, lg_data = [''a''], lg_available = [''a''], lg_selected = [(''a'', False)]\<rparr>"
  define k' where "k' = \<lparr>lg_single = False, lg_data = [''a''], lg_available = [''a''], lg_selected = []\<rparr>"
  have "length (legend_act (Toggle ''a'') [k, k']) = 2" by (simp add: legend_act_def Let_def)
  then obtain x y where xy: "legend_act (Toggle ''a'') [k, k'] = [x, y]" by (auto simp: length_Suc_conv numeral_2_eq_2)
  have "\<forall>l' \<in> set (legend_act (Toggle ''a'') [k, k']). map_of (lg_selected l') ''a'' = Some (map_of (lg_selected k) ''a'' = Some False)"
    by (rule toggle_brings_together) (simp_all add: k_def k'_def)
  then show ?thesis unfolding k_def[symmetric] k'_def[symmetric] xy by (simp add: k_def)
qed

text \<open>Turning all flags twice gives back which entries are selected.\<close>

theorem inverse_twice:
  assumes "distinct (lg_data l)" "n \<in> set (lg_data l)"
  shows "isSelected (inverseSelect (inverseSelect l)) n = isSelected l n"
  using assms by (auto simp: isSelected_def inverseSelect_def map_of_fold_inverse)

text \<open>Of line breaks with the same name a legend keeps the first only.\<close>

theorem one_break_each:
  "length (filter (\<lambda>n. n = b) (lg_data (updateData (Some ns) ss l))) \<le> 1"
proof -
  have "distinct (filter (\<lambda>n. n = b) (lg_data (updateData (Some ns) ss l)))" by (simp add: updateData_def first_names_facts)
  moreover have "set (filter (\<lambda>n. n = b) (lg_data (updateData (Some ns) ss l))) \<subseteq> {b}" by auto
  ultimately show ?thesis by (metis card_mono card.empty card_insert_disjoint distinct_card empty_iff finite.emptyI finite_insert One_nat_def)
qed

end
