(* ===== verification/Longest_Sequence.thy ===== *)
theory Longest_Sequence
  imports Prelude
begin

text \<open>
  The search for a longest increasing sequence (\<open>w_\<close> in \<open>index-e87360db.js\<close>), with which the renderer of
  the bundled framework decides which children of a list stay where they are.  Its argument \<open>e\<close> gives for every
  new child the place of the old child it was made from, counted from one, and zero for a child without one; its result
  are positions in \<open>e\<close>.  Positions are natural numbers: the truncation of their sum to 32 bits in the binary search is
  not visible for lists of fewer than 2^30 children.
\<close>

section \<open>The search\<close>

text \<open>The binary search for the first entry of \<open>n\<close> whose value is not below \<open>c\<close>.\<close>

function seq_search :: "nat list \<Rightarrow> nat list \<Rightarrow> nat \<Rightarrow> nat \<Rightarrow> nat \<Rightarrow> nat" where
  "seq_search e n c l s =
     (if l < s then (let a = (l + s) div 2 in if e ! (n ! a) < c then seq_search e n c (a + 1) s else seq_search e n c l a)
      else l)"
  by pat_completeness auto
termination by (relation "measure (\<lambda>(e, n, c, l, s). s - l)") auto

declare seq_search.simps [simp del]

text \<open>One round of the loop: \<open>t\<close> holds the predecessor of every position, \<open>n\<close> the ends of the best sequences.\<close>

definition seq_step :: "nat list \<Rightarrow> nat \<Rightarrow> nat list \<times> nat list \<Rightarrow> nat list \<times> nat list" where
  "seq_step e i = (\<lambda>(t, n). let c = e ! i in
     if c = 0 then (t, n)
     else let r = last n in
       if e ! r < c then (t[i := r], n @ [i])
       else let l = seq_search e n c 0 (length n - 1) in
         if c < e ! (n ! l) then ((if 0 < l then t[i := n ! (l - 1)] else t), n[l := i]) else (t, n))"

text \<open>The loop that follows the predecessors back and overwrites \<open>n\<close> from its end.\<close>

fun seq_back :: "nat list \<Rightarrow> nat \<Rightarrow> nat \<Rightarrow> nat list \<Rightarrow> nat list" where
  "seq_back t 0 s n = n"
| "seq_back t (Suc l) s n = seq_back t l (t ! s) (n[l := s])"

definition getSequence :: "nat list \<Rightarrow> nat list" where
  "getSequence e = (case fold (seq_step e) [0..<length e] (e, [0]) of (t, n) \<Rightarrow> seq_back t (length n) (last n) n)"

section \<open>Increasing sequences of positions\<close>

text \<open>Positions below \<open>b\<close> that go up, with values that go up; the first position counts also when its value is zero.\<close>

definition rising :: "nat list \<Rightarrow> nat \<Rightarrow> nat list \<Rightarrow> bool" where
  "rising e b xs \<longleftrightarrow> sorted_wrt (\<lambda>i j. i < j \<and> e ! i < e ! j) xs \<and> (\<forall>i\<in>set xs. i < b \<and> (e ! i = 0 \<longrightarrow> i = 0))"

text \<open>The predecessors of a position give a rising sequence of \<open>k + 1\<close> positions.\<close>

fun linked :: "nat list \<Rightarrow> nat list \<Rightarrow> nat \<Rightarrow> nat \<Rightarrow> bool" where
  "linked e t 0 i \<longleftrightarrow> (e ! i = 0 \<longrightarrow> i = 0)"
| "linked e t (Suc k) i \<longleftrightarrow> e ! i \<noteq> 0 \<and> t ! i < i \<and> e ! (t ! i) < e ! i \<and> linked e t k (t ! i)"

fun path :: "nat list \<Rightarrow> nat \<Rightarrow> nat \<Rightarrow> nat list" where
  "path t 0 i = []"
| "path t (Suc k) i = path t k (t ! i) @ [i]"

lemma seq_back_path: "l \<le> length n \<Longrightarrow> seq_back t l s n = path t l s @ drop l n"
  by (induction t l s n rule: seq_back.induct) (simp_all add: Cons_nth_drop_Suc[symmetric])

lemma length_path [simp]: "length (path t k i) = k"
  by (induction t k i rule: path.induct) auto

lemma linked_later: "linked e t k i \<Longrightarrow> i < j \<Longrightarrow> linked e (t[j := x]) k i"
  by (induction k arbitrary: i) auto

lemma rising_append:
  "rising e b (xs @ [i]) \<longleftrightarrow> rising e b xs \<and> i < b \<and> (e ! i = 0 \<longrightarrow> i = 0) \<and> (\<forall>j\<in>set xs. j < i \<and> e ! j < e ! i)"
  by (auto simp: rising_def sorted_wrt_append)

lemma path_below: "linked e t k i \<Longrightarrow> j \<in> set (path t (Suc k) i) \<Longrightarrow> j \<le> i \<and> e ! j \<le> e ! i"
proof (induction k arbitrary: i)
  case (Suc k)
  then have "j = i \<or> j \<in> set (path t (Suc k) (t ! i))" by auto
  then show ?case using Suc.IH[of "t ! i"] Suc.prems(1) by force
qed simp

lemma path_rising: "linked e t k i \<Longrightarrow> i < b \<Longrightarrow> rising e b (path t (Suc k) i)"
proof (induction k arbitrary: i)
  case 0
  then show ?case by (simp add: rising_def)
next
  case (Suc k)
  let ?j = "t ! i"
  have "rising e b (path t (Suc k) ?j)" using Suc.prems by (intro Suc.IH) auto
  moreover have "\<forall>x\<in>set (path t (Suc k) ?j). x < i \<and> e ! x < e ! i"
    using path_below[of e t k ?j] Suc.prems by fastforce
  ultimately show ?case using Suc.prems unfolding path.simps(2)[of t "Suc k"] rising_append by auto
qed

section \<open>The binary search\<close>

lemma seq_search_spec:
  assumes "l \<le> s" "s < length n" "sorted_wrt (\<lambda>i j. e ! i < e ! j) n" "\<forall>k<l. e ! (n ! k) < c" "c \<le> e ! (n ! s)"
  shows "l \<le> seq_search e n c l s \<and> seq_search e n c l s \<le> s \<and> (\<forall>k < seq_search e n c l s. e ! (n ! k) < c) \<and>
    c \<le> e ! (n ! seq_search e n c l s)"
  using assms
proof (induction e n c l s rule: seq_search.induct)
  case (1 e n c l s)
  let ?a = "(l + s) div 2"
  show ?case
  proof (cases "l < s")
    case False
    then have "seq_search e n c l s = l" by (simp add: seq_search.simps[of e n c l s])
    then show ?thesis using False "1.prems" by simp
  next
    case True
    then have a: "l \<le> ?a" "?a < s" by auto
    show ?thesis
    proof (cases "e ! (n ! ?a) < c")
      case below: True
      have "e ! (n ! k) < c" if "k < ?a + 1" for k
      proof (cases "k = ?a")
        case False
        then have "e ! (n ! k) < e ! (n ! ?a)"
          using that a "1.prems"(2) by (intro sorted_wrt_nth_less[OF "1.prems"(3)]) auto
        then show ?thesis using below by simp
      qed (use below in simp)
      then show ?thesis using "1.IH"(1)[OF True refl below] "1.prems" True below a
        by (auto simp: seq_search.simps[of e n c l s] Let_def)
    next
      case False
      then show ?thesis using "1.IH"(2)[OF True refl False] "1.prems" True a
        by (auto simp: seq_search.simps[of e n c l s] Let_def)
    qed
  qed
qed

section \<open>The loop\<close>

text \<open>
  After the positions below \<open>b\<close>: the values of \<open>n\<close> go up, each of its entries ends a rising sequence of
  as many positions as its place says, and no rising sequence of that many positions ends in a smaller value.
\<close>

definition best_ends :: "nat list \<Rightarrow> nat \<Rightarrow> nat list \<Rightarrow> bool" where
  "best_ends e b n \<longleftrightarrow> (\<forall>xs. rising e b xs \<longrightarrow> xs \<noteq> [] \<longrightarrow> length xs \<le> length n \<and> e ! (n ! (length xs - 1)) \<le> e ! last xs)"

definition seq_inv :: "nat list \<Rightarrow> nat \<Rightarrow> nat list \<times> nat list \<Rightarrow> bool" where
  "seq_inv e b = (\<lambda>(t, n). length t = length e \<and> n \<noteq> [] \<and> (\<forall>i\<in>set n. i < b) \<and> sorted_wrt (\<lambda>i j. e ! i < e ! j) n \<and>
     (\<forall>k<length n. linked e t k (n ! k)) \<and> best_ends e b n)"

lemma rising_Suc:
  "rising e (Suc b) xs \<Longrightarrow> rising e b xs \<or> (\<exists>ys. xs = ys @ [b] \<and> rising e b ys \<and> (e ! b = 0 \<longrightarrow> b = 0) \<and> (\<forall>y\<in>set ys. e ! y < e ! b))"
proof (cases xs rule: rev_cases)
  case (snoc ys i)
  assume r: "rising e (Suc b) xs"
  then have ys: "rising e (Suc b) ys" "i < Suc b" "\<forall>j\<in>set ys. j < i \<and> e ! j < e ! i" "e ! i = 0 \<longrightarrow> i = 0"
    by (auto simp: snoc rising_append)
  then have "rising e b ys" by (fastforce simp: rising_def)
  then show ?thesis using ys by (cases "i = b") (auto simp: snoc rising_append)
qed (simp add: rising_def)

text \<open>The optimality of the ends is kept when the new value is put at the first place that is not below it.\<close>

lemma best_ends_step:
  assumes "best_ends e b n" "l \<le> length n" "\<forall>k<length n. k < l \<longleftrightarrow> e ! (n ! k) < e ! b"
    "length n' = max (length n) (Suc l)" "\<forall>k<length n'. e ! (n' ! k) = (if k = l then e ! b else e ! (n ! k))"
    "sorted_wrt (\<lambda>i j. e ! i < e ! j) n"
  shows "best_ends e (Suc b) n'"
  unfolding best_ends_def
proof (intro allI impI)
  fix xs assume r: "rising e (Suc b) xs" "xs \<noteq> []"
  have old: "length ys \<le> length n \<and> e ! (n ! (length ys - 1)) \<le> e ! last ys" if "rising e b ys" "ys \<noteq> []" for ys
    using assms(1) that by (auto simp: best_ends_def)
  consider "rising e b xs" | ys where "xs = ys @ [b]" "rising e b ys" "\<forall>y\<in>set ys. e ! y < e ! b"
    using rising_Suc[OF r(1)] by blast
  then show "length xs \<le> length n' \<and> e ! (n' ! (length xs - 1)) \<le> e ! last xs"
  proof cases
    case 1
    let ?k = "length xs - 1"
    have k: "?k < length n" "e ! (n ! ?k) \<le> e ! last xs" using old[OF 1 r(2)] r(2) by (cases xs; auto)+
    then have "e ! (n' ! ?k) \<le> e ! (n ! ?k)" using assms(3-5) by (cases "?k = l") (auto simp: not_less[symmetric])
    then show ?thesis using k old[OF 1 r(2)] assms(4) by linarith
  next
    case 2
    have "length ys \<le> l"
    proof (cases "ys = []")
      case False
      then have "e ! (n ! (length ys - 1)) < e ! b" using old[OF 2(2)] 2(3) last_in_set[OF False] by fastforce
      moreover have "length ys - 1 < length n" using old[OF 2(2) False] False by (cases ys) auto
      ultimately show ?thesis using assms(3) by (metis Suc_pred' False length_greater_0_conv less_eq_Suc_le)
    qed simp
    moreover have "e ! (n' ! length ys) \<le> e ! b" if "length ys \<le> l"
    proof (cases "length ys = l")
      case False
      then have "length ys < l" "length ys < length n" using that assms(2) by auto
      then show ?thesis using assms(3-5) False by (simp add: less_imp_le)
    qed (use assms(4,5) in simp)
    ultimately show ?thesis using 2(1) assms(4) by simp
  qed
qed

text \<open>The three ways a position can change the ends: it is longer than all, it takes the place of one, or nothing.\<close>

lemma seq_inv_append:
  assumes "seq_inv e b (t, n)" "b < length e" "e ! last n < e ! b"
  shows "seq_inv e (Suc b) (t[b := last n], n @ [b])"
proof -
  have inv: "length t = length e" "n \<noteq> []" "\<forall>i\<in>set n. i < b" "sorted_wrt (\<lambda>i j. e ! i < e ! j) n"
    "\<forall>k<length n. linked e t k (n ! k)" "best_ends e b n"
    using assms(1) by (auto simp: seq_inv_def)
  have low: "e ! (n ! k) < e ! b" if "k < length n" for k
  proof (cases "k < length n - 1")
    case True
    then have "e ! (n ! k) < e ! last n" using sorted_wrt_nth_less[OF inv(4) True] inv(2) by (simp add: last_conv_nth)
    then show ?thesis using assms(3) by simp
  next
    case False
    then have "k = length n - 1" using that by simp
    then show ?thesis using assms(3) inv(2) by (simp add: last_conv_nth)
  qed
  have "best_ends e (Suc b) (n @ [b])"
    by (rule best_ends_step[OF inv(6), of "length n"]) (use low inv(4) in \<open>auto simp: nth_append\<close>)
  moreover have "linked e (t[b := last n]) k ((n @ [b]) ! k)" if "k < Suc (length n)" for k
  proof (cases "k = length n")
    case True
    then obtain m where m: "k = Suc m" using inv(2) by (metis Suc_pred' length_greater_0_conv)
    then have "last n = n ! m" "last n < b" using True inv(2,3) by (auto simp: last_conv_nth)
    then have "linked e (t[b := last n]) m (last n)" using inv(5) True m by (auto intro: linked_later)
    then show ?thesis using m True assms(2,3) inv(1) \<open>last n < b\<close> by (simp add: nth_append)
  qed (use inv(3,5) that in \<open>simp add: nth_append linked_later\<close>)
  ultimately show ?thesis using inv low by (auto simp: seq_inv_def sorted_wrt_append in_set_conv_nth)
qed

lemma seq_inv_replace:
  assumes "seq_inv e b (t, n)" "b < length e" "l < length n" "\<forall>k<length n. k < l \<longleftrightarrow> e ! (n ! k) < e ! b"
    "e ! b < e ! (n ! l)" "e ! b \<noteq> 0"
  shows "seq_inv e (Suc b) (if 0 < l then t[b := n ! (l - 1)] else t, n[l := b])"
proof -
  let ?t = "if 0 < l then t[b := n ! (l - 1)] else t"
  have inv: "length t = length e" "n \<noteq> []" "\<forall>i\<in>set n. i < b" "sorted_wrt (\<lambda>i j. e ! i < e ! j) n"
    "\<forall>k<length n. linked e t k (n ! k)" "best_ends e b n"
    using assms(1) by (auto simp: seq_inv_def)
  have "best_ends e (Suc b) (n[l := b])"
    by (rule best_ends_step[OF inv(6) _ assms(4) _ _ inv(4)]) (use assms(3) in \<open>auto simp: nth_list_update\<close>)
  moreover have "linked e ?t k (n[l := b] ! k)" if "k < length n" for k
  proof (cases "k = l")
    case False
    then show ?thesis using inv(3,5) that by (simp add: linked_later)
  next
    case True
    show ?thesis
    proof (cases l)
      case (Suc m)
      then have "m < length n" "m < l" using assms(3) by auto
      then have "e ! (n ! m) < e ! b" "n ! m < b" using assms(4) inv(3) by auto
      then show ?thesis using True Suc assms(2,3,6) inv(1,5) by (simp add: linked_later)
    qed (use True assms(3,6) in simp)
  qed
  moreover have "e ! (n[l := b] ! i) < e ! (n[l := b] ! j)" if "i < j" "j < length n" for i j
    using sorted_wrt_nth_less[OF inv(4) that] sorted_wrt_nth_less[OF inv(4), of l j] that assms(3,5) assms(4)[rule_format, of i]
    by (auto simp: nth_list_update)
  ultimately show ?thesis using inv assms(3)
    by (auto simp: seq_inv_def sorted_wrt_iff_nth_less dest!: set_update_subset_insert[THEN subsetD])
qed

lemma seq_inv_same:
  assumes "seq_inv e b (t, n)" "best_ends e (Suc b) n"
  shows "seq_inv e (Suc b) (t, n)"
  using assms by (auto simp: seq_inv_def)

lemma seq_step_inv:
  assumes "seq_inv e b s" "0 < b" "b < length e"
  shows "seq_inv e (Suc b) (seq_step e b s)"
proof (cases s)
  case (Pair t n)
  let ?c = "e ! b" and ?l = "seq_search e n (e ! b) 0 (length n - 1)"
  have inv: "seq_inv e b (t, n)" "n \<noteq> []" "sorted_wrt (\<lambda>i j. e ! i < e ! j) n" "best_ends e b n"
    using assms(1) by (auto simp: seq_inv_def Pair)
  consider "?c = 0" | "e ! last n < ?c" | "?c \<noteq> 0" "?c \<le> e ! last n" by linarith
  then show ?thesis
  proof cases
    case 1
    then have "best_ends e (Suc b) n" using inv(4) rising_Suc[of e b] assms(2) unfolding best_ends_def by blast
    then show ?thesis using seq_inv_same[OF inv(1)] 1 by (simp add: seq_step_def Pair)
  next
    case 2
    then show ?thesis using seq_inv_append[OF inv(1) assms(3)] by (simp add: seq_step_def Pair Let_def)
  next
    case 3
    have l: "?l < length n" "\<forall>k<?l. e ! (n ! k) < ?c" "?c \<le> e ! (n ! ?l)"
      using seq_search_spec[of 0 "length n - 1" n e ?c] inv(2,3) 3(2) by (auto simp: last_conv_nth intro: le_less_trans)
    have "\<not> e ! (n ! k) < ?c" if "?l \<le> k" "k < length n" for k
      using sorted_wrt_nth_less[OF inv(3), of ?l k] that l(3) by (cases "?l = k") auto
    then have split: "\<forall>k<length n. k < ?l \<longleftrightarrow> e ! (n ! k) < ?c" using l(2) by (auto simp: not_le[symmetric])
    show ?thesis
    proof (cases "?c < e ! (n ! ?l)")
      case True
      then have "seq_step e b s = (if 0 < ?l then t[b := n ! (?l - 1)] else t, n[?l := b])"
        using 3 by (simp add: seq_step_def Pair Let_def)
      then show ?thesis using seq_inv_replace[OF inv(1) assms(3) l(1) split True 3(1)] by (simp only:)
    next
      case False
      have "best_ends e (Suc b) n"
        by (rule best_ends_step[OF inv(4) _ split _ _ inv(3)]) (use l False in auto)
      then show ?thesis using seq_inv_same[OF inv(1)] 3 False by (simp add: seq_step_def Pair Let_def)
    qed
  qed
qed

lemma seq_loop_inv: "0 < b \<Longrightarrow> b \<le> length e \<Longrightarrow> seq_inv e b (fold (seq_step e) [0..<b] (e, [0]))"
proof (induction b)
  case (Suc b)
  show ?case
  proof (cases b)
    case 0
    have "rising e 1 xs \<Longrightarrow> xs \<noteq> [] \<Longrightarrow> xs = [0]" for xs
      by (cases xs; cases "tl xs") (auto simp: rising_def)
    then have "best_ends e 1 [0]" by (fastforce simp: best_ends_def)
    moreover have "seq_step e 0 (e, [0]) = (e, [0])" by (simp add: seq_step_def Let_def seq_search.simps[of e "[0]" "e ! 0" 0 0])
    ultimately show ?thesis using 0 by (simp add: seq_inv_def)
  next
    case (Suc m)
    then show ?thesis using seq_step_inv[OF Suc.IH] Suc.prems Suc by simp
  qed
qed simp

section \<open>The result\<close>

text \<open>Rising sequences of positions that all have a value.\<close>

definition rising_nonzero :: "nat list \<Rightarrow> nat list \<Rightarrow> bool" where
  "rising_nonzero e xs \<longleftrightarrow> sorted_wrt (\<lambda>i j. i < j \<and> e ! i < e ! j) xs \<and> (\<forall>i\<in>set xs. i < length e \<and> e ! i \<noteq> 0)"

lemma getSequence_rising:
  assumes "e \<noteq> []"
  shows "rising e (length e) (getSequence e)" "\<And>xs. rising e (length e) xs \<Longrightarrow> length xs \<le> length (getSequence e)"
proof -
  obtain t n where f: "fold (seq_step e) [0..<length e] (e, [0]) = (t, n)" by fastforce
  then have inv: "seq_inv e (length e) (t, n)" using seq_loop_inv[of "length e" e] assms by simp
  then obtain k where k: "length n = Suc k" by (cases n) (auto simp: seq_inv_def)
  have g: "getSequence e = path t (length n) (last n)" using f by (simp add: getSequence_def seq_back_path)
  have "linked e t k (last n)" "last n < length e" using inv k by (auto simp: seq_inv_def last_conv_nth)
  then show "rising e (length e) (getSequence e)" using path_rising unfolding g k by blast
  show "length xs \<le> length (getSequence e)" if "rising e (length e) xs" for xs
    using inv that unfolding g by (cases "xs = []") (auto simp: seq_inv_def best_ends_def)
qed

lemma getSequence_nonzero:
  assumes "e \<noteq> []"
  shows "getSequence e = filter (\<lambda>i. e ! i \<noteq> 0) (getSequence e) \<or>
    e ! 0 = 0 \<and> getSequence e = 0 # filter (\<lambda>i. e ! i \<noteq> 0) (getSequence e)"
proof (cases "getSequence e")
  case (Cons i xs)
  then have r: "rising e (length e) (i # xs)" using getSequence_rising(1)[OF assms] by simp
  then have "\<forall>x\<in>set xs. e ! x \<noteq> 0" by (force simp: rising_def)
  then have "filter (\<lambda>i. e ! i \<noteq> 0) xs = xs" by (rule filter_True)
  then show ?thesis using r Cons by (auto simp: rising_def)
qed simp

lemma getSequence_longest_aux:
  assumes "e \<noteq> []" "rising_nonzero e ys"
  shows "length ys \<le> length (filter (\<lambda>i. e ! i \<noteq> 0) (getSequence e))"
proof (cases "getSequence e = filter (\<lambda>i. e ! i \<noteq> 0) (getSequence e)")
  case True
  have "rising e (length e) ys" using assms(2) by (auto simp: rising_nonzero_def rising_def)
  then show ?thesis using getSequence_rising(2)[OF assms(1)] True by auto
next
  case False
  then have g: "e ! 0 = 0" "getSequence e = 0 # filter (\<lambda>i. e ! i \<noteq> 0) (getSequence e)"
    using getSequence_nonzero[OF assms(1)] by auto
  then have "rising e (length e) (0 # ys)" using assms
    by (fastforce simp: rising_nonzero_def rising_def intro: gr0I)
  then have "length (0 # ys) \<le> length (getSequence e)" by (rule getSequence_rising(2)[OF assms(1)])
  moreover have "length (getSequence e) = Suc (length (filter (\<lambda>i. e ! i \<noteq> 0) (getSequence e)))"
    using g(2) by (metis length_Cons)
  ultimately show ?thesis by simp
qed

text \<open>C11: The search of the renderer finds a longest increasing sequence: the positions it returns go up and their
  values go up, and no sequence of positions with a value and with values that go up is longer. Its result has at most one
  position without a value, the first one, in front.\<close>

theorem getSequence_longest:
  assumes "e \<noteq> []"
  defines "xs \<equiv> filter (\<lambda>i. e ! i \<noteq> 0) (getSequence e)"
  shows "rising_nonzero e xs \<and> (\<forall>ys. rising_nonzero e ys \<longrightarrow> length ys \<le> length xs) \<and> getSequence e \<in> {xs, 0 # xs}"
proof (intro conjI allI impI)
  show "rising_nonzero e xs" using getSequence_rising(1)[OF assms(1)]
    by (auto simp: rising_nonzero_def rising_def xs_def sorted_wrt_filter)
  show "getSequence e \<in> {xs, 0 # xs}" using getSequence_nonzero[OF assms(1)] by (auto simp: xs_def)
qed (use getSequence_longest_aux[OF assms(1)] in \<open>simp add: xs_def\<close>)

theorem getSequence_longest_witness:
  "[0, 3, 1, 2, 5, 4 :: nat] \<noteq> [] \<and> getSequence [0, 3, 1, 2, 5, 4] = [0, 2, 3, 5] \<and>
   rising_nonzero [0, 3, 1, 2, 5, 4] (filter (\<lambda>i. [0, 3, 1, 2, 5, 4 :: nat] ! i \<noteq> 0) (getSequence [0, 3, 1, 2, 5, 4]))"
proof -
  have "getSequence [0, 3, 1, 2, 5, 4] = [0, 2, 3, 5]" by code_simp
  then show ?thesis using getSequence_longest[of "[0, 3, 1, 2, 5, 4]"] by simp
qed

end
