(* ===== verification/Children_Diff.thy ===== *)
theory Children_Diff
  imports Longest_Sequence "HOL-Library.Monad_Syntax"
begin

text \<open>
  How the renderer of the bundled framework brings the children of an element up to date
  (\<open>index-e87360db.js\<close>): \<open>B\<close> for lists whose children have keys and \<open>E\<close> for lists without, with
  \<open>Zr\<close>, and \<open>h\<close>, \<open>X\<close>, \<open>G\<close> and \<open>j\<close> for children that are plain elements, each with one host
  node in the container and without a transition.  A host node is a number, \<open>nodes\<close> are the children of the container
  in the document, and \<open>els\<close> are the host nodes that the new children have been given so far (the field \<open>el\<close> of
  each, None for null).  What a patch does inside an element (its attributes, its own children) does not concern the
  container.  The children are virtual nodes: the texts among them have been wrapped (\<open>$o\<close>, \<open>yr\<close>).  The ends
  \<open>xe\<close> and \<open>Ve\<close> of the source are inclusive and may be -1; here they are one past the end.
\<close>

section \<open>The document\<close>

text \<open>
  \<open>insertBefore\<close>: a node that is in the container already is taken out first; without a reference node it goes to the
  end; a reference node that is not in the container is an exception, None.
\<close>

definition insert_before :: "nat \<Rightarrow> nat option \<Rightarrow> nat list \<Rightarrow> nat list option" where
  "insert_before x a ds = (case a of None \<Rightarrow> Some (removeAll x ds @ [x])
     | Some c \<Rightarrow> if c \<notin> set ds then None else if c = x then Some ds
         else let ds' = removeAll x ds in Some (takeWhile (\<lambda>d. d \<noteq> c) ds' @ x # dropWhile (\<lambda>d. d \<noteq> c) ds'))"

definition nextSibling :: "nat \<Rightarrow> nat list \<Rightarrow> nat option" where
  "nextSibling x ds = (case dropWhile (\<lambda>d. d \<noteq> x) ds of _ # y # _ \<Rightarrow> Some y | _ \<Rightarrow> None)"

section \<open>Virtual nodes and the page\<close>

record vnode =
  vtype :: string
  vkey :: "string option"
  el :: nat

record page =
  nodes :: "nat list"
  fresh :: nat
  els :: "nat option list"
  moved :: nat

definition same_vnode :: "vnode \<Rightarrow> vnode \<Rightarrow> bool" where
  "same_vnode z q \<longleftrightarrow> vtype z = vtype q \<and> vkey z = vkey q"

text \<open>\<open>h(null, q[i], container, anchor)\<close>: a new host node.\<close>

definition mount :: "nat \<Rightarrow> nat option \<Rightarrow> page \<Rightarrow> page option" where
  "mount i a st = (case insert_before (fresh st) a (nodes st) of None \<Rightarrow> None
     | Some ds \<Rightarrow> Some (st\<lparr>nodes := ds, fresh := fresh st + 1, els := (els st)[i := Some (fresh st)]\<rparr>))"

definition unmount :: "vnode \<Rightarrow> page \<Rightarrow> page" where
  "unmount z st = st\<lparr>nodes := removeAll (el z) (nodes st)\<rparr>"

text \<open>\<open>h(z, q[i], container, null)\<close>: an old child of another type makes place for a new one.\<close>

definition patch :: "vnode \<Rightarrow> vnode \<Rightarrow> nat \<Rightarrow> page \<Rightarrow> page option" where
  "patch z q i st = (if same_vnode z q then Some (st\<lparr>els := (els st)[i := Some (el z)]\<rparr>)
     else mount i (nextSibling (el z) (nodes st)) (unmount z st))"

text \<open>\<open>j(q[i], container, anchor, 2)\<close>; a child without a host node is an exception.\<close>

definition move :: "nat \<Rightarrow> nat option \<Rightarrow> page \<Rightarrow> page option" where
  "move i a st = (case els st ! i of None \<Rightarrow> None
     | Some x \<Rightarrow> (case insert_before x a (nodes st) of None \<Rightarrow> None | Some ds \<Rightarrow> Some (st\<lparr>nodes := ds, moved := moved st + 1\<rparr>)))"

section \<open>Children with keys\<close>

text \<open>The common children at the start and at the end.\<close>

function syncHead :: "vnode list \<Rightarrow> vnode list \<Rightarrow> nat \<Rightarrow> page \<Rightarrow> (nat \<times> page) option" where
  "syncHead z q i st = (if i < length z \<and> i < length q then
       (if same_vnode (z ! i) (q ! i) then do { st' \<leftarrow> patch (z ! i) (q ! i) i st; syncHead z q (i + 1) st' } else Some (i, st))
     else Some (i, st))"
  by pat_completeness auto
termination by (relation "measure (\<lambda>(z, q, i, st). length z - i)") auto

function syncTail :: "vnode list \<Rightarrow> vnode list \<Rightarrow> nat \<Rightarrow> nat \<Rightarrow> nat \<Rightarrow> page \<Rightarrow> (nat \<times> nat \<times> page) option" where
  "syncTail z q i xe ve st = (if i < xe \<and> i < ve then
       (if same_vnode (z ! (xe - 1)) (q ! (ve - 1))
        then do { st' \<leftarrow> patch (z ! (xe - 1)) (q ! (ve - 1)) (ve - 1) st; syncTail z q i (xe - 1) (ve - 1) st' } else Some (xe, ve, st))
     else Some (xe, ve, st))"
  by pat_completeness auto
termination by (relation "measure (\<lambda>(z, q, i, xe, ve, st). xe)") auto

declare syncHead.simps [simp del] syncTail.simps [simp del]

text \<open>The node in front of which the child before position \<open>p\<close> belongs.\<close>

definition anchor_at :: "vnode list \<Rightarrow> nat option \<Rightarrow> nat \<Rightarrow> page \<Rightarrow> nat option" where
  "anchor_at q anchor p st = (if p < length q then els st ! p else anchor)"

fun mountRange :: "nat list \<Rightarrow> nat option \<Rightarrow> page \<Rightarrow> page option" where
  "mountRange [] a st = Some st"
| "mountRange (i # is) a st = do { st' \<leftarrow> mount i a st; mountRange is a st' }"

text \<open>The positions of the keys among the new children from \<open>lo\<close> to below \<open>ve\<close>; a key that is there twice has its last.\<close>

definition keyToNewIndex :: "vnode list \<Rightarrow> nat \<Rightarrow> nat \<Rightarrow> string \<Rightarrow> nat option" where
  "keyToNewIndex q lo ve = fold (\<lambda>i m. case vkey (q ! i) of None \<Rightarrow> m | Some k \<Rightarrow> m(k \<mapsto> i)) [lo..<ve] Map.empty"

text \<open>
  The state of the loop over the old children: \<open>ne\<close> holds for every new child the position of its old child plus one,
  \<open>dt\<close> counts the matches, \<open>de\<close> says whether something has moved, \<open>se\<close> is the largest position so far.
\<close>

record matching =
  ne :: "nat list"
  dt :: nat
  de :: bool
  se :: nat

definition newIndex :: "vnode list \<Rightarrow> nat \<Rightarrow> nat \<Rightarrow> vnode \<Rightarrow> matching \<Rightarrow> nat option" where
  "newIndex q lo ve y m = (case vkey y of Some k \<Rightarrow> keyToNewIndex q lo ve k
     | None \<Rightarrow> List.find (\<lambda>t. ne m ! (t - lo) = 0 \<and> same_vnode y (q ! t)) [lo..<ve])"

definition matchOld :: "vnode list \<Rightarrow> vnode list \<Rightarrow> nat \<Rightarrow> nat \<Rightarrow> nat \<Rightarrow> matching \<times> page \<Rightarrow> (matching \<times> page) option" where
  "matchOld z q lo ve i = (\<lambda>(m, st). let y = z ! i in
     if ve - lo \<le> dt m then Some (m, unmount y st)
     else case newIndex q lo ve y m of None \<Rightarrow> Some (m, unmount y st)
       | Some a \<Rightarrow> (let m' = m\<lparr>ne := (ne m)[a - lo := i + 1], dt := dt m + 1, de := de m \<or> a < se m, se := (if se m \<le> a then a else se m)\<rparr>
           in do { st' \<leftarrow> patch y (q ! a) a st; Some (m', st') }))"

fun matchAll :: "vnode list \<Rightarrow> vnode list \<Rightarrow> nat \<Rightarrow> nat \<Rightarrow> nat list \<Rightarrow> matching \<times> page \<Rightarrow> (matching \<times> page) option" where
  "matchAll z q lo ve [] s = Some s"
| "matchAll z q lo ve (i # is) s = do { s' \<leftarrow> matchOld z q lo ve i s; matchAll z q lo ve is s' }"

text \<open>The last loop, from the last new child to the first; \<open>k\<close> is the number of entries of \<open>we\<close> not yet passed.\<close>

fun place :: "vnode list \<Rightarrow> nat option \<Rightarrow> nat \<Rightarrow> matching \<Rightarrow> nat list \<Rightarrow> nat \<Rightarrow> nat \<Rightarrow> page \<Rightarrow> page option" where
  "place q anchor lo m we 0 k st = Some st"
| "place q anchor lo m we (Suc e) k st = (let y = lo + e; a = anchor_at q anchor (y + 1) st in
     if ne m ! e = 0 then do { st' \<leftarrow> mount y a st; place q anchor lo m we e k st' }
     else if de m then
       (if k = 0 \<or> e \<noteq> we ! (k - 1) then do { st' \<leftarrow> move y a st; place q anchor lo m we e k st' }
        else place q anchor lo m we e (k - 1) st)
     else place q anchor lo m we e k st)"

definition patchUnknown :: "vnode list \<Rightarrow> vnode list \<Rightarrow> nat option \<Rightarrow> nat \<Rightarrow> nat \<Rightarrow> nat \<Rightarrow> page \<Rightarrow> page option" where
  "patchUnknown z q anchor lo xe ve st = do {
     (m, st') \<leftarrow> matchAll z q lo ve [lo..<xe] (\<lparr>ne = replicate (ve - lo) 0, dt = 0, de = False, se = 0\<rparr>, st);
     let we = (if de m then getSequence (ne m) else []);
     place q anchor lo m we (ve - lo) (length we) st' }"

definition patchKeyedChildren :: "vnode list \<Rightarrow> vnode list \<Rightarrow> nat option \<Rightarrow> page \<Rightarrow> page option" where
  "patchKeyedChildren z q anchor st = do {
     (i, st) \<leftarrow> syncHead z q 0 st;
     (xe, ve, st) \<leftarrow> syncTail z q i (length z) (length q) st;
     if xe \<le> i then (if i < ve then mountRange [i..<ve] (anchor_at q anchor ve st) st else Some st)
     else if ve \<le> i then Some (fold (\<lambda>k. unmount (z ! k)) [i..<xe] st)
     else patchUnknown z q anchor i xe ve st }"

section \<open>Children without keys\<close>

fun patchRange :: "vnode list \<Rightarrow> vnode list \<Rightarrow> nat list \<Rightarrow> page \<Rightarrow> page option" where
  "patchRange z q [] st = Some st"
| "patchRange z q (i # is) st = do { st' \<leftarrow> patch (z ! i) (q ! i) i st; patchRange z q is st' }"

definition patchUnkeyedChildren :: "vnode list \<Rightarrow> vnode list \<Rightarrow> nat option \<Rightarrow> page \<Rightarrow> page option" where
  "patchUnkeyedChildren z q anchor st = (let c = min (length z) (length q) in do {
     st \<leftarrow> patchRange z q [0..<c] st;
     if length q < length z then Some (fold (\<lambda>k. unmount (z ! k)) [c..<length z] st)
     else mountRange [c..<length q] anchor st })"


section \<open>Laws of the document\<close>

text \<open>The first node of a list, as a reference node.\<close>

definition first :: "nat list \<Rightarrow> nat option" where
  "first xs = (case xs of [] \<Rightarrow> None | x # _ \<Rightarrow> Some x)"

lemma first_simps [simp]: "first [] = None" "first (x # xs) = Some x"
  by (simp_all add: first_def)

lemma insert_before_front:
  assumes "distinct ds" "ds = us @ vs" "x \<notin> set ds"
  shows "insert_before x (first vs) ds = Some (us @ x # vs)"
proof (cases vs)
  case (Cons v vs')
  have "removeAll x ds = us @ v # vs'" "\<forall>u\<in>set us. u \<noteq> v" using assms Cons by (auto simp: removeAll_id)
  then show ?thesis using assms Cons by (auto simp: insert_before_def Let_def takeWhile_append2 dropWhile_append2)
qed (use assms in \<open>simp add: insert_before_def removeAll_id\<close>)

text \<open>Seen through a filter that the node in question does not pass, it lands in front of the reference node.\<close>

lemma insert_before_filter:
  assumes "distinct ds" "filter P ds = us @ vs" "\<not> P x"
  shows "\<exists>ds'. insert_before x (first vs) ds = Some ds' \<and> distinct ds' \<and> set ds' = insert x (set ds) \<and>
    filter (\<lambda>y. P y \<or> y = x) ds' = us @ x # vs"
proof -
  let ?ds = "removeAll x ds"
  have P: "filter (\<lambda>y. P y \<or> y = x) zs = filter P zs" if "x \<notin> set zs" for zs
    using that by (intro filter_cong) auto
  have f: "filter P ?ds = us @ vs" using assms by (simp add: removeAll_filter_not_eq) (metis (mono_tags, lifting) filter_cong)
  show ?thesis
  proof (cases vs)
    case Nil
    then show ?thesis using assms f P[of ?ds] by (auto simp: insert_before_def distinct_removeAll)
  next
    case (Cons v vs')
    have "v \<in> set (filter P ?ds)" using f Cons by simp
    then have v: "v \<in> set ?ds" "v \<in> set ds" "v \<noteq> x" "P v" using assms(3) by auto
    then obtain as bs where ab: "?ds = as @ v # bs" "v \<notin> set as" by (metis split_list_first)
    have d: "distinct ?ds" using assms(1) by (rule distinct_removeAll)
    have vs: "filter P as @ v # filter P bs = us @ v # vs'" using f v(4) Cons by (simp add: ab)
    have "v \<notin> set bs" using d ab by simp
    have "distinct (us @ v # vs')" using distinct_filter[OF d, of P] f Cons by simp
    then have s: "filter P as = us" "filter P bs = vs'"
      using vs ab(2) append_Cons_eq_iff[of v "filter P as" "filter P bs" us vs'] \<open>v \<notin> set bs\<close> by auto
    have "x \<notin> set ?ds" by simp
    then have x: "x \<notin> set as" "x \<notin> set bs" unfolding ab(1) by auto
    have "takeWhile (\<lambda>d. d \<noteq> v) (as @ v # bs) = as" "dropWhile (\<lambda>d. d \<noteq> v) (as @ v # bs) = v # bs"
      using ab(2) by (subst takeWhile_append2 dropWhile_append2; auto)+
    then have "insert_before x (first vs) ds = Some (as @ x # v # bs)"
      using v ab Cons by (simp add: insert_before_def Let_def)
    moreover have "set ds \<union> {x} = set ?ds \<union> {x}" by auto
    ultimately show ?thesis using d x s v Cons P[of as] P[of bs] by (auto simp: ab)
  qed
qed

lemma nextSibling_split:
  assumes "distinct (us @ x # vs)"
  shows "nextSibling x (us @ x # vs) = first vs"
proof -
  have "dropWhile (\<lambda>d. d \<noteq> x) (us @ x # vs) = x # vs" using assms by (subst dropWhile_append2) auto
  then show ?thesis by (cases vs) (simp_all add: nextSibling_def)
qed

lemma mount_split:
  assumes "nodes st = us @ vs" "distinct (nodes st)" "\<forall>x\<in>set (nodes st). x < fresh st"
  shows "mount i (first vs) st =
    Some (st\<lparr>nodes := us @ fresh st # vs, fresh := fresh st + 1, els := (els st)[i := Some (fresh st)]\<rparr>)"
  using insert_before_front[OF assms(2,1), of "fresh st"] assms(3) by (auto simp: mount_def)

text \<open>A patch gives the new child a host node where the old child was.\<close>

lemma patch_split:
  assumes "nodes st = us @ el z # vs" "distinct (nodes st)" "\<forall>x\<in>set (nodes st). x < fresh st"
  shows "\<exists>x f. patch z q i st = Some (st\<lparr>nodes := us @ x # vs, fresh := f, els := (els st)[i := Some x]\<rparr>) \<and>
    x = (if same_vnode z q then el z else fresh st) \<and> fresh st \<le> f \<and> x < f"
proof (cases "same_vnode z q")
  case True
  have "patch z q i st = Some (st\<lparr>nodes := us @ el z # vs, fresh := fresh st, els := (els st)[i := Some (el z)]\<rparr>)"
    using True assms(1) by (simp add: patch_def)
  then show ?thesis using assms(1,3) True by (intro exI[of _ "el z"] exI[of _ "fresh st"]) simp
next
  case False
  have "removeAll (el z) (nodes st) = us @ vs" using assms(1,2) by simp
  then have "mount i (first vs) (unmount z st) = Some (st\<lparr>nodes := us @ fresh st # vs, fresh := fresh st + 1, els := (els st)[i := Some (fresh st)]\<rparr>)"
    using mount_split[of "unmount z st" us vs i] assms by (auto simp: unmount_def)
  then have "patch z q i st = Some (st\<lparr>nodes := us @ fresh st # vs, fresh := fresh st + 1, els := (els st)[i := Some (fresh st)]\<rparr>)"
    using False assms(1,2) nextSibling_split[of us "el z" vs] by (simp add: patch_def)
  then show ?thesis using False by (intro exI[of _ "fresh st"] exI[of _ "fresh st + 1"]) simp
qed

lemma distinct_middle: "distinct (us @ x # vs) \<Longrightarrow> distinct (us @ vs)"
  by auto

lemma set_middle: "set (us @ vs) \<subseteq> set (us @ x # vs)"
  by auto

lemma unmount_split: "nodes st = us @ el z # vs \<Longrightarrow> distinct (nodes st) \<Longrightarrow> unmount z st = st\<lparr>nodes := us @ vs\<rparr>"
  by (simp add: unmount_def)


section \<open>The common ends\<close>

text \<open>The host nodes of old children, as the new ones take them over.\<close>

abbreviation kept :: "vnode list \<Rightarrow> nat option list" where
  "kept zs \<equiv> map (\<lambda>z. Some (el z)) zs"

lemma syncHead_spec:
  "els st = kept (take i z) @ replicate (length q - i) None \<Longrightarrow> i \<le> length z \<Longrightarrow> i \<le> length q \<Longrightarrow>
   \<exists>i'. syncHead z q i st = Some (i', st\<lparr>els := kept (take i' z) @ replicate (length q - i') None\<rparr>) \<and>
     i \<le> i' \<and> i' \<le> length z \<and> i' \<le> length q \<and> (\<forall>k. i \<le> k \<longrightarrow> k < i' \<longrightarrow> same_vnode (z ! k) (q ! k))"
proof (induction z q i st rule: syncHead.induct)
  case (1 z q i st)
  show ?case
  proof (cases "i < length z \<and> i < length q \<and> same_vnode (z ! i) (q ! i)")
    case False
    then have "syncHead z q i st = Some (i, st)" by (auto simp: syncHead.simps[of z q i st])
    then show ?thesis using "1.prems" by (intro exI[of _ i]) (auto simp flip: "1.prems"(1))
  next
    case True
    define st' where "st' = st\<lparr>els := kept (take (i + 1) z) @ replicate (length q - (i + 1)) None\<rparr>"
    have "replicate (length q - i) None = None # replicate (length q - (i + 1)) (None :: nat option)"
      using True by (metis Suc_diff_Suc Suc_eq_plus1 replicate_Suc)
    then have "(els st)[i := Some (el (z ! i))] = kept (take (i + 1) z) @ replicate (length q - (i + 1)) None"
      using True "1.prems"(1) by (simp add: list_update_append take_Suc_conv_app_nth)
    then have p: "patch (z ! i) (q ! i) i st = Some st'" using True by (simp add: patch_def st'_def)
    then have run: "syncHead z q i st = syncHead z q (i + 1) st'" using True by (simp add: syncHead.simps[of z q i st])
    obtain i' where "syncHead z q (i + 1) st' = Some (i', st'\<lparr>els := kept (take i' z) @ replicate (length q - i') None\<rparr>)"
      "i + 1 \<le> i'" "i' \<le> length z" "i' \<le> length q" "\<forall>k. i + 1 \<le> k \<longrightarrow> k < i' \<longrightarrow> same_vnode (z ! k) (q ! k)"
      using "1.IH"[of st'] True p by (auto simp: st'_def)
    moreover have "same_vnode (z ! k) (q ! k)" if "i \<le> k" "k < i'" for k
      using calculation(5) True that by (cases "k = i") auto
    ultimately show ?thesis unfolding run by (intro exI[of _ i']) (simp add: st'_def)
  qed
qed

lemma syncTail_spec:
  "els st = hs @ replicate (ve - i) None @ kept (drop xe z) \<Longrightarrow> length hs = i \<Longrightarrow> i \<le> xe \<Longrightarrow> i \<le> ve \<Longrightarrow> xe \<le> length z \<Longrightarrow>
   \<exists>xe' ve'. syncTail z q i xe ve st = Some (xe', ve', st\<lparr>els := hs @ replicate (ve' - i) None @ kept (drop xe' z)\<rparr>) \<and>
     i \<le> xe' \<and> i \<le> ve' \<and> xe' \<le> xe \<and> ve' + xe = xe' + ve \<and>
     (\<forall>k. xe' \<le> k \<longrightarrow> k < xe \<longrightarrow> same_vnode (z ! k) (q ! (k + ve' - xe')))"
proof (induction z q i xe ve st rule: syncTail.induct)
  case (1 z q i xe ve st)
  show ?case
  proof (cases "i < xe \<and> i < ve \<and> same_vnode (z ! (xe - 1)) (q ! (ve - 1))")
    case False
    then have "syncTail z q i xe ve st = Some (xe, ve, st)" by (auto simp: syncTail.simps[of z q i xe ve st])
    then show ?thesis using "1.prems" by (intro exI[of _ xe] exI[of _ ve]) (auto simp flip: "1.prems"(1))
  next
    case True
    define st' where "st' = st\<lparr>els := hs @ replicate (ve - 1 - i) None @ kept (drop (xe - 1) z)\<rparr>"
    have r: "replicate (ve - i) None = replicate (ve - 1 - i) None @ [None :: nat option]"
      using True by (metis Suc_diff_1 Suc_diff_le diff_is_0_eq gr0I leD less_Suc_eq_le replicate_append_same replicate_Suc not_less0)
    have "drop (xe - 1) z = z ! (xe - 1) # drop xe z"
      using True "1.prems"(5) by (metis Cons_nth_drop_Suc Suc_diff_1 Suc_le_lessD gr_implies_not0 not_gr0)
    then have "(els st)[ve - 1 := Some (el (z ! (xe - 1)))] = hs @ replicate (ve - 1 - i) None @ kept (drop (xe - 1) z)"
      using True "1.prems"(1,2) unfolding r by (auto simp: list_update_append)
    then have p: "patch (z ! (xe - 1)) (q ! (ve - 1)) (ve - 1) st = Some st'" using True by (simp add: patch_def st'_def)
    then have run: "syncTail z q i xe ve st = syncTail z q i (xe - 1) (ve - 1) st'" using True by (simp add: syncTail.simps[of z q i xe ve st])
    obtain xe' ve' where t: "syncTail z q i (xe - 1) (ve - 1) st' = Some (xe', ve', st'\<lparr>els := hs @ replicate (ve' - i) None @ kept (drop xe' z)\<rparr>)"
      "i \<le> xe'" "i \<le> ve'" "xe' \<le> xe - 1" "ve' + (xe - 1) = xe' + (ve - 1)"
      "\<forall>k. xe' \<le> k \<longrightarrow> k < xe - 1 \<longrightarrow> same_vnode (z ! k) (q ! (k + ve' - xe'))"
    proof -
      have "els st' = hs @ replicate (ve - 1 - i) None @ kept (drop (xe - 1) z)" "i \<le> xe - 1" "i \<le> ve - 1" "xe - 1 \<le> length z"
        using True "1.prems"(5) by (auto simp: st'_def)
      then show thesis using "1.IH"[OF _ _ p _ "1.prems"(2)] True that by blast
    qed
    have "same_vnode (z ! k) (q ! (k + ve' - xe'))" if "xe' \<le> k" "k < xe" for k
    proof (cases "k = xe - 1")
      case at: True
      then have "k + ve' - xe' = ve - 1" using t(2-5) True by linarith
      then show ?thesis using True at by simp
    qed (use t(6) that in auto)
    then show ?thesis using True t unfolding run
      by (intro exI[of _ xe'] exI[of _ ve']) (auto simp: st'_def)
  qed
qed

text \<open>Mounting in front of one reference node, and taking out a row of nodes.\<close>

lemma mountRange_spec:
  assumes "nodes st = us @ vs" "distinct (nodes st)" "\<forall>x\<in>set (nodes st). x < fresh st" "els st = hs @ replicate n None @ ts" "i = length hs"
  shows "mountRange [i..<i + n] (first vs) st = Some (st\<lparr>nodes := us @ [fresh st..<fresh st + n] @ vs, fresh := fresh st + n,
    els := hs @ map Some [fresh st..<fresh st + n] @ ts\<rparr>)"
  using assms
proof (induction n arbitrary: us st hs i)
  case (Suc n)
  let ?f = "fresh st"
  define st' where "st' = st\<lparr>nodes := (us @ [?f]) @ vs, fresh := ?f + 1, els := (hs @ [Some ?f]) @ replicate n None @ ts\<rparr>"
  have "mount i (first vs) st = Some st'" using mount_split[OF Suc.prems(1-3)] Suc.prems(4,5)
    by (simp add: st'_def list_update_append)
  moreover have "mountRange [Suc i..<Suc i + n] (first vs) st' = Some (st'\<lparr>nodes := (us @ [?f]) @ [fresh st'..<fresh st' + n] @ vs, fresh := fresh st' + n,
    els := (hs @ [Some ?f]) @ map Some [fresh st'..<fresh st' + n] @ ts\<rparr>)"
    by (rule Suc.IH) (use Suc.prems in \<open>auto simp: st'_def less_SucI\<close>)
  moreover have "[x..<x + Suc n] = x # [Suc x..<Suc x + n]" for x :: nat by (simp add: upt_conv_Cons del: upt_Suc)
  ultimately show ?case by (simp add: st'_def del: upt_Suc)
qed simp

lemma unmountRange_spec:
  assumes "nodes st = us @ map el (take (xe - i) (drop i z)) @ vs" "distinct (nodes st)" "i \<le> xe" "xe \<le> length z"
  shows "fold (\<lambda>k. unmount (z ! k)) [i..<xe] st = st\<lparr>nodes := us @ vs\<rparr>"
  using assms
proof (induction "xe - i" arbitrary: i st)
  case (Suc n)
  have d: "take (xe - i) (drop i z) = z ! i # take (xe - Suc i) (drop (Suc i) z)"
    using Suc.hyps(2) Suc.prems(4) by (metis Cons_nth_drop_Suc Suc_diff_Suc Suc_le_lessD diff_is_0_eq' le_less_linear nat.simps(3) less_le_trans take_Suc_Cons zero_less_Suc zero_less_diff)
  have u: "unmount (z ! i) st = st\<lparr>nodes := us @ map el (take (xe - Suc i) (drop (Suc i) z)) @ vs\<rparr>"
    using Suc.prems(1,2) unfolding d by (intro unmount_split) auto
  have "fold (\<lambda>k. unmount (z ! k)) [Suc i..<xe] (unmount (z ! i) st) = unmount (z ! i) st\<lparr>nodes := us @ vs\<rparr>"
    by (rule Suc.hyps(1)) (use Suc.hyps(2) Suc.prems d u in auto)
  then show ?case using Suc.hyps(2) by (simp add: upt_conv_Cons u)
qed (simp add: assms)


section \<open>Matching the old children with the new\<close>

definition distinct_keys :: "vnode list \<Rightarrow> bool" where
  "distinct_keys zs \<longleftrightarrow> distinct (filter (\<lambda>k. k \<noteq> None) (map vkey zs))"

lemma distinct_filter_nth: "distinct (filter P xs) \<Longrightarrow> i < length xs \<Longrightarrow> j < length xs \<Longrightarrow> xs ! i = xs ! j \<Longrightarrow> P (xs ! i) \<Longrightarrow> i = j"
proof (induction xs arbitrary: i j)
  case (Cons x xs)
  have "\<not> (P x \<and> x \<in> set xs)" using Cons.prems(1) by auto
  then show ?case using Cons.prems Cons.IH[of "i - 1" "j - 1"] by (cases i; cases j) (auto split: if_splits)
qed simp

lemma distinct_keysD: "distinct_keys zs \<Longrightarrow> i < length zs \<Longrightarrow> j < length zs \<Longrightarrow> vkey (zs ! i) = vkey (zs ! j) \<Longrightarrow> vkey (zs ! i) \<noteq> None \<Longrightarrow> i = j"
  using distinct_filter_nth[of "\<lambda>k. k \<noteq> None" "map vkey zs" i j] by (simp add: distinct_keys_def)

lemma keyToNewIndex_spec:
  "(case keyToNewIndex q lo ve k of Some a \<Rightarrow> lo \<le> a \<and> a < ve \<and> vkey (q ! a) = Some k
    | None \<Rightarrow> \<forall>a. lo \<le> a \<longrightarrow> a < ve \<longrightarrow> vkey (q ! a) \<noteq> Some k)"
proof (induction ve)
  case (Suc ve)
  then show ?case
    by (cases "lo \<le> ve"; cases "vkey (q ! ve)") (auto simp: keyToNewIndex_def less_Suc_eq split: option.splits)
qed (simp add: keyToNewIndex_def)

lemma newIndex_Some:
  assumes "newIndex q lo ve y m = Some a"
  shows "lo \<le> a \<and> a < ve \<and> vkey y = vkey (q ! a) \<and> (vkey y = None \<longrightarrow> ne m ! (a - lo) = 0)"
  using assms keyToNewIndex_spec[where q = q and lo = lo and ve = ve and k = "the (vkey y)"]
  by (auto simp: newIndex_def same_vnode_def find_Some_iff split: option.splits)

lemma newIndex_None: "newIndex q lo ve y m = None \<Longrightarrow> vkey y = Some k \<Longrightarrow> lo \<le> a \<Longrightarrow> a < ve \<Longrightarrow> vkey (q ! a) \<noteq> Some k"
  using keyToNewIndex_spec[where q = q and lo = lo and ve = ve and k = k] by (auto simp: newIndex_def)

text \<open>
  In the middle of the loop: \<open>as\<close> are the new children matched so far, counted from \<open>lo\<close> and in the order of their old
  children, \<open>em\<close> their host nodes.  The container holds the host nodes of the matched and of the old children to come.
\<close>

definition settled :: "nat list \<Rightarrow> nat list \<Rightarrow> nat option list \<Rightarrow> nat list" where
  "settled us as em = us @ map (\<lambda>a. the (em ! a)) as"

definition waiting :: "vnode list \<Rightarrow> nat \<Rightarrow> nat \<Rightarrow> nat list \<Rightarrow> nat list" where
  "waiting z xe i vs = map el (take (xe - i) (drop i z)) @ vs"

definition laid :: "vnode list \<Rightarrow> nat \<Rightarrow> nat list \<Rightarrow> nat list \<Rightarrow> nat option list \<Rightarrow> nat option list \<Rightarrow> nat \<Rightarrow> nat list \<Rightarrow> nat option list \<Rightarrow> page \<Rightarrow> bool" where
  "laid z xe us vs hs ts i as em st \<longleftrightarrow> nodes st = settled us as em @ waiting z xe i vs \<and>
     distinct (nodes st) \<and> (\<forall>x\<in>set (nodes st). x < fresh st) \<and> els st = hs @ em @ ts"

lemma waiting_step:
  assumes "i < xe" "xe \<le> length z"
  shows "waiting z xe i vs = el (z ! i) # waiting z xe (i + 1) vs"
proof -
  have "drop i z = z ! i # drop (i + 1) z" "xe - i = Suc (xe - (i + 1))" using assms by (auto simp: Cons_nth_drop_Suc)
  then show ?thesis by (simp add: waiting_def)
qed

definition tied :: "vnode list \<Rightarrow> vnode list \<Rightarrow> nat \<Rightarrow> nat \<Rightarrow> nat \<Rightarrow> nat list \<Rightarrow> nat option list \<Rightarrow> matching \<Rightarrow> bool" where
  "tied z q lo ve i as em m \<longleftrightarrow> length em = ve - lo \<and> length (ne m) = ve - lo \<and> distinct as \<and> (\<forall>a\<in>set as. a < ve - lo) \<and>
     (\<forall>a<ve - lo. (ne m ! a \<noteq> 0 \<longleftrightarrow> a \<in> set as) \<and> (em ! a \<noteq> None \<longleftrightarrow> a \<in> set as)) \<and>
     sorted_wrt (\<lambda>a b. ne m ! a < ne m ! b) as \<and> dt m = length as \<and>
     (\<not> de m \<longrightarrow> sorted_wrt (<) as \<and> (\<forall>a\<in>set as. lo + a \<le> se m))"

definition origin :: "vnode list \<Rightarrow> vnode list \<Rightarrow> nat \<Rightarrow> nat \<Rightarrow> nat \<Rightarrow> nat list \<Rightarrow> nat option list \<Rightarrow> matching \<Rightarrow> bool" where
  "origin z q lo ve i as em m \<longleftrightarrow>
     (\<forall>a\<in>set as. \<exists>j. ne m ! a = Suc j \<and> lo \<le> j \<and> j < i \<and> vkey (z ! j) = vkey (q ! (lo + a)) \<and>
        (same_vnode (z ! j) (q ! (lo + a)) \<longrightarrow> em ! a = Some (el (z ! j)))) \<and>
     (\<forall>j a. lo \<le> j \<longrightarrow> j < i \<longrightarrow> a < ve - lo \<longrightarrow> vkey (z ! j) = vkey (q ! (lo + a)) \<longrightarrow> vkey (z ! j) \<noteq> None \<longrightarrow> ne m ! a = Suc j)"

lemma waiting_end: "waiting z xe xe vs = vs"
  by (simp add: waiting_def)

text \<open>An old child without a new one is taken out.\<close>

lemma laid_drop:
  assumes "laid z xe us vs hs ts i as em st" "i < xe" "xe \<le> length z"
  shows "laid z xe us vs hs ts (i + 1) as em (unmount (z ! i) st)"
proof -
  have n: "nodes st = settled us as em @ el (z ! i) # waiting z xe (i + 1) vs" "distinct (nodes st)"
    using assms(1) unfolding laid_def waiting_step[OF assms(2,3)] by blast+
  then have "unmount (z ! i) st = st\<lparr>nodes := settled us as em @ waiting z xe (i + 1) vs\<rparr>" by (rule unmount_split)
  moreover have "distinct (settled us as em @ waiting z xe (i + 1) vs)" using n unfolding n(1) by (metis distinct_middle)
  moreover have "set (settled us as em @ waiting z xe (i + 1) vs) \<subseteq> set (nodes st)" unfolding n(1) by (rule set_middle)
  ultimately show ?thesis using assms(1) unfolding laid_def by auto
qed

lemma laid_patch:
  assumes "laid z xe us vs hs ts i as em st" "i < xe" "xe \<le> length z" "a < length em" "a \<notin> set as" "p = length hs + a"
  shows "\<exists>st' x. patch (z ! i) y p st = Some st' \<and> laid z xe us vs hs ts (i + 1) (as @ [a]) (em[a := Some x]) st' \<and>
    (same_vnode (z ! i) y \<longrightarrow> x = el (z ! i)) \<and> moved st' = moved st \<and> fresh st \<le> fresh st'"
proof -
  let ?us = "settled us as em" and ?vs = "waiting z xe (i + 1) vs"
  have n: "nodes st = ?us @ el (z ! i) # ?vs" "distinct (nodes st)" "\<forall>x\<in>set (nodes st). x < fresh st" "els st = hs @ em @ ts"
    using assms(1) unfolding laid_def waiting_step[OF assms(2,3)] by blast+
  obtain x f where x: "patch (z ! i) y p st = Some (st\<lparr>nodes := ?us @ x # ?vs, fresh := f, els := (els st)[p := Some x]\<rparr>)"
    "x = (if same_vnode (z ! i) y then el (z ! i) else fresh st)" "fresh st \<le> f" "x < f"
    using patch_split[OF n(1-3), of y p] by blast
  have "map (\<lambda>b. the (em[a := Some x] ! b)) as = map (\<lambda>b. the (em ! b)) as" using assms(5)
    by (intro map_cong refl) (metis nth_list_update_neq)
  then have d: "settled us (as @ [a]) (em[a := Some x]) @ ?vs = ?us @ x # ?vs" using assms(4) by (simp add: settled_def)
  have nodes_x: "distinct (as' @ x # bs) \<and> (\<forall>y\<in>set (as' @ x # bs). y < f)" if "nodes st = as' @ el (z ! i) # bs" for as' bs
  proof -
    have "\<forall>y\<in>set (nodes st). y < f" using n(3) x(3) by (meson less_le_trans)
    then show ?thesis using n(2,3) x(2,4) that by (auto split: if_splits)
  qed
  have "(els st)[p := Some x] = hs @ em[a := Some x] @ ts" using n(4) assms(4,6) by (simp add: list_update_append)
  then have "laid z xe us vs hs ts (i + 1) (as @ [a]) (em[a := Some x])
      (st\<lparr>nodes := ?us @ x # ?vs, fresh := f, els := (els st)[p := Some x]\<rparr>)"
    using nodes_x[OF n(1)] unfolding laid_def d by simp
  then show ?thesis using x by auto
qed


text \<open>A new match.\<close>

lemma tied_match:
  assumes "tied z q lo ve i as em m" "a < ve - lo" "a \<notin> set as" "lo \<le> i" "\<forall>b\<in>set as. ne m ! b \<le> i"
  shows "tied z q lo ve (i + 1) (as @ [a]) (em[a := Some x])
    (m\<lparr>ne := (ne m)[a := i + 1], dt := dt m + 1, de := de m \<or> lo + a < se m, se := (if se m \<le> lo + a then lo + a else se m)\<rparr>)"
proof -
  have neq: "(ne m)[a := i + 1] ! b = ne m ! b" if "b \<in> set as" for b using assms(3) that by (metis nth_list_update_neq)
  have "sorted_wrt (\<lambda>b c. ne m ! b < ne m ! c) as" using assms(1) by (simp add: tied_def)
  then have "sorted_wrt (\<lambda>b c. (ne m)[a := i + 1] ! b < (ne m)[a := i + 1] ! c) as"
    by (rule sorted_wrt_mono_rel[rotated]) (simp only: neq)
  then have "sorted_wrt (\<lambda>b c. (ne m)[a := i + 1] ! b < (ne m)[a := i + 1] ! c) (as @ [a])"
    using assms neq by (auto simp: tied_def sorted_wrt_append less_Suc_eq_le)
  moreover have "sorted_wrt (<) (as @ [a]) \<and> (\<forall>b\<in>set (as @ [a]). lo + b \<le> lo + a)" if "\<not> de m" "se m \<le> lo + a"
  proof -
    have "b < a" if "b \<in> set as" for b
      using assms(1,3) \<open>\<not> de m\<close> \<open>se m \<le> lo + a\<close> that by (fastforce simp: tied_def le_less)
    then show ?thesis using assms(1) that(1) by (auto simp: tied_def sorted_wrt_append intro: less_imp_le)
  qed
  ultimately show ?thesis using assms(1-3) by (auto simp: tied_def nth_list_update)
qed

lemma origin_match:
  assumes "origin z q lo ve i as em m" "a < ve - lo" "a \<notin> set as" "lo \<le> i" "vkey (z ! i) = vkey (q ! (lo + a))"
    "same_vnode (z ! i) (q ! (lo + a)) \<longrightarrow> x = el (z ! i)" "length em = ve - lo" "length (ne m) = ve - lo"
    "distinct_keys q" "ve \<le> length q" "\<forall>b<ve - lo. ne m ! b \<noteq> 0 \<longleftrightarrow> b \<in> set as" "ne m' = (ne m)[a := i + 1]"
  shows "origin z q lo ve (i + 1) (as @ [a]) (em[a := Some x]) m'"
proof -
  have old: "\<exists>j. (ne m)[a := i + 1] ! b = Suc j \<and> lo \<le> j \<and> j < i + 1 \<and> vkey (z ! j) = vkey (q ! (lo + b)) \<and>
      (same_vnode (z ! j) (q ! (lo + b)) \<longrightarrow> em[a := Some x] ! b = Some (el (z ! j)))" if "b \<in> set as" for b
  proof -
    have "a \<noteq> b" using that assms(3) by auto
    then show ?thesis using assms(1) that unfolding origin_def by (fastforce intro: less_SucI)
  qed
  have "(ne m)[a := i + 1] ! b = Suc j"
    if j: "lo \<le> j" "j < i + 1" "b < ve - lo" "vkey (z ! j) = vkey (q ! (lo + b))" "vkey (z ! j) \<noteq> None" for j b
  proof (cases "j = i")
    case True
    then have "lo + a = lo + b" using distinct_keysD[OF assms(9), of "lo + a" "lo + b"] assms(2,5,10) j by auto
    then show ?thesis using True assms(2,8) by simp
  next
    case False
    then have "ne m ! b = Suc j" using assms(1) j by (auto simp: origin_def)
    then show ?thesis using assms(3,11) j(3) by (metis nat.distinct(2) nth_list_update_neq)
  qed
  then show ?thesis using old assms(2,4-8,12) by (auto simp: origin_def)
qed

lemma origin_drop:
  assumes "origin z q lo ve i as em m" "lo \<le> i"
    "\<And>a. a < ve - lo \<Longrightarrow> vkey (z ! i) = vkey (q ! (lo + a)) \<Longrightarrow> vkey (z ! i) = None"
  shows "origin z q lo ve (i + 1) as em m"
  using assms by (fastforce simp: origin_def less_Suc_eq)

lemma matchOld_step:
  assumes "laid z xe us vs hs ts i as em st" "tied z q lo ve i as em m" "origin z q lo ve i as em m"
    "lo \<le> i" "i < xe" "xe \<le> length z" "ve \<le> length q" "length hs = lo" "distinct_keys z" "distinct_keys q"
  shows "\<exists>m' st' as' em'. matchOld z q lo ve i (m, st) = Some (m', st') \<and> laid z xe us vs hs ts (i + 1) as' em' st' \<and>
    tied z q lo ve (i + 1) as' em' m' \<and> origin z q lo ve (i + 1) as' em' m' \<and> moved st' = moved st \<and> fresh st \<le> fresh st'"
proof -
  have drop: ?thesis if "matchOld z q lo ve i (m, st) = Some (m, unmount (z ! i) st)"
    "\<And>a. a < ve - lo \<Longrightarrow> vkey (z ! i) = vkey (q ! (lo + a)) \<Longrightarrow> vkey (z ! i) = None"
  proof -
    have "tied z q lo ve (i + 1) as em m" using assms(2) by (simp add: tied_def)
    then show ?thesis using that(1) laid_drop[OF assms(1,5,6)] origin_drop[OF assms(3,4) that(2)] by (fastforce simp: unmount_def)
  qed
  have taken: "j = i" if "b \<in> set as" "vkey (q ! (lo + b)) = vkey (z ! i)" "vkey (z ! i) \<noteq> None" "ne m ! b = Suc j" "j < i" for b j
  proof -
    have "vkey (z ! j) = vkey (z ! i)" using assms(3) that by (auto simp: origin_def)
    then show ?thesis using distinct_keysD[OF assms(9), of j i] that(3,5) assms(5,6) by auto
  qed
  have unmatched: "b \<notin> set as" if "vkey (q ! (lo + b)) = vkey (z ! i)" "vkey (z ! i) \<noteq> None" for b
    using taken[OF _ that] assms(3) by (fastforce simp: origin_def)
  show ?thesis
  proof (cases "ve - lo \<le> dt m")
    case True
    have "card (set as) = length as" "set as \<subseteq> {..<ve - lo}" using assms(2) by (auto simp: tied_def distinct_card)
    then have "set as = {..<ve - lo}" using True assms(2) by (intro card_seteq) (auto simp: tied_def)
    then show ?thesis using True unmatched by (intro drop) (auto simp: matchOld_def)
  next
    case False
    show ?thesis
    proof (cases "newIndex q lo ve (z ! i) m")
      case None
      have "vkey (z ! i) = None" if "a < ve - lo" "vkey (z ! i) = vkey (q ! (lo + a))" for a
      proof (rule ccontr)
        assume "vkey (z ! i) \<noteq> None"
        then obtain k where k: "vkey (z ! i) = Some k" by auto
        show False using newIndex_None[OF None k, of "lo + a"] that k by (simp add: less_diff_conv add.commute)
      qed
      then show ?thesis using None False by (intro drop) (auto simp: matchOld_def)
    next
      case (Some p)
      define a where "a = p - lo"
      have p: "lo \<le> p" "p < ve" "vkey (z ! i) = vkey (q ! p)" "vkey (z ! i) = None \<longrightarrow> ne m ! a = 0"
        using newIndex_Some[OF Some] by (auto simp: a_def)
      then have a: "p = lo + a" "a < ve - lo" by (auto simp: a_def)
      have "a \<notin> set as" using unmatched[of a] p(3,4) a assms(2) by (cases "vkey (z ! i)") (auto simp: tied_def)
      obtain st' x where x: "patch (z ! i) (q ! p) p st = Some st'" "laid z xe us vs hs ts (i + 1) (as @ [a]) (em[a := Some x]) st'"
        "same_vnode (z ! i) (q ! p) \<longrightarrow> x = el (z ! i)" "moved st' = moved st" "fresh st \<le> fresh st'"
        using laid_patch[OF assms(1,5,6) _ \<open>a \<notin> set as\<close>, of p "q ! p"] a assms(2,8) by (auto simp: tied_def)
      define m' where "m' = m\<lparr>ne := (ne m)[a := i + 1], dt := dt m + 1, de := de m \<or> lo + a < se m, se := (if se m \<le> lo + a then lo + a else se m)\<rparr>"
      have "\<forall>b\<in>set as. ne m ! b \<le> i" using assms(3) by (fastforce simp: origin_def)
      then have "tied z q lo ve (i + 1) (as @ [a]) (em[a := Some x]) m'"
        unfolding m'_def by (rule tied_match[OF assms(2) a(2) \<open>a \<notin> set as\<close> assms(4)])
      moreover have "origin z q lo ve (i + 1) (as @ [a]) (em[a := Some x]) m'"
        by (rule origin_match[OF assms(3) a(2) \<open>a \<notin> set as\<close> assms(4) _ _ _ _ assms(10,7)])
           (use p a x(3) assms(2) in \<open>auto simp: tied_def m'_def\<close>)
      moreover have "matchOld z q lo ve i (m, st) = Some (m', st')"
        using False Some x(1) a by (simp add: matchOld_def m'_def Let_def)
      ultimately show ?thesis using x(2,4,5) by blast
    qed
  qed
qed


lemma matchAll_spec:
  assumes "laid z xe us vs hs ts i as em st" "tied z q lo ve i as em m" "origin z q lo ve i as em m"
    "lo \<le> i" "i \<le> xe" "xe \<le> length z" "ve \<le> length q" "length hs = lo" "distinct_keys z" "distinct_keys q"
  shows "\<exists>m' st' as' em'. matchAll z q lo ve [i..<xe] (m, st) = Some (m', st') \<and> laid z xe us vs hs ts xe as' em' st' \<and>
    tied z q lo ve xe as' em' m' \<and> origin z q lo ve xe as' em' m' \<and> moved st' = moved st \<and> fresh st \<le> fresh st'"
  using assms(1-5)
proof (induction "xe - i" arbitrary: i as em m st)
  case 0
  then show ?case by auto
next
  case (Suc n)
  have "i < xe" using Suc.hyps(2) by simp
  then obtain m1 st1 as1 em1 where one: "matchOld z q lo ve i (m, st) = Some (m1, st1)" "laid z xe us vs hs ts (i + 1) as1 em1 st1"
    "tied z q lo ve (i + 1) as1 em1 m1" "origin z q lo ve (i + 1) as1 em1 m1" "moved st1 = moved st" "fresh st \<le> fresh st1"
    using matchOld_step[OF Suc.prems(1-4) _ assms(6-10)] by blast
  have "\<exists>m' st' as' em'. matchAll z q lo ve [i + 1..<xe] (m1, st1) = Some (m', st') \<and> laid z xe us vs hs ts xe as' em' st' \<and>
    tied z q lo ve xe as' em' m' \<and> origin z q lo ve xe as' em' m' \<and> moved st' = moved st1 \<and> fresh st1 \<le> fresh st'"
    by (rule Suc.hyps(1)[OF _ one(2-4)]) (use Suc.hyps(2) Suc.prems(4) in auto)
  moreover have "[i..<xe] = i # [i + 1..<xe]" using \<open>i < xe\<close> by (simp add: upt_conv_Cons)
  ultimately show ?case using one(1,5,6) by (fastforce intro: le_trans)
qed

section \<open>Putting the new children in their places\<close>

text \<open>The matched children below \<open>e\<close>, and those among them that stay where they are.\<close>

abbreviation matchedBelow :: "matching \<Rightarrow> nat \<Rightarrow> nat list" where
  "matchedBelow m e \<equiv> filter (\<lambda>a. ne m ! a \<noteq> 0) [0..<e]"

abbreviation stays :: "matching \<Rightarrow> nat list \<Rightarrow> nat \<Rightarrow> bool" where
  "stays m we a \<equiv> ne m ! a \<noteq> 0 \<and> (de m \<longrightarrow> a \<in> set we)"

definition placing :: "nat list \<Rightarrow> nat list \<Rightarrow> nat option list \<Rightarrow> nat option list \<Rightarrow> nat option list \<Rightarrow> matching \<Rightarrow> nat list \<Rightarrow> nat \<Rightarrow> nat option list \<Rightarrow> page \<Rightarrow> bool" where
  "placing us vs hs ts em m we e em' st \<longleftrightarrow> (let D = map the (drop e em'); f = (\<lambda>a. the (em ! a)) in
     els st = hs @ em' @ ts \<and> length em' = length em \<and> (\<forall>a<length em. if a < e then em' ! a = em ! a else em' ! a \<noteq> None) \<and>
     distinct (nodes st) \<and> (\<forall>x\<in>set (nodes st). x < fresh st) \<and>
     distinct (us @ map f (matchedBelow m e) @ D @ vs) \<and> set (nodes st) = set (us @ map f (matchedBelow m e) @ D @ vs) \<and>
     filter (\<lambda>x. x \<in> set us \<union> set vs \<union> set D \<union> f ` set (filter (stays m we) [0..<e])) (nodes st) =
       us @ map f (filter (stays m we) [0..<e]) @ D @ vs)"

lemma last_below:
  "sorted_wrt (<) (we :: nat list) \<Longrightarrow> k = length (filter (\<lambda>x. x < Suc e) we) \<Longrightarrow>
    (k = 0 \<or> e \<noteq> we ! (k - 1) \<longleftrightarrow> e \<notin> set we) \<and> length (filter (\<lambda>x. x < e) we) = (if e \<in> set we then k - 1 else k)"
proof (induction we arbitrary: k rule: rev_induct)
  case (snoc w we)
  have s: "sorted_wrt (<) we" "\<forall>x\<in>set we. x < w" using snoc.prems(1) by (auto simp: sorted_wrt_append)
  consider "w < e" | "w = e" | "e < w" by linarith
  then show ?case
  proof cases
    case 1
    then have "filter (\<lambda>x. x < Suc e) we = we" "filter (\<lambda>x. x < e) we = we" "e \<notin> set we"
      using s(2) by (auto simp: filter_id_conv)
    then show ?thesis using 1 snoc.prems(2) by (simp add: nth_append)
  next
    case 2
    then have "filter (\<lambda>x. x < Suc e) we = we" "filter (\<lambda>x. x < e) we = we"
      using s(2) by (auto simp: filter_id_conv)
    then show ?thesis using 2 snoc.prems(2) by (simp add: nth_append)
  next
    case 3
    then have k: "k = length (filter (\<lambda>x. x < Suc e) we)" using snoc.prems(2) by simp
    then have "k \<le> length we" by simp
    then have "k = 0 \<or> (we @ [w]) ! (k - 1) = we ! (k - 1)" by (auto simp: nth_append)
    then show ?thesis using 3 snoc.IH[OF s(1) k] by auto
  qed
qed simp

lemma anchor_at_spec:
  assumes "placing us vs hs ts em m we (Suc e) em' st" "e < length em" "length q = length hs + length em + length ts"
    "first vs = (case ts of [] \<Rightarrow> anchor | t # _ \<Rightarrow> t)"
  shows "anchor_at q anchor (length hs + e + 1) st = first (map the (drop (Suc e) em') @ vs)"
proof -
  have e: "els st = hs @ em' @ ts" "length em' = length em" "\<forall>a<length em. Suc e \<le> a \<longrightarrow> em' ! a \<noteq> None"
    using assms(1) by (auto simp: placing_def Let_def)
  show ?thesis
  proof (cases "Suc e < length em")
    case True
    then have "drop (Suc e) em' = em' ! Suc e # drop (Suc (Suc e)) em'" using e(2) by (simp add: Cons_nth_drop_Suc)
    then show ?thesis using True e assms(3) by (auto simp: anchor_at_def nth_append)
  next
    case False
    then have "Suc e = length em" using assms(2) by simp
    then show ?thesis using e assms(3,4) by (cases ts) (auto simp: anchor_at_def nth_append)
  qed
qed


text \<open>The three ways a child gets its place: it is mounted, it is moved, or it is there already.\<close>

lemma placing_insert:
  assumes "placing us vs hs ts em m we (Suc e) em' st" "e < length em" "\<not> stays m we e"
    "x = fresh st \<and> ne m ! e = 0 \<and> f = fresh st + 1 \<and> em'' = em'[e := Some x] \<or> ne m ! e \<noteq> 0 \<and> em ! e = Some x \<and> f = fresh st \<and> em'' = em'"
  shows "\<exists>ds. insert_before x (first (map the (drop (Suc e) em') @ vs)) (nodes st) = Some ds \<and>
    placing us vs hs ts em m we e em'' (st\<lparr>nodes := ds, fresh := f, els := hs @ em'' @ ts, moved := mv\<rparr>)"
proof -
  define D where "D = map the (drop (Suc e) em')"
  define M where "M = map (\<lambda>a. the (em ! a)) (matchedBelow m e)"
  define S where "S = map (\<lambda>a. the (em ! a)) (filter (stays m we) [0..<e])"
  define M' where "M' = (if ne m ! e = 0 then [] else [x])"
  define P where "P = (\<lambda>y. y \<in> set us \<union> set vs \<union> set D \<union> set S)"
  have M: "map (\<lambda>a. the (em ! a)) (matchedBelow m (Suc e)) = M @ M'" using assms(4) by (auto simp: M_def M'_def)
  have S: "filter (stays m we) [0..<Suc e] = filter (stays m we) [0..<e]" using assms(3) by auto
  have pl: "els st = hs @ em' @ ts" "length em' = length em" "\<forall>a<length em. if a < Suc e then em' ! a = em ! a else em' ! a \<noteq> None"
    "distinct (nodes st)" "\<forall>y\<in>set (nodes st). y < fresh st" "distinct (us @ (M @ M') @ D @ vs)" "set (nodes st) = set (us @ (M @ M') @ D @ vs)"
    "filter P (nodes st) = (us @ S) @ D @ vs"
    using assms(1) unfolding placing_def Let_def M S by (auto simp: D_def S_def P_def)
  have "set S \<subseteq> set M" by (auto simp: S_def M_def)
  moreover have "x \<notin> set us \<union> set vs \<union> set D \<union> set M"
  proof (cases "ne m ! e = 0")
    case True
    then have "x = fresh st" using assms(4) by auto
    then show ?thesis using pl(5,7) by auto
  qed (use pl(6) M'_def in auto)
  ultimately have "\<not> P x" by (auto simp: P_def)
  from insert_before_filter[OF pl(4,8) this] obtain ds where ds: "insert_before x (first (D @ vs)) (nodes st) = Some ds" "distinct ds"
    "set ds = insert x (set (nodes st))" "filter (\<lambda>y. P y \<or> y = x) ds = (us @ S) @ x # D @ vs" by blast
  have em: "length em'' = length em" "em'' ! e = Some x" "drop (Suc e) em'' = drop (Suc e) em'"
    using pl(2,3) assms(2,4) by auto
  have later: "if a < e then em'' ! a = em ! a else em'' ! a \<noteq> None" if "a < length em" for a
  proof (cases "a = e")
    case False
    then have "em'' ! a = em' ! a" using assms(4) by auto
    then show ?thesis using pl(3)[rule_format, OF that] False by (auto split: if_splits)
  qed (use em(2) in simp)
  have D: "map the (drop e em'') = x # D" using em assms(2) by (subst Cons_nth_drop_Suc[symmetric]) (auto simp: D_def)
  have stays_S: "(\<lambda>a. the (em ! a)) ` set (filter (stays m we) [0..<e]) = set S" by (simp add: S_def)
  have x: "x \<notin> set us \<union> set vs \<union> set D \<union> set M" by fact
  have "\<forall>y\<in>set ds. y < f" using ds(3) pl(5) assms(4) x pl(7) by (auto simp: M'_def less_SucI)
  moreover have "distinct (us @ M @ (x # D) @ vs)" using pl(6) x by auto
  moreover have "set ds = set (us @ M @ (x # D) @ vs)" using ds(3) pl(7) by (auto simp: M'_def)
  moreover have "filter (\<lambda>y. y \<in> set us \<union> set vs \<union> set (x # D) \<union> set S) ds = us @ S @ (x # D) @ vs"
  proof -
    have "filter (\<lambda>y. y \<in> set us \<union> set vs \<union> set (x # D) \<union> set S) ds = filter (\<lambda>y. P y \<or> y = x) ds"
      by (rule filter_cong) (auto simp: P_def)
    then show ?thesis using ds(4) by simp
  qed
  ultimately have "placing us vs hs ts em m we e em'' (st\<lparr>nodes := ds, fresh := f, els := hs @ em'' @ ts, moved := mv\<rparr>)"
    using em(1) later ds(2) unfolding placing_def Let_def D M_def[symmetric] S_def[symmetric] stays_S by simp
  then show ?thesis using ds(1) by (auto simp: D_def)
qed

lemma placing_stay:
  assumes "placing us vs hs ts em m we (Suc e) em' st" "e < length em" "stays m we e" "em ! e \<noteq> None"
  shows "placing us vs hs ts em m we e em' st"
proof -
  have em: "length em' = length em" "\<forall>a<length em. if a < Suc e then em' ! a = em ! a else em' ! a \<noteq> None"
    using assms(1) by (auto simp: placing_def Let_def)
  have D: "map the (drop e em') = the (em ! e) # map the (drop (Suc e) em')"
    using em assms(2) by (subst Cons_nth_drop_Suc[symmetric]) auto
  have em': "\<forall>a<length em. if a < e then em' ! a = em ! a else em' ! a \<noteq> None"
    using em(2) assms(2,4) by (metis less_SucI not_less_less_Suc_eq)
  have M: "matchedBelow m (Suc e) = matchedBelow m e @ [e]" "filter (stays m we) [0..<Suc e] = filter (stays m we) [0..<e] @ [e]"
    using assms(3) by auto
  show ?thesis using assms(1) em' unfolding placing_def Let_def D M
    by (simp add: insert_commute insert_is_Un[symmetric] Un_insert_right)
qed


lemma placing_end:
  assumes "placing us vs hs ts em m we 0 em' st"
  shows "nodes st = us @ map the em' @ vs"
proof -
  have s: "set (nodes st) = set us \<union> set (map the em') \<union> set vs"
    "filter (\<lambda>x. x \<in> set us \<union> set vs \<union> set (map the em')) (nodes st) = us @ map the em' @ vs"
    using assms by (auto simp: placing_def Let_def)
  have "filter (\<lambda>x. x \<in> set us \<union> set vs \<union> set (map the em')) (nodes st) = nodes st"
    by (rule filter_True) (use s(1) in auto)
  then show ?thesis using s(2) by simp
qed

lemma place_spec:
  assumes "length q = length hs + length em + length ts" "first vs = (case ts of [] \<Rightarrow> anchor | t # _ \<Rightarrow> t)"
    "\<forall>a<length em. ne m ! a \<noteq> 0 \<longrightarrow> em ! a \<noteq> None" "sorted_wrt (<) we" "\<forall>a\<in>set we. ne m ! a = 0 \<longrightarrow> a = 0"
    "placing us vs hs ts em m we e em' st" "e \<le> length em" "de m \<longrightarrow> e = 0 \<or> k = length (filter (\<lambda>x. x < e) we)"
    "\<forall>a<length em. ne m ! a \<noteq> 0 \<longrightarrow> em' ! a = em ! a"
  shows "\<exists>st' em''. place q anchor (length hs) m we e k st = Some st' \<and> placing us vs hs ts em m we 0 em'' st' \<and>
    (\<forall>a<length em. ne m ! a \<noteq> 0 \<longrightarrow> em'' ! a = em ! a) \<and>
    moved st' = moved st + length (filter (\<lambda>a. ne m ! a \<noteq> 0 \<and> \<not> stays m we a) [0..<e])"
  using assms(6-9)
proof (induction e arbitrary: k em' st)
  case (Suc e)
  have e: "e < length em" using Suc.prems(2) by simp
  define a where "a = anchor_at q anchor (length hs + e + 1) st"
  have a: "a = first (map the (drop (Suc e) em') @ vs)"
    unfolding a_def by (rule anchor_at_spec[OF Suc.prems(1) e assms(1,2)])
  have em': "els st = hs @ em' @ ts" "length em' = length em" "em' ! e = em ! e"
    using Suc.prems(1) e by (auto simp: placing_def Let_def)
  have k: "(k = 0 \<or> e \<noteq> we ! (k - 1) \<longleftrightarrow> e \<notin> set we) \<and> length (filter (\<lambda>x. x < e) we) = (if e \<in> set we then k - 1 else k)" if "de m"
    using last_below[OF assms(4)] Suc.prems(3) that by blast
  let ?todo = "\<lambda>e. length (filter (\<lambda>a. ne m ! a \<noteq> 0 \<and> \<not> stays m we a) [0..<e])"
  consider "ne m ! e = 0" | "stays m we e" | "ne m ! e \<noteq> 0" "de m" "e \<notin> set we" by blast
  then show ?case
  proof cases
    case 1
    obtain ds where ds: "insert_before (fresh st) a (nodes st) = Some ds"
      "placing us vs hs ts em m we e (em'[e := Some (fresh st)])
        (st\<lparr>nodes := ds, fresh := fresh st + 1, els := hs @ em'[e := Some (fresh st)] @ ts, moved := moved st\<rparr>)"
      using placing_insert[OF Suc.prems(1) e, of "fresh st" "fresh st + 1" "em'[e := Some (fresh st)]" "moved st"] 1 unfolding a by blast
    moreover have "(els st)[length hs + e := Some (fresh st)] = hs @ em'[e := Some (fresh st)] @ ts"
      using em' e by (simp add: list_update_append)
    ultimately have st: "mount (length hs + e) a st = Some (st\<lparr>nodes := ds, fresh := fresh st + 1, els := hs @ em'[e := Some (fresh st)] @ ts\<rparr>)"
      by (simp add: mount_def)
    have z: "ne m ! e = 0 \<Longrightarrow> \<forall>a<length em. ne m ! a \<noteq> 0 \<longrightarrow> em'[e := Some (fresh st)] ! a = em ! a"
      using Suc.prems(4) by (metis nth_list_update_neq)
    have kk: "de m \<longrightarrow> e = 0 \<or> k = length (filter (\<lambda>x. x < e) we)" using k assms(5) 1 by auto
    show ?thesis using Suc.IH[OF ds(2) _ kk z[OF 1]] 1 e st by (simp add: Let_def a_def)
  next
    case 2
    then have "placing us vs hs ts em m we e em' st" using placing_stay[OF Suc.prems(1) e 2] assms(3) e by simp
    from Suc.IH[OF this _ _ Suc.prems(4), of "if de m then k - 1 else k"] show ?thesis
      using 2 e k by (cases "de m") (simp_all add: Let_def)
  next
    case 3
    then obtain x where x: "em ! e = Some x" using assms(3) e by auto
    obtain ds where ds: "insert_before x a (nodes st) = Some ds"
      "placing us vs hs ts em m we e em' (st\<lparr>nodes := ds, fresh := fresh st, els := hs @ em' @ ts, moved := moved st + 1\<rparr>)"
      using placing_insert[OF Suc.prems(1) e, of x "fresh st" em' "moved st + 1"] 3 x unfolding a by auto
    have "els st ! (length hs + e) = Some x" using em' e x by (simp add: nth_append)
    then have "move (length hs + e) a st = Some (st\<lparr>nodes := ds, fresh := fresh st, els := hs @ em' @ ts, moved := moved st + 1\<rparr>)"
      using ds(1) em'(1) by (simp add: move_def)
    then show ?thesis using Suc.IH[OF ds(2) _ _ Suc.prems(4), of k] 3 e k by (simp add: Let_def a_def)
  qed
qed auto

lemma placing_start:
  assumes "laid z xe us vs hs ts xe as em st" "tied z q lo ve xe as em m"
    "\<And>a b. stays m we a \<Longrightarrow> stays m we b \<Longrightarrow> a < b \<Longrightarrow> b < ve - lo \<Longrightarrow> de m \<Longrightarrow> ne m ! a < ne m ! b"
  shows "placing us vs hs ts em m we (ve - lo) em st"
proof -
  let ?f = "\<lambda>a. the (em ! a)" and ?n = "ve - lo"
  define L where "L = filter (stays m we) [0..<?n]"
  have st: "nodes st = us @ map ?f as @ vs" "distinct (nodes st)" "\<forall>x\<in>set (nodes st). x < fresh st" "els st = hs @ em @ ts"
    using assms(1) unfolding laid_def settled_def waiting_end append_assoc by blast+
  have as: "length em = ?n" "distinct as" "set as = {a. a < ?n \<and> ne m ! a \<noteq> 0}" "sorted_wrt (\<lambda>a b. ne m ! a < ne m ! b) as"
    "\<not> de m \<longrightarrow> sorted_wrt (<) as"
    using assms(2) by (auto simp: tied_def)
  have "sorted_wrt (<) (filter (\<lambda>a. a \<in> set L) as)"
  proof (cases "de m")
    case True
    have "sorted_wrt (\<lambda>a b. ne m ! a < ne m ! b) (filter (\<lambda>a. a \<in> set L) as)" using as(4) by (rule sorted_wrt_filter)
    then show ?thesis
    proof (rule sorted_wrt_mono_rel[rotated])
      fix a b assume "a \<in> set (filter (\<lambda>a. a \<in> set L) as)" "b \<in> set (filter (\<lambda>a. a \<in> set L) as)" "ne m ! a < ne m ! b"
      then show "a < b" using assms(3)[of b a] True by (cases a b rule: linorder_cases) (auto simp: L_def)
    qed
  next
    case False
    then show ?thesis using as(5) by (auto intro: sorted_wrt_filter)
  qed
  moreover have "sorted_wrt (<) L" unfolding L_def by (intro sorted_wrt_filter) simp
  moreover have "set (filter (\<lambda>a. a \<in> set L) as) = set L" using as(3) by (auto simp: L_def)
  ultimately have L: "filter (\<lambda>a. a \<in> set L) as = L" by (simp add: strict_sorted_equal)
  have inj: "inj_on ?f (set as)" using st(1,2) as(2) by (simp add: distinct_map)
  have B: "set (matchedBelow m ?n) = set as" using as(3) by auto
  then have dB: "distinct (map ?f (matchedBelow m ?n))" using inj by (simp add: distinct_map)
  have "?f a \<in> set us \<union> set vs \<union> ?f ` set L \<longleftrightarrow> a \<in> set L" if "a \<in> set as" for a
    using that st(1,2) inj as(3) by (auto simp: L_def inj_on_def)
  then have "filter (\<lambda>a. ?f a \<in> set us \<union> set vs \<union> ?f ` set L) as = L" using L by (metis (mono_tags, lifting) filter_cong)
  then have F: "filter (\<lambda>x. x \<in> set us \<union> set vs \<union> ?f ` set L) (nodes st) = us @ map ?f L @ vs"
    unfolding st(1) by (simp add: filter_map comp_def filter_id_conv)
  have "distinct (us @ map ?f (matchedBelow m ?n) @ vs)" "set (nodes st) = set (us @ map ?f (matchedBelow m ?n) @ vs)"
    using st(1,2) dB by (simp_all only: distinct_append set_append set_map B)
  then show ?thesis using st(2-4) as(1) F unfolding placing_def Let_def L_def[symmetric] by simp
qed


text \<open>What stays is a longest increasing sequence of the matched children.\<close>

lemma length_rising: "rising_nonzero e xs \<Longrightarrow> length xs \<le> length (filter (\<lambda>a. e ! a \<noteq> 0) [0..<length e])"
proof -
  assume r: "rising_nonzero e xs"
  then have "sorted_wrt (<) xs" by (auto simp: rising_nonzero_def elim: sorted_wrt_mono_rel[rotated])
  then have "distinct xs" by (simp add: strict_sorted_iff)
  moreover have "set xs \<subseteq> set (filter (\<lambda>a. e ! a \<noteq> 0) [0..<length e])" using r by (auto simp: rising_nonzero_def)
  ultimately show ?thesis by (rule distinct_length_le)
qed

lemma few_moves:
  assumes "length (ne m) = n" "n \<noteq> 0" "we = (if de m then getSequence (ne m) else [])"
  shows "sorted_wrt (<) we \<and> (\<forall>a\<in>set we. a < n \<and> (ne m ! a = 0 \<longrightarrow> a = 0)) \<and>
    (\<forall>a b. stays m we a \<longrightarrow> stays m we b \<longrightarrow> a < b \<longrightarrow> de m \<longrightarrow> ne m ! a < ne m ! b) \<and>
    (\<forall>xs. rising_nonzero (ne m) xs \<longrightarrow>
       length (filter (\<lambda>a. ne m ! a \<noteq> 0 \<and> \<not> stays m we a) [0..<n]) + length xs \<le> length (matchedBelow m n))"
proof (cases "de m")
  case False
  then have "filter (\<lambda>a. ne m ! a \<noteq> 0 \<and> \<not> stays m we a) [0..<n] = []" by (auto simp: filter_empty_conv)
  then show ?thesis using False assms(1,3) length_rising[of "ne m"] by simp
next
  case True
  define xs0 where "xs0 = filter (\<lambda>i. ne m ! i \<noteq> 0) we"
  have we: "we = getSequence (ne m)" using True assms(3) by simp
  have e: "ne m \<noteq> []" using assms(1,2) by auto
  have r: "rising (ne m) (length (ne m)) we" unfolding we by (rule getSequence_rising(1)[OF e])
  have l: "\<forall>ys. rising_nonzero (ne m) ys \<longrightarrow> length ys \<le> length xs0"
    using getSequence_longest_aux[OF e] by (simp add: xs0_def we)
  have sw: "sorted_wrt (<) we" using r by (auto simp: rising_def elim: sorted_wrt_mono_rel[rotated])
  have in_we: "\<forall>a\<in>set we. a < n \<and> (ne m ! a = 0 \<longrightarrow> a = 0)" using r assms(1) by (auto simp: rising_def)
  have "filter (stays m we) [0..<n] = xs0"
    by (rule strict_sorted_equal) (use sw in_we True in \<open>auto simp: xs0_def intro!: sorted_wrt_filter\<close>)
  moreover have "length (matchedBelow m n) = length (filter (stays m we) (matchedBelow m n)) + length (filter (\<lambda>a. \<not> stays m we a) (matchedBelow m n))"
    by (simp only: sum_length_filter_compl)
  moreover have "filter (stays m we) (matchedBelow m n) = filter (stays m we) [0..<n]"
    "filter (\<lambda>a. \<not> stays m we a) (matchedBelow m n) = filter (\<lambda>a. ne m ! a \<noteq> 0 \<and> \<not> stays m we a) [0..<n]"
    by (auto simp: conj_ac intro!: filter_cong)
  ultimately have c: "length (filter (\<lambda>a. ne m ! a \<noteq> 0 \<and> \<not> stays m we a) [0..<n]) + length xs0 = length (matchedBelow m n)" by simp
  have mono: "ne m ! a < ne m ! b" if ab: "a \<in> set we" "b \<in> set we" "a < b" for a b
  proof -
    obtain i j where i: "i < length we" "we ! i = a" "j < length we" "we ! j = b" using ab(1,2) unfolding in_set_conv_nth by blast
    then have "i < j" using ab(3) sorted_wrt_nth_less[OF sw, of j i] by (cases i j rule: linorder_cases) auto
    have "sorted_wrt (\<lambda>i j. i < j \<and> ne m ! i < ne m ! j) we" using r by (simp add: rising_def)
    from sorted_wrt_nth_less[OF this \<open>i < j\<close> i(3)] show ?thesis using i(2,4) by simp
  qed
  have "length (filter (\<lambda>a. ne m ! a \<noteq> 0 \<and> \<not> stays m we a) [0..<n]) + length xs \<le> length (matchedBelow m n)"
    if "rising_nonzero (ne m) xs" for xs
    using l[rule_format, OF that] c by linarith
  then show ?thesis using sw in_we mono True by blast
qed


text \<open>Where the new children in the middle come from, and that the moves are as few as a common sequence allows.\<close>

definition sources :: "vnode list \<Rightarrow> vnode list \<Rightarrow> nat \<Rightarrow> nat \<Rightarrow> nat \<Rightarrow> nat option list \<Rightarrow> nat \<Rightarrow> nat \<Rightarrow> nat list \<Rightarrow> bool" where
  "sources z q lo xe ve em mv mv' src \<longleftrightarrow> length src = ve - lo \<and>
    (\<forall>a<ve - lo. src ! a \<noteq> 0 \<longrightarrow> (\<exists>j. src ! a = Suc j \<and> lo \<le> j \<and> j < xe \<and> vkey (z ! j) = vkey (q ! (lo + a)) \<and>
       (same_vnode (z ! j) (q ! (lo + a)) \<longrightarrow> em ! a = Some (el (z ! j))))) \<and>
    (\<forall>j a. lo \<le> j \<longrightarrow> j < xe \<longrightarrow> a < ve - lo \<longrightarrow> vkey (z ! j) = vkey (q ! (lo + a)) \<longrightarrow> vkey (z ! j) \<noteq> None \<longrightarrow> src ! a = Suc j) \<and>
    (\<forall>xs. rising_nonzero src xs \<longrightarrow> mv' + length xs \<le> mv + length (filter (\<lambda>a. src ! a \<noteq> 0) [0..<ve - lo]))"

text \<open>The last branch as a whole.\<close>

lemma patchUnknown_spec:
  assumes "nodes st = us @ waiting z xe lo vs" "distinct (nodes st)" "\<forall>x\<in>set (nodes st). x < fresh st"
    "els st = hs @ replicate (ve - lo) None @ ts" "length hs = lo" "lo \<le> xe" "lo < ve" "xe \<le> length z" "length q = ve + length ts"
    "first vs = (case ts of [] \<Rightarrow> anchor | t # _ \<Rightarrow> t)" "distinct_keys z" "distinct_keys q"
  shows "\<exists>st' em src. patchUnknown z q anchor lo xe ve st = Some st' \<and> nodes st' = us @ map the em @ vs \<and> els st' = hs @ em @ ts \<and>
    length em = ve - lo \<and> None \<notin> set em \<and> sources z q lo xe ve em (moved st) (moved st') src"
proof -
  let ?n = "ve - lo" and ?m = "\<lparr>ne = replicate (ve - lo) 0, dt = 0, de = False, se = 0\<rparr> :: matching"
  have "laid z xe us vs hs ts lo [] (replicate ?n None) st" using assms(1-4) by (simp add: laid_def settled_def)
  moreover have "tied z q lo ve lo [] (replicate ?n None) ?m" by (simp add: tied_def)
  moreover have "origin z q lo ve lo [] (replicate ?n None) ?m" by (simp add: origin_def)
  ultimately obtain m st1 as em where all: "matchAll z q lo ve [lo..<xe] (?m, st) = Some (m, st1)" "laid z xe us vs hs ts xe as em st1"
    "tied z q lo ve xe as em m" "origin z q lo ve xe as em m" "moved st1 = moved st"
    using matchAll_spec[where i = lo and m = ?m and st = st and as = "[]" and em = "replicate ?n None"] assms(5-9,11,12)
    by (metis le_add1 le_refl)
  define we where "we = (if de m then getSequence (ne m) else [])"
  have m: "length (ne m) = ?n" "length em = ?n" "\<forall>a<?n. (ne m ! a \<noteq> 0 \<longleftrightarrow> a \<in> set as) \<and> (em ! a \<noteq> None \<longleftrightarrow> a \<in> set as)" "\<forall>a\<in>set as. a < ?n"
    using all(3) by (auto simp: tied_def)
  note few = few_moves[OF m(1) _ we_def]
  have we: "sorted_wrt (<) we" "\<forall>a\<in>set we. a < ?n \<and> (ne m ! a = 0 \<longrightarrow> a = 0)" using few assms(7) by auto
  have start: "placing us vs hs ts em m we ?n em st1"
    by (rule placing_start[OF all(2,3)]) (use few assms(7) in auto)
  have "filter (\<lambda>x. x < ?n) we = we" using we(2) by (auto simp: filter_id_conv)
  then obtain st' em' where pl: "place q anchor lo m we ?n (length we) st1 = Some st'" "placing us vs hs ts em m we 0 em' st'"
    "\<forall>a<?n. ne m ! a \<noteq> 0 \<longrightarrow> em' ! a = em ! a"
    "moved st' = moved st1 + length (filter (\<lambda>a. ne m ! a \<noteq> 0 \<and> \<not> stays m we a) [0..<?n])"
    using place_spec[of q hs em ts vs anchor m we us ?n em st1 "length we"] assms(5,7,9,10) m we start by auto
  have "patchUnknown z q anchor lo xe ve st = Some st'" using all(1) pl(1) by (simp add: patchUnknown_def we_def)
  moreover have "nodes st' = us @ map the em' @ vs" by (rule placing_end[OF pl(2)])
  moreover have "els st' = hs @ em' @ ts" "length em' = ?n" "\<forall>a<?n. em' ! a \<noteq> None"
    using pl(2) m(2) by (auto simp: placing_def Let_def)
  moreover have "\<forall>a<?n. ne m ! a \<noteq> 0 \<longrightarrow> (\<exists>j. ne m ! a = Suc j \<and> lo \<le> j \<and> j < xe \<and> vkey (z ! j) = vkey (q ! (lo + a)) \<and>
       (same_vnode (z ! j) (q ! (lo + a)) \<longrightarrow> em' ! a = Some (el (z ! j))))"
    using all(4) m(3) pl(3) by (simp add: origin_def)
  moreover have "\<forall>j a. lo \<le> j \<longrightarrow> j < xe \<longrightarrow> a < ?n \<longrightarrow> vkey (z ! j) = vkey (q ! (lo + a)) \<longrightarrow> vkey (z ! j) \<noteq> None \<longrightarrow> ne m ! a = Suc j"
    using all(4) by (simp add: origin_def)
  moreover have "\<forall>xs. rising_nonzero (ne m) xs \<longrightarrow> moved st' + length xs \<le> moved st + length (matchedBelow m ?n)"
    using few assms(7) pl(4) all(5) by simp
  ultimately show ?thesis using m(1)
    by (intro exI[of _ st'] exI[of _ em'] exI[of _ "ne m"]) (auto simp: in_set_conv_nth sources_def)
qed


section \<open>The children after the update\<close>

text \<open>Before the update: the container holds the old children, between other nodes, and the reference node follows them.\<close>

definition ready :: "vnode list \<Rightarrow> vnode list \<Rightarrow> nat option \<Rightarrow> nat list \<Rightarrow> nat list \<Rightarrow> page \<Rightarrow> bool" where
  "ready z q anchor pre tail st \<longleftrightarrow> nodes st = pre @ map el z @ tail \<and> distinct (nodes st) \<and> (\<forall>x\<in>set (nodes st). x < fresh st) \<and>
     els st = replicate (length q) None \<and> anchor = first tail"

text \<open>The first \<open>lo\<close> children of both lists correspond, and the last ones from \<open>xe\<close> and from \<open>ve\<close> on.\<close>

definition aligned :: "vnode list \<Rightarrow> vnode list \<Rightarrow> nat \<Rightarrow> nat \<Rightarrow> nat \<Rightarrow> bool" where
  "aligned z q lo xe ve \<longleftrightarrow> lo \<le> xe \<and> xe \<le> length z \<and> lo \<le> ve \<and> length q + xe = length z + ve \<and>
     (\<forall>k<lo. same_vnode (z ! k) (q ! k)) \<and> (\<forall>k. xe \<le> k \<longrightarrow> k < length z \<longrightarrow> same_vnode (z ! k) (q ! (k + ve - xe)))"

lemma aligned_keys:
  assumes "aligned z q lo xe ve" "distinct_keys z" "distinct_keys q" "i < length z" "j < length q" "vkey (z ! i) = vkey (q ! j)" "vkey (z ! i) \<noteq> None"
  shows "(i < lo \<or> j < lo \<longrightarrow> i = j) \<and> (xe \<le> i \<or> ve \<le> j \<longrightarrow> j + xe = i + ve)"
proof -
  have a: "lo \<le> xe" "xe \<le> length z" "lo \<le> ve" "length q + xe = length z + ve" "\<And>k. k < lo \<Longrightarrow> vkey (z ! k) = vkey (q ! k)"
    "\<And>k. xe \<le> k \<Longrightarrow> k < length z \<Longrightarrow> vkey (z ! k) = vkey (q ! (k + ve - xe))"
    using assms(1) by (auto simp: aligned_def same_vnode_def)
  note z = distinct_keysD[OF assms(2)] and q = distinct_keysD[OF assms(3)]
  have "i = j" if "i < lo" using q[of i j] a(1-5) that assms(4-7) by auto
  moreover have "i = j" if "j < lo" using z[of j i] a(1-5) that assms(4-7) by auto
  moreover have "j + xe = i + ve" if "xe \<le> i" using q[of "i + ve - xe" j] a(1-4) a(6)[of i] that assms(4-7) by auto
  moreover have "j + xe = i + ve" if "ve \<le> j"
    using z[of "j + xe - ve" i] a(1-4) a(6)[of "j + xe - ve"] that assms(4-7) by auto
  ultimately show ?thesis by blast
qed

lemma keyed_core:
  assumes "ready z q anchor pre tail st" "distinct_keys z" "distinct_keys q"
  obtains st' lo xe ve em where "patchKeyedChildren z q anchor st = Some st'" "aligned z q lo xe ve"
    "els st' = kept (take lo z) @ em @ kept (drop xe z)" "length em = ve - lo" "None \<notin> set em"
    "nodes st' = (pre @ map el (take lo z)) @ map the em @ map el (drop xe z) @ tail"
    "moved st' = moved st \<and> (xe \<le> lo \<or> ve \<le> lo) \<or> (\<exists>src. sources z q lo xe ve em (moved st) (moved st') src)"
proof -
  have st: "nodes st = pre @ map el z @ tail" "distinct (nodes st)" "\<forall>x\<in>set (nodes st). x < fresh st" "els st = replicate (length q) None"
    "anchor = first tail" using assms(1) unfolding ready_def by blast+
  obtain lo where lo: "syncHead z q 0 st = Some (lo, st\<lparr>els := kept (take lo z) @ replicate (length q - lo) None\<rparr>)"
    "lo \<le> length z" "lo \<le> length q" "\<forall>k<lo. same_vnode (z ! k) (q ! k)"
    using syncHead_spec[of st 0 z q] st(4) by auto
  define st1 where "st1 = st\<lparr>els := kept (take lo z) @ replicate (length q - lo) None\<rparr>"
  obtain xe ve where xe: "syncTail z q lo (length z) (length q) st1 = Some (xe, ve, st1\<lparr>els := kept (take lo z) @ replicate (ve - lo) None @ kept (drop xe z)\<rparr>)"
    "lo \<le> xe" "lo \<le> ve" "xe \<le> length z" "ve + length z = xe + length q"
    "\<forall>k. xe \<le> k \<longrightarrow> k < length z \<longrightarrow> same_vnode (z ! k) (q ! (k + ve - xe))"
    using syncTail_spec[of st1 "kept (take lo z)" "length q" lo "length z" z q] lo(2,3) by (auto simp: st1_def)
  define hs where "hs = kept (take lo z)"
  define ts where "ts = kept (drop xe z)"
  define us where "us = pre @ map el (take lo z)"
  define vs where "vs = map el (drop xe z) @ tail"
  define st2 where "st2 = st\<lparr>els := hs @ replicate (ve - lo) None @ ts\<rparr>"
  have al: "aligned z q lo xe ve" using lo(4) xe by (auto simp: aligned_def)
  have "take lo z @ take (xe - lo) (drop lo z) @ drop xe z = z"
    using xe(2) by (metis append.assoc append_take_drop_id le_add_diff_inverse take_add)
  then have "map el z = map el (take lo z) @ map el (take (xe - lo) (drop lo z)) @ map el (drop xe z)" by (metis map_append)
  then have n: "nodes st2 = us @ map el (take (xe - lo) (drop lo z)) @ vs" using st(1) by (simp add: st2_def us_def vs_def)
  have n2: "distinct (nodes st2)" "\<forall>x\<in>set (nodes st2). x < fresh st2" "els st2 = hs @ replicate (ve - lo) None @ ts" "length hs = lo"
    "length q = ve + length ts" "moved st2 = moved st"
    using st(2,3) lo(2) xe(4,5) by (auto simp: st2_def hs_def ts_def)
  have anchor: "first vs = (case ts of [] \<Rightarrow> anchor | t # _ \<Rightarrow> t)"
    using st(5) by (cases "drop xe z") (auto simp: vs_def ts_def)
  have run: "patchKeyedChildren z q anchor st = (if xe \<le> lo then (if lo < ve then mountRange [lo..<ve] (anchor_at q anchor ve st2) st2 else Some st2)
     else if ve \<le> lo then Some (fold (\<lambda>k. unmount (z ! k)) [lo..<xe] st2) else patchUnknown z q anchor lo xe ve st2)"
    using lo(1) xe(1) by (simp add: patchKeyedChildren_def st1_def st2_def hs_def ts_def)
  consider "xe \<le> lo" "ve \<le> lo" | "xe \<le> lo" "lo < ve" | "lo < xe" "ve \<le> lo" | "lo < xe" "lo < ve" by linarith
  then show thesis
  proof cases
    case 1
    then show thesis using that[of st2 lo xe ve "[]"] run al n n2 by (auto simp: hs_def ts_def us_def vs_def)
  next
    case 2
    have "anchor_at q anchor ve st2 = first vs" using n2(3,4,5) 2(2) anchor by (cases ts) (auto simp: anchor_at_def nth_append)
    moreover have "nodes st2 = us @ vs" using n 2(1) by simp
    moreover have "[lo..<lo + (ve - lo)] = [lo..<ve]" using 2(2) by simp
    ultimately have "patchKeyedChildren z q anchor st = Some (st2\<lparr>nodes := us @ [fresh st2..<fresh st2 + (ve - lo)] @ vs,
        fresh := fresh st2 + (ve - lo), els := hs @ map Some [fresh st2..<fresh st2 + (ve - lo)] @ ts\<rparr>)"
      using run 2 mountRange_spec[OF _ n2(1-3) n2(4)[symmetric], of us vs] by simp
    from that[OF this al, of "map Some [fresh st2..<fresh st2 + (ve - lo)]"] show thesis
      using n2(6) 2 by (auto simp: hs_def ts_def us_def vs_def comp_def simp del: upt_Suc)
  next
    case 3
    have "patchKeyedChildren z q anchor st = Some (st2\<lparr>nodes := us @ vs\<rparr>)"
      using run 3 unmountRange_spec[OF n n2(1) xe(2,4)] by simp
    from that[OF this al, of "[]"] show thesis using n2(3,6) 3 by (auto simp: hs_def ts_def us_def vs_def)
  next
    case 4
    have "nodes st2 = us @ waiting z xe lo vs" using n by (simp add: waiting_def)
    from patchUnknown_spec[OF this n2(1-4) xe(2) 4(2) xe(4) n2(5) anchor assms(2,3)]
    obtain st' em src where "patchUnknown z q anchor lo xe ve st2 = Some st'" "nodes st' = us @ map the em @ vs" "els st' = hs @ em @ ts"
      "length em = ve - lo" "None \<notin> set em" "sources z q lo xe ve em (moved st2) (moved st') src" by blast
    then show thesis using that[of st' lo xe ve em] run 4 al n2(6) unfolding hs_def ts_def us_def vs_def by auto
  qed
qed


lemma sources_key:
  "sources z q lo xe ve em mv mv' src \<Longrightarrow> lo \<le> j \<Longrightarrow> j < xe \<Longrightarrow> a < ve - lo \<Longrightarrow> vkey (z ! j) = vkey (q ! (lo + a)) \<Longrightarrow>
    vkey (z ! j) \<noteq> None \<Longrightarrow> src ! a = Suc j"
  by (simp add: sources_def)

lemma sources_moves:
  "sources z q lo xe ve em mv mv' src \<Longrightarrow> rising_nonzero src xs \<Longrightarrow>
    mv' + length xs \<le> mv + length (filter (\<lambda>a. src ! a \<noteq> 0) [0..<ve - lo])"
  by (simp add: sources_def)

lemma sources_el:
  assumes "sources z q lo xe ve em mv mv' src" "a < ve - lo" "src ! a = Suc j"
  shows "lo \<le> j \<and> j < xe \<and> vkey (z ! j) = vkey (q ! (lo + a)) \<and> (same_vnode (z ! j) (q ! (lo + a)) \<longrightarrow> em ! a = Some (el (z ! j)))"
proof -
  have "src ! a \<noteq> 0" using assms(3) by simp
  then obtain i where "src ! a = Suc i" "lo \<le> i \<and> i < xe \<and> vkey (z ! i) = vkey (q ! (lo + a)) \<and>
      (same_vnode (z ! i) (q ! (lo + a)) \<longrightarrow> em ! a = Some (el (z ! i)))"
    using assms(1,2) unfolding sources_def by blast
  then show ?thesis using assms(3) by simp
qed

lemma keyed_reuse:
  assumes "aligned z q lo xe ve" "distinct_keys z" "distinct_keys q"
    "xe \<le> lo \<or> ve \<le> lo \<or> (\<exists>src. sources z q lo xe ve em mv mv' src)" "length em = ve - lo"
    and ij: "i < length z" "j < length q" "same_vnode (z ! i) (q ! j)" "vkey (z ! i) \<noteq> None"
  shows "(kept (take lo z) @ em @ kept (drop xe z)) ! j = Some (el (z ! i))"
proof -
  have a: "lo \<le> xe" "xe \<le> length z" "lo \<le> ve" "length q + xe = length z + ve" using assms(1) by (auto simp: aligned_def)
  have vk: "vkey (z ! i) = vkey (q ! j)" using ij(3) by (simp add: same_vnode_def)
  have k: "i < lo \<or> j < lo \<longrightarrow> i = j" "xe \<le> i \<or> ve \<le> j \<longrightarrow> j + xe = i + ve"
    using aligned_keys[OF assms(1-3) ij(1,2) vk ij(4)] by blast+
  consider "j < lo" | "ve \<le> j" | "lo \<le> j" "j < ve" by linarith
  then show ?thesis
  proof cases
    case 1
    then show ?thesis using k a by (simp add: nth_append)
  next
    case 2
    then have "xe + j - ve = i" using k(2) by linarith
    then have "drop xe z ! (j - ve) = z ! i" "\<not> j < lo" "\<not> j - lo < ve - lo" "j - ve < length (drop xe z)" using 2 a ij(2) by auto
    then show ?thesis using assms(5) a by (simp add: nth_append)
  next
    case 3
    then have i: "lo \<le> i" "i < xe" using k a by auto
    obtain src where src: "sources z q lo xe ve em mv mv' src" using assms(4) i 3 by auto
    have "src ! (j - lo) = Suc i" using sources_key[OF src, of i "j - lo"] i 3 vk ij(4) by simp
    then have "em ! (j - lo) = Some (el (z ! i))" using sources_el[OF src, of "j - lo" i] 3 ij(3) by simp
    moreover have "j - lo < ve - lo" using 3 by simp
    ultimately show ?thesis using 3 a assms(5) by (simp add: nth_append)
  qed
qed

text \<open>C8: After the update of the children of an element the container holds exactly the new children, each with a node, in
  their order and between the same other nodes as before; and a new child with a key keeps the node of the old child with
  this key and the same type.\<close>

theorem keyed_children_in_order:
  assumes "ready z q anchor pre tail st" "distinct_keys z" "distinct_keys q"
  shows "case patchKeyedChildren z q anchor st of None \<Rightarrow> False
    | Some st' \<Rightarrow> length (els st') = length q \<and> None \<notin> set (els st') \<and> nodes st' = pre @ map the (els st') @ tail \<and>
        (\<forall>i j. i < length z \<and> j < length q \<and> same_vnode (z ! i) (q ! j) \<and> vkey (z ! i) \<noteq> None \<longrightarrow> els st' ! j = Some (el (z ! i)))"
proof -
  obtain st' lo xe ve em where c: "patchKeyedChildren z q anchor st = Some st'" "aligned z q lo xe ve"
    "els st' = kept (take lo z) @ em @ kept (drop xe z)" "length em = ve - lo" "None \<notin> set em"
    "nodes st' = (pre @ map el (take lo z)) @ map the em @ map el (drop xe z) @ tail"
    "moved st' = moved st \<and> (xe \<le> lo \<or> ve \<le> lo) \<or> (\<exists>src. sources z q lo xe ve em (moved st) (moved st') src)"
    by (rule keyed_core[OF assms])
  have a: "lo \<le> xe" "xe \<le> length z" "lo \<le> ve" "length q + xe = length z + ve" using c(2) by (auto simp: aligned_def)
  have "els st' ! j = Some (el (z ! i))" if "i < length z" "j < length q" "same_vnode (z ! i) (q ! j)" "vkey (z ! i) \<noteq> None" for i j
    unfolding c(3) by (rule keyed_reuse[OF c(2) assms(2,3) _ c(4) that]) (use c(7) in blast)
  moreover have "length (els st') = length q" "None \<notin> set (els st')" using c(3-5) a by auto
  moreover have "nodes st' = pre @ map the (els st') @ tail" using c(3,6) by (simp add: comp_def)
  ultimately show ?thesis using c(1) by simp
qed

definition child :: "string \<Rightarrow> nat \<Rightarrow> vnode" where
  "child k n = \<lparr>vtype = ''li'', vkey = Some k, el = n\<rparr>"

theorem keyed_children_in_order_witness:
  "patchKeyedChildren [child ''a'' 10, child ''b'' 11, child ''c'' 12, child ''d'' 13] [child ''a'' 0, child ''d'' 0, child ''x'' 0, child ''b'' 0]
      (Some 9) \<lparr>nodes = [8, 10, 11, 12, 13, 9], fresh = 20, els = [None, None, None, None], moved = 0\<rparr> =
    Some \<lparr>nodes = [8, 10, 13, 20, 11, 9], fresh = 21, els = [Some 10, Some 13, Some 20, Some 11], moved = 1\<rparr> \<and>
   [8, 10, 13, 20, 11, 9 :: nat] = [8] @ map the [Some 10, Some 13, Some 20, Some 11] @ [9]"
proof -
  let ?z = "[child ''a'' 10, child ''b'' 11, child ''c'' 12, child ''d'' 13]" and ?q = "[child ''a'' 0, child ''d'' 0, child ''x'' 0, child ''b'' 0]"
  let ?st = "\<lparr>nodes = [8, 10, 11, 12, 13, 9], fresh = 20, els = [None, None, None, None], moved = 0\<rparr> :: page"
  have r: "patchKeyedChildren ?z ?q (Some 9) ?st =
    Some \<lparr>nodes = [8, 10, 13, 20, 11, 9], fresh = 21, els = [Some 10, Some 13, Some 20, Some 11], moved = 1\<rparr>" by code_simp
  have "ready ?z ?q (Some 9) [8] [9] ?st" "distinct_keys ?z" "distinct_keys ?q"
    by (auto simp: ready_def distinct_keys_def child_def numeral_eq_Suc)
  from keyed_children_in_order[OF this] show ?thesis unfolding r by simp
qed


section \<open>How many children are moved\<close>

text \<open>The new children whose key an old child has.\<close>

definition reused :: "vnode list \<Rightarrow> vnode list \<Rightarrow> nat list" where
  "reused z q = filter (\<lambda>j. vkey (q ! j) \<noteq> None \<and> vkey (q ! j) \<in> vkey ` set z) [0..<length q]"

text \<open>Children of both lists with the same keys in the same order.\<close>

definition common :: "vnode list \<Rightarrow> vnode list \<Rightarrow> nat list \<Rightarrow> nat list \<Rightarrow> bool" where
  "common z q is js \<longleftrightarrow> sorted_wrt (<) is \<and> sorted_wrt (<) js \<and> length is = length js \<and>
     (\<forall>k<length js. is ! k < length z \<and> js ! k < length q \<and> vkey (z ! (is ! k)) = vkey (q ! (js ! k)) \<and> vkey (q ! (js ! k)) \<noteq> None)"

lemma common_reused: "common z q is js \<Longrightarrow> set js \<subseteq> set (reused z q)"
  by (auto simp: common_def reused_def in_set_conv_nth) (metis image_eqI nth_mem)

lemma common_length:
  assumes "common z q is js"
  shows "length js \<le> length (reused z q)"
proof -
  have "distinct js" using assms by (auto simp: common_def strict_sorted_iff)
  then show ?thesis using common_reused[OF assms] by (rule distinct_length_le)
qed

lemma common_middle:
  assumes "common z q is js" "aligned z q lo xe ve" "sources z q lo xe ve em mv mv' src" "distinct_keys z" "distinct_keys q"
  shows "rising_nonzero src (map (\<lambda>j. j - lo) (filter (\<lambda>j. lo \<le> j \<and> j < ve) js))"
proof -
  have len: "length src = ve - lo" using assms(3) by (simp add: sources_def)
  have src: "src ! (js ! k - lo) = Suc (is ! k)" if "k < length js" "lo \<le> js ! k" "js ! k < ve" for k
  proof -
    have k: "is ! k < length z" "js ! k < length q" "vkey (z ! (is ! k)) = vkey (q ! (js ! k))" "vkey (z ! (is ! k)) \<noteq> None"
      using assms(1) that by (auto simp: common_def)
    then have "lo \<le> is ! k" "is ! k < xe" using aligned_keys[OF assms(2,4,5) k] that(2,3) by linarith+
    then show ?thesis using sources_key[OF assms(3), of "is ! k" "js ! k - lo"] k that by simp
  qed
  have "sorted_wrt (\<lambda>a b. a < b \<and> (lo \<le> a \<and> b < ve \<longrightarrow> src ! (a - lo) < src ! (b - lo))) js"
    unfolding sorted_wrt_iff_nth_less
  proof (intro allI impI)
    fix a b assume ab: "a < b" "b < length js"
    then have "is ! a < is ! b" "js ! a < js ! b"
      using assms(1) sorted_wrt_nth_less[of "(<)" js a b] sorted_wrt_nth_less[of "(<)" "is" a b] by (auto simp: common_def)
    then show "js ! a < js ! b \<and> (lo \<le> js ! a \<and> js ! b < ve \<longrightarrow> src ! (js ! a - lo) < src ! (js ! b - lo))"
      using src[of a] src[of b] ab by auto
  qed
  then have "sorted_wrt (\<lambda>a b. a - lo < b - lo \<and> src ! (a - lo) < src ! (b - lo)) (filter (\<lambda>j. lo \<le> j \<and> j < ve) js)"
    by (intro sorted_wrt_mono_rel[OF _ sorted_wrt_filter]) auto
  moreover have "j - lo < ve - lo \<and> src ! (j - lo) \<noteq> 0" if "j \<in> set js" "lo \<le> j" "j < ve" for j
    using that src by (auto simp: in_set_conv_nth)
  ultimately show ?thesis using len by (auto simp: rising_nonzero_def sorted_wrt_map)
qed

lemma split_count:
  "length xs = length (filter (\<lambda>j. j < lo) xs) + length (filter (\<lambda>j. lo \<le> j \<and> j < ve) xs) + length (filter (\<lambda>j. ve \<le> j) xs)"
  if "lo \<le> ve" for lo ve :: nat
  using that by (induction xs) auto


lemma common_part:
  assumes "common z q is js"
  shows "length (filter P js) \<le> length (filter P (reused z q))"
proof -
  have "distinct (filter P js)" using assms by (auto simp: common_def strict_sorted_iff)
  then show ?thesis by (rule distinct_length_le) (use common_reused[OF assms] in auto)
qed

lemma sources_reused:
  assumes "sources z q lo xe ve em mv mv' src" "ve \<le> length q" "xe \<le> length z" "\<forall>y\<in>set q. vkey y \<noteq> None"
  shows "length (filter (\<lambda>a. src ! a \<noteq> 0) [0..<ve - lo]) \<le> length (filter (\<lambda>j. lo \<le> j \<and> j < ve) (reused z q))"
proof -
  let ?A = "filter (\<lambda>a. src ! a \<noteq> 0) [0..<ve - lo]"
  have "lo + a \<in> set (filter (\<lambda>j. lo \<le> j \<and> j < ve) (reused z q))" if "a \<in> set ?A" for a
  proof -
    obtain j where "src ! a = Suc j" using \<open>a \<in> set ?A\<close> by (cases "src ! a") auto
    then have "j < xe" "vkey (z ! j) = vkey (q ! (lo + a))" using sources_el[OF assms(1), of a j] that by auto
    then have "vkey (q ! (lo + a)) \<in> vkey ` set z" using assms(3) by (metis image_eqI less_le_trans nth_mem)
    moreover have "lo + a < ve" using that by auto
    ultimately show ?thesis using assms(2,4) by (auto simp: reused_def)
  qed
  then have "set (map (\<lambda>a. lo + a) ?A) \<subseteq> set (filter (\<lambda>j. lo \<le> j \<and> j < ve) (reused z q))" by auto
  then show ?thesis using distinct_length_le[of "map (\<lambda>a. lo + a) ?A"] by (simp add: distinct_map)
qed

text \<open>C12: The update moves as few nodes as possible: if all new children have keys, then however many old and new children
  one finds that have the same keys in the same order, the number of moved nodes is at most the number of children that are
  kept less these.\<close>

theorem keyed_children_few_moves:
  assumes "ready z q anchor pre tail st" "distinct_keys z" "distinct_keys q" "\<forall>y\<in>set q. vkey y \<noteq> None" "common z q is js"
  shows "case patchKeyedChildren z q anchor st of None \<Rightarrow> False
    | Some st' \<Rightarrow> moved st' + length js \<le> moved st + length (reused z q)"
proof -
  obtain st' lo xe ve em where c: "patchKeyedChildren z q anchor st = Some st'" "aligned z q lo xe ve"
    "els st' = kept (take lo z) @ em @ kept (drop xe z)" "length em = ve - lo" "None \<notin> set em"
    "nodes st' = (pre @ map el (take lo z)) @ map the em @ map el (drop xe z) @ tail"
    "moved st' = moved st \<and> (xe \<le> lo \<or> ve \<le> lo) \<or> (\<exists>src. sources z q lo xe ve em (moved st) (moved st') src)"
    by (rule keyed_core[OF assms(1-3)])
  have a: "lo \<le> ve" "ve \<le> length q" "xe \<le> length z" using c(2) by (auto simp: aligned_def)
  let ?mid = "filter (\<lambda>j. lo \<le> j \<and> j < ve)"
  have "moved st' + length js \<le> moved st + length (reused z q)"
    using c(7)
  proof (elim disjE exE)
    fix src assume src: "sources z q lo xe ve em (moved st) (moved st') src"
    have "moved st' + length (?mid js) \<le> moved st + length (filter (\<lambda>a. src ! a \<noteq> 0) [0..<ve - lo])"
      using sources_moves[OF src common_middle[OF assms(5) c(2) src assms(2,3)]] by simp
    also have "\<dots> \<le> moved st + length (?mid (reused z q))" using sources_reused[OF src a(2,3) assms(4)] by simp
    finally show ?thesis
      using split_count[OF a(1), of js] split_count[OF a(1), of "reused z q"] common_part[OF assms(5), of "\<lambda>j. j < lo"]
        common_part[OF assms(5), of "\<lambda>j. ve \<le> j"] by linarith
  qed (use common_length[OF assms(5)] in simp)
  then show ?thesis using c(1) by simp
qed

theorem keyed_children_few_moves_witness:
  "patchKeyedChildren [child ''a'' 10, child ''b'' 11, child ''c'' 12, child ''d'' 13] [child ''d'' 0, child ''a'' 0, child ''c'' 0, child ''b'' 0]
      None \<lparr>nodes = [10, 11, 12, 13], fresh = 20, els = [None, None, None, None], moved = 0\<rparr> =
    Some \<lparr>nodes = [13, 10, 12, 11], fresh = 20, els = [Some 13, Some 10, Some 12, Some 11], moved = 2\<rparr> \<and>
   2 + length [1, 2 :: nat] \<le> 0 + length (reused [child ''a'' 10, child ''b'' 11, child ''c'' 12, child ''d'' 13] [child ''d'' 0, child ''a'' 0, child ''c'' 0, child ''b'' 0])"
proof -
  let ?z = "[child ''a'' 10, child ''b'' 11, child ''c'' 12, child ''d'' 13]" and ?q = "[child ''d'' 0, child ''a'' 0, child ''c'' 0, child ''b'' 0]"
  let ?st = "\<lparr>nodes = [10, 11, 12, 13], fresh = 20, els = [None, None, None, None], moved = 0\<rparr> :: page"
  have r: "patchKeyedChildren ?z ?q None ?st =
    Some \<lparr>nodes = [13, 10, 12, 11], fresh = 20, els = [Some 13, Some 10, Some 12, Some 11], moved = 2\<rparr>" by code_simp
  have "ready ?z ?q None [] [] ?st" "distinct_keys ?z" "distinct_keys ?q" "\<forall>y\<in>set ?q. vkey y \<noteq> None" "common ?z ?q [0, 2] [1, 2]"
    by (auto simp: ready_def distinct_keys_def child_def numeral_eq_Suc common_def less_Suc_eq)
  from keyed_children_few_moves[OF this] show ?thesis unfolding r by simp
qed

section \<open>Children without keys: the result\<close>

lemma patchRange_spec:
  assumes "nodes st = us @ map el (drop i z) @ vs" "distinct (nodes st)" "\<forall>x\<in>set (nodes st). x < fresh st"
    "els st = hs @ replicate n None" "length hs = i" "i + k \<le> length z" "k \<le> n"
  shows "\<exists>st' xs. patchRange z q [i..<i + k] st = Some st' \<and> nodes st' = us @ xs @ map el (drop (i + k) z) @ vs \<and>
    distinct (nodes st') \<and> (\<forall>x\<in>set (nodes st'). x < fresh st') \<and> els st' = hs @ map Some xs @ replicate (n - k) None \<and> length xs = k \<and>
    (\<forall>a<k. same_vnode (z ! (i + a)) (q ! (i + a)) \<longrightarrow> xs ! a = el (z ! (i + a)))"
  using assms
proof (induction k arbitrary: i us st hs n)
  case 0
  then show ?case by (intro exI[of _ st] exI[of _ "[]"]) simp
next
  case (Suc k)
  have i: "i < length z" "0 < n" using Suc.prems(6,7) by auto
  let ?vs = "map el (drop (Suc i) z) @ vs"
  have n: "nodes st = us @ el (z ! i) # ?vs" using Suc.prems(1) i(1) by (simp add: Cons_nth_drop_Suc[symmetric])
  obtain x f where x: "patch (z ! i) (q ! i) i st = Some (st\<lparr>nodes := us @ x # ?vs, fresh := f, els := (els st)[i := Some x]\<rparr>)"
    "x = (if same_vnode (z ! i) (q ! i) then el (z ! i) else fresh st)" "fresh st \<le> f" "x < f"
    using patch_split[OF n Suc.prems(2,3), of "q ! i" i] by blast
  define st1 where "st1 = st\<lparr>nodes := us @ x # ?vs, fresh := f, els := (els st)[i := Some x]\<rparr>"
  have "\<forall>y\<in>set (nodes st). y < f" using Suc.prems(3) x(3) by (meson less_le_trans)
  then have one: "nodes st1 = (us @ [x]) @ map el (drop (Suc i) z) @ vs" "distinct (nodes st1)" "\<forall>y\<in>set (nodes st1). y < fresh st1"
    using n Suc.prems(2,3) x(2,4) by (auto simp: st1_def split: if_splits)
  have els: "els st1 = (hs @ [Some x]) @ replicate (n - 1) None"
    using Suc.prems(4,5) i(2) by (cases n) (auto simp: st1_def list_update_append)
  obtain st' xs where r: "patchRange z q [Suc i..<Suc i + k] st1 = Some st'" "nodes st' = (us @ [x]) @ xs @ map el (drop (Suc i + k) z) @ vs"
    "distinct (nodes st')" "\<forall>x\<in>set (nodes st'). x < fresh st'" "els st' = (hs @ [Some x]) @ map Some xs @ replicate (n - 1 - k) None"
    "length xs = k" "\<forall>a<k. same_vnode (z ! (Suc i + a)) (q ! (Suc i + a)) \<longrightarrow> xs ! a = el (z ! (Suc i + a))"
  proof -
    have "length (hs @ [Some x]) = Suc i" "Suc i + k \<le> length z" "k \<le> n - 1" using Suc.prems(5-7) by auto
    then show thesis using Suc.IH[OF one els] that by blast
  qed
  have "\<forall>a<Suc k. same_vnode (z ! (i + a)) (q ! (i + a)) \<longrightarrow> (x # xs) ! a = el (z ! (i + a))"
    using r(7) x(2) by (auto simp: less_Suc_eq_0_disj)
  moreover have "[i..<i + Suc k] = i # [Suc i..<Suc i + k]" by (simp add: upt_conv_Cons del: upt_Suc)
  ultimately show ?case using r x(1) by (intro exI[of _ st'] exI[of _ "x # xs"]) (simp add: st1_def del: upt_Suc)
qed


lemma unkeyed_core:
  assumes "ready z q anchor pre tail st"
  defines "c \<equiv> min (length z) (length q)"
  shows "\<exists>st' xs. patchUnkeyedChildren z q anchor st = Some st' \<and> els st' = map Some xs \<and> length xs = length q \<and>
    nodes st' = pre @ xs @ tail \<and> (\<forall>i<c. same_vnode (z ! i) (q ! i) \<longrightarrow> xs ! i = el (z ! i))"
proof -
  have st: "nodes st = pre @ map el (drop 0 z) @ tail" "distinct (nodes st)" "\<forall>x\<in>set (nodes st). x < fresh st"
    "els st = [] @ replicate (length q) None" "anchor = first tail" using assms(1) unfolding ready_def drop_0 append_Nil by blast+
  obtain st1 xs where p: "patchRange z q [0..<c] st = Some st1" "nodes st1 = pre @ xs @ map el (drop c z) @ tail"
    "distinct (nodes st1)" "\<forall>x\<in>set (nodes st1). x < fresh st1" "els st1 = map Some xs @ replicate (length q - c) None" "length xs = c"
    "\<forall>i<c. same_vnode (z ! i) (q ! i) \<longrightarrow> xs ! i = el (z ! i)"
    using patchRange_spec[OF st(1-4), of c q] by (auto simp: c_def)
  show ?thesis
  proof (cases "length q < length z")
    case True
    then have c: "c = length q" by (simp add: c_def)
    have "fold (\<lambda>k. unmount (z ! k)) [c..<length z] st1 = st1\<lparr>nodes := (pre @ xs) @ tail\<rparr>"
      by (rule unmountRange_spec) (use p(2,3) True c in auto)
    then show ?thesis using p True c by (auto simp: patchUnkeyedChildren_def c_def[symmetric] Let_def)
  next
    case False
    then have c: "c = length z" "c \<le> length q" by (auto simp: c_def)
    let ?new = "[fresh st1..<fresh st1 + (length q - c)]"
    have "mountRange [c..<c + (length q - c)] (first tail) st1 = Some (st1\<lparr>nodes := (pre @ xs) @ ?new @ tail,
        fresh := fresh st1 + (length q - c), els := map Some xs @ map Some ?new @ []\<rparr>)"
      by (rule mountRange_spec) (use p c in auto)
    then have "patchUnkeyedChildren z q anchor st = Some (st1\<lparr>nodes := (pre @ xs) @ ?new @ tail,
        fresh := fresh st1 + (length q - c), els := map Some xs @ map Some ?new @ []\<rparr>)"
      using p(1) False c st(5) by (simp add: patchUnkeyedChildren_def c_def[symmetric] Let_def)
    moreover have "length (xs @ ?new) = length q" using p(6) c by simp
    moreover have "\<forall>i<c. same_vnode (z ! i) (q ! i) \<longrightarrow> (xs @ ?new) ! i = el (z ! i)" using p(6,7) by (simp add: nth_append)
    ultimately show ?thesis by (intro exI[of _ "xs @ ?new"] exI conjI) (assumption | simp)+
  qed
qed

text \<open>The children of an element without keys are brought up to date by their positions: afterwards the container holds
  the new children in order, and a child that has the type (and the key) of the old child at its position keeps its node.\<close>

theorem unkeyed_children_in_order:
  assumes "ready z q anchor pre tail st"
  shows "case patchUnkeyedChildren z q anchor st of None \<Rightarrow> False
    | Some st' \<Rightarrow> length (els st') = length q \<and> None \<notin> set (els st') \<and> nodes st' = pre @ map the (els st') @ tail \<and>
        (\<forall>i. i < length z \<and> i < length q \<and> same_vnode (z ! i) (q ! i) \<longrightarrow> els st' ! i = Some (el (z ! i)))"
  using unkeyed_core[OF assms] by (auto simp: comp_def)

theorem unkeyed_children_in_order_witness:
  "patchUnkeyedChildren [child ''a'' 10, child ''b'' 11, child ''c'' 12] [child ''a'' 0, child ''x'' 0]
      (Some 9) \<lparr>nodes = [10, 11, 12, 9], fresh = 20, els = [None, None], moved = 0\<rparr> =
    Some \<lparr>nodes = [10, 20, 9], fresh = 21, els = [Some 10, Some 20], moved = 0\<rparr> \<and>
   [10, 20, 9 :: nat] = [] @ map the [Some 10, Some 20] @ [9]"
proof -
  let ?z = "[child ''a'' 10, child ''b'' 11, child ''c'' 12]" and ?q = "[child ''a'' 0, child ''x'' 0]"
  let ?st = "\<lparr>nodes = [10, 11, 12, 9], fresh = 20, els = [None, None], moved = 0\<rparr> :: page"
  have r: "patchUnkeyedChildren ?z ?q (Some 9) ?st =
    Some \<lparr>nodes = [10, 20, 9], fresh = 21, els = [Some 10, Some 20], moved = 0\<rparr>" by code_simp
  have "ready ?z ?q (Some 9) [] [9] ?st" by (auto simp: ready_def child_def numeral_eq_Suc)
  from unkeyed_children_in_order[OF this] show ?thesis unfolding r by simp
qed

end
