(* ===== verification/Update_Queue.thy ===== *)
theory Update_Queue
  imports Prelude "HOL-Library.Extended_Nat" "HOL-Library.Monad_Syntax"
begin

text \<open>
  The scheduler of the bundled framework (\<open>index-e87360db.js\<close>): the queue of the jobs that bring components up to date
  and run watchers, the callbacks to be run after them, and the flush of both.  A job is an object with an identity, an
  optional \<open>id\<close> (the number of its component) and the mark \<open>pre\<close>; its fields \<open>active\<close> and \<open>allowRecurse\<close> change
  while the program runs and are part of the state.  What the jobs and callbacks themselves do is a parameter: a
  function \<open>b\<close> that gives, for everything that has run so far and the job, the calls the job makes of the scheduler and
  whether it ends in an exception.  The recursion of jobs into the scheduler is bounded by fuel; None means that it was
  not enough.  Positions are natural numbers: queues are shorter than 2^31, where \<open>>>>\<close> truncates nothing.
\<close>

section \<open>Jobs and the state of the scheduler\<close>

record job =
  jobkey :: nat
  jobid :: "nat option"
  pre :: bool

text \<open>How a job came to run: from the queue, ahead of it (\<open>hv\<close>), or as a callback after the flush.\<close>

datatype mode = Queued | Early | Post

record sched =
  bn :: "job list"
  To :: nat
  da :: bool
  Nd :: bool
  Kl :: "job list"
  Uo :: "job list option"
  Jr :: nat
  tasks :: nat
  inactive :: "job list"
  recursive :: "job list"
  runs :: "(mode \<times> job) list"

text \<open>The rank of a job in the order of flushing.\<close>

definition fa :: "job \<Rightarrow> enat" where
  "fa e = (case jobid e of None \<Rightarrow> \<infinity> | Some n \<Rightarrow> enat n)"

text \<open>The comparators; the difference of two infinities is not a number, which \<open>sort\<close> takes for zero.\<close>

definition byId :: "job \<Rightarrow> job \<Rightarrow> int" where
  "byId e t = (if fa e < fa t then -1 else if fa t < fa e then 1 else 0)"

definition Vk :: "job \<Rightarrow> job \<Rightarrow> int" where
  "Vk e t = (if byId e t = 0 \<and> jobid e \<noteq> None then (if pre e \<and> \<not> pre t then -1 else if pre t \<and> \<not> pre e then 1 else 0) else byId e t)"

text \<open>\<open>sort\<close> of the library: stable.\<close>

fun sort_in :: "(job \<Rightarrow> job \<Rightarrow> int) \<Rightarrow> job \<Rightarrow> job list \<Rightarrow> job list" where
  "sort_in c x [] = [x]"
| "sort_in c x (y # ys) = (if c x y \<le> 0 then x # y # ys else y # sort_in c x ys)"

definition sort_jobs :: "(job \<Rightarrow> job \<Rightarrow> int) \<Rightarrow> job list \<Rightarrow> job list" where
  "sort_jobs c xs = foldr (sort_in c) xs []"

section \<open>Queueing\<close>

text \<open>The binary search for the place of an id behind the job that is running (\<open>Dk\<close>).\<close>

function Dk_loop :: "job list \<Rightarrow> enat \<Rightarrow> nat \<Rightarrow> nat \<Rightarrow> nat" where
  "Dk_loop q e t n = (if t < n then (let m = (t + n) div 2 in if fa (q ! m) < e then Dk_loop q e (m + 1) n else Dk_loop q e t m) else t)"
  by pat_completeness auto
termination by (relation "measure (\<lambda>(q, e, t, n). n - t)") auto

declare Dk_loop.simps [simp del]

definition Dk :: "nat \<Rightarrow> sched \<Rightarrow> nat" where
  "Dk e st = Dk_loop (bn st) (enat e) (To st + 1) (length (bn st))"

text \<open>\<open>M0\<close>: the flush becomes a task of the event loop, once.\<close>

definition M0 :: "sched \<Rightarrow> sched" where
  "M0 st = (if \<not> da st \<and> \<not> Nd st then st\<lparr>Nd := True, tasks := tasks st + 1\<rparr> else st)"

definition pp :: "job \<Rightarrow> sched \<Rightarrow> sched" where
  "pp e st = (if bn st = [] \<or> e \<notin> set (drop (if da st \<and> e \<in> set (recursive st) then To st + 1 else To st) (bn st))
     then M0 (st\<lparr>bn := (case jobid e of None \<Rightarrow> bn st @ [e]
       | Some n \<Rightarrow> (let d = Dk n st in take d (bn st) @ [e] @ drop d (bn st)))\<rparr>)
     else st)"

text \<open>\<open>Bk\<close>: a job that waits is taken out; the search starts at the beginning of the queue.\<close>

fun first_at :: "job \<Rightarrow> job list \<Rightarrow> nat option" where
  "first_at e [] = None"
| "first_at e (x # xs) = (if x = e then Some 0 else map_option Suc (first_at e xs))"

definition Bk :: "job \<Rightarrow> sched \<Rightarrow> sched" where
  "Bk e st = (case first_at e (bn st) of None \<Rightarrow> st
     | Some t \<Rightarrow> if To st < t then st\<lparr>bn := take t (bn st) @ drop (t + 1) (bn st)\<rparr> else st)"

text \<open>\<open>Fk\<close> for one callback and for a list of them.\<close>

definition Fk :: "job \<Rightarrow> sched \<Rightarrow> sched" where
  "Fk e st = M0 (case Uo st of
       Some u \<Rightarrow> if e \<in> set (drop (if e \<in> set (recursive st) then Jr st + 1 else Jr st) u) then st else st\<lparr>Kl := Kl st @ [e]\<rparr>
     | None \<Rightarrow> st\<lparr>Kl := Kl st @ [e]\<rparr>)"

definition Fk_all :: "job list \<Rightarrow> sched \<Rightarrow> sched" where
  "Fk_all es st = M0 (st\<lparr>Kl := Kl st @ es\<rparr>)"

section \<open>Running\<close>

text \<open>What a job can ask of the scheduler, or change of a job.\<close>

datatype cmd = QueueJob job | QueuePost job | QueuePosts "job list" | Invalidate job | FlushPre | FlushPost
  | SetActive job bool | SetRecurse job bool

type_synonym body = "(mode \<times> job) list \<Rightarrow> job \<Rightarrow> cmd list \<times> bool"

definition mark :: "job \<Rightarrow> bool \<Rightarrow> job list \<Rightarrow> job list" where
  "mark e v xs = (if v then (if e \<in> set xs then xs else e # xs) else removeAll e xs)"

text \<open>The calls that run nothing themselves.\<close>

fun simple :: "cmd \<Rightarrow> sched \<Rightarrow> sched" where
  "simple (QueueJob e) st = pp e st"
| "simple (QueuePost e) st = Fk e st"
| "simple (QueuePosts es) st = Fk_all es st"
| "simple (Invalidate e) st = Bk e st"
| "simple (SetActive e v) st = st\<lparr>inactive := mark e (\<not> v) (inactive st)\<rparr>"
| "simple (SetRecurse e v) st = st\<lparr>recursive := mark e v (recursive st)\<rparr>"
| "simple FlushPre st = st"
| "simple FlushPost st = st"

text \<open>\<open>[...new Set(xs)]\<close>: the first of equal entries stays.\<close>

definition js_unique :: "'a list \<Rightarrow> 'a list" where
  "js_unique xs = rev (remdups (rev xs))"

text \<open>
  A result is the pair of a mark for an exception and the state.  \<open>call\<close> runs a job, \<open>exec\<close> the calls it makes,
  \<open>hv\<close> the waiting jobs marked \<open>pre\<close>, \<open>postLoop\<close> and \<open>I0\<close> the callbacks after a flush.
\<close>

function call :: "body \<Rightarrow> nat \<Rightarrow> mode \<Rightarrow> job \<Rightarrow> sched \<Rightarrow> (bool \<times> sched) option"
and exec :: "body \<Rightarrow> nat \<Rightarrow> cmd list \<Rightarrow> sched \<Rightarrow> (bool \<times> sched) option"
and hv :: "body \<Rightarrow> nat \<Rightarrow> nat \<Rightarrow> sched \<Rightarrow> (bool \<times> sched) option"
and I0 :: "body \<Rightarrow> nat \<Rightarrow> sched \<Rightarrow> (bool \<times> sched) option"
and postLoop :: "body \<Rightarrow> nat \<Rightarrow> sched \<Rightarrow> (bool \<times> sched) option"
where
  "call b 0 k j st = None"
| "call b (Suc f) k j st = (case b (runs st) j of (cs, throws) \<Rightarrow> do {
     (x, st) \<leftarrow> exec b f cs (st\<lparr>runs := runs st @ [(k, j)]\<rparr>);
     Some (x \<or> throws, st) })"
| "exec b f [] st = Some (False, st)"
| "exec b f (c # cs) st = do {
     (x, st) \<leftarrow> (case c of FlushPre \<Rightarrow> hv b f (if da st then To st + 1 else 0) st | FlushPost \<Rightarrow> I0 b f st | _ \<Rightarrow> Some (False, simple c st));
     if x then Some (True, st) else exec b f cs st }"
| "hv b 0 t st = None"
| "hv b (Suc f) t st = (if t < length (bn st) then
     (let n = bn st ! t in if pre n then do {
         (x, st) \<leftarrow> call b f Early n (st\<lparr>bn := take t (bn st) @ drop (t + 1) (bn st)\<rparr>);
         if x then Some (True, st) else hv b f t st }
       else hv b f (t + 1) st)
     else Some (False, st))"
| "I0 b f st = (if Kl st = [] then Some (False, st)
     else (let t = js_unique (Kl st) in case Uo st of
         Some u \<Rightarrow> Some (False, st\<lparr>Kl := [], Uo := Some (u @ t)\<rparr>)
       | None \<Rightarrow> postLoop b f (st\<lparr>Kl := [], Uo := Some (sort_jobs byId t), Jr := 0\<rparr>)))"
| "postLoop b 0 st = None"
| "postLoop b (Suc f) st = (case Uo st of None \<Rightarrow> Some (True, st)
     | Some u \<Rightarrow> if Jr st < length u then do {
         (x, st) \<leftarrow> call b f Post (u ! Jr st) st;
         if x then Some (True, st) else postLoop b f (st\<lparr>Jr := Jr st + 1\<rparr>) }
       else Some (False, st\<lparr>Uo := None, Jr := 0\<rparr>))"
  by pat_completeness auto

termination
  by (relation "measures [\<lambda>x. case x of Inl (Inl (b, f, k, j, st)) \<Rightarrow> f | Inl (Inr (b, f, cs, st)) \<Rightarrow> f
       | Inr (Inl (b, f, t, st)) \<Rightarrow> f | Inr (Inr (Inl (b, f, st))) \<Rightarrow> f | Inr (Inr (Inr (b, f, st))) \<Rightarrow> f,
     \<lambda>x. case x of Inl (Inl _) \<Rightarrow> 0 | Inl (Inr (b, f, cs, st)) \<Rightarrow> 3 + length cs
       | Inr (Inl _) \<Rightarrow> 1 | Inr (Inr (Inl _)) \<Rightarrow> 2 | Inr (Inr (Inr _)) \<Rightarrow> 1]") auto

text \<open>The loop over the queue; an exception of a job is reported and the loop goes on (\<open>$r\<close>).\<close>

fun flushLoop :: "body \<Rightarrow> nat \<Rightarrow> sched \<Rightarrow> sched option" where
  "flushLoop b 0 st = None"
| "flushLoop b (Suc f) st = (if To st < length (bn st) then
     (let n = bn st ! To st in do {
       st \<leftarrow> (if n \<in> set (inactive st) then Some st else do { (x, st) \<leftarrow> call b f Queued n st; Some st });
       flushLoop b f (st\<lparr>To := To st + 1\<rparr>) })
     else Some st)"

text \<open>\<open>P0\<close>: its \<open>try\<close> part, and with its \<open>finally\<close>, which an exception of a callback leaves early.\<close>

definition flushQueue :: "body \<Rightarrow> nat \<Rightarrow> sched \<Rightarrow> sched option" where
  "flushQueue b f st = flushLoop b f (st\<lparr>Nd := False, da := True, bn := sort_jobs Vk (bn st), To := 0\<rparr>)"

fun P0 :: "body \<Rightarrow> nat \<Rightarrow> sched \<Rightarrow> (bool \<times> sched) option" where
  "P0 b 0 st = None"
| "P0 b (Suc f) st = do {
     st \<leftarrow> flushQueue b f st;
     (x, st) \<leftarrow> I0 b f (st\<lparr>To := 0, bn := []\<rparr>);
     if x then Some (True, st)
     else (let st = st\<lparr>da := False\<rparr> in if bn st \<noteq> [] \<or> Kl st \<noteq> [] then P0 b f st else Some (False, st)) }"

text \<open>The event loop takes the task that \<open>M0\<close> left.\<close>

definition run_task :: "body \<Rightarrow> nat \<Rightarrow> sched \<Rightarrow> (bool \<times> sched) option" where
  "run_task b f st = P0 b f (st\<lparr>tasks := tasks st - 1\<rparr>)"

section \<open>Sorting and searching\<close>

lemma set_sort_in [simp]: "set (sort_in c x xs) = insert x (set xs)"
  by (induction xs) auto

lemma length_sort_in [simp]: "length (sort_in c x xs) = Suc (length xs)"
  by (induction xs) auto

lemma distinct_sort_in [simp]: "distinct (sort_in c x xs) \<longleftrightarrow> x \<notin> set xs \<and> distinct xs"
  by (induction xs) auto

definition by_rank :: "(job \<Rightarrow> job \<Rightarrow> int) \<Rightarrow> bool" where
  "by_rank c \<longleftrightarrow> (\<forall>x y. if c x y \<le> 0 then fa x \<le> fa y else fa y \<le> fa x)"

lemma by_rank_byId: "by_rank byId"
  by (auto simp: by_rank_def byId_def)

lemma by_rank_Vk: "by_rank Vk"
  by (auto simp: by_rank_def Vk_def byId_def split: if_splits)

abbreviation ranked :: "job list \<Rightarrow> bool" where
  "ranked xs \<equiv> sorted_wrt (\<lambda>x y. fa x \<le> fa y) xs"

lemma ranked_sort_in: "by_rank c \<Longrightarrow> ranked xs \<Longrightarrow> ranked (sort_in c x xs)"
proof (induction xs)
  case (Cons y ys)
  show ?case
  proof (cases "c x y \<le> 0")
    case True
    then have "fa x \<le> fa y" using Cons.prems(1) unfolding by_rank_def by meson
    then show ?thesis using True Cons.prems(2) by (auto intro: order_trans)
  next
    case False
    then have "fa y \<le> fa x" using Cons.prems(1) unfolding by_rank_def by meson
    then show ?thesis using False Cons by auto
  qed
qed simp

lemma sort_jobs_simps [simp]: "sort_jobs c [] = []" "sort_jobs c (x # xs) = sort_in c x (sort_jobs c xs)"
  by (simp_all add: sort_jobs_def)

lemma sort_jobs_spec: "by_rank c \<Longrightarrow> ranked (sort_jobs c xs) \<and> set (sort_jobs c xs) = set xs \<and> length (sort_jobs c xs) = length xs \<and>
    (distinct (sort_jobs c xs) \<longleftrightarrow> distinct xs)"
  by (induction xs) (auto simp: ranked_sort_in)

text \<open>The binary search counts the waiting jobs of smaller rank.\<close>

lemma Dk_loop_spec:
  assumes "t \<le> n" "n \<le> length q" "\<forall>k<length q. lo \<le> k \<longrightarrow> k < t \<longrightarrow> fa (q ! k) < e" "\<forall>k<length q. n \<le> k \<longrightarrow> e \<le> fa (q ! k)"
    "ranked (drop lo q)" "lo \<le> t"
  shows "t \<le> Dk_loop q e t n \<and> Dk_loop q e t n \<le> n \<and> (\<forall>k<length q. lo \<le> k \<longrightarrow> (fa (q ! k) < e \<longleftrightarrow> k < Dk_loop q e t n))"
  using assms
proof (induction q e t n rule: Dk_loop.induct)
  case (1 q e t n)
  let ?m = "(t + n) div 2"
  have mono: "fa (q ! i) \<le> fa (q ! k)" if "lo \<le> i" "i < k" "k < length q" for i k
    using sorted_wrt_nth_less[OF "1.prems"(5), of "i - lo" "k - lo"] that by auto
  show ?case
  proof (cases "t < n")
    case False
    have d: "Dk_loop q e t n = t" using False by (simp add: Dk_loop.simps[of q e t n])
    have n: "n = t" using False "1.prems"(1) by simp
    have "fa (q ! k) < e \<longleftrightarrow> k < t" if "k < length q" "lo \<le> k" for k
      using "1.prems"(3,4) that n by (cases "k < t") (auto simp: not_less)
    then have "\<forall>k<length q. lo \<le> k \<longrightarrow> (fa (q ! k) < e \<longleftrightarrow> k < t)" by blast
    then show ?thesis using d n by (simp only: le_refl simp_thms)
  next
    case True
    then have m: "t \<le> ?m" "?m < n" by auto
    show ?thesis
    proof (cases "fa (q ! ?m) < e")
      case below: True
      have "\<forall>k<length q. lo \<le> k \<longrightarrow> k < ?m + 1 \<longrightarrow> fa (q ! k) < e"
      proof (intro allI impI)
        fix k assume k: "k < length q" "lo \<le> k" "k < ?m + 1"
        show "fa (q ! k) < e"
        proof (cases "k = ?m")
          case False
          then have "fa (q ! k) \<le> fa (q ! ?m)" using mono[of k ?m] k m "1.prems"(2) by simp
          then show ?thesis using below by (rule order_le_less_trans)
        qed (use below in simp)
      qed
      from "1.IH"(1)[OF True refl below _ "1.prems"(2) this "1.prems"(4,5)] show ?thesis using m "1.prems"(6) True below
        by (auto simp: Dk_loop.simps[of q e t n] Let_def)
    next
      case False
      have "\<forall>k<length q. ?m \<le> k \<longrightarrow> e \<le> fa (q ! k)"
      proof (intro allI impI)
        fix k assume k: "k < length q" "?m \<le> k"
        have "fa (q ! ?m) \<le> fa (q ! k)" using mono[of ?m k] k m "1.prems"(6) by (cases "k = ?m") auto
        then show "e \<le> fa (q ! k)" using False by (meson not_less order_trans)
      qed
      from "1.IH"(2)[OF True refl False _ _ "1.prems"(3) this "1.prems"(5,6)] show ?thesis using m "1.prems"(2) True False
        by (auto simp: Dk_loop.simps[of q e t n] Let_def)
    qed
  qed
qed


section \<open>Queueing while a flush runs\<close>

text \<open>The reference: a job goes behind the waiting jobs of smaller rank, and behind all when it has no id.\<close>

definition insert_waiting :: "job \<Rightarrow> job list \<Rightarrow> job list" where
  "insert_waiting e P = (case jobid e of None \<Rightarrow> P @ [e] | Some _ \<Rightarrow> takeWhile (\<lambda>x. fa x < fa e) P @ e # dropWhile (\<lambda>x. fa x < fa e) P)"

abbreviation waits :: "sched \<Rightarrow> job list" where
  "waits st \<equiv> drop (To st + 1) (bn st)"

lemma Dk_spec:
  assumes "To st < length (bn st)" "ranked (waits st)"
  shows "take (Dk n st) (bn st) @ [e] @ drop (Dk n st) (bn st) =
    take (To st + 1) (bn st) @ takeWhile (\<lambda>x. fa x < enat n) (waits st) @ e # dropWhile (\<lambda>x. fa x < enat n) (waits st)"
proof -
  let ?lo = "To st + 1" and ?d = "Dk n st"
  have d: "?lo \<le> ?d" "?d \<le> length (bn st)" "\<forall>k<length (bn st). ?lo \<le> k \<longrightarrow> (fa (bn st ! k) < enat n \<longleftrightarrow> k < ?d)"
  proof -
    have "?lo \<le> ?d \<and> ?d \<le> length (bn st) \<and> (\<forall>k<length (bn st). ?lo \<le> k \<longrightarrow> (fa (bn st ! k) < enat n \<longleftrightarrow> k < ?d))"
      unfolding Dk_def by (rule Dk_loop_spec[OF _ _ _ _ assms(2)]) (use assms(1) in auto)
    then show "?lo \<le> ?d" "?d \<le> length (bn st)" "\<forall>k<length (bn st). ?lo \<le> k \<longrightarrow> (fa (bn st ! k) < enat n \<longleftrightarrow> k < ?d)" by blast+
  qed
  have t: "takeWhile (\<lambda>x. fa x < enat n) (waits st) = take (?d - ?lo) (waits st)"
    by (rule takeWhile_eq_take_P_nth) (use d in auto)
  have "length (takeWhile (\<lambda>x. fa x < enat n) (waits st)) = ?d - ?lo" unfolding t using d(1,2) by auto
  then have w: "dropWhile (\<lambda>x. fa x < enat n) (waits st) = drop (?d - ?lo) (waits st)" by (simp add: dropWhile_eq_drop)
  have "take ?d (bn st) = take ?lo (bn st) @ take (?d - ?lo) (waits st)" "drop ?d (bn st) = drop (?d - ?lo) (waits st)"
    using d(1) take_add[of ?lo "?d - ?lo" "bn st"] by auto
  then show ?thesis unfolding t w by simp
qed

lemma queue_while_flushing_aux:
  assumes "da st" "To st < length (bn st)" "ranked (waits st)"
  shows "pp e st = (if e \<in> set (drop (if e \<in> set (recursive st) then To st + 1 else To st) (bn st)) then st
    else st\<lparr>bn := take (To st + 1) (bn st) @ insert_waiting e (waits st)\<rparr>)"
proof (cases "jobid e")
  case None
  then show ?thesis using assms(1,2) by (auto simp: pp_def insert_waiting_def M0_def)
next
  case (Some n)
  then have "fa e = enat n" by (simp add: fa_def)
  then show ?thesis using Dk_spec[OF assms(2,3), of n e] assms(1,2) Some by (auto simp: pp_def insert_waiting_def M0_def Let_def)
qed

text \<open>C14: While a flush runs and the waiting jobs are in the order of their ranks, queueing a job puts it exactly where the
  reference puts it, with the binary search over the part of the queue behind the running job, and nowhere if it waits already;
  the jobs that have run and the one that runs stay where they are.\<close>

theorem queue_while_flushing:
  assumes "da st" "To st < length (bn st)" "ranked (drop (To st + 1) (bn st))"
  shows "pp e st = (if e \<in> set (drop (if e \<in> set (recursive st) then To st + 1 else To st) (bn st)) then st
    else st\<lparr>bn := take (To st + 1) (bn st) @ insert_waiting e (drop (To st + 1) (bn st))\<rparr>)"
  using queue_while_flushing_aux[OF assms] .


section \<open>What running keeps\<close>

text \<open>
  The contract of everything that runs: an invariant \<open>I\<close> and a relation \<open>R\<close> between the states before and after that every
  single step respects, for jobs that are \<open>good\<close> and so only make calls that are \<open>fine\<close>.
\<close>

locale scheduler_contract =
  fixes b :: body and good :: "job \<Rightarrow> bool" and fine :: "cmd \<Rightarrow> bool" and I :: "sched \<Rightarrow> bool" and R :: "sched \<Rightarrow> sched \<Rightarrow> bool"
  assumes body: "good j \<Longrightarrow> c \<in> set (fst (b h j)) \<Longrightarrow> fine c"
    and simple_step: "I st \<Longrightarrow> fine c \<Longrightarrow> I (simple c st) \<and> R st (simple c st)"
    and started: "I st \<Longrightarrow> k \<noteq> Queued \<Longrightarrow> I (st\<lparr>runs := runs st @ [(k, j)]\<rparr>) \<and> R st (st\<lparr>runs := runs st @ [(k, j)]\<rparr>)"
    and early: "I st \<Longrightarrow> t < length (bn st) \<Longrightarrow> (da st \<Longrightarrow> To st < t) \<Longrightarrow> pre (bn st ! t) \<Longrightarrow>
      good (bn st ! t) \<and> I (st\<lparr>bn := take t (bn st) @ drop (t + 1) (bn st)\<rparr>) \<and> R st (st\<lparr>bn := take t (bn st) @ drop (t + 1) (bn st)\<rparr>)"
    and post: "fine FlushPost \<Longrightarrow> good j"
    and post_step: "I st \<Longrightarrow> fine FlushPost \<Longrightarrow> I (st\<lparr>Kl := kl, Uo := u, Jr := n\<rparr>) \<and> R st (st\<lparr>Kl := kl, Uo := u, Jr := n\<rparr>)"
    and R_refl: "R st st"
    and R_trans: "R st1 st2 \<Longrightarrow> R st2 st3 \<Longrightarrow> R st1 st3"
    and same: "R st st' \<Longrightarrow> da st' = da st \<and> To st' = To st"
begin

lemma post_fields:
  assumes "I st" "fine FlushPost"
  shows "I (st\<lparr>Jr := n\<rparr>) \<and> R st (st\<lparr>Jr := n\<rparr>)" "I (st\<lparr>Uo := u, Jr := n\<rparr>) \<and> R st (st\<lparr>Uo := u, Jr := n\<rparr>)"
    "I (st\<lparr>Kl := kl, Uo := u\<rparr>) \<and> R st (st\<lparr>Kl := kl, Uo := u\<rparr>)"
proof -
  have "st\<lparr>Jr := n\<rparr> = st\<lparr>Kl := Kl st, Uo := Uo st, Jr := n\<rparr>" "st\<lparr>Uo := u, Jr := n\<rparr> = st\<lparr>Kl := Kl st, Uo := u, Jr := n\<rparr>"
    "st\<lparr>Kl := kl, Uo := u\<rparr> = st\<lparr>Kl := kl, Uo := u, Jr := Jr st\<rparr>" by simp_all
  then show "I (st\<lparr>Jr := n\<rparr>) \<and> R st (st\<lparr>Jr := n\<rparr>)" "I (st\<lparr>Uo := u, Jr := n\<rparr>) \<and> R st (st\<lparr>Uo := u, Jr := n\<rparr>)"
    "I (st\<lparr>Kl := kl, Uo := u\<rparr>) \<and> R st (st\<lparr>Kl := kl, Uo := u\<rparr>)" using post_step[OF assms] by metis+
qed

lemma running_keeps:
  "call b' f k j st = Some (x, st') \<Longrightarrow> b' = b \<Longrightarrow> I st \<Longrightarrow> good j \<Longrightarrow> k \<noteq> Queued \<Longrightarrow> I st' \<and> R st st'"
  "exec b' f cs st = Some (x, st') \<Longrightarrow> b' = b \<Longrightarrow> I st \<Longrightarrow> list_all fine cs \<Longrightarrow> I st' \<and> R st st'"
  "hv b' f t st = Some (x, st') \<Longrightarrow> b' = b \<Longrightarrow> I st \<Longrightarrow> (da st \<Longrightarrow> To st < t) \<Longrightarrow> I st' \<and> R st st'"
  "I0 b' f st = Some (x, st') \<Longrightarrow> b' = b \<Longrightarrow> I st \<Longrightarrow> fine FlushPost \<Longrightarrow> I st' \<and> R st st'"
  "postLoop b' f st = Some (x, st') \<Longrightarrow> b' = b \<Longrightarrow> I st \<Longrightarrow> fine FlushPost \<Longrightarrow> I st' \<and> R st st'"
proof (induction b' f k j st and b' f cs st and b' f t st and b' f st and b' f st arbitrary: x st' and x st' and x st' and x st' and x st'
    rule: call_exec_hv_I0_postLoop.induct)
  case (2 b' f k j st)
  obtain cs throws where cs: "b' (runs st) j = (cs, throws)" by fastforce
  then obtain x1 where e: "exec b' f cs (st\<lparr>runs := runs st @ [(k, j)]\<rparr>) = Some (x1, st')"
    using "2.prems"(1) by (auto split: Option.bind_splits)
  have "list_all fine cs" using body[OF "2.prems"(4)] cs "2.prems"(2) by (metis fst_conv list_all_iff)
  then show ?case using started[OF "2.prems"(3,5), of j] "2.IH"[OF cs[symmetric] e] "2.prems"(2) R_trans by blast
next
  case (4 b' f c cs st)
  let ?s = "case c of FlushPre \<Rightarrow> hv b' f (if da st then To st + 1 else 0) st | FlushPost \<Rightarrow> I0 b' f st | _ \<Rightarrow> Some (False, simple c st)"
  obtain x1 st1 where s: "?s = Some (x1, st1)" "if x1 then st' = st1 else exec b' f cs st1 = Some (x, st')"
    using "4.prems"(1) by (auto split: Option.bind_splits if_splits)
  have fine: "fine c" "list_all fine cs" using "4.prems"(4) by auto
  have "I st1 \<and> R st st1"
  proof (cases "c = FlushPre \<or> c = FlushPost")
    case True
    then show ?thesis using "4.IH"(1,2) s(1) "4.prems"(2,3) fine by auto
  next
    case False
    then show ?thesis using s(1) simple_step[OF "4.prems"(3) fine(1)] by (cases c) auto
  qed
  then show ?case using s(2) "4.IH"(3)[OF s(1) refl] "4.prems"(2) fine(2) R_trans[of st st1 st'] by (cases x1) auto
next
  case (6 b' f t st)
  let ?n = "bn st ! t" and ?st = "st\<lparr>bn := take t (bn st) @ drop (t + 1) (bn st)\<rparr>"
  consider "\<not> t < length (bn st)" | "t < length (bn st)" "pre ?n" | "t < length (bn st)" "\<not> pre ?n" by blast
  then show ?case
  proof cases
    case 1
    then show ?thesis using "6.prems"(1,3) R_refl by simp
  next
    case 2
    obtain x1 st1 where s: "call b' f Early ?n ?st = Some (x1, st1)" "if x1 then st' = st1 else hv b' f t st1 = Some (x, st')"
      using "6.prems"(1) 2 by (auto simp: Let_def split: Option.bind_splits if_splits)
    have e: "good ?n" "I ?st \<and> R st ?st" using early[OF "6.prems"(3) 2(1) "6.prems"(4) 2(2)] by blast+
    then have "I st1 \<and> R ?st st1" using "6.IH"(1)[OF 2(1) refl 2(2) s(1) "6.prems"(2)] by blast
    then have one: "I st1 \<and> R st st1" using e(2) R_trans by blast
    show ?thesis
    proof (cases x1)
      case False
      then have "hv b' f t st1 = Some (x, st')" using s(2) by simp
      then have "I st' \<and> R st1 st'" using "6.IH"(2)[OF 2(1) refl 2(2) s(1) refl] False one same[of st st1] "6.prems"(2,4) by auto
      then show ?thesis using one R_trans by blast
    qed (use one s(2) in simp)
  next
    case 3
    have l: "da st \<Longrightarrow> To st < t + 1" using "6.prems"(4) by (simp add: less_SucI)
    show ?thesis by (rule "6.IH"(3)[OF 3(1) refl 3(2) _ "6.prems"(2,3) l]) (use "6.prems"(1) 3 in simp)
  qed
next
  case (7 b' f st)
  then show ?case using R_refl post_fields(3)[OF "7.prems"(3,4)] post_step[OF "7.prems"(3,4), where kl = "[]" and n = 0] R_trans
    by (fastforce simp: Let_def split: if_splits option.splits)
next
  case (9 b' f st)
  show ?case
  proof (cases "Uo st")
    case (Some u)
    show ?thesis
    proof (cases "Jr st < length u")
      case True
      obtain x1 st1 where s: "call b' f Post (u ! Jr st) st = Some (x1, st1)"
        "if x1 then st' = st1 else postLoop b' f (st1\<lparr>Jr := Jr st1 + 1\<rparr>) = Some (x, st')"
        using "9.prems"(1) Some True by (auto split: Option.bind_splits if_splits)
      have one: "I st1 \<and> R st st1" using "9.IH"(1)[OF Some True s(1)] "9.prems"(2-4) post by simp
      show ?thesis
      proof (cases x1)
        case False
        have two: "I (st1\<lparr>Jr := Jr st1 + 1\<rparr>) \<and> R st1 (st1\<lparr>Jr := Jr st1 + 1\<rparr>)" using post_fields(1) one "9.prems"(4) by blast
        then have "I st' \<and> R (st1\<lparr>Jr := Jr st1 + 1\<rparr>) st'"
          using "9.IH"(2)[OF Some True s(1) refl] s(2) False "9.prems"(2,4) by simp
        then show ?thesis using one two R_trans by blast
      qed (use one s(2) in simp)
    qed (use Some "9.prems"(1) post_fields(2)[OF "9.prems"(3,4), where u = None and n = 0] in simp)
  qed (use "9.prems"(1,3) R_refl in simp)
qed (use R_refl in auto)

end


text \<open>Whatever runs, a flush stays a flush, its position stays, and no task is added to the event loop.\<close>

lemma simple_fields:
  "da (simple c st) = da st \<and> To (simple c st) = To st \<and> (da st \<longrightarrow> tasks (simple c st) = tasks st)"
  by (cases c) (auto simp: pp_def M0_def Bk_def Fk_def Fk_all_def Let_def split: option.splits)

definition steady :: "sched \<Rightarrow> sched \<Rightarrow> bool" where
  "steady st st' \<longleftrightarrow> da st' = da st \<and> To st' = To st \<and> (da st \<longrightarrow> tasks st' = tasks st)"

interpretation steady: scheduler_contract b "\<lambda>_. True" "\<lambda>_. True" "\<lambda>_. True" steady for b
  by unfold_locales (auto simp: steady_def simple_fields)

text \<open>While a flush runs, the waiting jobs keep the order of their ranks and are all different, and the queue up to
  the running job does not change.\<close>

definition flushing :: "sched \<Rightarrow> bool" where
  "flushing st \<longleftrightarrow> da st \<and> To st < length (bn st) \<and> ranked (waits st) \<and> distinct (waits st)"

definition same_front :: "sched \<Rightarrow> sched \<Rightarrow> bool" where
  "same_front st st' \<longleftrightarrow> da st' = da st \<and> To st' = To st \<and> take (To st + 1) (bn st') = take (To st + 1) (bn st)"

lemma nth_of_take: "take (n + 1) xs = take (n + 1) ys \<Longrightarrow> xs ! n = ys ! n"
  using nth_take[of n "n + 1" xs] nth_take[of n "n + 1" ys] by simp

lemma same_front_nth: "same_front st st' \<Longrightarrow> bn st' ! To st' = bn st ! To st"
  using nth_of_take[of "To st" "bn st'" "bn st"] by (simp add: same_front_def)

lemma set_insert_waiting: "set (insert_waiting e P) = insert e (set P)"
proof (cases "jobid e")
  case (Some n)
  have "set P = set (takeWhile (\<lambda>x. fa x < fa e) P) \<union> set (dropWhile (\<lambda>x. fa x < fa e) P)"
    by (metis set_append takeWhile_dropWhile_id)
  then show ?thesis using Some by (auto simp: insert_waiting_def)
qed (simp add: insert_waiting_def)

lemma distinct_insert_waiting: "distinct P \<Longrightarrow> e \<notin> set P \<Longrightarrow> distinct (insert_waiting e P)"
proof (cases "jobid e")
  case (Some n)
  assume "distinct P" "e \<notin> set P"
  then have "distinct (e # takeWhile (\<lambda>x. fa x < fa e) P @ dropWhile (\<lambda>x. fa x < fa e) P)" by simp
  then show ?thesis using Some unfolding insert_waiting_def distinct.simps distinct_append set_append by auto
qed (simp add: insert_waiting_def)

lemma ranked_insert_waiting: "ranked P \<Longrightarrow> ranked (insert_waiting e P)"
proof (cases "jobid e")
  case None
  assume "ranked P"
  then show ?thesis using None by (simp add: insert_waiting_def sorted_wrt_append fa_def)
next
  case (Some n)
  assume P: "ranked P"
  let ?A = "takeWhile (\<lambda>x. fa x < fa e) P" and ?B = "dropWhile (\<lambda>x. fa x < fa e) P"
  have s: "ranked (?A @ ?B)" using P by simp
  then have AB: "ranked ?A" "ranked ?B" "\<forall>x\<in>set ?A. \<forall>y\<in>set ?B. fa x \<le> fa y" unfolding sorted_wrt_append by blast+
  have A: "\<forall>x\<in>set ?A. fa x \<le> fa e" by (auto dest: set_takeWhileD)
  have B: "\<forall>y\<in>set ?B. fa e \<le> fa y"
  proof (cases ?B)
    case (Cons y ys)
    then have "\<not> fa y < fa e" using hd_dropWhile[of "\<lambda>x. fa x < fa e" P] by simp
    then show ?thesis using AB(2) Cons by (auto intro: order_trans)
  next
    case Nil
    show ?thesis unfolding Nil by simp
  qed
  then show ?thesis using A AB Some by (auto simp: insert_waiting_def sorted_wrt_append)
qed

lemma pp_front:
  assumes "da st" "To st < length (bn st)" "ranked (waits st)"
  shows "pp e st = st \<or> e \<notin> set (waits st) \<and> pp e st = st\<lparr>bn := take (To st + 1) (bn st) @ insert_waiting e (waits st)\<rparr>"
proof -
  have "set (waits st) \<subseteq> set (drop (To st) (bn st))" by (metis Suc_eq_plus1 le_add2 plus_1_eq_Suc set_drop_subset_set_drop)
  then show ?thesis using queue_while_flushing_aux[OF assms, of e] by auto
qed


lemma first_at_Some: "first_at e xs = Some t \<Longrightarrow> t < length xs"
  by (induction xs arbitrary: t) (auto split: if_splits)

lemma drop_remove:
  assumes "k \<le> t" "t < length xs"
  shows "take k (take t xs @ drop (t + 1) xs) = take k xs"
    and "drop k (take t xs @ drop (t + 1) xs) = take (t - k) (drop k xs) @ drop (t - k + 1) (drop k xs)"
proof -
  have "k + (t - k) = t" using assms by simp
  then show "take k (take t xs @ drop (t + 1) xs) = take k xs"
    and "drop k (take t xs @ drop (t + 1) xs) = take (t - k) (drop k xs) @ drop (t - k + 1) (drop k xs)"
    using assms by (simp_all add: min_def drop_take)
qed

lemma remove_waiting:
  assumes "ranked P" "distinct P"
  shows "ranked (take t P @ drop (t + 1) P)" "distinct (take t P @ drop (t + 1) P)"
proof -
  have "ranked (take t P @ drop (t + 1) P) \<and> distinct (take t P @ drop (t + 1) P)"
  proof (cases "t < length P")
    case True
    then have P: "take t P @ P ! t # drop (t + 1) P = P" using id_take_nth_drop[OF True] by simp
    have "ranked (take t P @ P ! t # drop (t + 1) P)" "distinct (take t P @ P ! t # drop (t + 1) P)" unfolding P by fact+
    then show ?thesis unfolding sorted_wrt_append distinct_append sorted_wrt.simps distinct.simps list.set by blast
  qed (use assms in simp)
  then show "ranked (take t P @ drop (t + 1) P)" "distinct (take t P @ drop (t + 1) P)" by blast+
qed


lemma same_front_remove:
  assumes "To st < t" "t < length (bn st)" "flushing st"
  shows "flushing (st\<lparr>bn := take t (bn st) @ drop (t + 1) (bn st)\<rparr>) \<and> same_front st (st\<lparr>bn := take t (bn st) @ drop (t + 1) (bn st)\<rparr>) \<and>
    set (waits (st\<lparr>bn := take t (bn st) @ drop (t + 1) (bn st)\<rparr>)) \<subseteq> set (waits st)"
proof -
  define W where "W = waits st"
  define st' where "st' = st\<lparr>bn := take t (bn st) @ drop (t + 1) (bn st)\<rparr>"
  have k: "To st + 1 \<le> t" using assms(1) by simp
  have W: "waits st' = take (t - (To st + 1)) W @ drop (t - (To st + 1) + 1) W" "take (To st + 1) (bn st') = take (To st + 1) (bn st)"
    using drop_remove[OF k assms(2)] by (simp_all add: W_def st'_def)
  have f: "da st" "To st < length (bn st)" "ranked W" "distinct W" using assms(3) by (auto simp: flushing_def W_def)
  have "set (waits st') \<subseteq> set W" unfolding W(1) set_append by (meson Un_least set_drop_subset set_take_subset)
  moreover have "ranked (waits st')" "distinct (waits st')" unfolding W(1) by (rule remove_waiting[OF f(3,4)])+
  moreover have "To st' < length (bn st')" "da st' = da st" "To st' = To st" using assms(1,2) by (auto simp: st'_def)
  ultimately show ?thesis unfolding st'_def[symmetric] using W(2) f(1) by (simp add: flushing_def same_front_def W_def)
qed

lemma simple_front:
  assumes "flushing st"
  shows "flushing (simple c st) \<and> same_front st (simple c st) \<and> runs (simple c st) = runs st \<and>
    set (waits (simple c st)) \<subseteq> set (waits st) \<union> (case c of QueueJob e \<Rightarrow> {e} | _ \<Rightarrow> {})"
proof (cases c)
  case (QueueJob e)
  have f: "da st" "To st < length (bn st)" "ranked (waits st)" "distinct (waits st)" using assms by (auto simp: flushing_def)
  consider "pp e st = st" | "e \<notin> set (waits st)" "pp e st = st\<lparr>bn := take (To st + 1) (bn st) @ insert_waiting e (waits st)\<rparr>"
    using pp_front[OF f(1-3)] by blast
  then show ?thesis
  proof cases
    case 2
    have "length (take (To st + 1) (bn st)) = To st + 1" using f(2) by simp
    then have "waits (pp e st) = insert_waiting e (waits st)" "take (To st + 1) (bn (pp e st)) = take (To st + 1) (bn st)"
      unfolding 2 by simp_all
    then show ?thesis using QueueJob f 2 ranked_insert_waiting[OF f(3)] distinct_insert_waiting[OF f(4) 2(1)]
      by (auto simp: flushing_def same_front_def set_insert_waiting)
  qed (use QueueJob assms in \<open>auto simp: same_front_def\<close>)
next
  case (Invalidate e)
  show ?thesis
  proof (cases "first_at e (bn st)")
    case (Some t)
    then show ?thesis using Invalidate assms same_front_remove[OF _ first_at_Some[OF Some] assms]
      by (auto simp: Bk_def same_front_def)
  qed (use Invalidate assms in \<open>auto simp: Bk_def same_front_def\<close>)
qed (use assms in \<open>auto simp: flushing_def same_front_def Fk_def Fk_all_def M0_def split: option.splits\<close>)

interpretation front: scheduler_contract b "\<lambda>_. True" "\<lambda>_. True" flushing same_front for b
proof unfold_locales
  fix st t
  assume "flushing st" "t < length (bn st)" "da st \<Longrightarrow> To st < t"
  then show "True \<and> flushing (st\<lparr>bn := take t (bn st) @ drop (t + 1) (bn st)\<rparr>) \<and> same_front st (st\<lparr>bn := take t (bn st) @ drop (t + 1) (bn st)\<rparr>)"
    using same_front_remove[of st t] by (auto simp: flushing_def)
qed (simp_all add: simple_front, auto simp: flushing_def same_front_def)

text \<open>Whatever runs during a flush keeps the order of the waiting jobs and the queue up to the running job.\<close>

lemma waiting_jobs_kept:
  assumes "flushing st" "exec b f cs st = Some (x, st')"
  shows "flushing st' \<and> To st' = To st \<and> take (To st + 1) (bn st') = take (To st + 1) (bn st)"
  using front.running_keeps(2)[OF assms(2) refl assms(1)] by (simp add: same_front_def list_all_iff)


section \<open>The order of a flush\<close>

text \<open>Jobs that only queue jobs of their own rank or of a larger one.\<close>

fun from_rank :: "enat \<Rightarrow> cmd \<Rightarrow> bool" where
  "from_rank r (QueueJob e) = (r \<le> fa e)"
| "from_rank r FlushPost = False"
| "from_rank r _ = True"

definition forward :: "body \<Rightarrow> bool" where
  "forward b \<longleftrightarrow> (\<forall>h j. list_all (from_rank (fa j)) (fst (b h j)))"

text \<open>The jobs that the loop over the queue has run.\<close>

definition queued :: "sched \<Rightarrow> job list" where
  "queued st = map snd (filter (\<lambda>(k, j). k = Queued) (runs st))"

definition flushing_from :: "enat \<Rightarrow> sched \<Rightarrow> bool" where
  "flushing_from r st \<longleftrightarrow> flushing st \<and> (\<forall>x\<in>set (waits st). r \<le> fa x)"

lemma from_rank_mono: "from_rank r' c \<Longrightarrow> r \<le> r' \<Longrightarrow> from_rank r c"
  by (cases c) auto

lemma flushing_from_simple:
  assumes "flushing_from r st" "from_rank r c"
  shows "flushing_from r (simple c st) \<and> same_front st (simple c st) \<and> queued (simple c st) = queued st"
proof -
  have f: "flushing st" "\<forall>x\<in>set (waits st). r \<le> fa x" using assms(1) by (auto simp: flushing_from_def)
  have "\<forall>x\<in>set (waits st) \<union> (case c of QueueJob e \<Rightarrow> {e} | _ \<Rightarrow> {}). r \<le> fa x" using f(2) assms(2) by (cases c) auto
  then show ?thesis using simple_front[OF f(1), of c] by (auto simp: flushing_from_def queued_def)
qed

lemma ordered_run:
  assumes "forward b"
  shows "scheduler_contract b (\<lambda>j. r \<le> fa j) (from_rank r) (flushing_from r) (\<lambda>st st'. same_front st st' \<and> queued st' = queued st)"
proof unfold_locales
  fix j c h assume "r \<le> fa j" "c \<in> set (fst (b h j))"
  then show "from_rank r c" using assms from_rank_mono unfolding forward_def list_all_iff by blast
next
  fix st c assume "flushing_from r st" "from_rank r c"
  then show "flushing_from r (simple c st) \<and> same_front st (simple c st) \<and> queued (simple c st) = queued st"
    by (rule flushing_from_simple)
next
  fix st t assume st: "flushing_from r st" and t: "t < length (bn st)" "da st \<Longrightarrow> To st < t"
  let ?st = "st\<lparr>bn := take t (bn st) @ drop (t + 1) (bn st)\<rparr>"
  have f: "flushing st" "To st < t" using st t(2) by (auto simp: flushing_from_def flushing_def)
  have "bn st ! t \<in> set (waits st)" using f(2) t(1) by (auto simp: in_set_conv_nth intro!: exI[of _ "t - (To st + 1)"])
  then show "r \<le> fa (bn st ! t) \<and> flushing_from r ?st \<and> same_front st ?st \<and> queued ?st = queued st"
    using same_front_remove[OF f(2) t(1) f(1)] st by (auto simp: flushing_from_def queued_def)
qed (auto simp: flushing_from_def flushing_def same_front_def queued_def)

lemma call_exec:
  assumes "call b f k j st = Some (x, st')"
  obtains f' x' where "f = Suc f'" "exec b f' (fst (b (runs st) j)) (st\<lparr>runs := runs st @ [(k, j)]\<rparr>) = Some (x', st')"
  using assms by (cases f) (auto split: Option.bind_splits prod.splits)

text \<open>One round of the loop.\<close>

lemma flushLoop_round:
  assumes "flushLoop b (Suc f) st = Some st'" "To st < length (bn st)"
  obtains st1 where "flushLoop b f (st1\<lparr>To := To st1 + 1\<rparr>) = Some st'"
    "bn st ! To st \<in> set (inactive st) \<and> st1 = st \<or> (\<exists>f' x. f = Suc f' \<and>
      exec b f' (fst (b (runs st) (bn st ! To st))) (st\<lparr>runs := runs st @ [(Queued, bn st ! To st)]\<rparr>) = Some (x, st1))"
proof (cases "bn st ! To st \<in> set (inactive st)")
  case True
  then show thesis using assms that[of st] by simp
next
  case False
  then obtain x st1 where c: "call b f Queued (bn st ! To st) st = Some (x, st1)" "flushLoop b f (st1\<lparr>To := To st1 + 1\<rparr>) = Some st'"
    using assms by (auto simp: Let_def split: Option.bind_splits)
  from c(1) show thesis by (rule call_exec) (use that[OF c(2)] in blast)
qed

lemma ordered_round:
  assumes "forward b" "flushing_from r st" "fa j = r" "exec b f (fst (b h j)) (st\<lparr>runs := runs st @ [(Queued, j)]\<rparr>) = Some (x, st')"
  shows "flushing_from r st' \<and> same_front st st' \<and> queued st' = queued st @ [j]"
proof -
  have quiet: "list_all (from_rank r) (fst (b h j))" using assms(1,3) by (auto simp: forward_def)
  have "flushing_from r (st\<lparr>runs := runs st @ [(Queued, j)]\<rparr>)" using assms(2) by (simp add: flushing_from_def flushing_def)
  from scheduler_contract.running_keeps(2)[OF ordered_run[OF assms(1)] assms(4) refl this quiet]
  show ?thesis by (simp add: same_front_def queued_def)
qed

lemma flushLoop_ordered:
  assumes "forward b"
  shows "flushLoop b f st = Some st' \<Longrightarrow> da st \<Longrightarrow> ranked (drop (To st) (bn st)) \<Longrightarrow> distinct (drop (To st) (bn st)) \<Longrightarrow>
    \<forall>x\<in>set (drop (To st) (bn st)). r \<le> fa x \<Longrightarrow> \<exists>new. queued st' = queued st @ new \<and> ranked new \<and> (\<forall>x\<in>set new. r \<le> fa x)"
proof (induction f arbitrary: st r)
  case (Suc f)
  show ?case
  proof (cases "To st < length (bn st)")
    case False
    then show ?thesis using Suc.prems(1) by auto
  next
    case True
    define n where "n = bn st ! To st"
    have d: "drop (To st) (bn st) = n # waits st" using True by (simp add: n_def Cons_nth_drop_Suc)
    have n: "r \<le> fa n" "ranked (waits st)" "distinct (waits st)" "\<forall>x\<in>set (waits st). fa n \<le> fa x"
      using Suc.prems(3-5) unfolding d by auto
    then have fl: "flushing_from (fa n) st" using True Suc.prems(2) by (simp add: flushing_from_def flushing_def)
    obtain st1 where st1: "flushLoop b f (st1\<lparr>To := To st1 + 1\<rparr>) = Some st'"
      "n \<in> set (inactive st) \<and> st1 = st \<or> (\<exists>f' x. f = Suc f' \<and> exec b f' (fst (b (runs st) n)) (st\<lparr>runs := runs st @ [(Queued, n)]\<rparr>) = Some (x, st1))"
      using flushLoop_round[OF Suc.prems(1) True] unfolding n_def by blast
    then obtain new1 where one: "flushing_from (fa n) st1" "queued st1 = queued st @ new1" "new1 \<in> {[], [n]}"
      using ordered_round[OF assms fl refl] fl by (metis append_Nil2 insertCI)
    have "\<exists>new. queued st' = queued (st1\<lparr>To := To st1 + 1\<rparr>) @ new \<and> ranked new \<and> (\<forall>x\<in>set new. fa n \<le> fa x)"
      by (rule Suc.IH[OF st1(1)]) (use one(1) in \<open>auto simp: flushing_from_def flushing_def\<close>)
    then obtain new where "queued st' = queued st1 @ new" "ranked new" "\<forall>x\<in>set new. fa n \<le> fa x" by (auto simp: queued_def)
    then show ?thesis using one(2,3) n(1) by (intro exI[of _ "new1 @ new"]) (auto intro: order_trans)
  qed
qed simp

text \<open>The jobs of a queue run in the order of their ranks.\<close>

lemma flush_ordered:
  assumes "forward b" "distinct (bn st)" "flushQueue b f st = Some st'"
  shows "\<exists>new. queued st' = queued st @ new \<and> ranked new"
proof -
  have s: "ranked (sort_jobs Vk (bn st))" "distinct (sort_jobs Vk (bn st))" using sort_jobs_spec[OF by_rank_Vk, of "bn st"] assms(2) by auto
  let ?st = "st\<lparr>Nd := False, da := True, bn := sort_jobs Vk (bn st), To := 0\<rparr>"
  have "\<exists>new. queued st' = queued ?st @ new \<and> ranked new \<and> (\<forall>x\<in>set new. 0 \<le> fa x)"
    by (rule flushLoop_ordered[OF assms(1)]) (use assms(3) s in \<open>auto simp: flushQueue_def\<close>)
  then show ?thesis by (auto simp: queued_def)
qed


section \<open>The end of a flush\<close>

text \<open>Jobs that only queue jobs of a larger rank, from a finite collection, and callbacks.\<close>

fun climbs :: "job list \<Rightarrow> job \<Rightarrow> cmd \<Rightarrow> bool" where
  "climbs U j (QueueJob e) = (fa j < fa e \<and> e \<in> set U)"
| "climbs U j (QueuePost e) = True"
| "climbs U j (QueuePosts es) = True"
| "climbs U j (SetRecurse e v) = True"
| "climbs U j _ = False"

definition climbing :: "job list \<Rightarrow> body \<Rightarrow> bool" where
  "climbing U b \<longleftrightarrow> (\<forall>h j. list_all (climbs U j) (fst (b h j)))"

definition steps_up :: "job list \<Rightarrow> sched \<Rightarrow> bool" where
  "steps_up U st \<longleftrightarrow> da st \<and> ranked (bn st) \<and> distinct (bn st) \<and> set (bn st) \<subseteq> set U \<and> inactive st = []"

lemma steps_up_length: "steps_up U st \<Longrightarrow> length (bn st) \<le> length U"
  by (auto simp: steps_up_def intro: distinct_length_le)

lemma exec_simple: "list_all (climbs U j) cs \<Longrightarrow> exec b f cs st = Some (False, fold simple cs st)"
proof (induction cs arbitrary: st)
  case (Cons c cs)
  then show ?case by (cases c) auto
qed simp

text \<open>A job that is not put into the queue is there already.\<close>

lemma pp_longer: "e \<notin> set (bn st) \<Longrightarrow> length (bn (pp e st)) = Suc (length (bn st))"
  by (auto simp: pp_def M0_def Let_def dest: in_set_dropD split: option.split)

lemma pp_keeps: "pp e st = st \<Longrightarrow> e \<in> set (bn st)"
  by (metis pp_longer n_not_Suc_n)

lemma steps_up_simple:
  assumes "steps_up U st" "To st < length (bn st)" "climbs U (bn st ! To st) c"
  shows "steps_up U (simple c st) \<and> same_front st (simple c st) \<and> To (simple c st) < length (bn (simple c st)) \<and> runs (simple c st) = runs st \<and>
    set (bn st) \<subseteq> set (bn (simple c st)) \<and> (\<forall>e. c = QueueJob e \<longrightarrow> e \<in> set (bn (simple c st)))"
proof (cases c)
  case (QueueJob e)
  let ?F = "take (To st + 1) (bn st)"
  have e: "fa (bn st ! To st) < fa e" "e \<in> set U" using assms(3) QueueJob by auto
  have split: "bn st = ?F @ waits st" by simp
  have r: "ranked (?F @ waits st)" "distinct (?F @ waits st)" using assms(1) unfolding steps_up_def split[symmetric] by blast+
  have F: "ranked ?F" "ranked (waits st)" "distinct ?F" "distinct (waits st)" "\<forall>x\<in>set ?F. \<forall>y\<in>set (waits st). fa x \<le> fa y" "set ?F \<inter> set (waits st) = {}"
    using r unfolding sorted_wrt_append distinct_append by blast+
  have "?F = take (To st) (bn st) @ [bn st ! To st]" using assms(2) by (simp add: take_Suc_conv_app_nth)
  then have low: "\<forall>x\<in>set ?F. fa x < fa e" using F(1) e(1) by (auto simp: sorted_wrt_append intro: order_le_less_trans)
  consider "pp e st = st" "e \<in> set (bn st)" | "e \<notin> set (waits st)" "pp e st = st\<lparr>bn := ?F @ insert_waiting e (waits st)\<rparr>"
    using pp_front[OF _ assms(2) F(2), of e] assms(1) pp_keeps[of e st] by (auto simp: steps_up_def)
  then show ?thesis
  proof cases
    case 2
    have "\<forall>x\<in>set ?F. \<forall>y\<in>set (insert_waiting e (waits st)). fa x \<le> fa y" "set ?F \<inter> set (insert_waiting e (waits st)) = {}"
      using low F(5,6) by (auto simp: set_insert_waiting less_imp_le)
    then have "ranked (?F @ insert_waiting e (waits st))" "distinct (?F @ insert_waiting e (waits st))"
      using F ranked_insert_waiting[OF F(2), of e] distinct_insert_waiting[OF F(4) 2(1)] unfolding sorted_wrt_append distinct_append by blast+
    moreover have sets: "set (?F @ insert_waiting e (waits st)) = insert e (set (bn st))"
      by (metis set_append set_insert_waiting split Un_insert_right)
    moreover have "take (To st + 1) (?F @ insert_waiting e (waits st)) = ?F" "To st < length (?F @ insert_waiting e (waits st))"
      using assms(2) by auto
    ultimately show ?thesis using QueueJob 2(2) assms(1) e(2) by (auto simp: steps_up_def same_front_def)
  qed (use QueueJob assms in \<open>auto simp: same_front_def\<close>)
qed (use assms in \<open>auto simp: steps_up_def same_front_def Fk_def Fk_all_def M0_def split: option.splits\<close>)

definition queued_by :: "cmd list \<Rightarrow> job set" where
  "queued_by cs = {e. QueueJob e \<in> set cs}"

lemma steps_up_fold:
  assumes "list_all (climbs U (bn st ! To st)) cs" "steps_up U st" "To st < length (bn st)"
  shows "steps_up U (fold simple cs st) \<and> same_front st (fold simple cs st) \<and> To (fold simple cs st) < length (bn (fold simple cs st)) \<and>
    runs (fold simple cs st) = runs st \<and> set (bn st) \<subseteq> set (bn (fold simple cs st)) \<and> queued_by cs \<subseteq> set (bn (fold simple cs st))"
  using assms
proof (induction cs arbitrary: st)
  case (Cons c cs)
  let ?st = "simple c st"
  have one: "steps_up U ?st" "same_front st ?st" "To ?st < length (bn ?st)" "runs ?st = runs st" "set (bn st) \<subseteq> set (bn ?st)"
    "\<forall>e. c = QueueJob e \<longrightarrow> e \<in> set (bn ?st)"
    using steps_up_simple[of U st c] Cons.prems by auto
  have "bn ?st ! To ?st = bn st ! To st" by (rule same_front_nth[OF one(2)])
  then show ?case using Cons.IH[of ?st] one Cons.prems(1) by (auto simp: same_front_def queued_by_def)
qed (simp add: same_front_def queued_by_def)

text \<open>The jobs that a run queues, given by what had run before it.\<close>

definition requests :: "body \<Rightarrow> (mode \<times> job) list \<Rightarrow> nat \<Rightarrow> job set" where
  "requests b rs i = queued_by (fst (b (take i rs) (snd (rs ! i))))"

lemma flushLoop_once:
  assumes "climbing U b"
  shows "steps_up U st \<Longrightarrow> To st \<le> length (bn st) \<Longrightarrow> length U + 2 \<le> To st + f \<Longrightarrow>
    \<exists>st'. flushLoop b f st = Some st' \<and> steps_up U st' \<and> runs st' = runs st @ map (Pair Queued) (drop (To st) (bn st')) \<and>
      take (To st) (bn st') = take (To st) (bn st) \<and> set (bn st) \<subseteq> set (bn st') \<and> To st \<le> length (bn st') \<and>
      (\<forall>i < length (runs st'). length (runs st) \<le> i \<longrightarrow> requests b (runs st') i \<subseteq> set (bn st'))"
proof (induction f arbitrary: st)
  case 0
  then show ?case using steps_up_length[OF 0(1)] by simp
next
  case (Suc f)
  note U = steps_up_length[OF Suc.prems(1)]
  show ?case
  proof (cases "To st < length (bn st)")
    case False
    then show ?thesis using Suc.prems by auto
  next
    case True
    define n where "n = bn st ! To st"
    define st0 where "st0 = st\<lparr>runs := runs st @ [(Queued, n)]\<rparr>"
    define cs where "cs = fst (b (runs st) n)"
    define st1 where "st1 = fold simple cs st0"
    obtain f' where f: "f = Suc f'" using Suc.prems(3) True U by (cases f) auto
    have cs: "list_all (climbs U n) cs" using assms by (simp add: climbing_def cs_def)
    have "call b f Queued n st = Some (snd (b (runs st) n), st1)"
      using exec_simple[OF cs, of b f' st0] by (simp add: f st1_def st0_def cs_def case_prod_unfold)
    then have run: "flushLoop b (Suc f) st = flushLoop b f (st1\<lparr>To := To st1 + 1\<rparr>)"
      using True Suc.prems(1) by (simp add: n_def[symmetric] steps_up_def Let_def)
    have "steps_up U st0" "To st0 < length (bn st0)" "bn st0 ! To st0 = n" using Suc.prems(1) True by (auto simp: st0_def steps_up_def n_def)
    then have one: "steps_up U st1" "same_front st0 st1" "To st1 < length (bn st1)" "runs st1 = runs st @ [(Queued, n)]" "set (bn st) \<subseteq> set (bn st1)"
      "queued_by cs \<subseteq> set (bn st1)"
      using steps_up_fold[of U st0 cs] cs by (auto simp: st1_def st0_def)
    have T: "To st1 = To st" "take (To st + 1) (bn st1) = take (To st + 1) (bn st)" using one(2) by (auto simp: same_front_def st0_def)
    obtain st' where st': "flushLoop b f (st1\<lparr>To := To st1 + 1\<rparr>) = Some st'" "steps_up U st'"
      "runs st' = runs st1 @ map (Pair Queued) (drop (To st + 1) (bn st'))" "take (To st + 1) (bn st') = take (To st + 1) (bn st)"
      "set (bn st1) \<subseteq> set (bn st')" "To st + 1 \<le> length (bn st')"
      "\<forall>i < length (runs st'). length (runs st1) \<le> i \<longrightarrow> requests b (runs st') i \<subseteq> set (bn st')"
      using Suc.IH[of "st1\<lparr>To := To st1 + 1\<rparr>"] one(1,3) T Suc.prems(3) by (auto simp: steps_up_def)
    have "bn st' ! To st = n" using st'(4) unfolding n_def by (rule nth_of_take)
    then have "drop (To st) (bn st') = n # drop (To st + 1) (bn st')" using st'(6) by (simp add: Cons_nth_drop_Suc[symmetric] Suc_le_eq)
    moreover have "take (To st) (bn st') = take (To st) (bn st)" using arg_cong[OF st'(4), of "take (To st)"] by simp
    moreover have "requests b (runs st') i \<subseteq> set (bn st')" if "i < length (runs st')" "length (runs st) \<le> i" for i
    proof (cases "i = length (runs st)")
      case True
      then have "requests b (runs st') i = queued_by cs" using st'(3) one(4) by (simp add: requests_def cs_def)
      then show ?thesis using one(6) st'(5) by simp
    next
      case False
      then show ?thesis using st'(7) that one(4) by simp
    qed
    ultimately show ?thesis using run st' one(4,5) by (intro exI[of _ st']) auto
  qed
qed

text \<open>C9: a flush of different jobs ends, with no more fuel than there are jobs in \<open>U\<close>, and two, and runs every job of the
  queue, and every job that one of its runs asks to queue, exactly once, in the order of their ranks: nothing that is queued is
  lost, nothing runs twice.  No job is inactive, and the jobs make no other calls than to queue jobs of larger ranks out of \<open>U\<close>,
  to queue callbacks, and to allow or forbid their recursion.\<close>

theorem flush_runs_each_once:
  assumes "climbing U b" "distinct (bn st)" "set (bn st) \<subseteq> set U" "inactive st = []" "length U + 2 \<le> f"
  shows "case flushQueue b f st of None \<Rightarrow> False
    | Some st' \<Rightarrow> (\<exists>js. runs st' = runs st @ map (Pair Queued) js \<and> ranked js \<and> distinct js \<and> set (bn st) \<subseteq> set js \<and>
        (\<forall>i < length (runs st'). length (runs st) \<le> i \<longrightarrow> requests b (runs st') i \<subseteq> set js) \<and> bn st' = js)"
proof -
  let ?st = "st\<lparr>Nd := False, da := True, bn := sort_jobs Vk (bn st), To := 0\<rparr>"
  have s: "ranked (sort_jobs Vk (bn st))" "distinct (sort_jobs Vk (bn st))" "set (sort_jobs Vk (bn st)) = set (bn st)"
    using sort_jobs_spec[OF by_rank_Vk, of "bn st"] assms(2) by auto
  have "\<exists>st'. flushLoop b f ?st = Some st' \<and> steps_up U st' \<and> runs st' = runs ?st @ map (Pair Queued) (drop (To ?st) (bn st')) \<and>
      take (To ?st) (bn st') = take (To ?st) (bn ?st) \<and> set (bn ?st) \<subseteq> set (bn st') \<and> To ?st \<le> length (bn st') \<and>
      (\<forall>i < length (runs st'). length (runs ?st) \<le> i \<longrightarrow> requests b (runs st') i \<subseteq> set (bn st'))"
    by (rule flushLoop_once[OF assms(1)]) (use s assms(3-5) in \<open>auto simp: steps_up_def\<close>)
  then obtain st' where "flushLoop b f ?st = Some st'" "steps_up U st'" "runs st' = runs st @ map (Pair Queued) (bn st')" "set (bn st) \<subseteq> set (bn st')"
    "\<forall>i < length (runs st'). length (runs st) \<le> i \<longrightarrow> requests b (runs st') i \<subseteq> set (bn st')"
    using s(3) by auto
  then show ?thesis by (simp add: flushQueue_def steps_up_def)
qed


section \<open>A callback that throws\<close>

lemma flushLoop_da: "flushLoop b f st = Some st' \<Longrightarrow> da st' = da st"
proof (induction f arbitrary: st)
  case (Suc f)
  show ?case
  proof (cases "To st < length (bn st)")
    case True
    obtain st1 where st1: "flushLoop b f (st1\<lparr>To := To st1 + 1\<rparr>) = Some st'"
      "bn st ! To st \<in> set (inactive st) \<and> st1 = st \<or> (\<exists>f' x. f = Suc f' \<and>
        exec b f' (fst (b (runs st) (bn st ! To st))) (st\<lparr>runs := runs st @ [(Queued, bn st ! To st)]\<rparr>) = Some (x, st1))"
      using flushLoop_round[OF Suc.prems True] by blast
    then have "da st1 = da st" using steady.running_keeps(2)[where b = b] by (fastforce simp: steady_def list_all_iff)
    then show ?thesis using Suc.IH[OF st1(1)] by simp
  qed (use Suc.prems in auto)
qed simp

lemma P0_throws: "P0 b f st = Some (True, st') \<Longrightarrow> da st'"
proof (induction f arbitrary: st)
  case (Suc f)
  obtain st1 x st2 where st1: "flushQueue b f st = Some st1" "I0 b f (st1\<lparr>To := 0, bn := []\<rparr>) = Some (x, st2)"
    "if x then st' = st2 else P0 b f (st2\<lparr>da := False\<rparr>) = Some (True, st')"
    using Suc.prems by (auto simp: Let_def split: Option.bind_splits if_splits)
  have "da st1" using flushLoop_da[OF st1(1)[unfolded flushQueue_def]] by simp
  then have "da st2" using steady.running_keeps(4)[OF st1(2) refl] by (simp add: steady_def)
  then show ?case using st1(3) Suc.IH by (cases x) auto
qed simp

text \<open>The mark that is left behind by an exception of a callback.\<close>

lemma exception_keeps_mark:
  assumes "run_task b f st = Some (True, st')" "exec b' f' cs st' = Some (x, st'')"
  shows "da st'' \<and> tasks st'' = tasks st'"
proof -
  have "da st'" using assms(1) unfolding run_task_def by (rule P0_throws)
  then show ?thesis using steady.running_keeps(2)[OF assms(2) refl] by (simp add: steady_def list_all_iff)
qed

section \<open>Examples\<close>

definition jobA :: job where "jobA = \<lparr>jobkey = 1, jobid = Some 1, pre = False\<rparr>"
definition jobB :: job where "jobB = \<lparr>jobkey = 2, jobid = Some 2, pre = False\<rparr>"
definition jobC :: job where "jobC = \<lparr>jobkey = 3, jobid = Some 3, pre = True\<rparr>"
definition jobD :: job where "jobD = \<lparr>jobkey = 4, jobid = None, pre = False\<rparr>"

definition idle :: sched where
  "idle = \<lparr>bn = [], To = 0, da = False, Nd = False, Kl = [], Uo = None, Jr = 0, tasks = 0, inactive = [], recursive = [], runs = []\<rparr>"

text \<open>The first job queues the third and the second; the fourth throws.\<close>

definition parent_body :: body where
  "parent_body h j = (if j = jobA then [QueueJob jobC, QueueJob jobB] else [], j = jobD)"

lemmas job_defs = jobA_def jobB_def jobC_def jobD_def

theorem queue_while_flushing_witness:
  "pp jobB (idle\<lparr>bn := [jobA, jobC, jobD], da := True\<rparr>) = idle\<lparr>bn := [jobA, jobB, jobC, jobD], da := True\<rparr>"
  using queue_while_flushing[of "idle\<lparr>bn := [jobA, jobC, jobD], da := True\<rparr>" jobB]
  by (simp add: idle_def insert_waiting_def fa_def job_defs)

theorem flush_runs_each_once_witness:
  "flushQueue parent_body 6 (idle\<lparr>bn := [jobD, jobA]\<rparr>) =
     Some (idle\<lparr>bn := [jobA, jobB, jobC, jobD], To := 4, da := True, runs := map (Pair Queued) [jobA, jobB, jobC, jobD]\<rparr>) \<and>
   distinct [jobA, jobB, jobC, jobD] \<and> ranked [jobA, jobB, jobC, jobD]"
proof -
  have e: "flushQueue parent_body 6 (idle\<lparr>bn := [jobD, jobA]\<rparr>) =
     Some (idle\<lparr>bn := [jobA, jobB, jobC, jobD], To := 4, da := True, runs := map (Pair Queued) [jobA, jobB, jobC, jobD]\<rparr>)" by code_simp
  have "climbing [jobA, jobB, jobC, jobD] parent_body" "distinct (bn (idle\<lparr>bn := [jobD, jobA]\<rparr>))"
    "set (bn (idle\<lparr>bn := [jobD, jobA]\<rparr>)) \<subseteq> set [jobA, jobB, jobC, jobD]" "inactive (idle\<lparr>bn := [jobD, jobA]\<rparr>) = []"
    "length [jobA, jobB, jobC, jobD] + 2 \<le> (6 :: nat)"
    by (auto simp: climbing_def parent_body_def fa_def job_defs idle_def)
  from flush_runs_each_once[OF this] e show ?thesis by simp
qed

end
