(* ===== verification/Update_Ends.thy ===== *)
theory Update_Ends
  imports Update_Queue
begin

text \<open>
  The ends of the scheduler (\<open>Update_Queue\<close>): more fuel does not change a result, and when the jobs ask something of the
  scheduler only finitely often, everything that runs comes to an end.  With it the order of a flush, of the waiting jobs,
  and the mark that an exception leaves are statements about results that exist.
\<close>

section \<open>Fuel\<close>

text \<open>A result does not depend on the fuel, once there is enough.\<close>

lemma more_fuel:
  "call b f k j st = Some r \<Longrightarrow> f \<le> f' \<Longrightarrow> call b f' k j st = Some r"
  "exec b f cs st = Some r \<Longrightarrow> f \<le> f' \<Longrightarrow> exec b f' cs st = Some r"
  "hv b f t st = Some r \<Longrightarrow> f \<le> f' \<Longrightarrow> hv b f' t st = Some r"
  "I0 b f st = Some r \<Longrightarrow> f \<le> f' \<Longrightarrow> I0 b f' st = Some r"
  "postLoop b f st = Some r \<Longrightarrow> f \<le> f' \<Longrightarrow> postLoop b f' st = Some r"
proof (induction b f k j st and b f cs st and b f t st and b f st and b f st arbitrary: r f' and r f' and r f' and r f' and r f'
    rule: call_exec_hv_I0_postLoop.induct)
  case (2 b f k j st)
  obtain g where g: "f' = Suc g" "f \<le> g" using 2(3) by (cases f') auto
  obtain cs y where c: "b (runs st) j = (cs, y)" by fastforce
  obtain x st1 where s: "exec b f cs (st\<lparr>runs := runs st @ [(k, j)]\<rparr>) = Some (x, st1)" "r = (x \<or> y, st1)"
    using 2(2) c by (auto split: Option.bind_splits)
  show ?case using 2(1)[OF c[symmetric] s(1) g(2)] by (simp add: g(1) c s(2))
next
  case (4 b f c cs st)
  let ?s = "\<lambda>f. case c of FlushPre \<Rightarrow> hv b f (if da st then To st + 1 else 0) st | FlushPost \<Rightarrow> I0 b f st | _ \<Rightarrow> Some (False, simple c st)"
  obtain x st1 where s: "?s f = Some (x, st1)" "(if x then Some (True, st1) else exec b f cs st1) = Some r"
    using 4(4) by (auto split: Option.bind_splits)
  have "?s f' = Some (x, st1)"
  proof (cases c)
    case FlushPre
    then show ?thesis using s(1) 4(1)[OF FlushPre _ 4(5)] by simp
  next
    case FlushPost
    then show ?thesis using s(1) 4(2)[OF FlushPost _ 4(5)] by simp
  qed (use s(1) in simp_all)
  moreover have "(if x then Some (True, st1) else exec b f' cs st1) = Some r"
    using s(2) 4(3)[OF s(1) refl _ _ 4(5)] by (cases x) auto
  ultimately show ?case by simp
next
  case (6 b f t st)
  obtain g where g: "f' = Suc g" "f \<le> g" using 6(5) by (cases f') auto
  let ?n = "bn st ! t" and ?st = "st\<lparr>bn := take t (bn st) @ drop (t + 1) (bn st)\<rparr>"
  consider "\<not> t < length (bn st)" | "t < length (bn st)" "pre ?n" | "t < length (bn st)" "\<not> pre ?n" by blast
  then show ?case
  proof cases
    case 2
    obtain x st1 where s: "call b f Early ?n ?st = Some (x, st1)" "(if x then Some (True, st1) else hv b f t st1) = Some r"
      using 6(4) 2 by (auto simp: Let_def split: Option.bind_splits)
    have "(if x then Some (True, st1) else hv b g t st1) = Some r"
      using s(2) 6(2)[OF 2(1) refl 2(2) s(1) refl _ _ g(2)] by (cases x) auto
    then show ?thesis using 6(1)[OF 2(1) refl 2(2) s(1) g(2)] 2 by (simp add: g(1) Let_def)
  next
    case 3
    then show ?thesis using 6(3)[OF 3(1) refl 3(2) _ g(2)] 6(4) by (simp add: g(1) Let_def)
  qed (use 6(4) g(1) in simp)
next
  case (7 b f st)
  show ?case
  proof (cases "Kl st = [] \<or> Uo st \<noteq> None")
    case True
    then show ?thesis using 7(2) by (elim disjE) (auto simp: Let_def split: option.split_asm if_split_asm)
  next
    case False
    then show ?thesis using 7(1)[OF _ refl _ _ 7(3)] 7(2) by (simp add: Let_def)
  qed
next
  case (9 b f st)
  obtain g where g: "f' = Suc g" "f \<le> g" using 9(4) by (cases f') auto
  show ?case
  proof (cases "Uo st")
    case (Some u)
    show ?thesis
    proof (cases "Jr st < length u")
      case True
      obtain x st1 where s: "call b f Post (u ! Jr st) st = Some (x, st1)"
        "(if x then Some (True, st1) else postLoop b f (st1\<lparr>Jr := Jr st1 + 1\<rparr>)) = Some r"
        using 9(3) Some True by (auto split: Option.bind_splits)
      have "(if x then Some (True, st1) else postLoop b g (st1\<lparr>Jr := Jr st1 + 1\<rparr>)) = Some r"
        using s(2) 9(2)[OF Some True s(1) refl _ _ g(2)] by (cases x) auto
      then show ?thesis using 9(1)[OF Some True s(1) g(2)] Some True by (simp add: g(1))
    qed (use Some 9(3) g(1) in simp)
  qed (use 9(3) g(1) in simp)
qed auto





section \<open>Programs that come to rest\<close>

text \<open>After \<open>N\<close> runs the jobs ask nothing more of the scheduler.\<close>

definition quiet :: "nat \<Rightarrow> body \<Rightarrow> bool" where
  "quiet N b \<longleftrightarrow> (\<forall>h j. N \<le> length h \<longrightarrow> fst (b h j) = [])"

definition grows :: "sched \<Rightarrow> sched \<Rightarrow> bool" where
  "grows st st' \<longleftrightarrow> da st' = da st \<and> To st' = To st \<and> length (runs st) \<le> length (runs st')"

interpretation growing: scheduler_contract b "\<lambda>_. True" "\<lambda>_. True" "\<lambda>_. True" grows for b
proof unfold_locales
  fix st c
  have "runs (simple c st) = runs st"
    by (cases c) (auto simp: pp_def M0_def Bk_def Fk_def Fk_all_def Let_def split: option.splits)
  then show "True \<and> grows st (simple c st)" by (simp add: grows_def simple_fields)
qed (auto simp: grows_def)

lemma call_grows:
  assumes "call b f k j st = Some (x, st')"
  shows "da st' = da st \<and> To st' = To st \<and> length (runs st) < length (runs st')"
proof -
  obtain f' x' where "exec b f' (fst (b (runs st) j)) (st\<lparr>runs := runs st @ [(k, j)]\<rparr>) = Some (x', st')"
    using call_exec[OF assms] by blast
  from growing.running_keeps(2)[OF this refl] show ?thesis by (simp add: grows_def list_all_iff)
qed

lemma running_grows:
  "exec b f cs st = Some (x, st') \<Longrightarrow> grows st st'" "hv b f t st = Some (x, st') \<Longrightarrow> grows st st'"
  "I0 b f st = Some (x, st') \<Longrightarrow> grows st st'" "postLoop b f st = Some (x, st') \<Longrightarrow> grows st st'"
proof -
  show "hv b f t st = Some (x, st') \<Longrightarrow> grows st st'"
  proof (induction f arbitrary: t st)
    case (Suc f)
    then show ?case
      using call_grows by (fastforce simp: grows_def Let_def split: Option.bind_splits if_splits)
  qed simp
qed (use growing.running_keeps in \<open>auto simp: list_all_iff\<close>)

text \<open>A run of a program at rest only adds itself to the runs.\<close>

lemma call_quiet:
  assumes "quiet N b" "N \<le> length (runs st)" "call b f k j st = Some (x, st')"
  shows "st' = st\<lparr>runs := runs st @ [(k, j)]\<rparr>"
proof -
  obtain f' x' where "exec b f' (fst (b (runs st) j)) (st\<lparr>runs := runs st @ [(k, j)]\<rparr>) = Some (x', st')"
    using call_exec[OF assms(3)] by blast
  with assms(1,2) show ?thesis by (simp add: quiet_def)
qed


text \<open>What is left before the program is at rest; each run makes it less.\<close>

definition left :: "nat \<Rightarrow> sched \<Rightarrow> nat" where
  "left N st = N - length (runs st)"

lemma left_less: "left N st \<noteq> 0 \<Longrightarrow> length (runs st) < length (runs st') \<Longrightarrow> left N st' < left N st"
  by (simp add: left_def)

lemma left_le: "grows st st' \<Longrightarrow> left N st' \<le> left N st"
  by (simp add: left_def grows_def diff_le_mono2)

definition ends_all :: "nat \<Rightarrow> body \<Rightarrow> nat \<Rightarrow> bool" where
  "ends_all N b m \<longleftrightarrow> (\<forall>st. left N st = m \<longrightarrow> (\<forall>cs. \<exists>f r. exec b f cs st = Some r) \<and> (\<forall>t. \<exists>f r. hv b f t st = Some r) \<and>
     (\<exists>f r. postLoop b f st = Some r))"

lemma call_ends:
  assumes "quiet N b" "\<forall>n < left N st. ends_all N b n"
  shows "\<exists>f r. call b f k j st = Some r"
proof -
  let ?st = "st\<lparr>runs := runs st @ [(k, j)]\<rparr>"
  obtain cs y where c: "b (runs st) j = (cs, y)" by fastforce
  have "\<exists>f r. exec b f cs ?st = Some r"
  proof (cases "left N st = 0")
    case True
    then have "cs = []" using assms(1) c unfolding quiet_def left_def by (metis diff_is_0_eq fst_conv)
    then have "exec b 0 cs ?st = Some (False, ?st)" by simp
    then show ?thesis by blast
  next
    case False
    then have "left N ?st < left N st" by (simp add: left_less)
    then show ?thesis using assms(2) unfolding ends_all_def by blast
  qed
  then obtain f x st1 where "exec b f cs ?st = Some (x, st1)" by auto
  then have "call b (Suc f) k j st = Some (x \<or> y, st1)" by (simp add: c)
  then show ?thesis by blast
qed

lemma hv_ends:
  assumes "quiet N b" "\<forall>n < m. ends_all N b n"
  shows "left N st = m \<Longrightarrow> \<exists>f r. hv b f t st = Some r"
proof (induction "length (bn st) - t" arbitrary: st t rule: less_induct)
  case less
  let ?n = "bn st ! t" and ?st = "st\<lparr>bn := take t (bn st) @ drop (t + 1) (bn st)\<rparr>"
  consider "\<not> t < length (bn st)" | "t < length (bn st)" "pre ?n" | "t < length (bn st)" "\<not> pre ?n" by blast
  then show ?case
  proof cases
    case 1
    then have "hv b 1 t st = Some (False, st)" by simp
    then show ?thesis by blast
  next
    case 2
    have l: "left N ?st = m" using less.prems by (simp add: left_def)
    obtain f x st1 where c: "call b f Early ?n ?st = Some (x, st1)"
      using call_ends[OF assms(1), of ?st Early ?n] assms(2) l by (metis surj_pair)
    have "\<exists>f r. hv b f t st1 = Some r"
    proof (cases "m = 0")
      case True
      then have "st1 = ?st\<lparr>runs := runs ?st @ [(Early, ?n)]\<rparr>" using call_quiet[OF assms(1) _ c] l by (simp add: left_def)
      then show ?thesis using less.hyps[of st1 t] 2(1) True by (auto simp: left_def less.prems) (use less.prems in \<open>auto simp: left_def\<close>)
    next
      case False
      then have "left N st1 < m" using left_less[of N ?st st1] call_grows[OF c] l by simp
      then show ?thesis using assms(2) unfolding ends_all_def by blast
    qed
    then obtain f' r where r: "hv b f' t st1 = Some r" by blast
    have "hv b (Suc (max f f')) t st = Some (if x then (True, st1) else r)"
      using more_fuel(1)[OF c, of "max f f'"] more_fuel(3)[OF r, of "max f f'"] 2 by (simp add: Let_def)
    then show ?thesis by blast
  next
    case 3
    have "length (bn st) - (t + 1) < length (bn st) - t" using 3(1) by simp
    then obtain f r where "hv b f (t + 1) st = Some r" using less.hyps less.prems by blast
    then have "hv b (Suc f) t st = Some r" using 3 by (simp add: Let_def)
    then show ?thesis by blast
  qed
qed

lemma postLoop_ends:
  assumes "quiet N b" "\<forall>n < m. ends_all N b n"
  shows "left N st = m \<Longrightarrow> \<exists>f r. postLoop b f st = Some r"
proof (induction "case Uo st of None \<Rightarrow> 0 | Some u \<Rightarrow> length u - Jr st" arbitrary: st rule: less_induct)
  case less
  show ?case
  proof (cases "Uo st")
    case None
    then have "postLoop b 1 st = Some (True, st)" by simp
    then show ?thesis by blast
  next
    case (Some u)
    show ?thesis
    proof (cases "Jr st < length u")
      case False
      then have "postLoop b 1 st = Some (False, st\<lparr>Uo := None, Jr := 0\<rparr>)" using Some by simp
      then show ?thesis by blast
    next
      case True
      obtain f x st1 where c: "call b f Post (u ! Jr st) st = Some (x, st1)"
        using call_ends[OF assms(1), of st Post "u ! Jr st"] assms(2) less.prems by (metis surj_pair)
      have "\<exists>f r. postLoop b f (st1\<lparr>Jr := Jr st1 + 1\<rparr>) = Some r"
      proof (cases "m = 0")
        case z: True
        then have st1: "st1 = st\<lparr>runs := runs st @ [(Post, u ! Jr st)]\<rparr>" using call_quiet[OF assms(1) _ c] less.prems by (simp add: left_def)
        show ?thesis
          by (rule less.hyps) (use Some True z less.prems in \<open>simp_all add: st1 left_def\<close>)
      next
        case False
        then have "left N (st1\<lparr>Jr := Jr st1 + 1\<rparr>) < m" using left_less[of N st st1] call_grows[OF c] less.prems by (simp add: left_def)
        then show ?thesis using assms(2) unfolding ends_all_def by blast
      qed
      then obtain f' r where r: "postLoop b f' (st1\<lparr>Jr := Jr st1 + 1\<rparr>) = Some r" by blast
      have "postLoop b (Suc (max f f')) st = Some (if x then (True, st1) else r)"
        using more_fuel(1)[OF c, of "max f f'"] more_fuel(5)[OF r, of "max f f'"] Some True by simp
      then show ?thesis by blast
    qed
  qed
qed

lemma I0_ends:
  assumes "quiet N b" "\<forall>n < left N st. ends_all N b n"
  shows "\<exists>f r. I0 b f st = Some r"
proof (cases "Kl st = [] \<or> Uo st \<noteq> None")
  case True
  then show ?thesis by (auto simp: Let_def)
next
  case False
  then show ?thesis
    using postLoop_ends[OF assms, of "st\<lparr>Kl := [], Uo := Some (sort_jobs byId (js_unique (Kl st))), Jr := 0\<rparr>"]
    by (simp add: left_def Let_def)
qed

lemma all_ends:
  assumes "quiet N b"
  shows "ends_all N b m"
proof (induction m rule: less_induct)
  case (less m)
  then have lower: "\<forall>n < m. ends_all N b n" by blast
  have "left N st \<le> m \<Longrightarrow> \<exists>f r. exec b f cs st = Some r" for cs st
  proof (induction cs arbitrary: st)
    case (Cons c cs)
    have low: "\<forall>n < left N st. ends_all N b n" using lower Cons.prems by simp
    have simple_left: "left N (simple c st) \<le> m" using left_le[of st "simple c st" N] growing.simple_step[of st c] Cons.prems by simp
    have "\<exists>f x st1. (case c of FlushPre \<Rightarrow> hv b f (if da st then To st + 1 else 0) st | FlushPost \<Rightarrow> I0 b f st | _ \<Rightarrow> Some (False, simple c st)) = Some (x, st1) \<and> left N st1 \<le> m"
    proof (cases c)
      case FlushPre
      obtain f x st1 where r: "hv b f (if da st then To st + 1 else 0) st = Some (x, st1)"
        using hv_ends[OF assms low refl, of "if da st then To st + 1 else 0"] by (metis surj_pair)
      then have "left N st1 \<le> m" using left_le[OF running_grows(2)[OF r], of N] Cons.prems by simp
      then show ?thesis unfolding FlushPre cmd.case using r by blast
    next
      case FlushPost
      obtain f x st1 where r: "I0 b f st = Some (x, st1)" using I0_ends[OF assms low] by (metis surj_pair)
      then have "left N st1 \<le> m" using left_le[OF running_grows(3)[OF r], of N] Cons.prems by simp
      then show ?thesis unfolding FlushPost cmd.case using r by blast
    qed (use simple_left in \<open>auto simp: Let_def\<close>)
    then obtain f x st1 where s: "(case c of FlushPre \<Rightarrow> hv b f (if da st then To st + 1 else 0) st | FlushPost \<Rightarrow> I0 b f st | _ \<Rightarrow> Some (False, simple c st)) = Some (x, st1)"
      "left N st1 \<le> m" by blast
    obtain f' r where r: "exec b f' cs st1 = Some r" using Cons.IH[OF s(2)] by blast
    have s': "(case c of FlushPre \<Rightarrow> hv b (max f f') (if da st then To st + 1 else 0) st | FlushPost \<Rightarrow> I0 b (max f f') st | _ \<Rightarrow> Some (False, simple c st)) = Some (x, st1)"
      using s(1) more_fuel(3)[of b f _ st _ "max f f'"] more_fuel(4)[of b f st _ "max f f'"] by (cases c) auto
    have "exec b (max f f') (c # cs) st = Some (if x then (True, st1) else r)"
      using s' more_fuel(2)[OF r, of "max f f'"] by simp
    then show ?case by blast
  next
    case Nil
    have "exec b 0 [] st = Some (False, st)" by simp
    then show ?case by blast
  qed
  then show ?case
    unfolding ends_all_def using hv_ends[OF assms lower] postLoop_ends[OF assms lower] by blast
qed


lemma quiet_ends:
  assumes "quiet N b"
  shows "\<exists>f r. call b f k j st = Some r" "\<exists>f r. exec b f cs st = Some r" "\<exists>f r. I0 b f st = Some r"
  using call_ends[OF assms] I0_ends[OF assms] all_ends[OF assms] unfolding ends_all_def by blast+








section \<open>Order and exceptions\<close>

text \<open>Whatever a job does while a flush runs, queueing jobs and callbacks, taking jobs out and running jobs ahead, also
  through the jobs it runs: it comes to an end, the waiting jobs stay in the order of their ranks and stay all different, and
  the queue up to the running job stays as it was.  The program may call the scheduler in any way, as long as its jobs do so
  only finitely often; more fuel gives the same result.\<close>

theorem waiting_jobs_in_order:
  assumes "flushing st" "quiet N b"
  shows "\<exists>F x st'. (\<forall>f. exec b (F + f) cs st = Some (x, st')) \<and> flushing st' \<and> To st' = To st \<and>
    take (To st + 1) (bn st') = take (To st + 1) (bn st)"
proof -
  obtain F x st' where r: "exec b F cs st = Some (x, st')" using quiet_ends(2)[OF assms(2), of cs st] by (metis surj_pair)
  then have "\<forall>f. exec b (F + f) cs st = Some (x, st')" using more_fuel(2)[OF r] by simp
  then show ?thesis using waiting_jobs_kept[OF assms(1) r] by blast
qed



section \<open>Examples\<close>

text \<open>The example of the scheduler, for its first four runs.\<close>

definition brief_body :: body where
  "brief_body h j = (if length h < 4 then parent_body h j else ([], snd (parent_body h j)))"

lemma brief_quiet: "quiet 4 brief_body"
  by (simp add: quiet_def brief_body_def)

theorem waiting_jobs_in_order_witness:
  "\<exists>F x st'. exec brief_body F [QueueJob jobB, FlushPre] (idle\<lparr>bn := [jobA, jobC, jobD], da := True\<rparr>) = Some (x, st') \<and>
   flushing st' \<and> take 1 (bn st') = [jobA]"
proof -
  have "flushing (idle\<lparr>bn := [jobA, jobC, jobD], da := True\<rparr>)" by (simp add: flushing_def idle_def fa_def job_defs)
  then obtain F x st' where "\<forall>f. exec brief_body (F + f) [QueueJob jobB, FlushPre] (idle\<lparr>bn := [jobA, jobC, jobD], da := True\<rparr>) = Some (x, st')"
    "flushing st'" "take (To (idle\<lparr>bn := [jobA, jobC, jobD], da := True\<rparr>) + 1) (bn st') = take (To (idle\<lparr>bn := [jobA, jobC, jobD], da := True\<rparr>) + 1) [jobA, jobC, jobD]"
    using waiting_jobs_in_order[OF _ brief_quiet, of "idle\<lparr>bn := [jobA, jobC, jobD], da := True\<rparr>" "[QueueJob jobB, FlushPre]"] by auto
  moreover have "To (idle\<lparr>bn := [jobA, jobC, jobD], da := True\<rparr>) = 0" by (simp add: idle_def)
  ultimately show ?thesis by (metis One_nat_def add_0 add_0_right take0 take_Suc_Cons)
qed



end
