(* ===== verification/Route_Matcher.thy ===== *)
theory Route_Matcher
  imports Js_Library Complex_Main
begin

text \<open>
  The table of routes of the dashboard and how the router matches a path against it (\<open>index-e87360db.js\<close>, line 5): the
  tokens of a path pattern (\<open>UE\<close>), its regular expression, score, reader and printer (\<open>zE\<close>), the order of
  patterns (\<open>HE\<close>, \<open>KE\<close>), and the matcher with adding, removing and resolving (\<open>YE\<close>, without aliases, which the
  dashboard does not use).  Expressions of parameters that a pattern gives itself are read by a parameter \<open>cre\<close>, which is
  \<open>RegExp\<close> for expressions without groups of their own.  Scores are the rational numbers that the code writes down; its
  doubles differ from them by less than the scores of two patterns do.  Ignoring case concerns the letters of ASCII.
\<close>

section \<open>Tokens of a path pattern\<close>

text \<open>The regular expression of a parameter is empty when the pattern gives none.\<close>

datatype path_token = Static string | Param (pname: string) (pregexp: string) (repeatable: bool) (optional: bool)

datatype path_error = Invalid_path string | Err nat string string | Invalid_regexp string string | Array_not_repeatable string
  | Missing_param string

datatype tstate = Text | In_param | In_regexp | After_param | Escaped

fun state_number :: "tstate \<Rightarrow> nat" where
  "state_number Text = 0" | "state_number In_param = 1" | "state_number In_regexp = 2"
| "state_number After_param = 3" | "state_number Escaped = 4"

record tokenizer =
  tk_state :: tstate
  tk_prev :: tstate
  tk_segs :: "path_token list list"
  tk_seg :: "path_token list"
  tk_buf :: string
  tk_re :: string

definition name_char :: "char \<Rightarrow> bool" where
  "name_char c \<longleftrightarrow> (let k = of_char c :: nat in 48 \<le> k \<and> k \<le> 57 \<or> 65 \<le> k \<and> k \<le> 90 \<or> 97 \<le> k \<and> k \<le> 122 \<or> k = 95)"

definition modifier :: "char \<Rightarrow> bool" where
  "modifier u \<longleftrightarrow> u \<in> {CHR ''*'', CHR ''?'', CHR ''+''}"

text \<open>\<open>f\<close>: the buffer becomes a token; \<open>u\<close> is the character read last.\<close>

definition consumeBuffer :: "char \<Rightarrow> tokenizer \<Rightarrow> path_error + tokenizer" where
  "consumeBuffer u t = (let c = tk_buf t; rep = u \<in> {CHR ''*'', CHR ''+''} in
     if c = [] then Inr t
     else case tk_state t of
       Text \<Rightarrow> Inr (t\<lparr>tk_seg := tk_seg t @ [Static c], tk_buf := []\<rparr>)
     | Escaped \<Rightarrow> Inl (Err 4 c ''Invalid state to consume buffer'')
     | n \<Rightarrow> if 1 < length (tk_seg t) \<and> rep then Inl (Err (state_number n) c
           (''A repeatable param ('' @ c @ '') must be alone in its segment. eg: '' @ [CHR 39] @ ''/:ids+.''))
         else Inr (t\<lparr>tk_seg := tk_seg t @ [Param c (tk_re t) rep (u \<in> {CHR ''*'', CHR ''?''})], tk_buf := []\<rparr>))"

definition finalizeSegment :: "tokenizer \<Rightarrow> tokenizer" where
  "finalizeSegment t = t\<lparr>tk_segs := tk_segs t @ [tk_seg t], tk_seg := []\<rparr>"

definition addCharToBuffer :: "char \<Rightarrow> tokenizer \<Rightarrow> tokenizer" where
  "addCharToBuffer u t = t\<lparr>tk_buf := tk_buf t @ [u]\<rparr>"

text \<open>One character in a state other than \<open>Escaped\<close>; the result says whether the character is to be read again.\<close>

definition read_char :: "char \<Rightarrow> tokenizer \<Rightarrow> path_error + (bool \<times> tokenizer)" where
  "read_char u t = (case tk_state t of
     Text \<Rightarrow>
       if u = CHR ''/'' then (case (if tk_buf t = [] then Inr t else consumeBuffer u t) of Inl e \<Rightarrow> Inl e | Inr t \<Rightarrow> Inr (False, finalizeSegment t))
       else if u = CHR '':'' then (case consumeBuffer u t of Inl e \<Rightarrow> Inl e | Inr t \<Rightarrow> Inr (False, t\<lparr>tk_state := In_param\<rparr>))
       else Inr (False, addCharToBuffer u t)
   | Escaped \<Rightarrow> Inr (False, (addCharToBuffer u t)\<lparr>tk_state := tk_prev t\<rparr>)
   | In_param \<Rightarrow>
       if u = CHR ''('' then Inr (False, t\<lparr>tk_state := In_regexp\<rparr>)
       else if name_char u then Inr (False, addCharToBuffer u t)
       else (case consumeBuffer u t of Inl e \<Rightarrow> Inl e | Inr t \<Rightarrow> Inr (\<not> modifier u, t\<lparr>tk_state := Text\<rparr>))
   | In_regexp \<Rightarrow>
       if u = CHR '')'' then
         (if tk_re t \<noteq> [] \<and> last (tk_re t) = CHR 0x5C then Inr (False, t\<lparr>tk_re := butlast (tk_re t) @ [u]\<rparr>)
          else Inr (False, t\<lparr>tk_state := After_param\<rparr>))
       else Inr (False, t\<lparr>tk_re := tk_re t @ [u]\<rparr>)
   | After_param \<Rightarrow> (case consumeBuffer u t of Inl e \<Rightarrow> Inl e
       | Inr t \<Rightarrow> Inr (\<not> modifier u, t\<lparr>tk_state := Text, tk_re := []\<rparr>)))"

text \<open>The loop; a character that is read again is read in the state \<open>Text\<close>.\<close>

lemma read_again: "read_char u t = Inr (True, t') \<Longrightarrow> tk_state t \<noteq> Text \<and> tk_state t' = Text"
  by (auto simp: read_char_def split: tstate.splits sum.splits if_splits)

function tokenize_loop :: "string \<Rightarrow> tokenizer \<Rightarrow> path_error + tokenizer" where
  "tokenize_loop [] t = Inr t"
| "tokenize_loop (u # us) t =
     (if u = CHR 0x5C \<and> tk_state t \<noteq> In_regexp then tokenize_loop us (t\<lparr>tk_prev := tk_state t, tk_state := Escaped\<rparr>)
      else case read_char u t of Inl e \<Rightarrow> Inl e
        | Inr (again, t') \<Rightarrow> if again then tokenize_loop (u # us) t' else tokenize_loop us t')"
  by pat_completeness auto
termination
  by (relation "measures [\<lambda>(us, t). length us, \<lambda>(us, t). if tk_state t = Text then 0 else 1]") (auto dest: read_again)

declare tokenize_loop.simps(2) [simp del]

definition tokenizePath :: "string \<Rightarrow> path_error + path_token list list" where
  "tokenizePath e = (if e = [] then Inr [[]] else if e = ''/'' then Inr [[Static '''']]
     else if hd e \<noteq> CHR ''/'' then Inl (Invalid_path e)
     else case tokenize_loop (tl e) \<lparr>tk_state = Text, tk_prev = Text, tk_segs = [], tk_seg = [], tk_buf = [], tk_re = []\<rparr> of Inl x \<Rightarrow> Inl x
       | Inr t \<Rightarrow> if tk_state t = In_regexp then Inl (Err 2 (tk_buf t) (''Unfinished custom RegExp for param '' @ [CHR 34] @ tk_buf t @ [CHR 34]))
           else (case consumeBuffer (last e) t of Inl x \<Rightarrow> Inl x | Inr t \<Rightarrow> Inr (tk_segs (finalizeSegment t))))"

section \<open>Regular expressions with groups\<close>

datatype re = Eps | Lit char | Cls "char \<Rightarrow> bool" | Seq re re | Alt re re | Star re | Lazy re | Grp nat re

text \<open>The ways to match a beginning of a text, in the order in which a backtracking matcher tries them: the rest of the
  text, and the texts of the groups.  A repetition ends at a round that matches nothing.  No match makes the text
  longer (\<open>run_length\<close>), so the test in the case of a sequence is only there for the termination.\<close>

function run :: "bool \<Rightarrow> re \<Rightarrow> string \<Rightarrow> (nat \<times> string) list \<Rightarrow> (string \<times> (nat \<times> string) list) list" where
  "run i Eps s c = [(s, c)]"
| "run i (Lit x) s c = (case s of [] \<Rightarrow> [] | y # ys \<Rightarrow> if y = x \<or> i \<and> lower y = lower x then [(ys, c)] else [])"
| "run i (Cls p) s c = (case s of [] \<Rightarrow> [] | y # ys \<Rightarrow> if p y then [(ys, c)] else [])"
| "run i (Seq a b) s c = concat (map (\<lambda>(s', c'). if length s' \<le> length s then run i b s' c' else []) (run i a s c))"
| "run i (Alt a b) s c = run i a s c @ run i b s c"
| "run i (Star a) s c = concat (map (\<lambda>(s', c'). if length s' < length s then run i (Star a) s' c' else []) (run i a s c)) @ [(s, c)]"
| "run i (Lazy a) s c = (s, c) # concat (map (\<lambda>(s', c'). if length s' < length s then run i (Lazy a) s' c' else []) (run i a s c))"
| "run i (Grp k a) s c = map (\<lambda>(s', c'). (s', (k, take (length s - length s') s) # c')) (run i a s c)"
  by pat_completeness auto
termination by (relation "measures [\<lambda>(i, r, s, c). length s, \<lambda>(i, r, s, c). size r]") auto

declare run.simps(6, 7) [simp del]


section \<open>Expression, score, reader and printer of a pattern\<close>

record options =
  sensitive :: bool
  strict :: bool
  ends :: bool

text \<open>What the router of the dashboard is made with.\<close>

definition default_options :: options where
  "default_options = \<lparr>sensitive = False, strict = False, ends = True\<rparr>"

definition Jv :: string where
  "Jv = ''[^/]+?''"

definition default_re :: re where
  "default_re = Seq (Cls (\<lambda>c. c \<noteq> CHR ''/'')) (Lazy (Cls (\<lambda>c. c \<noteq> CHR ''/'')))"

definition param_re :: "(string \<Rightarrow> re option) \<Rightarrow> string \<Rightarrow> re option" where
  "param_re cre b = (if b = [] \<or> b = Jv then Some default_re else cre b)"

definition lits :: "string \<Rightarrow> re \<Rightarrow> re" where
  "lits v r = foldr (\<lambda>c. Seq (Lit c)) v r"

definition Opt :: "re \<Rightarrow> re" where
  "Opt r = Alt r Eps"

text \<open>The expression of one token: the number of the parameter, whether it is the first of its segment, and whether it
  is the only one.\<close>

definition token_re :: "(string \<Rightarrow> re option) \<Rightarrow> nat \<Rightarrow> bool \<Rightarrow> bool \<Rightarrow> path_token \<Rightarrow> re \<Rightarrow> path_error + re" where
  "token_re cre k first only p r = (case p of
     Static v \<Rightarrow> Inr (if first then Seq (Lit (CHR ''/'')) (lits v r) else lits v r)
   | Param m b h y \<Rightarrow> (case param_re cre b of None \<Rightarrow> Inl (Invalid_regexp m b)
       | Some g \<Rightarrow> let C = Grp k (if h then Seq g (Star (Seq (Lit (CHR ''/'')) g)) else g); slash = Lit (CHR ''/'') in
           Inr (if first then
                  if y \<and> only then Seq (Opt (Seq slash C)) r
                  else Seq slash (Seq (if y then Opt C else C) r)
                else Seq (if y then Opt C else C) r)))"

fun is_param :: "path_token \<Rightarrow> bool" where
  "is_param (Param m b h y) = True"
| "is_param (Static v) = False"

definition params_in :: "path_token list \<Rightarrow> nat" where
  "params_in c = length (filter is_param c)"

text \<open>An expression is put together from its right end; the code reads the parameters from the left, so errors are looked
  for from there.\<close>

fun segment_re :: "(string \<Rightarrow> re option) \<Rightarrow> nat \<Rightarrow> bool \<Rightarrow> bool \<Rightarrow> path_token list \<Rightarrow> re \<Rightarrow> path_error + re" where
  "segment_re cre k first only [] r = Inr r"
| "segment_re cre k first only (p # ps) r = (case token_re cre k first only p Eps of Inl e \<Rightarrow> Inl e
     | Inr _ \<Rightarrow> (case segment_re cre (if is_param p then k + 1 else k) False only ps r of Inl e \<Rightarrow> Inl e
         | Inr r' \<Rightarrow> token_re cre k first only p r'))"

fun path_re :: "(string \<Rightarrow> re option) \<Rightarrow> options \<Rightarrow> nat \<Rightarrow> path_token list list \<Rightarrow> path_error + re" where
  "path_re cre n k [] = Inr (if strict n then Eps else Opt (Lit (CHR ''/'')))"
| "path_re cre n k (c # cs) = (case segment_re cre k True (length c < 2) c Eps of Inl e \<Rightarrow> Inl e
     | Inr _ \<Rightarrow> (case path_re cre n (k + params_in c) cs of Inl e \<Rightarrow> Inl e
         | Inr r \<Rightarrow> if c = [] \<and> strict n then Inr (Seq (Lit (CHR ''/'')) r) else segment_re cre k True (length c < 2) c r))"

definition token_score :: "options \<Rightarrow> path_token \<Rightarrow> rat" where
  "token_score n p = 40 + (if sensitive n then 1 / 4 else 0) + (case p of Static v \<Rightarrow> 40
     | Param m b h y \<Rightarrow> (if b = [] \<or> b = Jv then 0 else 10) + 20 + (if y then -8 else 0) + (if h then -20 else 0)
         + (if b = ''.*'' then -50 else 0))"

definition path_score :: "options \<Rightarrow> path_token list list \<Rightarrow> rat list list" where
  "path_score n e = (let o' = map (\<lambda>c. if c = [] then [90] else map (token_score n) c) e in
     if strict n \<and> ends n then o'[length o' - 1 := (last o')[length (last o') - 1 := last (last o') + 7 / 10]] else o')"

record path_parser =
  pp_re :: re
  pp_keys :: "path_token list"
  pp_score :: "rat list list"
  pp_tokens :: "path_token list list"
  pp_options :: options

definition tokensToParser :: "(string \<Rightarrow> re option) \<Rightarrow> options \<Rightarrow> path_token list list \<Rightarrow> path_error + path_parser" where
  "tokensToParser cre n e = (case path_re cre n 0 e of Inl x \<Rightarrow> Inl x
     | Inr r \<Rightarrow> Inr \<lparr>pp_re = r, pp_keys = filter is_param (concat e), pp_score = path_score n e, pp_tokens = e, pp_options = n\<rparr>)"

text \<open>The end that the expression demands, and the first way to match up to it.\<close>

definition at_end :: "options \<Rightarrow> string \<Rightarrow> bool" where
  "at_end n s \<longleftrightarrow> (if ends n then s = [] else strict n \<longrightarrow> s = [] \<or> hd s = CHR ''/'')"

definition re_match :: "path_parser \<Rightarrow> string \<Rightarrow> (nat \<times> string) list option" where
  "re_match r s = map_option snd (List.find (\<lambda>(s', c). at_end (pp_options r) s') (run (\<not> sensitive (pp_options r)) (pp_re r) s []))"

datatype pvalue = PText string | PList "string list"

fun split_slash :: "string \<Rightarrow> string list" where
  "split_slash [] = [[]]"
| "split_slash (x # xs) = (if x = CHR ''/'' then [] # split_slash xs
     else (case split_slash xs of y # ys \<Rightarrow> (x # y) # ys | [] \<Rightarrow> [[x]]))"

fun put_param :: "string \<Rightarrow> pvalue \<Rightarrow> (string \<times> pvalue) list \<Rightarrow> (string \<times> pvalue) list" where
  "put_param k v [] = [(k, v)]"
| "put_param k v ((l, w) # xs) = (if l = k then (l, v) # xs else (l, w) # put_param k v xs)"

definition parse_path :: "path_parser \<Rightarrow> string \<Rightarrow> (string \<times> pvalue) list option" where
  "parse_path r s = (case re_match r s of None \<Rightarrow> None
     | Some c \<Rightarrow> Some (fold (\<lambda>(i, p) f. let v = (case map_of c i of None \<Rightarrow> [] | Some v \<Rightarrow> v) in
         put_param (pname p) (if v \<noteq> [] \<and> repeatable p then PList (split_slash v) else PText v) f) (enumerate 0 (pp_keys r)) []))"

text \<open>The printer: \<open>d\<close> is the text so far, \<open>f\<close> says that a segment has been left out.\<close>

fun stringify_segment :: "(string \<times> pvalue) list \<Rightarrow> nat \<Rightarrow> path_token list \<Rightarrow> string \<times> bool \<Rightarrow> path_error + (string \<times> bool)" where
  "stringify_segment c len [] s = Inr s"
| "stringify_segment c len (Static v # ps) (d, f) = stringify_segment c len ps (d @ v, f)"
| "stringify_segment c len (Param m b' h y # ps) (d, f) =
     (let g = (case map_of c m of Some v \<Rightarrow> v | None \<Rightarrow> PText []);
          b = (case g of PText t \<Rightarrow> t | PList ts \<Rightarrow> js_join ''/'' ts) in
      if (case g of PList _ \<Rightarrow> \<not> h | _ \<Rightarrow> False) then Inl (Array_not_repeatable m)
      else if b = [] \<and> \<not> y then Inl (Missing_param m)
      else let (d, f) = (if b = [] \<and> len < 2 then (if d \<noteq> [] \<and> last d = CHR ''/'' then (butlast d, f) else (d, True)) else (d, f)) in
        stringify_segment c len ps (d @ b, f))"

fun stringify_segments :: "(string \<times> pvalue) list \<Rightarrow> path_token list list \<Rightarrow> string \<times> bool \<Rightarrow> path_error + (string \<times> bool)" where
  "stringify_segments c [] s = Inr s"
| "stringify_segments c (p # ps) (d, f) =
     (let d = (if f \<and> d \<noteq> [] \<and> last d = CHR ''/'' then d else d @ ''/'') in
      case stringify_segment c (length p) p (d, False) of Inl e \<Rightarrow> Inl e | Inr s \<Rightarrow> stringify_segments c ps s)"

definition stringify_path :: "path_parser \<Rightarrow> (string \<times> pvalue) list \<Rightarrow> path_error + string" where
  "stringify_path r c = (case stringify_segments c (pp_tokens r) ([], False) of Inl e \<Rightarrow> Inl e
     | Inr (d, _) \<Rightarrow> Inr (if d = [] then ''/'' else d))"


section \<open>The order of patterns\<close>

definition compare_lengths :: "rat list \<Rightarrow> rat list \<Rightarrow> int" where
  "compare_lengths e t = (if length e < length t then (if length e = 1 \<and> e ! 0 = 80 then -1 else 1)
     else if length t < length e then (if length t = 1 \<and> t ! 0 = 80 then 1 else -1) else 0)"

text \<open>The sign of the result of \<open>HE\<close> decides.\<close>

fun scan_scores :: "rat list \<Rightarrow> rat list \<Rightarrow> int option" where
  "scan_scores (x # xs) (y # ys) = (if y < x then Some (-1) else if x < y then Some 1 else scan_scores xs ys)"
| "scan_scores _ _ = None"

definition HE :: "rat list \<Rightarrow> rat list \<Rightarrow> int" where
  "HE e t = (case scan_scores e t of Some o' \<Rightarrow> o' | None \<Rightarrow> compare_lengths e t)"

definition Zv :: "rat list list \<Rightarrow> bool" where
  "Zv e \<longleftrightarrow> e \<noteq> [] \<and> last e \<noteq> [] \<and> last (last e) < 0"

fun scan_segments :: "rat list list \<Rightarrow> rat list list \<Rightarrow> int option" where
  "scan_segments (x # xs) (y # ys) = (if HE x y \<noteq> 0 then Some (HE x y) else scan_segments xs ys)"
| "scan_segments _ _ = None"

definition KE :: "rat list list \<Rightarrow> rat list list \<Rightarrow> int" where
  "KE e t = (case scan_segments e t of Some l \<Rightarrow> l
     | None \<Rightarrow> let d = int (length t) - int (length e) in
         if \<bar>d\<bar> = 1 \<and> Zv e then 1 else if \<bar>d\<bar> = 1 \<and> Zv t then -1 else d)"

section \<open>The matcher\<close>

datatype route_def = Route (rd_path: string) (rd_name: "string option") (rd_component: "string option") (rd_redirect: "string option")
  (rd_sidebar: bool) (rd_children: "route_def list")

text \<open>Records are kept in the order in which they were made; a matcher is the number of its record.\<close>

record matcher =
  mt_path :: string
  mt_name :: "string option"
  mt_component :: "string option"
  mt_redirect :: "string option"
  mt_sidebar :: bool
  mt_parser :: path_parser
  mt_parent :: "nat option"
  mt_children :: "nat list"

record route_store =
  rs_all :: "matcher list"
  rs_order :: "nat list"
  rs_names :: "(string \<times> nat) list"

definition splice_out :: "nat \<Rightarrow> 'a list \<Rightarrow> 'a list" where
  "splice_out i xs = take i xs @ drop (i + 1) xs"

fun index_of :: "nat \<Rightarrow> nat list \<Rightarrow> nat option" where
  "index_of x [] = None"
| "index_of x (y # ys) = (if x = y then Some 0 else map_option Suc (index_of x ys))"

text \<open>\<open>s\<close> for a matcher, with its children; every child is younger than its parent, so the number of records is fuel enough.\<close>

fun remove_matcher :: "nat \<Rightarrow> nat \<Rightarrow> route_store \<Rightarrow> route_store" where
  "remove_matcher 0 d st = st"
| "remove_matcher (Suc f) d st = (case index_of d (rs_order st) of None \<Rightarrow> st
     | Some i \<Rightarrow> (let r = rs_all st ! d;
           st = st\<lparr>rs_order := splice_out i (rs_order st),
                   rs_names := (case mt_name r of None \<Rightarrow> rs_names st | Some n \<Rightarrow> filter (\<lambda>(m, _). m \<noteq> n) (rs_names st))\<rparr>
         in fold (remove_matcher f) (mt_children r) st))"

text \<open>\<open>s\<close> for a name: \<open>splice\<close> of the position -1 takes the last entry.\<close>

definition remove_name :: "string \<Rightarrow> route_store \<Rightarrow> route_store" where
  "remove_name n st = (case map_of (rs_names st) n of None \<Rightarrow> st
     | Some d \<Rightarrow> (let o' = rs_order st;
           st = st\<lparr>rs_names := filter (\<lambda>(m, _). m \<noteq> n) (rs_names st),
                   rs_order := (case index_of d o' of Some i \<Rightarrow> splice_out i o' | None \<Rightarrow> butlast o')\<rparr>
         in fold (remove_matcher (length (rs_all st))) (mt_children (rs_all st ! d)) st))"

text \<open>\<open>wb(e, t)\<close>: whether \<open>e\<close> is below \<open>t\<close>.\<close>

fun is_below :: "nat \<Rightarrow> matcher list \<Rightarrow> nat \<Rightarrow> nat \<Rightarrow> bool" where
  "is_below 0 ms e t = False"
| "is_below (Suc f) ms e t = list_ex (\<lambda>n. n = e \<or> is_below f ms e n) (mt_children (ms ! t))"

fun insert_position :: "matcher list \<Rightarrow> nat \<Rightarrow> nat list \<Rightarrow> nat" where
  "insert_position ms d [] = 0"
| "insert_position ms d (n # ns) =
     (if 0 \<le> KE (pp_score (mt_parser (ms ! d))) (pp_score (mt_parser (ms ! n))) \<and>
         (mt_path (ms ! d) \<noteq> mt_path (ms ! n) \<or> \<not> is_below (length ms) ms d n)
      then Suc (insert_position ms d ns) else 0)"

definition insertMatcher :: "nat \<Rightarrow> route_store \<Rightarrow> route_store" where
  "insertMatcher d st = (let i = insert_position (rs_all st) d (rs_order st) in
     st\<lparr>rs_order := take i (rs_order st) @ [d] @ drop i (rs_order st),
        rs_names := (case mt_name (rs_all st ! d) of None \<Rightarrow> rs_names st
          | Some n \<Rightarrow> if n = [] then rs_names st else (n, d) # filter (\<lambda>(m, _). m \<noteq> n) (rs_names st))\<rparr>)"

definition full_path :: "string \<Rightarrow> matcher option \<Rightarrow> string" where
  "full_path w f = (case f of None \<Rightarrow> w
     | Some f \<Rightarrow> if w \<noteq> [] \<and> hd w = CHR ''/'' then w
         else mt_path f @ (if w = [] then [] else (if mt_path f \<noteq> [] \<and> last (mt_path f) = CHR ''/'' then [] else ''/'') @ w))"

text \<open>\<open>qE\<close>: the new record and its place among the children of its parent.\<close>

definition new_record :: "nat option \<Rightarrow> matcher \<Rightarrow> route_store \<Rightarrow> route_store" where
  "new_record f r st = st\<lparr>rs_all := (case f of None \<Rightarrow> rs_all st
     | Some k \<Rightarrow> (rs_all st)[k := (rs_all st ! k)\<lparr>mt_children := mt_children (rs_all st ! k) @ [length (rs_all st)]\<rparr>]) @ [r]\<rparr>"

text \<open>A name that is taken already is removed before.\<close>

definition register :: "nat option \<Rightarrow> matcher \<Rightarrow> route_store \<Rightarrow> route_store" where
  "register f r st = (let s = new_record f r st in case mt_name r of None \<Rightarrow> s | Some m \<Rightarrow> if m = [] then s else remove_name m s)"

text \<open>\<open>l\<close>: the record, the removal of its name, its children, and last its place in the order.\<close>

fun addRoute :: "(string \<Rightarrow> re option) \<Rightarrow> options \<Rightarrow> nat option \<Rightarrow> route_def \<Rightarrow> route_store \<Rightarrow> path_error + route_store"
and addRoutes :: "(string \<Rightarrow> re option) \<Rightarrow> options \<Rightarrow> nat option \<Rightarrow> route_def list \<Rightarrow> route_store \<Rightarrow> path_error + route_store"
where
  "addRoute cre n f (Route w name cmp red side cs) st =
     (let path = full_path w (map_option (\<lambda>k. rs_all st ! k) f); g = length (rs_all st) in
      case tokenizePath path of Inl e \<Rightarrow> Inl e
      | Inr ts \<Rightarrow> (case tokensToParser cre n ts of Inl e \<Rightarrow> Inl e
        | Inr pp \<Rightarrow> (case addRoutes cre n (Some g) cs (register f \<lparr>mt_path = path, mt_name = name, mt_component = cmp, mt_redirect = red,
              mt_sidebar = side, mt_parser = pp, mt_parent = f, mt_children = []\<rparr> st) of Inl e \<Rightarrow> Inl e
          | Inr st \<Rightarrow> Inr (if cmp \<noteq> None \<or> name \<notin> {None, Some []} \<or> red \<notin> {None, Some []} then insertMatcher g st else st))))"
| "addRoutes cre n f [] st = Inr st"
| "addRoutes cre n f (d # ds) st = (case addRoute cre n f d st of Inl e \<Rightarrow> Inl e | Inr st \<Rightarrow> addRoutes cre n f ds st)"

definition createRouterMatcher :: "(string \<Rightarrow> re option) \<Rightarrow> options \<Rightarrow> route_def list \<Rightarrow> path_error + route_store" where
  "createRouterMatcher cre n ds = addRoutes cre n None ds \<lparr>rs_all = [], rs_order = [], rs_names = []\<rparr>"

text \<open>The records of a match, from the outermost parent to the match; a parent is older than its children.\<close>

fun matched :: "nat \<Rightarrow> matcher list \<Rightarrow> nat \<Rightarrow> nat list" where
  "matched 0 ms d = []"
| "matched (Suc f) ms d = (case mt_parent (ms ! d) of None \<Rightarrow> [d] | Some p \<Rightarrow> matched f ms p @ [d])"

text \<open>\<open>c\<close> for a location with a path: the match, its parameters and its records.\<close>

definition resolve_path :: "route_store \<Rightarrow> string \<Rightarrow> (nat \<times> (string \<times> pvalue) list \<times> nat list) option" where
  "resolve_path st m = (case List.find (\<lambda>d. re_match (mt_parser (rs_all st ! d)) m \<noteq> None) (rs_order st) of None \<Rightarrow> None
     | Some d \<Rightarrow> Some (d, the (parse_path (mt_parser (rs_all st ! d)) m), matched (d + 1) (rs_all st) d))"

section \<open>The routes of the dashboard\<close>

text \<open>A component is the name of the file that is loaded for it.\<close>

definition page :: "string \<Rightarrow> string \<Rightarrow> bool \<Rightarrow> route_def" where
  "page p c side = Route (''/'' @ p) (Some p) (Some ''index-710a5cd6'') None side [Route [] (Some p) (Some c) None False []]"

definition dashboard_routes :: "route_def list" where
  "dashboard_routes =
     [Route ''/login'' None (Some ''index-710a5cd6'') None False [Route [] (Some ''login'') (Some ''index-7e4c6da8'') None False []],
      Route ''/'' (Some ''cluster'') (Some ''index-710a5cd6'') (Some ''/cluster'') True
        [Route [] (Some ''cluster'') (Some ''home-296339b0'') None False
          [Route ''/cluster'' (Some ''cluster'') (Some ''home-296339b0'') None False []]],
      page ''processor'' ''index-199227cb'' True,
      page ''server'' ''index-a677f04a'' False,
      page ''session'' ''index-80153201'' True,
      page ''node'' ''index-ca7faabf'' True,
      page ''sessionprocessor'' ''index-2323a9fb'' False]"


text \<open>The data merged over the chain of a match: the only datum of the dashboard asks for the side bar.\<close>

definition merged_sidebar :: "route_store \<Rightarrow> nat list \<Rightarrow> bool" where
  "merged_sidebar st ds = list_ex (\<lambda>d. mt_sidebar (rs_all st ! d)) ds"

end
