(* ===== verification/Route_Links.thy ===== *)
theory Route_Links
  imports Route_Matcher
begin

text \<open>
  Laws of path patterns (\<open>Route_Matcher\<close>): what the expression of a pattern matches, the round trip of links through the
  printer and the reader of a pattern, and the round trip of patterns through their text and the tokenizer.
\<close>

section \<open>Laws of the matcher of expressions\<close>

lemma run_repeat:
  assumes "(s', c') \<in> set (run i r s c)" "r = Star a \<or> r = Lazy a"
  shows "s' = s \<or> (\<exists>x y. (x, y) \<in> set (run i a s c) \<and> length x < length s \<and> (s', c') \<in> set (run i r x y))"
proof -
  let ?round = "\<lambda>r. concat (map (\<lambda>(x, y). if length x < length s then run i r x y else []) (run i a s c))"
  have "(s', c') \<in> insert (s, c) (set (?round r))"
    using assms run.simps(6) [of i a s c] run.simps(7) [of i a s c] by auto
  then show ?thesis by (auto split: if_splits)
qed

lemma run_length: "(s', c') \<in> set (run i r s c) \<Longrightarrow> length s' \<le> length s"
proof (induction i r s c arbitrary: s' c' rule: run.induct)
  case (6 i a s c)
  from run_repeat [OF 6(3), of a] show ?case
    by (auto dest: 6(2) [OF _ refl])
next
  case (7 i a s c)
  from run_repeat [OF 7(3), of a] show ?case
    by (auto dest: 7(2) [OF _ refl])
next
  case (4 i a b s c)
  then show ?case
    by (auto split: if_splits) (blast intro: le_trans)
qed (auto split: list.splits if_splits)

text \<open>The ways to match a whole text.\<close>

definition full :: "bool \<Rightarrow> re \<Rightarrow> string \<Rightarrow> (nat \<times> string) list \<Rightarrow> (string \<times> (nat \<times> string) list) list" where
  "full i r s c = filter (\<lambda>(s', c'). s' = []) (run i r s c)"

lemma full_Seq: "full i (Seq a b) s c = concat (map (\<lambda>(s', c'). full i b s' c') (run i a s c))"
proof -
  have "map (\<lambda>(s', c'). if length s' \<le> length s then run i b s' c' else []) (run i a s c) = map (\<lambda>(s', c'). run i b s' c') (run i a s c)"
    by (rule map_cong [OF refl]) (auto dest: run_length)
  then show ?thesis
    by (simp add: full_def filter_concat case_prod_beta' comp_def del: map_eq_conv)
qed

lemma full_Lit [simp]: "full i (Seq (Lit x) r) s c = (case s of [] \<Rightarrow> [] | y # ys \<Rightarrow> if y = x \<or> i \<and> lower y = lower x then full i r ys c else [])"
  by (cases s) (auto simp: full_Seq)

lemma full_lits [simp]: "full i (lits [] r) s c = full i r s c"
  "full i (lits (x # v) r) s c = (case s of [] \<Rightarrow> [] | y # ys \<Rightarrow> if y = x \<or> i \<and> lower y = lower x then full i (lits v r) ys c else [])"
proof -
  have "lits (x # v) r = Seq (Lit x) (lits v r)" by (simp add: lits_def)
  then show "full i (lits (x # v) r) s c = (case s of [] \<Rightarrow> [] | y # ys \<Rightarrow> if y = x \<or> i \<and> lower y = lower x then full i (lits v r) ys c else [])"
    by (simp only: full_Lit)
qed (simp add: lits_def)

lemma full_own [simp]: "full i (lits v r) (v @ s) c = full i r s c"
  by (induction v) auto







text \<open>An expression that can only go on at a slash.\<close>

definition at_slash :: "bool \<Rightarrow> re \<Rightarrow> bool" where
  "at_slash i r \<longleftrightarrow> (\<forall>x s c. x \<noteq> CHR ''/'' \<longrightarrow> full i r (x # s) c = [])"

lemma lower_slash [simp]: "lower x = CHR ''/'' \<longleftrightarrow> x = CHR ''/''" "lower (CHR ''/'') = CHR ''/''"
proof -
  show "lower (CHR ''/'') = CHR ''/''" by (simp add: lower_def)
  have "lower x \<noteq> CHR ''/''" if "65 \<le> (of_char x :: nat)" "(of_char x :: nat) \<le> 90"
  proof
    assume "lower x = CHR ''/''"
    then have "(of_char (lower x) :: nat) = 47" by simp
    with that show False by (simp add: lower_def)
  qed
  then show "lower x = CHR ''/'' \<longleftrightarrow> x = CHR ''/''" by (auto simp: lower_def)
qed



text \<open>The expression \<open>R\<close> reads the text \<open>v\<close> with the captures \<open>x\<close> and goes on with \<open>r\<close>.\<close>

definition carries :: "bool \<Rightarrow> re \<Rightarrow> re \<Rightarrow> string \<Rightarrow> (nat \<times> string) list \<Rightarrow> bool" where
  "carries i r R v x \<longleftrightarrow> (\<forall>t c'. at_slash i r \<longrightarrow> t = [] \<or> hd t = CHR ''/'' \<longrightarrow> full i R (v @ t) c' = full i r t (x @ c'))"

lemma carries_simps [simp]: "carries i r r [] []" "carries i r (Seq (Lit y) R) (y # v) x = carries i r R v x"
  "carries i r (lits u R) (u @ v) x = carries i r R v x"
  by (simp_all add: carries_def)



section \<open>Links\<close>

























section \<open>Patterns\<close>

text \<open>A printer of patterns: a segment is a text, a parameter, or a text and a parameter.\<close>

definition escape_static :: "string \<Rightarrow> string" where
  "escape_static v = concat (map (\<lambda>c. if c = CHR ''/'' \<or> c = CHR '':'' then [CHR 0x5C, c] else [c]) v)"

definition escape_regexp :: "string \<Rightarrow> string" where
  "escape_regexp v = concat (map (\<lambda>c. if c = CHR '')'' then [CHR 0x5C, c] else [c]) v)"

definition modifiers :: "bool \<Rightarrow> bool \<Rightarrow> string" where
  "modifiers h y = (if h then if y then ''*'' else ''+'' else if y then ''?'' else [])"

fun token_pattern :: "path_token \<Rightarrow> string" where
  "token_pattern (Static v) = escape_static v"
| "token_pattern (Param m b h y) = CHR '':'' # m @ (if b = [] then [] else ''('' @ escape_regexp b @ '')'') @ modifiers h y"

definition pattern_text :: "path_token list list \<Rightarrow> string" where
  "pattern_text e = concat (map (\<lambda>s. CHR ''/'' # concat (map token_pattern s)) e)"

fun static_ok :: "path_token \<Rightarrow> bool" where
  "static_ok (Static v) = (v \<noteq> [] \<and> CHR 0x5C \<notin> set v)"
| "static_ok (Param m b h y) = False"

fun param_ok :: "path_token \<Rightarrow> bool" where
  "param_ok (Static v) = False"
| "param_ok (Param m b h y) = (m \<noteq> [] \<and> list_all name_char m \<and> (b \<noteq> [] \<longrightarrow> last b \<noteq> CHR 0x5C))"

fun pattern_segment_ok :: "path_token list \<Rightarrow> bool" where
  "pattern_segment_ok [p] = (static_ok p \<or> param_ok p)"
| "pattern_segment_ok [p, q] = (static_ok p \<and> param_ok q)"
| "pattern_segment_ok _ = False"

lemma name_char_plain: "name_char c \<Longrightarrow> c \<noteq> CHR 0x5C \<and> c \<noteq> CHR ''('' \<and> c \<noteq> CHR ''/'' \<and> \<not> modifier c"
  by (auto simp: name_char_def modifier_def)

lemma loop_read:
  "u \<noteq> CHR 0x5C \<or> tk_state t = In_regexp \<Longrightarrow> read_char u t = Inr (False, t') \<Longrightarrow> tokenize_loop (u # us) t = tokenize_loop us t'"
  by (auto simp: tokenize_loop.simps(2))

lemma loop_escape:
  assumes "tk_state t = Text" "u \<noteq> CHR 0x5C"
  shows "tokenize_loop (CHR 0x5C # u # us) t = tokenize_loop us (t\<lparr>tk_prev := Text, tk_buf := tk_buf t @ [u]\<rparr>)"
  using assms by (cases t) (simp add: tokenize_loop.simps(2) read_char_def addCharToBuffer_def)

lemma loop_static:
  "tk_state t = Text \<Longrightarrow> CHR 0x5C \<notin> set v \<Longrightarrow> \<exists>p. tokenize_loop (escape_static v @ us) t = tokenize_loop us (t\<lparr>tk_prev := p, tk_buf := tk_buf t @ v\<rparr>)"
proof (induction v arbitrary: t)
  case Nil
  have "t\<lparr>tk_prev := tk_prev t, tk_buf := tk_buf t @ []\<rparr> = t" by simp
  moreover have "escape_static [] @ us = us" by (simp add: escape_static_def)
  ultimately show ?case by metis
next
  case (Cons x v)
  have "\<exists>p. tokenize_loop (escape_static (x # v) @ us) t = tokenize_loop (escape_static v @ us) (t\<lparr>tk_prev := p, tk_buf := tk_buf t @ [x]\<rparr>)"
  proof (cases "x = CHR ''/'' \<or> x = CHR '':''")
    case True
    then show ?thesis
      using loop_escape [OF Cons.prems(1), of x] by (auto simp: escape_static_def)
  next
    case False
    then have "read_char x t = Inr (False, t\<lparr>tk_prev := tk_prev t, tk_buf := tk_buf t @ [x]\<rparr>)"
      using Cons.prems by (simp add: read_char_def addCharToBuffer_def)
    with False show ?thesis
      using loop_read [of x t] Cons.prems(2) by (intro exI [of _ "tk_prev t"]) (auto simp: escape_static_def)
  qed
  then obtain p where "tokenize_loop (escape_static (x # v) @ us) t = tokenize_loop (escape_static v @ us) (t\<lparr>tk_prev := p, tk_buf := tk_buf t @ [x]\<rparr>)"
    by blast
  with Cons.IH [of "t\<lparr>tk_prev := p, tk_buf := tk_buf t @ [x]\<rparr>"] Cons.prems show ?case by simp
qed

lemma loop_name:
  "tk_state t = In_param \<Longrightarrow> list_all name_char m \<Longrightarrow> tokenize_loop (m @ us) t = tokenize_loop us (t\<lparr>tk_buf := tk_buf t @ m\<rparr>)"
proof (induction m arbitrary: t)
  case (Cons x m)
  then have "read_char x t = Inr (False, t\<lparr>tk_buf := tk_buf t @ [x]\<rparr>)" "x \<noteq> CHR 0x5C"
    using name_char_plain [of x] by (auto simp: read_char_def addCharToBuffer_def)
  from loop_read [OF disjI1 [OF this(2)] this(1)] Cons show ?case by simp
qed simp

lemma loop_regexp:
  "tk_state t = In_regexp \<Longrightarrow> tokenize_loop (escape_regexp b @ us) t = tokenize_loop us (t\<lparr>tk_re := tk_re t @ b\<rparr>)"
proof (induction b arbitrary: t)
  case (Cons x b)
  have "tokenize_loop (escape_regexp (x # b) @ us) t = tokenize_loop (escape_regexp b @ us) (t\<lparr>tk_re := tk_re t @ [x]\<rparr>)"
    using Cons.prems by (cases "x = CHR '')''") (auto simp: escape_regexp_def loop_read read_char_def)
  with Cons show ?case by simp
qed (simp add: escape_regexp_def)


text \<open>The state after the text of a segment: consuming the buffer completes it.\<close>

definition pending :: "path_token list \<Rightarrow> path_token list list \<Rightarrow> tokenizer \<Rightarrow> bool" where
  "pending s segs t \<longleftrightarrow> tk_state t \<in> {Text, In_param, After_param} \<and> tk_segs t = segs \<and> (tk_state t \<noteq> After_param \<longrightarrow> tk_re t = []) \<and>
     (\<forall>u. tk_state t = Text \<or> \<not> modifier u \<longrightarrow> consumeBuffer u t = Inr (t\<lparr>tk_seg := s, tk_buf := []\<rparr>))"

definition clean :: "tokenizer \<Rightarrow> bool" where
  "clean t \<longleftrightarrow> tk_state t = Text \<and> tk_buf t = [] \<and> tk_re t = [] \<and> tk_seg t = []"

lemma pendingD: "pending s segs t \<Longrightarrow> tk_state t = Text \<or> \<not> modifier u \<Longrightarrow> consumeBuffer u t = Inr (t\<lparr>tk_seg := s, tk_buf := []\<rparr>)"
  unfolding pending_def by blast

lemma slash_plain [simp]: "\<not> modifier (CHR ''/'')" "\<not> name_char (CHR ''/'')" "\<not> modifier (CHR '':'')"
  by (simp_all add: modifier_def name_char_def)

lemma consume_empty [simp]: "tk_buf t = [] \<Longrightarrow> consumeBuffer u t = Inr t"
  by (simp add: consumeBuffer_def)

lemma loop_again:
  "u \<noteq> CHR 0x5C \<Longrightarrow> read_char u t = Inr (True, t') \<Longrightarrow> tokenize_loop (u # us) t = tokenize_loop (u # us) t'"
  by (subst tokenize_loop.simps(2)) simp

lemma loop_slash_text:
  assumes "tk_state t = Text" "consumeBuffer (CHR ''/'') t = Inr (t\<lparr>tk_seg := s, tk_buf := []\<rparr>)" "tk_re t = []"
  shows "\<exists>t'. tokenize_loop (CHR ''/'' # us) t = tokenize_loop us t' \<and> clean t' \<and> tk_segs t' = tk_segs t @ [s]"
proof -
  have "read_char (CHR ''/'') t = Inr (False, finalizeSegment (t\<lparr>tk_seg := s, tk_buf := []\<rparr>))"
    using assms by (auto simp: read_char_def)
  from loop_read [OF _ this] assms show ?thesis
    by (auto simp: clean_def finalizeSegment_def)
qed

lemma loop_slash:
  assumes "pending s segs t"
  shows "\<exists>t'. tokenize_loop (CHR ''/'' # us) t = tokenize_loop us t' \<and> clean t' \<and> tk_segs t' = segs @ [s]"
proof (cases "tk_state t = Text")
  case True
  then show ?thesis
    using assms loop_slash_text [of t s us] by (auto simp: pending_def)
next
  case False
  with assms have c: "consumeBuffer (CHR ''/'') t = Inr (t\<lparr>tk_seg := s, tk_buf := []\<rparr>)" and st: "tk_state t = In_param \<and> tk_re t = [] \<or> tk_state t = After_param"
    by (auto simp: pending_def)
  then obtain t1 where "read_char (CHR ''/'') t = Inr (True, t1)" and t1: "tk_state t1 = Text" "tk_seg t1 = s" "tk_buf t1 = []" "tk_re t1 = []" "tk_segs t1 = tk_segs t"
    by (fastforce simp: read_char_def)
  then have "tokenize_loop (CHR ''/'' # us) t = tokenize_loop (CHR ''/'' # us) t1"
    by (simp add: loop_again)
  moreover have "consumeBuffer (CHR ''/'') t1 = Inr (t1\<lparr>tk_seg := s, tk_buf := []\<rparr>)"
    using t1 by (cases t1) simp
  ultimately show ?thesis
    using loop_slash_text [of t1 s us] t1 assms by (auto simp: pending_def)
qed

lemma loop_modifiers:
  assumes "tk_state t = In_param \<and> tk_re t = [] \<or> tk_state t = After_param" "tk_buf t = m" "m \<noteq> []" "length (tk_seg t) \<le> 1"
  shows "\<exists>t'. tokenize_loop (modifiers h y @ us) t = tokenize_loop us t' \<and> pending (tk_seg t @ [Param m (tk_re t) h y]) (tk_segs t) t' \<and>
    (modifiers h y \<noteq> [] \<longrightarrow> tk_state t' = Text)"
proof (cases "h \<or> y")
  case False
  with assms show ?thesis
    by (auto simp: modifiers_def pending_def consumeBuffer_def modifier_def intro!: exI [of _ t])
next
  case True
  then obtain u where u: "modifiers h y = [u]" "h = (u \<in> {CHR ''*'', CHR ''+''})" "y = (u \<in> {CHR ''*'', CHR ''?''})" "modifier u"
    by (cases h; cases y) (auto simp: modifiers_def modifier_def)
  then have n: "u \<noteq> CHR 0x5C" "u \<noteq> CHR ''(''" "\<not> name_char u"
    by (auto simp: modifier_def name_char_def)
  have "consumeBuffer u t = Inr (t\<lparr>tk_seg := tk_seg t @ [Param m (tk_re t) h y], tk_buf := []\<rparr>)"
    using assms u by (auto simp: consumeBuffer_def)
  then have "\<exists>t'. read_char u t = Inr (False, t') \<and> tk_state t' = Text \<and> tk_buf t' = [] \<and> tk_re t' = [] \<and>
      tk_seg t' = tk_seg t @ [Param m (tk_re t) h y] \<and> tk_segs t' = tk_segs t"
    using assms(1) n u(4) by (elim disjE conjE) (simp_all add: read_char_def)
  then obtain t' where t': "read_char u t = Inr (False, t')" "tk_state t' = Text" "tk_buf t' = []" "tk_re t' = []"
      "tk_seg t' = tk_seg t @ [Param m (tk_re t) h y]" "tk_segs t' = tk_segs t" by blast
  from loop_read [OF disjI1 [OF n(1)] t'(1)] t'(2-) show ?thesis
    by (cases t') (auto simp: u(1) pending_def)
qed


lemma loop_param:
  assumes "tk_state t = Text" "tk_re t = []" "consumeBuffer (CHR '':'') t = Inr (t\<lparr>tk_seg := sg, tk_buf := []\<rparr>)"
    "length sg \<le> 1" "param_ok (Param m b h y)"
  shows "\<exists>t'. tokenize_loop (token_pattern (Param m b h y) @ us) t = tokenize_loop us t' \<and> pending (sg @ [Param m b h y]) (tk_segs t) t' \<and>
    (modifiers h y \<noteq> [] \<longrightarrow> tk_state t' = Text)"
proof -
  let ?t = "t\<lparr>tk_seg := sg, tk_buf := m, tk_state := In_param\<rparr>"
  have m: "m \<noteq> []" "list_all name_char m" "b \<noteq> [] \<longrightarrow> last b \<noteq> CHR 0x5C" using assms(5) by simp_all
  have "read_char (CHR '':'') t = Inr (False, t\<lparr>tk_seg := sg, tk_buf := [], tk_state := In_param\<rparr>)"
    using assms(1, 3) by (simp add: read_char_def)
  from loop_read [OF _ this] have name: "tokenize_loop (CHR '':'' # m @ vs) t = tokenize_loop vs ?t" for vs
    using m(2) by (cases t) (simp add: loop_name)
  show ?thesis
  proof (cases "b = []")
    case True
    then show ?thesis
      using loop_modifiers [of ?t m h y us] name m(1) assms(2, 4) by simp
  next
    case False
    let ?r = "t\<lparr>tk_seg := sg, tk_buf := m, tk_state := In_regexp\<rparr>"
    let ?a = "t\<lparr>tk_seg := sg, tk_buf := m, tk_re := b, tk_state := After_param\<rparr>"
    have "tokenize_loop (''('' @ vs) ?t = tokenize_loop vs ?r" for vs
      by (simp add: loop_read read_char_def)
    moreover have "tokenize_loop (escape_regexp b @ vs) ?r = tokenize_loop vs (?r\<lparr>tk_re := b\<rparr>)" for vs
      using loop_regexp [of ?r b vs] assms(2) by simp
    moreover have "tokenize_loop ('')'' @ vs) (?r\<lparr>tk_re := b\<rparr>) = tokenize_loop vs ?a" for vs
      using False m(3) by (cases t) (simp add: loop_read read_char_def)
    ultimately show ?thesis
      using loop_modifiers [of ?a m h y us] name m(1) assms(4) False by simp
  qed
qed

lemma last_param:
  "param_ok (Param m b h y) \<Longrightarrow> modifiers h y = [] \<Longrightarrow> \<not> modifier (last (token_pattern (Param m b h y)))"
  using name_char_plain [of "last m"] by (auto simp: modifier_def list_all_iff)

lemma token_pattern_nonempty: "static_ok p \<or> param_ok p \<Longrightarrow> token_pattern p \<noteq> []"
proof (cases p)
  case (Static v)
  assume "static_ok p \<or> param_ok p"
  then show ?thesis by (cases v) (auto simp: Static escape_static_def)
qed simp

definition segment_pattern :: "path_token list \<Rightarrow> string" where
  "segment_pattern s = concat (map token_pattern s)"

lemma loop_one:
  assumes "clean t" "static_ok p"
  obtains v t' where "p = Static v" "tokenize_loop (token_pattern p @ us) t = tokenize_loop us t'" "tk_state t' = Text" "tk_re t' = []"
    "tk_segs t' = tk_segs t" "\<And>u. consumeBuffer u t' = Inr (t'\<lparr>tk_seg := [p], tk_buf := []\<rparr>)"
proof -
  obtain v where v: "p = Static v" "v \<noteq> []" "CHR 0x5C \<notin> set v" using assms(2) by (cases p) auto
  obtain q where "tokenize_loop (escape_static v @ us) t = tokenize_loop us (t\<lparr>tk_prev := q, tk_buf := tk_buf t @ v\<rparr>)"
    using loop_static [OF _ v(3), of t us] assms(1) by (auto simp: clean_def)
  with that [of v "t\<lparr>tk_prev := q, tk_buf := tk_buf t @ v\<rparr>"] show thesis
    using v assms(1) by (simp add: clean_def consumeBuffer_def)
qed

lemma loop_segment:
  assumes "clean t" "pattern_segment_ok s"
  shows "\<exists>t'. tokenize_loop (segment_pattern s @ us) t = tokenize_loop us t' \<and> pending s (tk_segs t) t' \<and>
    (tk_state t' = Text \<or> \<not> modifier (last (segment_pattern s)))"
proof -
  consider (static) p where "s = [p]" "static_ok p" | (param) p where "s = [p]" "param_ok p"
    | (both) p q where "s = [p, q]" "static_ok p" "param_ok q"
    using assms(2) by (cases s rule: pattern_segment_ok.cases) auto
  then show ?thesis
  proof cases
    case static
    obtain v t' where "tokenize_loop (token_pattern p @ us) t = tokenize_loop us t'" "tk_state t' = Text"
      "tk_re t' = []" "tk_segs t' = tk_segs t" "\<And>u. consumeBuffer u t' = Inr (t'\<lparr>tk_seg := [p], tk_buf := []\<rparr>)"
      using loop_one [OF assms(1) static(2)] by metis
    then show ?thesis
      using static(1) by (simp add: segment_pattern_def pending_def exI [of _ t'])
  next
    case param
    then obtain m b h y where p: "p = Param m b h y" by (cases p) auto
    have "t\<lparr>tk_seg := [], tk_buf := []\<rparr> = t" using assms(1) by (cases t) (simp add: clean_def)
    with loop_param [of t "[]" m b h y us] last_param [of m b h y] param p assms(1) show ?thesis
      by (auto simp: segment_pattern_def clean_def)
  next
    case both
    then obtain m b h y where q: "q = Param m b h y" by (cases q) auto
    obtain v t' where t': "tokenize_loop (token_pattern p @ token_pattern q @ us) t = tokenize_loop (token_pattern q @ us) t'" "tk_state t' = Text"
      "tk_re t' = []" "tk_segs t' = tk_segs t" "\<And>u. consumeBuffer u t' = Inr (t'\<lparr>tk_seg := [p], tk_buf := []\<rparr>)"
      using loop_one [OF assms(1) both(2)] by metis
    have "last (segment_pattern s) = last (token_pattern q)"
      using token_pattern_nonempty both by (simp add: segment_pattern_def)
    with loop_param [of t' "[p]" m b h y us] last_param [of m b h y] t' both q show ?thesis
      by (auto simp: segment_pattern_def simp del: token_pattern.simps)
  qed
qed


lemma segment_pattern_nonempty: "pattern_segment_ok s \<Longrightarrow> segment_pattern s \<noteq> []"
  by (cases s rule: pattern_segment_ok.cases) (auto simp: segment_pattern_def token_pattern_nonempty)

lemma pattern_text_Cons: "pattern_text (s # e) = CHR ''/'' # segment_pattern s @ pattern_text e"
  by (simp add: pattern_text_def segment_pattern_def)

lemma loop_pattern:
  "clean t \<Longrightarrow> \<forall>s \<in> set (s # e). pattern_segment_ok s \<Longrightarrow> \<exists>t'. tokenize_loop (segment_pattern s @ pattern_text e) t = Inr t' \<and>
     pending (last (s # e)) (tk_segs t @ butlast (s # e)) t' \<and> (tk_state t' = Text \<or> \<not> modifier (last (segment_pattern s @ pattern_text e)))"
proof (induction e arbitrary: s t)
  case Nil
  then show ?case
    using loop_segment [of t s "[]"] by (simp add: pattern_text_def)
next
  case (Cons s' e)
  obtain t1 where t1: "tokenize_loop (segment_pattern s @ pattern_text (s' # e)) t = tokenize_loop (pattern_text (s' # e)) t1" "pending s (tk_segs t) t1"
    using loop_segment [OF Cons.prems(1)] Cons.prems(2) by (meson list.set_intros(1))
  obtain t2 where t2: "tokenize_loop (pattern_text (s' # e)) t1 = tokenize_loop (segment_pattern s' @ pattern_text e) t2" "clean t2" "tk_segs t2 = tk_segs t @ [s]"
    using loop_slash [OF t1(2)] by (metis pattern_text_Cons)
  have "segment_pattern s' @ pattern_text e \<noteq> []"
    using segment_pattern_nonempty Cons.prems(2) by simp
  then have "last (segment_pattern s @ pattern_text (s' # e)) = last (segment_pattern s' @ pattern_text e)"
    by (simp only: pattern_text_Cons last_append) simp
  with Cons.IH [OF t2(2), of s'] Cons.prems(2) t1(1) t2 show ?case by simp
qed

text \<open>The text of a pattern is read back as its segments: for segments that are a text without a backslash, a parameter, or a
  text and a parameter behind it, with names of word characters, expressions that do not end in a backslash, and any of the
  modifiers; slashes and colons of a text and closing brackets of an expression are escaped in the text of the pattern.\<close>
theorem pattern_round_trip:
  assumes "e \<noteq> []" "\<forall>s \<in> set e. pattern_segment_ok s"
  shows "tokenizePath (pattern_text e) = Inr e"
proof -
  obtain s e' where e: "e = s # e'" using assms(1) by (cases e) auto
  let ?t = "\<lparr>tk_state = Text, tk_prev = Text, tk_segs = [], tk_seg = [], tk_buf = [], tk_re = []\<rparr>"
  obtain t where t: "tokenize_loop (segment_pattern s @ pattern_text e') ?t = Inr t" "pending (last e) (butlast e) t"
    "tk_state t = Text \<or> \<not> modifier (last (segment_pattern s @ pattern_text e'))"
    using loop_pattern [of ?t s e'] assms(2) by (auto simp: clean_def e)
  have n: "segment_pattern s \<noteq> []" using segment_pattern_nonempty assms(2) e by simp
  then have "last (pattern_text e) = last (segment_pattern s @ pattern_text e')"
    by (simp add: e pattern_text_Cons)
  then have "consumeBuffer (last (pattern_text e)) t = Inr (t\<lparr>tk_seg := last e, tk_buf := []\<rparr>)"
    using pendingD [OF t(2)] t(3) by metis
  moreover have "butlast e @ [last e] = e" using assms(1) by simp
  ultimately show ?thesis
    using t n by (auto simp: tokenizePath_def e pattern_text_Cons pending_def finalizeSegment_def)
qed


text \<open>A backslash in front of a backslash leaves the tokenizer in the state of an escape for good.\<close>

lemma loop_stuck:
  "tk_state t = Escaped \<Longrightarrow> tk_prev t = Escaped \<Longrightarrow>
   \<exists>t'. tokenize_loop us t = Inr t' \<and> tk_state t' = Escaped \<and> tk_buf t' = tk_buf t @ filter (\<lambda>u. u \<noteq> CHR 0x5C) us"
proof (induction us arbitrary: t)
  case (Cons u us)
  show ?case
  proof (cases "u = CHR 0x5C")
    case True
    have "t\<lparr>tk_prev := tk_state t, tk_state := Escaped\<rparr> = t" using Cons.prems by (cases t) simp
    with True Cons.IH [OF Cons.prems] Cons.prems(1) show ?thesis by (simp add: tokenize_loop.simps(2))
  next
    case False
    have "read_char u t = Inr (False, t\<lparr>tk_buf := tk_buf t @ [u]\<rparr>)"
      using Cons.prems by (cases t) (simp add: read_char_def addCharToBuffer_def)
    with loop_read [OF disjI1 [OF False] this] Cons.IH [of "t\<lparr>tk_buf := tk_buf t @ [u]\<rparr>"] Cons.prems False show ?thesis
      by simp
  qed
qed simp

text \<open>A path pattern that escapes a backslash is always refused: the second backslash leaves the tokenizer in the state of
  an escape for good, all that follows goes into the buffer, and at the end the buffer cannot be consumed.\<close>
theorem escaped_backslash_rejected:
  assumes "v \<noteq> []" "set v \<inter> {CHR ''/'', CHR '':'', CHR 0x5C} = {}"
  shows "\<exists>c. tokenizePath (''/'' @ v @ [CHR 0x5C, CHR 0x5C] @ w) = Inl (Err 4 c ''Invalid state to consume buffer'')"
proof -
  let ?t = "\<lparr>tk_state = Text, tk_prev = Text, tk_segs = [], tk_seg = [], tk_buf = [], tk_re = []\<rparr>"
  have "escape_static v = v"
    using assms(2) by (induction v) (auto simp: escape_static_def)
  then obtain q where "tokenize_loop (v @ [CHR 0x5C, CHR 0x5C] @ w) ?t = tokenize_loop ([CHR 0x5C, CHR 0x5C] @ w) (?t\<lparr>tk_prev := q, tk_buf := v\<rparr>)"
    using loop_static [of ?t v "[CHR 0x5C, CHR 0x5C] @ w"] assms(2) by auto
  also have "\<dots> = tokenize_loop w (?t\<lparr>tk_prev := Escaped, tk_buf := v, tk_state := Escaped\<rparr>)"
    by (simp add: tokenize_loop.simps(2))
  finally obtain t' where "tokenize_loop (v @ [CHR 0x5C, CHR 0x5C] @ w) ?t = Inr t'" "tk_state t' = Escaped" "tk_buf t' \<noteq> []"
    using loop_stuck [of "?t\<lparr>tk_prev := Escaped, tk_buf := v, tk_state := Escaped\<rparr>" w] assms(1) by auto
  then show ?thesis
    using assms(1) by (simp add: tokenizePath_def consumeBuffer_def)
qed


section \<open>Examples\<close>


theorem pattern_round_trip_witness:
  "tokenizePath (''/a'' @ [CHR 0x5C] @ '':b:id([0-9]+)*/:x?'') = Inr [[Static ''a:b'', Param ''id'' ''[0-9]+'' True True], [Param ''x'' [] False True]]"
proof -
  have "pattern_text [[Static ''a:b'', Param ''id'' ''[0-9]+'' True True], [Param ''x'' [] False True]] = ''/a'' @ [CHR 0x5C] @ '':b:id([0-9]+)*/:x?''"
    by code_simp
  then show ?thesis
    using pattern_round_trip [of "[[Static ''a:b'', Param ''id'' ''[0-9]+'' True True], [Param ''x'' [] False True]]"]
    by (simp add: name_char_def)
qed

theorem escaped_backslash_rejected_witness:
  "\<exists>c. tokenizePath (''/a'' @ [CHR 0x5C, CHR 0x5C] @ ''b'') = Inl (Err 4 c ''Invalid state to consume buffer'')"
  using escaped_backslash_rejected [of "''a''" "''b''"] by simp

end
