(* ===== verification/Route_Table.thy ===== *)
theory Route_Table
  imports Route_Links
begin

text \<open>
  Laws of the matcher of routes (\<open>Route_Matcher\<close>): its records, their order and their names stay consistent when routes
  are added and removed, and the pages that the paths of the dashboard lead to.
\<close>

section \<open>Consistency of the store\<close>

definition node_ok :: "nat \<Rightarrow> nat \<Rightarrow> matcher \<Rightarrow> bool" where
  "node_ok n d m \<longleftrightarrow> (\<forall>k \<in> set (mt_children m). d < k \<and> k < n) \<and> (case mt_parent m of None \<Rightarrow> True | Some p \<Rightarrow> p < d)"

definition tree_ok :: "matcher list \<Rightarrow> bool" where
  "tree_ok ms \<longleftrightarrow> (\<forall>d < length ms. node_ok (length ms) d (ms ! d))"

definition lists_ok :: "route_store \<Rightarrow> bool" where
  "lists_ok st \<longleftrightarrow> distinct (rs_order st) \<and> (\<forall>d \<in> set (rs_order st). d < length (rs_all st)) \<and> distinct (map fst (rs_names st)) \<and>
     (\<forall>(m, d) \<in> set (rs_names st). d \<in> set (rs_order st) \<and> mt_name (rs_all st ! d) = Some m)"

definition store_ok :: "route_store \<Rightarrow> bool" where
  "store_ok st \<longleftrightarrow> tree_ok (rs_all st) \<and> lists_ok st"

lemma index_of_None: "index_of x xs = None \<longleftrightarrow> x \<notin> set xs"
  by (induction xs) auto

lemma splice_index: "index_of x xs = Some i \<Longrightarrow> splice_out i xs = remove1 x xs"
  by (induction xs arbitrary: i) (auto simp: splice_out_def split: if_splits)

lemma remove1_filter: "distinct xs \<Longrightarrow> remove1 x xs = filter (\<lambda>y. y \<noteq> x) xs"
  by (simp add: distinct_remove1_removeAll removeAll_filter_not_eq eq_commute [of x])

lemma filter_keys: "distinct (map fst xs) \<Longrightarrow> distinct (map fst (filter P xs))"
  by (induction xs) auto

text \<open>What every removal does to a list that is in order: the record leaves the order and its name the names.\<close>

definition unlist :: "nat \<Rightarrow> route_store \<Rightarrow> route_store" where
  "unlist d st = st\<lparr>rs_order := filter (\<lambda>e. e \<noteq> d) (rs_order st),
     rs_names := (case mt_name (rs_all st ! d) of None \<Rightarrow> rs_names st | Some n \<Rightarrow> filter (\<lambda>(m, _). m \<noteq> n) (rs_names st))\<rparr>"

lemma unlist_ok: "store_ok st \<Longrightarrow> store_ok (unlist d st)"
  by (fastforce simp: store_ok_def lists_ok_def unlist_def filter_keys split: option.splits)

lemma remove_matcher_unlist:
  "store_ok st \<Longrightarrow> remove_matcher (Suc f) d st = (if d \<in> set (rs_order st)
     then fold (remove_matcher f) (mt_children (rs_all st ! d)) (unlist d st) else st)"
  using index_of_None [of d "rs_order st"]
  by (cases "index_of d (rs_order st)")
    (simp_all add: splice_index remove1_filter store_ok_def lists_ok_def unlist_def Let_def)

lemma remove_name_unlist:
  assumes "store_ok st" "map_of (rs_names st) n = Some d"
  shows "remove_name n st = fold (remove_matcher (length (rs_all st))) (mt_children (rs_all st ! d)) (unlist d st)"
proof -
  have d: "d \<in> set (rs_order st)" "mt_name (rs_all st ! d) = Some n"
    using assms map_of_SomeD [OF assms(2)] by (auto simp: store_ok_def lists_ok_def)
  then obtain i where "index_of d (rs_order st) = Some i"
    by (cases "index_of d (rs_order st)") (auto simp: index_of_None)
  with assms d show ?thesis
    by (cases st) (simp add: remove_name_def unlist_def splice_index remove1_filter store_ok_def lists_ok_def)
qed

text \<open>What is below a record.\<close>

definition child :: "matcher list \<Rightarrow> (nat \<times> nat) set" where
  "child ms = {(d, k). k \<in> set (mt_children (ms ! d))}"

text \<open>\<open>s\<close> comes from \<open>st\<close> by taking out records in \<open>D\<close>.\<close>

definition taken :: "nat set \<Rightarrow> route_store \<Rightarrow> route_store \<Rightarrow> bool" where
  "taken D st s \<longleftrightarrow> store_ok s \<and> rs_all s = rs_all st \<and> (\<exists>Q. rs_order s = filter Q (rs_order st) \<and> (\<forall>e \<in> set (rs_order st). Q e \<or> e \<in> D)) \<and>
     set (rs_names s) \<subseteq> set (rs_names st)"

lemma taken_refl: "store_ok st \<Longrightarrow> taken D st st"
  by (auto simp: taken_def intro!: exI [of _ "\<lambda>_. True"])

lemma taken_trans: "taken D st s \<Longrightarrow> taken D s s' \<Longrightarrow> taken D st s'"
  by (force simp: taken_def)

lemma taken_mono: "taken D st s \<Longrightarrow> D \<subseteq> D' \<Longrightarrow> taken D' st s"
  by (fastforce simp: taken_def)

lemma taken_unlist: "store_ok st \<Longrightarrow> d \<in> D \<Longrightarrow> taken D st (unlist d st)"
  by (auto simp: taken_def unlist_ok) (auto simp: unlist_def split: option.splits)

lemma remove_matcher_taken: "store_ok st \<Longrightarrow> taken ((child (rs_all st))\<^sup>* `` {d}) st (remove_matcher f d st)"
proof (induction f arbitrary: d st)
  case 0
  then show ?case by (simp add: taken_refl)
next
  case (Suc f)
  let ?D = "(child (rs_all st))\<^sup>* `` {d}"
  have "taken ?D st (fold (remove_matcher f) (mt_children (rs_all st ! d)) (unlist d st))"
  proof (rule fold_keeps)
    fix k s
    assume k: "k \<in> set (mt_children (rs_all st ! d))" and s: "taken ?D st s"
    then have "(d, k) \<in> child (rs_all st)" by (simp add: child_def)
    then have "(child (rs_all st))\<^sup>* `` {k} \<subseteq> ?D" by (auto intro: converse_rtrancl_into_rtrancl)
    moreover have "taken ((child (rs_all st))\<^sup>* `` {k}) s (remove_matcher f k s)"
      using Suc.IH [of s k] s by (simp add: taken_def)
    ultimately show "taken ?D st (remove_matcher f k s)"
      using s by (blast intro: taken_trans taken_mono)
  qed (simp add: taken_unlist Suc.prems)
  then show ?case
    using Suc.prems by (simp only: remove_matcher_unlist taken_refl split: if_split) simp
qed


lemma remove_children_taken:
  assumes "taken D st s" "\<And>k. k \<in> set ks \<Longrightarrow> (child (rs_all st))\<^sup>* `` {k} \<subseteq> D"
  shows "taken D st (fold (remove_matcher f) ks s)"
proof (rule fold_keeps)
  fix k s
  assume k: "k \<in> set ks" and s: "taken D st s"
  moreover have "taken ((child (rs_all st))\<^sup>* `` {k}) s (remove_matcher f k s)"
    using remove_matcher_taken [of s k f] s by (simp add: taken_def)
  ultimately show "taken D st (remove_matcher f k s)"
    using assms(2) by (blast intro: taken_trans taken_mono)
qed (rule assms(1))

text \<open>Removing a route by its name: the name is free and the route is out of the order of matching, the other routes keep their
  order, only routes below it go with it, and the store stays consistent; in particular the position that is taken out is
  always found, so that \<open>splice\<close> never takes the last route instead.\<close>
theorem remove_name_effect:
  assumes "store_ok st" "map_of (rs_names st) n = Some d"
  shows "store_ok (remove_name n st) \<and> map_of (rs_names (remove_name n st)) n = None \<and> d \<notin> set (rs_order (remove_name n st)) \<and>
    (\<exists>Q. rs_order (remove_name n st) = filter Q (rs_order st) \<and> (\<forall>e \<in> set (rs_order st). Q e \<or> (d, e) \<in> (child (rs_all st))\<^sup>*))"
proof -
  let ?D = "(child (rs_all st))\<^sup>* `` {d}"
  let ?u = "unlist d st"
  have n: "mt_name (rs_all st ! d) = Some n"
    using assms map_of_SomeD [OF assms(2)] by (auto simp: store_ok_def lists_ok_def)
  have u: "store_ok ?u" "rs_all ?u = rs_all st" using unlist_ok [OF assms(1)] by (simp_all add: unlist_def)
  have D: "(child (rs_all st))\<^sup>* `` {k} \<subseteq> ?D" if "k \<in> set (mt_children (rs_all st ! d))" for k
    using that by (auto simp: child_def intro: converse_rtrancl_into_rtrancl)
  have "taken ?D st (remove_name n st)"
    unfolding remove_name_unlist [OF assms] by (rule remove_children_taken) (use assms D in \<open>auto simp: taken_unlist\<close>)
  moreover have "taken ?D ?u (remove_name n st)"
    unfolding remove_name_unlist [OF assms] by (rule remove_children_taken) (use u D in \<open>auto simp: taken_refl\<close>)
  ultimately show ?thesis
    using n by (fastforce simp: taken_def unlist_def map_of_eq_None_iff)
qed

lemma remove_name_ok: "store_ok st \<Longrightarrow> store_ok (remove_name n st) \<and> rs_all (remove_name n st) = rs_all st \<and>
   set (rs_order (remove_name n st)) \<subseteq> set (rs_order st)"
proof (cases "map_of (rs_names st) n")
  case (Some d)
  assume "store_ok st"
  then have "taken UNIV st (remove_name n st)"
    unfolding remove_name_unlist [OF \<open>store_ok st\<close> Some] by (intro remove_children_taken) (auto simp: taken_unlist)
  then show ?thesis by (auto simp: taken_def)
qed (simp add: remove_name_def)

text \<open>The number of records is fuel enough for a removal: every child is younger than its parent.\<close>

lemma remove_matcher_fuel:
  "store_ok st \<Longrightarrow> length (rs_all st) \<le> f + d \<Longrightarrow> remove_matcher (f + j) d st = remove_matcher f d st"
proof (induction f arbitrary: d st)
  case 0
  then have "d \<notin> set (rs_order st)" by (auto simp: store_ok_def lists_ok_def)
  with 0 show ?case by (cases j) (simp_all add: remove_matcher_unlist del: remove_matcher.simps(2))
next
  case (Suc f)
  have "fold (remove_matcher (f + j)) ks s = fold (remove_matcher f) ks s"
    if "store_ok s" "rs_all s = rs_all st" "\<forall>k \<in> set ks. d < k" for ks s
    using that
  proof (induction ks arbitrary: s)
    case (Cons k ks)
    have "remove_matcher (f + j) k s = remove_matcher f k s"
      using Suc.IH [of s k] Cons.prems Suc.prems(2) by simp
    moreover have "store_ok (remove_matcher f k s)" "rs_all (remove_matcher f k s) = rs_all s"
      using remove_matcher_taken [OF Cons.prems(1), of k f] by (simp_all add: taken_def)
    ultimately show ?case using Cons by simp
  qed simp
  moreover have "\<forall>k \<in> set (mt_children (rs_all st ! d)). d < k" if "d \<in> set (rs_order st)"
    using Suc.prems(1) that unfolding store_ok_def lists_ok_def tree_ok_def node_ok_def by blast
  moreover have "rs_all (unlist d st) = rs_all st" by (simp add: unlist_def)
  ultimately show ?case
    using Suc.prems(1) unlist_ok by (simp add: remove_matcher_unlist del: remove_matcher.simps)
qed


text \<open>Adding routes.\<close>

lemma insert_at:
  "set (take i xs @ [x] @ drop i xs) = insert x (set xs)"
  "distinct (take i xs @ [x] @ drop i xs) \<longleftrightarrow> distinct xs \<and> x \<notin> set xs"
proof -
  obtain a b where ab: "take i xs = a" "drop i xs = b" "xs = a @ b" by (metis append_take_drop_id)
  show "set (take i xs @ [x] @ drop i xs) = insert x (set xs)" "distinct (take i xs @ [x] @ drop i xs) \<longleftrightarrow> distinct xs \<and> x \<notin> set xs"
    unfolding ab(1, 2) by (auto simp: ab(3))
qed

lemma insert_ok:
  assumes "store_ok st" "g < length (rs_all st)" "g \<notin> set (rs_order st)"
  shows "store_ok (insertMatcher g st)"
proof -
  let ?s = "insertMatcher g st"
  let ?i = "insert_position (rs_all st) g (rs_order st)"
  have "rs_order ?s = take ?i (rs_order st) @ [g] @ drop ?i (rs_order st)" and all: "rs_all ?s = rs_all st"
    by (simp_all add: insertMatcher_def Let_def)
  then have o: "set (rs_order ?s) = insert g (set (rs_order st))" "distinct (rs_order ?s)"
    using assms(1, 3) by (simp_all only: insert_at store_ok_def lists_ok_def) simp
  have "distinct (map fst (rs_names ?s)) \<and> (\<forall>x \<in> set (rs_names ?s). x \<in> set (rs_names st) \<or> snd x = g \<and> mt_name (rs_all st ! g) = Some (fst x))"
    using assms(1) by (auto simp: insertMatcher_def Let_def store_ok_def lists_ok_def filter_keys split: option.split)
  with o all assms show ?thesis
    unfolding store_ok_def lists_ok_def by fastforce
qed

lemma new_record_length [simp]: "length (rs_all (new_record f r st)) = Suc (length (rs_all st))"
  by (simp add: new_record_def split: option.split)

lemma new_record_nth:
  "d < length (rs_all st) \<Longrightarrow> rs_all (new_record f r st) ! d =
     (if f = Some d then (rs_all st ! d)\<lparr>mt_children := mt_children (rs_all st ! d) @ [length (rs_all st)]\<rparr> else rs_all st ! d)"
  by (auto simp: new_record_def nth_append split: option.split)

lemma new_record_last: "rs_all (new_record f r st) ! length (rs_all st) = r"
  by (auto simp: new_record_def nth_append split: option.split)

lemma new_record_ok:
  assumes "store_ok st" "\<forall>k. f = Some k \<longrightarrow> k < length (rs_all st)" "mt_parent r = f" "mt_children r = []"
  shows "store_ok (new_record f r st)"
proof -
  have "tree_ok (rs_all (new_record f r st))"
    unfolding tree_ok_def
  proof (intro allI impI)
    fix d
    assume "d < length (rs_all (new_record f r st))"
    then consider "d < length (rs_all st)" | "d = length (rs_all st)" by fastforce
    then show "node_ok (length (rs_all (new_record f r st))) d (rs_all (new_record f r st) ! d)"
    proof cases
      case 1
      then have "node_ok (length (rs_all st)) d (rs_all st ! d)" using assms(1) by (simp add: store_ok_def tree_ok_def)
      with 1 show ?thesis by (auto simp: new_record_nth node_ok_def)
    next
      case 2
      then show ?thesis using assms(2-4) by (simp add: new_record_last node_ok_def split: option.split)
    qed
  qed
  moreover have "rs_order (new_record f r st) = rs_order st" "rs_names (new_record f r st) = rs_names st"
    by (simp_all add: new_record_def)
  moreover have "mt_name (rs_all (new_record f r st) ! d) = mt_name (rs_all st ! d)" if "d < length (rs_all st)" for d
    using that by (simp add: new_record_nth)
  ultimately show ?thesis
    using assms(1) unfolding store_ok_def lists_ok_def by (auto split: prod.splits)
qed

definition parsers_ok :: "(string \<Rightarrow> re option) \<Rightarrow> options \<Rightarrow> route_store \<Rightarrow> bool" where
  "parsers_ok cre n st \<longleftrightarrow> (\<forall>m \<in> set (rs_all st). \<exists>e. tokenizePath (mt_path m) = Inr e \<and> tokensToParser cre n e = Inr (mt_parser m))"

lemma new_record_parsers:
  assumes "parsers_ok cre n st" "tokenizePath (mt_path r) = Inr e" "tokensToParser cre n e = Inr (mt_parser r)"
    "\<forall>k. f = Some k \<longrightarrow> k < length (rs_all st)"
  shows "parsers_ok cre n (new_record f r st)"
  unfolding parsers_ok_def
proof
  fix m
  assume "m \<in> set (rs_all (new_record f r st))"
  then have "m = r \<or> (\<exists>m' \<in> set (rs_all st). mt_path m = mt_path m' \<and> mt_parser m = mt_parser m')"
    using assms(4) by (auto simp: new_record_def dest!: set_update_subset_insert [THEN subsetD] split: option.splits)
  then show "\<exists>e. tokenizePath (mt_path m) = Inr e \<and> tokensToParser cre n e = Inr (mt_parser m)"
    using assms(1-3) by (auto simp: parsers_ok_def)
qed


text \<open>What adding keeps: the store, and the parsers of the records; only new records enter the order.\<close>

definition kept :: "(string \<Rightarrow> re option) \<Rightarrow> options \<Rightarrow> route_store \<Rightarrow> route_store \<Rightarrow> bool" where
  "kept cre n st st' \<longleftrightarrow> store_ok st' \<and> parsers_ok cre n st' \<and> length (rs_all st) \<le> length (rs_all st') \<and>
     set (rs_order st') \<subseteq> set (rs_order st) \<union> {length (rs_all st)..<length (rs_all st')}"

lemma route_kept_trans: "kept cre n st s \<Longrightarrow> kept cre n s s' \<Longrightarrow> kept cre n st s'"
  by (fastforce simp: kept_def)

lemma kept_new:
  assumes "store_ok st" "parsers_ok cre n st" "\<forall>k. f = Some k \<longrightarrow> k < length (rs_all st)"
    "tokenizePath (mt_path r) = Inr e" "tokensToParser cre n e = Inr (mt_parser r)" "mt_parent r = f" "mt_children r = []"
  shows "kept cre n st (register f r st)" "rs_all (register f r st) = rs_all (new_record f r st)"
    "set (rs_order (register f r st)) \<subseteq> set (rs_order st)"
proof -
  let ?r = "new_record f r st" and ?s = "register f r st"
  have r: "store_ok ?r" "parsers_ok cre n ?r" "rs_order ?r = rs_order st"
    using new_record_ok new_record_parsers assms by (simp_all add: new_record_def)
  show all: "rs_all ?s = rs_all ?r" and o: "set (rs_order ?s) \<subseteq> set (rs_order st)"
    using remove_name_ok [OF r(1)] r(3) by (auto simp: register_def Let_def split: option.split)
  have "store_ok ?s" using remove_name_ok [OF r(1)] r(1) by (simp add: register_def Let_def split: option.split)
  with all o r(2) show "kept cre n st ?s"
    by (auto simp: kept_def parsers_ok_def)
qed

lemma addRoute_kept:
  "addRoute cre n f r st = Inr st' \<Longrightarrow> store_ok st \<Longrightarrow> parsers_ok cre n st \<Longrightarrow> \<forall>k. f = Some k \<longrightarrow> k < length (rs_all st) \<Longrightarrow>
     kept cre n st st'"
  "addRoutes cre n f rs st = Inr st' \<Longrightarrow> store_ok st \<Longrightarrow> parsers_ok cre n st \<Longrightarrow> \<forall>k. f = Some k \<longrightarrow> k < length (rs_all st) \<Longrightarrow>
     kept cre n st st'"
proof (induction cre n f r st and cre n f rs st arbitrary: st' and st' rule: addRoute_addRoutes.induct)
  case (1 cre n f w name cmp red side cs st)
  let ?path = "full_path w (map_option (\<lambda>k. rs_all st ! k) f)"
  let ?g = "length (rs_all st)"
  obtain ts where ts: "tokenizePath ?path = Inr ts" using 1(2) by (auto simp: Let_def split: sum.splits)
  obtain pp where pp: "tokensToParser cre n ts = Inr pp" using 1(2) ts by (auto simp: Let_def split: sum.splits)
  let ?r = "\<lparr>mt_path = ?path, mt_name = name, mt_component = cmp, mt_redirect = red, mt_sidebar = side, mt_parser = pp,
             mt_parent = f, mt_children = []\<rparr>"
  let ?s = "register f ?r st"
  have s: "kept cre n st ?s" "rs_all ?s = rs_all (new_record f ?r st)" "set (rs_order ?s) \<subseteq> set (rs_order st)"
    using kept_new [of st cre n f ?r ts] 1(3-5) ts pp by simp_all
  obtain s2 where s2: "addRoutes cre n (Some ?g) cs ?s = Inr s2"
    "st' = (if cmp \<noteq> None \<or> name \<notin> {None, Some []} \<or> red \<notin> {None, Some []} then insertMatcher ?g s2 else s2)"
    using 1(2) ts pp by (auto simp: Let_def split: sum.splits)
  have k2: "kept cre n ?s s2"
    using 1(1) [OF refl refl ts pp s2(1)] s(1, 2) by (simp add: kept_def)
  have len: "length (rs_all ?s) = Suc ?g" by (simp add: s(2))
  have "?g \<notin> set (rs_order st)"
    using 1(3) by (auto simp: store_ok_def lists_ok_def)
  then have k: "kept cre n st s2" "?g < length (rs_all s2)" "?g \<notin> set (rs_order s2)"
    using route_kept_trans [OF s(1) k2] k2 s(3) unfolding kept_def len by auto
  moreover have "kept cre n st (insertMatcher ?g s2)"
    using k insert_ok [of s2 ?g] by (auto simp: kept_def parsers_ok_def insertMatcher_def Let_def dest: in_set_takeD in_set_dropD)
  ultimately show ?case
    by (simp add: s2(2))
next
  case (3 cre n f d ds st)
  obtain s where s: "addRoute cre n f d st = Inr s" "addRoutes cre n f ds s = Inr st'"
    using 3(3) by (auto split: sum.splits)
  have k: "kept cre n st s" by (rule 3(1) [OF s(1) 3(4-6)])
  moreover have "\<forall>k. f = Some k \<longrightarrow> k < length (rs_all s)"
    using k 3(6) by (fastforce simp: kept_def)
  with k have "kept cre n s st'"
    using 3(2) [OF s] by (simp add: kept_def)
  ultimately show ?case by (rule route_kept_trans)
qed (simp add: kept_def)


text \<open>Adding a route with all its children, also below another one, keeps the store consistent: the order names every record
  at most once and only records that exist, every name leads to a record in the order that has this name, parents are
  older than their children, and the parser of every record is that of its path; nothing but new records enters the order.\<close>
theorem adding_keeps_store:
  assumes "store_ok st" "parsers_ok cre n st" "addRoute cre n f r st = Inr st'" "\<forall>k. f = Some k \<longrightarrow> k < length (rs_all st)"
  shows "store_ok st' \<and> parsers_ok cre n st' \<and> length (rs_all st) \<le> length (rs_all st') \<and>
    set (rs_order st') \<subseteq> set (rs_order st) \<union> {length (rs_all st)..<length (rs_all st')}"
  using addRoute_kept(1) [OF assms(3, 1, 2, 4)] by (simp add: kept_def)

lemma empty_ok: "store_ok \<lparr>rs_all = [], rs_order = [], rs_names = []\<rparr>" "parsers_ok cre n \<lparr>rs_all = [], rs_order = [], rs_names = []\<rparr>"
  by (simp_all add: store_ok_def tree_ok_def lists_ok_def parsers_ok_def)

lemma created_ok: "createRouterMatcher cre n ds = Inr st \<Longrightarrow> store_ok st \<and> parsers_ok cre n st"
  using addRoute_kept(2) [OF _ empty_ok] by (simp add: createRouterMatcher_def kept_def)

section \<open>The routes of the dashboard\<close>



definition dash :: "(string \<Rightarrow> re option) \<Rightarrow> route_store" where
  "dash cre = (case createRouterMatcher cre default_options dashboard_routes of Inl _ \<Rightarrow> \<lparr>rs_all = [], rs_order = [], rs_names = []\<rparr> | Inr st \<Rightarrow> st)"

lemma dash_created: "createRouterMatcher cre default_options dashboard_routes = Inr (dash cre)"
proof -
  have "isl (createRouterMatcher cre default_options dashboard_routes) = False" by code_simp
  then show ?thesis by (auto simp: dash_def split: sum.split)
qed













text \<open>The start page is shown by the child with the empty path, which is in front of its parent and has no redirection: the
  redirection of the parent to \<open>/cluster\<close> is never followed.\<close>

theorem start_redirect_unused:
  "case resolve_path (dash cre) ''/'' of None \<Rightarrow> False | Some (d, c, ds) \<Rightarrow>
     mt_redirect (rs_all (dash cre) ! d) = None \<and> mt_redirect (rs_all (dash cre) ! hd ds) = Some ''/cluster''"
  by code_simp

text \<open>A route that is only a group, without component, name or redirection, is not in the order; its removal ends there and
  leaves its children in place.\<close>

definition grouped :: route_def where
  "grouped = Route ''/admin'' None None None False [Route ''users'' (Some ''users'') (Some ''Users'') None False []]"

theorem group_children_stay:
  "case addRoute (\<lambda>_. None) default_options None grouped \<lparr>rs_all = [], rs_order = [], rs_names = []\<rparr> of Inl e \<Rightarrow> False
   | Inr st \<Rightarrow> map_option fst (resolve_path (remove_matcher 2 0 st) ''/admin/users'') = Some 1 \<and> rs_order (remove_matcher 2 0 st) = rs_order st"
  by code_simp

section \<open>Examples\<close>

theorem adding_keeps_store_witness:
  "\<exists>st'. addRoute (\<lambda>_. None) default_options None (page ''node'' ''index-ca7faabf'' True) \<lparr>rs_all = [], rs_order = [], rs_names = []\<rparr> = Inr st' \<and>
     store_ok st' \<and> rs_order st' = [1, 0]"
proof -
  have "case addRoute (\<lambda>_. None) default_options None (page ''node'' ''index-ca7faabf'' True) \<lparr>rs_all = [], rs_order = [], rs_names = []\<rparr> of
      Inl e \<Rightarrow> False | Inr st \<Rightarrow> rs_order st = [1, 0]"
    by code_simp
  then obtain st' where st: "addRoute (\<lambda>_. None) default_options None (page ''node'' ''index-ca7faabf'' True) \<lparr>rs_all = [], rs_order = [], rs_names = []\<rparr> = Inr st'"
    "rs_order st' = [1, 0]"
    by (auto split: sum.splits)
  with adding_keeps_store [OF empty_ok st(1)] show ?thesis by auto
qed

theorem remove_name_effect_witness:
  "store_ok (remove_name ''node'' (dash (\<lambda>_. None))) \<and> 11 \<notin> set (rs_order (remove_name ''node'' (dash (\<lambda>_. None))))"
proof -
  have "store_ok (dash (\<lambda>_. None))" using created_ok [OF dash_created] by simp
  moreover have "map_of (rs_names (dash (\<lambda>_. None))) ''node'' = Some 11" by code_simp
  ultimately show ?thesis using remove_name_effect [of "dash (\<lambda>_. None)" "''node''" 11] by blast
qed

end
