(* ===== verification/Spec2Isabelle.thy ===== *)
theory Spec2Isabelle
  imports Cluster_Manager Dispatch Kill_Chain Key_Codec Login_Key Zoom_History Text_Layout Chart_Markup Lru_Cache Http_Headers
    Input_Field Ui_Widgets Time_Picker Rich_Text Chart_Legend Children_Diff Update_Ends Route_Table
begin

text \<open>
  A verification of parts of Eggroll: of its web dashboard, which is a bundle of JavaScript files
  under \<open>src/jvm/cluster_dashboard/src/main/resources/WEB-INF/assets\<close>, and of the cluster manager
  behind it, which is written in Java under \<open>src/jvm/cluster_manager\<close> and \<open>src/jvm/core\<close>.

  \<^bold>\<open>The program.\<close>  The dashboard logs a user in, polls the cluster for four figures, shows them as
  charts, and shows tables of processors, sessions and nodes with buttons that kill processors
  and sessions.  The cluster manager keeps sessions, their processors and the resources of
  the nodes in database tables, moves each of them through a state machine, and places the
  processors of waiting sessions on nodes.  A kill passes from a button of the dashboard
  through the service of the dashboard to the cluster manager.

  \<^bold>\<open>Shared theories.\<close>  \<open>Prelude\<close> has the state-and-exception computations of the Java code, its
  strings and tables, the invariant rules (\<open>preserves_intros\<close>) and the contract of a table with
  a primary key.  \<open>Js_Library\<close> has the string functions of JavaScript.  A string is a list of
  characters below 256.

  \<^bold>\<open>The dashboard.\<close>
  \<^item> \<open>Router\<close> (\<open>index-e87360db.js\<close>): query strings, URLs and resolving a location.  A query survives
    being printed and read.
  \<^item> \<open>Route_Matcher\<close>, \<open>Route_Links\<close>, \<open>Route_Table\<close> (\<open>index-e87360db.js\<close>, line 5): the tokens, expressions, scores and order of path patterns,
    the matcher with adding, removing and resolving, and the routes of the dashboard.  Expressions are matched as the
    language does, with captures and by the first way that succeeds.  Links and patterns survive being printed and read, the
    records of the matcher stay consistent, and exactly the eight pages of the dashboard have paths.
  \<^item> \<open>Dashboard\<close> (\<open>index-e87360db.js\<close>, \<open>index-7e4c6da8.js\<close>, \<open>index-710a5cd6.js\<close>, \<open>home-296339b0.js\<close>): the record
    \<open>browser\<close> is the state of a tab; the interceptors, the polls, login, logout, header and sidebar
    are functions on it, and the step relation \<open>event\<close> is what can happen to a tab.  The charts
    stay bounded in every reachable state; an expired session refuses every further request;
    a login leads back to the page it came from.
  \<^item> \<open>Dashboard_Views\<close> (\<open>index-199227cb.js\<close>, \<open>index-80153201.js\<close>, \<open>index-ca7faabf.js\<close>, \<open>index-2323a9fb.js\<close>,
    \<open>index-a677f04a.js\<close>, \<open>dialogTable-93e56230.js\<close>): one record per view, one function per handler.
  \<^item> \<open>Key_Codec\<close> (\<open>index-7e4c6da8.js\<close>): hexadecimal and Base64 texts, bytes and the armour of keys.  The
    two decoders agree and the armour can be taken off again.
  \<^item> \<open>Asn1_Reader\<close> (\<open>index-7e4c6da8.js\<close>): the stream, tags, lengths and the recursive decoder of ASN.1 with its
    exceptions, and the texts of an element.  The decoder returns on every input, and what a reference
    encoder writes is read back.
  \<^item> \<open>Big_Integer\<close> (\<open>index-7e4c6da8.js\<close>): numbers of 28-bit digits: clamping, sums, differences, bitwise operations, the
    readers and the printer.  Sums and differences are those of the integers, hexadecimal texts survive.
  \<^item> \<open>Login_Key\<close> (\<open>index-7e4c6da8.js\<close>): the writer of keys over that of ASN.1, and \<open>parseKey\<close> with its partial
    assignments.  A public and a private key survive being written and read.
  \<^item> \<open>Url_Pattern\<close> (\<open>index-e87360db.js\<close>): the patterns of the form validation as regular expressions, matched by
    derivatives.  The pattern for addresses of version six means what its reference says.
  \<^item> \<open>Form_Validation\<close> (\<open>index-e87360db.js\<close>, \<open>index-7e4c6da8.js\<close>): rules, validators, messages, the order in which they run,
    form items, forms and the login form.  The login is sent exactly when both fields are filled; accepting does not
    depend on the options; errors have messages; a rule of an unknown type is never enforced.
  \<^item> \<open>Input_Field\<close> (\<open>index-e87360db.js\<close>): the text input with composition, cursor and validation, as a step relation, and the
    height of a text area.  Element and model stay in step.
  \<^item> \<open>Ui_Widgets\<close> (\<open>index-e87360db.js\<close>): the progress ring, which fits its picture, and the hover zone of a menu, which has at most one timer pending.
  \<^item> \<open>Time_Picker\<close> (\<open>index-e87360db.js\<close>): available times and the spinner.  An adjusted time is allowed, and a
    step of the spinner ends.
  \<^item> \<open>Longest_Sequence\<close>, \<open>Children_Diff\<close> (\<open>index-e87360db.js\<close>, \<open>w_\<close>, \<open>B\<close>, \<open>E\<close>): how the framework brings the children of an element up
    to date in the document.  The search finds a longest increasing sequence; afterwards the container holds the new children
    in order, with the old nodes where keys agree, and with as few moves as possible.
  \<^item> \<open>Update_Queue\<close> (\<open>index-e87360db.js\<close>, \<open>pp\<close>, \<open>Bk\<close>, \<open>Fk\<close>, \<open>hv\<close>, \<open>I0\<close>, \<open>P0\<close>): the scheduler of the framework, with jobs as a parameter.
    The locale \<open>scheduler_contract\<close> carries an invariant through everything that jobs can do; its interpretations keep
    the queue in order.  A flush runs its jobs once and in the order of their ranks; a callback that throws stops all later flushes.
    \<open>Update_Ends\<close> shows that all of this comes to an end for programs that call the scheduler only finitely often.
  \<^item> \<open>Http_Headers\<close> (\<open>index-e87360db.js\<close>): reading header blocks and the collection of headers.  The
    locale \<open>settings\<close> is the contract between the collection and the code that joins collections;
    it is interpreted on the collection of the bundle.
  \<^item> \<open>Data_View\<close> (\<open>home-296339b0.js\<close>): the text of a chart's numbers and its reader.  The locale
    \<open>number_text\<close> is what the round trip needs of numbers and their texts; it is interpreted on the integers below two to the 53
    with the reading of numbers that the language has.
  \<^item> \<open>Zoom_History\<close> (\<open>home-296339b0.js\<close>): the stack of zooms; undoing gives every range back.
  \<^item> \<open>Text_Layout\<close> (\<open>home-296339b0.js\<close>): truncation and wrapping.  Lines fit, and no character is lost.
  \<^item> \<open>Rich_Text\<close> (\<open>home-296339b0.js\<close>): styled parts of a text, its lines of tokens, their sizes and truncation, boxes and label places.  The lines of a text that
    is neither wrapped nor cut hold all of its characters; a part with a width of its own can throw.
  \<^item> \<open>Chart_Legend\<close> (\<open>home-296339b0.js\<close>): names, flags and actions of legends.  A single choice stays single, and legends
    follow each other.
  \<^item> \<open>Chart_Markup\<close> (\<open>home-296339b0.js\<close>): tooltips and SVG pictures as text, which are well nested.
  \<^item> \<open>Lru_Cache\<close> (\<open>home-296339b0.js\<close>): the cache of recent values over a store of entries.  It refines
    the list of keys in the order of their last use.

  \<^bold>\<open>The cluster manager.\<close>
  \<^item> \<open>Pojo\<close> and \<open>World\<close>: messages, tables, request context and pools of tasks.
  \<^item> \<open>State_Machine\<close> (\<open>AbstractStateMachine\<close>): \<open>changeStatus\<close>; its locale hands an invariant from the
    handlers to the machine.
  \<^item> \<open>Node_Resource\<close> (\<open>NodeResourceService\<close>): the counters of the nodes; each operation refines a step
    per row, keeps the counters within the capacity, and an allocation is undone by its return.
  \<^item> \<open>Resource_Machine\<close>, \<open>Processor_Machine\<close>, \<open>Session_Machine\<close>, \<open>Session_Manager\<close>, \<open>Session_Lifecycle\<close>: the three
    machines with all their handlers.  Ended sessions and processors stay as they are; what
    killing, stopping and activating do.
  \<^item> \<open>Dispatch\<close> (\<open>ClusterResourceManager\<close>): checking for free resources, the four strategies and the
    dispatcher thread.
  \<^item> \<open>Cluster_Manager\<close> (\<open>ClusterManagerService\<close>, \<open>JobServiceHandler\<close>): heartbeats, registration, watching.
  \<^item> \<open>Kill_Chain\<close> (\<open>ContainerStatusService\<close>): a kill from the button to the tables, and the buttons
    against the machines.

  \<^bold>\<open>Conventions.\<close>  A Java field that may be null is an option; a table is a list of rows; an exception
  is a value, and what was written before it stays.  \<open>changeStatus\<close> is a call that no other
  call interrupts; what may run between its line and its lock is the argument of \<open>changeStatus_between\<close>; asynchronous tasks wait in pools of 15.  The order of hash
  maps, shuffling, the JSON and protobuf codecs, the clock, the cipher of the login, date
  formatting and the measuring of texts are parameters.  A JavaScript object is a list of its
  entries in the order of insertion (in \<open>Http_Headers\<close> with array indices first), a promise is settled.  The longs of the counters of
  \<open>Node_Resource\<close> wrap around; other numbers of the Java code are integers, apart from the narrowing in \<open>Dispatch\<close>.

  \<^bold>\<open>Bounds.\<close>  Loops of the code that do not follow the data are functions with a
  termination proof (the rounds of \<open>shorten\<close>, the separators of \<open>split_blocks\<close>, the tags of \<open>nest\<close>).  The decoder of \<open>Asn1_Reader\<close>
  has fuel, one more than the bytes of its input, as every element takes a byte; that this is enough is the
  theorem \<open>asn1_decode_returns\<close>.  The search of the spinner in \<open>Time_Picker\<close> is a partial function, and that it
  ends is \<open>spinner_step_ends\<close>.  Jobs of \<open>Update_Queue\<close> can queue jobs without end, so running them has fuel; for jobs that queue
  only jobs of larger ranks, \<open>flush_runs_each_once\<close> says how much is enough, and for programs that ask something of the scheduler only finitely
  often, the theorems of \<open>Update_Ends\<close> say that some fuel is enough and that more of it changes nothing.
  The number of polls a session start waits for is the length of a list of the environment.

  \<^bold>\<open>Not modelled.\<close>  Rendering: the UI framework (reactivity, components, attributes, transitions), its component library and
  the drawing of charts only shape the screen, apart from the parts above.  The history of the
  browser and the guards of the router.  Of the login the RSA cipher, digests, multiplication, division and
  powers of big integers, ASN.1 integers and times as texts, and the object types of the writer that no key uses; the cipher is a
  parameter.  Nested fields, transformations and custom validators of forms, class names of inputs and widgets.  Servlets,
  injection and queries of the dashboard service, the node manager, the command line and the
  Python engine.  Failures of remote calls between the Java services.  Names that JavaScript
  objects inherit, used as keys of the cache in \<open>Lru_Cache\<close>.
\<close>

end
